(* ===== verification/Prelude.thy ===== *)
theory Prelude imports Main "HOL-Library.Word" "HOL-Library.Code_Target_Nat" begin

text \<open>
  Shared vocabulary of the development: the result type of fallible operations, the row
  operations that a database statement is made of, and the generic lemmas on them.

  A table is the list of its rows. A statement of the store is a selection of rows by a
  predicate (the \<open>Where\<close> clauses), followed by reading, changing or deleting
  the selected rows:
  \<^item> \<open>update_where P f rows\<close> is \<open>UPDATE ... SET f WHERE P\<close>;
  \<^item> \<open>delete_where P rows\<close> is \<open>DELETE ... WHERE P\<close>;
  \<^item> \<open>rows_affected P rows\<close> is the number of rows such a statement touches.
  A transaction returns either the error that rolled it back, and then the caller keeps the
  database it had, or the new database.
\<close>

named_theorems row_simps "how statements act on the rows of a table"

type_synonym time = int  \<comment> \<open>nanoseconds since the Unix epoch\<close>
type_synonym duration = int  \<comment> \<open>nanoseconds\<close>
type_synonym row_id = nat

abbreviation second :: duration where "second \<equiv> 1000000000"
abbreviation minute :: duration where "minute \<equiv> 60 * second"
abbreviation hour :: duration where "hour \<equiv> 60 * minute"

subsection \<open>Rows\<close>

definition update_where :: "('r \<Rightarrow> bool) \<Rightarrow> ('r \<Rightarrow> 'r) \<Rightarrow> 'r list \<Rightarrow> 'r list" where
  "update_where P f rows = map (\<lambda>r. if P r then f r else r) rows"

definition delete_where :: "('r \<Rightarrow> bool) \<Rightarrow> 'r list \<Rightarrow> 'r list" where
  "delete_where P rows = filter (\<lambda>r. \<not> P r) rows"

definition rows_affected :: "('r \<Rightarrow> bool) \<Rightarrow> 'r list \<Rightarrow> nat" where
  "rows_affected P rows = length (filter P rows)"

definition any_row :: "('r \<Rightarrow> bool) \<Rightarrow> 'r list \<Rightarrow> bool" where
  "any_row P rows = (\<exists>r \<in> set rows. P r)"

lemma set_update_where [row_simps]:
  "set (update_where P f rows) = (\<lambda>r. if P r then f r else r) ` set rows"
  by (simp add: update_where_def)

lemma set_delete_where [row_simps]: "set (delete_where P rows) = {r \<in> set rows. \<not> P r}"
  by (simp add: delete_where_def)

lemma length_update_where [simp]: "length (update_where P f rows) = length rows"
  by (simp add: update_where_def)

lemma update_where_Nil [simp]: "update_where P f [] = []"
  by (simp add: update_where_def)

lemma update_where_Cons [simp]:
  "update_where P f (r # rows) = (if P r then f r else r) # update_where P f rows"
  by (simp add: update_where_def)

lemma delete_where_Nil [simp]: "delete_where P [] = []"
  by (simp add: delete_where_def)

lemma delete_where_Cons [simp]:
  "delete_where P (r # rows) = (if P r then delete_where P rows else r # delete_where P rows)"
  by (simp add: delete_where_def)

lemma map_key_update_where:
  assumes "\<And>r. k (f r) = k r"
  shows "map k (update_where P f rows) = map k rows"
  by (simp add: update_where_def assms)

lemma update_where_none: "(\<And>r. r \<in> set rows \<Longrightarrow> \<not> P r) \<Longrightarrow> update_where P f rows = rows"
  by (induction rows) auto

lemma distinct_map_delete_where: "distinct (map k rows) \<Longrightarrow> distinct (map k (delete_where P rows))"
  by (simp add: delete_where_def distinct_map_filter)

lemma in_update_where_cases:
  assumes "r' \<in> set (update_where P f rows)"
  obtains (hit) r where "r \<in> set rows" "P r" "r' = f r"
  | (miss) "r' \<in> set rows" "\<not> P r'"
  using assms by (auto simp: set_update_where split: if_splits)

lemma rows_affected_eq_0 [row_simps]: "rows_affected P rows = 0 \<longleftrightarrow> (\<forall>r \<in> set rows. \<not> P r)"
  by (auto simp: rows_affected_def filter_empty_conv)

lemma rows_affected_1_ex: "rows_affected P rows = 1 \<Longrightarrow> \<exists>r \<in> set rows. P r"
  using rows_affected_eq_0[of P rows] by auto

lemma distinct_key_eq:
  "distinct (map k rows) \<Longrightarrow> a \<in> set rows \<Longrightarrow> b \<in> set rows \<Longrightarrow> k a = k b \<Longrightarrow> a = b"
  by (meson distinct_map inj_onD)

lemma rows_affected_key:
  assumes "distinct (map k rows)" and "r \<in> set rows" and "P r"
    and "\<And>x. x \<in> set rows \<Longrightarrow> P x \<Longrightarrow> k x = k r"
  shows "rows_affected P rows = 1"
proof -
  have "set (filter P rows) = {r}"
    using assms by (auto dest: distinct_key_eq)
  moreover have "distinct (filter P rows)"
    using assms(1) by (simp add: distinct_map)
  ultimately show ?thesis
    unfolding rows_affected_def by (metis distinct_card card.empty card_insert_if finite.emptyI
        empty_iff One_nat_def)
qed

lemma find_SomeD: "find P xs = Some x \<Longrightarrow> x \<in> set xs \<and> P x"
  by (induction xs) (auto split: if_splits)

lemma find_None: "find P xs = None \<longleftrightarrow> (\<forall>x \<in> set xs. \<not> P x)"
  by (induction xs) auto

lemma find_key:
  assumes "distinct (map k rows)" and "r \<in> set rows"
  shows "find (\<lambda>x. k x = k r) rows = Some r"
  using assms by (induction rows) (auto simp: rev_image_eqI)

lemma find_update_where:
  assumes "\<And>r. k (f r) = k r"
  shows "find (\<lambda>x. k x = i) (update_where P f rows) =
         map_option (\<lambda>r. if P r then f r else r) (find (\<lambda>x. k x = i) rows)"
  by (induction rows) (auto simp: assms)

lemma find_delete_where:
  assumes "distinct (map k rows)"
  shows "find (\<lambda>x. k x = i) (delete_where P rows) =
         (case find (\<lambda>x. k x = i) rows of Some r \<Rightarrow> if P r then None else Some r | None \<Rightarrow> None)"
  using assms by (induction rows) (auto simp: rev_image_eqI split: option.splits dest: find_SomeD)

lemma find_snoc: "find P (xs @ [x]) = (case find P xs of Some y \<Rightarrow> Some y | None \<Rightarrow> if P x then Some x else None)"
  by (induction xs) auto

lemma find_map_same:
  assumes "\<And>x. x \<in> set xs \<Longrightarrow> P (f x) = P x"
  shows "find P (map f xs) = map_option f (find P xs)"
  using assms by (induction xs) auto

lemma find_row_iff:
  assumes "distinct (map k rows)"
  shows "find (\<lambda>x. k x = i) rows = Some r \<longleftrightarrow> r \<in> set rows \<and> k r = i"
  using find_SomeD find_key [OF assms] by fastforce

subsection \<open>Results\<close>

text \<open>
  \<open>'e + 'a\<close> is the result of a fallible operation: \<open>Inl e\<close> for the error,
  \<open>Inr x\<close> for the value.
\<close>

fun is_ok :: "'e + 'a \<Rightarrow> bool" where
  "is_ok (Inl e) = False"
| "is_ok (Inr x) = True"

lemma is_ok_iff: "is_ok r \<longleftrightarrow> (\<exists>x. r = Inr x)"
  by (cases r) auto

fun state_after :: "'s \<Rightarrow> 'e + 's \<Rightarrow> 's" where
  \<comment> \<open>what a transaction leaves: a failed one is rolled back\<close>
  "state_after s (Inl e) = s"
| "state_after s (Inr s') = s'"

end
