(* ===== verification/Models.thy ===== *)
theory Models imports Prelude begin

text \<open>
  The data model of \<open>internal/models\<close>: the database rows of servers, backups,
  transfers, schedules, accounts and their grants, with the methods the rows carry.
  A Go pointer field is an \<open>option\<close> (nil is \<open>None\<close>), a \<open>uint\<close> primary key is
  a \<open>row_id\<close> (0 is "no row"), a string type with a fixed set of constants is a
  datatype, a Go string is the list of its bytes and a Go \<open>map[string]string\<close> is a map.
\<close>

type_synonym env_map = "string \<rightharpoonup> string"
type_synonym int32 = int  \<comment> \<open>port numbers: no operation on them leaves the int32 range\<close>

subsection \<open>Ports, exposure, resources and status (server.go, template.go)\<close>

datatype DesiredState = StateRunning | StateStopped | StateSuspended

datatype Phase =
    PhaseInstalling | PhaseStarting | PhaseRunning | PhaseStopping | PhaseStopped
  | PhaseCrashed | PhaseSuspended | PhaseHibernated | PhaseError | PhaseUnset

record Hibernation =
  hb_enabled :: bool
  hb_idleMinutes :: int
  hb_wakeOnConnect :: bool
  hb_proxy :: bool

definition WakesOnConnect :: "Hibernation \<Rightarrow> bool" where
  "WakesOnConnect h = (hb_enabled h \<and> (hb_wakeOnConnect h \<or> hb_proxy h))"

datatype ExposeType = ExposeUnset | ExposeClusterIP | ExposeNodePort | ExposeLoadBalancer

record PublicAddress =
  pa_host :: string
  pa_ports :: "string \<rightharpoonup> int"

record Expose =
  ex_type :: ExposeType
  ex_annotations :: env_map
  ex_preserveClientIP :: "bool option"
  ex_public :: "PublicAddress option"

definition ServiceType :: "Expose \<Rightarrow> ExposeType" where
  "ServiceType e = (if ex_type e = ExposeUnset then ExposeClusterIP else ex_type e)"

definition External :: "Expose \<Rightarrow> bool" where
  "External e = (let t = ServiceType e in t = ExposeNodePort \<or> t = ExposeLoadBalancer)"

definition LocalTraffic :: "Expose \<Rightarrow> bool" where
  "LocalTraffic e = (case ex_preserveClientIP e of Some b \<Rightarrow> b | None \<Rightarrow> External e)"

record PortSpec =
  ps_name :: string
  ps_port :: int32
  ps_protocol :: string
  ps_primary :: bool
  ps_nodePort :: int32

record Storage =
  st_type :: string
  st_size :: string
  st_storageClass :: string

record Resources =
  rs_memory :: string
  rs_cpu :: string

record PortEndpoint =
  pe_port :: int32
  pe_protocol :: string
  pe_address :: string
  pe_primary :: bool

record Status =
  ss_phase :: Phase
  ss_endpoints :: "string list"
  ss_address :: string
  ss_portEndpoints :: "PortEndpoint list"
  ss_message :: string
  ss_crashCount :: int
  ss_diskUsed :: int
  ss_installedGeneration :: int
  ss_startedContainer :: string
  ss_startupMissed :: bool

subsection \<open>Backups and transfers (backup.go, transfer.go)\<close>

datatype BackupDirection = DirBackup | DirRestore | DirDatabaseImport

datatype BackupPhase =
  BackupPending | BackupRunning | BackupSucceeded | BackupFailed | BackupDeleting

record Backup =
  bk_id :: row_id
  bk_created_at :: time
  bk_completed_at :: "time option"
  bk_server_id :: row_id
  bk_direction :: BackupDirection
  bk_phase :: BackupPhase
  bk_source_id :: row_id
  bk_size_bytes :: int
  bk_message :: string
  bk_job_name :: string
  bk_job_spec :: string
  bk_job_uid :: string
  bk_cluster_id :: "row_id option"
  bk_forgotten :: bool
  bk_target :: string
  bk_databases :: "string list"
  bk_with_databases :: bool
  bk_ignored :: string
  bk_full :: bool
  bk_database_id :: row_id
  bk_path :: string
  bk_wipe :: bool

datatype TransferPhase = TransferBackingUp | TransferRestoring | TransferCommitting

record TransferState =
  tr_phase :: TransferPhase
  tr_source_cluster :: row_id
  tr_target_cluster :: row_id
  tr_backup_id :: row_id
  tr_restore_id :: row_id
  tr_prev_state :: DesiredState
  tr_started_at :: time
  tr_message :: string
  tr_cancelled :: bool

subsection \<open>Servers (server.go)\<close>

record Server =
  sv_id :: row_id
  sv_slug :: string
  sv_created_at :: time
  sv_updated_at :: time
  sv_display_name :: string
  sv_owner_id :: row_id
  sv_template_id :: row_id
  sv_template_version :: int
  sv_image :: string
  sv_image_pins :: env_map
  sv_startup :: string
  sv_namespace :: string
  sv_cluster_id :: row_id
  sv_desired_state :: DesiredState
  sv_resources :: Resources
  sv_env :: env_map
  sv_secret_env_enc :: string
  sv_storage :: Storage
  sv_ports :: "PortSpec list"
  sv_expose :: Expose
  sv_node_selector :: env_map
  sv_sftp_enabled :: bool
  sv_reaches :: "string list"
  sv_eula_accepted :: bool
  sv_install_generation :: int
  sv_install_wipe :: bool
  sv_install_keep :: "string list"
  sv_reinstall_keep :: "string list"
  sv_hibernation :: Hibernation
  sv_hibernated :: bool
  sv_last_active_at :: "time option"
  sv_restart_requested_at :: "time option"
  sv_transfer :: "TransferState option"
  sv_status :: Status

definition RunImage :: "Server \<Rightarrow> string \<Rightarrow> string" where
  \<comment> \<open>a map read of a missing key is the empty string\<close>
  "RunImage s ref =
     (let d = (case sv_image_pins s ref of None \<Rightarrow> [] | Some d \<Rightarrow> d) in
      if d \<noteq> [] \<and> CHR ''@'' \<notin> set ref then ref @ ''@'' @ d else ref)"

definition Replicas :: "Server \<Rightarrow> nat" where
  "Replicas s =
     (if sv_desired_state s = StateRunning \<and> \<not> sv_hibernated s \<and> sv_restart_requested_at s = None
      then 1 else 0)"

subsection \<open>Node port allocations (portalloc.go)\<close>

record PortAllocation =
  al_id :: row_id
  al_node_port :: int32
  al_server_id :: row_id
  al_port_name :: string

subsection \<open>Schedules (schedule.go)\<close>

datatype ScheduleAction =
    SchedStart | SchedStop | SchedRestart | SchedCommand | SchedBackup
  | SchedOther string  \<comment> \<open>any other string, the empty one included\<close>

abbreviation SchedNone :: ScheduleAction where "SchedNone \<equiv> SchedOther []"

record ScheduleTask =
  tk_action :: ScheduleAction
  tk_payload :: string
  tk_time_offset :: int
  tk_continue_on_failure :: bool

record ScheduleRun =
  rn_generation :: nat
  rn_fired :: time
  rn_next :: nat
  rn_due :: time
  rn_backup :: row_id
  rn_done :: "string list"

record Schedule =
  sc_id :: row_id
  sc_server_id :: row_id
  sc_name :: string
  sc_cron :: string
  sc_tasks :: "ScheduleTask list"
  sc_action :: ScheduleAction
  sc_payload :: string
  sc_enabled :: bool
  sc_timezone :: string
  sc_next_run :: "time option"
  sc_last_run :: "time option"
  sc_last_status :: string
  sc_run :: "ScheduleRun option"
  sc_generation :: nat

definition TaskChain :: "Schedule \<Rightarrow> ScheduleTask list" where
  "TaskChain sc =
     (if sc_tasks sc \<noteq> [] then sc_tasks sc
      else if sc_action sc \<noteq> SchedNone then
        [\<lparr>tk_action = sc_action sc, tk_payload = sc_payload sc,
          tk_time_offset = 0, tk_continue_on_failure = False\<rparr>]
      else [])"

subsection \<open>Accounts and their grants (user.go, access.go, adminrole.go, invite.go, ...)\<close>

record User =
  us_id :: row_id
  us_username :: string
  us_password_hash :: string
  us_email :: string
  us_email_verified :: bool
  us_pending_email :: string
  us_is_admin :: bool
  us_admin_role_id :: "row_id option"
  us_created_at :: time
  us_updated_at :: time
  us_admin_perms :: "string list"
  us_max_servers :: int
  us_max_memory_mb :: int
  us_max_cpu_milli :: int
  us_totp_secret_enc :: string
  us_totp_enabled :: bool
  us_last_totp_step :: "64 word"
  us_recovery_codes :: "string list"

definition QuotaUnlimited :: int where
  "QuotaUnlimited = -1"

definition Bounded :: "int \<Rightarrow> bool" where
  "Bounded quota = (quota \<noteq> QuotaUnlimited)"

definition HasAdminPerm :: "User option \<Rightarrow> string \<Rightarrow> bool" where
  "HasAdminPerm u p = (case u of None \<Rightarrow> False
     | Some u \<Rightarrow> us_is_admin u \<or> (\<exists>x \<in> set (us_admin_perms u). x = p))"

definition IsAnyAdmin :: "User option \<Rightarrow> bool" where
  "IsAnyAdmin u = (case u of None \<Rightarrow> False
     | Some u \<Rightarrow> us_is_admin u \<or> us_admin_perms u \<noteq> [])"

record Session =
  se_token :: string
  se_user_id :: row_id
  se_expires_at :: time
  se_created_at :: time

record ServerAccess =
  ac_id :: row_id
  ac_server_id :: row_id
  ac_user_id :: row_id
  ac_permissions :: "string list"

definition PermView :: string where "PermView = ''view''"

definition AllPermissions :: "string list" where
  "AllPermissions = [PermView, ''power'', ''console'', ''schedules'', ''backups'', ''files'',
     ''settings'', ''databases'', ''delete'']"

definition ValidPermission :: "string \<Rightarrow> bool" where
  "ValidPermission p = (\<exists>x \<in> set AllPermissions. x = p)"

definition Access_Has :: "ServerAccess \<Rightarrow> string \<Rightarrow> bool" where
  "Access_Has a p = (\<exists>x \<in> set (ac_permissions a). x = p)"

definition AdminPermServers :: string where "AdminPermServers = ''servers''"

definition AllAdminPermissions :: "string list" where
  "AllAdminPermissions = [AdminPermServers, ''users'', ''templates'', ''clusters'',
     ''database-hosts'', ''notifications'', ''settings'', ''audit'']"

definition ValidAdminPermission :: "string \<Rightarrow> bool" where
  "ValidAdminPermission p = (\<exists>x \<in> set AllAdminPermissions. x = p)"

record AdminRole =
  ar_id :: row_id
  ar_name :: string
  ar_description :: string
  ar_permissions :: "string list"

definition Role_Has :: "AdminRole \<Rightarrow> string \<Rightarrow> bool" where
  "Role_Has r p = (\<exists>x \<in> set (ar_permissions r). x = p)"

record ServerInvite =
  iv_id :: row_id
  iv_created_at :: time
  iv_server_id :: row_id
  iv_email :: string
  iv_permissions :: "string list"
  iv_invited_by :: row_id
  iv_token_hash :: string
  iv_expires_at :: time

record PasswordReset =
  pr_id :: row_id
  pr_user_id :: row_id
  pr_token_hash :: string
  pr_expires_at :: time
  pr_created_at :: time

record EmailConfirmation =
  ec_id :: row_id
  ec_user_id :: row_id
  ec_email :: string
  ec_token_hash :: string
  ec_expires_at :: time
  ec_created_at :: time

record APIKey =
  ak_id :: row_id
  ak_created_at :: time
  ak_user_id :: row_id
  ak_name :: string
  ak_prefix :: string
  ak_hash :: string
  ak_last_used_at :: "time option"

record SSHKey =
  sk_id :: row_id
  sk_created_at :: time
  sk_user_id :: row_id
  sk_name :: string
  sk_public_key :: string
  sk_fingerprint :: string

record FileUpload =
  fu_id :: string
  fu_created_at :: time
  fu_server_id :: row_id
  fu_user_id :: row_id
  fu_path :: string
  fu_kind :: string
  fu_format :: string
  fu_size :: int
  fu_expires_at :: time
  fu_locked_until :: time

record SFTPCursor =
  cu_server_id :: row_id
  cu_seen :: time

record RateCounter =
  rc_key :: string
  rc_count :: int
  rc_reset_at :: time

subsection \<open>Activity (notification.go, audit.go)\<close>

record Event =
  ev_id :: row_id
  ev_created_at :: time
  ev_type :: string
  ev_server_id :: row_id
  ev_user_id :: row_id
  ev_username :: string
  ev_message :: string
  ev_data :: env_map

record AuditEntry =
  au_id :: row_id
  au_created_at :: time
  au_user_id :: row_id
  au_username :: string
  au_server_id :: row_id
  au_action :: string
  au_detail :: string

definition EventServerPortMoved :: string where "EventServerPortMoved = ''server.port-moved''"
definition EventScheduleRun :: string where "EventScheduleRun = ''schedule.run''"

end
