(* ===== verification/Store_Db.thy ===== *)
theory Store_Db imports Models begin

text \<open>
  The database handle of \<open>internal/store\<close>: one list of rows per table, the errors the
  store returns, and \<open>lockServer\<close>/\<open>lockUser\<close>, which every transaction that must
  not race starts with. Every exported method of the store is one transaction or one
  statement, which the database runs as a unit, so each is modelled as one function from the
  database to a result. The parts supplied by the database and by gorm are arguments: the
  primary key of a new row, and the clock that stamps \<open>updated_at\<close> on every update of a
  model that has one. A statement failing for a reason outside the model (a lost connection)
  is not modelled: the caller then sees an error and the database is as it was.
\<close>

datatype store_error =
    ErrNotFound | ErrDuplicate | ErrNoFreeNodePort | ErrInvalidRange | ErrRestoreActive
  | ErrDatabaseImportActive | ErrServerRunning | ErrTransferActive | ErrTransferChanged
  | ErrTransferOperationActive | ErrScheduleActive | ErrCredentialsChanged
  | ErrConfirmationInvalid | ErrRecordNotFound | ErrDuplicatedKey | ErrSealing | ErrRetentionWaiting | ErrReassignToSelf

record db =
  servers :: "Server list"
  backups :: "Backup list"
  ports :: "PortAllocation list"
  schedules :: "Schedule list"
  users :: "User list"
  sessions :: "Session list"
  accesses :: "ServerAccess list"
  invites :: "ServerInvite list"
  resets :: "PasswordReset list"
  confirmations :: "EmailConfirmation list"
  api_keys :: "APIKey list"
  ssh_keys :: "SSHKey list"
  uploads :: "FileUpload list"
  cursors :: "SFTPCursor list"
  rate_counters :: "RateCounter list"
  events :: "Event list"
  audits :: "AuditEntry list"
  admin_roles :: "AdminRole list"

type_synonym db_result = "store_error + db"

definition lockServer :: "row_id \<Rightarrow> db \<Rightarrow> store_error + Server" where
  "lockServer i d = (case find (\<lambda>s. sv_id s = i) (servers d) of
     None \<Rightarrow> Inl ErrNotFound | Some srv \<Rightarrow> Inr srv)"

definition lockUser :: "row_id \<Rightarrow> db \<Rightarrow> store_error + User" where
  "lockUser i d = (case find (\<lambda>u. us_id u = i) (users d) of
     None \<Rightarrow> Inl ErrNotFound | Some u \<Rightarrow> Inr u)"

definition GetServer :: "row_id \<Rightarrow> db \<Rightarrow> store_error + Server" where
  "GetServer i d = (case find (\<lambda>s. sv_id s = i) (servers d) of
     None \<Rightarrow> Inl ErrNotFound | Some srv \<Rightarrow> Inr srv)"

definition GetServerBySlug :: "string \<Rightarrow> db \<Rightarrow> store_error + Server" where
  "GetServerBySlug slug d = (case find (\<lambda>s. sv_slug s = slug) (servers d) of
     None \<Rightarrow> Inl ErrNotFound | Some srv \<Rightarrow> Inr srv)"

text \<open>\<open>db.Model(&Server{}).Where("id = ?", id).Updates(...)\<close>: gorm stamps the row.\<close>

definition update_server :: "time \<Rightarrow> row_id \<Rightarrow> (Server \<Rightarrow> Server) \<Rightarrow> db \<Rightarrow> db" where
  "update_server clk i f d =
     d\<lparr>servers := update_where (\<lambda>s. sv_id s = i) (\<lambda>s. (f s)\<lparr>sv_updated_at := clk\<rparr>) (servers d)\<rparr>"

definition update_backup :: "row_id \<Rightarrow> (Backup \<Rightarrow> Backup) \<Rightarrow> db \<Rightarrow> db" where
  "update_backup i f d =
     d\<lparr>backups := update_where (\<lambda>b. bk_id b = i) f (backups d)\<rparr>"

definition update_user :: "time \<Rightarrow> row_id \<Rightarrow> (User \<Rightarrow> User) \<Rightarrow> db \<Rightarrow> db" where
  "update_user clk i f d =
     d\<lparr>users := update_where (\<lambda>u. us_id u = i) (\<lambda>u. (f u)\<lparr>us_updated_at := clk\<rparr>) (users d)\<rparr>"

text \<open>\<open>tx.Create\<close> on a table with a unique index: \<open>clash r\<close> picks the rows that share its key.\<close>

definition insert_unique :: "('r \<Rightarrow> 'r \<Rightarrow> bool) \<Rightarrow> 'r \<Rightarrow> 'r list \<Rightarrow> store_error + 'r list" where
  "insert_unique clash r rows = (if any_row (clash r) rows then Inl ErrDuplicatedKey else Inr (rows @ [r]))"

lemma insert_unique_Inr [row_simps]:
  "insert_unique clash r rows = Inr rows' \<longleftrightarrow> rows' = rows @ [r] \<and> (\<forall>x \<in> set rows. \<not> clash r x)"
  by (auto simp: insert_unique_def any_row_def)

definition AddEvent :: "time \<Rightarrow> row_id \<Rightarrow> Event \<Rightarrow> db \<Rightarrow> db" where
  "AddEvent clk new_id e d = d\<lparr>events := events d @ [e\<lparr>ev_id := new_id, ev_created_at := clk\<rparr>]\<rparr>"

definition AddAudit :: "time \<Rightarrow> row_id \<Rightarrow> AuditEntry \<Rightarrow> db \<Rightarrow> db" where
  "AddAudit clk new_id e d = d\<lparr>audits := audits d @ [e\<lparr>au_id := new_id, au_created_at := clk\<rparr>]\<rparr>"

lemma AddEvent_frame [simp]:
  "servers (AddEvent c n e d) = servers d" "backups (AddEvent c n e d) = backups d"
  "ports (AddEvent c n e d) = ports d" "schedules (AddEvent c n e d) = schedules d"
  by (simp_all add: AddEvent_def)

lemma AddAudit_frame [simp]:
  "servers (AddAudit c n e d) = servers d" "backups (AddAudit c n e d) = backups d"
  "ports (AddAudit c n e d) = ports d" "schedules (AddAudit c n e d) = schedules d"
  by (simp_all add: AddAudit_def)

definition op_active :: "BackupPhase \<Rightarrow> bool" where
  \<comment> \<open>\<open>phase IN (Pending, Running)\<close>\<close>
  "op_active p = (p = BackupPending \<or> p = BackupRunning)"

lemma op_active_simps [simp]:
  "op_active BackupPending" "op_active BackupRunning" "\<not> op_active BackupSucceeded"
  "\<not> op_active BackupFailed" "\<not> op_active BackupDeleting"
  by (simp_all add: op_active_def)

lemma lockServer_Inr [simp]:
  "lockServer i d = Inr srv \<longleftrightarrow> find (\<lambda>s. sv_id s = i) (servers d) = Some srv"
  by (auto simp: lockServer_def split: option.splits)

lemma lockServer_InrD: "lockServer i d = Inr srv \<Longrightarrow> srv \<in> set (servers d) \<and> sv_id srv = i"
  by (auto dest: find_SomeD)

text \<open>Statements on one table leave the others alone.\<close>

lemma update_server_frame [simp]:
  "backups (update_server c i f d) = backups d" "ports (update_server c i f d) = ports d"
  "schedules (update_server c i f d) = schedules d" "users (update_server c i f d) = users d"
  by (simp_all add: update_server_def)

lemma update_backup_frame [simp]:
  "servers (update_backup i f d) = servers d" "ports (update_backup i f d) = ports d"
  "schedules (update_backup i f d) = schedules d" "users (update_backup i f d) = users d"
  by (simp_all add: update_backup_def)

lemma update_user_frame [simp]:
  "servers (update_user c i f d) = servers d" "backups (update_user c i f d) = backups d"
  "sessions (update_user c i f d) = sessions d" "resets (update_user c i f d) = resets d"
  "confirmations (update_user c i f d) = confirmations d" "accesses (update_user c i f d) = accesses d"
  by (simp_all add: update_user_def)

lemma in_update_server:
  assumes "s' \<in> set (servers (update_server c i f d))"
  obtains (hit) s where "s \<in> set (servers d)" "sv_id s = i" "s' = (f s)\<lparr>sv_updated_at := c\<rparr>"
  | (miss) "s' \<in> set (servers d)" "sv_id s' \<noteq> i"
  using assms by (auto simp: update_server_def set_update_where split: if_splits)

lemma in_update_backup:
  assumes "b' \<in> set (backups (update_backup i f d))"
  obtains (hit) b where "b \<in> set (backups d)" "bk_id b = i" "b' = f b"
  | (miss) "b' \<in> set (backups d)" "bk_id b' \<noteq> i"
  using assms by (auto simp: update_backup_def set_update_where split: if_splits)

end
