(* ===== verification/Server_Power.thy ===== *)
theory Server_Power imports Store_Db begin

text \<open>
  Servers and their power state in the store (\<open>internal/store/store.go\<close>, Servers): how a
  server is created under a quota, started, restarted, hibernated and woken, reinstalled and
  deleted, and the guard \<open>offlineOperationActive\<close> that keeps a server down while a
  restore or a database import has its data.
\<close>

subsection \<open>What holds a server down\<close>

definition offlineOperationActive :: "row_id \<Rightarrow> db \<Rightarrow> store_error option" where
  "offlineOperationActive i d =
     (case find (\<lambda>s. sv_id s = i) (servers d) of
        None \<Rightarrow> Some ErrRecordNotFound
      | Some srv \<Rightarrow>
          if sv_transfer srv \<noteq> None then Some ErrTransferActive
          else
            (let dirs = map bk_direction
                   (filter (\<lambda>b. bk_server_id b = i
                      \<and> bk_direction b \<in> {DirRestore, DirDatabaseImport}
                      \<and> op_active (bk_phase b)) (backups d))
             in if DirRestore \<in> set dirs then Some ErrRestoreActive
                else if dirs \<noteq> [] then Some ErrDatabaseImportActive
                else None))"

subsection \<open>Power\<close>

definition SetDesiredState :: "time \<Rightarrow> row_id \<Rightarrow> DesiredState \<Rightarrow> db \<Rightarrow> db" where
  "SetDesiredState clk i state d = update_server clk i (sv_desired_state_update (\<lambda>_. state)) d"

definition laterActivity :: "time \<Rightarrow> time option \<Rightarrow> time option" where
  "laterActivity when last_active_at =
     (case last_active_at of
        None \<Rightarrow> Some when
      | Some t \<Rightarrow> if t < when then Some when else Some t)"

definition HibernateIfUnchanged :: "time \<Rightarrow> Server \<Rightarrow> db \<Rightarrow> bool \<times> db" where
  \<comment> \<open>the policies are compared as the JSON the column holds, which is injective on them\<close>
  "HibernateIfUnchanged clk observed d =
     (if \<not> hb_enabled (sv_hibernation observed) \<or> sv_desired_state observed \<noteq> StateRunning
         \<or> sv_hibernated observed
      then (False, d)
      else
        (let P = (\<lambda>s. sv_id s = sv_id observed \<and> sv_updated_at s = sv_updated_at observed
               \<and> sv_desired_state s = StateRunning \<and> \<not> sv_hibernated s
               \<and> sv_hibernation s = sv_hibernation observed
               \<and> sv_last_active_at s = sv_last_active_at observed)
         in (rows_affected P (servers d) = 1,
             d\<lparr>servers := update_where P
                  (\<lambda>s. s\<lparr>sv_hibernated := True, sv_updated_at := clk\<rparr>) (servers d)\<rparr>)))"

definition UpdateLastActive :: "time \<Rightarrow> row_id \<Rightarrow> time \<Rightarrow> db \<Rightarrow> db" where
  "UpdateLastActive clk i when d =
     d\<lparr>servers := update_where
         (\<lambda>s. sv_id s = i \<and> (case sv_last_active_at s of None \<Rightarrow> True | Some t \<Rightarrow> t < when))
         (\<lambda>s. s\<lparr>sv_last_active_at := Some when, sv_updated_at := clk\<rparr>) (servers d)\<rparr>"

definition Wake :: "time \<Rightarrow> row_id \<Rightarrow> time \<Rightarrow> db \<Rightarrow> db" where
  "Wake clk i when d =
     update_server clk i (\<lambda>s. s\<lparr>sv_hibernated := False,
        sv_last_active_at := laterActivity when (sv_last_active_at s)\<rparr>) d"

definition StartServer :: "time \<Rightarrow> row_id \<Rightarrow> time \<Rightarrow> db \<Rightarrow> db_result" where
  "StartServer clk i when d =
     (case lockServer i d of
        Inl e \<Rightarrow> Inl e
      | Inr _ \<Rightarrow>
          (case offlineOperationActive i d of
             Some e \<Rightarrow> Inl e
           | None \<Rightarrow> Inr (update_server clk i
               (\<lambda>s. s\<lparr>sv_desired_state := StateRunning, sv_hibernated := False,
                     sv_last_active_at := laterActivity when (sv_last_active_at s)\<rparr>) d)))"

definition RequestRestart :: "time \<Rightarrow> row_id \<Rightarrow> time \<Rightarrow> db \<Rightarrow> bool \<times> db" where
  "RequestRestart clk i when d =
     (let P = (\<lambda>s. sv_id s = i \<and> sv_desired_state s = StateRunning \<and> \<not> sv_hibernated s)
      in (rows_affected P (servers d) = 1,
          d\<lparr>servers := update_where P
              (\<lambda>s. s\<lparr>sv_restart_requested_at := Some when, sv_updated_at := clk\<rparr>) (servers d)\<rparr>))"

definition FinishRestart :: "time \<Rightarrow> row_id \<Rightarrow> db \<Rightarrow> db" where
  "FinishRestart clk i d = update_server clk i (sv_restart_requested_at_update (\<lambda>_. None)) d"

definition UpdateServerHibernation ::
  "time \<Rightarrow> row_id \<Rightarrow> Hibernation \<Rightarrow> time option \<Rightarrow> db \<Rightarrow> db" where
  "UpdateServerHibernation clk i h rearmAt d =
     update_server clk i (\<lambda>s. s\<lparr>sv_hibernation := h,
        sv_last_active_at := (case rearmAt of None \<Rightarrow> sv_last_active_at s
           | Some t \<Rightarrow> laterActivity t (sv_last_active_at s)),
        sv_hibernated := (if hb_enabled h then sv_hibernated s else False)\<rparr>) d"

subsection \<open>Creation, quotas, configuration\<close>

definition CreateServer :: "time \<Rightarrow> row_id \<Rightarrow> Server \<Rightarrow> db \<Rightarrow> db_result" where
  "CreateServer clk new_id srv d =
     (if any_row (\<lambda>s. sv_slug s = sv_slug srv) (servers d) then Inl ErrDuplicate
      else Inr (d\<lparr>servers := servers d @
        [srv\<lparr>sv_id := new_id, sv_created_at := clk, sv_updated_at := clk\<rparr>]\<rparr>))"

definition lockOwnerServers :: "row_id \<Rightarrow> db \<Rightarrow> store_error + Server list" where
  "lockOwnerServers owner d =
     (case find (\<lambda>u. us_id u = owner) (users d) of
        None \<Rightarrow> Inl ErrNotFound
      | Some _ \<Rightarrow> Inr (filter (\<lambda>s. sv_owner_id s = owner) (servers d)))"

definition CreateServerChecked ::
  "time \<Rightarrow> row_id \<Rightarrow> Server \<Rightarrow> (Server list \<Rightarrow> store_error option) option \<Rightarrow> db \<Rightarrow> db_result" where
  "CreateServerChecked clk new_id srv check d =
     (case check of
        None \<Rightarrow> CreateServer clk new_id srv d
      | Some chk \<Rightarrow>
          (case lockOwnerServers (sv_owner_id srv) d of
             Inl e \<Rightarrow> Inl e
           | Inr owned \<Rightarrow>
               (case chk owned of
                  Some e \<Rightarrow> Inl e
                | None \<Rightarrow> CreateServer clk new_id srv d)))"

definition UpdateServerResourcesChecked ::
  "time \<Rightarrow> row_id \<Rightarrow> row_id \<Rightarrow> Resources \<Rightarrow> (Server list \<Rightarrow> store_error option) \<Rightarrow> db \<Rightarrow> db_result" where
  "UpdateServerResourcesChecked clk i ownerID r check d =
     (case lockOwnerServers ownerID d of
        Inl e \<Rightarrow> Inl e
      | Inr owned \<Rightarrow>
          (case check (filter (\<lambda>s. sv_id s \<noteq> i) owned) of
             Some e \<Rightarrow> Inl e
           | None \<Rightarrow> Inr (update_server clk i (sv_resources_update (\<lambda>_. r)) d)))"

definition ClearInstallWipe :: "time \<Rightarrow> row_id \<Rightarrow> db \<Rightarrow> db" where
  "ClearInstallWipe clk i d =
     update_server clk i (\<lambda>s. s\<lparr>sv_install_wipe := False, sv_install_keep := []\<rparr>) d"

record ServerReinstall =
  ri_template_id :: row_id
  ri_template_version :: int
  ri_image :: string
  ri_env :: env_map
  ri_secret_env_enc :: string
  ri_install :: bool
  ri_wipe :: bool
  ri_keep :: "string list"
  ri_drop_startup :: bool

definition ReinstallServer :: "time \<Rightarrow> row_id \<Rightarrow> ServerReinstall \<Rightarrow> db \<Rightarrow> db" where
  "ReinstallServer clk i r d =
     (let wipe = (ri_install r \<and> ri_wipe r);
          keep = (if wipe then ri_keep r else []);
          d1 = update_server clk i (\<lambda>s. s\<lparr>sv_template_id := ri_template_id r,
                 sv_template_version := ri_template_version r, sv_image := ri_image r,
                 sv_env := ri_env r, sv_secret_env_enc := ri_secret_env_enc r,
                 sv_install_wipe := wipe, sv_install_keep := keep\<rparr>) d;
          d2 = (if keep \<noteq> [] then update_server clk i (sv_reinstall_keep_update (\<lambda>_. keep)) d1 else d1);
          d3 = (if ri_drop_startup r then update_server clk i (sv_startup_update (\<lambda>_. [])) d2 else d2)
      in if \<not> ri_install r then d3
         else d3\<lparr>servers := update_where (\<lambda>s. sv_id s = i)
                (\<lambda>s. s\<lparr>sv_install_generation := sv_install_generation s + 1\<rparr>) (servers d3)\<rparr>)"

definition UpdateServerNetworking :: "time \<Rightarrow> row_id \<Rightarrow> Expose \<Rightarrow> PortSpec list \<Rightarrow> db \<Rightarrow> db" where
  "UpdateServerNetworking clk i expose prts d =
     update_server clk i (\<lambda>s. s\<lparr>sv_expose := expose, sv_ports := prts\<rparr>) d"

definition UpdateServerEnv :: "time \<Rightarrow> row_id \<Rightarrow> env_map \<Rightarrow> string \<Rightarrow> db \<Rightarrow> db" where
  "UpdateServerEnv clk i env secretEnc d =
     update_server clk i (\<lambda>s. s\<lparr>sv_env := env, sv_secret_env_enc := secretEnc\<rparr>) d"

definition DeleteServer :: "row_id \<Rightarrow> db \<Rightarrow> db" where
  "DeleteServer i d =
     d\<lparr>ports := delete_where (\<lambda>a. al_server_id a = i) (ports d),
       invites := delete_where (\<lambda>v. iv_server_id v = i) (invites d),
       uploads := delete_where (\<lambda>u. fu_server_id u = i) (uploads d),
       cursors := delete_where (\<lambda>c. cu_server_id c = i) (cursors d),
       servers := delete_where (\<lambda>s. sv_id s = i) (servers d)\<rparr>"

end
