(* ===== verification/Backups.thy ===== *)
theory Backups imports Server_Power begin

text \<open>
  Backups, restores and database imports in the store (\<open>internal/store/store.go\<close>,
  Backups): the queue of operations per server, and the compare-and-swap statements through
  which the API and the controller move an operation from Pending to Running to a result, and
  a succeeded backup on to Deleting.
\<close>

subsection \<open>Queueing\<close>

definition CreateBackup :: "time \<Rightarrow> row_id \<Rightarrow> Backup \<Rightarrow> db \<Rightarrow> db_result" where
  "CreateBackup clk new_id b d =
     (case lockServer (bk_server_id b) d of
        Inl e \<Rightarrow> Inl e
      | Inr srv \<Rightarrow>
          if sv_transfer srv \<noteq> None then Inl ErrTransferActive
          else Inr (d\<lparr>backups := backups d @ [b\<lparr>bk_id := new_id, bk_created_at := clk\<rparr>]\<rparr>))"

definition createWhileStopped :: "time \<Rightarrow> row_id \<Rightarrow> Backup \<Rightarrow> db \<Rightarrow> db_result" where
  "createWhileStopped clk new_id b d =
     (case lockServer (bk_server_id b) d of
        Inl e \<Rightarrow> Inl e
      | Inr srv \<Rightarrow>
          if sv_desired_state srv = StateRunning then Inl ErrServerRunning
          else
            (case offlineOperationActive (bk_server_id b) d of
               Some e \<Rightarrow> Inl e
             | None \<Rightarrow> Inr (d\<lparr>backups := backups d @ [b\<lparr>bk_id := new_id, bk_created_at := clk\<rparr>]\<rparr>)))"

definition CreateRestore :: "time \<Rightarrow> row_id \<Rightarrow> Backup \<Rightarrow> db \<Rightarrow> db_result" where
  "CreateRestore clk new_id b d = createWhileStopped clk new_id b d"

definition CreateDatabaseImport :: "time \<Rightarrow> row_id \<Rightarrow> Backup \<Rightarrow> db \<Rightarrow> db_result" where
  "CreateDatabaseImport clk new_id b d = createWhileStopped clk new_id b d"

definition CancelPendingBackup :: "row_id \<Rightarrow> db \<Rightarrow> bool \<times> db" where
  "CancelPendingBackup i d =
     (let P = (\<lambda>b. bk_id b = i \<and> bk_phase b = BackupPending)
      in (rows_affected P (backups d) = 1, d\<lparr>backups := delete_where P (backups d)\<rparr>))"

subsection \<open>Claiming\<close>

definition ClaimBackup ::
  "row_id \<Rightarrow> string \<Rightarrow> string \<Rightarrow> string list option \<Rightarrow> string \<Rightarrow> string \<Rightarrow> string \<Rightarrow> row_id
   \<Rightarrow> db \<Rightarrow> store_error + bool \<times> db" where
  "ClaimBackup i jobName target databases ignored note jobSpec clusterID d =
     (case find (\<lambda>b. bk_id b = i) (backups d) of
        None \<Rightarrow> Inr (False, d)
      | Some b \<Rightarrow>
          (case lockServer (bk_server_id b) d of
             Inl e \<Rightarrow> Inl e
           | Inr srv \<Rightarrow>
               if (case sv_transfer srv of None \<Rightarrow> False
                   | Some t \<Rightarrow> tr_cancelled t \<or> (tr_backup_id t \<noteq> i \<and> tr_restore_id t \<noteq> i))
               then Inr (False, d)
               else if (case bk_cluster_id b of Some c \<Rightarrow> c \<noteq> clusterID
                        | None \<Rightarrow> sv_cluster_id srv \<noteq> clusterID)
               then Inr (False, d)
               else
                 (let P = (\<lambda>b. bk_id b = i \<and> bk_phase b = BackupPending);
                      upd = (\<lambda>b. b\<lparr>bk_phase := BackupRunning, bk_job_name := jobName,
                        bk_job_spec := jobSpec, bk_cluster_id := Some clusterID,
                        bk_target := (if target \<noteq> [] then target else bk_target b),
                        bk_databases := (case databases of Some ns \<Rightarrow> ns | None \<Rightarrow> bk_databases b),
                        bk_ignored := (if ignored \<noteq> [] then ignored else bk_ignored b),
                        bk_message := (if note \<noteq> [] then note else bk_message b)\<rparr>)
                  in Inr (rows_affected P (backups d) = 1,
                          d\<lparr>backups := update_where P upd (backups d)\<rparr>))))"

subsection \<open>Reading the queue\<close>

definition GetBackup :: "row_id \<Rightarrow> db \<Rightarrow> store_error + Backup" where
  "GetBackup i d = (case find (\<lambda>b. bk_id b = i) (backups d) of
     None \<Rightarrow> Inl ErrNotFound | Some b \<Rightarrow> Inr b)"

definition ListBackupsForServer :: "row_id \<Rightarrow> db \<Rightarrow> Backup list" where
  "ListBackupsForServer serverID d =
     rev (sort_key bk_id (filter (\<lambda>b. bk_server_id b = serverID
        \<and> bk_direction b \<noteq> DirDatabaseImport) (backups d)))"

definition LatestDatabaseImports :: "row_id \<Rightarrow> db \<Rightarrow> row_id \<rightharpoonup> Backup" where
  \<comment> \<open>ascending: the last one wins\<close>
  "LatestDatabaseImports serverID d =
     fold (\<lambda>b out. out(bk_database_id b \<mapsto> b))
       (sort_key bk_id (filter (\<lambda>b. bk_server_id b = serverID
          \<and> bk_direction b = DirDatabaseImport) (backups d))) Map.empty"

definition DatabaseImportActive :: "row_id \<Rightarrow> db \<Rightarrow> bool" where
  "DatabaseImportActive databaseID d =
     (rows_affected (\<lambda>b. bk_database_id b = databaseID \<and> bk_direction b = DirDatabaseImport
        \<and> op_active (bk_phase b)) (backups d) > 0)"

definition DeleteDatabaseImports :: "row_id \<Rightarrow> db \<Rightarrow> db" where
  "DeleteDatabaseImports databaseID d =
     d\<lparr>backups := delete_where (\<lambda>b. bk_database_id b = databaseID
        \<and> bk_direction b = DirDatabaseImport) (backups d)\<rparr>"

definition ListBackupsByPhase :: "BackupPhase \<Rightarrow> db \<Rightarrow> Backup list" where
  "ListBackupsByPhase phase d = sort_key bk_id (filter (\<lambda>b. bk_phase b = phase) (backups d))"

definition HasActiveRestore :: "row_id \<Rightarrow> db \<Rightarrow> bool" where
  "HasActiveRestore serverID d =
     (rows_affected (\<lambda>b. bk_server_id b = serverID \<and> bk_direction b = DirRestore
        \<and> op_active (bk_phase b)) (backups d) > 0)"

definition RestoreNeedsDataVolume :: "row_id \<Rightarrow> db \<Rightarrow> bool" where
  "RestoreNeedsDataVolume serverID d =
     (let operations = sort_key bk_id (filter (\<lambda>b. bk_server_id b = serverID
            \<and> op_active (bk_phase b)) (backups d))
      in case find (\<lambda>b. bk_phase b = BackupRunning) operations of
           Some b \<Rightarrow> bk_direction b = DirRestore
         | None \<Rightarrow> operations \<noteq> [] \<and> bk_direction (hd operations) = DirRestore)"

definition HasActiveDatabaseImport :: "row_id \<Rightarrow> db \<Rightarrow> bool" where
  "HasActiveDatabaseImport serverID d =
     (rows_affected (\<lambda>b. bk_server_id b = serverID \<and> bk_direction b = DirDatabaseImport
        \<and> op_active (bk_phase b)) (backups d) > 0)"

subsection \<open>Progress and results\<close>

definition UpdateBackup :: "Backup \<Rightarrow> db \<Rightarrow> db" where
  "UpdateBackup b d =
     update_backup (bk_id b) (\<lambda>r. r\<lparr>bk_phase := bk_phase b, bk_size_bytes := bk_size_bytes b,
       bk_message := bk_message b, bk_job_name := bk_job_name b,
       bk_completed_at := bk_completed_at b, bk_target := bk_target b\<rparr>) d"

definition ObserveBackupJob :: "row_id \<Rightarrow> string \<Rightarrow> db \<Rightarrow> db_result" where
  "ObserveBackupJob i uid d =
     (let P = (\<lambda>b. bk_id b = i \<and> bk_phase b = BackupRunning \<and> (bk_job_uid b = [] \<or> bk_job_uid b = uid))
      in if rows_affected P (backups d) \<noteq> 1 then Inl ErrNotFound
         else Inr (d\<lparr>backups := update_where P (bk_job_uid_update (\<lambda>_. uid)) (backups d)\<rparr>))"

definition to_deleting :: "Backup \<Rightarrow> Backup" where
  "to_deleting b = b\<lparr>bk_phase := BackupDeleting, bk_job_name := [], bk_message := [],
     bk_job_spec := [], bk_job_uid := [], bk_cluster_id := None\<rparr>"

definition pruneBackups :: "row_id \<Rightarrow> string \<Rightarrow> int \<Rightarrow> db \<Rightarrow> db_result" where
  "pruneBackups serverID target keepLast d =
     (if keepLast \<le> 0 then Inr d
      else
        (let old = drop (nat keepLast) (map bk_id (rev (sort_key bk_id
               (filter (\<lambda>b. bk_server_id b = serverID \<and> bk_target b = target
                  \<and> bk_direction b = DirBackup \<and> bk_phase b = BackupSucceeded) (backups d)))))
         in if old \<noteq> [] \<and> any_row (\<lambda>b. bk_id b \<in> set old \<and> bk_job_name b \<noteq> []) (backups d)
            then Inl ErrRetentionWaiting
            else if old = [] then Inr d
            else Inr (d\<lparr>backups := update_where
                   (\<lambda>b. bk_id b \<in> set old \<and> bk_phase b = BackupSucceeded) to_deleting (backups d)\<rparr>)))"

definition PruneBackups :: "row_id \<Rightarrow> string \<Rightarrow> int \<Rightarrow> db \<Rightarrow> db_result" where
  "PruneBackups serverID target keepLast d = pruneBackups serverID target keepLast d"

definition CompleteBackup :: "Backup \<Rightarrow> BackupPhase \<Rightarrow> int \<Rightarrow> db \<Rightarrow> db_result" where
  "CompleteBackup b from_phase keepLast d =
     (let P = (\<lambda>r. bk_id r = bk_id b \<and> bk_phase r = from_phase);
          d1 = d\<lparr>backups := update_where P (\<lambda>r. r\<lparr>bk_phase := bk_phase b,
                 bk_size_bytes := bk_size_bytes b, bk_message := bk_message b,
                 bk_completed_at := bk_completed_at b\<rparr>) (backups d)\<rparr>
      in if rows_affected P (backups d) \<noteq> 1 then Inl ErrNotFound
         else if bk_direction b = DirBackup \<and> bk_phase b = BackupSucceeded
         then pruneBackups (bk_server_id b) (bk_target b) keepLast d1
         else Inr d1)"

definition op_finished :: "BackupPhase \<Rightarrow> bool" where
  "op_finished p = (p = BackupSucceeded \<or> p = BackupFailed)"

definition ListBackupCleanup :: "db \<Rightarrow> Backup list" where
  "ListBackupCleanup d = filter (\<lambda>b. op_finished (bk_phase b) \<and> bk_job_name b \<noteq> []) (backups d)"

definition ClearBackupJob :: "row_id \<Rightarrow> string \<Rightarrow> db \<Rightarrow> db" where
  "ClearBackupJob i jobName d =
     d\<lparr>backups := update_where
         (\<lambda>b. bk_id b = i \<and> bk_job_name b = jobName \<and> op_finished (bk_phase b))
         (\<lambda>b. b\<lparr>bk_job_name := [], bk_job_spec := [], bk_job_uid := []\<rparr>) (backups d)\<rparr>"

definition MarkBackupForgotten :: "row_id \<Rightarrow> db \<Rightarrow> db_result" where
  "MarkBackupForgotten i d =
     (let P = (\<lambda>b. bk_id b = i \<and> bk_phase b = BackupDeleting)
      in if rows_affected P (backups d) \<noteq> 1 then Inl ErrNotFound
         else Inr (d\<lparr>backups := update_where P (bk_forgotten_update (\<lambda>_. True)) (backups d)\<rparr>))"

definition StampBackupTargets :: "string \<Rightarrow> db \<Rightarrow> db" where
  "StampBackupTargets target d =
     d\<lparr>backups := update_where
         (\<lambda>b. bk_target b = [] \<and> bk_direction b = DirBackup \<and> bk_phase b = BackupSucceeded)
         (bk_target_update (\<lambda>_. target)) (backups d)\<rparr>"

definition DeleteBackup :: "row_id \<Rightarrow> db \<Rightarrow> db" where
  "DeleteBackup i d = d\<lparr>backups := delete_where (\<lambda>b. bk_id b = i) (backups d)\<rparr>"

definition MarkBackupDeleting :: "row_id \<Rightarrow> db \<Rightarrow> db" where
  "MarkBackupDeleting i d = update_backup i to_deleting d"

definition ClaimBackupDeletion :: "row_id \<Rightarrow> string \<Rightarrow> row_id \<Rightarrow> db \<Rightarrow> bool \<times> db" where
  "ClaimBackupDeletion i jobName clusterID d =
     (let P = (\<lambda>b. bk_id b = i \<and> bk_phase b = BackupDeleting \<and> bk_job_name b = [])
      in (rows_affected P (backups d) = 1,
          d\<lparr>backups := update_where P
              (\<lambda>b. b\<lparr>bk_job_name := jobName, bk_cluster_id := Some clusterID\<rparr>) (backups d)\<rparr>))"

definition DeleteBackupsForServer :: "row_id \<Rightarrow> db \<Rightarrow> db" where
  "DeleteBackupsForServer serverID d =
     d\<lparr>backups := delete_where (\<lambda>b. bk_server_id b = serverID) (backups d)\<rparr>"

end
