(* ===== verification/Transfers.thy ===== *)
theory Transfers imports Backups begin

text \<open>
  The transfer of a server to another cluster in the store (\<open>internal/store/transfer.go\<close>):
  Begin freezes the server, one linked backup is taken on the source, Advance moves the
  server's placement, one linked restore is run on the target, Commit closes cancellation and
  Finish lifts the freeze; Cancel and a rollback go back to the source.
\<close>

definition ListServersWithTransfer :: "db \<Rightarrow> Server list" where
  "ListServersWithTransfer d = filter (\<lambda>s. sv_transfer s \<noteq> None) (servers d)"

definition BeginServerTransfer ::
  "time \<Rightarrow> row_id \<Rightarrow> row_id \<Rightarrow> time \<Rightarrow> db \<Rightarrow> store_error + TransferState \<times> db" where
  "BeginServerTransfer clk i target when d =
     (case lockServer i d of
        Inl e \<Rightarrow> Inl e
      | Inr srv \<Rightarrow>
          if sv_transfer srv \<noteq> None then Inl ErrTransferActive
          else if sv_cluster_id srv = target then Inl ErrTransferChanged
          else if rows_affected (\<lambda>b. bk_server_id b = i
                    \<and> bk_phase b \<in> {BackupPending, BackupRunning, BackupDeleting}) (backups d) \<noteq> 0
          then Inl ErrTransferOperationActive
          else
            (let t = \<lparr>tr_phase = TransferBackingUp, tr_source_cluster = sv_cluster_id srv,
                      tr_target_cluster = target, tr_backup_id = 0, tr_restore_id = 0,
                      tr_prev_state = sv_desired_state srv, tr_started_at = when,
                      tr_message = [], tr_cancelled = False\<rparr>
             in Inr (t, update_server clk i
                  (\<lambda>s. s\<lparr>sv_transfer := Some t, sv_desired_state := StateStopped,
                        sv_restart_requested_at := None\<rparr>) d)))"

definition new_operation :: "row_id \<Rightarrow> BackupDirection \<Rightarrow> Backup" where
  \<comment> \<open>\<open>&models.Backup{ServerID: id, Direction: direction, Phase: BackupPending}\<close>\<close>
  "new_operation serverID direction =
     \<lparr>bk_id = 0, bk_created_at = 0, bk_completed_at = None, bk_server_id = serverID,
      bk_direction = direction, bk_phase = BackupPending, bk_source_id = 0, bk_size_bytes = 0,
      bk_message = [], bk_job_name = [], bk_job_spec = [], bk_job_uid = [],
      bk_cluster_id = None, bk_forgotten = False, bk_target = [], bk_databases = [],
      bk_with_databases = False, bk_ignored = [], bk_full = False, bk_database_id = 0,
      bk_path = [], bk_wipe = False\<rparr>"

definition CreateTransferOperation ::
  "time \<Rightarrow> row_id \<Rightarrow> row_id \<Rightarrow> BackupDirection \<Rightarrow> db \<Rightarrow> db_result" where
  "CreateTransferOperation clk new_id i direction d =
     (case lockServer i d of
        Inl e \<Rightarrow> Inl e
      | Inr srv \<Rightarrow>
          (case sv_transfer srv of
             None \<Rightarrow> Inl ErrTransferChanged
           | Some t \<Rightarrow>
               if tr_cancelled t then Inl ErrTransferChanged
               else
                 (let b = (new_operation i direction)\<lparr>bk_id := new_id, bk_created_at := clk\<rparr>;
                      link = (\<lambda>b t. update_server clk i (sv_transfer_update (\<lambda>_. Some t))
                        (d\<lparr>backups := backups d @ [b]\<rparr>))
                  in case direction of
                       DirBackup \<Rightarrow>
                         if tr_phase t \<noteq> TransferBackingUp \<or> tr_backup_id t \<noteq> 0
                         then Inl ErrTransferChanged
                         else Inr (link (b\<lparr>bk_full := True, bk_cluster_id := Some (tr_source_cluster t)\<rparr>)
                                        (t\<lparr>tr_backup_id := new_id\<rparr>))
                     | DirRestore \<Rightarrow>
                         if tr_phase t \<noteq> TransferRestoring \<or> tr_restore_id t \<noteq> 0
                         then Inl ErrTransferChanged
                         else Inr (link (b\<lparr>bk_source_id := tr_backup_id t,
                                           bk_cluster_id := Some (tr_target_cluster t)\<rparr>)
                                        (t\<lparr>tr_restore_id := new_id\<rparr>))
                     | DirDatabaseImport \<Rightarrow> Inl ErrTransferChanged)))"

definition AdvanceServerTransfer :: "time \<Rightarrow> row_id \<Rightarrow> db \<Rightarrow> db_result" where
  "AdvanceServerTransfer clk i d =
     (case lockServer i d of
        Inl e \<Rightarrow> Inl e
      | Inr srv \<Rightarrow>
          (case sv_transfer srv of
             None \<Rightarrow> Inl ErrTransferChanged
           | Some t \<Rightarrow>
               if tr_cancelled t \<or> tr_phase t \<noteq> TransferBackingUp then Inl ErrTransferChanged
               else
                 (case find (\<lambda>b. bk_id b = tr_backup_id t) (backups d) of
                    None \<Rightarrow> Inl ErrRecordNotFound
                  | Some b \<Rightarrow>
                      if bk_phase b \<noteq> BackupSucceeded then Inl ErrTransferChanged
                      else if rows_affected (\<lambda>b. bk_server_id b = i \<and> bk_id b \<noteq> tr_backup_id t
                                \<and> bk_phase b \<in> {BackupPending, BackupRunning, BackupDeleting})
                              (backups d) \<noteq> 0
                      then Inl ErrTransferOperationActive
                      else Inr (update_server clk i
                        (\<lambda>s. s\<lparr>sv_transfer := Some (t\<lparr>tr_phase := TransferRestoring\<rparr>),
                              sv_cluster_id := tr_target_cluster t\<rparr>) d))))"

definition CancelServerTransfer ::
  "time \<Rightarrow> row_id \<Rightarrow> string \<Rightarrow> db \<Rightarrow> store_error + Server \<times> db" where
  "CancelServerTransfer clk i message d =
     (case lockServer i d of
        Inl e \<Rightarrow> Inl e
      | Inr srv \<Rightarrow>
          (case sv_transfer srv of
             None \<Rightarrow> Inl ErrTransferChanged
           | Some t \<Rightarrow>
               if tr_phase t = TransferCommitting then Inl ErrTransferChanged
               else
                 (let t' = t\<lparr>tr_cancelled := True, tr_message := message\<rparr>;
                      d1 = d\<lparr>backups := update_where
                             (\<lambda>b. bk_server_id b = i \<and> bk_id b \<in> {tr_backup_id t, tr_restore_id t}
                                \<and> bk_phase b = BackupPending)
                             (\<lambda>b. b\<lparr>bk_phase := BackupFailed, bk_message := message,
                                    bk_completed_at := Some clk\<rparr>) (backups d)\<rparr>
                  in Inr (srv\<lparr>sv_transfer := Some t'\<rparr>,
                          update_server clk i (sv_transfer_update (\<lambda>_. Some t')) d1))))"

definition FinishCancelledTransferOperation :: "time \<Rightarrow> row_id \<Rightarrow> row_id \<Rightarrow> db \<Rightarrow> db_result" where
  "FinishCancelledTransferOperation clk serverID operationID d =
     (case lockServer serverID d of
        Inl e \<Rightarrow> Inl e
      | Inr srv \<Rightarrow>
          (case sv_transfer srv of
             None \<Rightarrow> Inl ErrTransferChanged
           | Some t \<Rightarrow>
               if \<not> tr_cancelled t \<or> (tr_backup_id t \<noteq> operationID \<and> tr_restore_id t \<noteq> operationID)
               then Inl ErrTransferChanged
               else Inr (d\<lparr>backups := update_where
                      (\<lambda>b. bk_id b = operationID \<and> bk_server_id b = serverID \<and> bk_phase b = BackupRunning)
                      (\<lambda>b. b\<lparr>bk_phase := BackupFailed, bk_message := tr_message t,
                             bk_completed_at := Some clk\<rparr>) (backups d)\<rparr>)))"

definition FinishServerTransfer :: "time \<Rightarrow> row_id \<Rightarrow> bool \<Rightarrow> db \<Rightarrow> db_result" where
  "FinishServerTransfer clk i rollback d =
     (case lockServer i d of
        Inl e \<Rightarrow> Inl e
      | Inr srv \<Rightarrow>
          (case sv_transfer srv of
             None \<Rightarrow> Inl ErrTransferChanged
           | Some t \<Rightarrow>
               if tr_cancelled t \<noteq> rollback then Inl ErrTransferChanged
               else if rows_affected (\<lambda>b. bk_server_id b = i \<and> bk_id b \<in> {tr_backup_id t, tr_restore_id t}
                         \<and> op_active (bk_phase b)) (backups d) \<noteq> 0
               then Inl ErrTransferOperationActive
               else
                 (let finish = (\<lambda>clusterID. update_server clk i
                        (\<lambda>s. s\<lparr>sv_transfer := None, sv_cluster_id := clusterID,
                              sv_desired_state := tr_prev_state t\<rparr>) d)
                  in if rollback then Inr (finish (tr_source_cluster t))
                     else if tr_phase t \<noteq> TransferCommitting then Inl ErrTransferChanged
                     else if tr_restore_id t = 0 then Inl ErrTransferChanged
                     else
                       (case find (\<lambda>b. bk_id b = tr_restore_id t) (backups d) of
                          None \<Rightarrow> Inl ErrRecordNotFound
                        | Some restore \<Rightarrow>
                            if bk_phase restore \<noteq> BackupSucceeded then Inl ErrTransferChanged
                            else Inr (finish (tr_target_cluster t))))))"

definition CommitServerTransfer :: "time \<Rightarrow> row_id \<Rightarrow> db \<Rightarrow> db_result" where
  "CommitServerTransfer clk i d =
     (case lockServer i d of
        Inl e \<Rightarrow> Inl e
      | Inr srv \<Rightarrow>
          (case sv_transfer srv of
             None \<Rightarrow> Inl ErrTransferChanged
           | Some t \<Rightarrow>
               if tr_cancelled t \<or> tr_phase t \<noteq> TransferRestoring \<or> tr_restore_id t = 0
               then Inl ErrTransferChanged
               else
                 (case find (\<lambda>b. bk_id b = tr_restore_id t) (backups d) of
                    None \<Rightarrow> Inl ErrRecordNotFound
                  | Some restore \<Rightarrow>
                      if bk_phase restore \<noteq> BackupSucceeded then Inl ErrTransferChanged
                      else Inr (update_server clk i
                        (sv_transfer_update (\<lambda>_. Some (t\<lparr>tr_phase := TransferCommitting\<rparr>))) d))))"

end
