(* ===== verification/Power_Spec.thy ===== *)
theory Power_Spec imports Models begin

text \<open>
  What the store promises about servers, their operations and their transfers, as an abstract
  machine: a server is its desired state, its cluster and its transfer; an operation (a backup,
  a restore or a database import) is its server, direction and phase. One rule per promise: what
  may start a server, queue an operation, move an operation on, and move a transfer on.
  \<open>Store_Machine\<close> shows that the store's transactions are steps of this machine.
\<close>

record power =
  pw_desired :: DesiredState
  pw_transfer :: "TransferState option"
  pw_cluster :: row_id

record oper =
  op_server :: row_id
  op_dir :: BackupDirection
  op_phase :: BackupPhase

record machine =
  m_srv :: "row_id \<rightharpoonup> power"
  m_op :: "row_id \<rightharpoonup> oper"

definition phase_active :: "BackupPhase \<Rightarrow> bool" where
  "phase_active p = (p = BackupPending \<or> p = BackupRunning)"

definition phase_busy :: "BackupPhase \<Rightarrow> bool" where
  "phase_busy p = (phase_active p \<or> p = BackupDeleting)"

definition linked :: "TransferState \<Rightarrow> row_id set" where
  "linked t = {tr_backup_id t, tr_restore_id t}"

definition active_on :: "machine \<Rightarrow> row_id \<Rightarrow> row_id \<Rightarrow> bool" where
  "active_on m i k = (\<exists>x. m_op m k = Some x \<and> op_server x = i \<and> phase_active (op_phase x))"

definition offline_on :: "machine \<Rightarrow> row_id \<Rightarrow> row_id \<Rightarrow> bool" where
  \<comment> \<open>a restore or an import that has the server's data\<close>
  "offline_on m i k = (\<exists>x. m_op m k = Some x \<and> op_server x = i \<and> phase_active (op_phase x)
     \<and> op_dir x \<noteq> DirBackup)"

definition set_srv :: "row_id \<Rightarrow> power \<Rightarrow> machine \<Rightarrow> machine" where
  "set_srv i p m = m\<lparr>m_srv := (m_srv m)(i \<mapsto> p)\<rparr>"

definition set_op :: "row_id \<Rightarrow> oper \<Rightarrow> machine \<Rightarrow> machine" where
  "set_op k x m = m\<lparr>m_op := (m_op m)(k \<mapsto> x)\<rparr>"

definition set_phases :: "row_id set \<Rightarrow> BackupPhase \<Rightarrow> machine \<Rightarrow> machine" where
  "set_phases K ph m = m\<lparr>m_op := (\<lambda>k. if k \<in> K then map_option (op_phase_update (\<lambda>_. ph)) (m_op m k)
     else m_op m k)\<rparr>"

definition new_transfer :: "row_id \<Rightarrow> row_id \<Rightarrow> DesiredState \<Rightarrow> time \<Rightarrow> TransferState" where
  "new_transfer source target prev when =
     \<lparr>tr_phase = TransferBackingUp, tr_source_cluster = source, tr_target_cluster = target,
      tr_backup_id = 0, tr_restore_id = 0, tr_prev_state = prev, tr_started_at = when,
      tr_message = [], tr_cancelled = False\<rparr>"

inductive power_step :: "machine \<Rightarrow> machine \<Rightarrow> bool" where
  halt: "m_srv m i = Some p \<Longrightarrow> st \<noteq> StateRunning \<Longrightarrow>
    power_step m (set_srv i (p\<lparr>pw_desired := st\<rparr>) m)"
| start: "m_srv m i = Some p \<Longrightarrow> pw_transfer p = None \<Longrightarrow> \<forall>k. \<not> offline_on m i k \<Longrightarrow>
    power_step m (set_srv i (p\<lparr>pw_desired := StateRunning\<rparr>) m)"
| create: "i \<notin> dom (m_srv m) \<Longrightarrow> pw_transfer p = None \<Longrightarrow> \<forall>k. \<not> active_on m i k \<Longrightarrow>
    power_step m (set_srv i p m)"
| delete: "power_step m (m\<lparr>m_srv := (m_srv m)(i := None)\<rparr>)"
| queue_backup: "m_srv m i = Some p \<Longrightarrow> pw_transfer p = None \<Longrightarrow> k \<noteq> 0 \<Longrightarrow> k \<notin> dom (m_op m) \<Longrightarrow>
    power_step m (set_op k \<lparr>op_server = i, op_dir = DirBackup, op_phase = BackupPending\<rparr> m)"
| queue_offline: "m_srv m i = Some p \<Longrightarrow> pw_transfer p = None \<Longrightarrow> pw_desired p \<noteq> StateRunning \<Longrightarrow>
    \<forall>k. \<not> offline_on m i k \<Longrightarrow> dir \<noteq> DirBackup \<Longrightarrow> k \<noteq> 0 \<Longrightarrow> k \<notin> dom (m_op m) \<Longrightarrow>
    power_step m (set_op k \<lparr>op_server = i, op_dir = dir, op_phase = BackupPending\<rparr> m)"
| claim: "m_op m k = Some x \<Longrightarrow> op_phase x = BackupPending \<Longrightarrow> m_srv m (op_server x) = Some p \<Longrightarrow>
    \<forall>t. pw_transfer p = Some t \<longrightarrow> \<not> tr_cancelled t \<and> k \<in> linked t \<Longrightarrow>
    power_step m (set_phases {k} BackupRunning m)"
| complete: "m_op m k = Some x \<Longrightarrow> phase_active (op_phase x) \<Longrightarrow> ph \<in> {BackupSucceeded, BackupFailed} \<Longrightarrow>
    power_step m (set_phases {k} ph m)"
| retire: "\<forall>k \<in> K. \<forall>x. m_op m k = Some x \<longrightarrow> op_phase x \<in> {BackupSucceeded, BackupDeleting} \<Longrightarrow>
    power_step m (set_phases K BackupDeleting m)"
| drop: "power_step m (m\<lparr>m_op := m_op m |` (- K)\<rparr>)"
| begin_transfer: "m_srv m i = Some p \<Longrightarrow> pw_transfer p = None \<Longrightarrow> pw_cluster p \<noteq> target \<Longrightarrow>
    \<forall>k x. m_op m k = Some x \<and> op_server x = i \<longrightarrow> \<not> phase_busy (op_phase x) \<Longrightarrow>
    power_step m (set_srv i (p\<lparr>pw_desired := StateStopped,
      pw_transfer := Some (new_transfer (pw_cluster p) target (pw_desired p) when)\<rparr>) m)"
| link_backup: "m_srv m i = Some p \<Longrightarrow> pw_transfer p = Some t \<Longrightarrow> \<not> tr_cancelled t \<Longrightarrow>
    tr_phase t = TransferBackingUp \<Longrightarrow> tr_backup_id t = 0 \<Longrightarrow> k \<noteq> 0 \<Longrightarrow> k \<notin> dom (m_op m) \<Longrightarrow>
    power_step m (set_srv i (p\<lparr>pw_transfer := Some (t\<lparr>tr_backup_id := k\<rparr>)\<rparr>)
      (set_op k \<lparr>op_server = i, op_dir = DirBackup, op_phase = BackupPending\<rparr> m))"
| link_restore: "m_srv m i = Some p \<Longrightarrow> pw_transfer p = Some t \<Longrightarrow> \<not> tr_cancelled t \<Longrightarrow>
    tr_phase t = TransferRestoring \<Longrightarrow> tr_restore_id t = 0 \<Longrightarrow> k \<noteq> 0 \<Longrightarrow> k \<notin> dom (m_op m) \<Longrightarrow>
    power_step m (set_srv i (p\<lparr>pw_transfer := Some (t\<lparr>tr_restore_id := k\<rparr>)\<rparr>)
      (set_op k \<lparr>op_server = i, op_dir = DirRestore, op_phase = BackupPending\<rparr> m))"
| advance: "m_srv m i = Some p \<Longrightarrow> pw_transfer p = Some t \<Longrightarrow> \<not> tr_cancelled t \<Longrightarrow>
    tr_phase t = TransferBackingUp \<Longrightarrow> m_op m (tr_backup_id t) = Some x \<Longrightarrow>
    op_phase x = BackupSucceeded \<Longrightarrow>
    \<forall>k y. m_op m k = Some y \<and> op_server y = i \<and> k \<noteq> tr_backup_id t \<longrightarrow> \<not> phase_busy (op_phase y) \<Longrightarrow>
    power_step m (set_srv i (p\<lparr>pw_transfer := Some (t\<lparr>tr_phase := TransferRestoring\<rparr>),
      pw_cluster := tr_target_cluster t\<rparr>) m)"
| cancel: "m_srv m i = Some p \<Longrightarrow> pw_transfer p = Some t \<Longrightarrow> tr_phase t \<noteq> TransferCommitting \<Longrightarrow>
    \<forall>k \<in> K. \<forall>x. m_op m k = Some x \<longrightarrow> op_phase x = BackupPending \<Longrightarrow>
    power_step m (set_srv i (p\<lparr>pw_transfer := Some (t\<lparr>tr_cancelled := True, tr_message := msg\<rparr>)\<rparr>)
      (set_phases K BackupFailed m))"
| commit: "m_srv m i = Some p \<Longrightarrow> pw_transfer p = Some t \<Longrightarrow> \<not> tr_cancelled t \<Longrightarrow>
    tr_phase t = TransferRestoring \<Longrightarrow> tr_restore_id t \<noteq> 0 \<Longrightarrow>
    m_op m (tr_restore_id t) = Some x \<Longrightarrow> op_phase x = BackupSucceeded \<Longrightarrow>
    power_step m (set_srv i (p\<lparr>pw_transfer := Some (t\<lparr>tr_phase := TransferCommitting\<rparr>)\<rparr>) m)"
| finish: "m_srv m i = Some p \<Longrightarrow> pw_transfer p = Some t \<Longrightarrow> \<not> tr_cancelled t \<Longrightarrow>
    tr_phase t = TransferCommitting \<Longrightarrow> \<forall>k \<in> linked t. \<not> active_on m i k \<Longrightarrow>
    m_op m (tr_restore_id t) = Some x \<Longrightarrow> op_phase x = BackupSucceeded \<Longrightarrow>
    power_step m (set_srv i (p\<lparr>pw_transfer := None, pw_cluster := tr_target_cluster t,
      pw_desired := tr_prev_state t\<rparr>) m)"
| rollback: "m_srv m i = Some p \<Longrightarrow> pw_transfer p = Some t \<Longrightarrow> tr_cancelled t \<Longrightarrow>
    \<forall>k \<in> linked t. \<not> active_on m i k \<Longrightarrow>
    power_step m (set_srv i (p\<lparr>pw_transfer := None, pw_cluster := tr_source_cluster t,
      pw_desired := tr_prev_state t\<rparr>) m)"

inductive_cases power_stepE: "power_step m m'"

subsection \<open>The invariant\<close>

definition transfer_ok :: "power \<Rightarrow> TransferState \<Rightarrow> bool" where
  "transfer_ok p t =
     (pw_desired p \<noteq> StateRunning \<and> tr_source_cluster t \<noteq> tr_target_cluster t
      \<and> (tr_phase t = TransferBackingUp \<longrightarrow> pw_cluster p = tr_source_cluster t \<and> tr_restore_id t = 0)
      \<and> (tr_phase t \<noteq> TransferBackingUp \<longrightarrow> pw_cluster p = tr_target_cluster t \<and> tr_backup_id t \<noteq> 0)
      \<and> (tr_phase t = TransferCommitting \<longrightarrow> \<not> tr_cancelled t \<and> tr_restore_id t \<noteq> 0))"

definition server_ok :: "machine \<Rightarrow> row_id \<Rightarrow> power \<Rightarrow> bool" where
  "server_ok m i p =
     ((pw_desired p = StateRunning \<longrightarrow> (\<forall>k. \<not> offline_on m i k))
      \<and> (\<forall>t. pw_transfer p = Some t \<longrightarrow> transfer_ok p t \<and> (\<forall>k. active_on m i k \<longrightarrow> k \<in> linked t)))"

definition machine_inv :: "machine \<Rightarrow> bool" where
  "machine_inv m = (m_op m 0 = None \<and> (\<forall>i p. m_srv m i = Some p \<longrightarrow> server_ok m i p))"

named_theorems machine_simps "how the machine's updates act on it"

lemma set_srv_simps [machine_simps]:
  "m_srv (set_srv i p m) = (m_srv m)(i \<mapsto> p)" "m_op (set_srv i p m) = m_op m"
  "active_on (set_srv i p m) = active_on m" "offline_on (set_srv i p m) = offline_on m"
  by (auto simp: set_srv_def active_on_def offline_on_def fun_eq_iff)

lemma set_op_simps [machine_simps]:
  "m_srv (set_op k x m) = m_srv m" "m_op (set_op k x m) = (m_op m)(k \<mapsto> x)"
  by (simp_all add: set_op_def)

lemma set_phases_srv [machine_simps]: "m_srv (set_phases K ph m) = m_srv m"
  by (simp add: set_phases_def)

lemma offline_active: "offline_on m i k \<Longrightarrow> active_on m i k"
  by (auto simp: offline_on_def active_on_def)

lemma machine_invD: "machine_inv m \<Longrightarrow> m_srv m i = Some p \<Longrightarrow> server_ok m i p"
  by (simp add: machine_inv_def)

lemma server_ok_mono:
  assumes "server_ok m i p"
    and "\<And>k. active_on m' i k \<Longrightarrow> active_on m i k" "\<And>k. offline_on m' i k \<Longrightarrow> offline_on m i k"
  shows "server_ok m' i p"
  using assms unfolding server_ok_def by blast

lemma linked_simps [simp]:
  "linked (t\<lparr>tr_phase := ph\<rparr>) = linked t" "linked (t\<lparr>tr_message := msg\<rparr>) = linked t"
  "linked (t\<lparr>tr_cancelled := c\<rparr>) = linked t"
  by (simp_all add: linked_def)

lemma active_nonzero: "machine_inv m \<Longrightarrow> \<not> active_on m i 0"
  by (simp add: machine_inv_def active_on_def)

text \<open>A step on operations that adds no active one.\<close>

lemma machine_inv_ops:
  assumes "machine_inv m" "m_srv m' = m_srv m" "m_op m' 0 = None"
    and "\<And>i k. active_on m' i k \<Longrightarrow> active_on m i k" "\<And>i k. offline_on m' i k \<Longrightarrow> offline_on m i k"
  shows "machine_inv m'"
  using assms unfolding machine_inv_def by (metis server_ok_mono)

text \<open>A step on one server.\<close>

lemma machine_inv_srv:
  assumes "machine_inv m" "server_ok m i p"
  shows "machine_inv (set_srv i p m)"
  using assms by (auto simp: machine_inv_def machine_simps server_ok_def)

lemma set_phases_active:
  assumes "\<And>k x. k \<in> K \<Longrightarrow> m_op m k = Some x \<Longrightarrow> phase_active ph \<Longrightarrow> phase_active (op_phase x)"
  shows "active_on (set_phases K ph m) i k \<Longrightarrow> active_on m i k"
    and "offline_on (set_phases K ph m) i k \<Longrightarrow> offline_on m i k"
  using assms by (auto simp: active_on_def offline_on_def set_phases_def split: if_splits)

lemma machine_inv_phases:
  assumes "machine_inv m"
    and "\<And>k x. k \<in> K \<Longrightarrow> m_op m k = Some x \<Longrightarrow> phase_active ph \<Longrightarrow> phase_active (op_phase x)"
  shows "machine_inv (set_phases K ph m)"
proof (rule machine_inv_ops [OF assms(1)])
  show "m_op (set_phases K ph m) 0 = None"
    using assms(1) by (simp add: machine_inv_def set_phases_def)
  show "active_on m i k" if "active_on (set_phases K ph m) i k" for i k
    using set_phases_active(1) [OF _ that] assms(2) .
  show "offline_on m i k" if "offline_on (set_phases K ph m) i k" for i k
    using set_phases_active(2) [OF _ that] assms(2) .
qed (simp add: machine_simps)

lemma set_op_active [machine_simps]:
  "k \<notin> dom (m_op m) \<Longrightarrow> active_on (set_op k x m) i j \<longleftrightarrow>
     active_on m i j \<or> (j = k \<and> op_server x = i \<and> phase_active (op_phase x))"
  "k \<notin> dom (m_op m) \<Longrightarrow> offline_on (set_op k x m) i j \<longleftrightarrow>
     offline_on m i j \<or> (j = k \<and> op_server x = i \<and> phase_active (op_phase x) \<and> op_dir x \<noteq> DirBackup)"
  by (auto simp: active_on_def offline_on_def machine_simps dom_def)

text \<open>A step that queues an operation.\<close>

lemma machine_inv_queue:
  assumes inv: "machine_inv m" and k: "k \<noteq> 0" "k \<notin> dom (m_op m)"
    and "\<And>p. m_srv m (op_server x) = Some p \<Longrightarrow> server_ok (set_op k x m) (op_server x) p"
  shows "machine_inv (set_op k x m)"
proof -
  have "server_ok (set_op k x m) i p" if "m_srv m i = Some p" for i p
  proof (cases "op_server x = i")
    case False
    with machine_invD [OF inv that] k show ?thesis
      by (auto simp: server_ok_def machine_simps)
  qed (use assms(4) that in blast)
  with inv k show ?thesis by (auto simp: machine_inv_def machine_simps)
qed

text \<open>A step that queues an operation of a transfer and links it.\<close>

lemma machine_inv_link:
  assumes inv: "machine_inv m" and p: "m_srv m i = Some p" "pw_transfer p = Some t"
    and k: "k \<noteq> 0" "k \<notin> dom (m_op m)" and x: "op_server x = i"
    and new: "server_ok (set_op k x m) i (p\<lparr>pw_transfer := Some t'\<rparr>)"
  shows "machine_inv (set_srv i (p\<lparr>pw_transfer := Some t'\<rparr>) (set_op k x m))"
proof -
  have "server_ok (set_op k x m) j q" if "m_srv m j = Some q" "j \<noteq> i" for j q
    using machine_invD [OF inv that(1)] that(2) k x by (auto simp: server_ok_def machine_simps)
  with inv k new show ?thesis by (auto simp: machine_inv_def machine_simps server_ok_def)
qed

lemma power_step_inv: "power_step m m' \<Longrightarrow> machine_inv m \<Longrightarrow> machine_inv m'"
proof (induction rule: power_step.induct)
  case (halt m i p st)
  with machine_invD [OF halt.prems halt.hyps(1)] show ?case
    by (intro machine_inv_srv) (auto simp: server_ok_def transfer_ok_def)
next
  case (start m i p)
  with machine_invD [OF start.prems start.hyps(1)] show ?case
    by (intro machine_inv_srv) (auto simp: server_ok_def)
next
  case (create i m p)
  then show ?case
    by (intro machine_inv_srv) (auto simp: server_ok_def dest: offline_active)
next
  case (delete m i)
  then show ?case
    by (auto simp: machine_inv_def server_ok_def active_on_def offline_on_def)
next
  case (queue_backup m i p k)
  from machine_invD [OF queue_backup.prems queue_backup.hyps(1)] queue_backup show ?case
    by (intro machine_inv_queue) (auto simp: server_ok_def machine_simps)
next
  case (queue_offline m i p dir k)
  from machine_invD [OF queue_offline.prems queue_offline.hyps(1)] queue_offline show ?case
    by (intro machine_inv_queue) (auto simp: server_ok_def machine_simps)
next
  case (claim m k x p)
  then show ?case by (intro machine_inv_phases) (auto simp: phase_active_def)
next
  case (complete m k x ph)
  then show ?case by (intro machine_inv_phases) auto
next
  case (retire K m)
  then show ?case by (intro machine_inv_phases) (auto simp: phase_active_def)
next
  case (drop m K)
  show ?case
  proof (rule machine_inv_ops [OF drop])
    show "m_op (m\<lparr>m_op := m_op m |` (- K)\<rparr>) 0 = None"
      using drop by (simp add: machine_inv_def restrict_map_def)
  qed (auto simp: active_on_def offline_on_def restrict_map_def split: if_splits)
next
  case (begin_transfer m i p target "when")
  have "\<not> active_on m i k" for k
    using begin_transfer.hyps(4) by (auto simp: active_on_def phase_busy_def)
  then show ?case using begin_transfer
    by (intro machine_inv_srv) (auto simp: server_ok_def transfer_ok_def new_transfer_def)
next
  case (link_backup m i p t k)
  from machine_invD [OF link_backup.prems link_backup.hyps(1)] link_backup active_nonzero [OF link_backup.prems] show ?case
    by (intro machine_inv_link [of m i p t]) (auto simp: server_ok_def machine_simps transfer_ok_def linked_def)
next
  case (link_restore m i p t k)
  let ?x = "\<lparr>op_server = i, op_dir = DirRestore, op_phase = BackupPending\<rparr>"
  let ?t = "t\<lparr>tr_restore_id := k\<rparr>"
  have ok: "server_ok m i p" using machine_invD [OF link_restore.prems link_restore.hyps(1)] .
  have old: "j \<in> linked ?t" if "active_on m i j" for j
    using ok link_restore.hyps(2,5) that active_nonzero [OF link_restore.prems]
    by (cases "j = 0") (auto simp: server_ok_def linked_def)
  have "transfer_ok (p\<lparr>pw_transfer := Some ?t\<rparr>) ?t"
    using ok link_restore.hyps by (auto simp: server_ok_def transfer_ok_def)
  moreover have "j \<in> linked ?t" if "active_on (set_op k ?x m) i j" for j
    using that old link_restore.hyps(7) by (auto simp: machine_simps linked_def)
  ultimately have "server_ok (set_op k ?x m) i (p\<lparr>pw_transfer := Some ?t\<rparr>)"
    using ok link_restore.hyps(2) by (simp add: server_ok_def transfer_ok_def)
  then show ?case using link_restore by (intro machine_inv_link [of m i p t]) simp_all
next
  case (advance m i p t x)
  have "tr_backup_id t \<noteq> 0" using advance.prems advance.hyps(5) by (metis machine_inv_def option.distinct(1))
  with machine_invD [OF advance.prems advance.hyps(1)] advance show ?case
    by (intro machine_inv_srv) (simp_all add: server_ok_def transfer_ok_def)
next
  case (cancel m i p t K msg)
  have "machine_inv (set_phases K BackupFailed m)"
    using cancel.prems by (rule machine_inv_phases) (simp add: phase_active_def)
  moreover from machine_invD [OF this, of i p] cancel.hyps
  have "server_ok (set_phases K BackupFailed m) i
      (p\<lparr>pw_transfer := Some (t\<lparr>tr_cancelled := True, tr_message := msg\<rparr>)\<rparr>)"
    by (simp add: server_ok_def transfer_ok_def machine_simps)
  ultimately show ?case by (rule machine_inv_srv)
next
  case (commit m i p t x)
  from machine_invD [OF commit.prems commit.hyps(1)] commit show ?case
    by (intro machine_inv_srv) (simp_all add: server_ok_def transfer_ok_def)
next
  case (finish m i p t x)
  from machine_invD [OF finish.prems finish.hyps(1)] finish show ?case
    by (intro machine_inv_srv) (auto simp: server_ok_def dest: offline_active)
next
  case (rollback m i p t)
  from machine_invD [OF rollback.prems rollback.hyps(1)] rollback show ?case
    by (intro machine_inv_srv) (auto simp: server_ok_def dest: offline_active)
qed

subsection \<open>What only moves forward\<close>

definition phase_le :: "BackupPhase \<Rightarrow> BackupPhase \<Rightarrow> bool" where
  \<comment> \<open>Pending, then Running, then a result; only a success goes on to Deleting\<close>
  "phase_le p q = (p = q \<or> p = BackupPending \<or> (p = BackupRunning \<and> q \<noteq> BackupPending)
     \<or> (p = BackupSucceeded \<and> q = BackupDeleting))"

fun transfer_rank :: "TransferPhase \<Rightarrow> nat" where
  "transfer_rank TransferBackingUp = 0"
| "transfer_rank TransferRestoring = 1"
| "transfer_rank TransferCommitting = 2"

definition transfer_le :: "TransferState \<Rightarrow> TransferState \<Rightarrow> bool" where
  "transfer_le t t' =
     (tr_source_cluster t' = tr_source_cluster t \<and> tr_target_cluster t' = tr_target_cluster t
      \<and> tr_prev_state t' = tr_prev_state t \<and> tr_started_at t' = tr_started_at t
      \<and> transfer_rank (tr_phase t) \<le> transfer_rank (tr_phase t')
      \<and> (tr_cancelled t \<longrightarrow> tr_cancelled t')
      \<and> (tr_backup_id t \<noteq> 0 \<longrightarrow> tr_backup_id t' = tr_backup_id t)
      \<and> (tr_restore_id t \<noteq> 0 \<longrightarrow> tr_restore_id t' = tr_restore_id t))"

lemma phase_le_refl [simp]: "phase_le p p"
  by (simp add: phase_le_def)

lemma phase_le_trans: "phase_le p q \<Longrightarrow> phase_le q r \<Longrightarrow> phase_le p r"
  by (auto simp: phase_le_def)

lemma transfer_le_refl [simp]: "transfer_le t t"
  by (simp add: transfer_le_def)

lemma transfer_le_trans: "transfer_le t u \<Longrightarrow> transfer_le u v \<Longrightarrow> transfer_le t v"
  unfolding transfer_le_def by (metis le_trans)

lemma power_step_transfer:
  assumes "power_step m m'" "m_srv m i = Some p" "pw_transfer p = Some t"
    and "m_srv m' i = Some p'" "pw_transfer p' = Some t'"
  shows "transfer_le t t'"
  using assms
  by (cases rule: power_step.cases) (auto simp: machine_simps transfer_le_def split: if_splits)

definition op_le :: "oper \<Rightarrow> oper \<Rightarrow> bool" where
  "op_le x y = (op_server y = op_server x \<and> op_dir y = op_dir x \<and> phase_le (op_phase x) (op_phase y))"

lemma op_le_refl [simp]: "op_le x x"
  by (simp add: op_le_def)

lemma op_le_trans: "op_le x y \<Longrightarrow> op_le y z \<Longrightarrow> op_le x z"
  by (auto simp: op_le_def intro: phase_le_trans)

lemma set_phases_op: "m_op (set_phases K ph m) k =
    (if k \<in> K then map_option (op_phase_update (\<lambda>_. ph)) (m_op m k) else m_op m k)"
  by (simp add: set_phases_def)

lemma power_step_op:
  assumes "power_step m m'" "m_op m k = Some x" "m_op m' k = Some x'"
  shows "op_le x x'"
  using assms
  by (cases rule: power_step.cases)
    (auto simp: machine_simps set_phases_op op_le_def phase_le_def phase_active_def restrict_map_def split: if_splits)

text \<open>Steps that move operations only.\<close>

definition op_step :: "machine \<Rightarrow> machine \<Rightarrow> bool" where
  "op_step m m' = (power_step m m' \<and> m_srv m' = m_srv m \<and> dom (m_op m') = dom (m_op m))"

lemma op_steps_power: "op_step\<^sup>*\<^sup>* m m' \<Longrightarrow> power_step\<^sup>*\<^sup>* m m'"
  by (rule rtranclp_mono [THEN predicate2D, rotated]) (auto simp: op_step_def)

lemma op_steps_srv: "op_step\<^sup>*\<^sup>* m m' \<Longrightarrow> m_srv m' = m_srv m"
  by (induction rule: rtranclp_induct) (simp_all add: op_step_def)

lemma op_steps_op:
  assumes "op_step\<^sup>*\<^sup>* m m'" "m_op m k = Some x"
  shows "\<exists>x'. m_op m' k = Some x' \<and> op_le x x'"
  using assms(1)
proof (induction rule: rtranclp_induct)
  case (step m1 m2)
  then obtain y where y: "m_op m1 k = Some y" "op_le x y" by blast
  then obtain z where z: "m_op m2 k = Some z" using step.hyps(2) by (auto simp: op_step_def)
  with y step.hyps(2) power_step_op [of m1 m2 k y z] show ?case
    by (auto simp: op_step_def intro: op_le_trans)
qed (simp add: assms(2))

lemma op_step_phases:
  "power_step m (set_phases K ph m) \<Longrightarrow> op_step m (set_phases K ph m)"
  by (auto simp: op_step_def machine_simps set_phases_def split: if_splits)

end
