(* ===== verification/Store_Machine.thy ===== *)
theory Store_Machine imports Transfers Power_Spec begin

text \<open>
  The store as a machine: one step per transaction on servers and operations, with what its
  callers guarantee as premises, and the proof that every step is a sequence of steps of the
  abstract machine of \<open>Power_Spec\<close>. The invariants of that machine therefore hold of every
  database the store can reach.
\<close>

subsection \<open>The view of a database\<close>

definition power_of :: "Server \<Rightarrow> power" where
  "power_of s = \<lparr>pw_desired = sv_desired_state s, pw_transfer = sv_transfer s,
     pw_cluster = sv_cluster_id s\<rparr>"

definition oper_of :: "Backup \<Rightarrow> oper" where
  "oper_of b = \<lparr>op_server = bk_server_id b, op_dir = bk_direction b, op_phase = bk_phase b\<rparr>"

definition machine_of :: "db \<Rightarrow> machine" where
  "machine_of d = \<lparr>m_srv = (\<lambda>i. map_option power_of (find (\<lambda>s. sv_id s = i) (servers d))),
     m_op = (\<lambda>k. map_option oper_of (find (\<lambda>b. bk_id b = k) (backups d)))\<rparr>"

definition ids_ok :: "db \<Rightarrow> bool" where
  "ids_ok d = (distinct (map sv_id (servers d)) \<and> distinct (map bk_id (backups d)))"

definition fresh_server :: "row_id \<Rightarrow> db \<Rightarrow> bool" where
  \<comment> \<open>the database gives a new server a key no row refers to\<close>
  "fresh_server i d = (i \<notin> sv_id ` set (servers d) \<and> i \<notin> bk_server_id ` set (backups d))"

definition fresh_backup :: "row_id \<Rightarrow> db \<Rightarrow> bool" where
  "fresh_backup k d = (k \<noteq> 0 \<and> k \<notin> bk_id ` set (backups d))"

subsection \<open>The steps\<close>

inductive store_step :: "db \<Rightarrow> db \<Rightarrow> bool" where
  other_tables: "servers d' = servers d \<Longrightarrow> backups d' = backups d \<Longrightarrow> store_step d d'"
| set_desired: "st \<noteq> StateRunning \<Longrightarrow> store_step d (SetDesiredState c i st d)"
| hibernate: "store_step d (snd (HibernateIfUnchanged c obs d))"
| last_active: "store_step d (UpdateLastActive c i tm d)"
| wake: "store_step d (Wake c i tm d)"
| start_server: "StartServer c i tm d = Inr d' \<Longrightarrow> store_step d d'"
| request_restart: "store_step d (snd (RequestRestart c i tm d))"
| finish_restart: "store_step d (FinishRestart c i d)"
| hibernation: "store_step d (UpdateServerHibernation c i h rearm d)"
| create_server: "CreateServerChecked c i srv chk d = Inr d' \<Longrightarrow> sv_transfer srv = None \<Longrightarrow>
    fresh_server i d \<Longrightarrow> store_step d d'"
| resources: "UpdateServerResourcesChecked c i ow r rchk d = Inr d' \<Longrightarrow> store_step d d'"
| install_wipe: "store_step d (ClearInstallWipe c i d)"
| reinstall: "store_step d (ReinstallServer c i ri d)"
| networking: "store_step d (UpdateServerNetworking c i ex prts d)"
| environment: "store_step d (UpdateServerEnv c i en sec d)"
| delete_server: "store_step d (DeleteServer i d)"
| create_backup: "CreateBackup c k b d = Inr d' \<Longrightarrow> bk_direction b = DirBackup \<Longrightarrow>
    bk_phase b = BackupPending \<Longrightarrow> fresh_backup k d \<Longrightarrow> store_step d d'"
| create_restore: "CreateRestore c k b d = Inr d' \<Longrightarrow> bk_direction b = DirRestore \<Longrightarrow>
    bk_phase b = BackupPending \<Longrightarrow> fresh_backup k d \<Longrightarrow> store_step d d'"
| create_import: "CreateDatabaseImport c k b d = Inr d' \<Longrightarrow> bk_direction b = DirDatabaseImport \<Longrightarrow>
    bk_phase b = BackupPending \<Longrightarrow> fresh_backup k d \<Longrightarrow> store_step d d'"
| cancel_pending: "store_step d (snd (CancelPendingBackup k d))"
| claim_backup: "ClaimBackup k jn tg dbs ig nt js cl d = Inr (won, d') \<Longrightarrow> store_step d d'"
| delete_imports: "store_step d (DeleteDatabaseImports dbid d)"
| update_deleting: "bk_phase b = BackupDeleting \<Longrightarrow>
    \<forall>r \<in> set (backups d). bk_id r = bk_id b \<longrightarrow> bk_phase r = BackupDeleting \<Longrightarrow>
    store_step d (UpdateBackup b d)"
| observe_job: "ObserveBackupJob k uid d = Inr d' \<Longrightarrow> store_step d d'"
| complete_backup: "CompleteBackup b from_phase keep d = Inr d' \<Longrightarrow> op_active from_phase \<Longrightarrow>
    op_finished (bk_phase b) \<Longrightarrow> store_step d d'"
| clear_job: "store_step d (ClearBackupJob k jn d)"
| forgotten: "MarkBackupForgotten k d = Inr d' \<Longrightarrow> store_step d d'"
| stamp_targets: "store_step d (StampBackupTargets tg d)"
| delete_backup: "store_step d (DeleteBackup k d)"
| mark_deleting: "\<forall>r \<in> set (backups d). bk_id r = k \<longrightarrow> bk_phase r \<in> {BackupSucceeded, BackupDeleting} \<Longrightarrow>
    store_step d (MarkBackupDeleting k d)"
| claim_deletion: "store_step d (snd (ClaimBackupDeletion k jn cl d))"
| delete_backups: "store_step d (DeleteBackupsForServer i d)"
| prune: "PruneBackups i tg keep d = Inr d' \<Longrightarrow> store_step d d'"
| begin_transfer: "BeginServerTransfer c i tgt tm d = Inr (t, d') \<Longrightarrow> store_step d d'"
| create_operation: "CreateTransferOperation c k i dir d = Inr d' \<Longrightarrow> fresh_backup k d \<Longrightarrow> store_step d d'"
| advance: "AdvanceServerTransfer c i d = Inr d' \<Longrightarrow> store_step d d'"
| cancel: "CancelServerTransfer c i msg d = Inr (srv, d') \<Longrightarrow> store_step d d'"
| finish_cancelled: "FinishCancelledTransferOperation c i k d = Inr d' \<Longrightarrow> store_step d d'"
| finish: "FinishServerTransfer c i rollback d = Inr d' \<Longrightarrow> store_step d d'"
| commit: "CommitServerTransfer c i d = Inr d' \<Longrightarrow> store_step d d'"

subsection \<open>How statements act on the view\<close>

named_theorems view_simps "the view after a statement"

lemma machine_of_sel [view_simps]:
  "m_srv (machine_of d) i = map_option power_of (find (\<lambda>s. sv_id s = i) (servers d))"
  "m_op (machine_of d) k = map_option oper_of (find (\<lambda>b. bk_id b = k) (backups d))"
  by (simp_all add: machine_of_def)

lemma machine_eqI:
  fixes m :: machine
  assumes "m_srv m = m_srv m'" "m_op m = m_op m'"
  shows "m = m'"
  using assms by simp

lemma view_update_server:
  assumes "\<And>s. sv_id (f s) = sv_id s"
  shows "machine_of (update_server c i f d) = (machine_of d)\<lparr>m_srv := (m_srv (machine_of d))
    (i := map_option (\<lambda>s. power_of ((f s)\<lparr>sv_updated_at := c\<rparr>)) (find (\<lambda>s. sv_id s = i) (servers d)))\<rparr>"
  using assms
  by (auto simp: machine_of_def update_server_def find_update_where fun_eq_iff option.map_comp
      intro!: option.map_cong dest: find_SomeD)

lemma power_of_updated [simp]: "power_of (s\<lparr>sv_updated_at := c\<rparr>) = power_of s"
  by (simp add: power_of_def)

lemma view_servers_same:
  assumes "servers d' = update_where P f (servers d)" "backups d' = backups d"
    and "\<And>s. sv_id (f s) = sv_id s" "\<And>s. power_of (f s) = power_of s"
  shows "machine_of d' = machine_of d" "ids_ok d' = ids_ok d"
  using assms by (auto simp: machine_of_def find_update_where option.map_comp fun_eq_iff o_def
      ids_ok_def map_key_update_where intro!: option.map_cong)

lemma view_backups_same:
  assumes "backups d' = update_where P f (backups d)" "servers d' = servers d"
    and "\<And>b. bk_id (f b) = bk_id b" "\<And>b. P b \<Longrightarrow> oper_of (f b) = oper_of b"
  shows "machine_of d' = machine_of d" "ids_ok d' = ids_ok d"
  using assms by (auto simp: machine_of_def find_update_where option.map_comp fun_eq_iff o_def
      ids_ok_def map_key_update_where intro!: option.map_cong)

lemma view_update_backups:
  assumes "backups d' = update_where P f (backups d)" "servers d' = servers d"
    and "\<And>b. bk_id (f b) = bk_id b" "\<And>b. P b \<Longrightarrow> oper_of (f b) = (oper_of b)\<lparr>op_phase := ph\<rparr>"
  shows "machine_of d' = set_phases {k. \<exists>b. find (\<lambda>b. bk_id b = k) (backups d) = Some b \<and> P b} ph (machine_of d)"
    and "ids_ok d' = ids_ok d"
  using assms by (auto simp: machine_of_def set_phases_def find_update_where option.map_comp fun_eq_iff o_def
      ids_ok_def map_key_update_where intro!: option.map_cong split: option.splits)

lemma view_delete_backups:
  assumes "backups d' = delete_where P (backups d)" "servers d' = servers d" "ids_ok d"
  shows "machine_of d' = (machine_of d)\<lparr>m_op := m_op (machine_of d) |`
      (- {k. \<exists>b. find (\<lambda>b. bk_id b = k) (backups d) = Some b \<and> P b})\<rparr>"
    and "ids_ok d'"
  using assms by (auto simp: machine_of_def restrict_map_def find_delete_where fun_eq_iff ids_ok_def
      distinct_map_delete_where split: option.splits)

lemma view_new_backup:
  assumes "backups d' = backups d @ [b]" "servers d' = servers d" "fresh_backup (bk_id b) d" "ids_ok d"
  shows "machine_of d' = set_op (bk_id b) (oper_of b) (machine_of d)" "ids_ok d'"
    "bk_id b \<notin> dom (m_op (machine_of d))"
proof -
  have "find (\<lambda>x. bk_id x = bk_id b) (backups d) = None"
    using assms(3) by (force simp: find_None fresh_backup_def image_iff)
  then show "machine_of d' = set_op (bk_id b) (oper_of b) (machine_of d)"
    "bk_id b \<notin> dom (m_op (machine_of d))"
    using assms(1,2) by (auto simp: machine_of_def set_op_def find_snoc fun_eq_iff split: option.splits)
  show "ids_ok d'" using assms by (auto simp: ids_ok_def fresh_backup_def)
qed

lemma ids_update_server:
  "(\<And>s. sv_id (f s) = sv_id s) \<Longrightarrow> ids_ok (update_server c i f d) = ids_ok d"
  by (simp add: ids_ok_def update_server_def map_key_update_where)

subsection \<open>Simulation\<close>

text \<open>
  A transaction is one step of the machine, or some steps that move operations only.
\<close>

definition op_sim :: "db \<Rightarrow> db \<Rightarrow> bool" where
  "op_sim d d' = (ids_ok d \<longrightarrow> ids_ok d' \<and> op_step\<^sup>*\<^sup>* (machine_of d) (machine_of d'))"

definition sim :: "db \<Rightarrow> db \<Rightarrow> bool" where
  "sim d d' = (op_sim d d' \<or> (ids_ok d \<longrightarrow> ids_ok d' \<and> power_step (machine_of d) (machine_of d')))"

lemma sim_step: "(ids_ok d \<Longrightarrow> ids_ok d' \<and> power_step (machine_of d) (machine_of d')) \<Longrightarrow> sim d d'"
  by (auto simp: sim_def)

lemma op_sim_sim: "op_sim d d' \<Longrightarrow> sim d d'"
  by (simp add: sim_def)

lemma op_sim_refl [simp]: "op_sim d d"
  by (simp add: op_sim_def)

lemma sim_refl [simp]: "sim d d"
  by (simp add: sim_def)

lemma op_sim_trans: "op_sim d d1 \<Longrightarrow> op_sim d1 d2 \<Longrightarrow> op_sim d d2"
  by (auto simp: op_sim_def)

lemma op_sim_same: "machine_of d' = machine_of d \<Longrightarrow> ids_ok d' = ids_ok d \<Longrightarrow> op_sim d d'"
  by (simp add: op_sim_def)

lemmas sim_same = op_sim_same [THEN op_sim_sim]

lemma sim_steps: "sim d d' \<Longrightarrow> ids_ok d \<Longrightarrow> ids_ok d' \<and> power_step\<^sup>*\<^sup>* (machine_of d) (machine_of d')"
  by (auto simp: sim_def op_sim_def intro: op_steps_power)

lemma op_sim_servers_same:
  assumes "servers d' = update_where P f (servers d)" "backups d' = backups d"
    and "\<And>s. sv_id (f s) = sv_id s" "\<And>s. power_of (f s) = power_of s"
  shows "op_sim d d'"
  using view_servers_same [OF assms] by (rule op_sim_same)

lemmas sim_servers_same = op_sim_servers_same [THEN op_sim_sim]

lemma op_sim_update_server_same:
  assumes "\<And>s. sv_id (f s) = sv_id s" "\<And>s. power_of (f s) = power_of s"
  shows "op_sim d (update_server c i f d)"
  by (rule op_sim_servers_same [where P = "\<lambda>s. sv_id s = i" and f = "\<lambda>s. (f s)\<lparr>sv_updated_at := c\<rparr>"])
    (simp_all add: update_server_def assms)

lemmas sim_update_server_same = op_sim_update_server_same [THEN op_sim_sim]

lemma sim_backups_same:
  assumes "backups d' = update_where P f (backups d)" "servers d' = servers d"
    and "\<And>b. bk_id (f b) = bk_id b" "\<And>b. P b \<Longrightarrow> oper_of (f b) = oper_of b"
  shows "sim d d'"
  using view_backups_same [OF assms] by (rule sim_same)

lemma sim_drop:
  assumes "backups d' = delete_where P (backups d)" "servers d' = servers d"
  shows "sim d d'"
proof (rule sim_step)
  assume "ids_ok d"
  from view_delete_backups [OF assms this] show "ids_ok d' \<and> power_step (machine_of d) (machine_of d')"
    by (simp add: power_step.drop)
qed

lemma sim_update_server:
  assumes "find (\<lambda>s. sv_id s = i) (servers d) = Some s" "\<And>s. sv_id (f s) = sv_id s"
    and "ids_ok d \<Longrightarrow> power_step (machine_of d) (set_srv i (power_of (f s)) (machine_of d))"
  shows "sim d (update_server c i f d)"
proof (rule sim_step)
  assume "ids_ok d"
  with assms(3) view_update_server [of f c i d] assms(1,2) ids_update_server [of f c i d]
  show "ids_ok (update_server c i f d) \<and> power_step (machine_of d) (machine_of (update_server c i f d))"
    by (simp add: set_srv_def)
qed

lemma view_same_servers: "servers d' = servers d \<Longrightarrow> backups d' = backups d \<Longrightarrow> machine_of d' = machine_of d \<and> ids_ok d' = ids_ok d"
  by (simp add: machine_of_def ids_ok_def)

lemma power_of_sel [simp]:
  "pw_desired (power_of s) = sv_desired_state s" "pw_transfer (power_of s) = sv_transfer s"
  "pw_cluster (power_of s) = sv_cluster_id s"
  by (simp_all add: power_of_def)

lemma oper_of_sel [simp]:
  "op_server (oper_of b) = bk_server_id b" "op_dir (oper_of b) = bk_direction b" "op_phase (oper_of b) = bk_phase b"
  by (simp_all add: oper_of_def)

lemma phase_active_op [simp]: "phase_active p = op_active p"
  by (simp add: phase_active_def op_active_def)

text \<open>What the guards read is what the machine sees.\<close>

lemma view_op_iff:
  "ids_ok d \<Longrightarrow> m_op (machine_of d) k = Some x \<longleftrightarrow> (\<exists>b \<in> set (backups d). bk_id b = k \<and> x = oper_of b)"
  by (auto simp: view_simps ids_ok_def find_row_iff [where k = bk_id])

lemma view_offline:
  "ids_ok d \<Longrightarrow> offline_on (machine_of d) i k \<longleftrightarrow>
    (\<exists>b \<in> set (backups d). bk_id b = k \<and> bk_server_id b = i \<and> op_active (bk_phase b) \<and> bk_direction b \<noteq> DirBackup)"
  by (auto simp: offline_on_def view_op_iff)

lemma view_active:
  "ids_ok d \<Longrightarrow> active_on (machine_of d) i k \<longleftrightarrow>
    (\<exists>b \<in> set (backups d). bk_id b = k \<and> bk_server_id b = i \<and> op_active (bk_phase b))"
  by (auto simp: active_on_def view_op_iff)

lemma offline_dir: "dir \<in> {DirRestore, DirDatabaseImport} \<longleftrightarrow> dir \<noteq> DirBackup"
  by (cases dir) auto

lemma offlineOperationActive_None:
  "offlineOperationActive i d = None \<longleftrightarrow>
    (\<exists>s. find (\<lambda>s. sv_id s = i) (servers d) = Some s \<and> sv_transfer s = None)
    \<and> (\<forall>b \<in> set (backups d). bk_server_id b = i \<and> op_active (bk_phase b) \<longrightarrow> bk_direction b = DirBackup)"
proof -
  have F: "filter (\<lambda>b. bk_server_id b = i \<and> bk_direction b \<in> {DirRestore, DirDatabaseImport} \<and> op_active (bk_phase b)) (backups d) = []
    \<longleftrightarrow> (\<forall>b \<in> set (backups d). bk_server_id b = i \<and> op_active (bk_phase b) \<longrightarrow> bk_direction b = DirBackup)"
    (is "?F = [] \<longleftrightarrow> _")
    unfolding filter_empty_conv offline_dir by blast
  define G where "G F = (let dirs = map bk_direction F in if DirRestore \<in> set dirs then Some ErrRestoreActive
      else if dirs \<noteq> [] then Some ErrDatabaseImportActive else None)" for F :: "Backup list"
  have G: "G F = None \<longleftrightarrow> F = []" for F
    by (auto simp: G_def Let_def)
  show ?thesis
  proof (cases "find (\<lambda>s. sv_id s = i) (servers d)")
    case (Some s)
    have "offlineOperationActive i d = (if sv_transfer s \<noteq> None then Some ErrTransferActive else G ?F)"
      unfolding offlineOperationActive_def Some option.case G_def by (rule refl)
    with Some F G show ?thesis by (cases "sv_transfer s") simp_all
  qed (simp add: offlineOperationActive_def)
qed

lemma sim_update_server_any:
  assumes "\<And>s. sv_id (f s) = sv_id s"
    and "\<And>s. find (\<lambda>s. sv_id s = i) (servers d) = Some s \<Longrightarrow> ids_ok d \<Longrightarrow>
      power_step (machine_of d) (set_srv i (power_of (f s)) (machine_of d))"
  shows "sim d (update_server c i f d)"
proof (cases "find (\<lambda>s. sv_id s = i) (servers d)")
  case None
  then have "servers (update_server c i f d) = servers d"
    by (auto simp: update_server_def find_None intro!: update_where_none)
  then show ?thesis using view_same_servers [of "update_server c i f d" d] by (intro sim_same) simp_all
next
  case (Some s)
  with assms show ?thesis by (intro sim_update_server [of i d s]) simp_all
qed

lemma m_srv_found: "find (\<lambda>s. sv_id s = i) (servers d) = Some s \<Longrightarrow> m_srv (machine_of d) i = Some (power_of s)"
  by (simp add: view_simps)

lemma m_op_found: "find (\<lambda>b. bk_id b = k) (backups d) = Some b \<Longrightarrow> m_op (machine_of d) k = Some (oper_of b)"
  by (simp add: view_simps)

subsubsection \<open>Servers\<close>

lemma sim_set_desired: "st \<noteq> StateRunning \<Longrightarrow> sim d (SetDesiredState c i st d)"
  unfolding SetDesiredState_def
proof (rule sim_update_server_any)
  fix s assume s: "find (\<lambda>s. sv_id s = i) (servers d) = Some s" and "st \<noteq> StateRunning"
  from power_step.halt [OF m_srv_found [OF this(1)] this(2)]
  show "power_step (machine_of d) (set_srv i (power_of (sv_desired_state_update (\<lambda>_. st) s)) (machine_of d))"
    by (simp add: power_of_def)
qed simp

lemma sim_start:
  assumes "StartServer c i tm d = Inr d'"
  shows "sim d d'"
proof -
  obtain s where s: "find (\<lambda>s. sv_id s = i) (servers d) = Some s" and off: "offlineOperationActive i d = None"
    and d': "d' = update_server c i (\<lambda>s. s\<lparr>sv_desired_state := StateRunning, sv_hibernated := False,
                     sv_last_active_at := laterActivity tm (sv_last_active_at s)\<rparr>) d"
    using assms by (auto simp: StartServer_def split: sum.splits option.splits)
  from off s have "sv_transfer s = None" by (simp add: offlineOperationActive_None)
  moreover have "\<forall>k. \<not> offline_on (machine_of d) i k" if "ids_ok d"
    using off that by (auto simp: offlineOperationActive_None view_offline)
  ultimately show ?thesis unfolding d'
    by (intro sim_update_server [OF s])
      (auto simp: power_of_def dest!: power_step.start [OF m_srv_found [OF s], simplified])
qed

lemma CreateServerChecked_Inr:
  "CreateServerChecked c i srv chk d = Inr d' \<Longrightarrow>
    d' = d\<lparr>servers := servers d @ [srv\<lparr>sv_id := i, sv_created_at := c, sv_updated_at := c\<rparr>]\<rparr>"
  by (auto simp: CreateServerChecked_def CreateServer_def split: option.splits sum.splits if_splits)

lemma sim_create:
  assumes "CreateServerChecked c i srv chk d = Inr d'" "sv_transfer srv = None" "fresh_server i d"
  shows "sim d d'"
proof (rule sim_step)
  assume ids: "ids_ok d"
  let ?s = "srv\<lparr>sv_id := i, sv_created_at := c, sv_updated_at := c\<rparr>"
  have d': "d' = d\<lparr>servers := servers d @ [?s]\<rparr>" using CreateServerChecked_Inr [OF assms(1)] .
  have none: "find (\<lambda>s. sv_id s = i) (servers d) = None"
    using assms(3) by (force simp: fresh_server_def find_None image_iff)
  have "machine_of d' = set_srv i (power_of ?s) (machine_of d)"
    using none by (auto simp: d' machine_of_def set_srv_def find_snoc fun_eq_iff split: option.splits)
  moreover have "power_step (machine_of d) (set_srv i (power_of ?s) (machine_of d))"
    using none assms(2,3) ids
    by (intro power_step.create) (auto simp: view_simps view_active fresh_server_def)
  moreover have "ids_ok d'" using ids assms(3) by (auto simp: d' ids_ok_def fresh_server_def)
  ultimately show "ids_ok d' \<and> power_step (machine_of d) (machine_of d')" by simp
qed

lemma sim_delete_server: "sim d (DeleteServer i d)"
proof (rule sim_step)
  assume ids: "ids_ok d"
  have "machine_of (DeleteServer i d) = (machine_of d)\<lparr>m_srv := (m_srv (machine_of d))(i := None)\<rparr>"
    using ids by (auto simp: machine_of_def DeleteServer_def ids_ok_def find_delete_where [where k = sv_id] fun_eq_iff
        split: option.splits dest: find_SomeD)
  then show "ids_ok (DeleteServer i d) \<and> power_step (machine_of d) (machine_of (DeleteServer i d))"
    using ids by (simp add: power_step.delete) (simp add: ids_ok_def DeleteServer_def distinct_map_delete_where)
qed

lemma sim_hibernate: "sim d (snd (HibernateIfUnchanged c obs d))"
  unfolding HibernateIfUnchanged_def Let_def
  by (auto intro!: sim_servers_same [where f = "\<lambda>s. s\<lparr>sv_hibernated := True, sv_updated_at := c\<rparr>"]
      simp: power_of_def)

lemma sim_last_active: "sim d (UpdateLastActive c i tm d)"
  unfolding UpdateLastActive_def
  by (rule sim_servers_same [where f = "\<lambda>s. s\<lparr>sv_last_active_at := Some tm, sv_updated_at := c\<rparr>"])
    (simp_all add: power_of_def)

lemma sim_request_restart: "sim d (snd (RequestRestart c i tm d))"
  unfolding RequestRestart_def Let_def snd_conv
  by (rule sim_servers_same [where f = "\<lambda>s. s\<lparr>sv_restart_requested_at := Some tm, sv_updated_at := c\<rparr>"])
    (simp_all add: power_of_def)

lemma sim_resources: "UpdateServerResourcesChecked c i ow r chk d = Inr d' \<Longrightarrow> sim d d'"
  by (auto simp: UpdateServerResourcesChecked_def power_of_def split: sum.splits option.splits
      intro!: sim_update_server_same)

lemma sim_reinstall: "sim d (ReinstallServer c i r d)"
proof -
  let ?bump = "\<lambda>d. d\<lparr>servers := update_where (\<lambda>s. sv_id s = i)
    (\<lambda>s. s\<lparr>sv_install_generation := sv_install_generation s + 1\<rparr>) (servers d)\<rparr>"
  have bump: "op_sim d (?bump d)" for d
    by (rule op_sim_servers_same [where f = "\<lambda>s. s\<lparr>sv_install_generation := sv_install_generation s + 1\<rparr>"])
      (simp_all add: power_of_def)
  have up: "op_sim d (update_server c i f d1)" if "op_sim d d1" "\<And>s. sv_id (f s) = sv_id s" "\<And>s. power_of (f s) = power_of s" for f d1
    using that op_sim_trans op_sim_update_server_same by blast
  show ?thesis unfolding ReinstallServer_def Let_def
    by (auto intro!: op_sim_sim up op_sim_trans [OF _ bump] simp: power_of_def)
qed

lemma sim_wake: "sim d (Wake c i tm d)"
  unfolding Wake_def by (rule sim_update_server_same) (simp_all add: power_of_def)

lemma sim_fields:
  "sim d (FinishRestart c i d)" "sim d (UpdateServerHibernation c i h rearm d)" "sim d (ClearInstallWipe c i d)"
  "sim d (UpdateServerNetworking c i ex prts d)" "sim d (UpdateServerEnv c i en sec d)"
  unfolding FinishRestart_def UpdateServerHibernation_def ClearInstallWipe_def UpdateServerNetworking_def UpdateServerEnv_def
  by (rule sim_update_server_same; simp add: power_of_def)+

subsubsection \<open>Operations\<close>

lemma sim_create_backup:
  assumes "CreateBackup c k b d = Inr d'" "bk_direction b = DirBackup" "bk_phase b = BackupPending" "fresh_backup k d"
  shows "sim d d'"
proof (rule sim_step)
  assume ids: "ids_ok d"
  obtain s where s: "find (\<lambda>s. sv_id s = bk_server_id b) (servers d) = Some s" "sv_transfer s = None"
    and d': "d' = d\<lparr>backups := backups d @ [b\<lparr>bk_id := k, bk_created_at := c\<rparr>]\<rparr>"
    using assms(1) by (auto simp: CreateBackup_def split: sum.splits if_splits)
  note new = view_new_backup [of d' d "b\<lparr>bk_id := k, bk_created_at := c\<rparr>"]
  have "oper_of (b\<lparr>bk_id := k, bk_created_at := c\<rparr>)
      = \<lparr>op_server = bk_server_id b, op_dir = DirBackup, op_phase = BackupPending\<rparr>"
    using assms(2,3) by (simp add: oper_of_def)
  with new ids assms(4) d' power_step.queue_backup [OF m_srv_found [OF s(1)], of k] s(2)
  show "ids_ok d' \<and> power_step (machine_of d) (machine_of d')"
    by (simp add: fresh_backup_def)
qed

lemma sim_create_offline:
  assumes "createWhileStopped c k b d = Inr d'" "bk_direction b \<noteq> DirBackup" "bk_phase b = BackupPending" "fresh_backup k d"
  shows "sim d d'"
proof (rule sim_step)
  assume ids: "ids_ok d"
  obtain s where s: "find (\<lambda>s. sv_id s = bk_server_id b) (servers d) = Some s" "sv_desired_state s \<noteq> StateRunning"
    and off: "offlineOperationActive (bk_server_id b) d = None"
    and d': "d' = d\<lparr>backups := backups d @ [b\<lparr>bk_id := k, bk_created_at := c\<rparr>]\<rparr>"
    using assms(1) by (auto simp: createWhileStopped_def split: sum.splits if_splits option.splits)
  note new = view_new_backup [of d' d "b\<lparr>bk_id := k, bk_created_at := c\<rparr>"]
  have "\<forall>k. \<not> offline_on (machine_of d) (bk_server_id b) k" "sv_transfer s = None"
    using off s ids by (auto simp: offlineOperationActive_None view_offline)
  moreover have "oper_of (b\<lparr>bk_id := k, bk_created_at := c\<rparr>)
      = \<lparr>op_server = bk_server_id b, op_dir = bk_direction b, op_phase = BackupPending\<rparr>"
    using assms(3) by (simp add: oper_of_def)
  ultimately show "ids_ok d' \<and> power_step (machine_of d) (machine_of d')"
    using new ids assms(2,4) d' power_step.queue_offline [OF m_srv_found [OF s(1)], of "bk_direction b" k] s(2)
    by (simp add: fresh_backup_def)
qed

lemma op_sim_phases:
  assumes "backups d' = update_where P f (backups d)" "servers d' = servers d"
    and "\<And>b. bk_id (f b) = bk_id b" "\<And>b. P b \<Longrightarrow> oper_of (f b) = (oper_of b)\<lparr>op_phase := ph\<rparr>"
    and "\<And>K. ids_ok d \<Longrightarrow> K = {k. \<exists>b. find (\<lambda>b. bk_id b = k) (backups d) = Some b \<and> P b} \<Longrightarrow>
      op_step\<^sup>*\<^sup>* (machine_of d) (set_phases K ph (machine_of d))"
  shows "op_sim d d'"
proof -
  from assms(5) [OF _ refl] view_update_backups [OF assms(1-4)]
  show ?thesis by (simp add: op_sim_def)
qed

text \<open>A statement that picks its row by key changes at most that one.\<close>

lemma op_sim_one_phase:
  assumes "backups d' = update_where P f (backups d)" "servers d' = servers d"
    and "\<And>b. bk_id (f b) = bk_id b" "\<And>b. P b \<Longrightarrow> oper_of (f b) = (oper_of b)\<lparr>op_phase := ph\<rparr>"
    and key: "\<And>b. P b \<Longrightarrow> bk_id b = k"
    and step: "\<And>b. ids_ok d \<Longrightarrow> find (\<lambda>b. bk_id b = k) (backups d) = Some b \<Longrightarrow> P b \<Longrightarrow>
      power_step (machine_of d) (set_phases {k} ph (machine_of d))"
  shows "op_sim d d'"
proof (rule op_sim_phases [OF assms(1-4)])
  fix K assume ids: "ids_ok d" and K: "K = {k. \<exists>b. find (\<lambda>b. bk_id b = k) (backups d) = Some b \<and> P b}"
  have only: "k' = k" if "find (\<lambda>b. bk_id b = k') (backups d) = Some b" "P b" for k' b
    using key [OF that(2)] find_SomeD [OF that(1)] by simp
  show "op_step\<^sup>*\<^sup>* (machine_of d) (set_phases K ph (machine_of d))"
  proof (cases "\<exists>b. find (\<lambda>b. bk_id b = k) (backups d) = Some b \<and> P b")
    case True
    then have "K = {k}" using only K by auto
    with True step ids show ?thesis by (auto intro: op_step_phases)
  next
    case False
    then have "K = {}" using only K by fast
    then show ?thesis by (simp add: set_phases_def)
  qed
qed simp_all

lemmas sim_one_phase = op_sim_one_phase [THEN op_sim_sim]

lemma sim_cancel_pending: "sim d (snd (CancelPendingBackup k d))"
  by (simp add: CancelPendingBackup_def Let_def sim_drop)

lemma sim_deletes:
  "sim d (DeleteDatabaseImports dbid d)" "sim d (DeleteBackup k d)" "sim d (DeleteBackupsForServer i d)"
  unfolding DeleteDatabaseImports_def DeleteBackup_def DeleteBackupsForServer_def
  by (rule sim_drop; simp)+

lemma sim_claim:
  assumes "ClaimBackup k jn tg dbs ig nt js cl d = Inr (won, d')"
  shows "sim d d'"
proof (cases "d' = d")
  case False
  let ?P = "\<lambda>b. bk_id b = k \<and> bk_phase b = BackupPending"
  let ?f = "\<lambda>b. b\<lparr>bk_phase := BackupRunning, bk_job_name := jn, bk_job_spec := js, bk_cluster_id := Some cl,
    bk_target := (if tg \<noteq> [] then tg else bk_target b),
    bk_databases := (case dbs of Some ns \<Rightarrow> ns | None \<Rightarrow> bk_databases b),
    bk_ignored := (if ig \<noteq> [] then ig else bk_ignored b), bk_message := (if nt \<noteq> [] then nt else bk_message b)\<rparr>"
  obtain b s where b: "find (\<lambda>b. bk_id b = k) (backups d) = Some b"
    and s: "find (\<lambda>s. sv_id s = bk_server_id b) (servers d) = Some s"
    and link: "\<not> (case sv_transfer s of None \<Rightarrow> False
        | Some t \<Rightarrow> tr_cancelled t \<or> (tr_backup_id t \<noteq> k \<and> tr_restore_id t \<noteq> k))"
    and d': "d' = d\<lparr>backups := update_where ?P ?f (backups d)\<rparr>"
    using assms False unfolding ClaimBackup_def Let_def by (auto split: option.splits sum.splits if_splits)
  show ?thesis
  proof (rule sim_one_phase [where P = ?P and f = ?f and k = k and ph = BackupRunning])
    fix b' assume "find (\<lambda>b. bk_id b = k) (backups d) = Some b'" "?P b'"
    with b have b': "find (\<lambda>b. bk_id b = k) (backups d) = Some b" "bk_phase b = BackupPending" by simp_all
    from link have "\<forall>t. sv_transfer s = Some t \<longrightarrow> \<not> tr_cancelled t \<and> k \<in> linked t"
      by (auto simp: linked_def)
    with power_step.claim [OF m_op_found [OF b'(1)], of "power_of s"] b'(2) s
    show "power_step (machine_of d) (set_phases {k} BackupRunning (machine_of d))"
      by (simp add: view_simps)
  qed (simp_all add: d' oper_of_def)
qed simp

lemma sim_complete_phase:
  assumes "find (\<lambda>b. bk_id b = k) (backups d) = Some b" "op_active (bk_phase b)" "op_finished ph"
  shows "power_step (machine_of d) (set_phases {k} ph (machine_of d))"
  using power_step.complete [OF m_op_found [OF assms(1)], of ph] assms(2,3)
  by (auto simp: op_finished_def)

lemma op_sim_retire:
  assumes "backups d' = update_where P f (backups d)" "servers d' = servers d"
    and "\<And>b. bk_id (f b) = bk_id b" "\<And>b. P b \<Longrightarrow> oper_of (f b) = (oper_of b)\<lparr>op_phase := BackupDeleting\<rparr>"
    and "\<And>b. b \<in> set (backups d) \<Longrightarrow> P b \<Longrightarrow> bk_phase b \<in> {BackupSucceeded, BackupDeleting}"
  shows "op_sim d d'"
proof (rule op_sim_phases [OF assms(1-4)])
  fix K assume "K = {k. \<exists>b. find (\<lambda>b. bk_id b = k) (backups d) = Some b \<and> P b}"
  then have "op_phase x \<in> {BackupSucceeded, BackupDeleting}"
    if in_K: "k \<in> K" and op: "m_op (machine_of d) k = Some x" for k x
  proof -
    obtain b where b: "find (\<lambda>b. bk_id b = k) (backups d) = Some b" "P b"
      using in_K \<open>K = _\<close> by blast
    with op have "x = oper_of b" by (simp add: view_simps)
    with b find_SomeD [OF b(1)] assms(5) show ?thesis by simp
  qed
  then have "power_step (machine_of d) (set_phases K BackupDeleting (machine_of d))"
    by (intro power_step.retire) blast
  then show "op_step\<^sup>*\<^sup>* (machine_of d) (set_phases K BackupDeleting (machine_of d))"
    by (auto intro: op_step_phases)
qed simp_all

lemma op_sim_prune: "pruneBackups i tg keep d = Inr d' \<Longrightarrow> op_sim d d'"
  unfolding pruneBackups_def Let_def
  by (auto split: if_splits intro!: op_sim_retire [where f = to_deleting] simp: to_deleting_def oper_of_def)

lemmas sim_retire = op_sim_retire [THEN op_sim_sim]
lemmas sim_prune = op_sim_prune [THEN op_sim_sim]

lemma sim_complete:
  assumes "CompleteBackup b from_phase keep d = Inr d'" "op_active from_phase" "op_finished (bk_phase b)"
  shows "sim d d'"
proof -
  let ?P = "\<lambda>r. bk_id r = bk_id b \<and> bk_phase r = from_phase"
  let ?f = "\<lambda>r. r\<lparr>bk_phase := bk_phase b, bk_size_bytes := bk_size_bytes b, bk_message := bk_message b,
    bk_completed_at := bk_completed_at b\<rparr>"
  let ?d1 = "d\<lparr>backups := update_where ?P ?f (backups d)\<rparr>"
  have "op_sim d ?d1"
    by (rule op_sim_one_phase [where P = ?P and f = ?f and k = "bk_id b" and ph = "bk_phase b"])
      (use assms(2,3) sim_complete_phase in \<open>auto simp: oper_of_def\<close>)
  moreover have "op_sim ?d1 d'"
    using assms(1) op_sim_prune by (auto simp: CompleteBackup_def Let_def split: if_splits)
  ultimately show ?thesis by (intro op_sim_sim) (rule op_sim_trans)
qed

lemma sim_update_deleting:
  assumes "bk_phase b = BackupDeleting" "\<forall>r \<in> set (backups d). bk_id r = bk_id b \<longrightarrow> bk_phase r = BackupDeleting"
  shows "sim d (UpdateBackup b d)"
  using assms unfolding UpdateBackup_def update_backup_def
  by (intro sim_retire [where P = "\<lambda>r. bk_id r = bk_id b" and f = "\<lambda>r. r\<lparr>bk_phase := bk_phase b,
      bk_size_bytes := bk_size_bytes b, bk_message := bk_message b, bk_job_name := bk_job_name b,
      bk_completed_at := bk_completed_at b, bk_target := bk_target b\<rparr>"]) (auto simp: oper_of_def)

lemma sim_mark_deleting:
  assumes "\<forall>r \<in> set (backups d). bk_id r = k \<longrightarrow> bk_phase r \<in> {BackupSucceeded, BackupDeleting}"
  shows "sim d (MarkBackupDeleting k d)"
  using assms unfolding MarkBackupDeleting_def update_backup_def
  by (intro sim_retire [where P = "\<lambda>r. bk_id r = k" and f = to_deleting]) (auto simp: oper_of_def to_deleting_def)

lemma sim_observe: "ObserveBackupJob k uid d = Inr d' \<Longrightarrow> sim d d'"
  unfolding ObserveBackupJob_def Let_def
  by (auto split: if_splits simp: oper_of_def intro!: sim_backups_same [where f = "bk_job_uid_update (\<lambda>_. uid)"])

lemma sim_forgotten: "MarkBackupForgotten k d = Inr d' \<Longrightarrow> sim d d'"
  unfolding MarkBackupForgotten_def Let_def
  by (auto split: if_splits simp: oper_of_def intro!: sim_backups_same [where f = "bk_forgotten_update (\<lambda>_. True)"])

lemma sim_backup_fields:
  "sim d (ClearBackupJob k jn d)" "sim d (StampBackupTargets tg d)" "sim d (snd (ClaimBackupDeletion k jn cl d))"
  unfolding ClearBackupJob_def StampBackupTargets_def ClaimBackupDeletion_def Let_def snd_conv
  by (rule sim_backups_same, simp, simp, simp, simp add: oper_of_def)+

subsubsection \<open>Transfers\<close>

lemma view_update_found:
  assumes "find (\<lambda>s. sv_id s = i) (servers d) = Some s" "\<And>s. sv_id (f s) = sv_id s"
  shows "machine_of (update_server c i f d) = set_srv i (power_of (f s)) (machine_of d)"
    and "ids_ok (update_server c i f d) = ids_ok d"
  using assms view_update_server [of f c i d] ids_update_server [of f c i d] by (simp_all add: set_srv_def)

lemma sim_begin:
  assumes "BeginServerTransfer c i tgt tm d = Inr (t, d')"
  shows "sim d d'"
proof -
  obtain s where s: "find (\<lambda>s. sv_id s = i) (servers d) = Some s" "sv_transfer s = None" "sv_cluster_id s \<noteq> tgt"
    and idle: "rows_affected (\<lambda>b. bk_server_id b = i \<and> bk_phase b \<in> {BackupPending, BackupRunning, BackupDeleting}) (backups d) = 0"
    and t: "t = new_transfer (sv_cluster_id s) tgt (sv_desired_state s) tm"
    and d': "d' = update_server c i (\<lambda>s. s\<lparr>sv_transfer := Some t, sv_desired_state := StateStopped,
                        sv_restart_requested_at := None\<rparr>) d"
    using assms unfolding BeginServerTransfer_def Let_def new_transfer_def
    by (auto split: sum.splits if_splits)
  show ?thesis unfolding d'
  proof (rule sim_update_server [OF s(1)])
    assume "ids_ok d"
    then have "\<forall>k x. m_op (machine_of d) k = Some x \<and> op_server x = i \<longrightarrow> \<not> phase_busy (op_phase x)"
      using idle by (auto simp: view_op_iff rows_affected_eq_0 phase_busy_def op_active_def)
    from power_step.begin_transfer [OF m_srv_found [OF s(1)], of tgt tm] this s(2,3)
    show "power_step (machine_of d) (set_srv i (power_of (s\<lparr>sv_transfer := Some t, sv_desired_state := StateStopped,
        sv_restart_requested_at := None\<rparr>)) (machine_of d))"
      by (simp add: power_of_def t)
  qed simp
qed

lemma sim_create_operation:
  assumes "CreateTransferOperation c k i dir d = Inr d'" "fresh_backup k d"
  shows "sim d d'"
proof (rule sim_step)
  assume ids: "ids_ok d"
  obtain s t where s: "find (\<lambda>s. sv_id s = i) (servers d) = Some s" "sv_transfer s = Some t" "\<not> tr_cancelled t"
    using assms(1) by (auto simp: CreateTransferOperation_def split: sum.splits option.splits if_splits)
  have link: "ids_ok (update_server c i (sv_transfer_update (\<lambda>_. Some t')) (d\<lparr>backups := backups d @ [b]\<rparr>))
      \<and> machine_of (update_server c i (sv_transfer_update (\<lambda>_. Some t')) (d\<lparr>backups := backups d @ [b]\<rparr>))
        = set_srv i ((power_of s)\<lparr>pw_transfer := Some t'\<rparr>) (set_op k (oper_of b) (machine_of d))"
    if "bk_id b = k" for b t'
  proof -
    let ?d1 = "d\<lparr>backups := backups d @ [b]\<rparr>"
    have "find (\<lambda>s. sv_id s = i) (servers ?d1) = Some s" using s(1) by simp
    from view_update_found [OF this, of "sv_transfer_update (\<lambda>_. Some t')" c]
      view_new_backup [of ?d1 d b] that assms(2) ids
    show ?thesis by (simp add: power_of_def)
  qed
  have fresh: "k \<noteq> 0" "k \<notin> dom (m_op (machine_of d))"
    using view_new_backup(3) [of "d\<lparr>backups := backups d @ [(new_operation i dir)\<lparr>bk_id := k\<rparr>]\<rparr>" d] assms(2) ids
    by (simp_all add: fresh_backup_def)
  show "ids_ok d' \<and> power_step (machine_of d) (machine_of d')"
  proof (cases dir)
    case DirBackup
    define b where "b = (new_operation i DirBackup)\<lparr>bk_id := k, bk_created_at := c, bk_full := True,
      bk_cluster_id := Some (tr_source_cluster t)\<rparr>"
    have d': "d' = update_server c i (sv_transfer_update (\<lambda>_. Some (t\<lparr>tr_backup_id := k\<rparr>))) (d\<lparr>backups := backups d @ [b]\<rparr>)"
      and ph: "tr_phase t = TransferBackingUp" "tr_backup_id t = 0"
      using assms(1) s DirBackup unfolding CreateTransferOperation_def lockServer_def Let_def b_def by (auto split: if_splits)
    have "bk_id b = k" "oper_of b = \<lparr>op_server = i, op_dir = DirBackup, op_phase = BackupPending\<rparr>"
      by (simp_all add: b_def oper_of_def new_operation_def)
    with link [of b "t\<lparr>tr_backup_id := k\<rparr>"] d' power_step.link_backup [OF m_srv_found [OF s(1)], of t k] s ph fresh
    show ?thesis by simp
  next
    case DirRestore
    define b where "b = (new_operation i DirRestore)\<lparr>bk_id := k, bk_created_at := c, bk_source_id := tr_backup_id t,
      bk_cluster_id := Some (tr_target_cluster t)\<rparr>"
    have d': "d' = update_server c i (sv_transfer_update (\<lambda>_. Some (t\<lparr>tr_restore_id := k\<rparr>))) (d\<lparr>backups := backups d @ [b]\<rparr>)"
      and ph: "tr_phase t = TransferRestoring" "tr_restore_id t = 0"
      using assms(1) s DirRestore unfolding CreateTransferOperation_def lockServer_def Let_def b_def by (auto split: if_splits)
    have "bk_id b = k" "oper_of b = \<lparr>op_server = i, op_dir = DirRestore, op_phase = BackupPending\<rparr>"
      by (simp_all add: b_def oper_of_def new_operation_def)
    with link [of b "t\<lparr>tr_restore_id := k\<rparr>"] d' power_step.link_restore [OF m_srv_found [OF s(1)], of t k] s ph fresh
    show ?thesis by simp
  qed (use assms(1) s in \<open>simp add: CreateTransferOperation_def lockServer_def Let_def\<close>)
qed

lemma sim_advance:
  assumes "AdvanceServerTransfer c i d = Inr d'"
  shows "sim d d'"
proof -
  obtain s t b where s: "find (\<lambda>s. sv_id s = i) (servers d) = Some s" "sv_transfer s = Some t" "\<not> tr_cancelled t"
      "tr_phase t = TransferBackingUp"
    and b: "find (\<lambda>b. bk_id b = tr_backup_id t) (backups d) = Some b" "bk_phase b = BackupSucceeded"
    and idle: "rows_affected (\<lambda>b. bk_server_id b = i \<and> bk_id b \<noteq> tr_backup_id t
        \<and> bk_phase b \<in> {BackupPending, BackupRunning, BackupDeleting}) (backups d) = 0"
    and d': "d' = update_server c i (\<lambda>s. s\<lparr>sv_transfer := Some (t\<lparr>tr_phase := TransferRestoring\<rparr>),
                              sv_cluster_id := tr_target_cluster t\<rparr>) d"
    using assms unfolding AdvanceServerTransfer_def by (auto split: sum.splits option.splits if_splits)
  show ?thesis unfolding d'
  proof (rule sim_update_server [OF s(1)])
    assume "ids_ok d"
    then have "\<forall>k y. m_op (machine_of d) k = Some y \<and> op_server y = i \<and> k \<noteq> tr_backup_id t \<longrightarrow> \<not> phase_busy (op_phase y)"
      using idle by (auto simp: view_op_iff rows_affected_eq_0 phase_busy_def op_active_def)
    from power_step.advance [OF m_srv_found [OF s(1)], of t "oper_of b"] this s b(2) m_op_found [OF b(1)]
    show "power_step (machine_of d) (set_srv i (power_of (s\<lparr>sv_transfer := Some (t\<lparr>tr_phase := TransferRestoring\<rparr>),
        sv_cluster_id := tr_target_cluster t\<rparr>)) (machine_of d))"
      by (simp add: power_of_def)
  qed simp
qed

lemma sim_cancel:
  assumes "CancelServerTransfer c i msg d = Inr (srv, d')"
  shows "sim d d'"
proof (rule sim_step)
  assume ids: "ids_ok d"
  let ?f = "\<lambda>b. b\<lparr>bk_phase := BackupFailed, bk_message := msg, bk_completed_at := Some c\<rparr>"
  obtain s t where s: "find (\<lambda>s. sv_id s = i) (servers d) = Some s" "sv_transfer s = Some t" "tr_phase t \<noteq> TransferCommitting"
    and d': "d' = update_server c i (sv_transfer_update (\<lambda>_. Some (t\<lparr>tr_cancelled := True, tr_message := msg\<rparr>)))
      (d\<lparr>backups := update_where (\<lambda>b. bk_server_id b = i \<and> bk_id b \<in> {tr_backup_id t, tr_restore_id t}
         \<and> bk_phase b = BackupPending) ?f (backups d)\<rparr>)"
    using assms unfolding CancelServerTransfer_def Let_def by (auto split: sum.splits option.splits if_splits)
  let ?P = "\<lambda>b. bk_server_id b = i \<and> bk_id b \<in> {tr_backup_id t, tr_restore_id t} \<and> bk_phase b = BackupPending"
  let ?d1 = "d\<lparr>backups := update_where ?P ?f (backups d)\<rparr>"
  define K where "K = {k. \<exists>b. find (\<lambda>b. bk_id b = k) (backups d) = Some b \<and> ?P b}"
  have d1: "machine_of ?d1 = set_phases K BackupFailed (machine_of d)" "ids_ok ?d1 = ids_ok d"
    unfolding K_def using view_update_backups [where P = ?P and f = ?f and d = d and d' = ?d1]
    by (simp_all add: oper_of_def)
  have "find (\<lambda>s. sv_id s = i) (servers ?d1) = Some s" using s(1) by simp
  from view_update_found [OF this, of "sv_transfer_update (\<lambda>_. Some (t\<lparr>tr_cancelled := True, tr_message := msg\<rparr>))" c] d1
  have view: "machine_of d' = set_srv i ((power_of s)\<lparr>pw_transfer := Some (t\<lparr>tr_cancelled := True, tr_message := msg\<rparr>)\<rparr>)
      (set_phases K BackupFailed (machine_of d))" and "ids_ok d'"
    using ids by (simp_all add: d' power_of_def)
  moreover have "\<forall>k \<in> K. \<forall>x. m_op (machine_of d) k = Some x \<longrightarrow> op_phase x = BackupPending"
    by (auto simp: K_def view_simps)
  ultimately show "ids_ok d' \<and> power_step (machine_of d) (machine_of d')"
    using power_step.cancel [OF m_srv_found [OF s(1)], of t K msg] s by simp
qed

lemma sim_finish_cancelled:
  assumes "FinishCancelledTransferOperation c i k d = Inr d'"
  shows "sim d d'"
proof -
  let ?P = "\<lambda>b. bk_id b = k \<and> bk_server_id b = i \<and> bk_phase b = BackupRunning"
  obtain s t where "find (\<lambda>s. sv_id s = i) (servers d) = Some s" "sv_transfer s = Some t"
    using assms by (auto simp: FinishCancelledTransferOperation_def split: sum.splits option.splits if_splits)
  then have d': "d' = d\<lparr>backups := update_where ?P
      (\<lambda>b. b\<lparr>bk_phase := BackupFailed, bk_message := tr_message t, bk_completed_at := Some c\<rparr>) (backups d)\<rparr>"
    using assms unfolding FinishCancelledTransferOperation_def lockServer_def by (simp split: if_splits)
  show ?thesis
    by (rule sim_one_phase [where P = ?P and k = k and ph = BackupFailed and
          f = "\<lambda>b. b\<lparr>bk_phase := BackupFailed, bk_message := tr_message t, bk_completed_at := Some c\<rparr>"])
      (use sim_complete_phase in \<open>auto simp: d' oper_of_def op_finished_def\<close>)
qed

lemma FinishServerTransfer_Inr:
  assumes "FinishServerTransfer c i rollback d = Inr d'"
  obtains s t where "find (\<lambda>s. sv_id s = i) (servers d) = Some s" "sv_transfer s = Some t" "tr_cancelled t = rollback"
    "rows_affected (\<lambda>b. bk_server_id b = i \<and> bk_id b \<in> {tr_backup_id t, tr_restore_id t} \<and> op_active (bk_phase b)) (backups d) = 0"
    "d' = update_server c i (\<lambda>s. s\<lparr>sv_transfer := None,
        sv_cluster_id := (if rollback then tr_source_cluster t else tr_target_cluster t),
        sv_desired_state := tr_prev_state t\<rparr>) d"
    "\<not> rollback \<Longrightarrow> tr_phase t = TransferCommitting \<and> tr_restore_id t \<noteq> 0
      \<and> (\<exists>b. find (\<lambda>b. bk_id b = tr_restore_id t) (backups d) = Some b \<and> bk_phase b = BackupSucceeded)"
  using assms unfolding FinishServerTransfer_def Let_def
  by (auto split: sum.splits option.splits if_splits)

lemma sim_finish:
  assumes "FinishServerTransfer c i rollback d = Inr d'"
  shows "sim d d'"
  using assms
proof (cases rule: FinishServerTransfer_Inr)
  case (1 s t)
  show ?thesis unfolding 1(5)
  proof (rule sim_update_server [OF 1(1)])
    assume "ids_ok d"
    then have idle: "\<forall>k \<in> linked t. \<not> active_on (machine_of d) i k"
      using 1(4) by (auto simp: view_active rows_affected_eq_0 linked_def)
    note srv = m_srv_found [OF 1(1)]
    show "power_step (machine_of d) (set_srv i (power_of (s\<lparr>sv_transfer := None,
        sv_cluster_id := (if rollback then tr_source_cluster t else tr_target_cluster t),
        sv_desired_state := tr_prev_state t\<rparr>)) (machine_of d))"
    proof (cases rollback)
      case True
      with power_step.rollback [OF srv, of t] 1(2,3) idle show ?thesis by (simp add: power_of_def)
    next
      case False
      with 1(6) obtain b where b: "find (\<lambda>b. bk_id b = tr_restore_id t) (backups d) = Some b"
        and ph: "bk_phase b = BackupSucceeded" "tr_phase t = TransferCommitting" by blast
      from power_step.finish [OF srv, of t "oper_of b"] m_op_found [OF b] ph False 1(2,3) idle
      show ?thesis by (simp add: power_of_def)
    qed
  qed simp
qed

lemma CommitServerTransfer_Inr:
  assumes "CommitServerTransfer c i d = Inr d'"
  obtains s t b where "find (\<lambda>s. sv_id s = i) (servers d) = Some s" "sv_transfer s = Some t" "\<not> tr_cancelled t"
    "tr_phase t = TransferRestoring" "tr_restore_id t \<noteq> 0"
    "find (\<lambda>b. bk_id b = tr_restore_id t) (backups d) = Some b" "bk_phase b = BackupSucceeded"
    "d' = update_server c i (sv_transfer_update (\<lambda>_. Some (t\<lparr>tr_phase := TransferCommitting\<rparr>))) d"
  using assms unfolding CommitServerTransfer_def by (auto split: sum.splits option.splits if_splits)

lemma sim_commit:
  assumes "CommitServerTransfer c i d = Inr d'"
  shows "sim d d'"
  using assms
proof (cases rule: CommitServerTransfer_Inr)
  case (1 s t b)
  show ?thesis unfolding 1(8)
  proof (rule sim_update_server [OF 1(1)])
    from power_step.commit [OF m_srv_found [OF 1(1)], of t "oper_of b"] m_op_found [OF 1(6)] 1
    show "power_step (machine_of d) (set_srv i (power_of (sv_transfer_update
        (\<lambda>_. Some (t\<lparr>tr_phase := TransferCommitting\<rparr>)) s)) (machine_of d))"
      by (simp add: power_of_def)
  qed simp
qed

subsection \<open>Refinement and reachability\<close>

lemma store_step_sim: "store_step d d' \<Longrightarrow> sim d d'"
proof (induction rule: store_step.induct)
  case (other_tables d' d)
  then show ?case using view_same_servers by (intro sim_same) blast+
qed (simp_all add: sim_set_desired sim_hibernate sim_last_active sim_wake sim_start sim_request_restart
    sim_fields sim_create sim_resources sim_reinstall sim_delete_server sim_create_backup sim_create_offline
    CreateRestore_def CreateDatabaseImport_def sim_cancel_pending sim_claim sim_deletes sim_update_deleting
    sim_observe sim_complete sim_backup_fields sim_forgotten sim_mark_deleting PruneBackups_def sim_prune
    sim_begin sim_create_operation sim_advance sim_cancel sim_finish_cancelled sim_finish sim_commit)

end
