(* ===== verification/Store_Props.thy ===== *)
theory Store_Props imports Store_Machine begin

text \<open>
  What holds of every database the store can reach (\<open>internal/store/store.go\<close>,
  \<open>internal/store/transfer.go\<close>), obtained from the abstract machine through the
  refinement of \<open>Store_Machine\<close>.
\<close>

lemma store_step_ids: "store_step d d' \<Longrightarrow> ids_ok d \<Longrightarrow> ids_ok d'"
  using sim_steps [OF store_step_sim] by blast

text \<open>C4: every transaction of the store on servers, operations and transfers, from a database
  with unique keys, is a run of the abstract power machine and keeps the keys unique.\<close>

theorem store_step_refines:
  assumes "store_step d d'" "ids_ok d"
  shows "ids_ok d' \<and> power_step\<^sup>*\<^sup>* (machine_of d) (machine_of d')"
  using sim_steps [OF store_step_sim [OF assms(1)] assms(2)] .

subsection \<open>Reachable databases\<close>

definition store_inv :: "db \<Rightarrow> bool" where
  "store_inv d = (ids_ok d \<and> machine_inv (machine_of d))"

lemma power_steps_inv: "power_step\<^sup>*\<^sup>* m m' \<Longrightarrow> machine_inv m \<Longrightarrow> machine_inv m'"
  by (induction rule: rtranclp_induct) (auto intro: power_step_inv)

lemma store_step_inv: "store_step d d' \<Longrightarrow> store_inv d \<Longrightarrow> store_inv d'"
  using sim_steps [OF store_step_sim] power_steps_inv unfolding store_inv_def by blast

lemma store_steps_inv: "store_step\<^sup>*\<^sup>* d d' \<Longrightarrow> store_inv d \<Longrightarrow> store_inv d'"
  by (induction rule: rtranclp_induct) (auto intro: store_step_inv)

definition empty_db :: db where
  "empty_db = \<lparr>servers = [], backups = [], ports = [], schedules = [], users = [], sessions = [],
     accesses = [], invites = [], resets = [], confirmations = [], api_keys = [], ssh_keys = [],
     uploads = [], cursors = [], rate_counters = [], events = [], audits = [], admin_roles = []\<rparr>"

lemma store_inv_empty: "store_inv empty_db"
  by (simp add: store_inv_def empty_db_def ids_ok_def machine_inv_def machine_of_def)

lemma store_inv_server:
  assumes "store_inv d" "s \<in> set (servers d)"
  shows "server_ok (machine_of d) (sv_id s) (power_of s)"
proof -
  have "m_srv (machine_of d) (sv_id s) = Some (power_of s)"
    using assms find_key [of sv_id "servers d" s] by (simp add: store_inv_def ids_ok_def view_simps)
  with assms(1) show ?thesis by (auto simp: store_inv_def intro: machine_invD)
qed

subsection \<open>A server and the operations on its data\<close>

text \<open>C1: in every database the store reaches, a server that is meant to run has no restore and
  no database import waiting or running and is not being transferred: nothing else has its
  data.\<close>

theorem running_server_has_its_data:
  assumes "store_step\<^sup>*\<^sup>* empty_db d" "s \<in> set (servers d)" "sv_desired_state s = StateRunning"
  shows "sv_transfer s = None \<and> (\<forall>b \<in> set (backups d). bk_server_id b = sv_id s
    \<and> bk_direction b \<in> {DirRestore, DirDatabaseImport} \<longrightarrow> \<not> op_active (bk_phase b))"
proof -
  have inv: "store_inv d" using store_steps_inv [OF assms(1) store_inv_empty] .
  then have ok: "server_ok (machine_of d) (sv_id s) (power_of s)" and ids: "ids_ok d"
    using store_inv_server assms(2) by (simp_all add: store_inv_def)
  have "sv_transfer s = None"
    using ok assms(3) by (cases "sv_transfer s") (auto simp: server_ok_def transfer_ok_def)
  moreover have "\<not> offline_on (machine_of d) (sv_id s) k" for k
    using ok assms(3) by (simp add: server_ok_def)
  ultimately show ?thesis using ids by (auto simp: view_offline)
qed

text \<open>C2: in every database the store reaches, a server in a transfer is not meant to run, is
  placed on the source cluster until the transfer advances and on the target from then on, has
  no operation waiting or running but the transfer's own backup and restore, and is cancelled
  only before the commit, which comes after a restore was made.\<close>

theorem transfer_freezes_server:
  assumes "store_step\<^sup>*\<^sup>* empty_db d" "s \<in> set (servers d)" "sv_transfer s = Some t"
  shows "sv_desired_state s \<noteq> StateRunning \<and> tr_source_cluster t \<noteq> tr_target_cluster t
    \<and> sv_cluster_id s = (if tr_phase t = TransferBackingUp then tr_source_cluster t else tr_target_cluster t)
    \<and> (\<forall>b \<in> set (backups d). bk_server_id b = sv_id s \<and> op_active (bk_phase b) \<longrightarrow>
         bk_id b \<in> {tr_backup_id t, tr_restore_id t})
    \<and> (tr_phase t = TransferCommitting \<longrightarrow> \<not> tr_cancelled t \<and> tr_restore_id t \<noteq> 0)"
proof -
  have inv: "store_inv d" using store_steps_inv [OF assms(1) store_inv_empty] .
  then have ok: "server_ok (machine_of d) (sv_id s) (power_of s)" and ids: "ids_ok d"
    using store_inv_server assms(2) by (simp_all add: store_inv_def)
  have t: "transfer_ok (power_of s) t" and act: "\<And>k. active_on (machine_of d) (sv_id s) k \<Longrightarrow> k \<in> linked t"
    using ok assms(3) by (simp_all add: server_ok_def)
  have "bk_id b \<in> {tr_backup_id t, tr_restore_id t}"
    if "b \<in> set (backups d)" "bk_server_id b = sv_id s" "op_active (bk_phase b)" for b
    using act [of "bk_id b"] that ids by (auto simp: view_active linked_def)
  with t show ?thesis by (auto simp: transfer_ok_def)
qed

subsection \<open>Operations and transfers only move forward\<close>

lemma sim_op:
  assumes "sim d d'" "ids_ok d" "m_op (machine_of d) k = Some x" "m_op (machine_of d') k = Some x'"
  shows "op_le x x'"
  using assms op_steps_op [of "machine_of d" "machine_of d'" k x] power_step_op
  by (auto simp: sim_def op_sim_def)

lemma sim_transfer:
  assumes "sim d d'" "ids_ok d" "m_srv (machine_of d) i = Some p" "pw_transfer p = Some t"
    and "m_srv (machine_of d') i = Some p'" "pw_transfer p' = Some t'"
  shows "transfer_le t t'"
  using assms op_steps_srv [of "machine_of d" "machine_of d'"] power_step_transfer
  by (auto simp: sim_def op_sim_def)

text \<open>A run of the store through databases that all satisfy \<open>P\<close>.\<close>

definition run_while :: "(db \<Rightarrow> bool) \<Rightarrow> db \<Rightarrow> db \<Rightarrow> bool" where
  "run_while P = (\<lambda>d d'. store_step d d' \<and> P d \<and> P d')\<^sup>*\<^sup>*"

lemma run_while_refl [simp]: "run_while P d d"
  by (simp add: run_while_def)

lemma run_while_step: "store_step d d1 \<Longrightarrow> P d \<Longrightarrow> P d1 \<Longrightarrow> run_while P d1 d2 \<Longrightarrow> run_while P d d2"
  unfolding run_while_def by (rule converse_rtranclp_into_rtranclp) simp_all

lemma run_while_ids: "run_while P d d' \<Longrightarrow> ids_ok d \<Longrightarrow> ids_ok d'"
  unfolding run_while_def
  by (induction rule: rtranclp_induct) (auto dest: store_step_ids)

definition has_backup :: "row_id \<Rightarrow> db \<Rightarrow> bool" where
  "has_backup k d = (\<exists>b \<in> set (backups d). bk_id b = k)"

definition in_transfer :: "row_id \<Rightarrow> db \<Rightarrow> bool" where
  "in_transfer i d = (\<exists>s \<in> set (servers d). sv_id s = i \<and> sv_transfer s \<noteq> None)"

lemma has_backup_op: "ids_ok d \<Longrightarrow> has_backup k d \<longleftrightarrow> (\<exists>x. m_op (machine_of d) k = Some x)"
  by (auto simp: has_backup_def view_op_iff)

lemma view_srv_iff:
  "ids_ok d \<Longrightarrow> m_srv (machine_of d) i = Some p \<longleftrightarrow> (\<exists>s \<in> set (servers d). sv_id s = i \<and> p = power_of s)"
  by (auto simp: view_simps ids_ok_def find_row_iff [where k = sv_id])

lemma in_transfer_srv:
  "ids_ok d \<Longrightarrow> in_transfer i d \<longleftrightarrow> (\<exists>p t. m_srv (machine_of d) i = Some p \<and> pw_transfer p = Some t)"
  by (auto simp: in_transfer_def view_srv_iff)

lemma run_op:
  assumes "run_while (has_backup k) d d'" "ids_ok d" "m_op (machine_of d) k = Some x"
  shows "\<exists>x'. m_op (machine_of d') k = Some x' \<and> op_le x x'"
  using assms(1) unfolding run_while_def
proof (induction rule: rtranclp_induct)
  case (step d1 d2)
  then have "run_while (has_backup k) d d1" unfolding run_while_def by simp
  then have ids: "ids_ok d1" using run_while_ids assms(2) by blast
  then have "ids_ok d2" using step.hyps(2) store_step_ids by blast
  with step.hyps(2) obtain y where y: "m_op (machine_of d2) k = Some y" by (auto simp: has_backup_op)
  from step.IH obtain z where "m_op (machine_of d1) k = Some z" "op_le x z" by blast
  with sim_op [OF store_step_sim ids _ y] step.hyps(2) y show ?case by (auto intro: op_le_trans)
qed (simp add: assms(3))

lemma run_transfer:
  assumes "run_while (in_transfer i) d d'" "ids_ok d" "m_srv (machine_of d) i = Some p" "pw_transfer p = Some t"
  shows "\<exists>p' t'. m_srv (machine_of d') i = Some p' \<and> pw_transfer p' = Some t' \<and> transfer_le t t'"
  using assms(1) unfolding run_while_def
proof (induction rule: rtranclp_induct)
  case (step d1 d2)
  then have "run_while (in_transfer i) d d1" unfolding run_while_def by simp
  then have ids: "ids_ok d1" using run_while_ids assms(2) by blast
  then have "ids_ok d2" using step.hyps(2) store_step_ids by blast
  with step.hyps(2) obtain q u where q: "m_srv (machine_of d2) i = Some q" "pw_transfer q = Some u"
    by (auto simp: in_transfer_srv)
  from step.IH obtain p1 t1 where "m_srv (machine_of d1) i = Some p1" "pw_transfer p1 = Some t1" "transfer_le t t1"
    by blast
  with sim_transfer [OF store_step_sim ids _ _ q] step.hyps(2) q show ?case
    by (auto intro: transfer_le_trans)
qed (simp add: assms(3,4))

lemma operation_forward:
  assumes "run_while (has_backup (bk_id b)) d d'" "ids_ok d" "b \<in> set (backups d)"
    and "b' \<in> set (backups d')" "bk_id b' = bk_id b"
  shows "bk_server_id b' = bk_server_id b \<and> bk_direction b' = bk_direction b
    \<and> phase_le (bk_phase b) (bk_phase b')"
proof -
  have op: "m_op (machine_of d) (bk_id b) = Some (oper_of b)" using assms(2,3) by (auto simp: view_op_iff)
  have "ids_ok d'" using run_while_ids assms(1,2) by blast
  then have "m_op (machine_of d') (bk_id b) = Some (oper_of b')" using assms(4,5) by (auto simp: view_op_iff)
  with run_op [OF assms(1,2) op] show ?thesis by (auto simp: op_le_def)
qed

text \<open>C15: as long as its row is there, a backup, restore or import keeps its server and its
  direction and its phase only moves forward: from Pending to Running, from there to a result,
  and from Succeeded to Deleting; a failed operation stays failed.\<close>

theorem operation_moves_forward:
  assumes "run_while (has_backup (bk_id b)) d d'" "ids_ok d" "b \<in> set (backups d)"
    and "b' \<in> set (backups d')" "bk_id b' = bk_id b"
  shows "bk_server_id b' = bk_server_id b \<and> bk_direction b' = bk_direction b
    \<and> phase_le (bk_phase b) (bk_phase b')"
  using operation_forward [OF assms] .

lemma ClaimBackup_won:
  assumes "ClaimBackup k jn tg dbs ig nt js cl d = Inr (True, d')"
  shows "\<exists>b \<in> set (backups d'). bk_id b = k \<and> bk_phase b = BackupRunning"
proof -
  let ?P = "\<lambda>b. bk_id b = k \<and> bk_phase b = BackupPending"
  obtain f where "rows_affected ?P (backups d) = 1" and d': "backups d' = update_where ?P f (backups d)"
    and f: "\<And>b. bk_id (f b) = bk_id b" "\<And>b. bk_phase (f b) = BackupRunning"
    using assms unfolding ClaimBackup_def Let_def by (auto split: option.splits sum.splits if_splits)
  then obtain b where "b \<in> set (backups d)" "?P b" using rows_affected_1_ex by blast
  then show ?thesis using f by (intro bexI [of _ "f b"]) (auto simp: d' set_update_where)
qed

lemma claim_needs_pending:
  assumes "\<forall>b \<in> set (backups d). bk_id b = k \<longrightarrow> bk_phase b \<noteq> BackupPending"
  shows "ClaimBackup k jn tg dbs ig nt js cl d = Inr (won, d') \<Longrightarrow> \<not> won" "\<not> fst (CancelPendingBackup k d)"
proof -
  have "rows_affected (\<lambda>b. bk_id b = k \<and> bk_phase b = BackupPending) (backups d) = 0"
    using assms by (auto simp: rows_affected_eq_0)
  then show "ClaimBackup k jn tg dbs ig nt js cl d = Inr (won, d') \<Longrightarrow> \<not> won" "\<not> fst (CancelPendingBackup k d)"
    unfolding ClaimBackup_def CancelPendingBackup_def Let_def
    by (auto split: option.splits sum.splits if_splits simp del: rows_affected_eq_0)
qed

text \<open>an operation is started once: after one claim has won, no later claim of it wins and it
  can no longer be called off, whatever happens in between, as long as its row is there.\<close>

theorem claimed_once:
  assumes "ClaimBackup k jn tg dbs ig nt js cl d = Inr (True, d1)" "ids_ok d"
    and "run_while (has_backup k) d1 d2"
  shows "(\<forall>won d3. ClaimBackup k jn' tg' dbs' ig' nt' js' cl' d2 = Inr (won, d3) \<longrightarrow> \<not> won)
    \<and> \<not> fst (CancelPendingBackup k d2)"
proof -
  have ids: "ids_ok d1" using store_step_ids [OF store_step.claim_backup [OF assms(1)] assms(2)] .
  obtain b where b: "b \<in> set (backups d1)" "bk_id b = k" "bk_phase b = BackupRunning"
    using ClaimBackup_won [OF assms(1)] by blast
  have "bk_phase b' \<noteq> BackupPending" if "b' \<in> set (backups d2)" "bk_id b' = k" for b'
    using operation_forward [of b d1 d2 b'] assms(3) ids b that by (auto simp: phase_le_def)
  then show ?thesis using claim_needs_pending [of d2 k] by blast
qed

text \<open>C3: a transfer that is begun, and carried on by whatever steps until it is finished, leaves
  the server in the desired state it had before, on the target cluster when it is carried
  through and back on the cluster it came from when it is rolled back.\<close>

theorem transfer_round_trip:
  assumes "GetServer i d0 = Inr s0" "ids_ok d0" "BeginServerTransfer c i target tm d0 = Inr (t, d1)"
    and "run_while (in_transfer i) d1 d2" "FinishServerTransfer c' i rollback d2 = Inr d3"
  shows "\<exists>s3. GetServer i d3 = Inr s3 \<and> sv_transfer s3 = None
    \<and> sv_desired_state s3 = sv_desired_state s0
    \<and> sv_cluster_id s3 = (if rollback then sv_cluster_id s0 else target)"
proof -
  have s0: "find (\<lambda>s. sv_id s = i) (servers d0) = Some s0"
    using assms(1) by (auto simp: GetServer_def split: option.splits)
  have ids: "ids_ok d1" using store_step_ids [OF store_step.begin_transfer [OF assms(3)] assms(2)] .
  let ?t = "new_transfer (sv_cluster_id s0) target (sv_desired_state s0) tm"
  have t: "t = ?t" and d1: "d1 = update_server c i (\<lambda>s. s\<lparr>sv_transfer := Some ?t, sv_desired_state := StateStopped,
      sv_restart_requested_at := None\<rparr>) d0"
    using assms(3) s0 unfolding BeginServerTransfer_def Let_def new_transfer_def lockServer_def
    by (auto split: if_splits)
  have p: "m_srv (machine_of d1) i = Some (power_of (s0\<lparr>sv_transfer := Some ?t, sv_desired_state := StateStopped,
      sv_restart_requested_at := None\<rparr>))"
    unfolding d1 by (subst view_update_found(1) [OF s0]) (simp_all add: machine_simps)
  obtain p' t' where "m_srv (machine_of d2) i = Some p'" "pw_transfer p' = Some t'" and le: "transfer_le ?t t'"
    using run_transfer [OF assms(4) ids p] by auto
  then obtain s2 where s2: "find (\<lambda>s. sv_id s = i) (servers d2) = Some s2" "sv_transfer s2 = Some t'"
    by (auto simp: view_simps)
  from assms(5) show ?thesis
  proof (cases rule: FinishServerTransfer_Inr)
    case (1 s u)
    with s2 have u: "u = t'" by simp
    have "find (\<lambda>s. sv_id s = i) (servers d3) = Some (s2\<lparr>sv_transfer := None,
        sv_cluster_id := (if rollback then tr_source_cluster t' else tr_target_cluster t'),
        sv_desired_state := tr_prev_state t', sv_updated_at := c'\<rparr>)"
      unfolding 1(5) u update_server_def using s2(1) find_SomeD [OF s2(1)]
      by (simp add: find_update_where)
    with le show ?thesis by (simp add: GetServer_def transfer_le_def new_transfer_def)
  qed
qed

text \<open>Once a reachable transfer is committed it can only be carried through: as long as it
  lasts, it cannot be cancelled nor finished as a rollback.\<close>

theorem commit_is_final:
  assumes "store_step\<^sup>*\<^sup>* empty_db d" "CommitServerTransfer c i d = Inr d1"
    and "run_while (in_transfer i) d1 d2"
  shows "CancelServerTransfer c' i msg d2 = Inl ErrTransferChanged
    \<and> FinishServerTransfer c'' i True d2 = Inl ErrTransferChanged"
proof -
  have inv1: "store_inv d1"
    using store_step_inv [OF store_step.commit [OF assms(2)]] store_steps_inv [OF assms(1) store_inv_empty] .
  then have ids: "ids_ok d1" by (simp add: store_inv_def)
  obtain p t where p: "m_srv (machine_of d1) i = Some p" "pw_transfer p = Some t" "tr_phase t = TransferCommitting"
    using assms(2)
  proof (cases rule: CommitServerTransfer_Inr)
    case (1 s t b)
    then show ?thesis
      by (intro that [of "power_of (sv_transfer_update (\<lambda>_. Some (t\<lparr>tr_phase := TransferCommitting\<rparr>)) s)"
            "t\<lparr>tr_phase := TransferCommitting\<rparr>"]) (simp_all add: view_update_found(1) [OF 1(1)] machine_simps)
  qed
  obtain p' t' where p': "m_srv (machine_of d2) i = Some p'" "pw_transfer p' = Some t'" and le: "transfer_le t t'"
    using run_transfer [OF assms(3) ids p(1,2)] by auto
  then have ph: "tr_phase t' = TransferCommitting" using p(3) by (cases "tr_phase t'") (auto simp: transfer_le_def)
  have "run_while (in_transfer i) d1 d2 \<Longrightarrow> store_step\<^sup>*\<^sup>* d1 d2"
    unfolding run_while_def by (rule rtranclp_mono [THEN predicate2D, rotated]) auto
  with assms(3) inv1 have "store_inv d2" using store_steps_inv by blast
  then have "server_ok (machine_of d2) i p'" using p'(1) by (auto simp: store_inv_def intro: machine_invD)
  with ph p'(2) have "\<not> tr_cancelled t'" by (simp add: server_ok_def transfer_ok_def)
  moreover obtain s where "find (\<lambda>s. sv_id s = i) (servers d2) = Some s" "sv_transfer s = Some t'"
    using p' by (auto simp: view_simps)
  ultimately show ?thesis
    using ph by (simp add: CancelServerTransfer_def FinishServerTransfer_def lockServer_def)
qed

subsection \<open>Starting\<close>

text \<open>a start is granted exactly when the server exists, is in no transfer and no restore or
  database import of it is waiting or running; it then wants one replica unless a restart is
  under way, its last activity never goes back, and nothing but that server changes.\<close>

theorem StartServer_granted:
  "(is_ok (StartServer c i tm d) \<longleftrightarrow>
      (\<exists>s. GetServer i d = Inr s \<and> sv_transfer s = None)
      \<and> (\<forall>b \<in> set (backups d). bk_server_id b = i \<and> op_active (bk_phase b) \<longrightarrow> bk_direction b = DirBackup))
   \<and> (\<forall>d'. StartServer c i tm d = Inr d' \<longrightarrow>
        (\<exists>s s'. GetServer i d = Inr s \<and> GetServer i d' = Inr s' \<and> sv_desired_state s' = StateRunning
           \<and> (sv_restart_requested_at s = None \<longrightarrow> Replicas s' = 1)
           \<and> (\<exists>t. sv_last_active_at s' = Some t \<and> tm \<le> t \<and> (\<forall>t0. sv_last_active_at s = Some t0 \<longrightarrow> t0 \<le> t)))
        \<and> (\<forall>s. s \<in> set (servers d) \<and> sv_id s \<noteq> i \<longrightarrow> s \<in> set (servers d'))
        \<and> backups d' = backups d)"
proof
  have get: "(\<exists>s. GetServer i d = Inr s \<and> sv_transfer s = None) \<longleftrightarrow>
      (\<exists>s. find (\<lambda>s. sv_id s = i) (servers d) = Some s \<and> sv_transfer s = None)"
    by (auto simp: GetServer_def split: option.splits)
  show "is_ok (StartServer c i tm d) \<longleftrightarrow> (\<exists>s. GetServer i d = Inr s \<and> sv_transfer s = None)
      \<and> (\<forall>b \<in> set (backups d). bk_server_id b = i \<and> op_active (bk_phase b) \<longrightarrow> bk_direction b = DirBackup)"
    unfolding get offlineOperationActive_None [symmetric]
    by (auto simp: StartServer_def lockServer_def offlineOperationActive_def split: option.splits)
  show "\<forall>d'. StartServer c i tm d = Inr d' \<longrightarrow>
        (\<exists>s s'. GetServer i d = Inr s \<and> GetServer i d' = Inr s' \<and> sv_desired_state s' = StateRunning
           \<and> (sv_restart_requested_at s = None \<longrightarrow> Replicas s' = 1)
           \<and> (\<exists>t. sv_last_active_at s' = Some t \<and> tm \<le> t \<and> (\<forall>t0. sv_last_active_at s = Some t0 \<longrightarrow> t0 \<le> t)))
        \<and> (\<forall>s. s \<in> set (servers d) \<and> sv_id s \<noteq> i \<longrightarrow> s \<in> set (servers d'))
        \<and> backups d' = backups d"
  proof (intro allI impI)
    fix d' assume run: "StartServer c i tm d = Inr d'"
    obtain s where s: "find (\<lambda>s. sv_id s = i) (servers d) = Some s"
      and d': "d' = update_server c i (\<lambda>s. s\<lparr>sv_desired_state := StateRunning, sv_hibernated := False,
                     sv_last_active_at := laterActivity tm (sv_last_active_at s)\<rparr>) d"
      using run by (auto simp: StartServer_def split: sum.splits option.splits)
    define s' where "s' = s\<lparr>sv_desired_state := StateRunning, sv_hibernated := False,
      sv_last_active_at := laterActivity tm (sv_last_active_at s), sv_updated_at := c\<rparr>"
    have "find (\<lambda>s. sv_id s = i) (servers d') = Some s'"
      unfolding d' update_server_def s'_def using s find_SomeD [OF s] by (simp add: find_update_where)
    then have "GetServer i d = Inr s" "GetServer i d' = Inr s'" using s by (simp_all add: GetServer_def)
    moreover have "\<exists>t. sv_last_active_at s' = Some t \<and> tm \<le> t \<and> (\<forall>t0. sv_last_active_at s = Some t0 \<longrightarrow> t0 \<le> t)"
      by (auto simp: s'_def laterActivity_def split: option.splits)
    moreover have "sv_restart_requested_at s = None \<longrightarrow> Replicas s' = 1" "sv_desired_state s' = StateRunning"
      by (simp_all add: s'_def Replicas_def)
    moreover have "\<forall>s. s \<in> set (servers d) \<and> sv_id s \<noteq> i \<longrightarrow> s \<in> set (servers d')" "backups d' = backups d"
      by (auto simp: d' update_server_def set_update_where rev_image_eqI)
    ultimately show "(\<exists>s s'. GetServer i d = Inr s \<and> GetServer i d' = Inr s' \<and> sv_desired_state s' = StateRunning
           \<and> (sv_restart_requested_at s = None \<longrightarrow> Replicas s' = 1)
           \<and> (\<exists>t. sv_last_active_at s' = Some t \<and> tm \<le> t \<and> (\<forall>t0. sv_last_active_at s = Some t0 \<longrightarrow> t0 \<le> t)))
        \<and> (\<forall>s. s \<in> set (servers d) \<and> sv_id s \<noteq> i \<longrightarrow> s \<in> set (servers d'))
        \<and> backups d' = backups d"
      by - (intro conjI, rule exI [of _ s], rule exI [of _ s'], simp_all)
  qed
qed

subsection \<open>The hypotheses can hold\<close>

text \<open>A server that is stopped, and its transfer from cluster 1 to cluster 2.\<close>

definition sample_server :: Server where
  "sample_server =
     \<lparr>sv_id = 1, sv_slug = ''s'', sv_created_at = 0, sv_updated_at = 0, sv_display_name = [],
      sv_owner_id = 1, sv_template_id = 1, sv_template_version = 1, sv_image = [],
      sv_image_pins = Map.empty, sv_startup = [], sv_namespace = [], sv_cluster_id = 1,
      sv_desired_state = StateRunning, sv_resources = \<lparr>rs_memory = [], rs_cpu = []\<rparr>,
      sv_env = Map.empty, sv_secret_env_enc = [],
      sv_storage = \<lparr>st_type = [], st_size = [], st_storageClass = []\<rparr>, sv_ports = [],
      sv_expose = \<lparr>ex_type = ExposeUnset, ex_annotations = Map.empty, ex_preserveClientIP = None,
        ex_public = None\<rparr>,
      sv_node_selector = Map.empty, sv_sftp_enabled = False, sv_reaches = [], sv_eula_accepted = True,
      sv_install_generation = 0, sv_install_wipe = False, sv_install_keep = [], sv_reinstall_keep = [],
      sv_hibernation = \<lparr>hb_enabled = False, hb_idleMinutes = 0, hb_wakeOnConnect = False, hb_proxy = False\<rparr>,
      sv_hibernated = False, sv_last_active_at = None, sv_restart_requested_at = None,
      sv_transfer = None,
      sv_status = \<lparr>ss_phase = PhaseUnset, ss_endpoints = [], ss_address = [], ss_portEndpoints = [],
        ss_message = [], ss_crashCount = 0, ss_diskUsed = 0, ss_installedGeneration = 0,
        ss_startedContainer = [], ss_startupMissed = False\<rparr>\<rparr>"

definition sample_db :: db where
  "sample_db = empty_db\<lparr>servers := [sample_server]\<rparr>"

definition sample_transfer :: TransferState where
  "sample_transfer = new_transfer 1 2 StateRunning 5"

definition moving_server :: "TransferState \<Rightarrow> Server" where
  "moving_server t = sample_server\<lparr>sv_transfer := Some t, sv_desired_state := StateStopped\<rparr>"

definition begun_db :: db where
  "begun_db = empty_db\<lparr>servers := [moving_server sample_transfer]\<rparr>"

lemmas sample_defs = sample_db_def sample_server_def empty_db_def sample_transfer_def
  moving_server_def begun_db_def new_transfer_def

lemma sample_reachable: "store_step\<^sup>*\<^sup>* empty_db sample_db"
proof -
  have "CreateServerChecked 0 1 sample_server None empty_db = Inr sample_db"
    by (simp add: CreateServerChecked_def CreateServer_def any_row_def sample_defs)
  then have "store_step empty_db sample_db"
    by (rule store_step.create_server) (simp_all add: sample_defs fresh_server_def)
  then show ?thesis by simp
qed

lemma sample_ids: "ids_ok sample_db"
  by (simp add: ids_ok_def sample_defs)

lemma sample_begin: "BeginServerTransfer 0 1 2 5 sample_db = Inr (sample_transfer, begun_db)"
  by (simp add: BeginServerTransfer_def lockServer_def update_server_def rows_affected_def Let_def sample_defs)

lemma begun_reachable: "store_step\<^sup>*\<^sup>* empty_db begun_db"
  using sample_reachable store_step.begin_transfer [OF sample_begin] by (rule rtranclp.rtrancl_into_rtrancl)

theorem store_step_refines_witness:
  "ids_ok begun_db \<and> power_step\<^sup>*\<^sup>* (machine_of sample_db) (machine_of begun_db)"
  by (rule store_step_refines [OF store_step.begin_transfer [OF sample_begin] sample_ids])

theorem running_server_has_its_data_witness: "sv_transfer sample_server = None"
proof -
  have "sample_server \<in> set (servers sample_db)" "sv_desired_state sample_server = StateRunning"
    by (simp_all add: sample_defs)
  from running_server_has_its_data [OF sample_reachable this] show ?thesis by simp
qed

theorem transfer_freezes_server_witness:
  "sv_cluster_id (moving_server sample_transfer) = 1 \<and> tr_source_cluster sample_transfer \<noteq> tr_target_cluster sample_transfer"
proof -
  have "moving_server sample_transfer \<in> set (servers begun_db)"
    "sv_transfer (moving_server sample_transfer) = Some sample_transfer"
    by (simp_all add: begun_db_def moving_server_def)
  from transfer_freezes_server [OF begun_reachable this] show ?thesis
    by (simp add: sample_transfer_def new_transfer_def)
qed

definition cancelled_transfer :: TransferState where
  "cancelled_transfer = sample_transfer\<lparr>tr_cancelled := True, tr_message := ''cancelling''\<rparr>"

definition cancelled_db :: db where
  "cancelled_db = empty_db\<lparr>servers := [moving_server cancelled_transfer]\<rparr>"

lemma sample_cancel:
  "CancelServerTransfer 0 1 ''cancelling'' begun_db = Inr (moving_server cancelled_transfer, cancelled_db)"
  by (simp add: CancelServerTransfer_def lockServer_def update_server_def Let_def sample_defs
      cancelled_transfer_def cancelled_db_def)

lemma sample_finish: "FinishServerTransfer 0 1 True cancelled_db = Inr sample_db"
  by (simp add: FinishServerTransfer_def lockServer_def update_server_def rows_affected_def Let_def
      sample_defs cancelled_transfer_def cancelled_db_def)

theorem transfer_round_trip_witness:
  "\<exists>s3. GetServer 1 sample_db = Inr s3 \<and> sv_desired_state s3 = StateRunning \<and> sv_cluster_id s3 = 1"
proof -
  have get: "GetServer 1 sample_db = Inr sample_server" by (simp add: GetServer_def sample_defs)
  have "run_while (in_transfer 1) begun_db cancelled_db"
    by (rule run_while_step [OF store_step.cancel [OF sample_cancel]])
      (simp_all add: in_transfer_def sample_defs cancelled_transfer_def cancelled_db_def)
  from transfer_round_trip [OF get sample_ids sample_begin this sample_finish]
  show ?thesis by (auto simp: sample_server_def)
qed

text \<open>A transfer whose backup and restore have succeeded.\<close>

definition sample_op :: "row_id \<Rightarrow> BackupDirection \<Rightarrow> BackupPhase \<Rightarrow> Backup" where
  "sample_op k dir ph = (new_operation 1 dir)\<lparr>bk_id := k, bk_phase := ph\<rparr>"

definition pending_db :: "BackupPhase \<Rightarrow> db" where
  "pending_db ph = sample_db\<lparr>backups := [sample_op 1 DirBackup ph]\<rparr>"

lemma sample_claim:
  "ClaimBackup 1 [] [] None [] [] [] 1 (pending_db BackupPending) = Inr (True, (pending_db BackupRunning)
     \<lparr>backups := [(sample_op 1 DirBackup BackupRunning)\<lparr>bk_cluster_id := Some 1\<rparr>]\<rparr>)"
  by (simp add: ClaimBackup_def lockServer_def rows_affected_def Let_def pending_db_def sample_op_def
      new_operation_def sample_defs)

theorem claimed_once_witness:
  "\<not> fst (CancelPendingBackup 1 ((pending_db BackupRunning)
     \<lparr>backups := [(sample_op 1 DirBackup BackupRunning)\<lparr>bk_cluster_id := Some 1\<rparr>]\<rparr>))"
proof -
  have "ids_ok (pending_db BackupPending)" by (simp add: ids_ok_def pending_db_def sample_defs)
  from claimed_once [OF sample_claim this run_while_refl] show ?thesis by blast
qed

theorem operation_moves_forward_witness:
  "phase_le BackupPending BackupRunning
   \<and> bk_server_id (sample_op 1 DirBackup BackupPending) = 1"
proof -
  let ?b = "sample_op 1 DirBackup BackupPending" and ?b' = "(sample_op 1 DirBackup BackupRunning)\<lparr>bk_cluster_id := Some 1\<rparr>"
  let ?d' = "(pending_db BackupRunning)\<lparr>backups := [?b']\<rparr>"
  have "run_while (has_backup (bk_id ?b)) (pending_db BackupPending) ?d'"
    by (rule run_while_step [OF store_step.claim_backup [OF sample_claim]])
      (simp_all add: has_backup_def pending_db_def sample_op_def)
  moreover have "ids_ok (pending_db BackupPending)" by (simp add: ids_ok_def pending_db_def sample_defs)
  ultimately show ?thesis
    using operation_moves_forward [of ?b "pending_db BackupPending" ?d' ?b']
    by (simp add: pending_db_def sample_op_def new_operation_def)
qed

text \<open>The whole way of a transfer, one transaction after the other, up to the commit.\<close>

definition linked_op :: "row_id \<Rightarrow> BackupDirection \<Rightarrow> row_id \<Rightarrow> row_id \<Rightarrow> BackupPhase \<Rightarrow> Backup" where
  "linked_op k dir cl src ph = (new_operation 1 dir)\<lparr>bk_id := k, bk_full := (dir = DirBackup),
     bk_cluster_id := Some cl, bk_source_id := src, bk_phase := ph\<rparr>"

definition stage_db :: "TransferState \<Rightarrow> row_id \<Rightarrow> Backup list \<Rightarrow> db" where
  "stage_db t cl bs = empty_db\<lparr>servers := [(moving_server t)\<lparr>sv_cluster_id := cl\<rparr>], backups := bs\<rparr>"

lemmas stage_defs = stage_db_def linked_op_def new_operation_def sample_defs lockServer_def update_server_def
  Let_def rows_affected_def fresh_backup_def op_finished_def

lemma begun_stage: "begun_db = stage_db sample_transfer 1 []"
  by (simp add: stage_defs)

lemma stage_link:
  "store_step (stage_db sample_transfer 1 [])
     (stage_db (sample_transfer\<lparr>tr_backup_id := 1\<rparr>) 1 [linked_op 1 DirBackup 1 0 BackupPending])"
  by (rule store_step.create_operation [where c = 0 and k = 1 and i = 1 and dir = DirBackup])
    (simp_all add: CreateTransferOperation_def stage_defs)

lemma update_where_last:
  assumes "\<forall>x \<in> set bs. \<not> P x" "P b"
  shows "update_where P f (bs @ [b]) = bs @ [f b]" "rows_affected P (bs @ [b]) = 1"
  using assms by (induction bs) (simp_all add: rows_affected_def)

lemma stage_claim:
  assumes "bk_phase b = BackupPending" "bk_cluster_id b = Some cl" "bk_server_id b = 1" "\<not> tr_cancelled t"
    and "bk_id b = tr_backup_id t \<or> bk_id b = tr_restore_id t" "\<forall>x \<in> set bs. bk_id x \<noteq> bk_id b"
    and "bk_job_name b = []" "bk_job_spec b = []"
  shows "store_step (stage_db t cl (bs @ [b])) (stage_db t cl (bs @ [b\<lparr>bk_phase := BackupRunning\<rparr>]))"
proof -
  let ?P = "\<lambda>x. bk_id x = bk_id b \<and> bk_phase x = BackupPending"
  have "find (\<lambda>x. bk_id x = bk_id b) (bs @ [b]) = Some b"
    using assms(6) by (induction bs) auto
  moreover have "\<forall>x \<in> set bs. \<not> ?P x" "?P b" using assms(1,6) by auto
  moreover have "lockServer 1 (stage_db t cl (bs @ [b])) = Inr ((moving_server t)\<lparr>sv_cluster_id := cl\<rparr>)"
    by (simp add: stage_db_def moving_server_def sample_server_def)
  moreover have "sv_transfer ((moving_server t)\<lparr>sv_cluster_id := cl\<rparr>) = Some t"
    by (simp add: moving_server_def)
  ultimately have "ClaimBackup (bk_id b) [] [] None [] [] [] cl (stage_db t cl (bs @ [b]))
      = Inr (True, stage_db t cl (bs @ [b\<lparr>bk_phase := BackupRunning\<rparr>]))"
    using assms(2-5,7,8) update_where_last [of bs ?P b]
    by (auto simp: ClaimBackup_def Let_def stage_db_def simp del: lockServer_Inr)
  then show ?thesis by (rule store_step.claim_backup)
qed

lemma stage_complete:
  assumes "bk_phase b = BackupRunning" "\<forall>x \<in> set bs. bk_id x \<noteq> bk_id b"
  shows "store_step (stage_db t cl (bs @ [b])) (stage_db t cl (bs @ [b\<lparr>bk_phase := BackupSucceeded\<rparr>]))"
proof -
  let ?P = "\<lambda>x. bk_id x = bk_id b \<and> bk_phase x = BackupRunning"
  have "\<forall>x \<in> set bs. \<not> ?P x" "?P b" using assms by auto
  then have "CompleteBackup (b\<lparr>bk_phase := BackupSucceeded\<rparr>) BackupRunning 0 (stage_db t cl (bs @ [b]))
      = Inr (stage_db t cl (bs @ [b\<lparr>bk_phase := BackupSucceeded\<rparr>]))"
    using update_where_last [of bs ?P b] by (simp add: CompleteBackup_def pruneBackups_def Let_def stage_db_def)
  then show ?thesis by (rule store_step.complete_backup) (simp_all add: op_finished_def)
qed

lemma stage_advance:
  "store_step (stage_db (sample_transfer\<lparr>tr_backup_id := 1\<rparr>) 1 [linked_op 1 DirBackup 1 0 BackupSucceeded])
     (stage_db (sample_transfer\<lparr>tr_backup_id := 1, tr_phase := TransferRestoring\<rparr>) 2
       [linked_op 1 DirBackup 1 0 BackupSucceeded])"
  by (rule store_step.advance [where c = 0 and i = 1]) (simp add: AdvanceServerTransfer_def stage_defs)

definition restoring_transfer :: TransferState where
  "restoring_transfer = sample_transfer\<lparr>tr_backup_id := 1, tr_phase := TransferRestoring, tr_restore_id := 2\<rparr>"

lemma stage_link_restore:
  "store_step (stage_db (sample_transfer\<lparr>tr_backup_id := 1, tr_phase := TransferRestoring\<rparr>) 2
       [linked_op 1 DirBackup 1 0 BackupSucceeded])
     (stage_db restoring_transfer 2 [linked_op 1 DirBackup 1 0 BackupSucceeded, linked_op 2 DirRestore 2 1 BackupPending])"
  by (rule store_step.create_operation [where c = 0 and k = 2 and i = 1 and dir = DirRestore])
    (simp_all add: CreateTransferOperation_def stage_defs restoring_transfer_def)

definition restored_db :: db where
  "restored_db = stage_db restoring_transfer 2
     [linked_op 1 DirBackup 1 0 BackupSucceeded, linked_op 2 DirRestore 2 1 BackupSucceeded]"

lemma linked_op_phase: "(linked_op k dir cl src ph)\<lparr>bk_phase := ph'\<rparr> = linked_op k dir cl src ph'"
  by (simp add: linked_op_def)

lemma linked_op_sel [simp]:
  "bk_phase (linked_op k dir cl src ph) = ph" "bk_cluster_id (linked_op k dir cl src ph) = Some cl"
  "bk_server_id (linked_op k dir cl src ph) = 1" "bk_id (linked_op k dir cl src ph) = k"
  "bk_job_name (linked_op k dir cl src ph) = []" "bk_job_spec (linked_op k dir cl src ph) = []"
  by (simp_all add: linked_op_def new_operation_def)

lemma restored_reachable: "store_step\<^sup>*\<^sup>* empty_db restored_db"
proof -
  let ?t1 = "sample_transfer\<lparr>tr_backup_id := 1\<rparr>" and ?b = "linked_op 1 DirBackup 1 0" and ?r = "linked_op 2 DirRestore 2 1"
  note begun_reachable [unfolded begun_stage]
  also note stage_link
  also have "store_step (stage_db ?t1 1 [?b BackupPending]) (stage_db ?t1 1 [?b BackupRunning])"
    using stage_claim [of "?b BackupPending" 1 ?t1 "[]"] by (simp add: linked_op_phase sample_transfer_def new_transfer_def)
  also have "store_step \<dots> (stage_db ?t1 1 [?b BackupSucceeded])"
    using stage_complete [of "?b BackupRunning" "[]"] by (simp add: linked_op_phase)
  also note stage_advance
  also note stage_link_restore
  also have "store_step (stage_db restoring_transfer 2 [?b BackupSucceeded, ?r BackupPending])
      (stage_db restoring_transfer 2 [?b BackupSucceeded, ?r BackupRunning])"
    using stage_claim [of "?r BackupPending" 2 restoring_transfer "[?b BackupSucceeded]"]
    by (simp add: linked_op_phase restoring_transfer_def sample_transfer_def new_transfer_def)
  also have "store_step \<dots> restored_db"
    using stage_complete [of "?r BackupRunning" "[?b BackupSucceeded]"] by (simp add: linked_op_phase restored_db_def)
  finally show ?thesis .
qed

theorem commit_is_final_witness:
  "\<exists>d1. CancelServerTransfer 0 1 [] d1 = Inl ErrTransferChanged
     \<and> is_ok (FinishServerTransfer 0 1 False d1)"
proof -
  let ?d1 = "stage_db (restoring_transfer\<lparr>tr_phase := TransferCommitting\<rparr>) 2
    [linked_op 1 DirBackup 1 0 BackupSucceeded, linked_op 2 DirRestore 2 1 BackupSucceeded]"
  have "CommitServerTransfer 0 1 restored_db = Inr ?d1"
    by (simp add: CommitServerTransfer_def restored_db_def stage_defs restoring_transfer_def)
  from commit_is_final [OF restored_reachable this run_while_refl]
  have "CancelServerTransfer 0 1 [] ?d1 = Inl ErrTransferChanged" by blast
  moreover have "is_ok (FinishServerTransfer 0 1 False ?d1)"
    by (simp add: FinishServerTransfer_def stage_defs restoring_transfer_def)
  ultimately show ?thesis by blast
qed

theorem StartServer_granted_witness:
  "is_ok (StartServer 0 1 7 sample_db) \<and> (\<exists>d' s'. StartServer 0 1 7 sample_db = Inr d'
     \<and> GetServer 1 d' = Inr s' \<and> sv_desired_state s' = StateRunning)"
proof -
  have get: "GetServer 1 sample_db = Inr sample_server" by (simp add: GetServer_def sample_defs)
  have "sv_transfer sample_server = None" "backups sample_db = []" by (simp_all add: sample_defs)
  with get StartServer_granted [of 0 1 7 sample_db] have ok: "is_ok (StartServer 0 1 7 sample_db)" by simp
  then obtain d' where "StartServer 0 1 7 sample_db = Inr d'" by (auto simp: is_ok_iff)
  with ok StartServer_granted [of 0 1 7 sample_db] show ?thesis by blast
qed

end
