(* ===== verification/Go_Strings.thy ===== *)
theory Go_Strings imports Prelude "HOL-Library.Sublist" begin

text \<open>
  What the program uses of Go's \<open>strings\<close>, \<open>bytes\<close>, \<open>strconv\<close> and
  \<open>unicode/utf8\<close>. A Go string is a list of bytes, here a list of \<open>char\<close>, which is
  a byte; \<open>byte c\<close> is its value. \<open>runes s\<close> is what \<open>for _, r := range s\<close>
  visits: each rune with the bytes it was decoded from, a byte that is not valid UTF-8 being
  U+FFFD on its own.
\<close>

subsection \<open>Bytes and runes\<close>

definition byte :: "char \<Rightarrow> nat" where
  "byte c = of_char c"

definition of_byte :: "nat \<Rightarrow> char" where
  "of_byte n = char_of n"

lemma byte_less [simp]: "byte c < 256"
  unfolding byte_def using of_char_of [of "of_char c :: nat"] by simp

lemma of_byte_byte [simp]: "of_byte (byte c) = c"
  by (simp add: byte_def of_byte_def)

lemma byte_of_byte [simp]: "n < 256 \<Longrightarrow> byte (of_byte n) = n"
  by (simp add: byte_def of_byte_def)

lemma byte_eq_iff [simp]: "byte a = byte b \<longleftrightarrow> a = b"
  by (metis of_byte_byte)

definition rune_error :: nat where "rune_error = 0xFFFD"

definition cont :: "nat \<Rightarrow> char \<Rightarrow> bool" where
  \<comment> \<open>a continuation byte\<close>
  "cont lo c = (lo \<le> byte c \<and> byte c \<le> 0xBF)"

definition low6 :: "char \<Rightarrow> nat" where
  "low6 c = byte c mod 64"

definition decode_rune :: "string \<Rightarrow> nat \<times> nat" where
  \<comment> \<open>\<open>utf8.DecodeRune\<close>: the rune and its width, on a non-empty string\<close>
  "decode_rune s = (case s of
     [] \<Rightarrow> (rune_error, 0)
   | c0 # t \<Rightarrow>
      (let b0 = byte c0 in
       if b0 < 0x80 then (b0, 1)
       else if 0xC2 \<le> b0 \<and> b0 \<le> 0xDF then
         (case t of c1 # _ \<Rightarrow>
            if cont 0x80 c1 then ((b0 - 0xC0) * 64 + low6 c1, 2) else (rune_error, 1)
          | _ \<Rightarrow> (rune_error, 1))
       else if 0xE0 \<le> b0 \<and> b0 \<le> 0xEF then
         (case t of c1 # c2 # _ \<Rightarrow>
            if cont (if b0 = 0xE0 then 0xA0 else 0x80) c1 \<and> (b0 = 0xED \<longrightarrow> byte c1 \<le> 0x9F) \<and> cont 0x80 c2
            then ((b0 - 0xE0) * 4096 + low6 c1 * 64 + low6 c2, 3) else (rune_error, 1)
          | _ \<Rightarrow> (rune_error, 1))
       else if 0xF0 \<le> b0 \<and> b0 \<le> 0xF4 then
         (case t of c1 # c2 # c3 # _ \<Rightarrow>
            if cont (if b0 = 0xF0 then 0x90 else 0x80) c1 \<and> (b0 = 0xF4 \<longrightarrow> byte c1 \<le> 0x8F)
               \<and> cont 0x80 c2 \<and> cont 0x80 c3
            then ((b0 - 0xF0) * 262144 + low6 c1 * 4096 + low6 c2 * 64 + low6 c3, 4) else (rune_error, 1)
          | _ \<Rightarrow> (rune_error, 1))
       else (rune_error, 1)))"

lemma decode_rune_width: "s \<noteq> [] \<Longrightarrow> 0 < snd (decode_rune s)"
  by (auto simp: decode_rune_def Let_def split: list.splits)

function runes :: "string \<Rightarrow> (nat \<times> string) list" where
  "runes [] = []"
| "runes (c # s) = (let (r, w) = decode_rune (c # s)
     in (r, take w (c # s)) # runes (drop w (c # s)))"
  by pat_completeness auto
termination
proof (relation "measure length", goal_cases)
  case 1 show ?case by simp
next
  case (2 c s x r w)
  then have "0 < w"
    using decode_rune_width [of "c # s"] by (metis list.distinct(1) snd_conv)
  then show ?case by simp
qed

definition encode_rune :: "nat \<Rightarrow> string" where
  \<comment> \<open>\<open>utf8.AppendRune\<close>: an invalid rune is written as U+FFFD\<close>
  "encode_rune r0 =
     (let r = (if r0 > 0x10FFFF \<or> (0xD800 \<le> r0 \<and> r0 \<le> 0xDFFF) then rune_error else r0) in
      if r < 0x80 then [of_byte r]
      else if r < 0x800 then [of_byte (0xC0 + r div 64), of_byte (0x80 + r mod 64)]
      else if r < 0x10000 then
        [of_byte (0xE0 + r div 4096), of_byte (0x80 + r div 64 mod 64), of_byte (0x80 + r mod 64)]
      else [of_byte (0xF0 + r div 262144), of_byte (0x80 + r div 4096 mod 64),
            of_byte (0x80 + r div 64 mod 64), of_byte (0x80 + r mod 64)])"

definition utf8_valid :: "string \<Rightarrow> bool" where
  \<comment> \<open>\<open>utf8.Valid\<close>: no byte stands for U+FFFD on its own\<close>
  "utf8_valid s = (\<forall>(r, raw) \<in> set (runes s). \<not> (r = rune_error \<and> length raw = 1))"

definition rune_count :: "string \<Rightarrow> nat" where
  "rune_count s = length (runes s)"

definition map_runes :: "(nat \<Rightarrow> nat) \<Rightarrow> string \<Rightarrow> string" where
  \<comment> \<open>\<open>strings.Map\<close> for a mapping that drops nothing\<close>
  "map_runes f s = concat (map (\<lambda>(r, _). encode_rune (f r)) (runes s))"

lemma concat_runes: "concat (map snd (runes s)) = s"
  by (induction s rule: runes.induct) (auto simp: Let_def split: prod.splits)

lemma byte_encode_rune:
  assumes "c \<in> set (encode_rune r)" and "byte c < 0x80"
  shows "byte c = r"
  using assms
  by (auto simp: encode_rune_def Let_def rune_error_def split: if_splits)

lemma map_runes_ascii:
  assumes "c \<in> set (map_runes f s)" and "byte c < 0x80"
  shows "\<exists>r. byte c = f r"
  using assms byte_encode_rune by (fastforce simp: map_runes_def)

subsection \<open>Splitting and joining\<close>

fun split_on :: "char \<Rightarrow> string \<Rightarrow> string list" where
  \<comment> \<open>\<open>strings.Split(s, sep)\<close> for a separator of one byte\<close>
  "split_on sep [] = [[]]"
| "split_on sep (c # s) =
     (if c = sep then [] # split_on sep s
      else (case split_on sep s of [] \<Rightarrow> [[c]] | p # ps \<Rightarrow> (c # p) # ps))"

fun join :: "string \<Rightarrow> string list \<Rightarrow> string" where
  "join sep [] = []"
| "join sep [x] = x"
| "join sep (x # y # xs) = x @ sep @ join sep (y # xs)"

lemma split_on_nonempty [simp]: "split_on sep s \<noteq> []"
  by (induction s) (auto split: list.splits)

lemma split_on_no_sep: "p \<in> set (split_on sep s) \<Longrightarrow> sep \<notin> set p"
  by (induction s arbitrary: p) (auto split: list.splits if_splits)

lemma split_on_append:
  "sep \<notin> set p \<Longrightarrow> split_on sep (p @ sep # s) = p # split_on sep s"
  by (induction p) auto

lemma split_on_single: "sep \<notin> set p \<Longrightarrow> split_on sep p = [p]"
  by (induction p) auto

lemma split_on_join:
  assumes "xs \<noteq> []" and "\<And>x. x \<in> set xs \<Longrightarrow> sep \<notin> set x"
  shows "split_on sep (join [sep] xs) = xs"
  using assms
  by (induction "[sep]" xs rule: join.induct) (auto simp: split_on_single split_on_append)

lemma join_split_on: "join [sep] (split_on sep s) = s"
proof (induction s)
  case (Cons c s)
  then show ?case
    by (cases "split_on sep s") (auto, (metis append_Cons join.simps(2,3) neq_Nil_conv)+)
qed simp

subsection \<open>Trimming\<close>

definition drop_while_end :: "('a \<Rightarrow> bool) \<Rightarrow> 'a list \<Rightarrow> 'a list" where
  "drop_while_end P xs = rev (dropWhile P (rev xs))"

definition trim_right :: "string \<Rightarrow> string \<Rightarrow> string" where
  \<comment> \<open>\<open>strings.TrimRight(s, cutset)\<close> for a cutset of ASCII characters\<close>
  "trim_right cutset s = drop_while_end (\<lambda>c. c \<in> set cutset) s"

definition trim_left :: "string \<Rightarrow> string \<Rightarrow> string" where
  "trim_left cutset s = dropWhile (\<lambda>c. c \<in> set cutset) s"

definition trim_cut :: "string \<Rightarrow> string \<Rightarrow> string" where
  "trim_cut cutset s = trim_right cutset (trim_left cutset s)"

definition trim_suffix :: "string \<Rightarrow> string \<Rightarrow> string" where
  "trim_suffix suf s = (if suffix suf s then take (length s - length suf) s else s)"

definition trim_prefix :: "string \<Rightarrow> string \<Rightarrow> string" where
  "trim_prefix p s = (if prefix p s then drop (length p) s else s)"

lemma drop_while_end_snoc [simp]:
  "drop_while_end P (xs @ [x]) = (if P x then drop_while_end P xs else xs @ [x])"
  by (simp add: drop_while_end_def)

lemma drop_while_end_Nil [simp]: "drop_while_end P [] = []"
  by (simp add: drop_while_end_def)

lemma drop_while_end_id: "xs = [] \<or> \<not> P (last xs) \<Longrightarrow> drop_while_end P xs = xs"
  by (cases xs rule: rev_cases) auto

lemma drop_while_end_last: "drop_while_end P xs \<noteq> [] \<Longrightarrow> \<not> P (last (drop_while_end P xs))"
  by (induction xs rule: rev_induct) (auto split: if_splits)

lemma drop_while_end_prefix: "prefix (drop_while_end P xs) xs"
  by (metis drop_while_end_def suffix_dropWhile suffix_to_prefix rev_rev_ident)

text \<open>
  \<open>strings.TrimSpace\<close> trims the runes of \<open>unicode.IsSpace\<close>, given here by their
  UTF-8 encodings; no encoding is a prefix or a suffix of another.
\<close>

definition space_seqs :: "string list" where
  "space_seqs = [[CHR 0x09], [CHR 0x0A], [CHR 0x0B], [CHR 0x0C], [CHR 0x0D], [CHR 0x20],
     [CHR 0xC2, CHR 0x85], [CHR 0xC2, CHR 0xA0], [CHR 0xE1, CHR 0x9A, CHR 0x80],
     [CHR 0xE2, CHR 0x80, CHR 0x80], [CHR 0xE2, CHR 0x80, CHR 0x81], [CHR 0xE2, CHR 0x80, CHR 0x82],
     [CHR 0xE2, CHR 0x80, CHR 0x83], [CHR 0xE2, CHR 0x80, CHR 0x84], [CHR 0xE2, CHR 0x80, CHR 0x85],
     [CHR 0xE2, CHR 0x80, CHR 0x86], [CHR 0xE2, CHR 0x80, CHR 0x87], [CHR 0xE2, CHR 0x80, CHR 0x88],
     [CHR 0xE2, CHR 0x80, CHR 0x89], [CHR 0xE2, CHR 0x80, CHR 0x8A], [CHR 0xE2, CHR 0x80, CHR 0xA8],
     [CHR 0xE2, CHR 0x80, CHR 0xA9], [CHR 0xE2, CHR 0x80, CHR 0xAF], [CHR 0xE2, CHR 0x81, CHR 0x9F],
     [CHR 0xE3, CHR 0x80, CHR 0x80]]"

definition space_prefix :: "string \<Rightarrow> string option" where
  "space_prefix s = find (\<lambda>q. prefix q s) space_seqs"

definition space_suffix :: "string \<Rightarrow> string option" where
  "space_suffix s = find (\<lambda>q. suffix q s) space_seqs"

lemma space_seqs_nonempty: "q \<in> set space_seqs \<Longrightarrow> q \<noteq> []"
  by (auto simp: space_seqs_def)

lemma space_prefix_Some: "space_prefix s = Some q \<Longrightarrow> q \<in> set space_seqs \<and> prefix q s \<and> q \<noteq> []"
  unfolding space_prefix_def by (blast dest: find_SomeD space_seqs_nonempty)

lemma space_suffix_Some: "space_suffix s = Some q \<Longrightarrow> q \<in> set space_seqs \<and> suffix q s \<and> q \<noteq> []"
  unfolding space_suffix_def by (blast dest: find_SomeD space_seqs_nonempty)

lemma space_prefix_shorter: "space_prefix s = Some q \<Longrightarrow> length s - length q < length s"
  using space_prefix_Some [of s q] prefix_length_le [of q s] by (cases q) auto

lemma space_suffix_shorter: "space_suffix s = Some q \<Longrightarrow> length s - length q < length s"
  using space_suffix_Some [of s q] suffix_length_le [of q s] by (cases q) auto

function trim_space_left :: "string \<Rightarrow> string" where
  "trim_space_left s =
     (case space_prefix s of None \<Rightarrow> s | Some q \<Rightarrow> trim_space_left (drop (length q) s))"
  by pat_completeness auto
termination
  by (relation "measure length") (auto simp: space_prefix_shorter)

function trim_space_right :: "string \<Rightarrow> string" where
  "trim_space_right s =
     (case space_suffix s of None \<Rightarrow> s | Some q \<Rightarrow> trim_space_right (take (length s - length q) s))"
  by pat_completeness auto
termination
  by (relation "measure length") (auto simp: space_suffix_shorter)

declare trim_space_left.simps [simp del] trim_space_right.simps [simp del]

definition TrimSpace :: "string \<Rightarrow> string" where
  "TrimSpace s = trim_space_right (trim_space_left s)"

lemma trim_space_left_no_prefix: "space_prefix (trim_space_left s) = None"
proof (induction s rule: trim_space_left.induct)
  case (1 s)
  then show ?case
    by (cases "space_prefix s") (simp_all add: trim_space_left.simps [of s])
qed

lemma trim_space_left_suffix: "suffix (trim_space_left s) s"
proof (induction s rule: trim_space_left.induct)
  case (1 s)
  then show ?case
    by (cases "space_prefix s")
       (auto simp: trim_space_left.simps [of s] intro: suffix_order.trans suffix_drop)
qed

lemma trim_space_right_no_suffix: "space_suffix (trim_space_right s) = None"
proof (induction s rule: trim_space_right.induct)
  case (1 s)
  then show ?case
    by (cases "space_suffix s") (simp_all add: trim_space_right.simps [of s])
qed

lemma trim_space_right_prefix: "prefix (trim_space_right s) s"
proof (induction s rule: trim_space_right.induct)
  case (1 s)
  then show ?case
    by (cases "space_suffix s")
       (auto simp: trim_space_right.simps [of s] intro: prefix_order.trans take_is_prefix)
qed

lemma space_prefix_mono: "prefix t s \<Longrightarrow> space_prefix s = None \<Longrightarrow> space_prefix t = None"
  by (auto simp: space_prefix_def find_None intro: prefix_order.trans)

lemma TrimSpace_no_space:
  "space_prefix (TrimSpace s) = None" "space_suffix (TrimSpace s) = None"
  using space_prefix_mono [OF trim_space_right_prefix trim_space_left_no_prefix]
  by (simp_all add: TrimSpace_def trim_space_right_no_suffix)

lemma TrimSpace_id: "space_prefix s = None \<Longrightarrow> space_suffix s = None \<Longrightarrow> TrimSpace s = s"
  by (simp add: TrimSpace_def trim_space_left.simps [of s] trim_space_right.simps [of s])

lemma TrimSpace_idem [simp]: "TrimSpace (TrimSpace s) = TrimSpace s"
  by (simp add: TrimSpace_id TrimSpace_no_space)

lemma TrimSpace_set: "set (TrimSpace s) \<subseteq> set s"
  unfolding TrimSpace_def
  using set_mono_prefix [OF trim_space_right_prefix] set_mono_suffix [OF trim_space_left_suffix]
  by blast

text \<open>A visible ASCII character stops both trims.\<close>

definition visible :: "char \<Rightarrow> bool" where
  "visible c = (\<forall>q \<in> set space_seqs. c \<notin> set q)"

lemma visible_code: "visible c \<longleftrightarrow> c \<notin> set (concat space_seqs)"
  by (auto simp: visible_def)

lemma space_prefix_visible:
  assumes "visible c" and "space_prefix p = None"
  shows "space_prefix (p @ c # t) = None"
  unfolding space_prefix_def find_None
proof
  fix q assume q: "q \<in> set space_seqs"
  then have "c \<notin> set q" "\<not> prefix q p"
    using assms by (auto simp: visible_def space_prefix_def find_None)
  then show "\<not> prefix q (p @ c # t)"
    by (auto simp: prefix_append prefix_Cons)
qed

lemma trim_space_right_visible:
  assumes "visible c"
  shows "prefix (p @ [c]) (trim_space_right (p @ c # t))"
proof (induction "length t" arbitrary: t rule: less_induct)
  case less
  show ?case
  proof (cases "space_suffix (p @ c # t)")
    case None
    then show ?thesis by (simp add: trim_space_right.simps [of "p @ c # t"])
  next
    case (Some q)
    then have q: "q \<in> set space_seqs" "suffix q (p @ c # t)" "q \<noteq> []"
      by (auto dest: space_suffix_Some)
    then have "c \<notin> set q" using assms by (simp add: visible_def)
    with q(2) have "suffix q t"
      by (auto simp: suffix_append suffix_Cons)
    then obtain u where u: "t = u @ q" by (auto simp: suffix_def)
    with q(3) have "length u < length t" by simp
    from less [OF this] Some u show ?thesis
      by (simp add: trim_space_right.simps [of "p @ c # u @ q"])
  qed
qed

lemma TrimSpace_visible:
  assumes "visible c" and "space_prefix p = None"
  shows "prefix (p @ [c]) (TrimSpace (p @ c # t))"
  using trim_space_right_visible [OF assms(1)] space_prefix_visible [OF assms]
  by (simp add: TrimSpace_def trim_space_left.simps [of "p @ c # t"])

subsection \<open>Numbers\<close>

definition digit_char :: "nat \<Rightarrow> char" where
  "digit_char n = of_byte (48 + n mod 10)"

fun show_nat :: "nat \<Rightarrow> string" where
  \<comment> \<open>\<open>strconv.Itoa\<close>, \<open>%d\<close>\<close>
  "show_nat n = (if n < 10 then [digit_char n] else show_nat (n div 10) @ [digit_char n])"

declare show_nat.simps [simp del]

definition show_int :: "int \<Rightarrow> string" where
  "show_int i = (if i < 0 then CHR ''-'' # show_nat (nat (- i)) else show_nat (nat i))"

definition is_digit :: "char \<Rightarrow> bool" where
  "is_digit c = (48 \<le> byte c \<and> byte c \<le> 57)"

definition digits_value :: "string \<Rightarrow> nat" where
  "digits_value s = foldl (\<lambda>n c. 10 * n + (byte c - 48)) 0 s"

definition parse_int64 :: "string \<Rightarrow> int option" where
  \<comment> \<open>\<open>strconv.ParseInt(s, 10, 64)\<close> and \<open>Atoi\<close>: an optional sign, then digits\<close>
  "parse_int64 s =
     (let (neg, ds) = (case s of c # t \<Rightarrow> if c = CHR ''-'' then (True, t)
                                 else if c = CHR ''+'' then (False, t) else (False, s)
                       | [] \<Rightarrow> (False, s))
      in if ds = [] \<or> \<not> list_all is_digit ds then None
         else (let v = int (digits_value ds); v' = (if neg then - v else v)
               in if - (2 ^ 63) \<le> v' \<and> v' < 2 ^ 63 then Some v' else None))"

lemma digits_value_snoc [simp]: "digits_value (s @ [c]) = 10 * digits_value s + (byte c - 48)"
  by (simp add: digits_value_def)

lemma byte_digit_char [simp]: "byte (digit_char n) = 48 + n mod 10"
  by (simp add: digit_char_def)

lemma digits_value_show_nat [simp]: "digits_value (show_nat n) = n"
proof (induction n rule: show_nat.induct)
  case (1 n)
  show ?case
  proof (cases "n < 10")
    case True
    then show ?thesis by (simp add: show_nat.simps [of n] digits_value_def)
  next
    case False
    with 1 show ?thesis by (simp add: show_nat.simps [of n])
  qed
qed

lemma show_nat_inject [simp]: "show_nat m = show_nat n \<longleftrightarrow> m = n"
  by (metis digits_value_show_nat)

lemma show_nat_digits: "c \<in> set (show_nat n) \<Longrightarrow> is_digit c"
proof (induction n rule: show_nat.induct)
  case (1 n)
  then show ?case
    by (cases "n < 10") (auto simp: show_nat.simps [of n] is_digit_def)
qed

lemma show_nat_nonempty [simp]: "show_nat n \<noteq> []"
  by (simp add: show_nat.simps [of n])

lemma show_int_inject [simp]: "show_int i = show_int j \<longleftrightarrow> i = j"
proof -
  have "CHR ''-'' \<notin> set (show_nat n)" for n
    using show_nat_digits [of "CHR ''-''" n] by (auto simp: is_digit_def byte_def)
  then have "CHR ''-'' # show_nat m \<noteq> show_nat n" "show_nat n \<noteq> CHR ''-'' # show_nat m" for m n
    by (metis list.set_intros(1))+
  then show ?thesis by (auto simp: show_int_def)
qed

subsection \<open>Comparisons with ASCII constants\<close>

definition lower_ascii :: "char \<Rightarrow> char" where
  "lower_ascii c = (if 65 \<le> byte c \<and> byte c \<le> 90 then of_byte (byte c + 32) else c)"

fun ToLower :: "string \<Rightarrow> string" where
  \<comment> \<open>\<open>strings.ToLower\<close> on the runes whose lower case is ASCII: the ASCII letters,
    U+0130 (i) and U+212A (k). Every other rune stays outside ASCII, in Go as here, which is
    all that a comparison with an ASCII constant sees.\<close>
  "ToLower (a # b # c # s) =
     (if a = CHR 0xE2 \<and> b = CHR 0x84 \<and> c = CHR 0xAA then CHR ''k'' # ToLower s
      else if a = CHR 0xC4 \<and> b = CHR 0xB0 then CHR ''i'' # ToLower (c # s)
      else lower_ascii a # ToLower (b # c # s))"
| "ToLower [a, b] = (if a = CHR 0xC4 \<and> b = CHR 0xB0 then ''i'' else [lower_ascii a, lower_ascii b])"
| "ToLower [a] = [lower_ascii a]"
| "ToLower [] = []"

definition equal_fold_ascii :: "string \<Rightarrow> string \<Rightarrow> bool" where
  \<comment> \<open>\<open>strings.EqualFold\<close> with a constant that has neither K nor S, the only ASCII
    letters another rune folds to\<close>
  "equal_fold_ascii s t = (map lower_ascii s = map lower_ascii t)"

end
