(* ===== verification/Pool_Interface.thy ===== *)
theory Pool_Interface imports Models begin

text \<open>
  What the callers of the node port pool rely on. The pool maps a node port to its owner, a
  server and a key; 0 is no server and owns the ports set aside. \<open>draw r i k\<close> reserves a
  port for key \<open>k\<close> of server \<open>i\<close>, \<open>r\<close> being the key the database gives a new row;
  \<open>rename i a b\<close> moves an entry to another key; \<open>release i k\<close> frees it.
\<close>

type_synonym port_owner = "row_id \<times> string"

locale port_pool =
  fixes invar :: "'d \<Rightarrow> bool"
    and alpha :: "'d \<Rightarrow> int32 \<rightharpoonup> port_owner"
    and fresh :: "row_id \<Rightarrow> 'd \<Rightarrow> bool"
    and draw :: "row_id \<Rightarrow> row_id \<Rightarrow> string \<Rightarrow> 'd \<Rightarrow> 'e + int32 \<times> 'd"
    and rename :: "row_id \<Rightarrow> string \<Rightarrow> string \<Rightarrow> 'd \<Rightarrow> 'd"
    and release :: "row_id \<Rightarrow> string \<Rightarrow> 'd \<Rightarrow> 'd"
  assumes owner_inj: "\<lbrakk>invar d; i \<noteq> 0; alpha d p = Some (i, k); alpha d q = Some (i, k)\<rbrakk> \<Longrightarrow> p = q"
    and draw_invar: "\<lbrakk>invar d; fresh r d; i \<noteq> 0; draw r i k d = Inr (p, d')\<rbrakk> \<Longrightarrow> invar d'"
    and draw_alpha: "\<lbrakk>invar d; fresh r d; i \<noteq> 0; draw r i k d = Inr (p, d')\<rbrakk> \<Longrightarrow>
      alpha d' = (alpha d)(p \<mapsto> (i, k)) \<and> (alpha d p = None \<or> alpha d p = Some (i, k))"
    and draw_fresh: "\<lbrakk>draw r i k d = Inr (p, d'); fresh r' d; r' \<noteq> r\<rbrakk> \<Longrightarrow> fresh r' d'"
    and rename_invar: "\<lbrakk>invar d; i \<noteq> 0\<rbrakk> \<Longrightarrow> invar (rename i a b d)"
    and rename_alpha: "\<lbrakk>invar d; i \<noteq> 0\<rbrakk> \<Longrightarrow> alpha (rename i a b d) p = alpha d p
      \<or> (alpha d p = Some (i, a) \<and> alpha (rename i a b d) p = Some (i, b))"
    and rename_fresh: "fresh r d \<Longrightarrow> fresh r (rename i a b d)"
    and release_invar: "invar d \<Longrightarrow> invar (release i k d)"
    and release_alpha: "invar d \<Longrightarrow> alpha (release i k d) p =
      (if alpha d p = Some (i, k) then None else alpha d p)"
begin

text \<open>A port that is held is never handed to somebody else.\<close>

lemma draw_not_taken:
  assumes "invar d" "fresh r d" "i \<noteq> 0" "draw r i k d = Inr (p, d')" "alpha d p = Some w"
  shows "w = (i, k)"
  using draw_alpha [OF assms(1-4)] assms(5) by auto

lemma draw_keeps:
  assumes "invar d" "fresh r d" "i \<noteq> 0" "draw r i k d = Inr (p, d')" "alpha d q = Some w"
  shows "alpha d' q = Some w"
  using draw_alpha [OF assms(1-4)] assms(5) by auto

lemma draw_held:
  assumes "invar d" "fresh r d" "i \<noteq> 0" "alpha d p = Some (i, k)" "draw r i k d = Inr (q, d')"
  shows "q = p \<and> alpha d' = alpha d"
proof -
  have inv: "invar d'" and al: "alpha d' = (alpha d)(q \<mapsto> (i, k))"
    using draw_invar [OF assms(1-3,5)] draw_alpha [OF assms(1-3,5)] by simp_all
  have "alpha d' p = Some (i, k)" using draw_keeps [OF assms(1-3,5,4)] .
  from owner_inj [OF inv assms(3) this, of q] al have "q = p" by simp
  then show ?thesis using al assms(4) by (auto simp: fun_eq_iff)
qed

lemma distinct_owners_distinct_ports:
  assumes "invar d" "fresh r d" "i \<noteq> 0" "draw r i k d = Inr (p, d1)"
    and "fresh r' d" "r' \<noteq> r" "j \<noteq> 0" "draw r' j l d1 = Inr (q, d2)" "(i, k) \<noteq> (j, l)"
  shows "p \<noteq> q"
proof
  assume "p = q"
  have "invar d1" using draw_invar [OF assms(1-4)] .
  moreover have "fresh r' d1" using draw_fresh [OF assms(4-6)] .
  moreover have "alpha d1 q = Some (i, k)" using draw_alpha [OF assms(1-4)] \<open>p = q\<close> by simp
  ultimately have "(i, k) = (j, l)" using draw_not_taken assms(7,8) by metis
  with assms(9) show False ..
qed

lemma draw_after_release:
  assumes "invar d" "alpha d p = Some (i, k)"
  shows "alpha (release i k d) p = None" "\<And>q. q \<noteq> p \<Longrightarrow> i \<noteq> 0 \<Longrightarrow> alpha (release i k d) q = alpha d q"
proof -
  show "alpha (release i k d) p = None" using assms release_alpha by simp
  show "alpha (release i k d) q = alpha d q" if "q \<noteq> p" "i \<noteq> 0" for q
    using that release_alpha [OF assms(1)] owner_inj [OF assms(1) that(2) assms(2), of q] by auto
qed

end

end
