(* ===== verification/Node_Ports.thy ===== *)
theory Node_Ports imports Store_Db Go_Strings Pool_Interface begin

text \<open>
  The node port pool: the allocations of \<open>internal/store/store.go\<close> (Node port pool) and
  the loop of \<open>internal/reconciler/nodeport.go\<close> that draws another port when the cluster
  refuses one. The random start of the scan is an argument, as the system's random source is;
  the apiserver's answer is an argument of the loop.
\<close>

subsection \<open>The pool\<close>

definition DefaultNodePortMin :: int32 where "DefaultNodePortMin = 30000"
definition DefaultNodePortMax :: int32 where "DefaultNodePortMax = 32767"

definition TakenNodePort :: string where "TakenNodePort = ''taken-outside''"

definition NodePortKey :: "int32 \<Rightarrow> string" where
  "NodePortKey port = ''p'' @ show_int port"

definition randRange :: "(nat \<Rightarrow> nat) \<Rightarrow> nat \<Rightarrow> nat" where
  \<comment> \<open>\<open>rnd n\<close> is the system's uniform draw from [0, n)\<close>
  "randRange rnd n = (if n \<le> 1 then 0 else rnd n)"

definition allocateNodePort ::
  "(nat \<Rightarrow> nat) \<Rightarrow> row_id \<Rightarrow> row_id \<Rightarrow> string \<Rightarrow> int32 \<Rightarrow> int32 \<Rightarrow> db \<Rightarrow> store_error + int32 \<times> db" where
  "allocateNodePort rnd new_id serverID name min0 max0 d =
     (let lo = (if min0 \<le> 0 then DefaultNodePortMin else min0);
          hi = (if max0 \<le> 0 then DefaultNodePortMax else max0)
      in if lo > hi then Inl ErrInvalidRange
         else
           (case find (\<lambda>a. al_server_id a = serverID \<and> al_port_name a = name) (ports d) of
              Some alloc \<Rightarrow> Inr (al_node_port alloc, d)
            | None \<Rightarrow>
                (let used = map al_node_port (ports d);
                     span = nat (hi - lo) + 1;
                     start = randRange rnd span
                 in case find (\<lambda>p. p \<notin> set used)
                           (map (\<lambda>i. lo + int ((start + i) mod span)) [0..<span]) of
                      None \<Rightarrow> Inl ErrNoFreeNodePort
                    | Some p \<Rightarrow> Inr (p, d\<lparr>ports := ports d @
                        [\<lparr>al_id = new_id, al_node_port = p, al_server_id = serverID,
                          al_port_name = name\<rparr>]\<rparr>))))"

definition AllocateNodePort ::
  "(nat \<Rightarrow> nat) \<Rightarrow> row_id \<Rightarrow> row_id \<Rightarrow> string \<Rightarrow> int32 \<Rightarrow> int32 \<Rightarrow> db \<Rightarrow> store_error + int32 \<times> db" where
  "AllocateNodePort rnd new_id serverID name lo hi d =
     allocateNodePort rnd new_id serverID name lo hi d"

definition SetAsideNodePort ::
  "(nat \<Rightarrow> nat) \<Rightarrow> row_id \<Rightarrow> row_id \<Rightarrow> row_id \<Rightarrow> string \<Rightarrow> int32 \<Rightarrow> int32 \<Rightarrow> int32 \<Rightarrow> db
   \<Rightarrow> store_error + int32 \<times> db" where
  "SetAsideNodePort rnd aside_id new_id serverID key taken lo hi d =
     (let d1 = (case find (\<lambda>a. al_node_port a = taken) (ports d) of
             None \<Rightarrow> d\<lparr>ports := ports d @
               [\<lparr>al_id = aside_id, al_node_port = taken, al_server_id = 0,
                 al_port_name = TakenNodePort\<rparr>]\<rparr>
           | Some held \<Rightarrow>
               if al_server_id held = serverID \<and> al_port_name held = key
               then d\<lparr>ports := update_where (\<lambda>a. al_id a = al_id held)
                      (\<lambda>a. a\<lparr>al_server_id := 0, al_port_name := TakenNodePort\<rparr>) (ports d)\<rparr>
               else d)
      in allocateNodePort rnd new_id serverID key lo hi d1)"

definition RepointServerNodePort :: "time \<Rightarrow> row_id \<Rightarrow> int32 \<Rightarrow> int32 \<Rightarrow> db \<Rightarrow> db_result" where
  "RepointServerNodePort clk serverID from_port to_port d =
     (case find (\<lambda>s. sv_id s = serverID) (servers d) of
        None \<Rightarrow> Inl ErrRecordNotFound
      | Some srv \<Rightarrow>
          (let moved = (\<exists>p \<in> set (sv_ports srv). ps_nodePort p = from_port);
               prts = map (\<lambda>p. if ps_nodePort p = from_port then p\<lparr>ps_nodePort := to_port\<rparr> else p)
                        (sv_ports srv)
           in if \<not> moved then Inr d
              else Inr (update_server clk serverID (sv_ports_update (\<lambda>_. prts)) d)))"

definition ReleaseNodePort :: "row_id \<Rightarrow> string \<Rightarrow> db \<Rightarrow> db" where
  "ReleaseNodePort serverID name d =
     d\<lparr>ports := delete_where (\<lambda>a. al_server_id a = serverID \<and> al_port_name a = name) (ports d)\<rparr>"

definition RenameNodePort :: "row_id \<Rightarrow> string \<Rightarrow> string \<Rightarrow> db \<Rightarrow> db" where
  "RenameNodePort serverID from_key to_key d =
     (if from_key = [] \<or> to_key = [] \<or> from_key = to_key then d
      else if rows_affected (\<lambda>a. al_server_id a = serverID \<and> al_port_name a = to_key) (ports d) > 0
      then d
      else d\<lparr>ports := update_where (\<lambda>a. al_server_id a = serverID \<and> al_port_name a = from_key)
             (al_port_name_update (\<lambda>_. to_key)) (ports d)\<rparr>)"

definition ReleaseServerPorts :: "row_id \<Rightarrow> db \<Rightarrow> db" where
  "ReleaseServerPorts serverID d =
     d\<lparr>ports := delete_where (\<lambda>a. al_server_id a = serverID) (ports d)\<rparr>"

subsection \<open>Drawing another port when the cluster refuses one\<close>

definition maxNodePortMoves :: nat where "maxNodePortMoves = 5"

text \<open>
  An apply that the apiserver refused as invalid lists its causes, each a field and a message;
  \<open>None\<close> stands for every other error, which lists none.
\<close>

type_synonym api_error = "(string \<times> string) list option"

definition nodePortField :: "string \<Rightarrow> nat option" where
  \<comment> \<open>the expression \<open>^spec\.ports\[(\d+)\]\.nodePort$\<close>\<close>
  "nodePortField f =
     (let pre = ''spec.ports[''; post = ''].nodePort'';
          ds = take (length f - length pre - length post) (drop (length pre) f)
      in if prefix pre f \<and> suffix post f \<and> length pre + length post \<le> length f
            \<and> ds \<noteq> [] \<and> list_all is_digit ds
         then Some (digits_value ds) else None)"

definition sub_of :: "string \<Rightarrow> string \<Rightarrow> bool" where
  "sub_of p s = sublist p s"

fun taken_causes :: "(string \<times> string) list \<Rightarrow> int32 list \<Rightarrow> int32 list \<Rightarrow> int32 list" where
  \<comment> \<open>the loop over the causes; \<open>out\<close> is also the set of ports seen\<close>
  "taken_causes [] svc out = out"
| "taken_causes ((field, msg) # cs) svc out =
     (case nodePortField field of
        None \<Rightarrow> taken_causes cs svc out
      | Some i \<Rightarrow>
          if \<not> sub_of ''already allocated'' msg \<or> i \<ge> length svc then taken_causes cs svc out
          else (let np = svc ! i in
                if np \<noteq> 0 \<and> np \<notin> set out then taken_causes cs svc (out @ [np])
                else taken_causes cs svc out))"

definition takenNodePorts :: "api_error option \<Rightarrow> int32 list \<Rightarrow> int32 list" where
  "takenNodePorts err svc =
     (case err of Some (Some causes) \<Rightarrow> taken_causes causes svc [] | _ \<Rightarrow> [])"

datatype 'e apply_outcome = Applied | Refused api_error | MoveFailed api_error 'e

fun move_all :: "(int32 \<Rightarrow> 's \<Rightarrow> ('e \<times> 's) + 's) \<Rightarrow> int32 list \<Rightarrow> 's \<Rightarrow> ('e \<times> 's) + 's" where
  "move_all move [] s = Inr s"
| "move_all move (p # ps) s =
     (case move p s of Inl e \<Rightarrow> Inl e | Inr s' \<Rightarrow> move_all move ps s')"

function applyLoop ::
  "('s \<Rightarrow> int32 list) \<Rightarrow> (nat \<Rightarrow> 's \<Rightarrow> int32 list \<Rightarrow> api_error option)
   \<Rightarrow> (int32 \<Rightarrow> 's \<Rightarrow> ('e \<times> 's) + 's) \<Rightarrow> nat \<Rightarrow> 's \<Rightarrow> 'e apply_outcome \<times> 's \<times> nat" where
  \<comment> \<open>\<open>apply moves s svc\<close> is what the apiserver answers on that pass; the last component
    counts the applies\<close>
  "applyLoop build app move moves s =
     (let svc = build s; err = app moves s svc; taken = takenNodePorts err svc
      in if taken = [] \<or> moves \<ge> maxNodePortMoves
         then ((case err of None \<Rightarrow> Applied | Some e \<Rightarrow> Refused e), s, Suc moves)
         else (case move_all move taken s of
                 Inl (e, s') \<Rightarrow> (MoveFailed (case err of None \<Rightarrow> None | Some x \<Rightarrow> x) e, s', Suc moves)
               | Inr s' \<Rightarrow> applyLoop build app move (Suc moves) s'))"
  by pat_completeness auto
termination
  by (relation "measure (\<lambda>(_, _, _, moves, _). maxNodePortMoves - moves)") auto

declare applyLoop.simps [simp del]

definition applyNodePortService ::
  "('s \<Rightarrow> int32 list) \<Rightarrow> (nat \<Rightarrow> 's \<Rightarrow> int32 list \<Rightarrow> api_error option)
   \<Rightarrow> (int32 \<Rightarrow> 's \<Rightarrow> ('e \<times> 's) + 's) \<Rightarrow> 's \<Rightarrow> 'e apply_outcome \<times> 's \<times> nat" where
  "applyNodePortService build app move s = applyLoop build app move 0 s"

datatype move_error = NoSuchPort | StoreFailed store_error

definition emitEvent :: "time \<Rightarrow> row_id \<Rightarrow> Server \<Rightarrow> string \<Rightarrow> string \<Rightarrow> db \<Rightarrow> db" where
  "emitEvent clk event_id s eventType message d =
     AddEvent clk event_id \<lparr>ev_id = 0, ev_created_at = 0, ev_type = eventType, ev_server_id = sv_id s,
       ev_user_id = 0, ev_username = [], ev_message = sv_slug s @ '': '' @ message,
       ev_data = Map.empty\<rparr> d"

text \<open>The keys the database gives the rows a move may create.\<close>

record move_ids =
  aside_id :: row_id
  new_id :: row_id
  event_id :: row_id

definition moveGamePort ::
  "(nat \<Rightarrow> nat) \<Rightarrow> move_ids \<Rightarrow> time \<Rightarrow> int32 \<Rightarrow> int32 \<Rightarrow> int32 \<Rightarrow> Server \<times> db
   \<Rightarrow> (move_error \<times> Server \<times> db) + (Server \<times> db)" where
  "moveGamePort rnd ids clk lo hi taken sd =
     (let (s, d) = sd;
          number = (case find (\<lambda>p. ps_nodePort p = taken) (sv_ports s) of
                      None \<Rightarrow> 0 | Some p \<Rightarrow> ps_port p)
      in if number = 0 then Inl (NoSuchPort, s, d)
         else
           (case SetAsideNodePort rnd (aside_id ids) (new_id ids) (sv_id s) (NodePortKey number)
                   taken lo hi d of
              Inl e \<Rightarrow> Inl (StoreFailed e, s, d)
            | Inr (np, d1) \<Rightarrow>
                (case RepointServerNodePort clk (sv_id s) taken np d1 of
                   Inl e \<Rightarrow> Inl (StoreFailed e, s, d1)
                 | Inr d2 \<Rightarrow>
                     (let s' = s\<lparr>sv_ports := map (\<lambda>p. if ps_nodePort p = taken
                             then p\<lparr>ps_nodePort := np\<rparr> else p) (sv_ports s)\<rparr>
                      in Inr (s', emitEvent clk (event_id ids) s' EventServerPortMoved
                           (''port '' @ show_int number @ '' is published on node port '' @ show_int np
                            @ '': the cluster had already given node port '' @ show_int taken
                            @ '' to another Service'') d2)))))"

definition SFTPPortName :: string where "SFTPPortName = ''sftp''"

definition moveSFTPPort ::
  "(nat \<Rightarrow> nat) \<Rightarrow> move_ids \<Rightarrow> time \<Rightarrow> int32 \<Rightarrow> int32 \<Rightarrow> int32 \<Rightarrow> Server \<Rightarrow> db
   \<Rightarrow> store_error + int32 \<times> db" where
  "moveSFTPPort rnd ids clk lo hi taken s d =
     (case SetAsideNodePort rnd (aside_id ids) (new_id ids) (sv_id s) SFTPPortName taken lo hi d of
        Inl e \<Rightarrow> Inl e
      | Inr (np, d1) \<Rightarrow> Inr (np, emitEvent clk (event_id ids) s EventServerPortMoved
          (''SFTP is published on node port '' @ show_int np
           @ '': the cluster had already given node port '' @ show_int taken
           @ '' to another Service'') d1))"

subsection \<open>The pool as a map from node ports to owners\<close>

definition owner_of :: "PortAllocation \<Rightarrow> port_owner" where
  "owner_of a = (al_server_id a, al_port_name a)"

definition pool_of :: "db \<Rightarrow> int32 \<rightharpoonup> port_owner" where
  "pool_of d = map_of (map (\<lambda>a. (al_node_port a, owner_of a)) (ports d))"

definition owned :: "db \<Rightarrow> PortAllocation list" where
  \<comment> \<open>the entries of servers; those set aside belong to none\<close>
  "owned d = filter (\<lambda>a. al_server_id a \<noteq> 0) (ports d)"

definition pool_inv :: "db \<Rightarrow> bool" where
  "pool_inv d =
     (distinct (map al_id (ports d)) \<and> distinct (map al_node_port (ports d))
      \<and> distinct (map owner_of (owned d)))"

named_theorems pool_defs

lemmas [pool_defs] = pool_inv_def owned_def owner_of_def

lemma pool_of_Some:
  "pool_inv d \<Longrightarrow> pool_of d p = Some ow \<longleftrightarrow>
     (\<exists>a \<in> set (ports d). al_node_port a = p \<and> owner_of a = ow)"
proof -
  assume "pool_inv d"
  then have "distinct (map fst (map (\<lambda>a. (al_node_port a, owner_of a)) (ports d)))"
    by (simp add: pool_inv_def o_def)
  from map_of_eq_Some_iff [OF this] show ?thesis
    by (auto simp: pool_of_def image_iff)
qed

lemma pool_of_None: "pool_of d p = None \<longleftrightarrow> p \<notin> al_node_port ` set (ports d)"
  by (force simp: pool_of_def map_of_eq_None_iff image_iff)

lemma pool_of_snoc:
  "al_node_port a \<notin> al_node_port ` set (ports d) \<Longrightarrow>
   pool_of (d\<lparr>ports := ports d @ [a]\<rparr>) = (pool_of d)(al_node_port a \<mapsto> owner_of a)"
  using pool_of_None [of d "al_node_port a"]
  by (intro ext) (auto simp: pool_of_def map_add_def split: option.splits)

lemma pool_inv_owner_unique:
  assumes "pool_inv d" and "a \<in> set (ports d)" and "b \<in> set (ports d)"
    and "owner_of a = owner_of b" and "al_server_id a \<noteq> 0"
  shows "a = b"
proof -
  have "a \<in> set (owned d)" "b \<in> set (owned d)" "distinct (map owner_of (owned d))"
    using assms by (auto simp: pool_defs)
  with assms(4) show ?thesis by (blast dest: distinct_key_eq)
qed

subsection \<open>The scan\<close>

definition scan_ports :: "nat \<Rightarrow> int32 \<Rightarrow> nat \<Rightarrow> int32 list" where
  "scan_ports start lo span = map (\<lambda>i. lo + int ((start + i) mod span)) [0..<span]"

lemma set_scan_ports:
  assumes "0 < span"
  shows "set (scan_ports start lo span) = {lo..lo + int span - 1}"
proof
  show "set (scan_ports start lo span) \<subseteq> {lo..lo + int span - 1}"
  proof
    fix p assume "p \<in> set (scan_ports start lo span)"
    then obtain i where "p = lo + int ((start + i) mod span)" by (auto simp: scan_ports_def)
    moreover have "(start + i) mod span < span" using assms by simp
    ultimately show "p \<in> {lo..lo + int span - 1}" by simp
  qed
  show "{lo..lo + int span - 1} \<subseteq> set (scan_ports start lo span)"
  proof
    fix p assume p: "p \<in> {lo..lo + int span - 1}"
    define k where "k = nat (p - lo)"
    have k: "p = lo + int k" "k < span" using p assms by (auto simp: k_def)
    define i where "i = (k + (span - start mod span)) mod span"
    have "i < span" using assms by (simp add: i_def)
    moreover have "(start + i) mod span = k"
    proof -
      have "(start + i) mod span = (start mod span + (k + (span - start mod span))) mod span"
        by (simp add: i_def mod_simps)
      also have "start mod span + (k + (span - start mod span)) = k + span"
        using mod_less_divisor [OF assms, of start] by linarith
      finally show ?thesis using k(2) by simp
    qed
    ultimately show "p \<in> set (scan_ports start lo span)"
      using k(1) by (force simp: scan_ports_def)
  qed
qed

definition pool_lo :: "int32 \<Rightarrow> int32" where "pool_lo m = (if m \<le> 0 then DefaultNodePortMin else m)"
definition pool_hi :: "int32 \<Rightarrow> int32" where "pool_hi m = (if m \<le> 0 then DefaultNodePortMax else m)"

text \<open>The outcomes of an allocation, one per branch.\<close>

lemma allocateNodePort_cases:
  assumes "allocateNodePort rnd n sid name lo hi d = Inr (p, d')"
  obtains (held) a where "a \<in> set (ports d)" "owner_of a = (sid, name)" "p = al_node_port a" "d' = d"
  | (fresh) "\<forall>a \<in> set (ports d). owner_of a \<noteq> (sid, name)"
      "p \<notin> al_node_port ` set (ports d)" "p \<in> {pool_lo lo..pool_hi hi}"
      "d' = d\<lparr>ports := ports d @ [\<lparr>al_id = n, al_node_port = p, al_server_id = sid, al_port_name = name\<rparr>]\<rparr>"
proof (cases "find (\<lambda>a. al_server_id a = sid \<and> al_port_name a = name) (ports d)")
  case None
  define span where "span = nat (pool_hi hi - pool_lo lo) + 1"
  from assms None have le: "pool_lo lo \<le> pool_hi hi"
    and f: "find (\<lambda>p. p \<notin> al_node_port ` set (ports d)) (scan_ports (randRange rnd span) (pool_lo lo) span) = Some p"
    and d': "d' = d\<lparr>ports := ports d @ [\<lparr>al_id = n, al_node_port = p, al_server_id = sid, al_port_name = name\<rparr>]\<rparr>"
    by (auto simp: allocateNodePort_def Let_def pool_lo_def pool_hi_def scan_ports_def span_def
        split: if_splits option.splits)
  have "p \<in> {pool_lo lo..pool_hi hi}"
    using find_SomeD [OF f] le set_scan_ports [of span] by (auto simp: span_def)
  with find_SomeD [OF f] None d' show ?thesis
    by (intro fresh) (auto simp: find_None owner_of_def)
next
  case (Some a)
  with assms show ?thesis
    by (intro held) (auto simp: allocateNodePort_def Let_def owner_of_def split: if_splits dest: find_SomeD)
qed

definition fresh_port_id :: "row_id \<Rightarrow> db \<Rightarrow> bool" where
  "fresh_port_id r d = (r \<notin> al_id ` set (ports d))"

text \<open>The statements of the pool keep its invariant.\<close>

lemma pool_inv_snoc:
  assumes "pool_inv d" "fresh_port_id (al_id a) d" "al_node_port a \<notin> al_node_port ` set (ports d)"
    and "al_server_id a \<noteq> 0 \<Longrightarrow> owner_of a \<notin> owner_of ` set (owned d)"
  shows "pool_inv (d\<lparr>ports := ports d @ [a]\<rparr>)"
  using assms by (auto simp: pool_inv_def owned_def fresh_port_id_def)

lemma pool_inv_owner_of:
  assumes "pool_inv d" "i \<noteq> 0" "pool_of d p = Some (i, k)" "pool_of d q = Some (i, k)"
  shows "p = q"
proof -
  obtain a b where "a \<in> set (ports d)" "al_node_port a = p" "owner_of a = (i, k)"
    and "b \<in> set (ports d)" "al_node_port b = q" "owner_of b = (i, k)"
    using assms pool_of_Some by metis
  with pool_inv_owner_unique [OF assms(1), of a b] assms(2) show ?thesis by (auto simp: owner_of_def)
qed

lemma draw_pool_inv:
  assumes "pool_inv d" "fresh_port_id n d" "sid \<noteq> 0"
    and "allocateNodePort rnd n sid name lo hi d = Inr (p, d')"
  shows "pool_inv d'"
  using assms(4)
proof (cases rule: allocateNodePort_cases)
  case fresh
  then show ?thesis
    using assms(1,2) by (auto intro!: pool_inv_snoc simp: owner_of_def owned_def)
qed (use assms(1) in simp)

lemma draw_pool_of:
  assumes "pool_inv d" "allocateNodePort rnd n sid name lo hi d = Inr (p, d')"
  shows "pool_of d' = (pool_of d)(p \<mapsto> (sid, name)) \<and> (pool_of d p = None \<or> pool_of d p = Some (sid, name))"
  using assms(2)
proof (cases rule: allocateNodePort_cases)
  case (held a)
  then have "pool_of d p = Some (sid, name)" using pool_of_Some [OF assms(1)] by auto
  with held(4) show ?thesis by (auto simp: fun_eq_iff)
next
  case fresh
  then have "pool_of d p = None" by (simp add: pool_of_None)
  with fresh show ?thesis by (simp add: pool_of_snoc owner_of_def)
qed

lemma draw_fresh_id:
  assumes "allocateNodePort rnd n sid name lo hi d = Inr (p, d')" "fresh_port_id r d" "r \<noteq> n"
  shows "fresh_port_id r d'"
  using assms(1) by (cases rule: allocateNodePort_cases) (use assms in \<open>auto simp: fresh_port_id_def\<close>)

lemma owned_delete: "owned (d\<lparr>ports := delete_where P (ports d)\<rparr>) = delete_where P (owned d)"
  by (auto simp: owned_def delete_where_def intro: filter_cong)

lemma delete_pool_inv: "pool_inv d \<Longrightarrow> pool_inv (d\<lparr>ports := delete_where P (ports d)\<rparr>)"
  unfolding pool_inv_def owned_delete by (simp add: distinct_map_delete_where)

lemma release_pool_of:
  assumes "pool_inv d"
  shows "pool_of (ReleaseNodePort i k d) p = (if pool_of d p = Some (i, k) then None else pool_of d p)"
proof -
  have inv: "pool_inv (ReleaseNodePort i k d)" unfolding ReleaseNodePort_def by (rule delete_pool_inv [OF assms])
  have uniq: "a = b" if "a \<in> set (ports d)" "b \<in> set (ports d)" "al_node_port a = al_node_port b" for a b
    using assms that distinct_key_eq by (auto simp: pool_inv_def)
  have "pool_of (ReleaseNodePort i k d) p = Some w \<longleftrightarrow> pool_of d p = Some w \<and> w \<noteq> (i, k)" for w
    unfolding pool_of_Some [OF inv] pool_of_Some [OF assms]
    by (auto simp: ReleaseNodePort_def set_delete_where owner_of_def)
  then show ?thesis by (metis (full_types) option.exhaust)
qed

lemma rename_cases:
  obtains (same) "RenameNodePort i a b d = d"
  | (moved) "a \<noteq> b" "\<forall>x \<in> set (ports d). owner_of x \<noteq> (i, b)"
      "RenameNodePort i a b d = d\<lparr>ports := update_where (\<lambda>x. owner_of x = (i, a))
         (al_port_name_update (\<lambda>_. b)) (ports d)\<rparr>"
proof (cases "a = [] \<or> b = [] \<or> a = b \<or>
    rows_affected (\<lambda>x. al_server_id x = i \<and> al_port_name x = b) (ports d) > 0")
  case True then show ?thesis by (intro same) (auto simp: RenameNodePort_def)
next
  case False
  then have z: "\<not> rows_affected (\<lambda>x. al_server_id x = i \<and> al_port_name x = b) (ports d) > 0" by simp
  then have none: "\<forall>x \<in> set (ports d). owner_of x \<noteq> (i, b)"
    by (simp add: rows_affected_eq_0 owner_of_def)
  have eq: "RenameNodePort i a b d = d\<lparr>ports := update_where (\<lambda>x. owner_of x = (i, a))
      (al_port_name_update (\<lambda>_. b)) (ports d)\<rparr>"
    using False z by (simp add: RenameNodePort_def owner_of_def)
  from False none eq show ?thesis by (intro moved) simp_all
qed

lemma rename_owner: "owner_of (al_port_name_update (\<lambda>_. b) x) = (al_server_id x, b)"
  by (simp add: owner_of_def)

lemma rename_pool_inv:
  assumes "pool_inv d" "i \<noteq> 0"
  shows "pool_inv (RenameNodePort i a b d)"
proof (cases rule: rename_cases [of i a b d])
  case moved
  let ?u = "update_where (\<lambda>x. owner_of x = (i, a)) (al_port_name_update (\<lambda>_. b))"
  have own: "owned (d\<lparr>ports := ?u (ports d)\<rparr>) = ?u (owned d)"
    by (auto simp: owned_def update_where_def filter_map o_def intro!: map_cong filter_cong)
  have "distinct (map owner_of (?u xs))"
    if "distinct (map owner_of xs)" "\<forall>x \<in> set xs. owner_of x \<noteq> (i, b)" for xs
  proof -
    have "map owner_of (?u xs) = map (\<lambda>w. if w = (i, a) then (i, b) else w) (map owner_of xs)"
      by (auto simp: update_where_def owner_of_def)
    moreover have "inj_on (\<lambda>w. if w = (i, a) then (i, b) else w) (set (map owner_of xs))"
      using that(2) by (auto simp: inj_on_def)
    ultimately show ?thesis using that(1) by (simp only: distinct_map [of _ "map owner_of xs"])
  qed
  moreover have "\<forall>x \<in> set (owned d). owner_of x \<noteq> (i, b)" using moved(2) by (simp add: owned_def)
  ultimately show ?thesis
    using assms(1) unfolding moved(3) pool_inv_def own by (simp add: map_key_update_where)
qed (use assms in simp)

lemma rename_pool_of:
  assumes "pool_inv d" "i \<noteq> 0"
  shows "pool_of (RenameNodePort i a b d) p = pool_of d p
    \<or> (pool_of d p = Some (i, a) \<and> pool_of (RenameNodePort i a b d) p = Some (i, b))"
proof (cases rule: rename_cases [of i a b d])
  case moved
  have inv: "pool_inv (RenameNodePort i a b d)" using rename_pool_inv assms .
  show ?thesis
  proof (cases "pool_of d p")
    case None
    then have "pool_of (RenameNodePort i a b d) p = None"
      unfolding pool_of_None moved(3) by (auto simp: set_update_where split: if_splits)
    with None show ?thesis by simp
  next
    case (Some w)
    then obtain x where x: "x \<in> set (ports d)" "al_node_port x = p" "owner_of x = w"
      using pool_of_Some [OF assms(1)] by auto
    let ?y = "if owner_of x = (i, a) then al_port_name_update (\<lambda>_. b) x else x"
    have "?y \<in> set (ports (RenameNodePort i a b d))"
      using x(1) unfolding moved(3) by (simp add: set_update_where)
    then have "pool_of (RenameNodePort i a b d) p = Some (owner_of ?y)"
      unfolding pool_of_Some [OF inv] using x(2) by (intro bexI [of _ ?y]) auto
    with Some x(3) show ?thesis by (auto simp: rename_owner owner_of_def)
  qed
qed simp

lemma rename_fresh_id: "fresh_port_id r d \<Longrightarrow> fresh_port_id r (RenameNodePort i a b d)"
  by (cases rule: rename_cases [of i a b d]) (auto simp: fresh_port_id_def set_update_where)

text \<open>The store's pool meets the interface.\<close>

interpretation np: port_pool pool_inv pool_of fresh_port_id
  "\<lambda>r i k. AllocateNodePort (rnd r) r i k lo hi" RenameNodePort ReleaseNodePort for rnd lo hi
proof unfold_locales
  show "pool_inv (ReleaseNodePort i k d)" if "pool_inv d" for i k d
    using delete_pool_inv [OF that] by (simp add: ReleaseNodePort_def)
qed (simp_all add: AllocateNodePort_def draw_pool_inv draw_pool_of draw_fresh_id rename_pool_inv
      rename_pool_of rename_fresh_id release_pool_of pool_inv_owner_of)

subsection \<open>Properties of the pool\<close>

text \<open>Drawing a node port fails only for a reason: for want of a free one exactly when the
  range is not empty, the owner holds none and every port of the range is in the pool; and an
  owner that holds a port always gets that one back, the pool unchanged.\<close>

theorem allocateNodePort_exhausted:
  "(AllocateNodePort rnd n sid name lo hi d = Inl ErrNoFreeNodePort \<longleftrightarrow>
      pool_lo lo \<le> pool_hi hi \<and> (\<forall>a \<in> set (ports d). owner_of a \<noteq> (sid, name))
      \<and> {pool_lo lo..pool_hi hi} \<subseteq> al_node_port ` set (ports d))
   \<and> (\<forall>e. AllocateNodePort rnd n sid name lo hi d = Inl e \<longrightarrow>
        e = ErrNoFreeNodePort \<or> (e = ErrInvalidRange \<and> pool_lo lo > pool_hi hi))"
proof -
  define span where "span = nat (pool_hi hi - pool_lo lo) + 1"
  let ?own = "find (\<lambda>a. al_server_id a = sid \<and> al_port_name a = name) (ports d)"
  let ?free = "find (\<lambda>p. p \<notin> al_node_port ` set (ports d)) (scan_ports (randRange rnd span) (pool_lo lo) span)"
  have scan: "?free = None \<longleftrightarrow> {pool_lo lo..pool_hi hi} \<subseteq> al_node_port ` set (ports d)"
    if "pool_lo lo \<le> pool_hi hi"
    using that set_scan_ports [of span] by (auto simp: find_None span_def)
  have "AllocateNodePort rnd n sid name lo hi d =
    (if pool_lo lo > pool_hi hi then Inl ErrInvalidRange
     else case ?own of Some a \<Rightarrow> Inr (al_node_port a, d)
       | None \<Rightarrow> (case ?free of None \<Rightarrow> Inl ErrNoFreeNodePort
           | Some p \<Rightarrow> Inr (p, d\<lparr>ports := ports d @ [\<lparr>al_id = n, al_node_port = p,
               al_server_id = sid, al_port_name = name\<rparr>]\<rparr>)))"
    unfolding AllocateNodePort_def allocateNodePort_def Let_def pool_lo_def pool_hi_def
      scan_ports_def span_def set_map by (rule refl)
  moreover have "?own = None \<longleftrightarrow> (\<forall>a \<in> set (ports d). owner_of a \<noteq> (sid, name))"
    by (auto simp: find_None owner_of_def)
  ultimately show ?thesis using scan by (auto split: option.splits if_splits)
qed

lemma owned_set_aside:
  "owned (d\<lparr>ports := update_where (\<lambda>x. al_id x = i)
      (\<lambda>x. x\<lparr>al_server_id := 0, al_port_name := TakenNodePort\<rparr>) (ports d)\<rparr>)
   = delete_where (\<lambda>x. al_id x = i) (owned d)"
proof -
  have "filter (\<lambda>a. al_server_id a \<noteq> 0) (update_where (\<lambda>x. al_id x = i)
      (\<lambda>x. x\<lparr>al_server_id := 0, al_port_name := TakenNodePort\<rparr>) xs)
    = delete_where (\<lambda>x. al_id x = i) (filter (\<lambda>a. al_server_id a \<noteq> 0) xs)" for xs
    by (induction xs) simp_all
  then show ?thesis by (simp add: owned_def)
qed

lemma set_aside_first:
  assumes inv: "pool_inv d" and ids: "fresh_port_id a d" and "sid \<noteq> 0"
    and d1: "d1 = (case find (\<lambda>a. al_node_port a = taken) (ports d) of
             None \<Rightarrow> d\<lparr>ports := ports d @
               [\<lparr>al_id = a, al_node_port = taken, al_server_id = 0, al_port_name = TakenNodePort\<rparr>]\<rparr>
           | Some held \<Rightarrow>
               if al_server_id held = sid \<and> al_port_name held = key
               then d\<lparr>ports := update_where (\<lambda>a. al_id a = al_id held)
                      (\<lambda>a. a\<lparr>al_server_id := 0, al_port_name := TakenNodePort\<rparr>) (ports d)\<rparr>
               else d)"
  shows "pool_inv d1" "\<And>r. fresh_port_id r d \<Longrightarrow> r \<noteq> a \<Longrightarrow> fresh_port_id r d1"
    "\<exists>w. pool_of d1 taken = Some w \<and> w \<noteq> (sid, key)"
    "\<And>q w. pool_of d q = Some w \<Longrightarrow> w \<noteq> (sid, key) \<Longrightarrow> pool_of d1 q = Some w"
proof -
  consider (new) "find (\<lambda>a. al_node_port a = taken) (ports d) = None"
    | (mine) h where "find (\<lambda>a. al_node_port a = taken) (ports d) = Some h" "owner_of h = (sid, key)"
    | (other) h where "find (\<lambda>a. al_node_port a = taken) (ports d) = Some h" "owner_of h \<noteq> (sid, key)"
    by fastforce
  then have "pool_inv d1 \<and> (\<forall>r. fresh_port_id r d \<and> r \<noteq> a \<longrightarrow> fresh_port_id r d1)
    \<and> (\<exists>w. pool_of d1 taken = Some w \<and> w \<noteq> (sid, key))
    \<and> (\<forall>q w. pool_of d q = Some w \<and> w \<noteq> (sid, key) \<longrightarrow> pool_of d1 q = Some w)"
  proof cases
    case new
    let ?a = "\<lparr>al_id = a, al_node_port = taken, al_server_id = 0, al_port_name = TakenNodePort\<rparr>"
    have d1': "d1 = d\<lparr>ports := ports d @ [?a]\<rparr>" using new d1 by simp
    have free: "taken \<notin> al_node_port ` set (ports d)" using new by (auto simp: find_None)
    have "pool_inv d1" unfolding d1' using inv ids free by (intro pool_inv_snoc) simp_all
    moreover have "pool_of d1 = (pool_of d)(taken \<mapsto> (0, TakenNodePort))"
      using pool_of_snoc [of ?a d] free by (simp add: d1' owner_of_def)
    moreover have "pool_of d taken = None" using free by (simp add: pool_of_None)
    ultimately show ?thesis using assms(3) by (auto simp: d1' fresh_port_id_def)
  next
    case (mine h)
    let ?u = "update_where (\<lambda>x. al_id x = al_id h) (\<lambda>x. x\<lparr>al_server_id := 0, al_port_name := TakenNodePort\<rparr>)"
    have d1': "d1 = d\<lparr>ports := ?u (ports d)\<rparr>" using mine d1 by (simp add: owner_of_def)
    have h: "h \<in> set (ports d)" "al_node_port h = taken" using find_SomeD [OF mine(1)] by auto
    have only: "x = h" if "x \<in> set (ports d)" "al_id x = al_id h" for x
      using inv h(1) that distinct_key_eq unfolding pool_inv_def by metis
    have "owned (d\<lparr>ports := ?u (ports d)\<rparr>) = delete_where (\<lambda>x. al_id x = al_id h) (owned d)"
      by (simp add: owned_set_aside)
    then have inv1: "pool_inv d1"
      using inv unfolding d1' pool_inv_def
      by (simp add: map_key_update_where distinct_map_delete_where)
    moreover have "pool_of d1 taken = Some (0, TakenNodePort)"
      unfolding pool_of_Some [OF inv1] unfolding d1'
      using h by (auto simp: set_update_where owner_of_def intro!: bexI [of _ "h\<lparr>al_server_id := 0, al_port_name := TakenNodePort\<rparr>"])
    moreover have "pool_of d1 q = Some w" if held: "pool_of d q = Some w" "w \<noteq> (sid, key)" for q w
    proof -
      obtain x where x: "x \<in> set (ports d)" "al_node_port x = q" "owner_of x = w"
        using held(1) pool_of_Some [OF inv, of q w] by auto
      then have "al_id x \<noteq> al_id h" using only mine(2) held(2) by auto
      with x show ?thesis unfolding pool_of_Some [OF inv1] unfolding d1'
        by (auto simp: set_update_where intro!: bexI [of _ x])
    qed
    moreover have "fresh_port_id r d1" if "fresh_port_id r d" for r
      using that by (simp add: d1' fresh_port_id_def map_key_update_where flip: set_map)
    ultimately show ?thesis using assms(3) by auto
  next
    case (other h)
    then have "d1 = d" using d1 by (auto simp: owner_of_def)
    moreover have "pool_of d taken = Some (owner_of h)"
      unfolding pool_of_Some [OF inv] using find_SomeD [OF other(1)] by auto
    ultimately show ?thesis using inv other(2) by simp
  qed
  then show "pool_inv d1" "\<And>r. fresh_port_id r d \<Longrightarrow> r \<noteq> a \<Longrightarrow> fresh_port_id r d1"
    "\<exists>w. pool_of d1 taken = Some w \<and> w \<noteq> (sid, key)"
    "\<And>q w. pool_of d q = Some w \<Longrightarrow> w \<noteq> (sid, key) \<Longrightarrow> pool_of d1 q = Some w"
    by blast+
qed

text \<open>When the cluster refuses a server's node port, the port drawn in its place is another
  one and is the server's, the refused one stays in the pool under another owner so that no
  later draw hands it out, and every other entry keeps its owner.\<close>

theorem SetAsideNodePort_ok:
  assumes "SetAsideNodePort rnd a n sid key taken lo hi d = Inr (p, d')"
    and "pool_inv d" "sid \<noteq> 0" "fresh_port_id a d" "fresh_port_id n d" "n \<noteq> a"
  shows "pool_inv d' \<and> p \<noteq> taken \<and> pool_of d' p = Some (sid, key)
    \<and> (\<exists>w. pool_of d' taken = Some w \<and> w \<noteq> (sid, key))
    \<and> (\<forall>q w. pool_of d q = Some w \<and> w \<noteq> (sid, key) \<longrightarrow> pool_of d' q = Some w)"
proof -
  obtain d1 where d1: "d1 = (case find (\<lambda>a. al_node_port a = taken) (ports d) of
             None \<Rightarrow> d\<lparr>ports := ports d @
               [\<lparr>al_id = a, al_node_port = taken, al_server_id = 0, al_port_name = TakenNodePort\<rparr>]\<rparr>
           | Some held \<Rightarrow>
               if al_server_id held = sid \<and> al_port_name held = key
               then d\<lparr>ports := update_where (\<lambda>a. al_id a = al_id held)
                      (\<lambda>a. a\<lparr>al_server_id := 0, al_port_name := TakenNodePort\<rparr>) (ports d)\<rparr>
               else d)" by blast
  with assms(1) have draw: "allocateNodePort rnd n sid key lo hi d1 = Inr (p, d')"
    unfolding SetAsideNodePort_def Let_def by simp
  note first = set_aside_first [OF assms(2,4,3) d1]
  have fresh: "fresh_port_id n d1" using first(2) assms(5,6) .
  from draw_pool_of [OF first(1) draw] have pool: "pool_of d' = (pool_of d1)(p \<mapsto> (sid, key))"
    and p: "pool_of d1 p = None \<or> pool_of d1 p = Some (sid, key)" by auto
  from first(3) obtain w where w: "pool_of d1 taken = Some w" "w \<noteq> (sid, key)" by blast
  have "p \<noteq> taken" using p w by auto
  moreover have "pool_of d' q = Some v" if "pool_of d q = Some v" "v \<noteq> (sid, key)" for q v
    using first(4) [OF that] p that(2) pool by auto
  ultimately show ?thesis
    using draw_pool_inv [OF first(1) fresh assms(3) draw] w pool by auto
qed

definition one_port_db :: db where
  "one_port_db = \<lparr>servers = [], backups = [],
     ports = [\<lparr>al_id = 1, al_node_port = 30000, al_server_id = 5, al_port_name = ''p80''\<rparr>],
     schedules = [], users = [], sessions = [], accesses = [], invites = [], resets = [],
     confirmations = [], api_keys = [], ssh_keys = [], uploads = [], cursors = [],
     rate_counters = [], events = [], audits = [], admin_roles = []\<rparr>"

theorem allocateNodePort_exhausted_witness:
  "AllocateNodePort (\<lambda>_. 0) 2 6 ''p80'' 30000 30000 one_port_db = Inl ErrNoFreeNodePort"
proof -
  have "pool_lo 30000 \<le> pool_hi 30000" "\<forall>a \<in> set (ports one_port_db). owner_of a \<noteq> (6, ''p80'')"
    "{pool_lo 30000..pool_hi 30000} \<subseteq> al_node_port ` set (ports one_port_db)"
    by (simp_all add: pool_lo_def pool_hi_def one_port_db_def owner_of_def)
  then show ?thesis
    using allocateNodePort_exhausted [of "\<lambda>_. 0" 2 6 "''p80''" 30000 30000 one_port_db] by blast
qed

theorem SetAsideNodePort_ok_witness:
  "\<exists>d'. pool_inv d' \<and> pool_of d' 30001 = Some (5, ''p80'')
     \<and> (\<exists>w. pool_of d' 30000 = Some w \<and> w \<noteq> (5, ''p80''))"
proof -
  let ?r = "SetAsideNodePort (\<lambda>_. 0) 2 3 5 ''p80'' 30000 30000 30001 one_port_db"
  have run: "case ?r of Inl _ \<Rightarrow> False | Inr (p, d') \<Rightarrow> p = 30001" by code_simp
  then obtain d' where r: "?r = Inr (30001, d')" by (auto split: sum.splits)
  have "pool_inv one_port_db" "fresh_port_id 2 one_port_db" "fresh_port_id 3 one_port_db"
    by code_simp+
  from SetAsideNodePort_ok [OF r this(1) _ this(2,3)] show ?thesis by auto
qed

text \<open>The loop that applies a Service draws other ports at most five times, so it ends after
  one to six applies; it reports success only for an apply that succeeded, and gives up on a
  refusal only when it names no taken port of the Service or the five moves are used up.\<close>

theorem applyNodePortService_bound:
  assumes "applyNodePortService build app move s = (res, s', n)"
  shows "1 \<le> n \<and> n \<le> Suc maxNodePortMoves
    \<and> (res = Applied \<longrightarrow> app (n - 1) s' (build s') = None)
    \<and> (\<forall>e. res = Refused e \<longrightarrow> app (n - 1) s' (build s') = Some e
         \<and> (takenNodePorts (Some e) (build s') = [] \<or> n = Suc maxNodePortMoves))"
proof -
  have "m \<le> maxNodePortMoves \<Longrightarrow> applyLoop build app move m s = (res, s', n) \<Longrightarrow>
    m < n \<and> n \<le> Suc maxNodePortMoves
    \<and> (res = Applied \<longrightarrow> app (n - 1) s' (build s') = None)
    \<and> (\<forall>e. res = Refused e \<longrightarrow> app (n - 1) s' (build s') = Some e
         \<and> (takenNodePorts (Some e) (build s') = [] \<or> n = Suc maxNodePortMoves))" for m
  proof (induction build app move m s rule: applyLoop.induct)
    case (1 build app move m s)
    show ?case
    proof (cases "takenNodePorts (app m s (build s)) (build s) = [] \<or> m \<ge> maxNodePortMoves")
      case True
      with 1(2,3) show ?thesis
        by (subst (asm) applyLoop.simps) (auto simp: Let_def split: option.splits)
    next
      case False
      with 1(3) show ?thesis
      proof (cases "move_all move (takenNodePorts (app m s (build s)) (build s)) s")
        case (Inl e)
        with False 1(3) show ?thesis
          by (cases e, subst (asm) applyLoop.simps) (auto simp: Let_def)
      next
        case (Inr s1)
        with False 1(3) have "applyLoop build app move (Suc m) s1 = (res, s', n)"
          by (subst (asm) applyLoop.simps) (auto simp: Let_def)
        from 1(1) [OF refl refl refl False Inr _ this] False show ?thesis by simp
      qed
    qed
  qed
  from this [of 0] assms show ?thesis by (simp add: applyNodePortService_def)
qed

theorem applyNodePortService_bound_witness:
  "\<exists>n. applyNodePortService (\<lambda>s. [s]) (\<lambda>m s svc. if s = 30003 then None
       else Some (Some [(''spec.ports[0].nodePort'', ''provided port is already allocated'')]))
     (\<lambda>p s. Inr (s + 1) :: (unit \<times> int) + int) 30000 = (Applied, 30003, n) \<and> n \<le> 6"
proof -
  have "applyNodePortService (\<lambda>s. [s]) (\<lambda>m s svc. if s = 30003 then None
       else Some (Some [(''spec.ports[0].nodePort'', ''provided port is already allocated'')]))
     (\<lambda>p s. Inr (s + 1) :: (unit \<times> int) + int) 30000 = (Applied, 30003, 4)"
    by code_simp
  from applyNodePortService_bound [OF this] this show ?thesis by (auto simp: maxNodePortMoves_def)
qed

end
