(* ===== verification/Server_Ports.thy ===== *)
theory Server_Ports imports Node_Ports begin

text \<open>
  A server's ports as the API takes them (\<open>internal/api/handlers.go\<close>): what it accepts
  and how it fills in names and the primary (\<open>sanitizePorts\<close>), what of a server's exposure
  needs an administrator (\<open>authorizeExpose\<close>), and how a server's ports get their node ports
  from the pool (\<open>allocateNodePorts\<close>).
\<close>

subsection \<open>Accepting a port list\<close>

datatype port_error =
    InvalidPort int32 | InvalidProtocol string | DuplicatePort string
  | DuplicateNameOnPort string int32 | DuplicateName string | NameTooLong string | NameForm string | NameLetter string
  | TwoPrimaries

definition upper_ascii :: "char \<Rightarrow> char" where
  "upper_ascii c = (if 97 \<le> byte c \<and> byte c \<le> 122 then of_byte (byte c - 32) else c)"

definition ToUpper :: "string \<Rightarrow> string" where
  \<comment> \<open>\<open>strings.ToUpper\<close> as compared with TCP and UDP: no rune outside ASCII has one of
    their letters as its upper case\<close>
  "ToUpper s = map upper_ascii s"

definition lower_or_digit :: "char \<Rightarrow> bool" where
  "lower_or_digit c = ((97 \<le> byte c \<and> byte c \<le> 122) \<or> is_digit c)"

definition portNameRe :: "string \<Rightarrow> bool" where
  \<comment> \<open>\<open>^[a-z0-9]([-a-z0-9]*[a-z0-9])?$\<close>\<close>
  "portNameRe s = (s \<noteq> [] \<and> lower_or_digit (hd s) \<and> lower_or_digit (last s)
     \<and> list_all (\<lambda>c. lower_or_digit c \<or> c = CHR ''-'') s)"

definition validatePortName :: "string \<Rightarrow> port_error option" where
  "validatePortName name =
     (if length name > 15 then Some (NameTooLong name)
      else if \<not> portNameRe name then Some (NameForm name)
      else if \<not> list_ex (\<lambda>c. 97 \<le> byte c \<and> byte c \<le> 122) name then Some (NameLetter name)
      else None)"

record ports_acc =
  pa_out :: "PortSpec list"
  pa_primaries :: nat
  pa_seen :: "string list"
  pa_seenName :: "(string \<times> int32) list"

definition protocol_of :: "string \<Rightarrow> string" where
  "protocol_of p = (let proto = ToUpper (TrimSpace p) in if proto = [] then ''TCP'' else proto)"

definition port_key :: "int32 \<Rightarrow> string \<Rightarrow> string" where
  \<comment> \<open>\<open>fmt.Sprintf("%d/%s", p.Port, proto)\<close>\<close>
  "port_key n proto = show_int n @ ''/'' @ proto"

definition name_of :: "nat \<Rightarrow> PortSpec \<Rightarrow> string \<Rightarrow> string" where
  "name_of portCount p proto =
     (let name = TrimSpace (ps_name p)
      in if name \<noteq> [] then name
         else if portCount > 1 then ''p'' @ show_int (ps_port p) @ ''-'' @ ToLower proto
         else ''p'' @ show_int (ps_port p))"

definition sanitize_one :: "(int32 \<Rightarrow> nat) \<Rightarrow> PortSpec \<Rightarrow> ports_acc \<Rightarrow> port_error + ports_acc" where
  \<comment> \<open>the body of the loop\<close>
  "sanitize_one portCount p st =
     (if ps_port p < 1 \<or> ps_port p > 65535 then Inl (InvalidPort (ps_port p))
      else
        (let proto = protocol_of (ps_protocol p); key = port_key (ps_port p) proto
         in if proto \<noteq> ''TCP'' \<and> proto \<noteq> ''UDP'' then Inl (InvalidProtocol (ps_protocol p))
            else if key \<in> set (pa_seen st) then Inl (DuplicatePort key)
            else
              (let name = name_of (portCount (ps_port p)) p proto
               in case validatePortName name of
                    Some e \<Rightarrow> Inl e
                  | None \<Rightarrow>
                      (case map_of (pa_seenName st) name of
                         Some other \<Rightarrow> Inl (if other = ps_port p then DuplicateNameOnPort name other
                                              else DuplicateName name)
                       | None \<Rightarrow> Inr (st\<lparr>
                           pa_seen := key # pa_seen st,
                           pa_seenName := (name, ps_port p) # pa_seenName st,
                           pa_primaries := pa_primaries st + (if ps_primary p then 1 else 0),
                           pa_out := pa_out st @ [\<lparr>ps_name = name, ps_port = ps_port p,
                             ps_protocol = proto, ps_primary = ps_primary p, ps_nodePort = 0\<rparr>]\<rparr>)))))"

fun sanitize_loop :: "(int32 \<Rightarrow> nat) \<Rightarrow> PortSpec list \<Rightarrow> ports_acc \<Rightarrow> port_error + ports_acc" where
  "sanitize_loop cnt [] st = Inr st"
| "sanitize_loop cnt (p # ps) st =
     (case sanitize_one cnt p st of Inl e \<Rightarrow> Inl e | Inr st' \<Rightarrow> sanitize_loop cnt ps st')"

definition sanitizePorts :: "PortSpec list \<Rightarrow> port_error + PortSpec list" where
  "sanitizePorts inp =
     (case sanitize_loop (\<lambda>n. length (filter (\<lambda>p. ps_port p = n) inp)) inp
             \<lparr>pa_out = [], pa_primaries = 0, pa_seen = [], pa_seenName = []\<rparr> of
        Inl e \<Rightarrow> Inl e
      | Inr st \<Rightarrow>
          if pa_primaries st > 1 then Inl TwoPrimaries
          else (case pa_out st of
                  [] \<Rightarrow> Inr []
                | p # ps \<Rightarrow> if pa_primaries st = 0 then Inr (p\<lparr>ps_primary := True\<rparr> # ps)
                            else Inr (p # ps)))"

subsection \<open>What of an exposure needs an administrator\<close>

definition map_len :: "('a \<rightharpoonup> 'b) \<Rightarrow> nat" where
  \<comment> \<open>\<open>len(m)\<close>\<close>
  "map_len m = card (dom m)"

definition sameAnnotations :: "env_map \<Rightarrow> env_map \<Rightarrow> bool" where
  "sameAnnotations a b = (map_len a = map_len b \<and> (\<forall>k \<in> dom a. b k = a k))"

definition empty_public :: "PublicAddress option \<Rightarrow> bool" where
  "empty_public p = (case p of None \<Rightarrow> True | Some p \<Rightarrow> pa_host p = [] \<and> map_len (pa_ports p) = 0)"

definition samePublicAddress :: "PublicAddress option \<Rightarrow> PublicAddress option \<Rightarrow> bool" where
  "samePublicAddress a b =
     (if empty_public a \<or> empty_public b then empty_public a \<and> empty_public b
      else pa_host (the a) = pa_host (the b)
        \<and> map_len (pa_ports (the a)) = map_len (pa_ports (the b))
        \<and> (\<forall>k \<in> dom (pa_ports (the a)). pa_ports (the b) k = pa_ports (the a) k))"

datatype expose_error = LoadBalancerNotAllowed | AnnotationsNotAllowed | PublicNotAllowed

definition authorizeExpose :: "User option \<Rightarrow> Expose \<Rightarrow> Expose \<Rightarrow> expose_error + Expose" where
  "authorizeExpose u e prev =
     (if HasAdminPerm u AdminPermServers then Inr e
      else if ServiceType e = ExposeLoadBalancer \<and> ServiceType prev \<noteq> ExposeLoadBalancer
      then Inl LoadBalancerNotAllowed
      else if map_len (ex_annotations e) > 0 \<and> \<not> sameAnnotations (ex_annotations e) (ex_annotations prev)
      then Inl AnnotationsNotAllowed
      else if \<not> samePublicAddress (ex_public e) (ex_public prev) then Inl PublicNotAllowed
      else Inr (e\<lparr>ex_annotations := ex_annotations prev, ex_public := ex_public prev\<rparr>))"

text \<open>
  A patch of the exposure. \<open>None\<close> for the annotations is a request that leaves them out.
\<close>

record ExposePatch =
  xp_type :: ExposeType
  xp_annotations :: "env_map option"
  xp_preserveClientIP :: "bool option"
  xp_public :: "PublicAddress option"

definition patchExpose :: "Expose \<Rightarrow> ExposePatch \<Rightarrow> Expose" where
  "patchExpose cur req =
     \<lparr>ex_type = (if xp_type req \<noteq> ExposeUnset then xp_type req else ex_type cur),
      ex_annotations = (case xp_annotations req of Some a \<Rightarrow> a | None \<Rightarrow> ex_annotations cur),
      ex_preserveClientIP = (case xp_preserveClientIP req of Some b \<Rightarrow> Some b
                             | None \<Rightarrow> ex_preserveClientIP cur),
      ex_public = (case xp_public req of
                     Some p \<Rightarrow> if pa_host p = [] \<and> map_len (pa_ports p) = 0 then None else Some p
                   | None \<Rightarrow> ex_public cur)\<rparr>"

subsection \<open>Node ports for a port list\<close>

definition portAllocKey :: "PortSpec \<Rightarrow> string" where
  "portAllocKey p = NodePortKey (ps_port p)"

text \<open>
  The loop over the store's pool, \<open>alloc n\<close> being a draw whose new row gets key \<open>n\<close>.
\<close>

fun allocate_ports ::
  "(row_id \<Rightarrow> row_id \<Rightarrow> string \<Rightarrow> 'd \<Rightarrow> 'e + int32 \<times> 'd) \<Rightarrow> (row_id \<Rightarrow> string \<Rightarrow> string \<Rightarrow> 'd \<Rightarrow> 'd)
   \<Rightarrow> row_id \<Rightarrow> row_id list \<Rightarrow> PortSpec list \<Rightarrow> 'd \<Rightarrow> ('e \<times> 'd) + PortSpec list \<times> 'd" where
  "allocate_ports alloc rename serverID ns [] d = Inr ([], d)"
| "allocate_ports alloc rename serverID ns (p # ps) d =
     (let key = portAllocKey p; name = ps_name p;
          d1 = (if name \<noteq> [] \<and> name \<noteq> key then rename serverID name key d else d)
      in case alloc (hd ns) serverID key d1 of
           Inl e \<Rightarrow> Inl (e, d1)
         | Inr (np, d2) \<Rightarrow>
             (case allocate_ports alloc rename serverID (tl ns) ps d2 of
                Inl e \<Rightarrow> Inl e
              | Inr (out, d3) \<Rightarrow> Inr (p\<lparr>ps_nodePort := np\<rparr> # out, d3)))"

definition allocateNodePorts ::
  "(row_id \<Rightarrow> nat \<Rightarrow> nat) \<Rightarrow> int32 \<Rightarrow> int32 \<Rightarrow> row_id \<Rightarrow> row_id list \<Rightarrow> PortSpec list \<Rightarrow> db
   \<Rightarrow> (store_error \<times> db) + PortSpec list \<times> db" where
  "allocateNodePorts rnd nodePortMin nodePortMax serverID ns prts d =
     allocate_ports (\<lambda>n i k. AllocateNodePort (rnd n) n i k nodePortMin nodePortMax) RenameNodePort
       serverID ns prts d"

definition nodePortStatus :: "store_error \<Rightarrow> nat" where
  "nodePortStatus e = (if e = ErrNoFreeNodePort then 409 else 500)"

definition clearNodePorts :: "PortSpec list \<Rightarrow> PortSpec list" where
  "clearNodePorts prts = map (\<lambda>p. p\<lparr>ps_nodePort := 0\<rparr>) prts"

definition releaseDroppedPorts :: "row_id \<Rightarrow> PortSpec list \<Rightarrow> PortSpec list \<Rightarrow> db \<Rightarrow> db" where
  \<comment> \<open>the part of \<open>handleUpdateServer\<close> that frees the node ports of ports that are gone\<close>
  "releaseDroppedPorts serverID old newPorts d =
     fold (\<lambda>p d. if portAllocKey p \<notin> portAllocKey ` set newPorts
                 then ReleaseNodePort serverID (portAllocKey p) d else d) old d"

subsection \<open>Accepted port lists\<close>

definition port_ok :: "PortSpec \<Rightarrow> bool" where
  "port_ok p = (1 \<le> ps_port p \<and> ps_port p \<le> 65535 \<and> ps_protocol p \<in> {''TCP'', ''UDP''}
     \<and> validatePortName (ps_name p) = None)"

definition ports_wf :: "PortSpec list \<Rightarrow> bool" where
  "ports_wf prts = (list_all port_ok prts \<and> distinct (map (\<lambda>p. (ps_port p, ps_protocol p)) prts)
     \<and> distinct (map ps_name prts))"

lemma port_key_inject:
  assumes "proto \<in> {''TCP'', ''UDP''}" "proto' \<in> {''TCP'', ''UDP''}"
  shows "port_key n proto = port_key m proto' \<longleftrightarrow> n = m \<and> proto = proto'"
  using assms by (auto simp: port_key_def)

definition acc_inv :: "ports_acc \<Rightarrow> bool" where
  "acc_inv st =
     (ports_wf (pa_out st)
      \<and> set (pa_seen st) = (\<lambda>p. port_key (ps_port p) (ps_protocol p)) ` set (pa_out st)
      \<and> fst ` set (pa_seenName st) = ps_name ` set (pa_out st)
      \<and> pa_primaries st = length (filter ps_primary (pa_out st))
      \<and> (\<forall>p \<in> set (pa_out st). ps_nodePort p = 0))"

lemma sanitize_one_Inr:
  assumes "sanitize_one cnt p st = Inr st'"
  obtains q where "port_ok q" "ps_port q = ps_port p" "ps_primary q = ps_primary p" "ps_nodePort q = 0"
    "port_key (ps_port q) (ps_protocol q) \<notin> set (pa_seen st)" "ps_name q \<notin> fst ` set (pa_seenName st)"
    "pa_out st' = pa_out st @ [q]" "pa_seen st' = port_key (ps_port q) (ps_protocol q) # pa_seen st"
    "pa_seenName st' = (ps_name q, ps_port q) # pa_seenName st"
    "pa_primaries st' = pa_primaries st + (if ps_primary q then 1 else 0)"
proof -
  define proto where "proto = protocol_of (ps_protocol p)"
  define name where "name = name_of (cnt (ps_port p)) p proto"
  define q where "q = \<lparr>ps_name = name, ps_port = ps_port p, ps_protocol = proto,
    ps_primary = ps_primary p, ps_nodePort = 0\<rparr>"
  show ?thesis
    using assms
    by (intro that [of q])
      (auto simp: sanitize_one_def Let_def port_ok_def q_def map_of_eq_None_iff
        simp flip: proto_def name_def split: if_splits option.splits)
qed

lemma sanitize_one_inv:
  assumes "acc_inv st" "sanitize_one cnt p st = Inr st'"
  shows "acc_inv st' \<and> (\<exists>q. pa_out st' = pa_out st @ [q] \<and> ps_port q = ps_port p \<and> ps_primary q = ps_primary p)"
  using assms(2)
proof (cases rule: sanitize_one_Inr)
  case (1 q)
  have new: "(ps_port q, ps_protocol q) \<notin> (\<lambda>p. (ps_port p, ps_protocol p)) ` set (pa_out st)"
  proof
    assume "(ps_port q, ps_protocol q) \<in> (\<lambda>p. (ps_port p, ps_protocol p)) ` set (pa_out st)"
    then have "port_key (ps_port q) (ps_protocol q) \<in> set (pa_seen st)"
      using assms(1) by (auto simp: acc_inv_def)
    with 1(5) show False ..
  qed
  have "ps_name q \<notin> ps_name ` set (pa_out st)" using 1(6) assms(1) by (simp add: acc_inv_def)
  with new 1 assms(1) show ?thesis by (simp add: acc_inv_def ports_wf_def)
qed

lemma sanitize_loop_inv:
  assumes "acc_inv st" "sanitize_loop cnt ps st = Inr st'"
  shows "acc_inv st' \<and> (\<exists>qs. pa_out st' = pa_out st @ qs \<and> map ps_port qs = map ps_port ps
    \<and> map ps_primary qs = map ps_primary ps)"
  using assms
proof (induction ps arbitrary: st)
  case (Cons p ps)
  then obtain st1 where one: "sanitize_one cnt p st = Inr st1" and rest: "sanitize_loop cnt ps st1 = Inr st'"
    by (auto split: sum.splits)
  from sanitize_one_inv [OF Cons.prems(1) one] Cons.IH [OF _ rest] show ?case by fastforce
qed simp

lemma le_one_length: "length xs \<le> Suc 0 \<Longrightarrow> xs \<noteq> [] \<Longrightarrow> length xs = Suc 0"
  by (cases xs) auto

text \<open>what \<open>sanitizePorts\<close> accepts is a port list Kubernetes and the pool can use: every
  number in 1-65535, every protocol TCP or UDP, every name valid, no two entries with the same
  number and protocol or with the same name, exactly one primary, no node port taken from the
  request, and the entries are the request's in their order.\<close>

theorem sanitizePorts_wf:
  assumes "sanitizePorts inp = Inr out"
  shows "ports_wf out \<and> map ps_port out = map ps_port inp
    \<and> (inp \<noteq> [] \<longrightarrow> length (filter ps_primary out) = 1) \<and> (\<forall>p \<in> set out. ps_nodePort p = 0)"
proof -
  define cnt where "cnt = (\<lambda>n. length (filter (\<lambda>p. ps_port p = n) inp))"
  define st0 where "st0 = \<lparr>pa_out = [], pa_primaries = 0, pa_seen = [], pa_seenName = []\<rparr>"
  obtain st where st: "sanitize_loop cnt inp st0 = Inr st" and le: "pa_primaries st \<le> 1"
    using assms by (auto simp: sanitizePorts_def simp flip: cnt_def st0_def split: sum.splits if_splits)
  have inv0: "acc_inv st0" by (simp add: acc_inv_def st0_def ports_wf_def)
  have inv: "acc_inv st" and ports: "map ps_port (pa_out st) = map ps_port inp"
    using sanitize_loop_inv [OF inv0 st] by (auto simp: st0_def)
  have out: "out = (case pa_out st of [] \<Rightarrow> [] | p # ps \<Rightarrow>
      if pa_primaries st = 0 then p\<lparr>ps_primary := True\<rparr> # ps else p # ps)"
    using assms st le by (auto simp: sanitizePorts_def simp flip: cnt_def st0_def split: list.splits)
  show ?thesis
  proof (cases "pa_out st")
    case Nil
    with out inv ports show ?thesis by (simp add: acc_inv_def)
  next
    case (Cons p ps)
    with out inv le ports show ?thesis
      by (auto simp: acc_inv_def ports_wf_def port_ok_def intro!: le_one_length)
  qed
qed

theorem sanitizePorts_wf_witness:
  "ports_wf [\<lparr>ps_name = ''p25565'', ps_port = 25565, ps_protocol = ''TCP'', ps_primary = True, ps_nodePort = 0\<rparr>]"
proof -
  have "sanitizePorts [\<lparr>ps_name = [], ps_port = 25565, ps_protocol = ''tcp'', ps_primary = False, ps_nodePort = 31000\<rparr>]
    = Inr [\<lparr>ps_name = ''p25565'', ps_port = 25565, ps_protocol = ''TCP'', ps_primary = True, ps_nodePort = 0\<rparr>]"
    by code_simp
  from sanitizePorts_wf [OF this] show ?thesis by simp
qed

subsection \<open>The node ports of a port list\<close>

lemma portAllocKey_eq [simp]: "portAllocKey p = portAllocKey q \<longleftrightarrow> ps_port p = ps_port q"
  by (simp add: portAllocKey_def NodePortKey_def)

lemma portAllocKey_nodePort [simp]: "portAllocKey (p\<lparr>ps_nodePort := x\<rparr>) = portAllocKey p"
  by (simp add: portAllocKey_def)

definition names_apart :: "PortSpec list \<Rightarrow> bool" where
  \<comment> \<open>no entry is named as the pool key of an entry with another number\<close>
  "names_apart prts = (\<forall>p \<in> set prts. \<forall>q \<in> set prts. ps_name p = portAllocKey q \<longrightarrow> ps_port p = ps_port q)"

context port_pool begin

lemma rename_keeps:
  assumes "invar d" "i \<noteq> 0" "alpha d p = Some w" "w \<noteq> (i, a)"
  shows "alpha (rename i a b d) p = Some w"
  using rename_alpha [OF assms(1,2), of a b p] assms(3,4) by auto

lemma allocate_ports_step:
  assumes "invar d" "fresh n d" "i \<noteq> 0"
    and d1: "d1 = (if ps_name p \<noteq> [] \<and> ps_name p \<noteq> portAllocKey p then rename i (ps_name p) (portAllocKey p) d else d)"
    and "draw n i (portAllocKey p) d1 = Inr (np, d2)"
  shows "invar d2" "alpha d2 np = Some (i, portAllocKey p)"
    "\<And>x w. alpha d x = Some w \<Longrightarrow> w \<noteq> (i, ps_name p) \<or> ps_name p = portAllocKey p \<Longrightarrow> alpha d2 x = Some w"
    "\<And>r. fresh r d \<Longrightarrow> r \<noteq> n \<Longrightarrow> fresh r d2"
proof -
  have inv1: "invar d1" and fresh1: "\<And>r. fresh r d \<Longrightarrow> fresh r d1"
    using assms(1,3) d1 rename_invar rename_fresh by simp_all
  note draw = inv1 fresh1 [OF assms(2)] assms(3,5)
  show "invar d2" using draw_invar [OF draw] .
  show "alpha d2 np = Some (i, portAllocKey p)" using draw_alpha [OF draw] by simp
  show "fresh r d2" if "fresh r d" "r \<noteq> n" for r using draw_fresh [OF assms(5) fresh1] that by blast
  show "alpha d2 x = Some w" if "alpha d x = Some w" "w \<noteq> (i, ps_name p) \<or> ps_name p = portAllocKey p" for x w
  proof -
    have "alpha d1 x = Some w" using that rename_keeps [OF assms(1,3) that(1)] d1 by auto
    then show ?thesis using draw_keeps [OF draw] by blast
  qed
qed

lemma allocate_ports_ok:
  assumes "allocate_ports draw rename i ns ps d = Inr (out, d')"
    and "invar d" "i \<noteq> 0" "length ns = length ps" "distinct ns" "\<forall>n \<in> set ns. fresh n d"
    and "\<forall>p \<in> set ps. \<forall>q \<in> set (prev @ ps). ps_name p = portAllocKey q \<longrightarrow> ps_port p = ps_port q"
    and "\<forall>q \<in> set prev. alpha d (ps_nodePort q) = Some (i, portAllocKey q)"
  shows "invar d' \<and> clearNodePorts out = clearNodePorts ps
    \<and> (\<forall>q \<in> set (prev @ out). alpha d' (ps_nodePort q) = Some (i, portAllocKey q))
    \<and> (\<forall>x j k. alpha d x = Some (j, k) \<and> j \<noteq> i \<longrightarrow> alpha d' x = Some (j, k))"
  using assms
proof (induction ps arbitrary: ns d out prev)
  case (Cons p ps)
  define d1 where "d1 = (if ps_name p \<noteq> [] \<and> ps_name p \<noteq> portAllocKey p
    then rename i (ps_name p) (portAllocKey p) d else d)"
  obtain n ns1 where ns: "ns = n # ns1" using Cons.prems(4) by (cases ns) auto
  obtain np d2 out1 where draw: "draw n i (portAllocKey p) d1 = Inr (np, d2)"
    and rest: "allocate_ports draw rename i ns1 ps d2 = Inr (out1, d')"
    and out: "out = p\<lparr>ps_nodePort := np\<rparr> # out1"
    using Cons.prems(1) by (auto simp: ns Let_def simp flip: d1_def split: sum.splits)
  have fresh: "fresh n d" using Cons.prems(6) ns by simp
  note step = allocate_ports_step [OF Cons.prems(2) fresh Cons.prems(3) d1_def draw]
  define prev1 where "prev1 = prev @ [p\<lparr>ps_nodePort := np\<rparr>]"
  have held: "\<forall>q \<in> set prev1. alpha d2 (ps_nodePort q) = Some (i, portAllocKey q)"
  proof
    fix q assume "q \<in> set prev1"
    then consider "q \<in> set prev" | "q = p\<lparr>ps_nodePort := np\<rparr>" by (auto simp: prev1_def)
    then show "alpha d2 (ps_nodePort q) = Some (i, portAllocKey q)"
    proof cases
      case 1
      then have "ps_name p = portAllocKey q \<longrightarrow> ps_name p = portAllocKey p"
        using Cons.prems(7) by (auto simp: portAllocKey_def)
      with step(3) Cons.prems(8) 1 show ?thesis by (metis prod.inject)
    qed (simp add: step(2))
  qed
  have apart: "\<forall>p' \<in> set ps. \<forall>q \<in> set (prev1 @ ps). ps_name p' = portAllocKey q \<longrightarrow> ps_port p' = ps_port q"
    using Cons.prems(7) by (auto simp: prev1_def portAllocKey_def)
  have fresh1: "\<forall>m \<in> set ns1. fresh m d2" using Cons.prems(5,6) step(4) by (auto simp: ns)
  from Cons.IH [OF rest step(1) Cons.prems(3) _ _ fresh1 apart held] Cons.prems(4,5)
  have ih: "invar d' \<and> clearNodePorts out1 = clearNodePorts ps
    \<and> (\<forall>q \<in> set (prev1 @ out1). alpha d' (ps_nodePort q) = Some (i, portAllocKey q))
    \<and> (\<forall>x j k. alpha d2 x = Some (j, k) \<and> j \<noteq> i \<longrightarrow> alpha d' x = Some (j, k))"
    by (simp add: ns)
  have "alpha d' x = Some (j, k)" if "alpha d x = Some (j, k)" "j \<noteq> i" for x j k
    using ih step(3) [OF that(1)] that(2) by simp
  with ih show ?case by (simp add: out prev1_def clearNodePorts_def)
qed (simp add: clearNodePorts_def)

end

text \<open>C18: when no entry is named as another number's pool key, a list that gets its node ports
  gets one pool entry per number: entries with the same number share a node port, entries with
  different numbers never do, the node ports are recorded in the pool as the server's, the list
  is otherwise unchanged, and no other server loses a port.\<close>

theorem allocateNodePorts_ok:
  assumes "allocateNodePorts rnd lo hi i ns prts d = Inr (out, d')"
    and "pool_inv d" "i \<noteq> 0" "length ns = length prts" "distinct ns"
    and "\<forall>n \<in> set ns. fresh_port_id n d" "names_apart prts"
  shows "pool_inv d' \<and> clearNodePorts out = clearNodePorts prts
    \<and> (\<forall>p \<in> set out. pool_of d' (ps_nodePort p) = Some (i, portAllocKey p))
    \<and> (\<forall>p \<in> set out. \<forall>q \<in> set out. ps_nodePort p = ps_nodePort q \<longleftrightarrow> ps_port p = ps_port q)
    \<and> (\<forall>x j k. pool_of d x = Some (j, k) \<and> j \<noteq> i \<longrightarrow> pool_of d' x = Some (j, k))"
proof -
  from np.allocate_ports_ok [where rnd = rnd and lo = lo and hi = hi and prev = "[]",
      OF assms(1) [unfolded allocateNodePorts_def] assms(2-6)] assms(7)
  have ok: "pool_inv d' \<and> clearNodePorts out = clearNodePorts prts
    \<and> (\<forall>p \<in> set out. pool_of d' (ps_nodePort p) = Some (i, portAllocKey p))
    \<and> (\<forall>x j k. pool_of d x = Some (j, k) \<and> j \<noteq> i \<longrightarrow> pool_of d' x = Some (j, k))"
    by (simp add: names_apart_def)
  have "ps_nodePort p = ps_nodePort q \<longleftrightarrow> ps_port p = ps_port q" if "p \<in> set out" "q \<in> set out" for p q
  proof -
    have hp: "pool_of d' (ps_nodePort p) = Some (i, portAllocKey p)"
      and hq: "pool_of d' (ps_nodePort q) = Some (i, portAllocKey q)" using ok that by blast+
    show ?thesis
    proof
      assume "ps_nodePort p = ps_nodePort q"
      with hp hq have "portAllocKey p = portAllocKey q" by (simp del: portAllocKey_eq)
      then show "ps_port p = ps_port q" by simp
    next
      assume "ps_port p = ps_port q"
      then have "portAllocKey p = portAllocKey q" by simp
      with hp hq ok show "ps_nodePort p = ps_nodePort q" by (metis assms(3) np.owner_inj)
    qed
  qed
  with ok show ?thesis by blast
qed

definition demo_db :: db where
  "demo_db = \<lparr>servers = [], backups = [],
     ports = [\<lparr>al_id = 1, al_node_port = 30001, al_server_id = 7, al_port_name = ''sftp''\<rparr>],
     schedules = [], users = [], sessions = [], accesses = [], invites = [], resets = [],
     confirmations = [], api_keys = [], ssh_keys = [], uploads = [], cursors = [],
     rate_counters = [], events = [], audits = [], admin_roles = []\<rparr>"

definition tcp_port :: "string \<Rightarrow> int32 \<Rightarrow> PortSpec" where
  "tcp_port name n = \<lparr>ps_name = name, ps_port = n, ps_protocol = ''TCP'', ps_primary = False, ps_nodePort = 0\<rparr>"

theorem allocateNodePorts_ok_witness:
  "\<exists>d'. pool_inv d' \<and> pool_of d' 30000 = Some (5, ''p80'') \<and> pool_of d' 30002 = Some (5, ''p81'')"
proof -
  let ?r = "allocateNodePorts (\<lambda>_ _. 0) 30000 30003 5 [2, 3] [tcp_port ''a'' 80, tcp_port ''b'' 81] demo_db"
  have out: "(case ?r of Inr (out, d') \<Rightarrow> map (\<lambda>p. (ps_nodePort p, portAllocKey p)) out
      = [(30000, ''p80''), (30002, ''p81'')] | Inl _ \<Rightarrow> False)"
    by code_simp
  then obtain out d' where r: "?r = Inr (out, d')" by (auto split: sum.splits)
  have "names_apart [tcp_port ''a'' 80, tcp_port ''b'' 81]" "pool_inv demo_db"
    "\<forall>n \<in> set [2, 3]. fresh_port_id n demo_db"
    by code_simp+
  from allocateNodePorts_ok [OF r this(2) _ _ _ this(3,1)] out r
  have ok: "pool_inv d' \<and> (\<forall>p \<in> set out. pool_of d' (ps_nodePort p) = Some (5, portAllocKey p))"
    by simp
  from out r have "map (\<lambda>p. (ps_nodePort p, portAllocKey p)) out = [(30000, ''p80''), (30002, ''p81'')]"
    by simp
  with ok show ?thesis by (auto simp: map_eq_Cons_conv simp del: portAllocKey_eq)
qed

text \<open>the hypothesis on names is needed, and \<open>sanitizePorts\<close> does not give it: the
  list of port 80 named "game" and port 81 named "p80" is accepted, and both entries get the
  same node port, because the second one's name is the key the first one has just been given
  and its entry is renamed away; in the same way a port named "sftp" takes over the node
  port of the server's SFTP service.\<close>

theorem allocateNodePorts_name_confusion:
  "(case sanitizePorts [tcp_port ''game'' 80, tcp_port ''p80'' 81] of
      Inl _ \<Rightarrow> False
    | Inr prts \<Rightarrow>
        (case allocateNodePorts (\<lambda>_ _. 0) 30000 30003 7 [2, 3] prts demo_db of
           Inl _ \<Rightarrow> False
         | Inr (out, _) \<Rightarrow> map ps_port out = [80, 81] \<and> map ps_nodePort out = [30000, 30000]))
   \<and> (case sanitizePorts [tcp_port ''sftp'' 81] of
      Inl _ \<Rightarrow> False
    | Inr prts \<Rightarrow>
        (case allocateNodePorts (\<lambda>_ _. 0) 30000 30003 7 [2] prts demo_db of
           Inl _ \<Rightarrow> False
         | Inr (out, d') \<Rightarrow> pool_of demo_db 30001 = Some (7, SFTPPortName)
             \<and> map ps_nodePort out = [30001] \<and> pool_of d' 30001 = Some (7, ''p81'')))"
  by code_simp

subsection \<open>Exposure\<close>

lemma sameAnnotations_eq:
  assumes "finite (dom a)" "finite (dom b)"
  shows "sameAnnotations a b \<longleftrightarrow> a = b"
proof
  assume same: "sameAnnotations a b"
  then have sub: "dom a \<subseteq> dom b" and card: "card (dom a) = card (dom b)"
    by (auto simp: sameAnnotations_def map_len_def dom_def)
  have "dom a = dom b" using card_subset_eq [OF assms(2) sub card] .
  moreover have "b k = a k" if "k \<in> dom a" for k using same that by (simp add: sameAnnotations_def)
  ultimately have "a k = b k" for k by (cases "k \<in> dom a") (auto simp: domIff)
  then show "a = b" ..
qed (simp add: sameAnnotations_def)

text \<open>What \<open>authorizeExpose\<close> lets through from somebody who does not administer
  servers keeps the stored annotations and public address, and is a load balancer only where
  the server already was one; asking for other annotations is refused.\<close>

theorem authorizeExpose_guard:
  assumes "\<not> HasAdminPerm u AdminPermServers"
    and "finite (dom (ex_annotations e))" "finite (dom (ex_annotations prev))"
  shows "case authorizeExpose u e prev of
      Inr e' \<Rightarrow> ex_annotations e' = ex_annotations prev \<and> ex_public e' = ex_public prev
        \<and> ex_type e' = ex_type e
        \<and> (ServiceType e' = ExposeLoadBalancer \<longrightarrow> ServiceType prev = ExposeLoadBalancer)
        \<and> (ex_annotations e = Map.empty \<or> ex_annotations e = ex_annotations prev)
        \<and> samePublicAddress (ex_public e) (ex_public prev)
    | Inl _ \<Rightarrow> (ServiceType e = ExposeLoadBalancer \<and> ServiceType prev \<noteq> ExposeLoadBalancer)
        \<or> ex_annotations e \<noteq> ex_annotations prev \<or> \<not> samePublicAddress (ex_public e) (ex_public prev)"
proof -
  have len: "map_len (ex_annotations e) > 0 \<longleftrightarrow> ex_annotations e \<noteq> Map.empty"
    using assms(2) by (auto simp: map_len_def card_gt_0_iff)
  show ?thesis
    using assms(1) len sameAnnotations_eq [OF assms(2,3)]
    by (auto simp: authorizeExpose_def ServiceType_def split: sum.splits if_splits)
qed

theorem authorizeExpose_guard_witness:
  "authorizeExpose None \<lparr>ex_type = ExposeLoadBalancer, ex_annotations = Map.empty,
      ex_preserveClientIP = None, ex_public = None\<rparr>
    \<lparr>ex_type = ExposeUnset, ex_annotations = Map.empty, ex_preserveClientIP = None, ex_public = None\<rparr>
   = Inl LoadBalancerNotAllowed"
proof -
  let ?e = "\<lparr>ex_type = ExposeLoadBalancer, ex_annotations = Map.empty,
      ex_preserveClientIP = None, ex_public = None\<rparr>"
  let ?p = "\<lparr>ex_type = ExposeUnset, ex_annotations = Map.empty,
      ex_preserveClientIP = None, ex_public = None\<rparr>"
  from authorizeExpose_guard [of None ?e ?p]
  have "\<not> is_ok (authorizeExpose None ?e ?p)"
    by (cases "authorizeExpose None ?e ?p") (auto simp: HasAdminPerm_def ServiceType_def)
  then show ?thesis by (simp add: authorizeExpose_def HasAdminPerm_def ServiceType_def)
qed

end
