(* ===== verification/Fence.thy ===== *)
theory Fence imports Main begin

text \<open>
  The contracts a program relies on when a number stands for a right that must not come back.

  \<^item> \<open>high_water\<close>: a mark that no step lowers. What was at or below it stays so: a one-time code
    whose step was spent stays spent.
  \<^item> \<open>generation_fence\<close>: a worker whose lease on a job is a number. A job is live under one
    generation at a time, and a job that comes alive does so under a greater generation; a worker
    whose lease has ended never gets it back, so that whatever it still does with the old number
    is refused.
\<close>

locale high_water =
  fixes gen :: "'s \<Rightarrow> nat" and step :: "'s \<Rightarrow> 's \<Rightarrow> bool"
  assumes gen_mono: "step s s' \<Longrightarrow> gen s \<le> gen s'"
begin

lemma gen_steps: "step\<^sup>*\<^sup>* s s' \<Longrightarrow> gen s \<le> gen s'"
  by (induction rule: rtranclp_induct) (auto dest: gen_mono)

text \<open>Of two claims at the same mark, where a claim is a step that raises it, at most one succeeds.\<close>

lemma one_claim:
  assumes "gen s1 = Suc g" "step\<^sup>*\<^sup>* s1 s2"
  shows "gen s2 \<noteq> g"
  using gen_steps [OF assms(2)] assms(1) by simp

lemma spent:
  assumes "g \<le> gen s1" "step\<^sup>*\<^sup>* s1 s2"
  shows "\<not> gen s2 < g"
  using gen_steps [OF assms(2)] assms(1) by simp

end

locale generation_fence = high_water gen step for gen :: "'s \<Rightarrow> nat" and step :: "'s \<Rightarrow> 's \<Rightarrow> bool" +
  fixes live :: "'s \<Rightarrow> bool"
  assumes live_new: "step s s' \<Longrightarrow> live s' \<Longrightarrow> \<not> live s \<Longrightarrow> gen s < gen s'"
    and live_change: "step s s' \<Longrightarrow> live s' \<Longrightarrow> live s \<Longrightarrow> gen s = gen s'"
begin

text \<open>A lease that has ended has ended for good.\<close>

lemma lease_over:
  assumes "step\<^sup>*\<^sup>* s s'" "g \<le> gen s" "\<not> (live s \<and> gen s = g)"
  shows "\<not> (live s' \<and> gen s' = g)"
  using assms
proof (induction rule: rtranclp_induct)
  case (step s1 s2)
  have "g \<le> gen s1" using gen_steps [OF step.hyps(1)] step.prems(1) by simp
  with step live_new [OF step.hyps(2)] live_change [OF step.hyps(2)] gen_mono [OF step.hyps(2)]
  show ?case by fastforce
qed

end

end
