(* ===== verification/Schedules.thy ===== *)
theory Schedules imports Store_Db Fence begin

text \<open>
  Schedules in the store (\<open>internal/store/store.go\<close>, Schedules). A chain that is under way
  is the \<open>run\<close> of its row, bound to the row's generation: every writer names the generation it
  was started under, and a row whose generation has moved on refuses it. The generation, a
  uint64 in the code, is a natural number here: it grows by one per edit or firing.
\<close>

definition CreateSchedule :: "row_id \<Rightarrow> Schedule \<Rightarrow> db \<Rightarrow> db" where
  "CreateSchedule new_id sc d = d\<lparr>schedules := schedules d @ [sc\<lparr>sc_id := new_id\<rparr>]\<rparr>"

definition GetSchedule :: "row_id \<Rightarrow> db \<Rightarrow> store_error + Schedule" where
  "GetSchedule i d = (case find (\<lambda>sc. sc_id sc = i) (schedules d) of
     None \<Rightarrow> Inl ErrNotFound | Some sc \<Rightarrow> Inr sc)"

definition ListSchedulesForServer :: "row_id \<Rightarrow> db \<Rightarrow> Schedule list" where
  "ListSchedulesForServer serverID d =
     sort_key sc_id (filter (\<lambda>sc. sc_server_id sc = serverID) (schedules d))"

definition ListEnabledSchedules :: "db \<Rightarrow> Schedule list" where
  "ListEnabledSchedules d = filter sc_enabled (schedules d)"

definition UpdateSchedule :: "Schedule \<Rightarrow> db \<Rightarrow> db_result" where
  "UpdateSchedule sc d =
     (case find (\<lambda>r. sc_id r = sc_id sc) (schedules d) of
        None \<Rightarrow> Inl ErrNotFound
      | Some current \<Rightarrow>
          if sc_run current \<noteq> None \<and> TaskChain current \<noteq> TaskChain sc then Inl ErrScheduleActive
          else
            (let (run, next_run, generation) =
                   (if \<not> sc_enabled sc then (None, None, sc_generation current + 1)
                    else if sc_run current = None
                    then (sc_run current, sc_next_run sc, sc_generation current + 1)
                    else (sc_run current, sc_next_run sc, sc_generation current))
             in Inr (d\<lparr>schedules := update_where (\<lambda>r. sc_id r = sc_id sc)
                  (\<lambda>r. r\<lparr>sc_name := sc_name sc, sc_cron := sc_cron sc, sc_timezone := sc_timezone sc,
                     sc_tasks := sc_tasks sc, sc_action := sc_action sc, sc_payload := sc_payload sc,
                     sc_enabled := sc_enabled sc, sc_next_run := next_run, sc_run := run,
                     sc_generation := generation\<rparr>) (schedules d)\<rparr>)))"

definition StartScheduleRun ::
  "Schedule \<Rightarrow> ScheduleRun \<Rightarrow> time option \<Rightarrow> db \<Rightarrow> (bool \<times> ScheduleRun) \<times> db" where
  \<comment> \<open>the run the caller holds gets its generation whether or not it won\<close>
  "StartScheduleRun sc run nextRun d =
     (let run' = run\<lparr>rn_generation := sc_generation sc + 1\<rparr>;
          P = (\<lambda>r. sc_id r = sc_id sc \<and> sc_enabled r \<and> sc_generation r = sc_generation sc \<and> sc_run r = None)
      in ((rows_affected P (schedules d) = 1, run'),
          d\<lparr>schedules := update_where P (\<lambda>r. r\<lparr>sc_run := Some run',
                sc_generation := rn_generation run', sc_next_run := nextRun\<rparr>) (schedules d)\<rparr>))"

definition live_run :: "row_id \<Rightarrow> nat \<Rightarrow> Schedule \<Rightarrow> bool" where
  \<comment> \<open>\<open>id = ? AND enabled = ? AND generation = ? AND run IS NOT NULL\<close>\<close>
  "live_run i g r = (sc_id r = i \<and> sc_enabled r \<and> sc_generation r = g \<and> sc_run r \<noteq> None)"

definition ScheduleRunActive :: "row_id \<Rightarrow> nat \<Rightarrow> db \<Rightarrow> bool" where
  "ScheduleRunActive i generation d = (rows_affected (live_run i generation) (schedules d) = 1)"

definition SaveScheduleRun :: "row_id \<Rightarrow> ScheduleRun \<Rightarrow> db \<Rightarrow> bool \<times> db" where
  "SaveScheduleRun i run d =
     (rows_affected (live_run i (rn_generation run)) (schedules d) = 1,
      d\<lparr>schedules := update_where (live_run i (rn_generation run)) (sc_run_update (\<lambda>_. Some run)) (schedules d)\<rparr>)"

definition FinishScheduleRun :: "row_id \<Rightarrow> ScheduleRun \<Rightarrow> string \<Rightarrow> db \<Rightarrow> bool \<times> db" where
  "FinishScheduleRun i run status d =
     (rows_affected (live_run i (rn_generation run)) (schedules d) = 1,
      d\<lparr>schedules := update_where (live_run i (rn_generation run))
          (\<lambda>r. r\<lparr>sc_run := None, sc_last_run := Some (rn_fired run), sc_last_status := status\<rparr>) (schedules d)\<rparr>)"

definition SetScheduleNextRun :: "Schedule \<Rightarrow> time option \<Rightarrow> db \<Rightarrow> db" where
  "SetScheduleNextRun sc nextRun d =
     d\<lparr>schedules := update_where (\<lambda>r. sc_id r = sc_id sc \<and> sc_enabled r
          \<and> sc_generation r = sc_generation sc \<and> sc_run r = None)
        (sc_next_run_update (\<lambda>_. nextRun)) (schedules d)\<rparr>"

definition DeleteSchedule :: "row_id \<Rightarrow> db \<Rightarrow> db" where
  "DeleteSchedule i d = d\<lparr>schedules := delete_where (\<lambda>r. sc_id r = i) (schedules d)\<rparr>"

definition DeleteSchedulesForServer :: "row_id \<Rightarrow> db \<Rightarrow> db" where
  "DeleteSchedulesForServer serverID d =
     d\<lparr>schedules := delete_where (\<lambda>r. sc_server_id r = serverID) (schedules d)\<rparr>"

subsection \<open>The steps on schedules\<close>

definition schedules_ok :: "db \<Rightarrow> bool" where
  "schedules_ok d = (distinct (map sc_id (schedules d))
     \<and> (\<forall>r \<in> set (schedules d). \<forall>run. sc_run r = Some run \<longrightarrow> sc_enabled r \<and> rn_generation run = sc_generation r))"

inductive schedule_step :: "db \<Rightarrow> db \<Rightarrow> bool" where
  other: "schedules d' = schedules d \<Longrightarrow> schedule_step d d'"
| create: "n \<notin> sc_id ` set (schedules d) \<Longrightarrow> sc_run sc = None \<Longrightarrow> schedule_step d (CreateSchedule n sc d)"
| edit: "UpdateSchedule sc d = Inr d' \<Longrightarrow> schedule_step d d'"
| start: "schedule_step d (snd (StartScheduleRun sc run nr d))"
| save: "schedule_step d (snd (SaveScheduleRun i run d))"
| finish: "schedule_step d (snd (FinishScheduleRun i run status d))"
| next_run: "schedule_step d (SetScheduleNextRun sc nr d)"
| delete: "schedule_step d (DeleteSchedule i d)"
| delete_server: "schedule_step d (DeleteSchedulesForServer i d)"

inductive_cases schedule_stepE: "schedule_step d d'"

text \<open>A statement that rewrites rows in place.\<close>

lemma schedules_ok_update:
  assumes "schedules_ok d" "\<And>r. sc_id (f r) = sc_id r"
    and "\<And>r run. r \<in> set (schedules d) \<Longrightarrow> P r \<Longrightarrow> sc_run (f r) = Some run \<Longrightarrow>
      sc_enabled (f r) \<and> rn_generation run = sc_generation (f r)"
  shows "schedules_ok (d\<lparr>schedules := update_where P f (schedules d)\<rparr>)"
  using assms by (auto simp: schedules_ok_def map_key_update_where set_update_where)

lemma schedule_step_ok:
  assumes "schedule_step d d'" "schedules_ok d"
  shows "schedules_ok d'"
  using assms
proof cases
  case (edit sc)
  obtain cur where cur: "find (\<lambda>r. sc_id r = sc_id sc) (schedules d) = Some cur"
    using edit by (auto simp: UpdateSchedule_def split: option.splits)
  then have in_cur: "cur \<in> set (schedules d)" by (simp add: find_SomeD)
  define run next_run gen where "run = (if \<not> sc_enabled sc then None else sc_run cur)"
    and "next_run = (if \<not> sc_enabled sc then None else sc_next_run sc)"
    and "gen = (if \<not> sc_enabled sc \<or> sc_run cur = None then sc_generation cur + 1 else sc_generation cur)"
  have d': "d' = d\<lparr>schedules := update_where (\<lambda>r. sc_id r = sc_id sc)
      (\<lambda>r. r\<lparr>sc_name := sc_name sc, sc_cron := sc_cron sc, sc_timezone := sc_timezone sc,
         sc_tasks := sc_tasks sc, sc_action := sc_action sc, sc_payload := sc_payload sc,
         sc_enabled := sc_enabled sc, sc_next_run := next_run, sc_run := run,
         sc_generation := gen\<rparr>) (schedules d)\<rparr>"
    using edit cur by (auto simp: UpdateSchedule_def run_def next_run_def gen_def split: if_splits)
  show ?thesis unfolding d'
  proof (rule schedules_ok_update [OF assms(2)])
    fix r x assume "sc_run (r\<lparr>sc_name := sc_name sc, sc_cron := sc_cron sc, sc_timezone := sc_timezone sc,
         sc_tasks := sc_tasks sc, sc_action := sc_action sc, sc_payload := sc_payload sc,
         sc_enabled := sc_enabled sc, sc_next_run := next_run, sc_run := run, sc_generation := gen\<rparr>) = Some x"
    with assms(2) in_cur show "sc_enabled (r\<lparr>sc_name := sc_name sc, sc_cron := sc_cron sc, sc_timezone := sc_timezone sc,
         sc_tasks := sc_tasks sc, sc_action := sc_action sc, sc_payload := sc_payload sc,
         sc_enabled := sc_enabled sc, sc_next_run := next_run, sc_run := run, sc_generation := gen\<rparr>)
       \<and> rn_generation x = sc_generation (r\<lparr>sc_name := sc_name sc, sc_cron := sc_cron sc, sc_timezone := sc_timezone sc,
         sc_tasks := sc_tasks sc, sc_action := sc_action sc, sc_payload := sc_payload sc,
         sc_enabled := sc_enabled sc, sc_next_run := next_run, sc_run := run, sc_generation := gen\<rparr>)"
      by (auto simp: run_def gen_def schedules_ok_def split: if_splits)
  qed simp
next
  case (start sc run nr)
  then show ?thesis using assms(2)
    unfolding StartScheduleRun_def Let_def snd_conv by (auto intro!: schedules_ok_update)
next
  case (save i run)
  then show ?thesis using assms(2)
    unfolding SaveScheduleRun_def snd_conv by (auto intro!: schedules_ok_update simp: live_run_def)
next
  case (finish i run status)
  then show ?thesis using assms(2)
    unfolding FinishScheduleRun_def snd_conv by (auto intro!: schedules_ok_update)
next
  case (next_run sc nr)
  then show ?thesis using assms(2)
    unfolding SetScheduleNextRun_def by (auto intro!: schedules_ok_update)
qed (auto simp: schedules_ok_def CreateSchedule_def DeleteSchedule_def DeleteSchedulesForServer_def
    set_delete_where distinct_map_delete_where)

subsection \<open>The generation is a fence\<close>

definition sched_gen :: "row_id \<Rightarrow> db \<Rightarrow> nat" where
  "sched_gen i d = (case find (\<lambda>r. sc_id r = i) (schedules d) of None \<Rightarrow> 0 | Some r \<Rightarrow> sc_generation r)"

definition sched_live :: "row_id \<Rightarrow> db \<Rightarrow> bool" where
  "sched_live i d = (case find (\<lambda>r. sc_id r = i) (schedules d) of None \<Rightarrow> False | Some r \<Rightarrow> sc_run r \<noteq> None)"

definition has_schedule :: "row_id \<Rightarrow> db \<Rightarrow> bool" where
  "has_schedule i d = (\<exists>r \<in> set (schedules d). sc_id r = i)"

definition kept_step :: "row_id \<Rightarrow> db \<Rightarrow> db \<Rightarrow> bool" where
  \<comment> \<open>a step that schedule \<open>i\<close> outlives\<close>
  "kept_step i d d' = (schedule_step d d' \<and> schedules_ok d \<and> has_schedule i d \<and> has_schedule i d')"

lemma has_schedule_find: "has_schedule i d \<longleftrightarrow> (\<exists>r. find (\<lambda>r. sc_id r = i) (schedules d) = Some r)"
  by (metis (mono_tags, lifting) find_None find_SomeD has_schedule_def not_None_eq)

text \<open>How a step acts on the row it keeps.\<close>

definition row_step :: "Schedule \<Rightarrow> Schedule \<Rightarrow> bool" where
  "row_step r r' = (sc_generation r \<le> sc_generation r'
     \<and> (sc_run r' \<noteq> None \<and> sc_run r = None \<longrightarrow> sc_generation r < sc_generation r')
     \<and> (sc_run r' \<noteq> None \<and> sc_run r \<noteq> None \<longrightarrow> sc_generation r' = sc_generation r))"

lemma row_step_refl [simp]: "row_step r r"
  by (auto simp: row_step_def)

lemma row_step_update:
  assumes "\<And>r. sc_id (f r) = sc_id r" "\<And>r. P r \<Longrightarrow> find (\<lambda>r. sc_id r = i) (schedules d) = Some r \<Longrightarrow> row_step r (f r)"
    and "find (\<lambda>r. sc_id r = i) (schedules d) = Some r"
    and "find (\<lambda>r. sc_id r = i) (update_where P f (schedules d)) = Some r'"
  shows "row_step r r'"
  using assms(2) [of r] assms(3,4) by (auto simp: find_update_where [where k = sc_id] assms(1) split: if_splits)

lemma schedule_step_row:
  assumes "schedule_step d d'" "schedules_ok d"
    and r: "find (\<lambda>r. sc_id r = i) (schedules d) = Some r" and r': "find (\<lambda>r. sc_id r = i) (schedules d') = Some r'"
  shows "row_step r r'"
  using assms(1)
proof cases
  case (create n sc)
  then show ?thesis using r r' by (simp add: CreateSchedule_def find_snoc)
next
  case (edit sc)
  show ?thesis
  proof (cases "sc_id sc = i")
    case True
    with r edit obtain f where d': "schedules d' = update_where (\<lambda>x. sc_id x = i) f (schedules d)"
      and f: "\<And>x. sc_id (f x) = sc_id x"
        "\<And>x. sc_run (f x) = (if sc_enabled sc then sc_run r else None)"
        "\<And>x. sc_generation (f x) = (if \<not> sc_enabled sc \<or> sc_run r = None then sc_generation r + 1 else sc_generation r)"
      unfolding UpdateSchedule_def by (auto simp del: One_nat_def split: if_splits)
    show ?thesis
      by (rule row_step_update [OF f(1) _ r r' [unfolded d']]) (use r f(2,3) in \<open>auto simp: row_step_def\<close>)
  next
    case False
    with r edit obtain f where d': "schedules d' = update_where (\<lambda>x. sc_id x = sc_id sc) f (schedules d)"
      and f: "\<And>x. sc_id (f x) = sc_id x"
      unfolding UpdateSchedule_def by (auto split: option.splits if_splits)
    show ?thesis
      by (rule row_step_update [OF f _ r r' [unfolded d']]) (use False in \<open>auto dest: find_SomeD\<close>)
  qed
next
  case (start sc run nr)
  show ?thesis
    by (rule row_step_update [OF _ _ r r' [unfolded start StartScheduleRun_def Let_def snd_conv, simplified]]) (auto simp: row_step_def)
next
  case (save i run)
  show ?thesis
    by (rule row_step_update [OF _ _ r r' [unfolded save SaveScheduleRun_def snd_conv, simplified]]) (auto simp: row_step_def live_run_def)
next
  case (finish i run status)
  show ?thesis
    by (rule row_step_update [OF _ _ r r' [unfolded finish FinishScheduleRun_def snd_conv, simplified]]) (auto simp: row_step_def)
next
  case (next_run sc nr)
  show ?thesis
    by (rule row_step_update [OF _ _ r r' [unfolded next_run SetScheduleNextRun_def, simplified]]) (auto simp: row_step_def)
next
  case (delete j)
  have "distinct (map sc_id (schedules d))" using assms(2) by (simp add: schedules_ok_def)
  then show ?thesis using r r' delete by (auto simp: DeleteSchedule_def find_delete_where [where k = sc_id] split: if_splits)
next
  case (delete_server j)
  have "distinct (map sc_id (schedules d))" using assms(2) by (simp add: schedules_ok_def)
  then show ?thesis using r r' delete_server
    by (auto simp: DeleteSchedulesForServer_def find_delete_where [where k = sc_id] split: if_splits)
qed (use r r' in simp)

interpretation sf: generation_fence "sched_gen i" "kept_step i" "sched_live i" for i
proof
  fix d d' assume step: "kept_step i d d'"
  then obtain r r' where r: "find (\<lambda>r. sc_id r = i) (schedules d) = Some r" "find (\<lambda>r. sc_id r = i) (schedules d') = Some r'"
    by (auto simp: kept_step_def has_schedule_find)
  then have "row_step r r'" using step schedule_step_row by (auto simp: kept_step_def)
  then show "sched_gen i d \<le> sched_gen i d'"
    "sched_live i d' \<Longrightarrow> \<not> sched_live i d \<Longrightarrow> sched_gen i d < sched_gen i d'"
    "sched_live i d' \<Longrightarrow> sched_live i d \<Longrightarrow> sched_gen i d = sched_gen i d'"
    using r by (simp_all add: sched_gen_def sched_live_def row_step_def)
qed

lemma kept_steps_ok: "(kept_step i)\<^sup>*\<^sup>* d d' \<Longrightarrow> schedules_ok d \<Longrightarrow> schedules_ok d'"
  by (induction rule: rtranclp_induct) (auto simp: kept_step_def intro: schedule_step_ok)

text \<open>A writer whose generation is not the live one changes nothing.\<close>

lemma live_run_found:
  assumes "schedules_ok d" "r \<in> set (schedules d)" "live_run i g r"
  shows "sched_live i d \<and> sched_gen i d = g"
proof -
  have "find (\<lambda>r. sc_id r = i) (schedules d) = Some r"
    using assms find_key [of sc_id "schedules d" r] by (auto simp: schedules_ok_def live_run_def)
  with assms(3) show ?thesis by (auto simp: sched_live_def sched_gen_def live_run_def)
qed

lemma stale_writer:
  assumes "schedules_ok d" "\<not> (sched_live i d \<and> sched_gen i d = g)" "rn_generation run = g"
  shows "\<not> ScheduleRunActive i g d" "SaveScheduleRun i run d = (False, d)" "FinishScheduleRun i run status d = (False, d)"
proof -
  have none: "\<forall>r \<in> set (schedules d). \<not> live_run i g r"
    using live_run_found [OF assms(1)] assms(2) by blast
  then have "update_where (live_run i g) f (schedules d) = schedules d" for f
    by (simp add: update_where_none)
  moreover have "rows_affected (live_run i g) (schedules d) = 0" using none by (simp add: rows_affected_eq_0)
  ultimately show "\<not> ScheduleRunActive i g d" "SaveScheduleRun i run d = (False, d)"
    "FinishScheduleRun i run status d = (False, d)"
    using assms(3) by (simp_all add: ScheduleRunActive_def SaveScheduleRun_def FinishScheduleRun_def)
qed

text \<open>C19: turning a schedule off ends its chain for good: whatever happens to the schedule
  afterwards, as long as it exists, a chain started before finds itself inactive, and neither
  its checkpoint nor its result is written, also when the schedule is on again and running
  anew.\<close>

theorem disabling_ends_the_chain:
  assumes "UpdateSchedule sc d = Inr d1" "\<not> sc_enabled sc" "schedules_ok d"
    and "(kept_step (sc_id sc))\<^sup>*\<^sup>* d1 d2" "rn_generation run \<le> sched_gen (sc_id sc) d"
  shows "\<not> ScheduleRunActive (sc_id sc) (rn_generation run) d2
    \<and> SaveScheduleRun (sc_id sc) run d2 = (False, d2) \<and> FinishScheduleRun (sc_id sc) run status d2 = (False, d2)"
proof -
  obtain cur where cur: "find (\<lambda>r. sc_id r = sc_id sc) (schedules d) = Some cur"
    using assms(1) by (auto simp: UpdateSchedule_def split: option.splits)
  have ok: "schedules_ok d1" using schedule_step_ok [OF schedule_step.edit [OF assms(1)] assms(3)] .
  have "sched_gen (sc_id sc) d1 = sched_gen (sc_id sc) d + 1 \<and> \<not> sched_live (sc_id sc) d1"
    using assms(1,2) cur by (auto simp: UpdateSchedule_def sched_gen_def sched_live_def
        find_update_where [where k = sc_id] dest: find_SomeD split: if_splits)
  with assms(5) have "rn_generation run \<le> sched_gen (sc_id sc) d1"
    "\<not> (sched_live (sc_id sc) d1 \<and> sched_gen (sc_id sc) d1 = rn_generation run)" by auto
  from sf.lease_over [OF assms(4) this] stale_writer [OF kept_steps_ok [OF assms(4) ok] _ refl]
  show ?thesis by blast
qed

text \<open>Of the schedulers that hold the same row, at most one starts its chain: after a claim
  that won, no claim made from the same reading of the schedule wins, whatever happens in
  between; and the claim that won makes that chain, and no other, the live one.\<close>

theorem one_claim_per_reading:
  assumes "StartScheduleRun sc run nr d = ((True, run'), d1)" "schedules_ok d"
    and "(kept_step (sc_id sc))\<^sup>*\<^sup>* d1 d2"
  shows "ScheduleRunActive (sc_id sc) (rn_generation run') d1
    \<and> rn_generation run' = sc_generation sc + 1
    \<and> \<not> fst (fst (StartScheduleRun sc run2 nr2 d2))"
proof -
  let ?i = "sc_id sc"
  let ?P = "\<lambda>r. sc_id r = ?i \<and> sc_enabled r \<and> sc_generation r = sc_generation sc \<and> sc_run r = None"
  have run': "run' = run\<lparr>rn_generation := sc_generation sc + 1\<rparr>" and won: "rows_affected ?P (schedules d) = 1"
    and d1: "d1 = d\<lparr>schedules := update_where ?P (\<lambda>r. r\<lparr>sc_run := Some run',
                sc_generation := rn_generation run', sc_next_run := nr\<rparr>) (schedules d)\<rparr>"
    using assms(1) by (auto simp: StartScheduleRun_def Let_def)
  obtain r where r: "r \<in> set (schedules d)" "?P r" using rows_affected_1_ex [OF won] by blast
  let ?r = "r\<lparr>sc_run := Some run', sc_generation := rn_generation run', sc_next_run := nr\<rparr>"
  have ok1: "schedules_ok d1"
    using schedule_step_ok [OF schedule_step.start assms(2), of sc run nr] assms(1) by simp
  have in1: "?r \<in> set (schedules d1)" using r by (auto simp: d1 set_update_where)
  have live1: "live_run ?i (rn_generation run') ?r" using r(2) by (simp add: live_run_def)
  have "rows_affected (live_run ?i (rn_generation run')) (schedules d1) = 1"
  proof (rule rows_affected_key [where k = sc_id and r = ?r])
    show "distinct (map sc_id (schedules d1))" using ok1 by (simp add: schedules_ok_def)
    show "sc_id x = sc_id ?r" if "live_run ?i (rn_generation run') x" for x
      using that r(2) by (simp add: live_run_def)
  qed (fact in1, fact live1)
  moreover have "sched_gen ?i d1 = sc_generation sc + 1"
    using live_run_found [OF ok1 in1 live1] run' by simp
  then have gen2: "sc_generation sc < sched_gen ?i d2"
    using sf.gen_steps [OF assms(3)] by simp
  have ok2: "schedules_ok d2" using kept_steps_ok [OF assms(3) ok1] .
  have "\<not> ?P x" if "x \<in> set (schedules d2)" for x
  proof
    assume "?P x"
    moreover have "find (\<lambda>r. sc_id r = sc_id x) (schedules d2) = Some x"
      using ok2 that by (simp add: find_key schedules_ok_def)
    ultimately show False using gen2 by (simp add: sched_gen_def)
  qed
  then have "rows_affected ?P (schedules d2) = 0" by (simp add: rows_affected_eq_0)
  ultimately show ?thesis
    using run' by (simp add: ScheduleRunActive_def StartScheduleRun_def Let_def del: rows_affected_eq_0)
qed

subsection \<open>The hypotheses can hold\<close>

definition sample_schedule :: Schedule where
  "sample_schedule = \<lparr>sc_id = 3, sc_server_id = 1, sc_name = ''nightly'', sc_cron = ''0 4 * * *'',
     sc_tasks = [\<lparr>tk_action = SchedStop, tk_payload = [], tk_time_offset = 0, tk_continue_on_failure = False\<rparr>],
     sc_action = SchedStop, sc_payload = [], sc_enabled = True, sc_timezone = [], sc_next_run = Some 5,
     sc_last_run = None, sc_last_status = [], sc_run = None, sc_generation = 4\<rparr>"

definition sample_run :: ScheduleRun where
  "sample_run = \<lparr>rn_generation = 0, rn_fired = 6, rn_next = 0, rn_due = 6, rn_backup = 0, rn_done = []\<rparr>"

definition schedules_db :: "Schedule list \<Rightarrow> db" where
  "schedules_db scs = \<lparr>servers = [], backups = [], ports = [], schedules = scs, users = [], sessions = [],
     accesses = [], invites = [], resets = [], confirmations = [], api_keys = [], ssh_keys = [],
     uploads = [], cursors = [], rate_counters = [], events = [], audits = [], admin_roles = []\<rparr>"

lemmas sched_sample_defs = sample_schedule_def sample_run_def schedules_db_def

lemma sample_start:
  "StartScheduleRun sample_schedule sample_run None (schedules_db [sample_schedule]) =
   ((True, sample_run\<lparr>rn_generation := 5\<rparr>), schedules_db [sample_schedule\<lparr>sc_run := Some (sample_run\<lparr>rn_generation := 5\<rparr>),
      sc_generation := 5, sc_next_run := None\<rparr>])"
  by (simp add: StartScheduleRun_def Let_def rows_affected_def sched_sample_defs)

theorem one_claim_per_reading_witness:
  "\<not> fst (fst (StartScheduleRun sample_schedule sample_run None
      (snd (StartScheduleRun sample_schedule sample_run None (schedules_db [sample_schedule])))))"
proof -
  have "schedules_ok (schedules_db [sample_schedule])" by (simp add: schedules_ok_def sched_sample_defs)
  from one_claim_per_reading [OF sample_start this rtranclp.rtrancl_refl] show ?thesis
    by (simp add: sample_start)
qed

theorem disabling_ends_the_chain_witness:
  "\<exists>d1. UpdateSchedule (sample_schedule\<lparr>sc_enabled := False\<rparr>) (snd (StartScheduleRun sample_schedule sample_run None
      (schedules_db [sample_schedule]))) = Inr d1 \<and> \<not> ScheduleRunActive 3 5 d1"
proof -
  let ?d = "snd (StartScheduleRun sample_schedule sample_run None (schedules_db [sample_schedule]))"
  have ok: "schedules_ok ?d" by (rule schedule_step_ok [OF schedule_step.start])
      (simp add: schedules_ok_def sched_sample_defs)
  obtain d1 where d1: "UpdateSchedule (sample_schedule\<lparr>sc_enabled := False\<rparr>) ?d = Inr d1"
    by (simp add: UpdateSchedule_def sample_start) (simp add: sched_sample_defs TaskChain_def)
  have "rn_generation (sample_run\<lparr>rn_generation := 5\<rparr>) \<le> sched_gen 3 ?d"
    by (simp add: sample_start) (simp add: sched_gen_def sched_sample_defs)
  with disabling_ends_the_chain [OF d1 _ ok rtranclp.rtrancl_refl, of "sample_run\<lparr>rn_generation := 5\<rparr>"] d1
  show ?thesis by (simp add: sample_schedule_def)
qed

end
