(* ===== verification/Scheduler.thy ===== *)
theory Scheduler imports Schedules Store_Props Go_Strings begin

text \<open>
  The scheduler (\<open>internal/scheduler/scheduler.go\<close>) and the executor the controller gives it
  (\<open>cmd/controller/main.go\<close>). What a chain acts on is a world \<open>'w\<close> that a record of operations
  reaches: the clock, the database, the wait (during which everybody else acts), and the power,
  console and backup actions of the executor. The cron library and the time zones are arguments.
  A wait for a backup polls until its deadline: \<open>fuel\<close> bounds the polls, \<open>None\<close> is a wait that
  has not returned by then, and \<open>awaitBackup_returns\<close> shows how many polls are enough.
\<close>

subsection \<open>When a schedule is due\<close>

definition LoadZone :: "(string \<Rightarrow> 'z option) \<Rightarrow> 'z \<Rightarrow> string \<Rightarrow> 'z option" where
  \<comment> \<open>\<open>load\<close> is \<open>time.LoadLocation\<close>, \<open>local\<close> is \<open>time.Local\<close>\<close>
  "LoadZone load local tz = (let tz = TrimSpace tz in if tz = [] then Some local else load tz)"

record ('z, 's) cron_lib =
  cl_load :: "string \<Rightarrow> 'z option"
  cl_local :: 'z
  cl_parse :: "string \<Rightarrow> 's option"
  cl_next :: "'s \<Rightarrow> 'z \<Rightarrow> time \<Rightarrow> time"

definition NextRunIn :: "('z, 's) cron_lib \<Rightarrow> string \<Rightarrow> time \<Rightarrow> string \<Rightarrow> time option" where
  "NextRunIn cl expr after tz =
     (case LoadZone (cl_load cl) (cl_local cl) tz of
        None \<Rightarrow> None
      | Some loc \<Rightarrow>
          (case cl_parse cl expr of
             None \<Rightarrow> None
           | Some sched \<Rightarrow> Some (cl_next cl sched loc after)))"

definition NextRun :: "('z, 's) cron_lib \<Rightarrow> string \<Rightarrow> time \<Rightarrow> time option" where
  "NextRun cl expr after = NextRunIn cl expr after []"

subsection \<open>The tick\<close>

text \<open>The in-flight guard is the set of schedules whose chain runs here; a launch is a schedule,
  its run and whether it is carried on.\<close>

type_synonym launch = "Schedule \<times> ScheduleRun \<times> bool"

record tick_state =
  tk_db :: db
  tk_inflight :: "row_id set"
  tk_launched :: "launch list"

definition acquire :: "row_id \<Rightarrow> row_id set \<Rightarrow> bool \<times> row_id set" where
  "acquire i inflight = (if i \<in> inflight then (False, inflight) else (True, insert i inflight))"

definition release :: "row_id \<Rightarrow> row_id set \<Rightarrow> row_id set" where
  "release i inflight = inflight - {i}"

definition tick_one :: "('z, 's) cron_lib \<Rightarrow> time \<Rightarrow> Schedule \<Rightarrow> tick_state \<Rightarrow> tick_state" where
  \<comment> \<open>the body of the loop over the enabled schedules\<close>
  "tick_one cl now sc st =
     (case sc_run sc of
        Some run \<Rightarrow>
          (let (got, inflight) = acquire (sc_id sc) (tk_inflight st)
           in if got then st\<lparr>tk_inflight := inflight, tk_launched := tk_launched st @ [(sc, run, True)]\<rparr> else st)
      | None \<Rightarrow>
          (case sc_next_run sc of
             None \<Rightarrow>
               (case NextRunIn cl (sc_cron sc) now (sc_timezone sc) of
                  Some nr \<Rightarrow> st\<lparr>tk_db := SetScheduleNextRun sc (Some nr) (tk_db st)\<rparr>
                | None \<Rightarrow> st)
           | Some due \<Rightarrow>
               if now < due then st
               else
                 (let next = NextRunIn cl (sc_cron sc) now (sc_timezone sc);
                      (got, inflight) = acquire (sc_id sc) (tk_inflight st)
                  in if \<not> got then st
                     else
                       (let run = \<lparr>rn_generation = 0, rn_fired = now, rn_next = 0,
                              rn_due = (case TaskChain sc of [] \<Rightarrow> now | t # _ \<Rightarrow> now + tk_time_offset t * second),
                              rn_backup = 0, rn_done = []\<rparr>;
                            ((started, run'), d') = StartScheduleRun sc run next (tk_db st)
                        in if started
                           then st\<lparr>tk_db := d', tk_inflight := inflight,
                                   tk_launched := tk_launched st @ [(sc, run', False)]\<rparr>
                           else st\<lparr>tk_db := d', tk_inflight := release (sc_id sc) inflight\<rparr>))))"

definition Tick :: "('z, 's) cron_lib \<Rightarrow> time \<Rightarrow> row_id set \<Rightarrow> db \<Rightarrow> tick_state" where
  "Tick cl now inflight d =
     fold (tick_one cl now) (ListEnabledSchedules d)
       \<lparr>tk_db = d, tk_inflight = inflight, tk_launched = []\<rparr>"

subsection \<open>The world of a chain\<close>

record 'w chain_env =
  en_now :: "'w \<Rightarrow> time"
  en_db :: "'w \<Rightarrow> db"
  en_put :: "db \<Rightarrow> 'w \<Rightarrow> 'w"
  en_sleep :: "duration \<Rightarrow> 'w \<Rightarrow> string option \<times> 'w"  \<comment> \<open>the error of a cancelled context\<close>
  en_cancelled :: "'w \<Rightarrow> bool"  \<comment> \<open>\<open>ctx.Err() != nil\<close>\<close>
  en_start :: "Server \<Rightarrow> 'w \<Rightarrow> string option \<times> 'w"
  en_stop :: "Server \<Rightarrow> 'w \<Rightarrow> string option \<times> 'w"
  en_restart :: "Server \<Rightarrow> 'w \<Rightarrow> string option \<times> 'w"
  en_command :: "Server \<Rightarrow> string \<Rightarrow> 'w \<Rightarrow> string option \<times> 'w"
  en_backup :: "Server \<Rightarrow> 'w \<Rightarrow> (string + row_id) \<times> 'w"

definition backupPoll :: duration where "backupPoll = 5 * second"
definition backupWait :: duration where "backupWait = 7 * hour"
definition resumeLimit :: duration where "resumeLimit = 24 * hour"

definition saveRun :: "'w chain_env \<Rightarrow> row_id \<Rightarrow> ScheduleRun \<Rightarrow> 'w \<Rightarrow> bool \<times> 'w" where
  "saveRun en i run w = (let (saved, d') = SaveScheduleRun i run (en_db en w) in (saved, en_put en d' w))"

definition active :: "'w chain_env \<Rightarrow> row_id \<Rightarrow> nat \<Rightarrow> 'w \<Rightarrow> bool" where
  "active en i generation w = ScheduleRunActive i generation (en_db en w)"

definition result :: "string option \<Rightarrow> bool \<times> string" where
  "result err = (case err of Some e \<Rightarrow> (False, ''error: '' @ e) | None \<Rightarrow> (True, ''ok''))"

definition cancelled_msg :: string where
  "cancelled_msg = ''schedule cancelled or checkpoint unavailable''"

fun await_loop ::
  "nat \<Rightarrow> 'w chain_env \<Rightarrow> row_id \<Rightarrow> row_id \<Rightarrow> nat \<Rightarrow> time \<Rightarrow> 'w \<Rightarrow> (string option \<times> 'w) option" where
  "await_loop 0 en i scheduleID generation deadline w = None"
| "await_loop (Suc fuel) en i scheduleID generation deadline w =
     (if \<not> active en scheduleID generation w then Some (Some cancelled_msg, w)
      else
        (case GetBackup i (en_db en w) of
           Inl _ \<Rightarrow> Some (Some ''the backup was deleted before it finished'', w)
         | Inr b \<Rightarrow>
             if bk_phase b = BackupSucceeded \<or> bk_phase b = BackupDeleting then Some (None, w)
             else if bk_phase b = BackupFailed then Some (Some (''the backup failed: '' @ bk_message b), w)
             else if \<not> en_now en w < deadline then Some (Some ''the backup had not finished after 7h0m0s'', w)
             else
               (case en_sleep en backupPoll w of
                  (Some e, w') \<Rightarrow> Some (Some e, w')
                | (None, w') \<Rightarrow> await_loop fuel en i scheduleID generation deadline w')))"

definition awaitBackup ::
  "nat \<Rightarrow> 'w chain_env \<Rightarrow> row_id \<Rightarrow> row_id \<Rightarrow> nat \<Rightarrow> 'w \<Rightarrow> (string option \<times> 'w) option" where
  "awaitBackup fuel en i scheduleID generation w =
     await_loop fuel en i scheduleID generation (en_now en w + backupWait) w"

definition action_name :: "ScheduleAction \<Rightarrow> string" where
  "action_name a = (case a of SchedStart \<Rightarrow> ''start'' | SchedStop \<Rightarrow> ''stop'' | SchedRestart \<Rightarrow> ''restart''
     | SchedCommand \<Rightarrow> ''command'' | SchedBackup \<Rightarrow> ''backup'' | SchedOther s \<Rightarrow> s)"

text \<open>A task's outcome: whether it succeeded and its message, the run and the world.\<close>

type_synonym 'w task_result = "((bool \<times> string) \<times> ScheduleRun \<times> 'w) option"

definition done_with :: "ScheduleRun \<Rightarrow> string option \<times> 'w \<Rightarrow> 'w task_result" where
  "done_with run ew = Some (result (fst ew), run, snd ew)"

definition backupRequested ::
  "nat \<Rightarrow> 'w chain_env \<Rightarrow> row_id \<Rightarrow> row_id \<Rightarrow> ScheduleRun \<Rightarrow> 'w \<Rightarrow> 'w task_result" where
  \<comment> \<open>the function \<open>runChain\<close> gives \<open>runTask\<close>\<close>
  "backupRequested fuel en scheduleID i run w =
     (let run' = run\<lparr>rn_backup := i\<rparr>; (saved, w') = saveRun en scheduleID run' w
      in if \<not> saved then done_with run' (Some cancelled_msg, w')
         else (case awaitBackup fuel en i scheduleID (rn_generation run') w' of
                 None \<Rightarrow> None | Some ew \<Rightarrow> done_with run' ew))"

definition runTask ::
  "nat \<Rightarrow> 'w chain_env \<Rightarrow> row_id \<Rightarrow> Server \<Rightarrow> ScheduleTask \<Rightarrow> ScheduleRun \<Rightarrow> 'w \<Rightarrow> 'w task_result" where
  "runTask fuel en scheduleID srv t run w =
     (if sv_desired_state srv = StateSuspended
      then Some ((True, ''skipped (server suspended)''), run, w)
      else if (tk_action t = SchedStart \<or> tk_action t = SchedRestart) \<and> sv_transfer srv \<noteq> None
      then Some ((False, ''skipped (the server is being transferred to another cluster)''), run, w)
      else
        (case tk_action t of
           SchedStart \<Rightarrow> done_with run (en_start en srv w)
         | SchedStop \<Rightarrow> done_with run (en_stop en srv w)
         | SchedRestart \<Rightarrow> done_with run (en_restart en srv w)
         | SchedCommand \<Rightarrow> done_with run (en_command en srv (tk_payload t) w)
         | SchedBackup \<Rightarrow>
             (case en_backup en srv w of
                (Inl e, w') \<Rightarrow> done_with run (Some e, w')
              | (Inr i, w') \<Rightarrow> backupRequested fuel en scheduleID i run w')
         | SchedOther a \<Rightarrow> Some ((False, ''error: unknown action '' @ a), run, w)))"

subsection \<open>The chain\<close>

definition summary :: "ScheduleRun \<Rightarrow> string \<Rightarrow> string" where
  "summary run note =
     (let out = join ''; '' (rn_done run)
      in if note = [] then out else if out = [] then note else out @ '' ('' @ note @ '')'')"

definition task_entry :: "nat \<Rightarrow> ScheduleTask \<Rightarrow> string \<Rightarrow> string" where
  "task_entry i t msg = ''#'' @ show_nat (i + 1) @ '' '' @ action_name (tk_action t) @ '': '' @ msg"

definition aborted_suffix :: string where
  \<comment> \<open>with a dash, U+2014\<close>
  "aborted_suffix = '' '' @ [CHR 0xE2, CHR 0x80, CHR 0x94] @ '' chain aborted''"

datatype 'w iteration = Left ScheduleRun 'w | Broken ScheduleRun 'w | Advanced ScheduleRun 'w

definition chain_task ::
  "nat \<Rightarrow> 'w chain_env \<Rightarrow> Schedule \<Rightarrow> ScheduleTask list \<Rightarrow> bool \<Rightarrow> ScheduleRun \<Rightarrow> 'w \<Rightarrow> 'w iteration option" where
  \<comment> \<open>one pass of the loop; \<open>carried\<close> is \<open>first && resumed\<close>\<close>
  "chain_task fuel en sc tasks carried run w =
     (let i = rn_next run; t = tasks ! i;
          wait = (if carried then rn_due run - en_now en w else tk_time_offset t * second);
          (err, w1) = (if wait > 0 then en_sleep en wait w else (None, w))
      in if err \<noteq> None then Some (Left run w1)
         else if \<not> active en (sc_id sc) (rn_generation run) w1 then Some (Left run w1)
         else
           (case GetServer (sc_server_id sc) (en_db en w1) of
              Inl _ \<Rightarrow> Some (Broken (run\<lparr>rn_done := rn_done run @
                         [task_entry i t ''error: server unavailable'']\<rparr>) w1)
            | Inr srv \<Rightarrow>
                (case (if tk_action t = SchedBackup \<and> rn_backup run \<noteq> 0
                       then (case awaitBackup fuel en (rn_backup run) (sc_id sc) (rn_generation run) w1 of
                               None \<Rightarrow> None | Some ew \<Rightarrow> done_with run ew)
                       else runTask fuel en (sc_id sc) srv t run w1) of
                   None \<Rightarrow> None
                 | Some ((ok, msg), run2, w2) \<Rightarrow>
                     if \<not> ok \<and> en_cancelled en w2 then Some (Left run2 w2)
                     else
                       (let entry = task_entry i t msg
                        in if \<not> ok \<and> \<not> tk_continue_on_failure t
                           then Some (Broken (run2\<lparr>rn_done := rn_done run2 @ [entry @ aborted_suffix]\<rparr>) w2)
                           else
                             (let run3 = run2\<lparr>rn_done := rn_done run2 @ [entry], rn_next := i + 1, rn_backup := 0\<rparr>;
                                  run4 = (if i + 1 < length tasks
                                          then run3\<lparr>rn_due := en_now en w2 + tk_time_offset (tasks ! (i + 1)) * second\<rparr>
                                          else run3);
                                  (saved, w3) = saveRun en (sc_id sc) run4 w2
                              in if saved then Some (Advanced run4 w3) else Some (Left run4 w3))))))"

lemma chain_task_next: "chain_task fuel en sc tasks carried run w = Some (Advanced run' w') \<Longrightarrow> rn_next run' = Suc (rn_next run)"
  by (auto simp: chain_task_def Let_def split: if_splits prod.splits option.splits sum.splits)

function chain_loop ::
  "nat \<Rightarrow> 'w chain_env \<Rightarrow> Schedule \<Rightarrow> ScheduleTask list \<Rightarrow> bool \<Rightarrow> ScheduleRun \<Rightarrow> 'w \<Rightarrow> (bool \<times> ScheduleRun \<times> 'w) option" where
  \<comment> \<open>the loop; false is a chain that was left for another controller or cancelled\<close>
  "chain_loop fuel en sc tasks carried run w =
     (if rn_next run < length tasks
      then (case chain_task fuel en sc tasks carried run w of
              None \<Rightarrow> None
            | Some (Left run' w') \<Rightarrow> Some (False, run', w')
            | Some (Broken run' w') \<Rightarrow> Some (True, run', w')
            | Some (Advanced run' w') \<Rightarrow> chain_loop fuel en sc tasks False run' w')
      else Some (True, run, w))"
  by pat_completeness auto
termination
  by (relation "measure (\<lambda>(_, _, _, tasks, _, run, _). length tasks - rn_next run)")
    (auto dest: chain_task_next)

declare chain_loop.simps [simp del]

definition show_minutes :: "duration \<Rightarrow> string" where
  \<comment> \<open>\<open>late.Round(time.Minute).String()\<close> of a duration over an hour\<close>
  "show_minutes d = (let m = (d + 30 * second) div minute
     in show_int (m div 60) @ ''h'' @ show_int (m mod 60) @ ''m0s'')"

definition runChain ::
  "nat \<Rightarrow> 'w chain_env \<Rightarrow> Schedule \<Rightarrow> bool \<Rightarrow> ScheduleRun \<Rightarrow> 'w \<Rightarrow> ((string \<times> bool) \<times> ScheduleRun \<times> 'w) option" where
  "runChain fuel en sc resumed run w =
     (case GetServer (sc_server_id sc) (en_db en w) of
        Inl _ \<Rightarrow> Some ((''removed (server deleted)'', True), run,
                       en_put en (DeleteSchedule (sc_id sc) (en_db en w)) w)
      | Inr _ \<Rightarrow>
          (let tasks = TaskChain sc
           in if tasks = [] then Some ((''error: no tasks'', True), run, w)
              else if resumed \<and> en_now en w - rn_due run > resumeLimit
              then Some ((summary run (''the controller restarted mid-chain and the rest was ''
                     @ show_minutes (en_now en w - rn_due run) @ '' overdue; not run''), True), run, w)
              else
                (case chain_loop fuel en sc tasks resumed run w of
                   None \<Rightarrow> None
                 | Some (False, run', w') \<Rightarrow> Some (([], False), run', w')
                 | Some (True, run', w') \<Rightarrow>
                     Some ((summary run' (if resumed then ''carried on after the controller restarted'' else []), True),
                           run', w'))))"

subsection \<open>The end of a chain\<close>

definition schedule_name :: "Schedule \<Rightarrow> string" where
  "schedule_name sc = (if sc_name sc = [] then ''schedule #'' @ show_nat (sc_id sc) else sc_name sc)"

definition record_run :: "(string \<Rightarrow> string) \<Rightarrow> time \<Rightarrow> row_id \<Rightarrow> row_id \<Rightarrow> Schedule \<Rightarrow> string \<Rightarrow> db \<Rightarrow> db" where
  \<comment> \<open>\<open>quote\<close> is the \<open>%q\<close> verb\<close>
  "record_run quote clk audit_id ev sc status d =
     (case GetServer (sc_server_id sc) d of
        Inl _ \<Rightarrow> d
      | Inr srv \<Rightarrow>
          (let detail = quote (schedule_name sc) @ '': '' @ status
           in AddEvent clk ev \<lparr>ev_id = 0, ev_created_at = 0, ev_type = EventScheduleRun, ev_server_id = sv_id srv,
                ev_user_id = 0, ev_username = [], ev_message = sv_slug srv @ '': '' @ detail, ev_data = Map.empty\<rparr>
              (AddAudit clk audit_id \<lparr>au_id = 0, au_created_at = 0, au_user_id = 0, au_username = [],
                 au_server_id = sv_id srv, au_action = EventScheduleRun, au_detail = detail\<rparr> d)))"

definition finish_chain ::
  "(string \<Rightarrow> string) \<Rightarrow> time \<Rightarrow> row_id \<Rightarrow> row_id \<Rightarrow> Schedule \<Rightarrow> ScheduleRun \<Rightarrow> string \<Rightarrow> db \<Rightarrow> db" where
  "finish_chain quote clk audit_id ev sc run status d =
     (let (finished, d') = FinishScheduleRun (sc_id sc) run status d
      in if finished then record_run quote clk audit_id ev sc status d' else d')"

subsection \<open>The controller's executor\<close>

definition executor_Start :: "time \<Rightarrow> Server \<Rightarrow> db \<Rightarrow> store_error option \<times> db" where
  "executor_Start now srv d =
     (case StartServer now (sv_id srv) now d of Inl e \<Rightarrow> (Some e, d) | Inr d' \<Rightarrow> (None, d'))"

definition executor_Stop :: "time \<Rightarrow> Server \<Rightarrow> db \<Rightarrow> store_error option \<times> db" where
  "executor_Stop now srv d = (None, SetDesiredState now (sv_id srv) StateStopped d)"

definition executor_Restart :: "time \<Rightarrow> Server \<Rightarrow> db \<Rightarrow> store_error option \<times> db" where
  "executor_Restart now srv d = (None, snd (RequestRestart now (sv_id srv) now d))"

definition executor_Backup :: "time \<Rightarrow> row_id \<Rightarrow> Server \<Rightarrow> db \<Rightarrow> (store_error + row_id) \<times> db" where
  "executor_Backup now new_id srv d =
     (case CreateBackup now new_id
        \<lparr>bk_id = 0, bk_created_at = 0, bk_completed_at = None, bk_server_id = sv_id srv,
         bk_direction = DirBackup, bk_phase = BackupPending, bk_source_id = 0, bk_size_bytes = 0,
         bk_message = [], bk_job_name = [], bk_job_spec = [], bk_job_uid = [],
         bk_cluster_id = None, bk_forgotten = False, bk_target = [], bk_databases = [],
         bk_with_databases = False, bk_ignored = [], bk_full = False, bk_database_id = 0,
         bk_path = [], bk_wipe = False\<rparr> d of
        Inl e \<Rightarrow> (Inl e, d) | Inr d' \<Rightarrow> (Inr new_id, d'))"

subsection \<open>A chain returns\<close>

definition sleeps_advance :: "'w chain_env \<Rightarrow> bool" where
  \<comment> \<open>a wait that was not cut short lasted at least as long as asked\<close>
  "sleeps_advance en = (\<forall>w w'. en_sleep en backupPoll w = (None, w') \<longrightarrow> en_now en w + backupPoll \<le> en_now en w')"

lemma await_loop_returns:
  assumes "sleeps_advance en" "deadline - en_now en w \<le> int n * backupPoll"
  shows "\<exists>r. await_loop (Suc n) en i sid g deadline w = Some r"
  using assms(2)
proof (induction n arbitrary: w)
  case (Suc n)
  obtain e w' where sl: "en_sleep en backupPoll w = (e, w')" by fastforce
  have rec: "\<exists>r. await_loop (Suc n) en i sid g deadline w' = Some r" if "e = None"
  proof -
    have "en_now en w + backupPoll \<le> en_now en w'" using assms(1) sl that by (simp add: sleeps_advance_def)
    then show ?thesis using Suc.prems by (intro Suc.IH) (simp add: algebra_simps)
  qed
  show ?case
  proof (cases e)
    case None
    then obtain r where "await_loop (Suc n) en i sid g deadline w' = Some r" using rec by blast
    then show ?thesis
      using sl None by (subst await_loop.simps(2)) (simp del: await_loop.simps split: sum.split)
  next
    case (Some x)
    then show ?thesis
      using sl by (subst await_loop.simps(2)) (simp del: await_loop.simps split: sum.split)
  qed
qed (simp split: sum.split)

lemma awaitBackup_returns:
  assumes "sleeps_advance en" "5040 < fuel"
  shows "\<exists>r. awaitBackup fuel en i sid g w = Some r"
proof -
  obtain n where n: "fuel = Suc n" "5040 \<le> n" using assms(2) by (cases fuel) auto
  then have "backupWait \<le> int n * backupPoll" by (simp add: backupWait_def backupPoll_def)
  with await_loop_returns [OF assms(1), of "en_now en w + backupWait" w n] n(1) show ?thesis
    by (simp add: awaitBackup_def)
qed

lemma runTask_returns:
  assumes "sleeps_advance en" "5040 < fuel"
  shows "\<exists>r. runTask fuel en sid srv t run w = Some r"
proof -
  have "\<exists>r. backupRequested fuel en sid i run w' = Some r" for i w'
    using awaitBackup_returns [OF assms]
    by (auto simp: backupRequested_def Let_def done_with_def split: prod.split option.split) (metis option.distinct(1))
  then show ?thesis
    by (auto simp: runTask_def done_with_def split: ScheduleAction.split prod.split sum.split)
qed

lemma chain_task_returns:
  assumes "sleeps_advance en" "5040 < fuel"
  shows "\<exists>r. chain_task fuel en sc tasks carried run w = Some r"
proof -
  obtain err w1 where sl: "(if (if carried then rn_due run - en_now en w else tk_time_offset (tasks ! rn_next run) * second) > 0
      then en_sleep en (if carried then rn_due run - en_now en w else tk_time_offset (tasks ! rn_next run) * second) w
      else (None, w)) = (err, w1)" by fastforce
  have "\<exists>r. (if tk_action t = SchedBackup \<and> rn_backup run \<noteq> 0
       then (case awaitBackup fuel en (rn_backup run) (sc_id sc) (rn_generation run) w1 of
               None \<Rightarrow> None | Some ew \<Rightarrow> done_with run ew)
       else runTask fuel en (sc_id sc) srv t run w1) = Some r" for srv t
    using awaitBackup_returns [OF assms, of "rn_backup run" "sc_id sc" "rn_generation run" w1]
      runTask_returns [OF assms, of "sc_id sc" srv t run w1]
    by (auto simp: done_with_def)
  note task = this
  show ?thesis
  proof (cases "err = None \<and> active en (sc_id sc) (rn_generation run) w1")
    case False
    then show ?thesis unfolding chain_task_def Let_def sl by auto
  next
    case True
    show ?thesis
    proof (cases "GetServer (sc_server_id sc) (en_db en w1)")
      case (Inl e)
      with True show ?thesis unfolding chain_task_def Let_def sl by simp
    next
      case (Inr srv)
      obtain ok msg run2 w2 where "(if tk_action (tasks ! rn_next run) = SchedBackup \<and> rn_backup run \<noteq> 0
         then (case awaitBackup fuel en (rn_backup run) (sc_id sc) (rn_generation run) w1 of
                 None \<Rightarrow> None | Some ew \<Rightarrow> done_with run ew)
         else runTask fuel en (sc_id sc) srv (tasks ! rn_next run) run w1) = Some ((ok, msg), run2, w2)"
        using task [of "tasks ! rn_next run" srv] by fastforce
      with True Inr show ?thesis unfolding chain_task_def Let_def sl
        by (simp only: prod.case sum.case option.case simp_thms if_False if_True split: prod.split if_split) blast
    qed
  qed
qed

lemma chain_loop_returns:
  assumes "sleeps_advance en" "5040 < fuel"
  shows "\<exists>r. chain_loop fuel en sc tasks carried run w = Some r"
  using assms
proof (induction fuel en sc tasks carried run w rule: chain_loop.induct)
  case (1 fuel en sc tasks carried run w)
  obtain it where it: "chain_task fuel en sc tasks carried run w = Some it"
    using chain_task_returns [OF 1(2,3)] by blast
  show ?case
  proof (cases "rn_next run < length tasks")
    case True
    show ?thesis
    proof (cases it)
      case (Left run' w')
      with it True show ?thesis by (subst chain_loop.simps) auto
    next
      case (Broken run' w')
      with it True show ?thesis by (subst chain_loop.simps) auto
    next
      case (Advanced run' w')
      with it True 1(1) [OF True it Advanced 1(2,3)] show ?thesis by (subst chain_loop.simps) auto
    qed
  qed (subst chain_loop.simps, auto)
qed

text \<open>C20: a chain always comes to an end: provided that a wait that is not cut short lasts as long
  as asked, 5041 looks at a backup are enough for every wait of every chain, fresh or carried on,
  whatever the executor answers.\<close>

theorem runChain_returns:
  assumes "sleeps_advance en" "5040 < fuel"
  shows "\<exists>r. runChain fuel en sc resumed run w = Some r"
proof -
  obtain r where "chain_loop fuel en sc (TaskChain sc) resumed run w = Some r"
    using chain_loop_returns [OF assms] by blast
  then show ?thesis
    by (cases r) (auto simp: runChain_def Let_def split: sum.split bool.split)
qed

subsection \<open>What a chain did\<close>

text \<open>A task leaves the run alone but for the backup it waits for.\<close>

definition same_progress :: "ScheduleRun \<Rightarrow> ScheduleRun \<Rightarrow> bool" where
  "same_progress r r' = (rn_done r' = rn_done r \<and> rn_next r' = rn_next r
     \<and> rn_generation r' = rn_generation r \<and> rn_fired r' = rn_fired r)"

lemma done_with_progress: "done_with run ew = Some (x, run', w') \<Longrightarrow> run' = run"
  by (auto simp: done_with_def)

lemma runTask_progress:
  assumes "runTask fuel en sid srv t run w = Some (x, run', w')"
  shows "same_progress run run'"
proof -
  have "same_progress run run'" if "backupRequested fuel en sid i run w1 = Some (x, run', w')" for i w1
    using that by (auto simp: backupRequested_def Let_def same_progress_def dest!: done_with_progress
        split: prod.splits if_splits option.splits)
  with assms show ?thesis
    by (auto simp: runTask_def same_progress_def dest!: done_with_progress
        split: if_splits ScheduleAction.splits prod.splits sum.splits)
qed

definition task_result :: "ScheduleTask list \<Rightarrow> nat \<Rightarrow> string \<Rightarrow> bool" where
  \<comment> \<open>an entry of the summary for task \<open>i\<close>\<close>
  "task_result tasks i entry = prefix (task_entry i (tasks ! i) []) entry"

lemma task_result_intro [simp]:
  "task_result tasks i (task_entry i (tasks ! i) msg)" "task_result tasks i (task_entry i (tasks ! i) msg @ s)"
  by (simp_all add: task_result_def task_entry_def)

lemma chain_task_Broken:
  assumes "chain_task fuel en sc tasks carried run w = Some (Broken run' w')"
  shows "\<exists>entry. rn_done run' = rn_done run @ [entry] \<and> task_result tasks (rn_next run) entry
    \<and> rn_next run' = rn_next run \<and> rn_generation run' = rn_generation run \<and> rn_fired run' = rn_fired run
    \<and> (\<not> is_ok (GetServer (sc_server_id sc) (en_db en w')) \<or> \<not> tk_continue_on_failure (tasks ! rn_next run))"
  using assms unfolding chain_task_def Let_def
  by (auto simp: same_progress_def dest!: runTask_progress done_with_progress
      split: if_splits prod.splits option.splits sum.splits)

lemma chain_task_Advanced:
  assumes "chain_task fuel en sc tasks carried run w = Some (Advanced run' w')"
  shows "\<exists>entry. rn_done run' = rn_done run @ [entry] \<and> task_result tasks (rn_next run) entry
    \<and> rn_next run' = Suc (rn_next run) \<and> rn_generation run' = rn_generation run \<and> rn_fired run' = rn_fired run"
  using assms unfolding chain_task_def Let_def
  by (auto simp: same_progress_def dest!: runTask_progress done_with_progress
      split: if_splits prod.splits option.splits sum.splits)

definition progress_ok :: "ScheduleTask list \<Rightarrow> ScheduleRun \<Rightarrow> bool" where
  "progress_ok tasks run = (rn_next run \<le> length tasks \<and> length (rn_done run) = rn_next run
     \<and> (\<forall>j < rn_next run. task_result tasks j (rn_done run ! j)))"

lemma progress_ok_snoc:
  assumes "progress_ok tasks run" "rn_done run' = rn_done run @ [entry]" "task_result tasks (rn_next run) entry"
  shows "length (rn_done run') = Suc (rn_next run) \<and> (\<forall>j < Suc (rn_next run). task_result tasks j (rn_done run' ! j))"
  using assms by (auto simp: progress_ok_def nth_append less_Suc_eq)

lemma chain_loop_progress:
  assumes "chain_loop fuel en sc tasks carried run w = Some (True, run', w')" "progress_ok tasks run"
  shows "rn_generation run' = rn_generation run \<and> rn_fired run' = rn_fired run
    \<and> (\<forall>j < length (rn_done run'). task_result tasks j (rn_done run' ! j))
    \<and> ((rn_next run' = length tasks \<and> length (rn_done run') = length tasks)
       \<or> (rn_next run' < length tasks \<and> length (rn_done run') = Suc (rn_next run')
          \<and> (\<not> is_ok (GetServer (sc_server_id sc) (en_db en w')) \<or> \<not> tk_continue_on_failure (tasks ! rn_next run'))))"
  using assms
proof (induction fuel en sc tasks carried run w rule: chain_loop.induct)
  case (1 fuel en sc tasks carried run w)
  show ?case
  proof (cases "rn_next run < length tasks")
    case False
    with 1(2,3) show ?thesis by (subst (asm) chain_loop.simps) (auto simp: progress_ok_def)
  next
    case True
    with 1(2) obtain it where it: "chain_task fuel en sc tasks carried run w = Some it"
      by (subst (asm) chain_loop.simps) (auto split: option.splits)
    show ?thesis
    proof (cases it)
      case (Left run1 w1)
      with 1(2) True it show ?thesis by (subst (asm) chain_loop.simps) auto
    next
      case (Broken run1 w1)
      with 1(2) True it have "run1 = run'" "w1 = w'" by (subst (asm) chain_loop.simps, auto)+
      with chain_task_Broken [OF it [unfolded Broken]] progress_ok_snoc [OF 1(3)] True show ?thesis by fastforce
    next
      case (Advanced run1 w1)
      obtain entry where e: "rn_done run1 = rn_done run @ [entry]" "task_result tasks (rn_next run) entry"
        "rn_next run1 = Suc (rn_next run)" "rn_generation run1 = rn_generation run" "rn_fired run1 = rn_fired run"
        using chain_task_Advanced [OF it [unfolded Advanced]] by blast
      have "progress_ok tasks run1"
        using progress_ok_snoc [OF 1(3) e(1,2)] e(3) True by (simp add: progress_ok_def)
      moreover have "chain_loop fuel en sc tasks False run1 w1 = Some (True, run', w')"
        using 1(2) True it Advanced by (subst (asm) chain_loop.simps) simp
      ultimately show ?thesis using 1(1) [OF True it Advanced] e(4,5) by simp
    qed
  qed
qed

text \<open>a chain that ends accounts for its tasks: its status lists, in their order and one entry
  each, the tasks from the first to the last one reached; either every task was reached, or the
  chain stopped at one that may not fail or because its server was gone. A chain carried on from
  a checkpoint keeps the entries of the tasks done before and does not do them again.\<close>

theorem chain_accounts_for_its_tasks:
  assumes "runChain fuel en sc resumed run w = Some ((status, True), run', w')"
    and "is_ok (GetServer (sc_server_id sc) (en_db en w))" "TaskChain sc \<noteq> []" "progress_ok (TaskChain sc) run"
    and "\<not> (resumed \<and> resumeLimit < en_now en w - rn_due run)"
  shows "status = summary run' (if resumed then ''carried on after the controller restarted'' else [])
    \<and> (\<forall>j < length (rn_done run'). task_result (TaskChain sc) j (rn_done run' ! j))
    \<and> ((rn_next run' = length (TaskChain sc) \<and> length (rn_done run') = length (TaskChain sc))
       \<or> (rn_next run' < length (TaskChain sc) \<and> length (rn_done run') = Suc (rn_next run')
          \<and> (\<not> is_ok (GetServer (sc_server_id sc) (en_db en w'))
             \<or> \<not> tk_continue_on_failure (TaskChain sc ! rn_next run'))))"
proof -
  obtain srv where "GetServer (sc_server_id sc) (en_db en w) = Inr srv" using assms(2) by (auto simp: is_ok_iff)
  with assms(1,3,5) obtain run1 where loop: "chain_loop fuel en sc (TaskChain sc) resumed run w = Some (True, run', w')"
    and st: "status = summary run' (if resumed then ''carried on after the controller restarted'' else [])"
    by (auto simp: runChain_def Let_def split: if_splits option.splits bool.splits)
  from chain_loop_progress [OF loop assms(4)] st show ?thesis by blast
qed

text \<open>A schedule that was turned off dispatches nothing more: once the wait before its next task
  is over, a chain whose schedule has been disabled since it read it leaves without touching the
  executor, the backups or the database, also when the schedule has been turned on again.\<close>

theorem disabled_chain_dispatches_nothing:
  assumes "UpdateSchedule sc2 d = Inr d1" "\<not> sc_enabled sc2" "sc_id sc2 = sc_id sc" "schedules_ok d"
    and "rn_generation run \<le> sched_gen (sc_id sc) d"
    and "(kept_step (sc_id sc))\<^sup>*\<^sup>* d1 (en_db en w1)"
    and "en_sleep en (tk_time_offset (TaskChain sc ! rn_next run) * second) w = (err, w1)"
    and "0 < tk_time_offset (TaskChain sc ! rn_next run)" "rn_next run < length (TaskChain sc)"
    and "is_ok (GetServer (sc_server_id sc) (en_db en w))"
  shows "runChain fuel en sc False run w = Some (([], False), run, w1)"
proof -
  obtain cur where cur: "find (\<lambda>r. sc_id r = sc_id sc2) (schedules d) = Some cur"
    using assms(1) by (auto simp: UpdateSchedule_def split: option.splits)
  have ok: "schedules_ok d1" using schedule_step_ok [OF schedule_step.edit [OF assms(1)] assms(4)] .
  have "sched_gen (sc_id sc) d1 = sched_gen (sc_id sc) d + 1 \<and> \<not> sched_live (sc_id sc) d1"
    using assms(1-3) cur by (auto simp: UpdateSchedule_def sched_gen_def sched_live_def
        find_update_where [where k = sc_id] dest: find_SomeD split: if_splits)
  with assms(5) have "rn_generation run \<le> sched_gen (sc_id sc) d1"
    "\<not> (sched_live (sc_id sc) d1 \<and> sched_gen (sc_id sc) d1 = rn_generation run)" by auto
  from sf.lease_over [OF assms(6) this] stale_writer(1) [OF kept_steps_ok [OF assms(6) ok] _ refl]
  have off: "\<not> active en (sc_id sc) (rn_generation run) w1" by (auto simp: active_def)
  have "chain_task fuel en sc (TaskChain sc) False run w = Some (Left run w1)"
    using assms(7,8) off by (simp add: chain_task_def Let_def)
  then have "chain_loop fuel en sc (TaskChain sc) False run w = Some (False, run, w1)"
    using assms(9) by (subst chain_loop.simps) simp
  moreover have "TaskChain sc \<noteq> []" using assms(9) by auto
  moreover obtain srv where "GetServer (sc_server_id sc) (en_db en w) = Inr srv" using assms(10) by (auto simp: is_ok_iff)
  ultimately show ?thesis by (simp add: runChain_def)
qed

subsection \<open>A backup is not taken twice\<close>

lemma await_loop_backup_indep:
  "await_loop n (en\<lparr>en_backup := f\<rparr>) i sid g dl w = await_loop n en i sid g dl w"
proof (induction n arbitrary: w)
  case (Suc n)
  then show ?case
    by (simp add: active_def split: sum.split prod.split option.split)
qed simp

text \<open>A chain carried on while it was waiting for a backup it had requested waits for that one:
  the task it carries on does the same whatever the executor's backup action would do, so it
  never requests another.\<close>

theorem carried_on_backup_not_taken_again:
  assumes "rn_backup run \<noteq> 0" "tk_action (tasks ! rn_next run) = SchedBackup"
  shows "chain_task fuel (en\<lparr>en_backup := f\<rparr>) sc tasks carried run w = chain_task fuel en sc tasks carried run w"
proof -
  have aw: "awaitBackup fuel (en\<lparr>en_backup := f\<rparr>) i sid g w = awaitBackup fuel en i sid g w" for i sid g w
    by (simp add: awaitBackup_def await_loop_backup_indep)
  have sv: "saveRun (en\<lparr>en_backup := f\<rparr>) i r w = saveRun en i r w" for i r w
    by (simp add: saveRun_def)
  have ac: "active (en\<lparr>en_backup := f\<rparr>) i g w = active en i g w" for i g w
    by (simp add: active_def)
  have sel: "en_now (en\<lparr>en_backup := f\<rparr>) = en_now en" "en_db (en\<lparr>en_backup := f\<rparr>) = en_db en"
    "en_sleep (en\<lparr>en_backup := f\<rparr>) = en_sleep en" "en_cancelled (en\<lparr>en_backup := f\<rparr>) = en_cancelled en"
    by simp_all
  have waits: "(tk_action (tasks ! rn_next run) = SchedBackup \<and> rn_backup run \<noteq> 0) = True"
    using assms by simp
  show ?thesis
    unfolding chain_task_def Let_def aw sv ac sel waits if_True by (rule refl)
qed

subsection \<open>What a tick starts\<close>

definition tick_inv :: "time \<Rightarrow> row_id set \<Rightarrow> Schedule set \<Rightarrow> tick_state \<Rightarrow> bool" where
  "tick_inv now inflight seen st =
     (distinct (map (\<lambda>(sc, _, _). sc_id sc) (tk_launched st))
      \<and> tk_inflight st = inflight \<union> (\<lambda>(sc, _, _). sc_id sc) ` set (tk_launched st)
      \<and> (\<forall>(sc, run, carried) \<in> set (tk_launched st). sc \<in> seen \<and> sc_id sc \<notin> inflight
           \<and> (if carried then sc_run sc = Some run
              else sc_run sc = None \<and> (\<exists>due. sc_next_run sc = Some due \<and> due \<le> now)
                \<and> rn_generation run = sc_generation sc + 1 \<and> rn_next run = 0 \<and> rn_fired run = now)))"

lemma tick_inv_mono: "tick_inv now inflight seen st \<Longrightarrow> seen \<subseteq> seen' \<Longrightarrow> tick_inv now inflight seen' st"
  by (fastforce simp: tick_inv_def)

lemma tick_inv_db: "tick_inv now inflight seen st \<Longrightarrow> tick_inv now inflight seen (st\<lparr>tk_db := d\<rparr>)"
  by (simp add: tick_inv_def)

lemma tick_inv_launch:
  assumes "tick_inv now inflight seen st" "sc \<in> seen" "sc_id sc \<notin> tk_inflight st"
    and "if carried then sc_run sc = Some run
      else sc_run sc = None \<and> (\<exists>due. sc_next_run sc = Some due \<and> due \<le> now)
        \<and> rn_generation run = sc_generation sc + 1 \<and> rn_next run = 0 \<and> rn_fired run = now"
  shows "tick_inv now inflight seen (st\<lparr>tk_db := d, tk_inflight := insert (sc_id sc) (tk_inflight st),
    tk_launched := tk_launched st @ [(sc, run, carried)]\<rparr>)"
  using assms by (auto simp: tick_inv_def)

lemma tick_one_inv:
  assumes "tick_inv now inflight seen st" "sc \<in> seen"
  shows "tick_inv now inflight seen (tick_one cl now sc st)"
proof (cases "sc_run sc")
  case (Some run)
  then show ?thesis
    using assms tick_inv_launch [OF assms, of True run "tk_db st"] by (auto simp: tick_one_def acquire_def)
next
  case None
  show ?thesis
  proof (cases "sc_next_run sc")
    case None
    with \<open>sc_run sc = None\<close> assms show ?thesis
      by (auto simp: tick_one_def intro: tick_inv_db split: option.splits)
  next
    case (Some due)
    show ?thesis
    proof (cases "now < due \<or> sc_id sc \<in> tk_inflight st")
      case True
      with Some None assms show ?thesis by (auto simp: tick_one_def acquire_def Let_def)
    next
      case False
      define run where "run = \<lparr>rn_generation = 0, rn_fired = now, rn_next = 0,
        rn_due = (case TaskChain sc of [] \<Rightarrow> now | t # _ \<Rightarrow> now + tk_time_offset t * second), rn_backup = 0, rn_done = []\<rparr>"
      obtain started run' d' where start: "StartScheduleRun sc run (NextRunIn cl (sc_cron sc) now (sc_timezone sc)) (tk_db st)
          = ((started, run'), d')" by (metis surj_pair)
      then have run': "run' = run\<lparr>rn_generation := sc_generation sc + 1\<rparr>"
        by (auto simp: StartScheduleRun_def Let_def)
      have eq: "tick_one cl now sc st = (if started
           then st\<lparr>tk_db := d', tk_inflight := insert (sc_id sc) (tk_inflight st),
                   tk_launched := tk_launched st @ [(sc, run', False)]\<rparr>
           else st\<lparr>tk_db := d', tk_inflight := release (sc_id sc) (insert (sc_id sc) (tk_inflight st))\<rparr>)"
        using None Some False start by (simp add: tick_one_def acquire_def Let_def flip: run_def)
      have "release (sc_id sc) (insert (sc_id sc) (tk_inflight st)) = tk_inflight st"
        using False by (auto simp: release_def)
      then show ?thesis
        unfolding eq using tick_inv_launch [OF assms, of False run' d'] tick_inv_db [OF assms(1), of d'] None Some False
        by (simp add: run' run_def)
    qed
  qed
qed


subsection \<open>The hypotheses can hold\<close>

text \<open>A world that is the time, the database and what the executor was asked; waiting lets
  somebody else replace the database.\<close>

type_synonym demo_world = "time \<times> db \<times> string list"

definition demo_env :: "(db \<Rightarrow> db) \<Rightarrow> demo_world chain_env" where
  "demo_env others =
     \<lparr>en_now = fst, en_db = (\<lambda>(_, d, _). d), en_put = (\<lambda>d (t, _, l). (t, d, l)),
      en_sleep = (\<lambda>dur (t, d, l). (None, (t + dur, others d, l))), en_cancelled = (\<lambda>_. False),
      en_start = (\<lambda>_ (t, d, l). (None, (t, d, l @ [''start'']))),
      en_stop = (\<lambda>_ (t, d, l). (None, (t, d, l @ [''stop'']))),
      en_restart = (\<lambda>_ (t, d, l). (None, (t, d, l @ [''restart'']))),
      en_command = (\<lambda>_ c (t, d, l). (None, (t, d, l @ [c]))),
      en_backup = (\<lambda>_ (t, d, l). (Inr 9, (t, d, l @ [''backup''])))\<rparr>"

lemma demo_sleeps: "sleeps_advance (demo_env others)"
  by (auto simp: sleeps_advance_def demo_env_def)

theorem runChain_returns_witness:
  "\<exists>r. runChain 5041 (demo_env id) sample_schedule False sample_run (6, schedules_db [sample_schedule], []) = Some r"
  by (rule runChain_returns [OF demo_sleeps]) simp

definition live_schedule :: "ScheduleTask list \<Rightarrow> Schedule" where
  "live_schedule ts = sample_schedule\<lparr>sc_tasks := ts, sc_run := Some (sample_run\<lparr>rn_generation := 5\<rparr>), sc_generation := 5\<rparr>"

definition live_db :: "ScheduleTask list \<Rightarrow> db" where
  "live_db ts = (schedules_db [live_schedule ts])\<lparr>servers := [sample_server]\<rparr>"

definition stop_task :: "int \<Rightarrow> ScheduleTask" where
  "stop_task off = \<lparr>tk_action = SchedStop, tk_payload = [], tk_time_offset = off, tk_continue_on_failure = False\<rparr>"

lemmas chain_sample_defs = sched_sample_defs live_schedule_def live_db_def stop_task_def sample_server_def demo_env_def

theorem chain_accounts_for_its_tasks_witness:
  "\<exists>run' w'. runChain 5041 (demo_env id) (live_schedule [stop_task 0]) False (sample_run\<lparr>rn_generation := 5\<rparr>)
       (6, live_db [stop_task 0], []) = Some ((''#1 stop: ok'', True), run', w')
     \<and> length (rn_done run') = 1"
proof -
  let ?sc = "live_schedule [stop_task 0]" and ?run = "sample_run\<lparr>rn_generation := 5\<rparr>" and ?w = "(6, live_db [stop_task 0], [])"
  have tasks: "TaskChain ?sc = [stop_task 0]" by (simp add: TaskChain_def live_schedule_def)
  have get: "GetServer (sc_server_id ?sc) (en_db (demo_env id) ?w) = Inr sample_server"
    by (simp add: GetServer_def chain_sample_defs)
  have "task_entry 0 (stop_task 0) ''ok'' = ''#1 stop: ok''"
    by (simp add: task_entry_def action_name_def stop_task_def) code_simp
  then have e: "task_entry 0 (stop_task 0) ''ok'' = ''#1 stop: ok''" .
  obtain run' w' where ct: "chain_task 5041 (demo_env id) ?sc [stop_task 0] False ?run ?w = Some (Advanced run' w')"
    and r': "rn_done run' = [task_entry 0 (stop_task 0) ''ok'']" "rn_next run' = 1"
    by (simp add: chain_task_def Let_def active_def ScheduleRunActive_def rows_affected_def live_run_def
        runTask_def done_with_def result_def saveRun_def SaveScheduleRun_def GetServer_def chain_sample_defs)
  have "chain_loop 5041 (demo_env id) ?sc [stop_task 0] False run' w' = Some (True, run', w')"
    by (subst chain_loop.simps) (simp add: r'(2))
  moreover have "rn_next ?run = 0" by (simp add: sample_run_def)
  ultimately have "chain_loop 5041 (demo_env id) ?sc [stop_task 0] False ?run ?w = Some (True, run', w')"
    by (subst chain_loop.simps) (simp add: ct)
  then have run: "runChain 5041 (demo_env id) ?sc False ?run ?w = Some ((''#1 stop: ok'', True), run', w')"
    using get tasks by (simp add: runChain_def summary_def r'(1) e)
  have "progress_ok (TaskChain ?sc) ?run" by (simp add: progress_ok_def sample_run_def)
  from chain_accounts_for_its_tasks [OF run _ _ this] get tasks
  have "length (rn_done run') = 1" by (auto simp: less_Suc_eq)
  with run show ?thesis by - (rule exI, rule exI, rule conjI)
qed

theorem disabled_chain_dispatches_nothing_witness:
  "\<exists>w1. runChain 5041 (demo_env (\<lambda>d. state_after d (UpdateSchedule ((live_schedule [stop_task 9])\<lparr>sc_enabled := False\<rparr>) d)))
      (live_schedule [stop_task 9]) False (sample_run\<lparr>rn_generation := 5\<rparr>) (6, live_db [stop_task 9], [])
    = Some (([], False), sample_run\<lparr>rn_generation := 5\<rparr>, w1)"
proof -
  let ?sc = "live_schedule [stop_task 9]" and ?run = "sample_run\<lparr>rn_generation := 5\<rparr>" and ?d = "live_db [stop_task 9]"
  let ?sc2 = "?sc\<lparr>sc_enabled := False\<rparr>"
  let ?en = "demo_env (\<lambda>d. state_after d (UpdateSchedule ?sc2 d))"
  obtain d1 where d1: "UpdateSchedule ?sc2 ?d = Inr d1"
    by (simp add: UpdateSchedule_def TaskChain_def chain_sample_defs)
  let ?w1 = "(6 + 9 * second, d1, []) :: demo_world"
  have tasks: "TaskChain ?sc = [stop_task 9]" by (simp add: TaskChain_def live_schedule_def)
  have ok: "schedules_ok ?d" by (simp add: schedules_ok_def chain_sample_defs)
  have gen: "rn_generation ?run \<le> sched_gen (sc_id ?sc) ?d" by (simp add: sched_gen_def chain_sample_defs)
  have run: "(kept_step (sc_id ?sc))\<^sup>*\<^sup>* d1 (en_db ?en ?w1)" by (simp add: demo_env_def)
  have off: "tk_time_offset (TaskChain ?sc ! rn_next ?run) = 9"
    by (simp add: tasks sample_run_def) (simp add: stop_task_def)
  have sl: "en_sleep ?en (tk_time_offset (TaskChain ?sc ! rn_next ?run) * second) (6, ?d, []) = (None, ?w1)"
    using d1 by (simp only: off) (simp add: demo_env_def)
  have get: "is_ok (GetServer (sc_server_id ?sc) (en_db ?en (6, ?d, [])))" by (simp add: GetServer_def chain_sample_defs)
  have off2: "\<not> sc_enabled ?sc2" "sc_id ?sc2 = sc_id ?sc" by simp_all
  have pos: "0 < tk_time_offset (TaskChain ?sc ! rn_next ?run)" using off by simp
  have len: "rn_next ?run < length (TaskChain ?sc)" by (simp add: tasks sample_run_def)
  show ?thesis
    using disabled_chain_dispatches_nothing [OF d1 off2 ok gen run sl pos len get, of 5041] by (rule exI)
qed

theorem carried_on_backup_not_taken_again_witness:
  "chain_task 1 ((demo_env id)\<lparr>en_backup := \<lambda>_ w. (Inl ''no'', w)\<rparr>) sample_schedule
      [\<lparr>tk_action = SchedBackup, tk_payload = [], tk_time_offset = 0, tk_continue_on_failure = False\<rparr>] True
      (sample_run\<lparr>rn_backup := 4\<rparr>) (6, empty_db, [])
   = chain_task 1 (demo_env id) sample_schedule
      [\<lparr>tk_action = SchedBackup, tk_payload = [], tk_time_offset = 0, tk_continue_on_failure = False\<rparr>] True
      (sample_run\<lparr>rn_backup := 4\<rparr>) (6, empty_db, [])"
  by (rule carried_on_backup_not_taken_again) (simp_all add: sample_run_def)


end
