(* ===== verification/Accounts.thy ===== *)
theory Accounts imports Store_Db Go_Strings begin

text \<open>
  Accounts and their credentials in the store: users, admin roles, sessions, API keys, password
  resets, email confirmations and the second factor (\<open>store.go\<close>, \<open>adminrole.go\<close>,
  \<open>credentials.go\<close>, \<open>email.go\<close>, \<open>totp.go\<close>). Names and addresses are compared case
  aside: the case tables of the database and of Go's \<open>unicode\<close> package are the two functions
  of a \<open>case_lib\<close>. The key that seals secrets is an argument too.
\<close>

record case_lib =
  cs_sql_lower :: "string \<Rightarrow> string"  \<comment> \<open>the database's \<open>lower()\<close>\<close>
  cs_to_lower :: "string \<Rightarrow> string"   \<comment> \<open>\<open>strings.ToLower\<close>\<close>

subsection \<open>Users and admin roles\<close>

definition CountUsers :: "db \<Rightarrow> nat" where "CountUsers d = length (users d)"

definition CreateUser :: "case_lib \<Rightarrow> time \<Rightarrow> row_id \<Rightarrow> User \<Rightarrow> db \<Rightarrow> db_result" where
  "CreateUser cs clk new_id u d =
     (if any_row (\<lambda>v. cs_sql_lower cs (us_username v) = cs_sql_lower cs (us_username u)) (users d)
      then Inl ErrDuplicate
      else Inr (d\<lparr>users := users d @ [u\<lparr>us_id := new_id, us_created_at := clk, us_updated_at := clk\<rparr>]\<rparr>))"

definition GetAdminRole :: "row_id \<Rightarrow> db \<Rightarrow> store_error + AdminRole" where
  "GetAdminRole i d = (case find (\<lambda>r. ar_id r = i) (admin_roles d) of
     None \<Rightarrow> Inl ErrNotFound | Some r \<Rightarrow> Inr r)"

definition CreateAdminRole :: "row_id \<Rightarrow> AdminRole \<Rightarrow> db \<Rightarrow> db_result" where
  "CreateAdminRole new_id r d =
     (case insert_unique (\<lambda>r x. ar_name r = ar_name x) (r\<lparr>ar_id := new_id\<rparr>) (admin_roles d) of
        Inl e \<Rightarrow> Inl e | Inr rs \<Rightarrow> Inr (d\<lparr>admin_roles := rs\<rparr>))"

definition UpdateAdminRole :: "row_id \<Rightarrow> string \<Rightarrow> string \<Rightarrow> string list \<Rightarrow> db \<Rightarrow> db_result" where
  "UpdateAdminRole i name description perms d =
     (if any_row (\<lambda>r. ar_id r = i) (admin_roles d) \<and> any_row (\<lambda>r. ar_id r \<noteq> i \<and> ar_name r = name) (admin_roles d)
      then Inl ErrDuplicatedKey
      else Inr (d\<lparr>admin_roles := update_where (\<lambda>r. ar_id r = i)
             (\<lambda>r. r\<lparr>ar_name := name, ar_description := description, ar_permissions := perms\<rparr>) (admin_roles d)\<rparr>))"

definition DeleteAdminRole :: "row_id \<Rightarrow> db \<Rightarrow> db" where
  "DeleteAdminRole i d = d\<lparr>admin_roles := delete_where (\<lambda>r. ar_id r = i) (admin_roles d)\<rparr>"

definition CountUsersByAdminRole :: "row_id \<Rightarrow> db \<Rightarrow> nat" where
  "CountUsersByAdminRole i d = rows_affected (\<lambda>u. us_admin_role_id u = Some i) (users d)"

definition SetUserAdminRole :: "time \<Rightarrow> row_id \<Rightarrow> row_id option \<Rightarrow> db \<Rightarrow> db" where
  "SetUserAdminRole clk userID roleID d = update_user clk userID (us_admin_role_id_update (\<lambda>_. roleID)) d"

definition resolveAdminPerms :: "db \<Rightarrow> User \<Rightarrow> User" where
  "resolveAdminPerms d u =
     (if us_is_admin u then u\<lparr>us_admin_perms := AllAdminPermissions\<rparr>
      else
        (case us_admin_role_id u of
           None \<Rightarrow> u\<lparr>us_admin_perms := []\<rparr>
         | Some r \<Rightarrow>
             (case find (\<lambda>x. ar_id x = r) (admin_roles d) of
                None \<Rightarrow> u\<lparr>us_admin_perms := []\<rparr>
              | Some role \<Rightarrow> u\<lparr>us_admin_perms := ar_permissions role\<rparr>)))"

definition GetUser :: "row_id \<Rightarrow> db \<Rightarrow> store_error + User" where
  "GetUser i d = (case find (\<lambda>u. us_id u = i) (users d) of
     None \<Rightarrow> Inl ErrNotFound | Some u \<Rightarrow> Inr (resolveAdminPerms d u))"

definition ListUsers :: "db \<Rightarrow> User list" where
  \<comment> \<open>the map from roles to permissions is filled in the order of the roles, so a later role would win\<close>
  "ListUsers d =
     (let byID = map_of (rev (map (\<lambda>r. (ar_id r, ar_permissions r)) (admin_roles d)))
      in map (\<lambda>u. if us_is_admin u then u\<lparr>us_admin_perms := AllAdminPermissions\<rparr>
                  else (case us_admin_role_id u of
                          None \<Rightarrow> u
                        | Some r \<Rightarrow> u\<lparr>us_admin_perms := (case byID r of None \<Rightarrow> [] | Some ps \<Rightarrow> ps)\<rparr>))
             (users d))"

definition GetUserByUsername :: "case_lib \<Rightarrow> string \<Rightarrow> db \<Rightarrow> store_error + User" where
  "GetUserByUsername cs username d =
     (case find (\<lambda>u. us_username u = username) (users d) of
        Some u \<Rightarrow> Inr (resolveAdminPerms d u)
      | None \<Rightarrow>
          (case take 2 (filter (\<lambda>u. cs_sql_lower cs (us_username u) = cs_sql_lower cs username) (users d)) of
             [u] \<Rightarrow> Inr (resolveAdminPerms d u)
           | _ \<Rightarrow> Inl ErrNotFound))"

definition UsersWithAdminPerm :: "string \<Rightarrow> db \<Rightarrow> row_id list" where
  "UsersWithAdminPerm perm d =
     (let roleIDs = map ar_id (filter (\<lambda>r. Role_Has r perm) (admin_roles d))
      in if roleIDs \<noteq> []
         then map us_id (filter (\<lambda>u. us_is_admin u \<or> (\<exists>r \<in> set roleIDs. us_admin_role_id u = Some r)) (users d))
         else map us_id (filter us_is_admin (users d)))"

definition UpdateUserAdminFields ::
  "time \<Rightarrow> row_id \<Rightarrow> bool \<Rightarrow> int \<Rightarrow> int \<Rightarrow> int \<Rightarrow> db \<Rightarrow> db" where
  "UpdateUserAdminFields clk i isAdmin maxServers maxMemoryMB maxCPUMilli d =
     update_user clk i (\<lambda>u. u\<lparr>us_is_admin := isAdmin, us_max_servers := maxServers,
        us_max_memory_mb := maxMemoryMB, us_max_cpu_milli := maxCPUMilli,
        us_admin_role_id := (if isAdmin then None else us_admin_role_id u)\<rparr>) d"

definition CountAdmins :: "db \<Rightarrow> nat" where
  "CountAdmins d = rows_affected us_is_admin (users d)"

definition CountServersOwnedBy :: "row_id \<Rightarrow> db \<Rightarrow> nat" where
  "CountServersOwnedBy userID d = rows_affected (\<lambda>s. sv_owner_id s = userID) (servers d)"

definition DeleteUser :: "time \<Rightarrow> row_id \<Rightarrow> row_id \<Rightarrow> db \<Rightarrow> db_result" where
  "DeleteUser clk i reassignTo d =
     (if reassignTo = i then Inl ErrReassignToSelf
      else
        (let srvs = update_where (\<lambda>s. sv_owner_id s = i)
               (\<lambda>s. s\<lparr>sv_owner_id := reassignTo, sv_updated_at := clk\<rparr>) (servers d);
             owned = map sv_id (filter (\<lambda>s. sv_owner_id s = reassignTo) srvs);
             accs = delete_where (\<lambda>a. ac_user_id a = reassignTo \<and> ac_server_id a \<in> set owned) (accesses d)
         in Inr (d\<lparr>servers := srvs,
               accesses := delete_where (\<lambda>a. ac_user_id a = i) accs,
               invites := delete_where (\<lambda>v. iv_invited_by v = i) (invites d),
               api_keys := delete_where (\<lambda>k. ak_user_id k = i) (api_keys d),
               sessions := delete_where (\<lambda>s. se_user_id s = i) (sessions d),
               ssh_keys := delete_where (\<lambda>k. sk_user_id k = i) (ssh_keys d),
               resets := delete_where (\<lambda>r. pr_user_id r = i) (resets d),
               confirmations := delete_where (\<lambda>c. ec_user_id c = i) (confirmations d),
               users := delete_where (\<lambda>u. us_id u = i) (users d)\<rparr>)))"

subsection \<open>Sessions and API keys\<close>

definition CreateSession :: "time \<Rightarrow> Session \<Rightarrow> string \<Rightarrow> db \<Rightarrow> db_result" where
  "CreateSession clk sess verifiedHash d =
     (case lockUser (se_user_id sess) d of
        Inl e \<Rightarrow> Inl e
      | Inr u \<Rightarrow>
          if us_password_hash u \<noteq> verifiedHash then Inl ErrCredentialsChanged
          else
            (case insert_unique (\<lambda>s x. se_token s = se_token x) (sess\<lparr>se_created_at := clk\<rparr>) (sessions d) of
               Inl e \<Rightarrow> Inl e | Inr ss \<Rightarrow> Inr (d\<lparr>sessions := ss\<rparr>)))"

definition GetSession :: "string \<Rightarrow> db \<Rightarrow> store_error + Session" where
  "GetSession token d = (case find (\<lambda>s. se_token s = token) (sessions d) of
     None \<Rightarrow> Inl ErrNotFound | Some s \<Rightarrow> Inr s)"

definition DeleteSession :: "string \<Rightarrow> db \<Rightarrow> db" where
  "DeleteSession token d = d\<lparr>sessions := delete_where (\<lambda>s. se_token s = token) (sessions d)\<rparr>"

definition DeleteExpiredSessions :: "time \<Rightarrow> db \<Rightarrow> nat \<times> db" where
  "DeleteExpiredSessions now d =
     (rows_affected (\<lambda>s. se_expires_at s < now) (sessions d),
      d\<lparr>sessions := delete_where (\<lambda>s. se_expires_at s < now) (sessions d)\<rparr>)"

definition DeleteSessionsForUser :: "row_id \<Rightarrow> db \<Rightarrow> db" where
  "DeleteSessionsForUser userID d = d\<lparr>sessions := delete_where (\<lambda>s. se_user_id s = userID) (sessions d)\<rparr>"

definition CreateAPIKey :: "time \<Rightarrow> row_id \<Rightarrow> APIKey \<Rightarrow> db \<Rightarrow> db_result" where
  "CreateAPIKey clk new_id k d =
     (case insert_unique (\<lambda>k x. ak_hash k = ak_hash x) (k\<lparr>ak_id := new_id, ak_created_at := clk\<rparr>) (api_keys d) of
        Inl e \<Rightarrow> Inl e | Inr ks \<Rightarrow> Inr (d\<lparr>api_keys := ks\<rparr>))"

definition GetAPIKeyByHash :: "string \<Rightarrow> db \<Rightarrow> store_error + APIKey" where
  "GetAPIKeyByHash hash d = (case find (\<lambda>k. ak_hash k = hash) (api_keys d) of
     None \<Rightarrow> Inl ErrNotFound | Some k \<Rightarrow> Inr k)"

definition TouchAPIKey :: "row_id \<Rightarrow> time \<Rightarrow> db \<Rightarrow> db" where
  "TouchAPIKey i when d =
     d\<lparr>api_keys := update_where (\<lambda>k. ak_id k = i) (ak_last_used_at_update (\<lambda>_. Some when)) (api_keys d)\<rparr>"

definition DeleteAPIKey :: "row_id \<Rightarrow> db \<Rightarrow> db" where
  "DeleteAPIKey i d = d\<lparr>api_keys := delete_where (\<lambda>k. ak_id k = i) (api_keys d)\<rparr>"

subsection \<open>Passwords\<close>

definition changePassword :: "time \<Rightarrow> row_id \<Rightarrow> string \<Rightarrow> string \<Rightarrow> db \<Rightarrow> db" where
  "changePassword clk i hash keepSession d =
     (let d1 = update_user clk i (\<lambda>u. u\<lparr>us_password_hash := hash, us_pending_email := []\<rparr>) d;
          d2 = d1\<lparr>resets := delete_where (\<lambda>r. pr_user_id r = i) (resets d1)\<rparr>;
          d3 = d2\<lparr>confirmations := delete_where (\<lambda>c. ec_user_id c = i) (confirmations d2)\<rparr>
      in d3\<lparr>sessions := delete_where (\<lambda>s. se_user_id s = i \<and> (keepSession \<noteq> [] \<longrightarrow> se_token s \<noteq> keepSession))
           (sessions d3)\<rparr>)"

definition UpdateUserPassword ::
  "time \<Rightarrow> row_id \<Rightarrow> string \<Rightarrow> string \<Rightarrow> string \<Rightarrow> db \<Rightarrow> db_result" where
  "UpdateUserPassword clk i hash verifiedHash keepSession d =
     (case lockUser i d of
        Inl e \<Rightarrow> Inl e
      | Inr u \<Rightarrow>
          if us_password_hash u \<noteq> verifiedHash then Inl ErrCredentialsChanged
          else Inr (changePassword clk i hash keepSession d))"

definition GetPasswordResetByHash :: "string \<Rightarrow> db \<Rightarrow> store_error + PasswordReset" where
  "GetPasswordResetByHash hash d = (case find (\<lambda>r. pr_token_hash r = hash) (resets d) of
     None \<Rightarrow> Inl ErrNotFound | Some r \<Rightarrow> Inr r)"

definition CreatePasswordReset :: "time \<Rightarrow> row_id \<Rightarrow> PasswordReset \<Rightarrow> User \<Rightarrow> db \<Rightarrow> db_result" where
  "CreatePasswordReset clk new_id pr proof_user d =
     (case lockUser (pr_user_id pr) d of
        Inl e \<Rightarrow> Inl e
      | Inr u \<Rightarrow>
          if us_id proof_user \<noteq> us_id u \<or> us_password_hash proof_user \<noteq> us_password_hash u
             \<or> us_email proof_user \<noteq> us_email u
          then Inl ErrCredentialsChanged
          else
            (case insert_unique (\<lambda>r x. pr_token_hash r = pr_token_hash x)
                    (pr\<lparr>pr_id := new_id, pr_created_at := clk\<rparr>)
                    (delete_where (\<lambda>r. pr_user_id r = pr_user_id pr) (resets d)) of
               Inl e \<Rightarrow> Inl e | Inr rs \<Rightarrow> Inr (d\<lparr>resets := rs\<rparr>)))"

definition ResetPassword :: "time \<Rightarrow> time \<Rightarrow> PasswordReset \<Rightarrow> string \<Rightarrow> db \<Rightarrow> db_result" where
  \<comment> \<open>\<open>now\<close> is \<open>time.Now()\<close>, \<open>clk\<close> what gorm stamps\<close>
  "ResetPassword now clk pr hash d =
     (case lockUser (pr_user_id pr) d of
        Inl e \<Rightarrow> Inl e
      | Inr _ \<Rightarrow>
          (let P = (\<lambda>r. pr_id r = pr_id pr \<and> pr_user_id r = pr_user_id pr
                 \<and> pr_token_hash r = pr_token_hash pr \<and> now < pr_expires_at r)
           in if rows_affected P (resets d) \<noteq> 1 then Inl ErrNotFound
              else Inr (changePassword clk (pr_user_id pr) hash [] (d\<lparr>resets := delete_where P (resets d)\<rparr>))))"

definition DeleteExpiredPasswordResets :: "time \<Rightarrow> db \<Rightarrow> nat \<times> db" where
  "DeleteExpiredPasswordResets now d =
     (rows_affected (\<lambda>r. pr_expires_at r < now) (resets d),
      d\<lparr>resets := delete_where (\<lambda>r. pr_expires_at r < now) (resets d)\<rparr>)"

subsection \<open>Email addresses\<close>

definition GetUserByEmail :: "case_lib \<Rightarrow> string \<Rightarrow> db \<Rightarrow> store_error + User" where
  "GetUserByEmail cs email d =
     (let email = TrimSpace (cs_to_lower cs email)
      in if email = [] then Inl ErrNotFound
         else (case take 2 (filter (\<lambda>u. cs_sql_lower cs (us_email u) = email) (users d)) of
                 [u] \<Rightarrow> Inr u | _ \<Rightarrow> Inl ErrNotFound))"

definition EmailTaken :: "case_lib \<Rightarrow> string \<Rightarrow> row_id \<Rightarrow> db \<Rightarrow> bool" where
  "EmailTaken cs email except d =
     (let email = TrimSpace (cs_to_lower cs email)
      in email \<noteq> [] \<and> rows_affected (\<lambda>u. cs_sql_lower cs (us_email u) = email \<and> us_id u \<noteq> except) (users d) > 0)"

definition UpdateUserEmail :: "time \<Rightarrow> row_id \<Rightarrow> string \<Rightarrow> db \<Rightarrow> db_result" where
  "UpdateUserEmail clk i email d =
     (case lockUser i d of
        Inl e \<Rightarrow> Inl e
      | Inr u \<Rightarrow>
          (let d1 = (if us_email u \<noteq> TrimSpace email
                     then d\<lparr>resets := delete_where (\<lambda>r. pr_user_id r = i) (resets d)\<rparr> else d);
               d2 = d1\<lparr>confirmations := delete_where (\<lambda>c. ec_user_id c = i) (confirmations d1)\<rparr>
           in Inr (update_user clk i
                (\<lambda>u. u\<lparr>us_email := TrimSpace email, us_email_verified := False, us_pending_email := []\<rparr>) d2)))"

definition StartEmailConfirmation ::
  "time \<Rightarrow> row_id \<Rightarrow> EmailConfirmation \<Rightarrow> string \<Rightarrow> db \<Rightarrow> db_result" where
  "StartEmailConfirmation clk new_id c verifiedHash d =
     (case lockUser (ec_user_id c) d of
        Inl e \<Rightarrow> Inl e
      | Inr u \<Rightarrow>
          if us_password_hash u \<noteq> verifiedHash then Inl ErrCredentialsChanged
          else
            (let cs = delete_where (\<lambda>x. ec_user_id x = ec_user_id c) (confirmations d);
                 pending = (if ec_email c = us_email u then [] else ec_email c);
                 d1 = update_user clk (us_id u) (us_pending_email_update (\<lambda>_. pending)) d
             in (case insert_unique (\<lambda>r x. ec_token_hash r = ec_token_hash x)
                        (c\<lparr>ec_id := new_id, ec_created_at := clk\<rparr>) cs of
                   Inl e \<Rightarrow> Inl e | Inr cs' \<Rightarrow> Inr (d1\<lparr>confirmations := cs'\<rparr>))))"

definition CancelPendingEmail :: "time \<Rightarrow> row_id \<Rightarrow> db \<Rightarrow> db_result" where
  "CancelPendingEmail clk userID d =
     (case lockUser userID d of
        Inl e \<Rightarrow> Inl e
      | Inr _ \<Rightarrow> Inr (update_user clk userID (us_pending_email_update (\<lambda>_. []))
                 (d\<lparr>confirmations := delete_where (\<lambda>c. ec_user_id c = userID) (confirmations d)\<rparr>)))"

definition confirm_tx ::
  "case_lib \<Rightarrow> time \<Rightarrow> time \<Rightarrow> EmailConfirmation \<Rightarrow> string \<Rightarrow> db \<Rightarrow> store_error + (User \<times> db)" where
  \<comment> \<open>the transaction of \<open>ConfirmEmail\<close>, on the row \<open>c\<close> read before it\<close>
  "confirm_tx cs now clk c tokenHash d =
     (case lockUser (ec_user_id c) d of
        Inl e \<Rightarrow> Inl e
      | Inr u \<Rightarrow>
          (let P = (\<lambda>x. ec_id x = ec_id c \<and> ec_token_hash x = tokenHash \<and> now < ec_expires_at x)
           in if rows_affected P (confirmations d) \<noteq> 1
                 \<or> (ec_email c \<noteq> us_pending_email u \<and> ec_email c \<noteq> us_email u)
              then Inl ErrConfirmationInvalid
              else if rows_affected (\<lambda>v. cs_sql_lower cs (us_email v) = cs_to_lower cs (ec_email c)
                        \<and> us_id v \<noteq> us_id u) (users d) > 0
              then Inl ErrDuplicate
              else
                (let d1 = d\<lparr>confirmations := delete_where P (confirmations d)\<rparr>;
                     d2 = (if us_email u \<noteq> ec_email c
                           then d1\<lparr>resets := delete_where (\<lambda>r. pr_user_id r = us_id u) (resets d1)\<rparr> else d1);
                     f = (\<lambda>u. u\<lparr>us_email := ec_email c, us_email_verified := True, us_pending_email := []\<rparr>)
                 in Inr ((f u)\<lparr>us_updated_at := clk\<rparr>, update_user clk (us_id u) f d2))))"

definition ConfirmEmail ::
  "case_lib \<Rightarrow> (db \<Rightarrow> db) \<Rightarrow> time \<Rightarrow> time \<Rightarrow> string \<Rightarrow> db \<Rightarrow> store_error + (User \<times> db)" where
  \<comment> \<open>\<open>between\<close> is what others commit between the read of the link and the transaction\<close>
  "ConfirmEmail cs between now clk tokenHash d =
     (case find (\<lambda>c. ec_token_hash c = tokenHash) (confirmations d) of
        None \<Rightarrow> Inl ErrConfirmationInvalid
      | Some c \<Rightarrow> confirm_tx cs now clk c tokenHash (between d))"

subsection \<open>The second factor\<close>

definition SetUserTOTPSecret ::
  "(string \<Rightarrow> string option) \<Rightarrow> time \<Rightarrow> row_id \<Rightarrow> string \<Rightarrow> db \<Rightarrow> db_result" where
  "SetUserTOTPSecret seal clk i secret d =
     (case seal secret of
        None \<Rightarrow> Inl ErrSealing
      | Some enc \<Rightarrow> Inr (update_user clk i (\<lambda>u. u\<lparr>us_totp_secret_enc := enc, us_totp_enabled := False\<rparr>) d))"

definition EnableUserTOTP :: "time \<Rightarrow> row_id \<Rightarrow> string list \<Rightarrow> db \<Rightarrow> db" where
  "EnableUserTOTP clk i recoveryHashes d =
     update_user clk i (\<lambda>u. u\<lparr>us_totp_enabled := True, us_recovery_codes := recoveryHashes\<rparr>) d"

definition DisableUserTOTP :: "time \<Rightarrow> row_id \<Rightarrow> db \<Rightarrow> db" where
  "DisableUserTOTP clk i d =
     update_user clk i (\<lambda>u. u\<lparr>us_totp_secret_enc := [], us_totp_enabled := False, us_recovery_codes := [],
        us_last_totp_step := 0\<rparr>) d"

definition ConsumeTOTPStep :: "time \<Rightarrow> row_id \<Rightarrow> 64 word \<Rightarrow> db \<Rightarrow> bool \<times> db" where
  \<comment> \<open>a column that is NULL, on a row older than the column, reads as 0, which no code has\<close>
  "ConsumeTOTPStep clk userID step d =
     (let P = (\<lambda>u. us_id u = userID \<and> us_last_totp_step u < step)
      in (rows_affected P (users d) = 1,
          d\<lparr>users := update_where P (\<lambda>u. u\<lparr>us_last_totp_step := step, us_updated_at := clk\<rparr>) (users d)\<rparr>))"

fun ConsumeRecoveryCode ::
  "(string \<Rightarrow> string) \<Rightarrow> time \<Rightarrow> row_id \<Rightarrow> string \<Rightarrow> (db \<Rightarrow> db) list \<Rightarrow> db \<Rightarrow> ((store_error + bool) \<times> db) option" where
  \<comment> \<open>one element of the list per pass of the loop: what others commit between its read and its
    write; \<open>None\<close> is a loop that has not ended within those passes\<close>
  "ConsumeRecoveryCode hash clk i code [] d = None"
| "ConsumeRecoveryCode hash clk i code (between # rest) d =
     (case find (\<lambda>u. us_id u = i) (users d) of
        None \<Rightarrow> Some (Inl ErrRecordNotFound, d)
      | Some u \<Rightarrow>
          (let want = hash code; remaining = filter (\<lambda>h. h \<noteq> want) (us_recovery_codes u)
           in if want \<notin> set (us_recovery_codes u) then Some (Inr False, d)
              else
                (let d' = between d; P = (\<lambda>v. us_id v = i \<and> us_recovery_codes v = us_recovery_codes u)
                 in if rows_affected P (users d') = 1
                    then Some (Inr True, d'\<lparr>users := update_where P
                          (\<lambda>v. v\<lparr>us_recovery_codes := remaining, us_updated_at := clk\<rparr>) (users d')\<rparr>)
                    else ConsumeRecoveryCode hash clk i code rest d')))"

end
