(* ===== verification/Access.thy ===== *)
theory Access imports Accounts Store_Props begin

text \<open>
  Who may do what on a server: the invitations and the grants (\<open>invite.go\<close> and the subusers of
  \<open>store.go\<close>), the SSH keys that may open its files (\<open>sshkey.go\<close>), and the checks the API
  makes before it acts (\<open>internal/api/authz.go\<close>).
\<close>

subsection \<open>Grants\<close>

definition GetServerAccess :: "row_id \<Rightarrow> row_id \<Rightarrow> db \<Rightarrow> store_error + ServerAccess" where
  "GetServerAccess serverID userID d =
     (case find (\<lambda>a. ac_server_id a = serverID \<and> ac_user_id a = userID) (accesses d) of
        None \<Rightarrow> Inl ErrNotFound | Some a \<Rightarrow> Inr a)"

definition save_grant :: "row_id \<Rightarrow> row_id \<Rightarrow> row_id \<Rightarrow> string list \<Rightarrow> db \<Rightarrow> db_result" where
  \<comment> \<open>a grant is created, or the one there is takes these permissions\<close>
  "save_grant new_id serverID userID perms d =
     (case find (\<lambda>a. ac_server_id a = serverID \<and> ac_user_id a = userID) (accesses d) of
        None \<Rightarrow> Inr (d\<lparr>accesses := accesses d @
                  [\<lparr>ac_id = new_id, ac_server_id = serverID, ac_user_id = userID, ac_permissions = perms\<rparr>]\<rparr>)
      | Some a \<Rightarrow> Inr (d\<lparr>accesses := update_where (\<lambda>x. ac_id x = ac_id a)
                  (\<lambda>_. a\<lparr>ac_permissions := perms\<rparr>) (accesses d)\<rparr>))"

definition GrantAccess :: "row_id \<Rightarrow> row_id \<Rightarrow> row_id \<Rightarrow> string list \<Rightarrow> db \<Rightarrow> db_result" where
  "GrantAccess new_id serverID userID perms d = save_grant new_id serverID userID perms d"

definition ListAccessForServer :: "row_id \<Rightarrow> db \<Rightarrow> (ServerAccess \<times> string) list" where
  \<comment> \<open>each grant with its user's name\<close>
  "ListAccessForServer serverID d =
     map (\<lambda>a. (a, case GetUser (ac_user_id a) d of Inr u \<Rightarrow> us_username u | Inl _ \<Rightarrow> []))
       (sort_key ac_id (filter (\<lambda>a. ac_server_id a = serverID) (accesses d)))"

definition RevokeAccess :: "row_id \<Rightarrow> row_id \<Rightarrow> db \<Rightarrow> db" where
  "RevokeAccess serverID userID d =
     d\<lparr>accesses := delete_where (\<lambda>a. ac_server_id a = serverID \<and> ac_user_id a = userID) (accesses d)\<rparr>"

definition DeleteAccessForServer :: "row_id \<Rightarrow> db \<Rightarrow> db" where
  "DeleteAccessForServer serverID d =
     d\<lparr>accesses := delete_where (\<lambda>a. ac_server_id a = serverID) (accesses d)\<rparr>"

definition ListAccessibleServers :: "row_id \<Rightarrow> db \<Rightarrow> Server list" where
  \<comment> \<open>\<open>SearchAccessibleServers\<close> with no name to search for\<close>
  "ListAccessibleServers userID d =
     sort_key sv_created_at (filter (\<lambda>s. sv_owner_id s = userID
        \<or> sv_id s \<in> ac_server_id ` set (filter (\<lambda>a. ac_user_id a = userID) (accesses d))) (servers d))"

subsection \<open>Invitations\<close>

definition SetServerInvite :: "time \<Rightarrow> row_id \<Rightarrow> ServerInvite \<Rightarrow> db \<Rightarrow> db_result" where
  "SetServerInvite clk new_id iv d =
     (case insert_unique
             (\<lambda>v x. iv_token_hash v = iv_token_hash x \<or> (iv_server_id v = iv_server_id x \<and> iv_email v = iv_email x))
             (iv\<lparr>iv_id := new_id, iv_created_at := clk\<rparr>)
             (delete_where (\<lambda>v. iv_server_id v = iv_server_id iv \<and> iv_email v = iv_email iv) (invites d)) of
        Inl e \<Rightarrow> Inl e | Inr vs \<Rightarrow> Inr (d\<lparr>invites := vs\<rparr>))"

definition inviter_name :: "db \<Rightarrow> ServerInvite \<Rightarrow> string" where
  "inviter_name d v = (case GetUser (iv_invited_by v) d of Inr u \<Rightarrow> us_username u | Inl _ \<Rightarrow> [])"

definition ListServerInvites :: "time \<Rightarrow> row_id \<Rightarrow> db \<Rightarrow> (ServerInvite \<times> string) list" where
  "ListServerInvites now serverID d =
     map (\<lambda>v. (v, inviter_name d v))
       (sort_key iv_id (filter (\<lambda>v. iv_server_id v = serverID \<and> now < iv_expires_at v) (invites d)))"

definition CountServerInvites :: "time \<Rightarrow> row_id \<Rightarrow> db \<Rightarrow> nat" where
  "CountServerInvites now serverID d =
     rows_affected (\<lambda>v. iv_server_id v = serverID \<and> now < iv_expires_at v) (invites d)"

definition GetServerInvite :: "row_id \<Rightarrow> row_id \<Rightarrow> db \<Rightarrow> store_error + ServerInvite" where
  "GetServerInvite serverID i d =
     (case find (\<lambda>v. iv_id v = i \<and> iv_server_id v = serverID) (invites d) of
        None \<Rightarrow> Inl ErrNotFound | Some v \<Rightarrow> Inr v)"

definition GetServerInviteByHash :: "time \<Rightarrow> string \<Rightarrow> db \<Rightarrow> store_error + (ServerInvite \<times> string)" where
  "GetServerInviteByHash now hash d =
     (case find (\<lambda>v. iv_token_hash v = hash \<and> now < iv_expires_at v) (invites d) of
        None \<Rightarrow> Inl ErrNotFound | Some v \<Rightarrow> Inr (v, inviter_name d v))"

definition DeleteServerInvite :: "row_id \<Rightarrow> db \<Rightarrow> db" where
  "DeleteServerInvite i d = d\<lparr>invites := delete_where (\<lambda>v. iv_id v = i) (invites d)\<rparr>"

definition acceptInvite :: "time \<Rightarrow> row_id \<Rightarrow> ServerInvite \<Rightarrow> row_id \<Rightarrow> db \<Rightarrow> db_result" where
  "acceptInvite now new_id iv userID d =
     (let P = (\<lambda>v. iv_id v = iv_id iv \<and> now < iv_expires_at v)
      in if rows_affected P (invites d) \<noteq> 1 then Inl ErrNotFound
         else save_grant new_id (iv_server_id iv) userID (iv_permissions iv)
                (d\<lparr>invites := delete_where P (invites d)\<rparr>))"

definition AcceptServerInvite :: "time \<Rightarrow> row_id \<Rightarrow> ServerInvite \<Rightarrow> row_id \<Rightarrow> db \<Rightarrow> db_result" where
  "AcceptServerInvite now new_id iv userID d = acceptInvite now new_id iv userID d"

definition RegisterFromInvite ::
  "time \<Rightarrow> time \<Rightarrow> row_id \<Rightarrow> row_id \<Rightarrow> ServerInvite \<Rightarrow> User \<Rightarrow> db \<Rightarrow> db_result" where
  \<comment> \<open>\<open>i\<close> is the new account's key, \<open>new_id\<close> the new grant's\<close>
  "RegisterFromInvite now clk i new_id iv u d =
     (case insert_unique (\<lambda>v x. us_username v = us_username x)
             (u\<lparr>us_id := i, us_created_at := clk, us_updated_at := clk\<rparr>) (users d) of
        Inl e \<Rightarrow> Inl e
      | Inr us \<Rightarrow> acceptInvite now new_id iv i (d\<lparr>users := us\<rparr>))"

definition DeleteExpiredServerInvites :: "time \<Rightarrow> db \<Rightarrow> nat \<times> db" where
  "DeleteExpiredServerInvites now d =
     (rows_affected (\<lambda>v. iv_expires_at v < now) (invites d),
      d\<lparr>invites := delete_where (\<lambda>v. iv_expires_at v < now) (invites d)\<rparr>)"

subsection \<open>SSH keys\<close>

definition PermFiles :: string where "PermFiles = ''files''"

definition AddSSHKey :: "time \<Rightarrow> row_id \<Rightarrow> SSHKey \<Rightarrow> db \<Rightarrow> db_result" where
  "AddSSHKey clk new_id k d =
     (case insert_unique (\<lambda>k x. sk_user_id k = sk_user_id x \<and> sk_fingerprint k = sk_fingerprint x)
             (k\<lparr>sk_id := new_id, sk_created_at := clk\<rparr>) (ssh_keys d) of
        Inl _ \<Rightarrow> Inl ErrDuplicate | Inr ks \<Rightarrow> Inr (d\<lparr>ssh_keys := ks\<rparr>))"

definition SSHKeyByFingerprint :: "row_id \<Rightarrow> string \<Rightarrow> db \<Rightarrow> store_error + SSHKey" where
  "SSHKeyByFingerprint userID fingerprint d =
     (case find (\<lambda>k. sk_user_id k = userID \<and> sk_fingerprint k = fingerprint) (ssh_keys d) of
        None \<Rightarrow> Inl ErrNotFound | Some k \<Rightarrow> Inr k)"

definition ListSSHKeysForUser :: "row_id \<Rightarrow> db \<Rightarrow> SSHKey list" where
  "ListSSHKeysForUser userID d = sort_key sk_id (filter (\<lambda>k. sk_user_id k = userID) (ssh_keys d))"

definition DeleteSSHKey :: "row_id \<Rightarrow> db \<Rightarrow> db" where
  "DeleteSSHKey i d = d\<lparr>ssh_keys := delete_where (\<lambda>k. sk_id k = i) (ssh_keys d)\<rparr>"

definition ListAuthorizedSSHKeys :: "row_id \<Rightarrow> db \<Rightarrow> store_error + SSHKey list" where
  "ListAuthorizedSSHKeys serverID d =
     (case GetServer serverID d of
        Inl e \<Rightarrow> Inl e
      | Inr srv \<Rightarrow>
          (let userIDs = sv_owner_id srv # UsersWithAdminPerm AdminPermServers d
                 @ map ac_user_id (filter (\<lambda>a. Access_Has a PermFiles) (map fst (ListAccessForServer serverID d)))
           in Inr (filter (\<lambda>k. sk_user_id k \<in> set userIDs \<and> sk_user_id k \<in> us_id ` set (users d)) (ssh_keys d))))"

subsection \<open>The API's checks (authz.go)\<close>

definition can :: "db \<Rightarrow> User option \<Rightarrow> Server \<Rightarrow> string \<Rightarrow> bool" where
  "can d u srv perm =
     (case u of
        None \<Rightarrow> False
      | Some usr \<Rightarrow>
          if HasAdminPerm u AdminPermServers \<or> sv_owner_id srv = us_id usr then True
          else (case GetServerAccess (sv_id srv) (us_id usr) d of
                  Inl _ \<Rightarrow> False | Inr acc \<Rightarrow> Access_Has acc perm))"

definition permissionsOn :: "db \<Rightarrow> User option \<Rightarrow> Server \<Rightarrow> string list" where
  "permissionsOn d u srv =
     (case u of
        None \<Rightarrow> []
      | Some usr \<Rightarrow>
          if HasAdminPerm u AdminPermServers \<or> sv_owner_id srv = us_id usr then AllPermissions
          else (case GetServerAccess (sv_id srv) (us_id usr) d of
                  Inl _ \<Rightarrow> [] | Inr acc \<Rightarrow> filter (Access_Has acc) AllPermissions))"

datatype http_error =
    Status400 string | Status403 string | Status404 string | Status409 string

definition refuseSuspended :: "User option \<Rightarrow> Server \<Rightarrow> http_error option" where
  "refuseSuspended u srv =
     (if sv_desired_state srv \<noteq> StateSuspended \<or> HasAdminPerm u AdminPermServers then None
      else Some (Status409 ''server is suspended by an administrator''))"

definition lookupServer :: "db \<Rightarrow> row_id option \<Rightarrow> http_error + Server" where
  \<comment> \<open>\<open>path_id\<close> is the id of the path, when it is one\<close>
  "lookupServer d path_id =
     (case path_id of
        None \<Rightarrow> Inl (Status400 ''invalid server id'')
      | Some i \<Rightarrow> (case GetServer i d of Inl _ \<Rightarrow> Inl (Status404 ''server not found'') | Inr srv \<Rightarrow> Inr srv))"

definition requireServer :: "db \<Rightarrow> User option \<Rightarrow> row_id option \<Rightarrow> string \<Rightarrow> http_error + Server" where
  "requireServer d u path_id perm =
     (case lookupServer d path_id of
        Inl e \<Rightarrow> Inl e
      | Inr srv \<Rightarrow>
          if can d u srv perm
          then (case (if perm \<noteq> PermView then refuseSuspended u srv else None) of
                  Some e \<Rightarrow> Inl e | None \<Rightarrow> Inr srv)
          else if can d u srv PermView then Inl (Status403 ''insufficient permissions'')
          else Inl (Status404 ''server not found''))"

definition requireAdmin :: "User option \<Rightarrow> http_error option" where
  "requireAdmin u = (case u of
       None \<Rightarrow> Some (Status403 ''admin privileges required'')
     | Some usr \<Rightarrow> if us_is_admin usr then None else Some (Status403 ''admin privileges required''))"

definition requireAdminPerm :: "User option \<Rightarrow> string \<Rightarrow> http_error option" where
  "requireAdminPerm u perm =
     (if HasAdminPerm u perm then None else Some (Status403 ''admin privileges required''))"


subsection \<open>What the checks decide\<close>

lemma resolve_id [simp]: "us_id (resolveAdminPerms d u) = us_id u"
  by (simp add: resolveAdminPerms_def split: option.split)

lemma can_admin [simp]: "HasAdminPerm u AdminPermServers \<Longrightarrow> can d u srv p"
  by (cases u) (simp_all add: can_def HasAdminPerm_def)

lemma can_None [simp]: "\<not> can d None srv p"
  by (simp add: can_def)

text \<open>The permissions the API lists to a user on a server are exactly those its checks grant.\<close>

lemma permissionsOn_can:
  "set (permissionsOn d u srv) = {p. ValidPermission p \<and> can d u srv p}"
proof (cases u)
  case (Some usr)
  then show ?thesis
    by (cases "GetServerAccess (sv_id srv) (us_id usr) d") (auto simp: permissionsOn_def can_def ValidPermission_def)
qed (simp add: permissionsOn_def)

text \<open>the server of a request is handed to an action exactly when it exists, its user holds the
  permission, and it is not suspended unless the user administers servers or only looks; a user
  with no access to it gets the answer a missing server gets, so that its existence does not show.\<close>

theorem requireServer_decides:
  "(requireServer d u (Some i) p = Inr srv \<longleftrightarrow>
      GetServer i d = Inr srv \<and> can d u srv p
      \<and> \<not> (p \<noteq> PermView \<and> sv_desired_state srv = StateSuspended \<and> \<not> HasAdminPerm u AdminPermServers))
   \<and> (requireServer d u (Some i) p = Inl (Status404 ''server not found'') \<longleftrightarrow>
      (case GetServer i d of Inl _ \<Rightarrow> True | Inr srv \<Rightarrow> \<not> can d u srv p \<and> \<not> can d u srv PermView))"
  by (auto simp: requireServer_def lookupServer_def refuseSuspended_def split: sum.split option.split)

definition access_ok :: "db \<Rightarrow> bool" where
  \<comment> \<open>what the primary keys and the unique index of the grants keep\<close>
  "access_ok d = (distinct (map us_id (users d)) \<and> distinct (map ar_id (admin_roles d))
     \<and> distinct (map ac_id (accesses d)) \<and> distinct (map (\<lambda>a. (ac_server_id a, ac_user_id a)) (accesses d)))"

lemma find_user: "access_ok d \<Longrightarrow> find (\<lambda>u. us_id u = i) (users d) = Some u \<longleftrightarrow> u \<in> set (users d) \<and> us_id u = i"
  by (simp add: access_ok_def find_row_iff)

lemma find_grant:
  assumes "access_ok d"
  shows "find (\<lambda>a. ac_server_id a = s \<and> ac_user_id a = i) (accesses d) = Some a
    \<longleftrightarrow> a \<in> set (accesses d) \<and> ac_server_id a = s \<and> ac_user_id a = i"
  using find_row_iff [of "\<lambda>a. (ac_server_id a, ac_user_id a)" "accesses d" "(s, i)" a] assms
  by (simp add: access_ok_def prod_eq_iff)

lemma UsersWithAdminPerm_iff:
  assumes "access_ok d" "u \<in> set (users d)"
  shows "us_id u \<in> set (UsersWithAdminPerm AdminPermServers d)
    \<longleftrightarrow> HasAdminPerm (Some (resolveAdminPerms d u)) AdminPermServers"
proof -
  have ids: "us_id v = us_id u \<Longrightarrow> v \<in> set (users d) \<Longrightarrow> v = u" for v
    using assms distinct_key_eq [of us_id "users d"] by (auto simp: access_ok_def)
  have role: "find (\<lambda>x. ar_id x = r) (admin_roles d) = Some x \<longleftrightarrow> x \<in> set (admin_roles d) \<and> ar_id x = r" for r x
    using assms(1) by (simp add: access_ok_def find_row_iff)
  have "us_id u \<in> set (UsersWithAdminPerm AdminPermServers d) \<longleftrightarrow>
    us_is_admin u \<or> (\<exists>x \<in> set (admin_roles d). us_admin_role_id u = Some (ar_id x) \<and> Role_Has x AdminPermServers)"
  proof -
    have pick: "us_id u \<in> set (map us_id (filter P (users d))) \<longleftrightarrow> P u" for P using assms(2) ids by auto
    show ?thesis
    proof (cases "filter (\<lambda>r. Role_Has r AdminPermServers) (admin_roles d) = []")
      case True
      then have "UsersWithAdminPerm AdminPermServers d = map us_id (filter us_is_admin (users d))"
        by (simp add: UsersWithAdminPerm_def)
      with True show ?thesis by (auto simp only: pick filter_empty_conv)
    next
      case False
      then have "UsersWithAdminPerm AdminPermServers d = map us_id (filter (\<lambda>u. us_is_admin u
          \<or> (\<exists>r \<in> set (map ar_id (filter (\<lambda>r. Role_Has r AdminPermServers) (admin_roles d))).
                us_admin_role_id u = Some r)) (users d))"
        by (simp add: UsersWithAdminPerm_def)
      then show ?thesis by (simp only: pick) auto
    qed
  qed
  also have "\<dots> \<longleftrightarrow> HasAdminPerm (Some (resolveAdminPerms d u)) AdminPermServers"
  proof (cases "us_is_admin u \<or> us_admin_role_id u = None")
    case True
    then show ?thesis by (auto simp: HasAdminPerm_def resolveAdminPerms_def AllAdminPermissions_def split: option.split)
  next
    case False
    then obtain r where r: "us_admin_role_id u = Some r" "\<not> us_is_admin u" by auto
    show ?thesis
    proof (cases "find (\<lambda>x. ar_id x = r) (admin_roles d)")
      case None
      then have "resolveAdminPerms d u = u\<lparr>us_admin_perms := []\<rparr>" by (simp add: resolveAdminPerms_def r)
      moreover have "\<forall>x \<in> set (admin_roles d). ar_id x \<noteq> r" using None by (simp add: find_None)
      ultimately show ?thesis using r by (auto simp: HasAdminPerm_def)
    next
      case (Some x)
      then have "resolveAdminPerms d u = u\<lparr>us_admin_perms := ar_permissions x\<rparr>" by (simp add: resolveAdminPerms_def r)
      moreover have "y \<in> set (admin_roles d) \<and> ar_id y = r \<longleftrightarrow> y = x" for y using role [of r y] Some by auto
      ultimately show ?thesis using r by (fastforce simp: HasAdminPerm_def Role_Has_def)
    qed
  qed
  finally show ?thesis .
qed

text \<open>C24: a key opens a server's files over SFTP exactly when the account it belongs to exists and the
  API's checks let that account at them: the two ways in agree.\<close>

theorem ssh_keys_follow_the_checks:
  assumes "access_ok d" "GetServer i d = Inr srv"
  shows "\<exists>keys. ListAuthorizedSSHKeys i d = Inr keys
    \<and> set keys = {k \<in> set (ssh_keys d). \<exists>u. GetUser (sk_user_id k) d = Inr u \<and> can d (Some u) srv PermFiles}"
proof -
  have srv: "sv_id srv = i" using assms(2) by (auto simp: GetServer_def split: option.splits dest: find_SomeD)
  have grants: "map fst (ListAccessForServer i d) = sort_key ac_id (filter (\<lambda>a. ac_server_id a = i) (accesses d))"
    by (simp add: ListAccessForServer_def comp_def)
  have "j \<in> set (sv_owner_id srv # UsersWithAdminPerm AdminPermServers d
           @ map ac_user_id (filter (\<lambda>a. Access_Has a PermFiles) (map fst (ListAccessForServer i d))))
       \<and> j \<in> us_id ` set (users d)
    \<longleftrightarrow> (\<exists>u. GetUser j d = Inr u \<and> can d (Some u) srv PermFiles)" for j
  proof (cases "find (\<lambda>u. us_id u = j) (users d)")
    case None
    then have "GetUser j d = Inl ErrNotFound" "j \<notin> us_id ` set (users d)" by (simp add: GetUser_def) (use None in \<open>auto simp: find_None\<close>)
    then show ?thesis by simp
  next
    case (Some u)
    then have u: "u \<in> set (users d)" "us_id u = j" using find_user [OF assms(1)] by auto
    have "(\<exists>a \<in> set (accesses d). ac_server_id a = i \<and> ac_user_id a = j \<and> Access_Has a PermFiles)
      \<longleftrightarrow> (case GetServerAccess i j d of Inl _ \<Rightarrow> False | Inr acc \<Rightarrow> Access_Has acc PermFiles)"
    proof (cases "find (\<lambda>a. ac_server_id a = i \<and> ac_user_id a = j) (accesses d)")
      case None
      then have "GetServerAccess i j d = Inl ErrNotFound" by (simp add: GetServerAccess_def)
      with None show ?thesis by (auto simp: find_None)
    next
      case (Some a)
      then have "b \<in> set (accesses d) \<and> ac_server_id b = i \<and> ac_user_id b = j \<longleftrightarrow> b = a" for b
        using find_grant [OF assms(1), of i j b] by auto
      note only = this
      have "(\<exists>b \<in> set (accesses d). ac_server_id b = i \<and> ac_user_id b = j \<and> Access_Has b PermFiles)
        \<longleftrightarrow> Access_Has a PermFiles" using only by metis
      moreover have "GetServerAccess i j d = Inr a" using Some by (simp add: GetServerAccess_def)
      ultimately show ?thesis by simp
    qed
    then show ?thesis
      using Some u UsersWithAdminPerm_iff [OF assms(1) u(1)] srv
      by (auto simp: GetUser_def can_def grants image_iff)
  qed
  then show ?thesis using assms(2) by (auto simp: ListAuthorizedSSHKeys_def Let_def)
qed


subsection \<open>An account that is deleted\<close>

text \<open>a deleted account leaves no credential, grant or invitation behind; its servers go to the
  account named, which is left with no grant on a server of its own, and nothing of anybody
  else's changes hands.\<close>

theorem deleted_account_leaves_nothing:
  assumes "DeleteUser clk i r d = Inr d'"
  shows "(\<forall>u \<in> set (users d'). us_id u \<noteq> i) \<and> (\<forall>s \<in> set (servers d'). sv_owner_id s \<noteq> i)
    \<and> (\<forall>a \<in> set (accesses d'). ac_user_id a \<noteq> i) \<and> (\<forall>v \<in> set (invites d'). iv_invited_by v \<noteq> i)
    \<and> (\<forall>k \<in> set (api_keys d'). ak_user_id k \<noteq> i) \<and> (\<forall>k \<in> set (ssh_keys d'). sk_user_id k \<noteq> i)
    \<and> (\<forall>s \<in> set (sessions d'). se_user_id s \<noteq> i) \<and> (\<forall>p \<in> set (resets d'). pr_user_id p \<noteq> i)
    \<and> (\<forall>c \<in> set (confirmations d'). ec_user_id c \<noteq> i)
    \<and> (\<forall>a \<in> set (accesses d'). \<forall>s \<in> set (servers d').
         \<not> (sv_id s = ac_server_id a \<and> sv_owner_id s = r \<and> ac_user_id a = r))
    \<and> map (\<lambda>s. (sv_id s, sv_owner_id s)) (servers d')
        = map (\<lambda>s. (sv_id s, if sv_owner_id s = i then r else sv_owner_id s)) (servers d)
    \<and> filter (\<lambda>a. ac_user_id a \<notin> {i, r}) (accesses d') = filter (\<lambda>a. ac_user_id a \<notin> {i, r}) (accesses d)"
proof -
  from assms have ne: "r \<noteq> i" and d': "d' = state_after d (DeleteUser clk i r d)"
    by (auto simp: DeleteUser_def split: if_splits)
  define srvs where "srvs = update_where (\<lambda>s. sv_owner_id s = i)
    (\<lambda>s. s\<lparr>sv_owner_id := r, sv_updated_at := clk\<rparr>) (servers d)"
  have srv: "servers d' = srvs" using ne by (simp add: d' DeleteUser_def Let_def srvs_def)
  have acc: "accesses d' = delete_where (\<lambda>a. ac_user_id a = i) (delete_where (\<lambda>a. ac_user_id a = r
      \<and> ac_server_id a \<in> set (map sv_id (filter (\<lambda>s. sv_owner_id s = r) srvs))) (accesses d))"
    using ne by (simp add: d' DeleteUser_def Let_def srvs_def)
  have rest: "users d' = delete_where (\<lambda>u. us_id u = i) (users d)"
    "invites d' = delete_where (\<lambda>v. iv_invited_by v = i) (invites d)"
    "api_keys d' = delete_where (\<lambda>k. ak_user_id k = i) (api_keys d)"
    "ssh_keys d' = delete_where (\<lambda>k. sk_user_id k = i) (ssh_keys d)"
    "sessions d' = delete_where (\<lambda>s. se_user_id s = i) (sessions d)"
    "resets d' = delete_where (\<lambda>p. pr_user_id p = i) (resets d)"
    "confirmations d' = delete_where (\<lambda>c. ec_user_id c = i) (confirmations d)"
    using ne by (simp_all add: d' DeleteUser_def Let_def)
  have "\<forall>s \<in> set srvs. sv_owner_id s \<noteq> i" using ne by (auto simp: srvs_def set_update_where)
  moreover have "map (\<lambda>s. (sv_id s, sv_owner_id s)) srvs
      = map (\<lambda>s. (sv_id s, if sv_owner_id s = i then r else sv_owner_id s)) (servers d)"
    by (simp add: srvs_def update_where_def)
  moreover have "filter (\<lambda>a. ac_user_id a \<notin> {i, r}) (accesses d') = filter (\<lambda>a. ac_user_id a \<notin> {i, r}) (accesses d)"
    unfolding acc delete_where_def filter_filter by (rule filter_cong) auto
  moreover have "\<not> (sv_id s = ac_server_id a \<and> sv_owner_id s = r \<and> ac_user_id a = r)"
    if "a \<in> set (accesses d')" "s \<in> set srvs" for a s
    using that by (auto simp: acc set_delete_where image_iff)
  moreover have "\<forall>a \<in> set (accesses d'). ac_user_id a \<noteq> i" by (simp add: acc set_delete_where)
  ultimately show ?thesis by (simp add: srv rest set_delete_where)
qed

subsection \<open>An invitation is good for one grant\<close>

definition invite_live :: "time \<Rightarrow> ServerInvite \<Rightarrow> db \<Rightarrow> bool" where
  "invite_live now iv d = (\<exists>v \<in> set (invites d). iv_id v = iv_id iv \<and> now < iv_expires_at v)"

lemma acceptInvite_dead: "\<not> invite_live now iv d \<Longrightarrow> acceptInvite now n iv i d = Inl ErrNotFound"
  by (auto simp: acceptInvite_def Let_def invite_live_def rows_affected_def filter_empty_conv)

lemma acceptInvite_Inr:
  assumes "acceptInvite now n iv i d = Inr d'"
  shows "invites d' = delete_where (\<lambda>v. iv_id v = iv_id iv \<and> now < iv_expires_at v) (invites d)"
    "save_grant n (iv_server_id iv) i (iv_permissions iv) d = Inr (d'\<lparr>invites := invites d\<rparr>)"
  using assms by (auto simp: acceptInvite_def Let_def save_grant_def split: if_splits option.splits)

lemma save_grant_effect:
  assumes "access_ok d" "save_grant n s i ps d = Inr d'"
  shows "\<exists>a. GetServerAccess s i d' = Inr a \<and> ac_permissions a = ps"
    "(s', i') \<noteq> (s, i) \<Longrightarrow> GetServerAccess s' i' d' = GetServerAccess s' i' d"
proof -
  let ?P = "\<lambda>s i a. ac_server_id a = s \<and> ac_user_id a = i"
  have "(\<exists>a. find (?P s i) (accesses d') = Some a \<and> ac_permissions a = ps)
    \<and> ((s', i') \<noteq> (s, i) \<longrightarrow> find (?P s' i') (accesses d') = find (?P s' i') (accesses d))"
  proof (cases "find (?P s i) (accesses d)")
    case None
    then show ?thesis
      using assms(2) by (auto simp: save_grant_def find_snoc split: option.splits)
  next
    case (Some a)
    then have a: "a \<in> set (accesses d)" "ac_server_id a = s" "ac_user_id a = i" by (auto dest: find_SomeD)
    define f where "f = (\<lambda>x. if ac_id x = ac_id a then a\<lparr>ac_permissions := ps\<rparr> else x)"
    have d': "accesses d' = map f (accesses d)"
      using assms(2) Some by (auto simp: save_grant_def update_where_def f_def)
    have key: "x \<in> set (accesses d) \<Longrightarrow> ac_id x = ac_id a \<Longrightarrow> x = a" for x
      using assms(1) a(1) distinct_key_eq [of ac_id "accesses d"] by (auto simp: access_ok_def)
    have keep: "x \<in> set (accesses d) \<Longrightarrow> ac_server_id (f x) = ac_server_id x \<and> ac_user_id (f x) = ac_user_id x" for x
      using key by (auto simp: f_def)
    have find_f: "find (?P s'' i'') (accesses d') = map_option f (find (?P s'' i'') (accesses d))" for s'' i''
      unfolding d' by (rule find_map_same) (simp add: keep)
    have "find (?P s i) (accesses d') = Some (a\<lparr>ac_permissions := ps\<rparr>)"
      using Some by (simp add: find_f f_def)
    moreover have "find (?P s' i') (accesses d') = find (?P s' i') (accesses d)" if "(s', i') \<noteq> (s, i)"
    proof (cases "find (?P s' i') (accesses d)")
      case (Some x)
      then have "x \<in> set (accesses d)" "ac_server_id x = s'" "ac_user_id x = i'" by (auto dest: find_SomeD)
      then have "ac_id x \<noteq> ac_id a" using key a that by auto
      with Some show ?thesis by (simp add: find_f f_def)
    qed (simp add: find_f)
    ultimately show ?thesis by auto
  qed
  then show "\<exists>a. GetServerAccess s i d' = Inr a \<and> ac_permissions a = ps"
    "(s', i') \<noteq> (s, i) \<Longrightarrow> GetServerAccess s' i' d' = GetServerAccess s' i' d"
    by (auto simp: GetServerAccess_def)
qed

text \<open>An invitation that is accepted gives exactly its permissions on its server to the account that
  accepted it, changes no other grant, and is used up: nobody can accept it again.\<close>

theorem invite_accepted_once:
  assumes "access_ok d" "AcceptServerInvite now n iv i d = Inr d'"
  shows "(\<exists>a. GetServerAccess (iv_server_id iv) i d' = Inr a \<and> ac_permissions a = iv_permissions iv)
    \<and> (\<forall>s j. (s, j) \<noteq> (iv_server_id iv, i) \<longrightarrow> GetServerAccess s j d' = GetServerAccess s j d)
    \<and> (\<forall>m j. AcceptServerInvite now m iv j d' = Inl ErrNotFound)"
proof -
  from assms(2) have acc: "acceptInvite now n iv i d = Inr d'" by (simp add: AcceptServerInvite_def)
  have [simp]: "GetServerAccess s j (d'\<lparr>invites := invites d\<rparr>) = GetServerAccess s j d'" for s j
    by (simp add: GetServerAccess_def)
  have "\<not> invite_live now iv d'" by (auto simp: invite_live_def acceptInvite_Inr(1) [OF acc] set_delete_where)
  with save_grant_effect [OF assms(1) acceptInvite_Inr(2) [OF acc]] show ?thesis
    by (auto simp: AcceptServerInvite_def acceptInvite_dead)
qed

text \<open>An invitation that was withdrawn, replaced by a new one to the same address, or whose server or
  inviter was deleted since the request read it, is refused.\<close>

theorem revoked_invite_refused:
  assumes "iv \<in> set (invites d)" "distinct (map iv_id (invites d))"
    and "d' \<in> {DeleteServerInvite (iv_id iv) d, DeleteServer (iv_server_id iv) d}
       \<union> {state_after d (DeleteUser clk (iv_invited_by iv) r d) | clk r. r \<noteq> iv_invited_by iv}
       \<union> {d'. \<exists>clk n v. SetServerInvite clk n v d = Inr d' \<and> n \<noteq> iv_id iv
               \<and> iv_server_id v = iv_server_id iv \<and> iv_email v = iv_email iv}"
  shows "AcceptServerInvite now m iv j d' = Inl ErrNotFound"
proof -
  have key: "v \<in> set (invites d) \<Longrightarrow> iv_id v = iv_id iv \<Longrightarrow> v = iv" for v
    using assms(1,2) distinct_key_eq [of iv_id "invites d"] by auto
  have "\<forall>v \<in> set (invites d'). iv_id v \<noteq> iv_id iv"
    using assms(3) key
    by (fastforce simp: DeleteServerInvite_def DeleteServer_def DeleteUser_def SetServerInvite_def Let_def
        set_delete_where insert_unique_Inr split: sum.splits)
  then have "\<not> invite_live now iv d'" by (auto simp: invite_live_def)
  then show ?thesis by (simp add: AcceptServerInvite_def acceptInvite_dead)
qed


subsection \<open>Accounts made from an invitation\<close>

definition sample_user :: "row_id \<Rightarrow> string \<Rightarrow> User" where
  "sample_user i name =
     \<lparr>us_id = i, us_username = name, us_password_hash = ''h'', us_email = [], us_email_verified = False,
      us_pending_email = [], us_is_admin = False, us_admin_role_id = None, us_created_at = 0, us_updated_at = 0,
      us_admin_perms = [], us_max_servers = 0, us_max_memory_mb = -1, us_max_cpu_milli = -1,
      us_totp_secret_enc = [], us_totp_enabled = False, us_last_totp_step = 0, us_recovery_codes = []\<rparr>"

definition sample_invite :: ServerInvite where
  "sample_invite = \<lparr>iv_id = 1, iv_created_at = 0, iv_server_id = 1, iv_email = ''a@b'', iv_permissions = [''view'', ''files''],
     iv_invited_by = 1, iv_token_hash = ''t'', iv_expires_at = 100\<rparr>"

definition ascii_case :: case_lib where
  "ascii_case = \<lparr>cs_sql_lower = map lower_ascii, cs_to_lower = map lower_ascii\<rparr>"

definition twins_db :: db where
  \<comment> \<open>two accounts from before names were told apart case aside, and an open invitation\<close>
  "twins_db = empty_db\<lparr>users := [sample_user 1 ''Bob'', sample_user 2 ''BOB''], invites := [sample_invite]\<rparr>"

lemmas access_sample_defs = sample_user_def sample_invite_def twins_db_def empty_db_def sample_server_def

text \<open>an account made from an invitation is not refused a name that only differs in case from
  others: where two accounts have such a name already, looking the name up finds none of them,
  the address is free, and the account is made, although creating it the other way is refused.\<close>

theorem invited_account_takes_a_twin_name:
  "GetUserByUsername ascii_case ''bob'' twins_db = Inl ErrNotFound
   \<and> \<not> EmailTaken ascii_case ''a@b'' 0 twins_db
   \<and> CreateUser ascii_case 5 3 (sample_user 0 ''bob'') twins_db = Inl ErrDuplicate
   \<and> (case RegisterFromInvite 5 5 3 1 sample_invite (sample_user 0 ''bob'') twins_db of
        Inl _ \<Rightarrow> False
      | Inr d \<Rightarrow> map us_username (users d) = [''Bob'', ''BOB'', ''bob''])"
proof -
  have low: "map lower_ascii ''Bob'' = ''bob''" "map lower_ascii ''BOB'' = ''bob''" "map lower_ascii ''bob'' = ''bob''"
    by code_simp+
  have "TrimSpace (map lower_ascii ''a@b'') = ''a@b''" by code_simp
  moreover have "map lower_ascii [] \<noteq> ''a@b''" by simp
  ultimately show ?thesis
    using low
    by (simp add: GetUserByUsername_def EmailTaken_def CreateUser_def RegisterFromInvite_def acceptInvite_def
        save_grant_def insert_unique_def any_row_def rows_affected_def ascii_case_def access_sample_defs Let_def)
qed

subsection \<open>The hypotheses can hold\<close>

definition sample_grant :: ServerAccess where
  "sample_grant = \<lparr>ac_id = 1, ac_server_id = 1, ac_user_id = 2, ac_permissions = [''view'', ''files'']\<rparr>"

definition sample_key :: SSHKey where
  "sample_key = \<lparr>sk_id = 1, sk_created_at = 0, sk_user_id = 2, sk_name = [], sk_public_key = [], sk_fingerprint = ''f''\<rparr>"

definition access_db :: db where
  "access_db = empty_db\<lparr>servers := [sample_server], users := [sample_user 1 ''ann'', sample_user 2 ''bob''],
     accesses := [sample_grant], ssh_keys := [sample_key], invites := [sample_invite]\<rparr>"

lemma access_db_ok: "access_ok access_db"
  by (simp add: access_ok_def access_db_def sample_grant_def access_sample_defs)

theorem ssh_keys_follow_the_checks_witness:
  "\<exists>keys. ListAuthorizedSSHKeys 1 access_db = Inr keys \<and> set keys = {sample_key}"
proof -
  have srv: "GetServer 1 access_db = Inr sample_server"
    by (simp add: GetServer_def access_db_def access_sample_defs)
  have u: "GetUser 2 access_db = Inr (sample_user 2 ''bob'')"
    by (simp add: GetUser_def resolveAdminPerms_def access_db_def access_sample_defs)
  have "can access_db (Some (sample_user 2 ''bob'')) sample_server PermFiles"
    by (simp add: can_def GetServerAccess_def HasAdminPerm_def Access_Has_def PermFiles_def access_db_def sample_grant_def
        access_sample_defs)
  then have "{k \<in> set (ssh_keys access_db). \<exists>u. GetUser (sk_user_id k) access_db = Inr u
      \<and> can access_db (Some u) sample_server PermFiles} = {sample_key}"
    using u by (auto simp: access_db_def sample_key_def)
  then show ?thesis using ssh_keys_follow_the_checks [OF access_db_ok srv] by simp
qed

theorem deleted_account_leaves_nothing_witness:
  "\<exists>d'. DeleteUser 5 1 2 access_db = Inr d' \<and> map (\<lambda>s. (sv_id s, sv_owner_id s)) (servers d') = [(1, 2)]"
proof -
  obtain d' where d: "DeleteUser 5 1 2 access_db = Inr d'" by (simp add: DeleteUser_def Let_def)
  have "map (\<lambda>s. (sv_id s, if sv_owner_id s = 1 then 2 else sv_owner_id s)) (servers access_db) = [(1, 2)]"
    by (simp add: access_db_def access_sample_defs)
  with deleted_account_leaves_nothing [OF d] d show ?thesis by auto
qed

theorem invite_accepted_once_witness:
  "\<exists>d' a. AcceptServerInvite 5 2 sample_invite 1 access_db = Inr d' \<and> GetServerAccess 1 1 d' = Inr a
     \<and> ac_permissions a = [''view'', ''files'']"
proof -
  obtain d' where d: "AcceptServerInvite 5 2 sample_invite 1 access_db = Inr d'"
    by (simp add: AcceptServerInvite_def acceptInvite_def Let_def rows_affected_def save_grant_def access_db_def
        sample_grant_def access_sample_defs)
  have s: "iv_server_id sample_invite = 1" "iv_permissions sample_invite = [''view'', ''files'']"
    by (simp_all add: sample_invite_def)
  from invite_accepted_once [OF access_db_ok d] d show ?thesis unfolding s by blast
qed

theorem revoked_invite_refused_witness:
  "AcceptServerInvite 5 2 sample_invite 1 (DeleteServer 1 access_db) = Inl ErrNotFound"
proof -
  have "sample_invite \<in> set (invites access_db)" "distinct (map iv_id (invites access_db))"
    "iv_server_id sample_invite = 1"
    by (simp_all add: access_db_def access_sample_defs)
  then show ?thesis using revoked_invite_refused [of sample_invite access_db "DeleteServer 1 access_db"] by auto
qed

end
