(* ===== verification/Account_Machine.thy ===== *)
theory Account_Machine imports Access Fence begin

text \<open>
  What the accounts' transactions keep, whatever their order. A step is one transaction of the
  store on the accounts, or whatever the rest of the program does to the other tables. Beside the
  database a step keeps a ghost: for each session the password its holder has proved last, and for
  each reset link the password and the address its account had when it was sent.
\<close>

record ghost =
  gh_proved :: "string \<Rightarrow> string"
  gh_sent :: "row_id \<Rightarrow> string \<times> string"

type_synonym account_state = "db \<times> ghost"

inductive account_step :: "case_lib \<Rightarrow> account_state \<Rightarrow> account_state \<Rightarrow> bool" for cs where
  create_user: "CreateUser cs clk i u d = Inr d' \<Longrightarrow> i \<notin> us_id ` set (users d) \<Longrightarrow> account_step cs (d, g) (d', g)"
| register: "RegisterFromInvite now clk i n iv u d = Inr d' \<Longrightarrow> i \<notin> us_id ` set (users d) \<Longrightarrow>
    account_step cs (d, g) (d', g)"
| admin_fields: "account_step cs (d, g) (UpdateUserAdminFields clk i adm ms mm mc d, g)"
| admin_role: "account_step cs (d, g) (SetUserAdminRole clk i r d, g)"
| delete_user: "DeleteUser clk i r d = Inr d' \<Longrightarrow> account_step cs (d, g) (d', g)"
| create_session: "CreateSession clk s h d = Inr d' \<Longrightarrow>
    account_step cs (d, g) (d', g\<lparr>gh_proved := (gh_proved g)(se_token s := h)\<rparr>)"
| delete_session: "account_step cs (d, g) (DeleteSession t d, g)"
| expire_sessions: "account_step cs (d, g) (snd (DeleteExpiredSessions now d), g)"
| drop_sessions: "account_step cs (d, g) (DeleteSessionsForUser i d, g)"
| update_password: "UpdateUserPassword clk i hash verified keep d = Inr d' \<Longrightarrow>
    account_step cs (d, g) (d', g\<lparr>gh_proved := (\<lambda>t. if t = keep \<and> keep \<noteq> []
        \<and> (\<exists>s \<in> set (sessions d). se_token s = t \<and> se_user_id s = i) then hash else gh_proved g t)\<rparr>)"
| create_reset: "CreatePasswordReset clk n pr u d = Inr d' \<Longrightarrow> n \<notin> pr_id ` set (resets d) \<Longrightarrow>
    account_step cs (d, g) (d', g\<lparr>gh_sent := (gh_sent g)(n := (us_password_hash u, us_email u))\<rparr>)"
| reset_password: "ResetPassword now clk pr hash d = Inr d' \<Longrightarrow> account_step cs (d, g) (d', g)"
| expire_resets: "account_step cs (d, g) (snd (DeleteExpiredPasswordResets now d), g)"
| update_email: "UpdateUserEmail clk i e d = Inr d' \<Longrightarrow> account_step cs (d, g) (d', g)"
| start_confirmation: "StartEmailConfirmation clk n c h d = Inr d' \<Longrightarrow> n \<notin> ec_id ` set (confirmations d) \<Longrightarrow>
    account_step cs (d, g) (d', g)"
| cancel_pending: "CancelPendingEmail clk i d = Inr d' \<Longrightarrow> account_step cs (d, g) (d', g)"
| confirm: \<comment> \<open>the row read before the transaction is never changed, nor its key used again\<close>
    "confirm_tx cs now clk c h d = Inr (u, d') \<Longrightarrow> (\<forall>x \<in> set (confirmations d). ec_id x = ec_id c \<longrightarrow> x = c) \<Longrightarrow>
    account_step cs (d, g) (d', g)"
| totp_secret: "SetUserTOTPSecret seal clk i secret d = Inr d' \<Longrightarrow> account_step cs (d, g) (d', g)"
| totp_enable: "account_step cs (d, g) (EnableUserTOTP clk i hs d, g)"
| totp_disable: "account_step cs (d, g) (DisableUserTOTP clk i d, g)"
| totp_step: "account_step cs (d, g) (snd (ConsumeTOTPStep clk i stp d), g)"
| recovery: "ConsumeRecoveryCode hsh clk i code [\<lambda>d. d] d = Some (r, d') \<Longrightarrow> account_step cs (d, g) (d', g)"
| elsewhere: "users d' = users d \<Longrightarrow> sessions d' = sessions d \<Longrightarrow> resets d' = resets d \<Longrightarrow>
    confirmations d' = confirmations d \<Longrightarrow> account_step cs (d, g) (d', g)"

subsection \<open>The invariant\<close>

definition proj :: "User \<Rightarrow> string \<times> string \<times> string" where
  "proj u = (us_password_hash u, us_email u, us_pending_email u)"

definition acct :: "db \<Rightarrow> row_id \<Rightarrow> (string \<times> string \<times> string) option" where
  "acct d i = map_option proj (find (\<lambda>u. us_id u = i) (users d))"

definition session_ok :: "db \<Rightarrow> ghost \<Rightarrow> Session \<Rightarrow> bool" where
  "session_ok d g s = (\<exists>e q. acct d (se_user_id s) = Some (gh_proved g (se_token s), e, q))"

definition reset_ok :: "db \<Rightarrow> ghost \<Rightarrow> PasswordReset \<Rightarrow> bool" where
  "reset_ok d g r = (\<exists>p e q. gh_sent g (pr_id r) = (p, e) \<and> acct d (pr_user_id r) = Some (p, e, q))"

definition confirmation_ok :: "db \<Rightarrow> EmailConfirmation \<Rightarrow> bool" where
  "confirmation_ok d c = (\<exists>p e q. acct d (ec_user_id c) = Some (p, e, q)
     \<and> (ec_email c = q \<or> (ec_email c = e \<and> q = [])))"

definition keys_ok :: "db \<Rightarrow> bool" where
  "keys_ok d = (distinct (map us_id (users d)) \<and> distinct (map se_token (sessions d))
     \<and> distinct (map pr_id (resets d)) \<and> distinct (map pr_user_id (resets d))
     \<and> distinct (map ec_id (confirmations d)) \<and> distinct (map ec_user_id (confirmations d)))"

definition creds_ok :: "account_state \<Rightarrow> bool" where
  "creds_ok = (\<lambda>(d, g). keys_ok d \<and> (\<forall>s \<in> set (sessions d). session_ok d g s)
     \<and> (\<forall>r \<in> set (resets d). reset_ok d g r) \<and> (\<forall>c \<in> set (confirmations d). confirmation_ok d c))"

lemmas row_ok_defs = session_ok_def reset_ok_def confirmation_ok_def

text \<open>Every step leaves all accounts but one as they were, and of the rows that hang on that one
  removes some; what it leaves of them must fit the account as it is now.\<close>

definition sub_rows :: "db \<Rightarrow> db \<Rightarrow> bool" where
  "sub_rows d d' = ((\<exists>P. sessions d' = filter P (sessions d)) \<and> (\<exists>P. resets d' = filter P (resets d))
     \<and> (\<exists>P. confirmations d' = filter P (confirmations d)))"

lemma keys_ok_sub: "keys_ok d \<Longrightarrow> sub_rows d d' \<Longrightarrow> distinct (map us_id (users d')) \<Longrightarrow> keys_ok d'"
  by (auto simp: keys_ok_def sub_rows_def distinct_map_filter)

lemma creds_change:
  assumes "creds_ok (d, g)" "sub_rows d d'" "distinct (map us_id (users d'))"
    and other: "\<And>j. j \<noteq> i \<Longrightarrow> acct d' j = acct d j \<and> (\<forall>s \<in> set (sessions d). se_user_id s = j \<longrightarrow>
        gh_proved g' (se_token s) = gh_proved g (se_token s))"
    and "gh_sent g' = gh_sent g"
    and "\<And>s. s \<in> set (sessions d') \<Longrightarrow> se_user_id s = i \<Longrightarrow> session_ok d' g' s"
    and "\<And>r. r \<in> set (resets d') \<Longrightarrow> pr_user_id r = i \<Longrightarrow> reset_ok d' g' r"
    and "\<And>c. c \<in> set (confirmations d') \<Longrightarrow> ec_user_id c = i \<Longrightarrow> confirmation_ok d' c"
  shows "creds_ok (d', g')"
proof -
  have sub: "set (sessions d') \<subseteq> set (sessions d)" "set (resets d') \<subseteq> set (resets d)"
    "set (confirmations d') \<subseteq> set (confirmations d)" using assms(2) by (auto simp: sub_rows_def)
  have "session_ok d' g' s" if "s \<in> set (sessions d')" for s
  proof (cases "se_user_id s = i")
    case False
    with that sub(1) assms(1) other [of "se_user_id s"] show ?thesis
      by (auto simp: creds_ok_def session_ok_def)
  qed (use that assms(6) in blast)
  moreover have "reset_ok d' g' r" if "r \<in> set (resets d')" for r
  proof (cases "pr_user_id r = i")
    case False
    with that sub(2) assms(1,5) other [of "pr_user_id r"] show ?thesis
      by (auto simp: creds_ok_def reset_ok_def)
  qed (use that assms(7) in blast)
  moreover have "confirmation_ok d' c" if "c \<in> set (confirmations d')" for c
  proof (cases "ec_user_id c = i")
    case False
    with that sub(3) assms(1) other [of "ec_user_id c"] show ?thesis
      by (auto simp: creds_ok_def confirmation_ok_def)
  qed (use that assms(8) in blast)
  ultimately show ?thesis
    using keys_ok_sub [OF _ assms(2,3)] assms(1) by (simp add: creds_ok_def)
qed

lemma sub_rows_refl: "sessions d' = sessions d \<Longrightarrow> resets d' = resets d \<Longrightarrow> confirmations d' = confirmations d \<Longrightarrow> sub_rows d d'"
  unfolding sub_rows_def by (intro conjI exI [of _ "\<lambda>_. True"]) simp_all

lemma acct_update_user:
  assumes "\<And>u. us_id (f u) = us_id u"
  shows "acct (update_user c i f d) j = (if j = i then map_option (proj \<circ> f) (find (\<lambda>u. us_id u = i) (users d)) else acct d j)"
proof -
  have "find (\<lambda>u. us_id u = j) (users (update_user c i f d)) =
    map_option (\<lambda>u. if us_id u = i then (f u)\<lparr>us_updated_at := c\<rparr> else u) (find (\<lambda>u. us_id u = j) (users d))"
    unfolding update_user_def by (simp add: find_update_where assms)
  then show ?thesis
    by (cases "find (\<lambda>u. us_id u = j) (users d)") (auto simp: acct_def proj_def dest: find_SomeD)
qed

lemma ids_update_user: "(\<And>u. us_id (f u) = us_id u) \<Longrightarrow> map us_id (users (update_user c i f d)) = map us_id (users d)"
  by (simp add: update_user_def map_key_update_where)

text \<open>Changes that leave an account's password and addresses alone.\<close>

lemma creds_same:
  assumes "creds_ok (d, g)" "map us_id (users d') = map us_id (users d)" "\<And>j. acct d' j = acct d j" "sub_rows d d'"
  shows "creds_ok (d', g)"
proof -
  have "acct d' = acct d" using assms(3) by (rule ext)
  then have "session_ok d' g = session_ok d g" "reset_ok d' g = reset_ok d g" "confirmation_ok d' = confirmation_ok d"
    by (simp_all add: row_ok_defs fun_eq_iff)
  moreover have "keys_ok d'" using assms(1,2,4) keys_ok_sub [of d d'] by (simp add: creds_ok_def keys_ok_def)
  ultimately show ?thesis using assms(1,4) by (auto simp: creds_ok_def sub_rows_def)
qed

lemma creds_quiet_update:
  assumes "creds_ok (d, g)" "\<And>u. us_id (f u) = us_id u \<and> proj (f u) = proj u"
  shows "creds_ok (update_user c i f d, g)"
proof (rule creds_same [OF assms(1)])
  show "acct (update_user c i f d) j = acct d j" for j
    by (simp add: acct_update_user assms(2)) (simp add: acct_def comp_def assms(2))
  show "sub_rows d (update_user c i f d)" by (rule sub_rows_refl) (simp_all add: update_user_def)
qed (simp add: ids_update_user assms(2))


subsection \<open>Every step keeps it\<close>

lemma find_in: "find (\<lambda>u. us_id u = i) (users d) = Some u \<Longrightarrow> acct d i = Some (proj u)"
  by (simp add: acct_def)

lemma lockUser_Inr: "lockUser i d = Inr u \<longleftrightarrow> find (\<lambda>u. us_id u = i) (users d) = Some u"
  by (auto simp: lockUser_def split: option.splits)

lemma creds_sub_only:
  assumes "creds_ok (d, g)" "users d' = users d" "sub_rows d d'"
  shows "creds_ok (d', g)"
  by (rule creds_same [OF assms(1)]) (simp_all add: assms acct_def)

lemma creds_new_user:
  assumes "creds_ok (d, g)" "users d' = users d @ [u\<lparr>us_id := i, us_created_at := c, us_updated_at := c\<rparr>]"
    "i \<notin> us_id ` set (users d)" "sub_rows d d'"
  shows "creds_ok (d', g)"
proof -
  have acct: "acct d j = Some x \<Longrightarrow> acct d' j = Some x" for j x
    by (auto simp: acct_def assms(2) find_snoc split: option.splits)
  have "keys_ok d'" using assms keys_ok_sub [OF _ assms(4)] by (simp add: creds_ok_def keys_ok_def)
  then show ?thesis
    using assms(1,4) acct by (fastforce simp: creds_ok_def sub_rows_def row_ok_defs)
qed

lemma changePassword_rows:
  "sessions (changePassword c i h keep d) =
     filter (\<lambda>s. \<not> (se_user_id s = i \<and> (keep \<noteq> [] \<longrightarrow> se_token s \<noteq> keep))) (sessions d)"
  "resets (changePassword c i h keep d) = filter (\<lambda>r. pr_user_id r \<noteq> i) (resets d)"
  "confirmations (changePassword c i h keep d) = filter (\<lambda>x. ec_user_id x \<noteq> i) (confirmations d)"
  "users (changePassword c i h keep d) =
     users (update_user c i (\<lambda>u. u\<lparr>us_password_hash := h, us_pending_email := []\<rparr>) d)"
  by (simp_all add: changePassword_def Let_def delete_where_def)

lemma sub_rows_filter:
  "sessions d' = filter P (sessions d) \<Longrightarrow> resets d' = filter Q (resets d) \<Longrightarrow>
    confirmations d' = filter R (confirmations d) \<Longrightarrow> sub_rows d d'"
  by (auto simp: sub_rows_def)

lemma acct_users: "users d' = users d'' \<Longrightarrow> acct d' j = acct d'' j"
  by (simp add: acct_def)

lemma creds_password:
  assumes ok: "creds_ok (d, g)" and u: "find (\<lambda>u. us_id u = i) (users d) = Some u"
    and g': "g' = g\<lparr>gh_proved := (\<lambda>t. if t = keep \<and> keep \<noteq> []
        \<and> (\<exists>s \<in> set (sessions d). se_token s = t \<and> se_user_id s = i) then h else gh_proved g t)\<rparr>"
  shows "creds_ok (changePassword c i h keep d, g')"
proof (rule creds_change [OF ok, where i = i])
  let ?d = "changePassword c i h keep d"
  have acct: "acct ?d j = (if j = i then Some (h, us_email u, []) else acct d j)" for j
    by (simp add: acct_users [OF changePassword_rows(4)] acct_update_user u proj_def)
  show "sub_rows d ?d" by (rule sub_rows_filter) (rule changePassword_rows)+
  show "distinct (map us_id (users ?d))"
    using ok by (simp add: changePassword_rows(4) ids_update_user creds_ok_def keys_ok_def)
  show "acct ?d j = acct d j \<and> (\<forall>s \<in> set (sessions d). se_user_id s = j \<longrightarrow>
      gh_proved g' (se_token s) = gh_proved g (se_token s))" if "j \<noteq> i" for j
    using that ok distinct_key_eq [of se_token "sessions d"] by (auto simp: acct g' creds_ok_def keys_ok_def)
  show "gh_sent g' = gh_sent g" by (simp add: g')
  show "session_ok ?d g' s" if "s \<in> set (sessions ?d)" "se_user_id s = i" for s
    using that by (auto simp: session_ok_def acct changePassword_rows g')
qed (auto simp: changePassword_rows)

lemma creds_delete_user:
  assumes ok: "creds_ok (d, g)" and d': "DeleteUser c i r d = Inr d'"
  shows "creds_ok (d', g)"
proof (rule creds_change [OF ok, where i = i])
  have rows: "sessions d' = filter (\<lambda>s. se_user_id s \<noteq> i) (sessions d)" "resets d' = filter (\<lambda>r. pr_user_id r \<noteq> i) (resets d)"
    "confirmations d' = filter (\<lambda>x. ec_user_id x \<noteq> i) (confirmations d)" "users d' = delete_where (\<lambda>u. us_id u = i) (users d)"
    using d' by (auto simp: DeleteUser_def Let_def delete_where_def split: if_splits)
  show "sub_rows d d'" by (rule sub_rows_filter) (rule rows)+
  have ids: "distinct (map us_id (users d))" using ok by (simp add: creds_ok_def keys_ok_def)
  then show "distinct (map us_id (users d'))" by (simp add: rows distinct_map_delete_where)
  show "acct d' j = acct d j \<and> (\<forall>s \<in> set (sessions d). se_user_id s = j \<longrightarrow>
      gh_proved g (se_token s) = gh_proved g (se_token s))" if "j \<noteq> i" for j
    using that by (auto simp: acct_def rows find_delete_where [OF ids] split: option.splits dest: find_SomeD)
qed (use d' in \<open>auto simp: DeleteUser_def Let_def set_delete_where split: if_splits\<close>)

lemma creds_new_session:
  assumes ok: "creds_ok (d, g)" and d': "CreateSession c s h d = Inr d'"
  shows "creds_ok (d', g\<lparr>gh_proved := (gh_proved g)(se_token s := h)\<rparr>)"
proof -
  from d' obtain u where u: "find (\<lambda>u. us_id u = se_user_id s) (users d) = Some u" "us_password_hash u = h"
    and fresh: "\<forall>x \<in> set (sessions d). se_token s \<noteq> se_token x"
    and eq: "d' = d\<lparr>sessions := sessions d @ [s\<lparr>se_created_at := c\<rparr>]\<rparr>"
    by (auto simp: CreateSession_def lockUser_Inr insert_unique_Inr split: sum.splits if_splits)
  have acct: "acct d' j = acct d j" for j by (simp add: eq acct_def)
  have "session_ok d' (g\<lparr>gh_proved := (gh_proved g)(se_token s := h)\<rparr>) x" if "x \<in> set (sessions d')" for x
    using that ok fresh u find_in [OF u(1)] by (auto simp: eq session_ok_def acct_def creds_ok_def proj_def)
  moreover have "keys_ok d'" using ok fresh by (auto simp: creds_ok_def keys_ok_def eq)
  moreover have "reset_ok d' (g\<lparr>gh_proved := (gh_proved g)(se_token s := h)\<rparr>) r" if "r \<in> set (resets d')" for r
    using that ok by (auto simp: eq reset_ok_def acct_def creds_ok_def)
  moreover have "confirmation_ok d' x" if "x \<in> set (confirmations d')" for x
    using that ok by (auto simp: eq confirmation_ok_def acct_def creds_ok_def)
  ultimately show ?thesis by (simp add: creds_ok_def)
qed


lemma creds_new_reset:
  assumes ok: "creds_ok (d, g)" and d': "CreatePasswordReset c n pr u d = Inr d'" and n: "n \<notin> pr_id ` set (resets d)"
  shows "creds_ok (d', g\<lparr>gh_sent := (gh_sent g)(n := (us_password_hash u, us_email u))\<rparr>)"
proof -
  let ?keep = "filter (\<lambda>r. pr_user_id r \<noteq> pr_user_id pr) (resets d)"
  let ?g = "g\<lparr>gh_sent := (gh_sent g)(n := (us_password_hash u, us_email u))\<rparr>"
  from d' obtain v where v: "find (\<lambda>u. us_id u = pr_user_id pr) (users d) = Some v"
      "us_password_hash u = us_password_hash v" "us_email u = us_email v"
    and eq: "d' = d\<lparr>resets := ?keep @ [pr\<lparr>pr_id := n, pr_created_at := c\<rparr>]\<rparr>"
    by (auto simp: CreatePasswordReset_def lockUser_Inr insert_unique_Inr delete_where_def split: sum.splits if_splits)
  have acct: "acct d' j = acct d j" for j by (simp add: eq acct_def)
  have "reset_ok d' ?g r" if "r \<in> set (resets d')" for r
    using that ok n find_in [OF v(1)] v(2,3) by (auto simp: eq reset_ok_def acct_def creds_ok_def proj_def)
  moreover have "keys_ok d'"
    using ok n by (auto simp: creds_ok_def keys_ok_def eq distinct_map_filter)
  moreover have "session_ok d' ?g x" if "x \<in> set (sessions d')" for x
    using that ok by (auto simp: eq session_ok_def acct_def creds_ok_def)
  moreover have "confirmation_ok d' x" if "x \<in> set (confirmations d')" for x
    using that ok by (auto simp: eq confirmation_ok_def acct_def creds_ok_def)
  ultimately show ?thesis by (simp add: creds_ok_def)
qed

lemma creds_reset_password:
  assumes "creds_ok (d, g)" "ResetPassword now c pr h d = Inr d'"
  shows "creds_ok (d', g)"
proof -
  define d0 where "d0 = d\<lparr>resets := delete_where (\<lambda>r. pr_id r = pr_id pr \<and> pr_user_id r = pr_user_id pr
      \<and> pr_token_hash r = pr_token_hash pr \<and> now < pr_expires_at r) (resets d)\<rparr>"
  from assms(2) obtain u where u: "find (\<lambda>u. us_id u = pr_user_id pr) (users d0) = Some u"
    and d': "d' = changePassword c (pr_user_id pr) h [] d0"
    by (auto simp: ResetPassword_def Let_def lockUser_Inr d0_def split: sum.splits if_splits)
  have "creds_ok (d0, g)"
    by (rule creds_sub_only [OF assms(1)]) (auto simp: d0_def sub_rows_def delete_where_def intro: exI [of _ "\<lambda>_. True"])
  from creds_password [where keep = "[]" and h = h and c = c, OF this u refl] show ?thesis by (simp add: d')
qed

text \<open>Changes of an address: the account keeps its password, its resets go when its address changes.\<close>

lemma creds_address:
  assumes ok: "creds_ok (d, g)" and u: "find (\<lambda>u. us_id u = i) (users d) = Some u"
    and f: "\<And>u. us_id (f u) = us_id u \<and> us_password_hash (f u) = us_password_hash u"
    and rows: "sessions d' = sessions d" "confirmations d' = filter P (confirmations d)"
      "\<And>x. x \<in> set (confirmations d) \<Longrightarrow> ec_user_id x = i \<Longrightarrow> \<not> P x"
      "resets d' = (if us_email (f u) = us_email u then resets d else filter (\<lambda>r. pr_user_id r \<noteq> i) (resets d))"
    and us: "users d' = users (update_user c i f d)"
  shows "creds_ok (d', g)"
proof (rule creds_change [OF ok, where i = i])
  have acct: "acct d' j = (if j = i then Some (us_password_hash u, us_email (f u), us_pending_email (f u)) else acct d j)" for j
    using f by (simp add: acct_users [OF us] acct_update_user u proj_def)
  have at: "acct d i = Some (us_password_hash u, us_email u, us_pending_email u)" by (simp add: acct_def u proj_def)
  show "sub_rows d d'" using rows by (auto simp: sub_rows_def intro: exI [of _ "\<lambda>_. True"])
  show "distinct (map us_id (users d'))"
    using ok f by (simp add: us ids_update_user creds_ok_def keys_ok_def)
  show "acct d' j = acct d j \<and> (\<forall>s \<in> set (sessions d). se_user_id s = j \<longrightarrow>
      gh_proved g (se_token s) = gh_proved g (se_token s))" if "j \<noteq> i" for j
    using that by (simp add: acct)
  show "session_ok d' g s" if "s \<in> set (sessions d')" "se_user_id s = i" for s
    using that ok at by (auto simp: session_ok_def acct creds_ok_def rows(1))
  show "reset_ok d' g r" if "r \<in> set (resets d')" "pr_user_id r = i" for r
    using that ok at by (auto simp: reset_ok_def acct creds_ok_def rows(4) split: if_splits)
qed (use rows in auto)

lemma creds_update_email:
  assumes "creds_ok (d, g)" "UpdateUserEmail c i e d = Inr d'"
  shows "creds_ok (d', g)"
proof -
  let ?f = "\<lambda>u. u\<lparr>us_email := TrimSpace e, us_email_verified := False, us_pending_email := []\<rparr>"
  from assms(2) obtain u where u: "find (\<lambda>u. us_id u = i) (users d) = Some u"
    and d': "d' = update_user c i ?f ((if us_email u \<noteq> TrimSpace e
        then d\<lparr>resets := delete_where (\<lambda>r. pr_user_id r = i) (resets d)\<rparr> else d)
        \<lparr>confirmations := delete_where (\<lambda>c. ec_user_id c = i) (confirmations d)\<rparr>)"
    by (auto simp: UpdateUserEmail_def Let_def lockUser_Inr split: sum.splits if_splits)
  show ?thesis
    by (rule creds_address [OF assms(1) u, where f = ?f and c = c and P = "\<lambda>x. ec_user_id x \<noteq> i"])
      (auto simp: d' update_user_def delete_where_def)
qed

lemma creds_cancel_pending:
  assumes "creds_ok (d, g)" "CancelPendingEmail c i d = Inr d'"
  shows "creds_ok (d', g)"
proof -
  from assms(2) obtain u where u: "find (\<lambda>u. us_id u = i) (users d) = Some u"
    and d': "d' = update_user c i (us_pending_email_update (\<lambda>_. []))
      (d\<lparr>confirmations := delete_where (\<lambda>c. ec_user_id c = i) (confirmations d)\<rparr>)"
    by (auto simp: CancelPendingEmail_def lockUser_Inr split: sum.splits)
  show ?thesis
    by (rule creds_address [OF assms(1) u, where f = "us_pending_email_update (\<lambda>_. [])" and c = c
          and P = "\<lambda>x. ec_user_id x \<noteq> i"])
      (auto simp: d' update_user_def delete_where_def)
qed

lemma confirm_txD:
  assumes "confirm_tx cs now clk c h d = Inr (v, d')"
  obtains u where "find (\<lambda>u. us_id u = ec_user_id c) (users d) = Some u"
    "rows_affected (\<lambda>x. ec_id x = ec_id c \<and> ec_token_hash x = h \<and> now < ec_expires_at x) (confirmations d) = 1"
    "ec_email c = us_pending_email u \<or> ec_email c = us_email u"
    "rows_affected (\<lambda>v. cs_sql_lower cs (us_email v) = cs_to_lower cs (ec_email c) \<and> us_id v \<noteq> us_id u) (users d) = 0"
    "users d' = users (update_user clk (us_id u)
      (\<lambda>u. u\<lparr>us_email := ec_email c, us_email_verified := True, us_pending_email := []\<rparr>) d)"
    "sessions d' = sessions d"
    "confirmations d' = filter (\<lambda>x. \<not> (ec_id x = ec_id c \<and> ec_token_hash x = h \<and> now < ec_expires_at x)) (confirmations d)"
    "resets d' = (if us_email u = ec_email c then resets d else filter (\<lambda>r. pr_user_id r \<noteq> us_id u) (resets d))"
    "v = u\<lparr>us_email := ec_email c, us_email_verified := True, us_pending_email := [], us_updated_at := clk\<rparr>"
proof -
  from assms obtain u where u: "find (\<lambda>u. us_id u = ec_user_id c) (users d) = Some u"
    by (auto simp: confirm_tx_def lockUser_Inr split: sum.splits)
  with assms show ?thesis
    by (intro that [OF u]) (auto simp: confirm_tx_def lockUser_def Let_def update_user_def delete_where_def split: if_splits)
qed

lemma creds_confirm:
  assumes ok: "creds_ok (d, g)" and tx: "confirm_tx cs now clk c h d = Inr (v, d')"
    and row: "\<forall>x \<in> set (confirmations d). ec_id x = ec_id c \<longrightarrow> x = c"
  shows "creds_ok (d', g)"
proof -
  let ?f = "\<lambda>u. u\<lparr>us_email := ec_email c, us_email_verified := True, us_pending_email := []\<rparr>"
  from tx obtain u where u: "find (\<lambda>u. us_id u = ec_user_id c) (users d) = Some u"
    and hit: "rows_affected (\<lambda>x. ec_id x = ec_id c \<and> ec_token_hash x = h \<and> now < ec_expires_at x) (confirmations d) = 1"
    and rows: "users d' = users (update_user clk (us_id u) ?f d)" "sessions d' = sessions d"
      "confirmations d' = filter (\<lambda>x. \<not> (ec_id x = ec_id c \<and> ec_token_hash x = h \<and> now < ec_expires_at x)) (confirmations d)"
      "resets d' = (if us_email u = ec_email c then resets d else filter (\<lambda>r. pr_user_id r \<noteq> us_id u) (resets d))"
    by (rule confirm_txD)
  have i: "us_id u = ec_user_id c" using u by (auto dest: find_SomeD)
  have c: "c \<in> set (confirmations d)" "ec_token_hash c = h" "now < ec_expires_at c"
    using rows_affected_1_ex [OF hit] row by auto
  have only: "x = c" if "x \<in> set (confirmations d)" "ec_user_id x = us_id u" for x
    using that c(1) i ok distinct_key_eq [of ec_user_id "confirmations d"] by (auto simp: creds_ok_def keys_ok_def)
  show ?thesis
  proof (rule creds_address [OF ok, where i = "us_id u" and f = ?f and c = clk])
    show "find (\<lambda>v. us_id v = us_id u) (users d) = Some u" using u by (simp add: i)
    show "confirmations d' = filter (\<lambda>x. \<not> (ec_id x = ec_id c \<and> ec_token_hash x = h \<and> now < ec_expires_at x)) (confirmations d)"
      by (fact rows(3))
    show "\<not> \<not> (ec_id x = ec_id c \<and> ec_token_hash x = h \<and> now < ec_expires_at x)"
      if "x \<in> set (confirmations d)" "ec_user_id x = us_id u" for x
      using only [OF that] c by simp
  qed (simp_all add: rows)
qed


lemma creds_start_confirmation:
  assumes ok: "creds_ok (d, g)" and d': "StartEmailConfirmation clk n c h d = Inr d'"
    and n: "n \<notin> ec_id ` set (confirmations d)"
  shows "creds_ok (d', g)"
proof -
  let ?i = "ec_user_id c"
  from d' obtain u where u: "find (\<lambda>u. us_id u = ?i) (users d) = Some u"
    and eq: "d' = (update_user clk (us_id u) (us_pending_email_update (\<lambda>_. if ec_email c = us_email u then [] else ec_email c)) d)
        \<lparr>confirmations := filter (\<lambda>x. ec_user_id x \<noteq> ?i) (confirmations d) @ [c\<lparr>ec_id := n, ec_created_at := clk\<rparr>]\<rparr>"
    by (auto simp: StartEmailConfirmation_def lockUser_Inr insert_unique_Inr delete_where_def Let_def split: sum.splits if_splits)
  define d0 where "d0 = d'\<lparr>confirmations := filter (\<lambda>x. ec_user_id x \<noteq> ?i) (confirmations d)\<rparr>"
  have i: "us_id u = ?i" using u by (auto dest: find_SomeD)
  have d0: "creds_ok (d0, g)"
    by (rule creds_address [OF ok u, where c = clk and P = "\<lambda>x. ec_user_id x \<noteq> ?i"
          and f = "us_pending_email_update (\<lambda>_. if ec_email c = us_email u then [] else ec_email c)"])
      (auto simp: d0_def eq i update_user_def)
  have acct: "acct d' = acct d0" by (simp add: fun_eq_iff acct_def d0_def)
  have "acct d' ?i = Some (us_password_hash u, us_email u, if ec_email c = us_email u then [] else ec_email c)"
  proof -
    have us: "users d' = users (update_user clk ?i (us_pending_email_update (\<lambda>_. if ec_email c = us_email u then [] else ec_email c)) d)"
      by (simp add: eq i)
    show ?thesis by (simp add: acct_users [OF us] acct_update_user u proj_def)
  qed
  then have "confirmation_ok d' (c\<lparr>ec_id := n, ec_created_at := clk\<rparr>)" by (simp add: confirmation_ok_def)
  moreover have "session_ok d' g = session_ok d0 g" "reset_ok d' g = reset_ok d0 g" "confirmation_ok d' = confirmation_ok d0"
    by (simp_all add: row_ok_defs acct fun_eq_iff)
  moreover have "keys_ok d'" using d0 n by (auto simp: creds_ok_def keys_ok_def d0_def eq)
  moreover have "sessions d' = sessions d0" "resets d' = resets d0"
    "set (confirmations d') = insert (c\<lparr>ec_id := n, ec_created_at := clk\<rparr>) (set (confirmations d0))"
    by (simp_all add: d0_def eq)
  ultimately show ?thesis using d0 by (simp add: creds_ok_def)
qed

lemma creds_expired:
  assumes "creds_ok (d, g)"
  shows "creds_ok (DeleteSession t d, g)" "creds_ok (snd (DeleteExpiredSessions now d), g)"
    "creds_ok (DeleteSessionsForUser i d, g)" "creds_ok (snd (DeleteExpiredPasswordResets now d), g)"
  by (rule creds_sub_only [OF assms]; auto simp: DeleteSession_def DeleteExpiredSessions_def DeleteSessionsForUser_def
      DeleteExpiredPasswordResets_def sub_rows_def delete_where_def intro: exI [of _ "\<lambda>_. True"])+

lemma users_rows:
  assumes "acceptInvite now n iv i d = Inr d'"
  shows "users d' = users d" "sessions d' = sessions d" "resets d' = resets d" "confirmations d' = confirmations d"
  using assms by (auto simp: acceptInvite_def save_grant_def Let_def split: if_splits option.splits)

lemma creds_step:
  assumes "account_step cs s s'" "creds_ok s"
  shows "creds_ok s'"
  using assms
proof cases
  case (create_user clk i u d d' g)
  then have d': "d' = d\<lparr>users := users d @ [u\<lparr>us_id := i, us_created_at := clk, us_updated_at := clk\<rparr>]\<rparr>"
    by (simp add: CreateUser_def split: if_splits)
  have "creds_ok (d', g)"
    by (rule creds_new_user [where d = d and u = u and i = i and c = clk])
      (use create_user assms(2) in \<open>simp_all add: d' sub_rows_refl\<close>)
  then show ?thesis by (simp only: create_user(2))
next
  case (register now clk i n iv u d d' g)
  then obtain d1 where d1: "d1 = d\<lparr>users := users d @ [u\<lparr>us_id := i, us_created_at := clk, us_updated_at := clk\<rparr>]\<rparr>"
    and acc: "acceptInvite now n iv i d1 = Inr d'"
    by (auto simp: RegisterFromInvite_def insert_unique_Inr split: sum.splits)
  have "creds_ok (d', g)"
    by (rule creds_new_user [where d = d and u = u and i = i and c = clk])
      (use register assms(2) in \<open>simp_all add: users_rows [OF acc] d1 sub_rows_refl\<close>)
  then show ?thesis by (simp only: register(2))
next
  case (confirm now clk c h d u d' g)
  with assms(2) creds_confirm show ?thesis by blast
next
  case (totp_step d g clk i stp)
  have "creds_ok (snd (ConsumeTOTPStep clk i stp d), g)"
  proof (rule creds_same)
    show "acct (snd (ConsumeTOTPStep clk i stp d)) j = acct d j" for j
      by (simp add: ConsumeTOTPStep_def Let_def acct_def find_update_where)
        (cases "find (\<lambda>u. us_id u = j) (users d)"; simp add: proj_def)
  qed (use assms totp_step in \<open>simp_all add: ConsumeTOTPStep_def Let_def map_key_update_where sub_rows_refl\<close>)
  then show ?thesis by (simp only: totp_step(2))
next
  case (recovery hsh clk i code d r d' g)
  have "creds_ok (d', g)"
  proof (rule creds_same)
    show "acct d' j = acct d j" for j
      using recovery(3)
      by (cases "find (\<lambda>u. us_id u = j) (users d)")
        (auto simp: acct_def find_update_where proj_def Let_def split: option.splits if_splits)
  qed (use assms recovery in \<open>auto simp: Let_def map_key_update_where sub_rows_refl split: option.splits if_splits\<close>)
  then show ?thesis by (simp only: recovery(2))
next
  case (update_password clk i hash verified keep d d' g)
  then obtain u where "find (\<lambda>u. us_id u = i) (users d) = Some u" "d' = changePassword clk i hash keep d"
    by (auto simp: UpdateUserPassword_def lockUser_Inr split: sum.splits if_splits)
  with creds_password [of d g i u] update_password assms(2) show ?thesis by simp
next
  case (totp_secret seal clk i secret d d' g)
  with assms(2) show ?thesis
    by (auto simp: SetUserTOTPSecret_def proj_def intro!: creds_quiet_update split: option.splits)
next
  case (elsewhere d' d g)
  with assms(2) show ?thesis by (auto intro: creds_sub_only sub_rows_refl)
qed (auto simp: UpdateUserAdminFields_def SetUserAdminRole_def EnableUserTOTP_def DisableUserTOTP_def proj_def
    intro!: creds_quiet_update
    intro: creds_new_session creds_new_reset creds_reset_password creds_update_email creds_cancel_pending
      creds_start_confirmation creds_delete_user creds_expired)

definition fresh_accounts :: account_state where
  "fresh_accounts = (empty_db, \<lparr>gh_proved = (\<lambda>_. []), gh_sent = (\<lambda>_. ([], []))\<rparr>)"

lemma creds_reachable: "(account_step cs)\<^sup>*\<^sup>* fresh_accounts s \<Longrightarrow> creds_ok s"
proof (induction rule: rtranclp_induct)
  case base
  show ?case by (simp add: fresh_accounts_def creds_ok_def keys_ok_def empty_db_def)
qed (rule creds_step)

end
