(* ===== verification/Account_Props.thy ===== *)
theory Account_Props imports Account_Machine begin

text \<open>
  What the accounts promise: a session, a reset link and a confirmation link fit the account as it
  is when they are used, a code of the second factor works once, and a recovery code is consumed
  once and without hindering the others.
\<close>

subsection \<open>Sessions and links fit the account\<close>

lemma acct_Some: "acct d i = Some (p, e, q) \<longleftrightarrow>
  (\<exists>u. find (\<lambda>u. us_id u = i) (users d) = Some u \<and> us_password_hash u = p \<and> us_email u = e \<and> us_pending_email u = q)"
  by (auto simp: acct_def proj_def)

text \<open>C23: in every reachable database a session belongs to an account that exists, and its holder has
  proved the password the account has now: a password change leaves no session of anybody who
  has only proved an older one.\<close>

theorem session_proves_the_present_password:
  assumes "(account_step cs)\<^sup>*\<^sup>* fresh_accounts (d, g)" "s \<in> set (sessions d)"
  shows "\<exists>u. lockUser (se_user_id s) d = Inr u \<and> us_password_hash u = gh_proved g (se_token s)"
  using creds_reachable [OF assms(1)] assms(2)
  by (fastforce simp: creds_ok_def session_ok_def acct_Some lockUser_Inr)

text \<open>C22: a reset link works only while the account has the password and the address it had when the
  link was sent; using it changes the password and nothing else of the account but a pending
  address, ends every session and every other link of the account, and it works only once.\<close>

theorem reset_link_fits_the_account:
  assumes "(account_step cs)\<^sup>*\<^sup>* fresh_accounts (d, g)" "ResetPassword now clk pr hash d = Inr d'"
  shows "\<exists>u. lockUser (pr_user_id pr) d = Inr u
    \<and> gh_sent g (pr_id pr) = (us_password_hash u, us_email u)
    \<and> lockUser (pr_user_id pr) d' = Inr (u\<lparr>us_password_hash := hash, us_pending_email := [], us_updated_at := clk\<rparr>)
    \<and> (\<forall>s \<in> set (sessions d'). se_user_id s \<noteq> pr_user_id pr)
    \<and> (\<forall>r \<in> set (resets d'). pr_user_id r \<noteq> pr_user_id pr)
    \<and> (\<forall>c \<in> set (confirmations d'). ec_user_id c \<noteq> pr_user_id pr)
    \<and> (\<forall>now clk hash. ResetPassword now clk pr hash d' = Inl ErrNotFound)"
proof -
  let ?i = "pr_user_id pr"
  let ?P = "\<lambda>r. pr_id r = pr_id pr \<and> pr_user_id r = ?i \<and> pr_token_hash r = pr_token_hash pr \<and> now < pr_expires_at r"
  let ?d0 = "d\<lparr>resets := delete_where ?P (resets d)\<rparr>"
  from assms(2) obtain u where u: "lockUser ?i d = Inr u" and hit: "rows_affected ?P (resets d) = 1"
    and d': "d' = changePassword clk ?i hash [] ?d0"
    by (auto simp: ResetPassword_def Let_def split: sum.splits if_splits)
  obtain r where r: "r \<in> set (resets d)" "?P r" using rows_affected_1_ex [OF hit] by blast
  with creds_reachable [OF assms(1)] u have sent: "gh_sent g (pr_id pr) = (us_password_hash u, us_email u)"
    by (fastforce simp: creds_ok_def reset_ok_def acct_Some lockUser_Inr)
  have us: "users d' = users (update_user clk ?i (\<lambda>u. u\<lparr>us_password_hash := hash, us_pending_email := []\<rparr>) ?d0)"
    by (simp add: d' changePassword_rows)
  have u': "lockUser ?i d' = Inr (u\<lparr>us_password_hash := hash, us_pending_email := [], us_updated_at := clk\<rparr>)"
    using u find_SomeD [of _ "users d"] by (auto simp: lockUser_Inr us update_user_def find_update_where)
  have rows: "sessions d' = filter (\<lambda>s. se_user_id s \<noteq> ?i) (sessions d)"
    "\<forall>r \<in> set (resets d'). pr_user_id r \<noteq> ?i" "\<forall>c \<in> set (confirmations d'). ec_user_id c \<noteq> ?i"
    by (simp_all add: d' changePassword_rows)
  have "ResetPassword now' clk' pr hash' d' = Inl ErrNotFound" for now' clk' hash'
    using rows(2) u' by (simp add: ResetPassword_def Let_def rows_affected_def)
  with u sent u' rows show ?thesis by auto
qed

text \<open>A confirmation link is for an address its account asks for now: its pending one, or its own
  when none is pending; an account has one such link at most.\<close>

theorem confirmation_is_for_an_address_asked_for:
  assumes "(account_step cs)\<^sup>*\<^sup>* fresh_accounts (d, g)" "c \<in> set (confirmations d)"
  shows "(\<exists>u. lockUser (ec_user_id c) d = Inr u
      \<and> (ec_email c = us_pending_email u \<or> (ec_email c = us_email u \<and> us_pending_email u = [])))
    \<and> (\<forall>c' \<in> set (confirmations d). ec_user_id c' = ec_user_id c \<longrightarrow> c' = c)"
proof -
  have ok: "creds_ok (d, g)" by (rule creds_reachable [OF assms(1)])
  then have "c' = c" if "c' \<in> set (confirmations d)" "ec_user_id c' = ec_user_id c" for c'
    using that assms(2) distinct_key_eq [of ec_user_id "confirmations d"] by (auto simp: creds_ok_def keys_ok_def)
  moreover have "confirmation_ok d c" using ok assms(2) by (simp add: creds_ok_def)
  ultimately show ?thesis by (auto simp: confirmation_ok_def acct_Some lockUser_Inr)
qed

text \<open>Confirming gives the account the address of the link, whatever was committed since the link
  was read: nobody else has that address then, the links of the account to its old address are
  gone, and the link is used up.\<close>

theorem confirmed_address_is_its_own:
  assumes "ConfirmEmail cs between now clk h d = Inr (u, d')"
  shows "\<exists>c \<in> set (confirmations d). ec_token_hash c = h \<and> us_id u = ec_user_id c
    \<and> lockUser (us_id u) d' = Inr u \<and> us_email u = ec_email c \<and> us_email_verified u \<and> us_pending_email u = []
    \<and> (\<forall>v \<in> set (users d'). us_id v \<noteq> us_id u \<longrightarrow> cs_sql_lower cs (us_email v) \<noteq> cs_to_lower cs (us_email u))
    \<and> (\<forall>r \<in> set (resets d'). pr_user_id r = us_id u \<longrightarrow>
         (\<exists>v. lockUser (us_id u) (between d) = Inr v \<and> us_email v = us_email u))
    \<and> \<not> any_row (\<lambda>x. ec_id x = ec_id c \<and> ec_token_hash x = h \<and> now < ec_expires_at x) (confirmations d')"
proof -
  from assms(1) obtain c where c: "find (\<lambda>c. ec_token_hash c = h) (confirmations d) = Some c"
    and tx: "confirm_tx cs now clk c h (between d) = Inr (u, d')"
    by (auto simp: ConfirmEmail_def split: option.splits)
  define d1 where "d1 = between d"
  let ?f = "\<lambda>u. u\<lparr>us_email := ec_email c, us_email_verified := True, us_pending_email := []\<rparr>"
  from tx obtain v where v: "find (\<lambda>u. us_id u = ec_user_id c) (users d1) = Some v"
    and alone: "rows_affected (\<lambda>w. cs_sql_lower cs (us_email w) = cs_to_lower cs (ec_email c) \<and> us_id w \<noteq> us_id v) (users d1) = 0"
    and rows: "users d' = users (update_user clk (us_id v) ?f d1)"
      "confirmations d' = filter (\<lambda>x. \<not> (ec_id x = ec_id c \<and> ec_token_hash x = h \<and> now < ec_expires_at x)) (confirmations d1)"
      "resets d' = (if us_email v = ec_email c then resets d1 else filter (\<lambda>r. pr_user_id r \<noteq> us_id v) (resets d1))"
    and u: "u = v\<lparr>us_email := ec_email c, us_email_verified := True, us_pending_email := [], us_updated_at := clk\<rparr>"
    unfolding d1_def by (rule confirm_txD)
  have i: "us_id v = ec_user_id c" using v by (auto dest: find_SomeD)
  have "lockUser (us_id u) d' = Inr u"
    using v i by (simp add: lockUser_Inr rows(1) u update_user_def find_update_where)
  moreover have "cs_sql_lower cs (us_email w) \<noteq> cs_to_lower cs (us_email u)"
    if "w \<in> set (users d')" "us_id w \<noteq> us_id u" for w
    using that alone by (auto simp: rows(1) u update_user_def set_update_where rows_affected_eq_0 split: if_splits)
  moreover have "\<exists>v. lockUser (us_id u) d1 = Inr v \<and> us_email v = us_email u"
    if "r \<in> set (resets d')" "pr_user_id r = us_id u" for r
    using that v i by (auto simp: rows(3) u lockUser_Inr split: if_splits)
  moreover have "\<not> any_row (\<lambda>x. ec_id x = ec_id c \<and> ec_token_hash x = h \<and> now < ec_expires_at x) (confirmations d')"
    by (auto simp: rows(2) any_row_def)
  ultimately show ?thesis using find_SomeD [OF c] i by (auto simp: u d1_def)
qed


subsection \<open>The second factor\<close>

text \<open>While an account stays enrolled, the last step it has spent never goes back.\<close>

definition totp_mark :: "row_id \<Rightarrow> account_state \<Rightarrow> nat" where
  "totp_mark i s = (case find (\<lambda>u. us_id u = i) (users (fst s)) of None \<Rightarrow> 0 | Some u \<Rightarrow> unat (us_last_totp_step u))"

definition enrolled :: "row_id \<Rightarrow> account_state \<Rightarrow> bool" where
  "enrolled i s = (\<exists>u. find (\<lambda>u. us_id u = i) (users (fst s)) = Some u \<and> us_totp_secret_enc u \<noteq> [])"

definition enrolled_step :: "case_lib \<Rightarrow> row_id \<Rightarrow> account_state \<Rightarrow> account_state \<Rightarrow> bool" where
  "enrolled_step cs i s s' = (account_step cs s s' \<and> enrolled i s \<and> enrolled i s')"

lemma totp_row:
  assumes "users d' = update_where P f (users d)" "\<And>u. us_id (f u) = us_id u"
    and "\<And>u. P u \<Longrightarrow> us_last_totp_step u \<le> us_last_totp_step (f u) \<or> us_totp_secret_enc (f u) = []"
    and "enrolled i (d', g')"
  shows "totp_mark i (d, g) \<le> totp_mark i (d', g')"
proof -
  have "find (\<lambda>u. us_id u = i) (users d') = map_option (\<lambda>u. if P u then f u else u) (find (\<lambda>u. us_id u = i) (users d))"
    unfolding assms(1) by (rule find_update_where) (rule assms(2))
  then show ?thesis
    using assms(3,4) by (cases "find (\<lambda>u. us_id u = i) (users d)") (auto simp: totp_mark_def enrolled_def word_le_nat_alt split: if_splits)
qed

lemma totp_row_user:
  assumes "users d' = users (update_user c j f d0)" "users d0 = users d" "\<And>u. us_id (f u) = us_id u"
    and "\<And>u. us_last_totp_step u \<le> us_last_totp_step (f u) \<or> us_totp_secret_enc (f u) = []" and "enrolled i (d', g')"
  shows "totp_mark i (d, g) \<le> totp_mark i (d', g')"
  using assms by (intro totp_row [where P = "\<lambda>u. us_id u = j" and f = "\<lambda>u. (f u)\<lparr>us_updated_at := c\<rparr>"]) (auto simp: update_user_def)

lemma totp_row_same: "users d' = users d \<Longrightarrow> totp_mark i (d, g) \<le> totp_mark i (d', g')"
  by (simp add: totp_mark_def)

lemma totp_row_new: "users d' = users d @ [u] \<Longrightarrow> enrolled i (d, g) \<Longrightarrow> totp_mark i (d, g) \<le> totp_mark i (d', g')"
  by (auto simp: totp_mark_def enrolled_def find_snoc)

lemma recovery_users:
  assumes "ConsumeRecoveryCode hsh clk j code [\<lambda>d. d] d = Some (r, d')" "d' \<noteq> d"
  shows "\<exists>cs. users d' = update_where (\<lambda>v. us_id v = j \<and> us_recovery_codes v = cs)
    (\<lambda>v. v\<lparr>us_recovery_codes := filter (\<lambda>h. h \<noteq> hsh code) cs, us_updated_at := clk\<rparr>) (users d)"
proof (cases "find (\<lambda>u. us_id u = j) (users d)")
  case (Some u)
  with assms show ?thesis
    by (intro exI [of _ "us_recovery_codes u"]) (auto simp: Let_def split: if_splits)
qed (use assms in simp)

lemma enrolled_step_mark:
  assumes "enrolled_step cs i s s'"
  shows "totp_mark i s \<le> totp_mark i s'"
proof -
  from assms have step: "account_step cs s s'" and pre: "enrolled i s" and post: "enrolled i s'"
    by (simp_all add: enrolled_step_def)
  from step show ?thesis
  proof cases
    case (create_user clk j u d d' g)
    with pre show ?thesis by (auto simp: CreateUser_def intro: totp_row_new split: if_splits)
  next
    case (register now clk j n iv u d d' g)
    then have "users d' = users d @ [u\<lparr>us_id := j, us_created_at := clk, us_updated_at := clk\<rparr>]"
      by (auto simp: RegisterFromInvite_def insert_unique_Inr dest: users_rows(1) split: sum.splits)
    with pre register show ?thesis by (auto intro: totp_row_new)
  next
    case (delete_user clk j r d d' g)
    then have d': "users d' = delete_where (\<lambda>u. us_id u = j) (users d)"
      by (auto simp: DeleteUser_def Let_def split: if_splits)
    have del: "find (\<lambda>u. us_id u = i) (delete_where (\<lambda>u. us_id u = j) us) = (if i = j then None else find (\<lambda>u. us_id u = i) us)" for us
      by (induction us) auto
    with delete_user post show ?thesis by (auto simp: totp_mark_def enrolled_def d' del split: if_splits)
  next
    case (update_password clk j hash verified keep d d' g)
    then have "users d' = users (update_user clk j (\<lambda>u. u\<lparr>us_password_hash := hash, us_pending_email := []\<rparr>) d)"
      by (auto simp: UpdateUserPassword_def changePassword_rows split: sum.splits if_splits)
    from totp_row_user [OF this refl, of i] update_password post show ?thesis by simp
  next
    case (reset_password now clk pr hash d d' g)
    then have "users d' = users (update_user clk (pr_user_id pr) (\<lambda>u. u\<lparr>us_password_hash := hash, us_pending_email := []\<rparr>) d)"
      by (auto simp: ResetPassword_def changePassword_rows Let_def update_user_def split: sum.splits if_splits)
    from totp_row_user [OF this refl, of i] reset_password post show ?thesis by simp
  next
    case (update_email clk j e d d' g)
    then have "users d' = users (update_user clk j
        (\<lambda>u. u\<lparr>us_email := TrimSpace e, us_email_verified := False, us_pending_email := []\<rparr>) d)"
      by (auto simp: UpdateUserEmail_def Let_def update_user_def split: sum.splits if_splits)
    from totp_row_user [OF this refl, of i] update_email post show ?thesis by simp
  next
    case (start_confirmation clk n c h d d' g)
    then obtain j p where "users d' = users (update_user clk j (us_pending_email_update (\<lambda>_. p)) d)"
      by (auto simp: StartEmailConfirmation_def Let_def insert_unique_Inr split: sum.splits if_splits)
    from totp_row_user [OF this refl, of i] start_confirmation post show ?thesis by simp
  next
    case (cancel_pending clk j d d' g)
    then have "users d' = users (update_user clk j (us_pending_email_update (\<lambda>_. [])) d)"
      by (auto simp: CancelPendingEmail_def update_user_def split: sum.splits)
    from totp_row_user [OF this refl, of i] cancel_pending post show ?thesis by simp
  next
    case (confirm now clk c h d u d' g)
    then obtain j where "users d' = users (update_user clk j
        (\<lambda>u. u\<lparr>us_email := ec_email c, us_email_verified := True, us_pending_email := []\<rparr>) d)"
      by (elim confirm_txD) blast
    from totp_row_user [OF this refl, of i] confirm post show ?thesis by simp
  next
    case (totp_step d g clk j stp)
    then show ?thesis
      using post totp_row [of "snd (ConsumeTOTPStep clk j stp d)" "\<lambda>u. us_id u = j \<and> us_last_totp_step u < stp"
        "\<lambda>u. u\<lparr>us_last_totp_step := stp, us_updated_at := clk\<rparr>" d i g g]
      by (simp add: ConsumeTOTPStep_def Let_def less_imp_le)
  next
    case (recovery hsh clk j code d r d' g)
    show ?thesis
    proof (cases "d' = d")
      case False
      then obtain cs where "users d' = update_where (\<lambda>v. us_id v = j \<and> us_recovery_codes v = cs)
          (\<lambda>v. v\<lparr>us_recovery_codes := filter (\<lambda>h. h \<noteq> hsh code) cs, us_updated_at := clk\<rparr>) (users d)"
        using recovery_users [OF recovery(3)] by blast
      from totp_row [OF this, of i] recovery post show ?thesis by simp
    qed (use recovery in simp)
  next
    case (totp_secret seal clk j secret d d' g)
    then obtain enc where "users d' = users (update_user clk j (\<lambda>u. u\<lparr>us_totp_secret_enc := enc, us_totp_enabled := False\<rparr>) d)"
      by (auto simp: SetUserTOTPSecret_def split: option.splits)
    from totp_row_user [OF this refl, of i] totp_secret post show ?thesis by simp
  next
    case (admin_fields d g clk j adm ms mm mc)
    with post show ?thesis by (auto simp: UpdateUserAdminFields_def intro!: totp_row_user [OF refl refl])
  next
    case (admin_role d g clk j r)
    with post show ?thesis by (auto simp: SetUserAdminRole_def intro!: totp_row_user [OF refl refl])
  next
    case (totp_enable d g clk j hs)
    with post show ?thesis by (auto simp: EnableUserTOTP_def intro!: totp_row_user [OF refl refl])
  next
    case (totp_disable d g clk j)
    with post show ?thesis by (auto simp: DisableUserTOTP_def intro!: totp_row_user [OF refl refl])
  next
    case (create_session clk s h d d' g)
    then have "users d' = users d"
      by (auto simp: CreateSession_def insert_unique_Inr split: sum.splits if_splits)
    with create_session show ?thesis by (auto intro: totp_row_same)
  next
    case (create_reset clk n pr u d d' g)
    then have "users d' = users d"
      by (auto simp: CreatePasswordReset_def insert_unique_Inr split: sum.splits if_splits)
    with create_reset show ?thesis by (auto intro: totp_row_same)
  qed (auto simp: DeleteSession_def DeleteExpiredSessions_def DeleteSessionsForUser_def DeleteExpiredPasswordResets_def
      intro!: totp_row_same)
qed

interpretation totp: high_water "totp_mark i" "enrolled_step cs i" for cs i
  by unfold_locales (rule enrolled_step_mark)

lemma ConsumeTOTPStep_won:
  assumes "distinct (map us_id (users d))" "ConsumeTOTPStep clk i stp d = (True, d')"
  shows "totp_mark i (d, g) < unat stp" "totp_mark i (d', g') = unat stp"
proof -
  let ?P = "\<lambda>u. us_id u = i \<and> us_last_totp_step u < stp"
  from assms(2) obtain u where u: "u \<in> set (users d)" "?P u"
    using rows_affected_1_ex [of ?P "users d"] by (auto simp: ConsumeTOTPStep_def Let_def)
  then have found: "find (\<lambda>u. us_id u = i) (users d) = Some u" using find_row_iff [OF assms(1)] by simp
  then show "totp_mark i (d, g) < unat stp" using u by (simp add: totp_mark_def word_less_nat_alt)
  have "users d' = update_where ?P (\<lambda>u. u\<lparr>us_last_totp_step := stp, us_updated_at := clk\<rparr>) (users d)"
    using assms(2) by (auto simp: ConsumeTOTPStep_def Let_def)
  with found u show "totp_mark i (d', g') = unat stp" by (simp add: totp_mark_def find_update_where)
qed

text \<open>While an account stays enrolled, a time step of its codes is accepted once: of two codes
  accepted one after the other, whatever happens between them, the second is of a later step.\<close>

theorem totp_code_spent_once:
  assumes "(account_step cs)\<^sup>*\<^sup>* fresh_accounts (d, g)" "ConsumeTOTPStep clk i stp d = (True, d1)"
    and "(enrolled_step cs i)\<^sup>*\<^sup>* (d1, g) (d2, g2)" "ConsumeTOTPStep clk2 i stp2 d2 = (True, d3)"
  shows "stp < stp2"
proof -
  have step1: "account_step cs (d, g) (d1, g)" using account_step.totp_step [of cs d g clk i stp] assms(2) by simp
  have "(account_step cs)\<^sup>*\<^sup>* (d1, g) (d2, g2)"
    using assms(3) by (rule rtranclp_mono [THEN predicate2D, rotated]) (auto simp: enrolled_step_def)
  with rtranclp.rtrancl_into_rtrancl [OF assms(1) step1] have "(account_step cs)\<^sup>*\<^sup>* fresh_accounts (d2, g2)"
    by (rule rtranclp_trans)
  then have ok: "creds_ok (d, g)" "creds_ok (d2, g2)" using assms(1) by (auto intro: creds_reachable)
  have "unat stp \<le> totp_mark i (d2, g2)"
    using totp.gen_steps [OF assms(3)] ConsumeTOTPStep_won(2) [OF _ assms(2), of g] ok by (simp add: creds_ok_def keys_ok_def)
  also have "\<dots> < unat stp2"
    using ConsumeTOTPStep_won(1) [OF _ assms(4)] ok by (simp add: creds_ok_def keys_ok_def)
  finally show ?thesis by (simp add: word_less_nat_alt)
qed


subsection \<open>Recovery codes\<close>

text \<open>What a competing request does to the account's codes: it removes some.\<close>

definition only_consumes :: "row_id \<Rightarrow> (db \<Rightarrow> db) \<Rightarrow> bool" where
  "only_consumes i between = (\<forall>d u. find (\<lambda>u. us_id u = i) (users d) = Some u \<longrightarrow> distinct (map us_id (users d)) \<longrightarrow>
     distinct (map us_id (users (between d)))
     \<and> (\<exists>u' Q. find (\<lambda>u. us_id u = i) (users (between d)) = Some u'
          \<and> us_recovery_codes u' = filter Q (us_recovery_codes u)))"

lemma cas_hits:
  assumes "distinct (map us_id us)" "find (\<lambda>u. us_id u = i) us = Some u"
  shows "rows_affected (\<lambda>v. us_id v = i \<and> us_recovery_codes v = cs) us = (if us_recovery_codes u = cs then 1 else 0)"
proof -
  have u: "u \<in> set us" "us_id u = i" using find_SomeD [OF assms(2)] by auto
  have key: "v \<in> set us \<Longrightarrow> us_id v = i \<Longrightarrow> v = u" for v
    using distinct_key_eq [OF assms(1)] u by auto
  show ?thesis
    using rows_affected_key [OF assms(1) u(1), of "\<lambda>v. us_id v = i \<and> us_recovery_codes v = cs"] u(2) key
    by (auto simp: rows_affected_eq_0)
qed

text \<open>C25: consuming a recovery code returns, and does so within one pass more than the account has
  codes, as long as the requests it competes with only consume codes too: a pass that is lost is
  a code another one has used.\<close>

theorem recovery_code_loop_ends:
  assumes "\<forall>b \<in> set bs. only_consumes i b" "distinct (map us_id (users d))"
    and "find (\<lambda>u. us_id u = i) (users d) = Some u" "length (us_recovery_codes u) < length bs"
  shows "\<exists>r d'. ConsumeRecoveryCode hash clk i code bs d = Some (Inr r, d')"
  using assms
proof (induction bs arbitrary: d u)
  case (Cons b bs)
  show ?case
  proof (cases "hash code \<in> set (us_recovery_codes u)")
    case True
    from Cons.prems(1-3) obtain u' Q where ids: "distinct (map us_id (users (b d)))"
      and u': "find (\<lambda>u. us_id u = i) (users (b d)) = Some u'"
      and Q: "us_recovery_codes u' = filter Q (us_recovery_codes u)"
      by (simp add: only_consumes_def) blast
    show ?thesis
    proof (cases "us_recovery_codes u' = us_recovery_codes u")
      case True
      then show ?thesis
        using Cons.prems(3) by (auto simp: Let_def cas_hits [OF ids u'])
    next
      case False
      then have "length (us_recovery_codes u') < length (us_recovery_codes u)"
        unfolding Q by (metis filter_id_conv length_filter_less)
      with Cons.prems(1,4) Cons.IH [OF _ ids u'] obtain r d' where
        "ConsumeRecoveryCode hash clk i code bs (b d) = Some (Inr r, d')" by force
      moreover have "hash code \<in> set (us_recovery_codes u)" by fact
      ultimately show ?thesis
        using Cons.prems(3) False by (simp add: Let_def cas_hits [OF ids u'])
    qed
  qed (use Cons.prems(3) in auto)
qed simp

text \<open>A recovery code that is accepted was among the account's codes when it was written off, and
  that write took exactly it away: a code another request had used is not given back, nothing
  else changes, and the code is not accepted again.\<close>

theorem recovery_code_consumed_once:
  assumes "\<forall>b \<in> set bs. \<forall>d. distinct (map us_id (users d)) \<longrightarrow> distinct (map us_id (users (b d)))"
    and "distinct (map us_id (users d))" "ConsumeRecoveryCode hash clk i code bs d = Some (Inr True, d')"
  shows "\<exists>d0 u. lockUser i d0 = Inr u \<and> hash code \<in> set (us_recovery_codes u)
    \<and> d' = d0\<lparr>users := users d'\<rparr>
    \<and> lockUser i d' = Inr (u\<lparr>us_recovery_codes := filter (\<lambda>h. h \<noteq> hash code) (us_recovery_codes u), us_updated_at := clk\<rparr>)
    \<and> (\<forall>j. j \<noteq> i \<longrightarrow> lockUser j d' = lockUser j d0)
    \<and> ConsumeRecoveryCode hash clk i code [\<lambda>d. d] d' = Some (Inr False, d')"
  using assms
proof (induction bs arbitrary: d)
  case (Cons b bs)
  from Cons.prems(3) obtain u where u: "find (\<lambda>u. us_id u = i) (users d) = Some u"
    by (auto split: option.splits)
  have want: "hash code \<in> set (us_recovery_codes u)"
    using Cons.prems(3) u by (auto simp: Let_def split: if_splits)
  let ?P = "\<lambda>v. us_id v = i \<and> us_recovery_codes v = us_recovery_codes u"
  let ?f = "\<lambda>v. v\<lparr>us_recovery_codes := filter (\<lambda>h. h \<noteq> hash code) (us_recovery_codes u), us_updated_at := clk\<rparr>"
  have ids: "distinct (map us_id (users (b d)))" using Cons.prems(1,2) by simp
  show ?case
  proof (cases "rows_affected ?P (users (b d)) = 1")
    case True
    then obtain u0 where u0: "u0 \<in> set (users (b d))" "?P u0" using rows_affected_1_ex by blast
    then have found: "find (\<lambda>u. us_id u = i) (users (b d)) = Some u0" using find_row_iff [OF ids] by simp
    have d': "d' = (b d)\<lparr>users := update_where ?P ?f (users (b d))\<rparr>"
      using Cons.prems(3) u want True by (simp add: Let_def)
    have at: "find (\<lambda>u. us_id u = j) (users d') = map_option (\<lambda>v. if ?P v then ?f v else v) (find (\<lambda>u. us_id u = j) (users (b d)))" for j
      by (simp add: d' find_update_where)
    have "lockUser i d' = Inr (?f u0)" using at [of i] found u0(2) by (simp add: lockUser_Inr)
    moreover have "lockUser j d' = lockUser j (b d)" if "j \<noteq> i" for j
      using at [of j] that by (cases "find (\<lambda>u. us_id u = j) (users (b d))") (auto simp: lockUser_def dest: find_SomeD)
    moreover have "ConsumeRecoveryCode hash clk i code [\<lambda>d. d] d' = Some (Inr False, d')"
      using at [of i] found u0(2) by (simp add: Let_def)
    ultimately show ?thesis
      using found u0(2) want by (intro exI [of _ "b d"] exI [of _ u0]) (simp add: lockUser_Inr d')
  next
    case False
    then have "ConsumeRecoveryCode hash clk i code bs (b d) = Some (Inr True, d')"
      using Cons.prems(3) u want by (simp add: Let_def)
    with Cons.IH [OF _ ids] Cons.prems(1) show ?thesis by simp
  qed
qed simp

subsection \<open>Two ways of resolving admin permissions\<close>

text \<open>Listing the users resolves everybody's admin permissions as looking each of them up does.\<close>

theorem ListUsers_resolves_like_GetUser:
  assumes "distinct (map ar_id (admin_roles d))" "\<forall>u \<in> set (users d). us_admin_perms u = []"
  shows "ListUsers d = map (resolveAdminPerms d) (users d)"
proof -
  let ?kv = "\<lambda>r. (ar_id r, ar_permissions r)"
  have "map_of (rev (map ?kv rs)) r = map_option ar_permissions (find (\<lambda>x. ar_id x = r) rs)"
    if "distinct (map ar_id rs)" for rs r
    using that
  proof (induction rs)
    case (Cons a rs)
    then have "find (\<lambda>x. ar_id x = ar_id a) rs = None" by (auto simp: find_None image_iff)
    with Cons show ?case by (auto simp: map_add_def split: option.split)
  qed simp
  then have "map_of (rev (map ?kv (admin_roles d))) r = map_option ar_permissions (find (\<lambda>x. ar_id x = r) (admin_roles d))" for r
    using assms(1) by blast
  then show ?thesis
    using assms(2) by (auto simp: ListUsers_def resolveAdminPerms_def Let_def split: option.split)
qed


subsection \<open>The hypotheses can hold\<close>

text \<open>Bob's account, his session, his reset link and the confirmation of a new address.\<close>

definition bob :: User where
  "bob = (sample_user 1 ''bob'')\<lparr>us_email := ''b@x'', us_totp_secret_enc := ''k'', us_recovery_codes := [''r1'', ''r2'']\<rparr>"

definition bobs_session :: Session where
  "bobs_session = \<lparr>se_token = ''t'', se_user_id = 1, se_expires_at = 50, se_created_at = 2\<rparr>"

definition bobs_reset :: PasswordReset where
  "bobs_reset = \<lparr>pr_id = 7, pr_user_id = 1, pr_token_hash = ''h1'', pr_expires_at = 50, pr_created_at = 2\<rparr>"

definition bobs_link :: EmailConfirmation where
  "bobs_link = \<lparr>ec_id = 8, ec_user_id = 1, ec_email = ''b@x'', ec_token_hash = ''h2'', ec_expires_at = 50, ec_created_at = 0\<rparr>"

definition bob_db :: "Session list \<Rightarrow> PasswordReset list \<Rightarrow> EmailConfirmation list \<Rightarrow> db" where
  "bob_db ss rs cs = empty_db\<lparr>users := [bob], sessions := ss, resets := rs, confirmations := cs\<rparr>"

definition bobs_ghost :: ghost where
  "bobs_ghost = snd fresh_accounts"

lemmas bob_defs = bob_db_def bob_def bobs_session_def bobs_reset_def bobs_link_def bobs_ghost_def fresh_accounts_def
  sample_user_def empty_db_def

lemma bob_reachable: "(account_step ascii_case)\<^sup>*\<^sup>* fresh_accounts (bob_db [] [] [], bobs_ghost)"
proof -
  have "CreateUser ascii_case 0 1 bob (fst fresh_accounts) = Inr (bob_db [] [] [])"
    by (simp add: CreateUser_def any_row_def bob_defs)
  then have "account_step ascii_case (fst fresh_accounts, bobs_ghost) (bob_db [] [] [], bobs_ghost)"
    by (rule account_step.create_user) (simp add: bob_defs)
  then show ?thesis by (simp add: bobs_ghost_def)
qed

lemma bob_steps:
  "(account_step ascii_case)\<^sup>*\<^sup>* fresh_accounts
     (bob_db [bobs_session] [] [], bobs_ghost\<lparr>gh_proved := (gh_proved bobs_ghost)(''t'' := ''h'')\<rparr>)"
  "(account_step ascii_case)\<^sup>*\<^sup>* fresh_accounts
     (bob_db [] [bobs_reset] [], bobs_ghost\<lparr>gh_sent := (gh_sent bobs_ghost)(7 := (''h'', ''b@x''))\<rparr>)"
  "(account_step ascii_case)\<^sup>*\<^sup>* fresh_accounts (bob_db [] [] [bobs_link], bobs_ghost)"
proof -
  have "CreateSession 2 bobs_session ''h'' (bob_db [] [] []) = Inr (bob_db [bobs_session] [] [])"
    by (simp add: CreateSession_def lockUser_def insert_unique_def any_row_def bob_defs)
  from account_step.create_session [OF this, of ascii_case bobs_ghost] bob_reachable
  show "(account_step ascii_case)\<^sup>*\<^sup>* fresh_accounts
     (bob_db [bobs_session] [] [], bobs_ghost\<lparr>gh_proved := (gh_proved bobs_ghost)(''t'' := ''h'')\<rparr>)"
    by (simp add: bobs_session_def)
  have "CreatePasswordReset 2 7 bobs_reset bob (bob_db [] [] []) = Inr (bob_db [] [bobs_reset] [])"
    by (simp add: CreatePasswordReset_def lockUser_def insert_unique_def any_row_def bob_defs)
  from account_step.create_reset [OF this, of ascii_case bobs_ghost] bob_reachable
  show "(account_step ascii_case)\<^sup>*\<^sup>* fresh_accounts
     (bob_db [] [bobs_reset] [], bobs_ghost\<lparr>gh_sent := (gh_sent bobs_ghost)(7 := (''h'', ''b@x''))\<rparr>)"
    by (simp add: bob_defs)
  have "StartEmailConfirmation 0 8 bobs_link ''h'' (bob_db [] [] []) = Inr (bob_db [] [] [bobs_link])"
    by (simp add: StartEmailConfirmation_def lockUser_def insert_unique_def any_row_def update_user_def bob_defs)
  from account_step.start_confirmation [OF this, of ascii_case bobs_ghost] bob_reachable
  show "(account_step ascii_case)\<^sup>*\<^sup>* fresh_accounts (bob_db [] [] [bobs_link], bobs_ghost)"
    by (simp add: bob_db_def empty_db_def)
qed

theorem session_proves_the_present_password_witness:
  "\<exists>u. lockUser 1 (bob_db [bobs_session] [] []) = Inr u \<and> us_password_hash u = ''h''"
  using session_proves_the_present_password [OF bob_steps(1), of bobs_session]
  by (simp add: bob_db_def bobs_session_def)

theorem reset_link_fits_the_account_witness:
  "\<exists>d' u. ResetPassword 5 6 bobs_reset ''new'' (bob_db [] [bobs_reset] []) = Inr d'
     \<and> lockUser 1 d' = Inr u \<and> us_password_hash u = ''new''"
proof -
  obtain d' where d': "ResetPassword 5 6 bobs_reset ''new'' (bob_db [] [bobs_reset] []) = Inr d'"
    by (simp add: ResetPassword_def lockUser_def rows_affected_def Let_def bob_defs)
  have "pr_user_id bobs_reset = 1" by (simp add: bobs_reset_def)
  with reset_link_fits_the_account [OF bob_steps(2) d'] d' show ?thesis by auto
qed

theorem confirmation_is_for_an_address_asked_for_witness:
  "\<exists>u. lockUser 1 (bob_db [] [] [bobs_link]) = Inr u \<and> us_email u = ''b@x''"
proof -
  have "bobs_link \<in> set (confirmations (bob_db [] [] [bobs_link]))" by (simp add: bob_db_def)
  from confirmation_is_for_an_address_asked_for [OF bob_steps(3) this]
  show ?thesis by (auto simp: lockUser_Inr bob_defs)
qed

theorem confirmed_address_is_its_own_witness:
  "\<exists>u d'. ConfirmEmail ascii_case (\<lambda>d. d) 5 6 ''h2'' (bob_db [] [] [bobs_link]) = Inr (u, d') \<and> us_email_verified u"
proof -
  obtain u d' where d': "ConfirmEmail ascii_case (\<lambda>d. d) 5 6 ''h2'' (bob_db [] [] [bobs_link]) = Inr (u, d')"
    by (simp add: ConfirmEmail_def confirm_tx_def lockUser_def rows_affected_def Let_def bob_defs)
  with confirmed_address_is_its_own [OF d'] show ?thesis by auto
qed

theorem totp_code_spent_once_witness:
  "\<exists>d1 d3. ConsumeTOTPStep 5 1 4 (bob_db [] [] []) = (True, d1) \<and> ConsumeTOTPStep 6 1 9 d1 = (True, d3)
     \<and> (4 :: 64 word) < 9"
proof -
  obtain d1 where d1: "ConsumeTOTPStep 5 1 4 (bob_db [] [] []) = (True, d1)"
    by (simp add: ConsumeTOTPStep_def rows_affected_def Let_def bob_defs)
  then have "users d1 = [bob\<lparr>us_last_totp_step := 4, us_updated_at := 5\<rparr>]"
    by (auto simp: ConsumeTOTPStep_def Let_def bob_defs)
  then obtain d3 where d3: "ConsumeTOTPStep 6 1 9 d1 = (True, d3)"
    by (simp add: ConsumeTOTPStep_def rows_affected_def Let_def bob_defs)
  from totp_code_spent_once [OF bob_reachable d1 _ d3] d1 d3 show ?thesis by auto
qed

text \<open>Another request takes the other code away between the read and the write.\<close>

definition rival :: "db \<Rightarrow> db" where
  "rival d = d\<lparr>users := map (\<lambda>u. u\<lparr>us_recovery_codes := filter (\<lambda>h. h \<noteq> ''r2'') (us_recovery_codes u)\<rparr>) (users d)\<rparr>"

lemma rival_consumes: "only_consumes i rival"
  by (auto simp: only_consumes_def rival_def comp_def find_map_same)

theorem recovery_code_loop_ends_witness:
  "\<exists>r d'. ConsumeRecoveryCode (\<lambda>c. c) 5 1 ''r1'' [rival, rival, rival] (bob_db [] [] []) = Some (Inr r, d')"
proof -
  show ?thesis
  proof (rule recovery_code_loop_ends)
    show "find (\<lambda>u. us_id u = 1) (users (bob_db [] [] [])) = Some bob" by (simp add: bob_defs)
  qed (simp_all add: rival_consumes bob_defs)
qed

theorem recovery_code_consumed_once_witness:
  "\<exists>d'. ConsumeRecoveryCode (\<lambda>c. c) 5 1 ''r1'' [rival, rival] (bob_db [] [] []) = Some (Inr True, d')
     \<and> ConsumeRecoveryCode (\<lambda>c. c) 5 1 ''r1'' [\<lambda>d. d] d' = Some (Inr False, d')"
proof -
  obtain d' where d': "ConsumeRecoveryCode (\<lambda>c. c) 5 1 ''r1'' [rival, rival] (bob_db [] [] []) = Some (Inr True, d')"
    by (simp add: rival_def rows_affected_def Let_def bob_defs)
  have "\<forall>b \<in> set [rival, rival]. \<forall>d. distinct (map us_id (users d)) \<longrightarrow> distinct (map us_id (users (b d)))"
    by (simp add: rival_def comp_def)
  moreover have "distinct (map us_id (users (bob_db [] [] [])))" by (simp add: bob_defs)
  ultimately show ?thesis using recovery_code_consumed_once [OF _ _ d'] d' by blast
qed

theorem ListUsers_resolves_like_GetUser_witness:
  "ListUsers (bob_db [] [] []) = map (resolveAdminPerms (bob_db [] [] [])) (users (bob_db [] [] []))"
  by (rule ListUsers_resolves_like_GetUser) (simp_all add: bob_defs)

end
