(* ===== verification/Minecraft.thy ===== *)
theory Minecraft imports Go_Strings Models begin

text \<open>
  The activator's reading of Minecraft's first packets (\<open>cmd/activator/minecraft.go\<close>), which tells
  a player from a port scanner: VarInts, packets, the handshake, the answer to a server-list ping
  and the disconnect screen. A connection is the bytes its client sends before the read fails (the
  client hung up or the deadline passed) and the bytes written to it; \<open>cn_writes\<close> is the number
  of writes that succeed before the connection is broken.
\<close>

unbundle bit_operations_syntax

datatype mc_error = ReadError | NotMinecraft

definition mcStateStatus :: int where "mcStateStatus = 1"
definition mcStateLogin :: int where "mcStateLogin = 2"
definition mcStateTransfer :: int where "mcStateTransfer = 3"
definition mcMaxHandshake :: int where "mcMaxHandshake = 2048"
definition mcMaxPacket :: int where "mcMaxPacket = 512"
definition mcAsleepMOTD :: string where "mcAsleepMOTD = ''Asleep: join to wake it up''"
definition mcWakingReason :: string where
  "mcWakingReason = ''The server is waking up. Reconnect in a minute.''"

record mcHandshake =
  mh_raw :: string
  mh_protocol :: "32 word"
  mh_address :: string
  mh_port :: "16 word"
  mh_next :: "32 word"

definition joining :: "mcHandshake \<Rightarrow> bool" where
  "joining h = (sint (mh_next h) = mcStateLogin \<or> sint (mh_next h) = mcStateTransfer)"

subsection \<open>VarInts\<close>

definition byte_word :: "char \<Rightarrow> 32 word" where "byte_word c = of_nat (byte c)"
definition word_byte :: "32 word \<Rightarrow> char" where "word_byte w = of_byte (unat (take_bit 8 w))"

fun varint_loop :: "nat \<Rightarrow> 32 word \<Rightarrow> string \<Rightarrow> string \<Rightarrow> mc_error + (32 word \<times> string \<times> string)" where
  "varint_loop i v raw s =
     (if i < 5
      then (case s of
              [] \<Rightarrow> Inl ReadError
            | c # s' \<Rightarrow>
                (let v' = v OR push_bit (7 * i) (byte_word c AND 0x7F)
                 in if byte_word c AND 0x80 = 0 then Inr (v', raw @ [c], s')
                    else varint_loop (Suc i) v' (raw @ [c]) s'))
      else Inl NotMinecraft)"

declare varint_loop.simps [simp del]

definition readVarInt :: "string \<Rightarrow> mc_error + (32 word \<times> string \<times> string)" where
  \<comment> \<open>the value, the bytes it was made of, and what is left to read\<close>
  "readVarInt s = varint_loop 0 0 [] s"

function append_varint :: "string \<Rightarrow> 32 word \<Rightarrow> string" where
  "append_varint b u =
     (if 0x80 \<le> u then append_varint (b @ [word_byte (take_bit 8 u OR 0x80)]) (drop_bit 7 u)
      else b @ [word_byte u])"
  by pat_completeness auto
termination
proof (relation "measure (\<lambda>(_, u). unat u)")
  fix b and u :: "32 word" assume "0x80 \<le> u"
  then have "0 < unat u" by (auto simp: word_le_nat_alt)
  then show "((b @ [word_byte (take_bit 8 u OR 0x80)], drop_bit 7 u), (b, u)) \<in> measure (\<lambda>(_, u). unat u)"
    by (simp add: drop_bit_eq_div unat_div)
qed simp

declare append_varint.simps [simp del]

definition appendVarInt :: "string \<Rightarrow> 32 word \<Rightarrow> string" where
  "appendVarInt b v = append_varint b v"

subsection \<open>Packets\<close>

definition readPacket :: "int \<Rightarrow> string \<Rightarrow> mc_error + (nat \<times> string \<times> string \<times> string)" where
  \<comment> \<open>the id, the body, every byte read, and what is left to read\<close>
  "readPacket mx s =
     (case readVarInt s of
        Inl e \<Rightarrow> Inl e
      | Inr (n, lraw, s1) \<Rightarrow>
          if sint n < 1 \<or> sint n > mx then Inl NotMinecraft
          else
            (case s1 of
               [] \<Rightarrow> Inl ReadError
             | p # s2 \<Rightarrow>
                 if byte p \<ge> 0x80 then Inl NotMinecraft
                 else
                   (let m = nat (sint n) - 1
                    in if length s2 < m then Inl ReadError
                       else Inr (byte p, take m s2, lraw @ p # take m s2, drop m s2))))"

definition readHandshakePacket :: "string \<Rightarrow> mc_error + (string \<times> string \<times> string)" where
  "readHandshakePacket s =
     (case readVarInt s of
        Inl e \<Rightarrow> Inl e
      | Inr (n, lraw, s1) \<Rightarrow>
          if sint n < 1 \<or> sint n > mcMaxHandshake then Inl NotMinecraft
          else
            (case s1 of
               [] \<Rightarrow> Inl ReadError
             | p # s2 \<Rightarrow>
                 if byte p \<noteq> 0 then Inl NotMinecraft
                 else
                   (let m = nat (sint n) - 1
                    in if length s2 < m then Inl ReadError
                       else Inr (take m s2, lraw @ p # take m s2, drop m s2))))"

definition readString :: "string \<Rightarrow> int \<Rightarrow> mc_error + (string \<times> string)" where
  "readString r mx =
     (case readVarInt r of
        Inl _ \<Rightarrow> Inl NotMinecraft
      | Inr (n, _, r1) \<Rightarrow>
          if sint n < 0 \<or> sint n > mx \<or> sint n > int (length r1) then Inl NotMinecraft
          else
            (let b = take (nat (sint n)) r1
             in if \<not> utf8_valid b then Inl NotMinecraft else Inr (b, drop (nat (sint n)) r1)))"

definition readMCHandshake :: "string \<Rightarrow> mc_error + (mcHandshake \<times> string)" where
  "readMCHandshake s =
     (case readHandshakePacket s of
        Inl e \<Rightarrow> Inl e
      | Inr (body, raw, rest) \<Rightarrow>
          (case readVarInt body of
             Inl _ \<Rightarrow> Inl NotMinecraft
           | Inr (protocol, _, b1) \<Rightarrow>
               (case readString b1 mcMaxHandshake of
                  Inl _ \<Rightarrow> Inl NotMinecraft
                | Inr (address, b2) \<Rightarrow>
                    (case b2 of
                       p1 # p2 # b3 \<Rightarrow>
                         (case readVarInt b3 of
                            Inl _ \<Rightarrow> Inl NotMinecraft
                          | Inr (nxt, _, b4) \<Rightarrow>
                              if b4 \<noteq> [] \<or> sint nxt < mcStateStatus \<or> sint nxt > mcStateTransfer
                              then Inl NotMinecraft
                              else Inr (\<lparr>mh_raw = raw, mh_protocol = protocol, mh_address = address,
                                         mh_port = of_nat (256 * byte p1 + byte p2), mh_next = nxt\<rparr>, rest))
                     | _ \<Rightarrow> Inl NotMinecraft))))"

definition appendString :: "string \<Rightarrow> string \<Rightarrow> string" where
  "appendString b s = appendVarInt b (of_nat (length s)) @ s"

record connection =
  cn_in :: string
  cn_out :: string
  cn_writes :: nat

definition conn_write :: "string \<Rightarrow> connection \<Rightarrow> mc_error option \<times> connection" where
  "conn_write p c = (if cn_writes c = 0 then (Some ReadError, c)
     else (None, c\<lparr>cn_out := cn_out c @ p, cn_writes := cn_writes c - 1\<rparr>))"

definition packet_bytes :: "32 word \<Rightarrow> string \<Rightarrow> string" where
  "packet_bytes i body =
     (let data = appendVarInt [] i @ body in appendVarInt [] (of_nat (length data)) @ data)"

definition writePacket :: "32 word \<Rightarrow> string \<Rightarrow> connection \<Rightarrow> mc_error option \<times> connection" where
  "writePacket i body c = conn_write (packet_bytes i body) c"

subsection \<open>Answers\<close>

definition status_json :: "32 word \<Rightarrow> string" where
  \<comment> \<open>\<open>json.Marshal\<close> of the maps, their keys sorted\<close>
  "status_json protocol =
     ''{\"description\":{\"color\":\"gray\",\"text\":\"'' @ mcAsleepMOTD
     @ ''\"},\"players\":{\"max\":0,\"online\":0},\"version\":{\"name\":\"Quetzal\",\"protocol\":''
     @ show_int (sint protocol) @ ''}}''"

definition conn_read :: "(string \<Rightarrow> mc_error + (nat \<times> string \<times> string \<times> string)) \<Rightarrow> connection
    \<Rightarrow> (mc_error + (nat \<times> string)) \<times> connection" where
  "conn_read p c = (case p (cn_in c) of
     Inl e \<Rightarrow> (Inl e, c\<lparr>cn_in := []\<rparr>) | Inr (i, body, _, rest) \<Rightarrow> (Inr (i, body), c\<lparr>cn_in := rest\<rparr>))"

definition serveMCStatus :: "mcHandshake \<Rightarrow> connection \<Rightarrow> mc_error option \<times> connection" where
  "serveMCStatus h c =
     (case conn_read (readPacket mcMaxPacket) c of
        (Inl e, c1) \<Rightarrow> (Some e, c1)
      | (Inr (i, _), c1) \<Rightarrow>
          if i \<noteq> 0 then (Some NotMinecraft, c1)
          else
            (case writePacket 0 (appendString [] (status_json (mh_protocol h))) c1 of
               (Some e, c2) \<Rightarrow> (Some e, c2)
             | (None, c2) \<Rightarrow>
                 (case conn_read (readPacket mcMaxPacket) c2 of
                    (Inl _, c3) \<Rightarrow> (None, c3)
                  | (Inr (i, body), c3) \<Rightarrow>
                      if i \<noteq> 1 \<or> length body \<noteq> 8 then (None, c3) else writePacket 1 body c3)))"

definition readMCLoginName :: "connection \<Rightarrow> string \<times> connection" where
  "readMCLoginName c =
     (case conn_read (readPacket mcMaxPacket) c of
        (Inl _, c1) \<Rightarrow> (''?'', c1)
      | (Inr (i, body), c1) \<Rightarrow>
          if i \<noteq> 0 then (''?'', c1)
          else (case readString body 64 of
                  Inl _ \<Rightarrow> (''?'', c1)
                | Inr (name, _) \<Rightarrow> (if name = [] then ''?'' else name, c1)))"

definition mcDisconnect :: "string \<Rightarrow> connection \<Rightarrow> mc_error option \<times> connection" where
  \<comment> \<open>of a reason with nothing that JSON escapes\<close>
  "mcDisconnect reason c = writePacket 0 (appendString [] (''{\"text\":\"'' @ reason @ ''\"}'')) c"


subsection \<open>VarInts read back\<close>

lemma append_varint_append: "append_varint b u = b @ append_varint [] u"
proof (induction u arbitrary: b rule: measure_induct_rule [of unat])
  case (less u)
  show ?case
  proof (cases "0x80 \<le> u")
    case True
    let ?c = "word_byte (take_bit 8 u OR 0x80)"
    have "unat (drop_bit 7 u) < unat u"
      using True by (auto simp: drop_bit_eq_div unat_div word_le_nat_alt)
    note IH = less.IH [OF this]
    have "append_varint b u = append_varint (b @ [?c]) (drop_bit 7 u)"
      "append_varint [] u = append_varint [?c] (drop_bit 7 u)"
      by (subst append_varint.simps, simp add: True)+
    then show ?thesis using IH [of "b @ [?c]"] IH [of "[?c]"] by simp
  next
    case False
    have "append_varint b u = b @ [word_byte u]" "append_varint [] u = [word_byte u]"
      by (subst append_varint.simps, simp add: False)+
    then show ?thesis by simp
  qed
qed

lemma append_varint_less: "u < 0x80 \<Longrightarrow> append_varint [] u = [word_byte u]"
  by (subst append_varint.simps) (auto dest: leD)

lemma append_varint_more:
  "0x80 \<le> u \<Longrightarrow> append_varint [] u = word_byte (take_bit 8 u OR 0x80) # append_varint [] (drop_bit 7 u)"
  by (subst append_varint.simps) (simp add: append_varint_append [of "[_]"])

lemma byte_word_byte [simp]: "byte_word (word_byte w) = take_bit 8 w"
proof -
  have "unat (take_bit 8 w) < 256"
    using take_bit_nat_less_exp [of 8 "unat w"] by (simp add: unsigned_take_bit_eq)
  then show ?thesis by (simp add: byte_word_def word_byte_def)
qed

lemma varint_length: "unat u < 2 ^ (7 * Suc k) \<Longrightarrow> length (append_varint [] u) \<le> Suc k"
proof (induction k arbitrary: u)
  case 0
  then have "u < 0x80" by (simp add: word_less_nat_alt)
  then show ?case by (simp add: append_varint_less)
next
  case (Suc k)
  show ?case
  proof (cases "u < 0x80")
    case False
    have "unat (drop_bit 7 u) < 2 ^ (7 * Suc k)"
      using Suc.prems by (simp add: drop_bit_eq_div unat_div power_add div_less_iff_less_mult)
    with Suc.IH False show ?thesis by (simp add: append_varint_more)
  qed (simp add: append_varint_less)
qed

lemma varint_bits: "push_bit n (take_bit 7 u) OR push_bit (n + 7) (drop_bit 7 u) = push_bit n (u :: 32 word)"
proof (rule bit_word_eqI)
  fix k assume "k < LENGTH(32)"
  have "n + 7 \<le> k \<Longrightarrow> 7 + (k - (n + 7)) = k - n" by simp
  then show "bit (push_bit n (take_bit 7 u) OR push_bit (n + 7) (drop_bit 7 u)) k = bit (push_bit n u) k"
    using \<open>k < LENGTH(32)\<close> by (cases "n + 7 \<le> k") (auto simp: bit_simps)
qed

lemma bit_0x7F: "bit (0x7F :: 32 word) k \<longleftrightarrow> k < 7"
proof -
  have "(0x7F :: 32 word) = mask 7" by (simp add: mask_numeral)
  then show ?thesis by (simp only: bit_mask_iff) auto
qed

lemma bit_0x80: "bit (0x80 :: 32 word) k \<longleftrightarrow> k = 7"
proof -
  have "(0x80 :: 32 word) = push_bit 7 1" by simp
  then show ?thesis by (simp only: bit_push_bit_iff) (auto simp: bit_1_iff)
qed

lemma low_byte:
  "take_bit 8 w AND 0x7F = (take_bit 7 w :: 32 word)" "(take_bit 8 w OR 0x80) AND 0x7F = (take_bit 7 w :: 32 word)"
  "(take_bit 8 w OR 0x80) AND 0x80 \<noteq> (0 :: 32 word)" "take_bit 8 (take_bit 8 w OR 0x80) = take_bit 8 w OR (0x80 :: 32 word)"
proof -
  show "take_bit 8 w AND 0x7F = (take_bit 7 w :: 32 word)" "(take_bit 8 w OR 0x80) AND 0x7F = (take_bit 7 w :: 32 word)"
    "take_bit 8 (take_bit 8 w OR 0x80) = take_bit 8 w OR (0x80 :: 32 word)"
    by (rule bit_word_eqI, simp only: bit_and_iff bit_or_iff bit_take_bit_iff bit_0x7F bit_0x80, auto)+
  have "bit ((take_bit 8 w OR 0x80) AND (0x80 :: 32 word)) 7" by (simp add: bit_and_iff bit_or_iff bit_0x80)
  then show "(take_bit 8 w OR 0x80) AND 0x80 \<noteq> (0 :: 32 word)" by (metis bit_0_eq bot_apply bot_bool_def)
qed

lemma small_word:
  assumes "u < (0x80 :: 32 word)"
  shows "take_bit 7 u = u" "take_bit 8 u AND 0x80 = 0"
proof -
  from assms have "unat u < 2 ^ 7" by (simp add: word_less_nat_alt)
  then show u: "take_bit 7 u = u" by (simp add: word_unat_eq_iff unsigned_take_bit_eq take_bit_nat_eq_self_iff)
  have "\<not> bit u 7" using u by (metis bit_take_bit_iff less_irrefl)
  then show "take_bit 8 u AND 0x80 = 0"
    by (intro bit_word_eqI) (simp only: bit_and_iff bit_take_bit_iff bit_0x80, auto)
qed

lemma varint_loop_append:
  "length (append_varint [] u) \<le> 5 - i \<Longrightarrow>
    varint_loop i v raw (append_varint [] u @ rest) = Inr (v OR push_bit (7 * i) u, raw @ append_varint [] u, rest)"
proof (induction u arbitrary: i v raw rule: measure_induct_rule [of unat])
  case (less u)
  show ?case
  proof (cases "u < 0x80")
    case True
    with less.prems small_word [OF True] show ?thesis
      by (subst varint_loop.simps) (simp add: append_varint_less low_byte)
  next
    case False
    then have more: "0x80 \<le> u" by simp
    have smaller: "unat (drop_bit 7 u) < unat u"
      using more by (auto simp: drop_bit_eq_div unat_div word_le_nat_alt)
    have "length (append_varint [] (drop_bit 7 u)) \<le> 5 - Suc i" "i < 5"
      using less.prems more by (auto simp: append_varint_more)
    with less.IH [OF smaller, of "Suc i"] more show ?thesis
      by (subst varint_loop.simps) (simp add: append_varint_more low_byte or.assoc add.commute [of _ 7] flip: varint_bits [of "7 * i" u])
  qed
qed

lemma readVarInt_appendVarInt [simp]:
  "readVarInt (appendVarInt [] v @ rest) = Inr (v, appendVarInt [] v, rest)"
proof -
  have "unat v < 2 ^ (7 * Suc 4)" using unsigned_less [of v, where 'a = nat] by simp
  then have "length (append_varint [] v) \<le> 5 - 0" using varint_length [of v 4] by simp
  from varint_loop_append [OF this, of 0 "[]" rest] show ?thesis
    by (simp add: readVarInt_def appendVarInt_def)
qed


subsection \<open>Handshakes\<close>

lemma sint_small: "n < 2 ^ 31 \<Longrightarrow> sint (of_nat n :: 32 word) = int n"
  by (simp add: signed_of_nat signed_take_bit_int_eq_self_iff)

lemma readHandshakePacket_packet_bytes:
  assumes "length body < 2048"
  shows "readHandshakePacket (packet_bytes 0 body @ rest) = Inr (body, packet_bytes 0 body, rest)"
proof -
  have id: "appendVarInt [] 0 = [CHR 0x00]"
    by (simp add: appendVarInt_def append_varint_less word_byte_def) code_simp
  have n: "sint (of_nat (Suc (length body)) :: 32 word) = int (Suc (length body))"
    using assms by (intro sint_small) simp
  have "byte (CHR 0x00) = 0" by (simp add: byte_def)
  with assms n show ?thesis
    by (simp add: readHandshakePacket_def packet_bytes_def id readVarInt_appendVarInt mcMaxHandshake_def Let_def
        del: of_nat_Suc)
qed

lemma readString_appendString:
  assumes "utf8_valid a" "length a \<le> 2048"
  shows "readString (appendString [] a @ r) mcMaxHandshake = Inr (a, r)"
  using assms sint_small [of "length a"]
  by (simp add: readString_def appendString_def readVarInt_appendVarInt mcMaxHandshake_def)

definition handshake_bytes :: "32 word \<Rightarrow> string \<Rightarrow> 16 word \<Rightarrow> 32 word \<Rightarrow> string" where
  \<comment> \<open>the first packet of a client, as the protocol lays it out\<close>
  "handshake_bytes protocol address port nxt =
     packet_bytes 0 (appendVarInt [] protocol @ appendString [] address
       @ [of_byte (unat port div 256), of_byte (unat port mod 256)] @ appendVarInt [] nxt)"

lemma appendVarInt_length: "length (appendVarInt [] v) \<le> 5"
proof -
  have "unat v < 2 ^ (7 * Suc 4)" using unsigned_less [of v, where 'a = nat] by simp
  then show ?thesis using varint_length [of v 4] by (simp add: appendVarInt_def)
qed

text \<open>A client's handshake is read back exactly, every field at its width, and nothing that
  follows it is consumed.\<close>

theorem handshake_read_back:
  assumes "utf8_valid address" "1 \<le> sint nxt" "sint nxt \<le> 3"
    and "length (appendVarInt [] protocol @ appendString [] address @ [x, y] @ appendVarInt [] nxt) < 2048"
  shows "readMCHandshake (handshake_bytes protocol address port nxt @ rest)
    = Inr (\<lparr>mh_raw = handshake_bytes protocol address port nxt, mh_protocol = protocol, mh_address = address,
            mh_port = port, mh_next = nxt\<rparr>, rest)"
proof -
  let ?body = "appendVarInt [] protocol @ appendString [] address
       @ [of_byte (unat port div 256), of_byte (unat port mod 256)] @ appendVarInt [] nxt"
  have body: "length ?body < 2048" using assms(4) by simp
  then have addr: "length address \<le> 2048" by (simp add: appendString_def)
  have "unat port < 65536" using unsigned_less [of port, where 'a = nat] by simp
  then have "unat port div 256 < 256" by (simp add: div_less_iff_less_mult)
  then have port: "(of_nat (256 * byte (of_byte (unat port div 256)) + byte (of_byte (unat port mod 256))) :: 16 word) = port"
    by simp
  have last: "readVarInt (appendVarInt [] nxt) = Inr (nxt, appendVarInt [] nxt, [])"
    using readVarInt_appendVarInt [of nxt "[]"] by simp
  show ?thesis
    unfolding handshake_bytes_def readMCHandshake_def readHandshakePacket_packet_bytes [OF body]
    using assms(2,3) port
    by (simp add: readVarInt_appendVarInt readString_appendString [OF assms(1) addr] last
        mcStateStatus_def mcStateTransfer_def)
qed

lemma varint_loop_consumes:
  "varint_loop i v raw s = Inr (v', raw', rest) \<Longrightarrow>
    \<exists>used. raw' = raw @ used \<and> s = used @ rest \<and> length used \<le> 5 - i"
proof (induction i v raw s rule: varint_loop.induct)
  case (1 i v raw s)
  show ?case
  proof (cases s)
    case Nil
    with 1(2) show ?thesis by (subst (asm) varint_loop.simps) (simp split: if_splits)
  next
    case (Cons c s')
    show ?thesis
    proof (cases "i < 5 \<and> byte_word c AND 0x80 \<noteq> 0")
      case True
      with 1(2) Cons have "varint_loop (Suc i) (v OR push_bit (7 * i) (byte_word c AND 0x7F)) (raw @ [c]) s'
          = Inr (v', raw', rest)"
        by (subst (asm) varint_loop.simps) (simp add: Let_def)
      from 1(1) [OF _ Cons refl _ this] True obtain used where
        "raw' = (raw @ [c]) @ used \<and> s' = used @ rest \<and> length used \<le> 5 - Suc i" by auto
      with Cons True show ?thesis by (intro exI [of _ "c # used"]) auto
    next
      case False
      with 1(2) Cons show ?thesis
        by (subst (asm) varint_loop.simps) (auto simp: Let_def split: if_splits)
    qed
  qed
qed

lemma readHandshakePacket_consumes:
  assumes "readHandshakePacket s = Inr (body, raw, rest)"
  shows "s = raw @ rest" "length raw \<le> 2053"
proof -
  from assms obtain n lraw s1 p s2 where v: "readVarInt s = Inr (n, lraw, s1)"
    and n: "1 \<le> sint n" "sint n \<le> mcMaxHandshake" and s1: "s1 = p # s2" "nat (sint n) - 1 \<le> length s2"
    and raw: "raw = lraw @ p # take (nat (sint n) - 1) s2" "rest = drop (nat (sint n) - 1) s2"
    by (auto simp: readHandshakePacket_def Let_def not_less split: sum.splits if_splits list.splits)
  from v varint_loop_consumes [of 0 0 "[]" s n lraw s1] have "s = lraw @ s1" "length lraw \<le> 5"
    by (auto simp: readVarInt_def)
  then show "s = raw @ rest" "length raw \<le> 2053"
    using n s1 raw by (auto simp: mcMaxHandshake_def)
qed

text \<open>What the activator hands on to the server after it has read a handshake, and what it leaves
  to read, are together exactly what the client sent; a handshake is at most 2053 bytes and asks
  for one of the three things a client can ask for.\<close>

theorem handshake_replays_its_bytes:
  assumes "readMCHandshake s = Inr (h, rest)"
  shows "s = mh_raw h @ rest \<and> length (mh_raw h) \<le> 2053
    \<and> sint (mh_next h) \<in> {mcStateStatus, mcStateLogin, mcStateTransfer} \<and> utf8_valid (mh_address h)"
proof -
  from assms obtain body where "readHandshakePacket s = Inr (body, mh_raw h, rest)"
    by (auto simp: readMCHandshake_def split: sum.splits list.splits if_splits)
  moreover have "mcStateStatus \<le> sint (mh_next h)" "sint (mh_next h) \<le> mcStateTransfer" "utf8_valid (mh_address h)"
    using assms by (auto simp: readMCHandshake_def readString_def Let_def split: sum.splits list.splits if_splits)
  ultimately show ?thesis
    using readHandshakePacket_consumes by (auto simp: mcStateStatus_def mcStateLogin_def mcStateTransfer_def)
qed

text \<open>A VarInt of any of the 2 to the 32 values is read back as it was written, from at most five
  bytes, and leaves what follows it.\<close>

theorem varint_round_trip:
  "readVarInt (appendVarInt [] v @ rest) = Inr (v, appendVarInt [] v, rest) \<and> length (appendVarInt [] v) \<le> 5"
  by (simp add: appendVarInt_length)

subsection \<open>The hypotheses can hold\<close>

theorem handshake_read_back_witness:
  "\<exists>h. readMCHandshake (handshake_bytes 765 ''play.example'' 25565 2 @ ''login'') = Inr (h, ''login'') \<and> joining h"
proof -
  have v: "utf8_valid ''play.example''" by code_simp
  have len: "length (appendVarInt [] 765 @ appendString [] ''play.example'' @ [CHR ''x'', CHR ''y''] @ appendVarInt [] 2) < 2048"
    using appendVarInt_length [of 765] appendVarInt_length [of 2] appendVarInt_length [of 12] by (simp add: appendString_def)
  have "1 \<le> sint (2 :: 32 word)" "sint (2 :: 32 word) \<le> 3" by simp_all
  from handshake_read_back [OF v this len, of 25565 "''login''"]
  show ?thesis by (simp add: joining_def mcStateLogin_def)
qed

definition sample_login :: string where
  "sample_login = [CHR 0x06, CHR 0x00, CHR 0x01, CHR 0x00, CHR 0x63, CHR 0xDD, CHR 0x02]"

lemma sample_login_read:
  "readMCHandshake (sample_login @ ''more'') =
     Inr (\<lparr>mh_raw = sample_login, mh_protocol = 1, mh_address = [], mh_port = 25565, mh_next = 2\<rparr>, ''more'')"
  by code_simp

theorem handshake_replays_its_bytes_witness:
  "\<exists>h. readMCHandshake (sample_login @ ''more'') = Inr (h, ''more'') \<and> sample_login @ ''more'' = mh_raw h @ ''more''"
  using handshake_replays_its_bytes [OF sample_login_read] sample_login_read by blast

end
