(* ===== verification/Wake_Gate.thy ===== *)
theory Wake_Gate imports Minecraft begin

text \<open>
  What wakes a sleeping server (\<open>cmd/activator/main.go\<close>, \<open>probe.go\<close>, \<open>proxy.go\<close>): the gate that
  knows which connections are a player, the waker that debounces the callback, the handlers of
  the two modes, the classification of UDP packets and the pong remembered for a sleeping Bedrock
  server. A connection is the one of \<open>Minecraft\<close>; the network's answers (whether the server can be
  reached, what a client sends first) are arguments, and what a handler does is the list of its
  actions in their order.
\<close>

record wakeGate =
  wg_protocol :: string
  wg_gamePort :: string

definition minecraft :: "wakeGate \<Rightarrow> bool" where
  "minecraft g = (wg_protocol g = ''minecraft'' \<and> wg_gamePort g \<noteq> [])"

definition mcTimeout :: duration where "mcTimeout = 5 * second"
definition maxPending :: nat where "maxPending = 64"

fun nonempty_trimmed :: "string list \<Rightarrow> string list" where
  "nonempty_trimmed [] = []"
| "nonempty_trimmed (p # ps) = (if TrimSpace p \<noteq> [] then TrimSpace p # nonempty_trimmed ps else nonempty_trimmed ps)"

definition splitPorts :: "string \<Rightarrow> string list" where
  "splitPorts s = nonempty_trimmed (split_on CHR '','' s)"

subsection \<open>The waker\<close>

record waker =
  wk_cooldown :: duration
  wk_last :: "time option"  \<comment> \<open>\<open>None\<close> is the zero time\<close>

definition trigger_claim :: "time \<Rightarrow> waker \<Rightarrow> bool \<times> waker" where
  \<comment> \<open>the first critical section of \<open>trigger\<close>: whether the callback is posted\<close>
  "trigger_claim now w =
     (case wk_last w of
        Some t \<Rightarrow> if now - t < wk_cooldown w then (False, w) else (True, w\<lparr>wk_last := Some now\<rparr>)
      | None \<Rightarrow> (True, w\<lparr>wk_last := Some now\<rparr>))"

definition trigger_failed :: "waker \<Rightarrow> waker" where
  \<comment> \<open>the second one, when the callback failed\<close>
  "trigger_failed w = w\<lparr>wk_last := None\<rparr>"

definition trigger :: "time \<Rightarrow> bool \<Rightarrow> waker \<Rightarrow> bool \<times> waker" where
  \<comment> \<open>\<open>post_ok\<close> is whether the callback succeeds\<close>
  "trigger now post_ok w =
     (let (posted, w1) = trigger_claim now w
      in (posted, if posted \<and> \<not> post_ok then trigger_failed w1 else w1))"

datatype http_result = No_response | Status nat

definition postCallback :: "http_result \<Rightarrow> bool" where
  \<comment> \<open>whether it returns no error: whatever the status of the answer\<close>
  "postCallback r = (case r of No_response \<Rightarrow> False | Status _ \<Rightarrow> True)"

lemma refused_wake_is_debounced:
  \<comment> \<open>a callback the control plane answers with an error holds the next ones back like a good one\<close>
  "trigger now (postCallback (Status n)) w = trigger now True w"
  by (simp add: postCallback_def)

subsection \<open>Drop mode\<close>

datatype action = Wake_server | To_server string | To_client string | Pipe bool  \<comment> \<open>counted as activity\<close>

definition written :: "connection \<Rightarrow> connection \<Rightarrow> action list" where
  "written c c' = (let out = drop (length (cn_out c)) (cn_out c') in if out = [] then [] else [To_client out])"

definition dropMinecraft :: "connection \<Rightarrow> action list" where
  "dropMinecraft c =
     (case readMCHandshake (cn_in c) of
        Inl _ \<Rightarrow> []
      | Inr (h, rest) \<Rightarrow>
          (let c1 = c\<lparr>cn_in := rest\<rparr>
           in if \<not> joining h then written c (snd (serveMCStatus h c1))
              else (let (_, c2) = readMCLoginName c1; (_, c3) = mcDisconnect mcWakingReason c2
                    in written c c3 @ [Wake_server])))"

datatype first_read = Sent string | Timed_out | Hung_up

definition firstMove :: "first_read \<Rightarrow> bool \<times> string" where
  \<comment> \<open>what the one read within \<open>scanWindow\<close> came to\<close>
  "firstMove r = (case r of Sent b \<Rightarrow> (True, b) | Timed_out \<Rightarrow> (True, []) | Hung_up \<Rightarrow> (False, []))"

definition dropAny :: "first_read \<Rightarrow> action list" where
  "dropAny r = (if fst (firstMove r) then [Wake_server] else [])"

definition dropListen :: "wakeGate \<Rightarrow> string \<Rightarrow> nat \<Rightarrow> first_read \<Rightarrow> connection \<Rightarrow> action list" where
  \<comment> \<open>one accepted connection, \<open>pending\<close> others being read on the port: past \<open>maxPending\<close> it is closed unread\<close>
  "dropListen g port pending r c =
     (if \<not> minecraft g then (if pending < maxPending then dropAny r else [])
      else if port \<noteq> wg_gamePort g then []
      else if pending < maxPending then dropMinecraft c else [])"

subsection \<open>Proxy mode, TCP\<close>

definition handleMinecraft :: "bool \<Rightarrow> bool \<Rightarrow> connection \<Rightarrow> action list" where
  \<comment> \<open>whether the server can be reached, and whether the handshake can be written to it\<close>
  "handleMinecraft up write_ok c =
     (case readMCHandshake (cn_in c) of
        Inl _ \<Rightarrow> []
      | Inr (h, rest) \<Rightarrow>
          (let c1 = c\<lparr>cn_in := rest\<rparr>; wake = (if joining h then [Wake_server] else [])
           in if \<not> up
              then wake @ written c (snd (if joining h then mcDisconnect mcWakingReason c1 else serveMCStatus h c1))
              else if \<not> write_ok then wake
              else wake @ [To_server (mh_raw h), Pipe (joining h)]))"

definition forwardIfUp :: "bool \<Rightarrow> action list" where
  "forwardIfUp up = (if up then [Pipe False] else [])"

definition handleTCP :: "bool \<Rightarrow> first_read \<Rightarrow> bool \<Rightarrow> bool \<Rightarrow> action list" where
  \<comment> \<open>\<open>comes_up\<close>: whether the woken server can be reached within the dial budget\<close>
  "handleTCP up r comes_up write_ok =
     (if up then [Wake_server, Pipe True]
      else
        (let (ok, first) = firstMove r
         in if \<not> ok then []
            else if \<not> comes_up then [Wake_server]
            else if first = [] then [Wake_server, Pipe True]
            else if \<not> write_ok then [Wake_server]
            else [Wake_server, To_server first, Pipe True]))"

definition serveTCP :: "wakeGate \<Rightarrow> string \<Rightarrow> bool \<Rightarrow> first_read \<Rightarrow> bool \<Rightarrow> bool \<Rightarrow> connection \<Rightarrow> action list" where
  "serveTCP g port up r comes_up write_ok c =
     (if \<not> minecraft g then handleTCP up r comes_up write_ok
      else if port = wg_gamePort g then handleMinecraft up write_ok c
      else forwardIfUp up)"

subsection \<open>UDP packets\<close>

datatype packetKind = packetOther | packetQuery | packetPing | packetJoin

definition raknetMagic :: string where
  "raknetMagic = [CHR 0x00, CHR 0xFF, CHR 0xFF, CHR 0x00, CHR 0xFE, CHR 0xFE, CHR 0xFE, CHR 0xFE,
     CHR 0xFD, CHR 0xFD, CHR 0xFD, CHR 0xFD, CHR 0x12, CHR 0x34, CHR 0x56, CHR 0x78]"

definition raknetPing :: char where "raknetPing = CHR 0x01"
definition raknetPingOpen :: char where "raknetPingOpen = CHR 0x02"
definition raknetOpenRequest1 :: char where "raknetOpenRequest1 = CHR 0x05"
definition raknetOpenRequest2 :: char where "raknetOpenRequest2 = CHR 0x07"
definition raknetPong :: char where "raknetPong = CHR 0x1C"
definition raknetPingLen :: nat where "raknetPingLen = 1 + 8 + 16 + 8"
definition raknetPongHeaderLen :: nat where "raknetPongHeaderLen = 1 + 8 + 8 + 16 + 2"

definition queryPrefixes :: "string list" where
  "queryPrefixes =
     map (\<lambda>c. [CHR 0xFF, CHR 0xFF, CHR 0xFF, CHR 0xFF, c]) ''TUVWi''
     @ [[CHR 0xFE, CHR 0xFD], ''M-SEARCH '', ''OPTIONS sip:'', ''REGISTER sip:'']"

definition bytes_from :: "nat \<Rightarrow> nat \<Rightarrow> string \<Rightarrow> string" where
  \<comment> \<open>\<open>b[i:j]\<close>, where the code has checked the length\<close>
  "bytes_from i j b = take (j - i) (drop i b)"

definition classifyUDP :: "string \<Rightarrow> packetKind" where
  "classifyUDP b =
     (if length b \<ge> raknetPingLen \<and> (hd b = raknetPing \<or> hd b = raknetPingOpen) \<and> bytes_from 9 25 b = raknetMagic
      then packetPing
      else if length b \<ge> 17 \<and> (hd b = raknetOpenRequest1 \<or> hd b = raknetOpenRequest2) \<and> bytes_from 1 17 b = raknetMagic
      then packetJoin
      else if (\<exists>p \<in> set queryPrefixes. prefix p b) then packetQuery
      else packetOther)"

definition playerPacket :: "wakeGate \<Rightarrow> packetKind \<Rightarrow> bool" where
  "playerPacket g k = (case k of packetQuery \<Rightarrow> False | packetPing \<Rightarrow> False | packetJoin \<Rightarrow> True
     | packetOther \<Rightarrow> \<not> minecraft g)"

subsection \<open>The pong of a sleeping Bedrock server\<close>

record bedrockPong =
  bp_guid :: string
  bp_line :: string

definition remember :: "string \<Rightarrow> bedrockPong \<Rightarrow> bedrockPong" where
  "remember pkt b =
     (if length pkt < raknetPongHeaderLen \<or> hd pkt \<noteq> raknetPong \<or> bytes_from 17 33 pkt \<noteq> raknetMagic then b
      else
        (let n = 256 * byte (pkt ! 33) + byte (pkt ! 34)
         in if length pkt < raknetPongHeaderLen + n then b
            else
              (let line = bytes_from raknetPongHeaderLen (raknetPongHeaderLen + n) pkt
               in if \<not> prefix ''MCPE;'' line \<and> \<not> prefix ''MCEE;'' line then b
                  else \<lparr>bp_guid = bytes_from 9 17 pkt, bp_line = line\<rparr>)))"

definition asleep_line :: "string \<Rightarrow> string" where
  \<comment> \<open>the message of the day and the players of a line\<close>
  "asleep_line line =
     (let f = split_on CHR '';'' line;
          f1 = (if length f > 1 then f[1 := mcAsleepMOTD] else f);
          f2 = (if length f1 > 4 then f1[4 := ''0''] else f1)
      in join '';'' f2)"

definition asleep :: "string \<Rightarrow> bedrockPong \<Rightarrow> string option" where
  "asleep ping b =
     (if bp_line b = [] \<or> length ping < raknetPingLen then None
      else
        (let line = asleep_line (bp_line b); n = length line mod 65536
         in Some (raknetPong # bytes_from 1 9 ping @ bp_guid b @ raknetMagic
              @ [of_byte (n div 256), of_byte (n mod 256)] @ line)))"


subsection \<open>Only a player wakes a Minecraft server\<close>

lemma written_actions: "x \<in> set (written c c') \<Longrightarrow> \<exists>out. x = To_client out"
  by (auto simp: written_def Let_def split: if_splits)

definition player_joining :: "connection \<Rightarrow> bool" where
  "player_joining c = (case readMCHandshake (cn_in c) of Inl _ \<Rightarrow> False | Inr (h, _) \<Rightarrow> joining h)"

lemma written_no_wake [simp]: "Wake_server \<notin> set (written c c')" "Pipe b \<notin> set (written c c')"
  by (auto dest: written_actions)

lemma dropMinecraft_wakes: "Wake_server \<in> set (dropMinecraft c) \<longleftrightarrow> player_joining c"
  by (cases "readMCHandshake (cn_in c)") (auto simp: dropMinecraft_def player_joining_def Let_def split_beta)

lemma handleMinecraft_wakes:
  "Wake_server \<in> set (handleMinecraft up w c) \<longleftrightarrow> player_joining c"
  "Pipe True \<in> set (handleMinecraft up w c) \<longleftrightarrow> player_joining c \<and> up \<and> w"
  by (cases "readMCHandshake (cn_in c)"; auto simp: handleMinecraft_def player_joining_def Let_def split_beta)+

lemma no_handshake_no_answer:
  "readMCHandshake (cn_in c) = Inl e \<Longrightarrow> dropMinecraft c = [] \<and> handleMinecraft up w c = []"
  by (simp add: dropMinecraft_def handleMinecraft_def)


subsection \<open>The waker is debounced\<close>

fun trigger_run :: "(time \<times> bool) list \<Rightarrow> waker \<Rightarrow> time list" where
  \<comment> \<open>when the callbacks of a sequence of triggers are posted\<close>
  "trigger_run [] w = []"
| "trigger_run ((t, ok) # es) w =
     (let (posted, w') = trigger t ok w in (if posted then t # trigger_run es w' else trigger_run es w'))"

fun spaced :: "duration \<Rightarrow> time list \<Rightarrow> bool" where
  "spaced d (t # u # ts) = (d \<le> u - t \<and> spaced d (u # ts))"
| "spaced d _ = True"

lemma trigger_cooldown [simp]: "wk_cooldown (snd (trigger t ok w)) = wk_cooldown w"
  by (auto simp: trigger_def trigger_claim_def trigger_failed_def Let_def split: option.split)

lemma spaced_Cons: "spaced d (t # ts) \<longleftrightarrow> (case ts of [] \<Rightarrow> True | u # _ \<Rightarrow> d \<le> u - t) \<and> spaced d ts"
  by (cases ts) auto

lemma trigger_run_spaced:
  "list_all snd es \<Longrightarrow> spaced (wk_cooldown w) (trigger_run es w)
    \<and> (case wk_last w of None \<Rightarrow> True | Some t \<Rightarrow>
         (case trigger_run es w of [] \<Rightarrow> True | u # _ \<Rightarrow> wk_cooldown w \<le> u - t))"
proof (induction es arbitrary: w)
  case (Cons e es)
  obtain t ok where e: "e = (t, ok)" by fastforce
  with Cons.prems have ok: "ok" "list_all snd es" by simp_all
  show ?case
  proof (cases "fst (trigger_claim t w)")
    case True
    then have tr: "trigger t ok w = (True, w\<lparr>wk_last := Some t\<rparr>)" and late: "case wk_last w of None \<Rightarrow> True | Some u \<Rightarrow> wk_cooldown w \<le> t - u"
      using ok by (auto simp: trigger_def trigger_claim_def split: option.splits if_splits)
    from Cons.IH [OF ok(2), of "w\<lparr>wk_last := Some t\<rparr>"] late show ?thesis
      by (cases "wk_last w") (simp_all add: e tr spaced_Cons split: list.splits)
  next
    case False
    then have "trigger t ok w = (False, w)"
      by (auto simp: trigger_def trigger_claim_def split: option.splits if_splits)
    with Cons.IH [OF ok(2), of w] show ?thesis by (cases "wk_last w") (simp_all add: e)
  qed
qed (simp split: option.splits)

text \<open>however connections burst, the callbacks that wake the server are at least the cooldown apart
  as long as they succeed; one that failed does not hold the next connection's back.\<close>

theorem wakes_are_debounced:
  "(list_all snd es \<longrightarrow> spaced (wk_cooldown w) (trigger_run es w))
   \<and> fst (trigger t2 ok (snd (trigger t1 False (w\<lparr>wk_last := None\<rparr>))))"
  using trigger_run_spaced [of es w]
  by (auto simp: trigger_def trigger_claim_def trigger_failed_def)

subsection \<open>The pong of a sleeping server\<close>

text \<open>The answer given for a sleeping Bedrock server keeps the server's own line but for its message
  and its player count.\<close>

lemma asleep_line_fields:
  assumes "split_on CHR '';'' line = f"
  shows "split_on CHR '';'' (asleep_line line)
    = (if length f > 4 then f[1 := mcAsleepMOTD, 4 := ''0''] else if length f > 1 then f[1 := mcAsleepMOTD] else f)"
proof -
  let ?f = "if length f > 4 then f[1 := mcAsleepMOTD, 4 := ''0''] else if length f > 1 then f[1 := mcAsleepMOTD] else f"
  have "asleep_line line = join '';'' ?f" using assms by (auto simp: asleep_line_def Let_def)
  moreover have "split_on CHR '';'' (join '';'' ?f) = ?f"
  proof (rule split_on_join)
    have sep: "CHR '';'' \<notin> set mcAsleepMOTD" "CHR '';'' \<notin> set ''0''" by (simp_all add: mcAsleepMOTD_def)
    have "p \<in> set f \<Longrightarrow> CHR '';'' \<notin> set p" for p using assms split_on_no_sep by auto
    then show "CHR '';'' \<notin> set p" if "p \<in> set ?f" for p
      using that sep by (auto split: if_splits dest!: set_update_subset_insert [THEN subsetD])
    show "?f \<noteq> []" using assms split_on_nonempty [of "CHR '';''" line] by auto
  qed
  ultimately show ?thesis by simp
qed


subsection \<open>The hypotheses can hold\<close>


theorem wakes_are_debounced_witness:
  "spaced 15 (trigger_run [(0, True), (5, True), (20, True)] \<lparr>wk_cooldown = 15, wk_last = None\<rparr>)"
  using wakes_are_debounced [of "[(0, True), (5, True), (20, True)]" "\<lparr>wk_cooldown = 15, wk_last = None\<rparr>" 1 True 0] by simp

end
