(* ===== verification/Udp_Flows.thy ===== *)
theory Udp_Flows imports Wake_Gate begin

text \<open>
  The UDP flows of the proxy (\<open>cmd/activator/proxy.go\<close>): every client address has a flow with a
  socket to the server and a reader of its own, and each reader holds one of the slots all UDP
  listeners share. A flow goes by the address of its listener and its client; its socket by a
  number. What the code does under the lock of the flows is one step: a packet, a reader that
  ends (it takes its flow away if it is still the flow's, and gives its slot back), an answer of
  the server, and the sweep of idle flows.
\<close>

definition udpIdle :: duration where "udpIdle = 60 * second"
definition maxUDPFlows :: nat where "maxUDPFlows = 128"
definition pongWait :: duration where "pongWait = second div 2"

record udpFlow =
  uf_backend :: nat
  uf_lastSeen :: time
  uf_player :: bool
  uf_lastReply :: "time option"

type_synonym flow_key = "nat \<times> string"  \<comment> \<open>the listener and the client's address\<close>

record udp_state =
  ud_flows :: "(flow_key \<times> udpFlow) list"
  ud_slots :: nat          \<comment> \<open>\<open>udpFlows\<close>\<close>
  ud_readers :: "(flow_key \<times> nat) list"  \<comment> \<open>the readers that run, each with its flow's key and its socket\<close>
  ud_count :: nat          \<comment> \<open>the live flows of \<open>activity\<close>\<close>
  ud_seen :: bool          \<comment> \<open>traffic since the last beat\<close>

definition udp_limit :: "int \<Rightarrow> nat" where
  \<comment> \<open>the limit \<open>acquireUDPFlow\<close> goes by\<close>
  "udp_limit lim = (if lim \<le> 0 \<or> lim > int maxUDPFlows then maxUDPFlows else nat lim)"

definition acquireUDPFlow :: "int \<Rightarrow> udp_state \<Rightarrow> bool \<times> udp_state" where
  "acquireUDPFlow lim st =
     (if ud_slots st \<ge> udp_limit lim then (False, st) else (True, st\<lparr>ud_slots := ud_slots st + 1\<rparr>))"

definition activity_dec :: "udp_state \<Rightarrow> udp_state" where
  "activity_dec st = (if ud_count st > 0 then st\<lparr>ud_count := ud_count st - 1\<rparr> else st)"

definition open_flow :: "int \<Rightarrow> flow_key \<Rightarrow> time \<Rightarrow> nat option \<Rightarrow> udp_state \<Rightarrow> udpFlow option \<times> udp_state" where
  \<comment> \<open>the flow of a packet whose client has none; \<open>dial\<close> is the new socket, if dialing worked\<close>
  "open_flow lim key now dial st =
     (case acquireUDPFlow lim st of
        (False, st1) \<Rightarrow> (None, st1)
      | (True, st1) \<Rightarrow>
          (case dial of
             None \<Rightarrow> (None, st1\<lparr>ud_slots := ud_slots st1 - 1\<rparr>)
           | Some be \<Rightarrow>
               (let f = \<lparr>uf_backend = be, uf_lastSeen = now, uf_player = False, uf_lastReply = None\<rparr>
                in (Some f, st1\<lparr>ud_flows := ud_flows st1 @ [(key, f)], ud_count := ud_count st1 + 1,
                       ud_readers := ud_readers st1 @ [(key, be)]\<rparr>))))"

definition set_flow :: "flow_key \<Rightarrow> udpFlow \<Rightarrow> udp_state \<Rightarrow> udp_state" where
  "set_flow key f st = st\<lparr>ud_flows := map (\<lambda>(k, x). if k = key then (k, f) else (k, x)) (ud_flows st)\<rparr>"

definition udp_packet ::
  "int \<Rightarrow> wakeGate \<Rightarrow> flow_key \<Rightarrow> string \<Rightarrow> time \<Rightarrow> nat option \<Rightarrow> udp_state \<Rightarrow> bool \<times> udp_state" where
  \<comment> \<open>one datagram up to the unlock: whether it triggers the waker\<close>
  "udp_packet lim g key pkt now dial st =
     (case (case map_of (ud_flows st) key of
              Some f \<Rightarrow> (Some f, st) | None \<Rightarrow> open_flow lim key now dial st) of
        (None, st1) \<Rightarrow> (False, st1)
      | (Some f, st1) \<Rightarrow>
          (let f1 = f\<lparr>uf_lastSeen := now\<rparr>;
               wake = (\<not> uf_player f1 \<and> playerPacket g (classifyUDP pkt));
               f2 = (if wake then f1\<lparr>uf_player := True\<rparr> else f1);
               st2 = set_flow key f2 st1
           in (wake, if uf_player f2 then st2\<lparr>ud_seen := True\<rparr> else st2)))"

definition closeFlow :: "flow_key \<Rightarrow> nat \<Rightarrow> udp_state \<Rightarrow> udp_state" where
  "closeFlow key be st =
     (case map_of (ud_flows st) key of
        Some f \<Rightarrow> if uf_backend f = be
                  then activity_dec (st\<lparr>ud_flows := filter (\<lambda>(k, _). k \<noteq> key) (ud_flows st)\<rparr>) else st
      | None \<Rightarrow> st)"

definition reader_ends :: "flow_key \<Rightarrow> nat \<Rightarrow> udp_state \<Rightarrow> udp_state" where
  \<comment> \<open>the end of \<open>udpBackToClient\<close>: the read failed; its deferred release runs last\<close>
  "reader_ends key be st =
     (let st1 = closeFlow key be st
      in st1\<lparr>ud_slots := ud_slots st1 - 1, ud_readers := remove1 (key, be) (ud_readers st1)\<rparr>)"

definition reader_reply :: "flow_key \<Rightarrow> nat \<Rightarrow> time \<Rightarrow> udp_state \<Rightarrow> udp_state" where
  \<comment> \<open>an answer of the server\<close>
  "reader_reply key be now st =
     (case map_of (ud_flows st) key of
        Some f \<Rightarrow>
          if uf_backend f = be
          then (let st1 = set_flow key (f\<lparr>uf_lastSeen := now, uf_lastReply := Some now\<rparr>) st
                in if uf_player f then st1\<lparr>ud_seen := True\<rparr> else st1)
          else st
      | None \<Rightarrow> st)"

definition sweepUDP :: "time \<Rightarrow> udp_state \<Rightarrow> udp_state" where
  \<comment> \<open>one tick of the sweep\<close>
  "sweepUDP now st =
     fold (\<lambda>(k, f) st. if now - uf_lastSeen f > udpIdle
             then activity_dec (st\<lparr>ud_flows := filter (\<lambda>(k', _). k' \<noteq> k) (ud_flows st)\<rparr>) else st)
       (ud_flows st) st"

definition activity_beat :: "udp_state \<Rightarrow> bool \<times> udp_state" where
  "activity_beat st = (ud_seen st, st\<lparr>ud_seen := False\<rparr>)"

definition no_flows :: udp_state where
  "no_flows = \<lparr>ud_flows = [], ud_slots = 0, ud_readers = [], ud_count = 0, ud_seen = False\<rparr>"


definition udp_shutdown :: "nat \<Rightarrow> udp_state \<Rightarrow> udp_state" where
  \<comment> \<open>the deferred end of \<open>serveUDP\<close>: the flows of one listener close, their readers end on their own\<close>
  "udp_shutdown l st =
     fold (\<lambda>(k, _) st. if fst k = l
             then activity_dec (st\<lparr>ud_flows := filter (\<lambda>(k', _). k' \<noteq> k) (ud_flows st)\<rparr>) else st)
       (ud_flows st) st"

text \<open>A socket is new while no reader still holds it.\<close>

inductive udp_step :: "int \<Rightarrow> wakeGate \<Rightarrow> udp_state \<Rightarrow> udp_state \<Rightarrow> bool" for lim g where
  packet: "(\<forall>be. dial = Some be \<longrightarrow> be \<notin> snd ` set (ud_readers st)) \<Longrightarrow>
    udp_step lim g st (snd (udp_packet lim g key pkt now dial st))"
| ends: "(key, be) \<in> set (ud_readers st) \<Longrightarrow> udp_step lim g st (reader_ends key be st)"
| reply: "(key, be) \<in> set (ud_readers st) \<Longrightarrow> udp_step lim g st (reader_reply key be now st)"
| sweep: "udp_step lim g st (sweepUDP now st)"
| shutdown: "udp_step lim g st (udp_shutdown l st)"
| beat: "udp_step lim g st (snd (activity_beat st))"

inductive_cases udp_stepE: "udp_step lim g st st'"

section \<open>Slots, readers and flows\<close>

definition flow_sockets :: "udp_state \<Rightarrow> (flow_key \<times> nat) list" where
  "flow_sockets st = map (\<lambda>(k, f). (k, uf_backend f)) (ud_flows st)"

definition udp_ok :: "int \<Rightarrow> udp_state \<Rightarrow> bool" where
  "udp_ok lim st \<longleftrightarrow>
     distinct (map fst (ud_flows st)) \<and> distinct (map snd (ud_readers st)) \<and>
     set (flow_sockets st) \<subseteq> set (ud_readers st) \<and> ud_count st = length (ud_flows st) \<and>
     ud_slots st = length (ud_readers st) \<and> ud_slots st \<le> udp_limit lim"

lemma map_fst_map_keep [simp]: "map fst (map (\<lambda>(k, x). if k = key then (k, f) else (k, x)) xs) = map fst xs"
  by (induction xs) auto

lemma udp_ok_seen [simp]: "udp_ok lim (st\<lparr>ud_seen := b\<rparr>) = udp_ok lim st"
  by (simp add: udp_ok_def flow_sockets_def)

lemma set_flow_ok:
  assumes "udp_ok lim st" "map_of (ud_flows st) key = Some f0" "uf_backend f = uf_backend f0"
  shows "udp_ok lim (set_flow key f st)"
proof -
  have "uf_backend x = uf_backend f" if "(key, x) \<in> set (ud_flows st)" for x
    using assms map_of_is_SomeI [OF _ that] by (simp add: udp_ok_def)
  then have "flow_sockets (set_flow key f st) = flow_sockets st"
    by (auto simp: flow_sockets_def set_flow_def)
  with assms show ?thesis by (simp add: udp_ok_def set_flow_def del: map_map)
qed

lemma filter_key_length:
  "distinct (map fst xs) \<Longrightarrow> k \<in> fst ` set xs \<Longrightarrow>
     length xs = Suc (length (filter (\<lambda>(k', _). k' \<noteq> k) xs))"
proof (induction xs)
  case (Cons x xs)
  show ?case
  proof (cases "fst x = k")
    case True
    then have "k \<notin> fst ` set xs" using Cons.prems by simp
    then have "filter (\<lambda>(k', _). k' \<noteq> k) xs = xs" by (simp add: filter_id_conv case_prod_unfold image_iff) blast
    with True show ?thesis by (cases x) simp
  qed (use Cons in \<open>cases x; auto\<close>)
qed simp

lemma drop_flow_ok:
  assumes "udp_ok lim st" "k \<in> fst ` set (ud_flows st)"
  shows "udp_ok lim (activity_dec (st\<lparr>ud_flows := filter (\<lambda>(k', _). k' \<noteq> k) (ud_flows st)\<rparr>))"
  using assms filter_key_length [of "ud_flows st" k]
  by (auto simp: udp_ok_def activity_dec_def flow_sockets_def distinct_map_filter)

lemma drop_flows_ok:
  "udp_ok lim st \<Longrightarrow> distinct (map fst xs) \<Longrightarrow> set xs \<subseteq> set (ud_flows st) \<Longrightarrow>
     udp_ok lim (fold (\<lambda>(k, f) st. if P k f
       then activity_dec (st\<lparr>ud_flows := filter (\<lambda>(k', _). k' \<noteq> k) (ud_flows st)\<rparr>) else st) xs st)"
proof (induction xs arbitrary: st)
  case (Cons x xs)
  obtain k f where x: "x = (k, f)" by fastforce
  let ?st = "activity_dec (st\<lparr>ud_flows := filter (\<lambda>(k', _). k' \<noteq> k) (ud_flows st)\<rparr>)"
  have "k \<in> fst ` set (ud_flows st)" using Cons.prems x by force
  then have ok: "udp_ok lim ?st" using Cons.prems by (intro drop_flow_ok) auto
  have "set xs \<subseteq> set (ud_flows ?st)" using Cons.prems x by (force simp: activity_dec_def)
  with Cons ok x show ?case by simp
qed simp

lemma closeFlow_ok:
  assumes "udp_ok lim st"
  shows "udp_ok lim (closeFlow key be st)"
    and "(key, be) \<notin> set (flow_sockets (closeFlow key be st))"
    and "ud_readers (closeFlow key be st) = ud_readers st"
proof -
  show "udp_ok lim (closeFlow key be st)"
  proof (cases "map_of (ud_flows st) key")
    case (Some f)
    then have "key \<in> fst ` set (ud_flows st)" by (force dest: map_of_SomeD)
    with assms Some show ?thesis by (simp add: closeFlow_def drop_flow_ok)
  qed (use assms in \<open>simp add: closeFlow_def\<close>)
  show "ud_readers (closeFlow key be st) = ud_readers st"
    by (simp add: closeFlow_def activity_dec_def split: option.splits)
  show "(key, be) \<notin> set (flow_sockets (closeFlow key be st))"
  proof
    assume "(key, be) \<in> set (flow_sockets (closeFlow key be st))"
    then obtain f where "(key, f) \<in> set (ud_flows (closeFlow key be st))" "uf_backend f = be"
      by (auto simp: flow_sockets_def)
    with assms show False
      by (auto simp: closeFlow_def activity_dec_def udp_ok_def
            dest!: map_of_SomeD dest: eq_key_imp_eq_value simp: map_of_eq_None_iff split: option.splits if_splits)
  qed
qed

lemma reader_ends_ok:
  assumes ok: "udp_ok lim st" and r: "(key, be) \<in> set (ud_readers st)"
  shows "udp_ok lim (reader_ends key be st)"
proof -
  let ?st = "closeFlow key be st"
  have d: "distinct (ud_readers st)" using ok by (simp add: udp_ok_def distinct_map)
  have "distinct (map snd (remove1 (key, be) (ud_readers st)))"
    using ok d by (auto simp: udp_ok_def distinct_map intro: inj_on_subset)
  then show ?thesis
    using closeFlow_ok [OF ok, of key be] r d
    by (auto simp: udp_ok_def reader_ends_def Let_def flow_sockets_def length_remove1)
qed

lemma open_flow_ok:
  assumes ok: "udp_ok lim st" and new: "map_of (ud_flows st) key = None"
    and fresh: "\<forall>be. dial = Some be \<longrightarrow> be \<notin> snd ` set (ud_readers st)"
  shows "udp_ok lim (snd (open_flow lim key now dial st))"
    and "fst (open_flow lim key now dial st) = Some f \<Longrightarrow>
      map_of (ud_flows (snd (open_flow lim key now dial st))) key = Some f"
  using assms
  by (auto simp: open_flow_def acquireUDPFlow_def udp_ok_def flow_sockets_def map_of_eq_None_iff
        map_add_def Let_def split: option.splits if_splits)

lemma udp_packet_ok:
  assumes ok: "udp_ok lim st" and fresh: "\<forall>be. dial = Some be \<longrightarrow> be \<notin> snd ` set (ud_readers st)"
  shows "udp_ok lim (snd (udp_packet lim g key pkt now dial st))"
proof -
  define r where "r = (case map_of (ud_flows st) key of
    Some f \<Rightarrow> (Some f, st) | None \<Rightarrow> open_flow lim key now dial st)"
  obtain fo st1 where r': "r = (fo, st1)" by fastforce
  have ok1: "udp_ok lim st1" and f: "\<And>f. fo = Some f \<Longrightarrow> map_of (ud_flows st1) key = Some f"
    using r' ok open_flow_ok [OF ok _ fresh, of key now] unfolding r_def
    by (auto split: option.splits dest: sym)
  show ?thesis
    using set_flow_ok [OF ok1 f] ok1 unfolding udp_packet_def r_def [symmetric] r'
    by (auto simp: Let_def split: option.splits)
qed

lemma sweep_ok: "udp_ok lim st \<Longrightarrow> udp_ok lim (sweepUDP now st)"
  using drop_flows_ok [of lim st "ud_flows st" "\<lambda>k f. now - uf_lastSeen f > udpIdle"]
  by (simp add: sweepUDP_def udp_ok_def)

lemma shutdown_ok: "udp_ok lim st \<Longrightarrow> udp_ok lim (udp_shutdown l st)"
  using drop_flows_ok [of lim st "ud_flows st" "\<lambda>k f. fst k = l"]
  by (simp add: udp_shutdown_def udp_ok_def)

lemma udp_step_ok: "udp_step lim g st st' \<Longrightarrow> udp_ok lim st \<Longrightarrow> udp_ok lim st'"
proof (erule udp_stepE)
  fix key be now assume "st' = reader_reply key be now st" "udp_ok lim st"
  then show "udp_ok lim st'"
    by (auto simp: reader_reply_def Let_def split: option.splits intro: set_flow_ok)
qed (auto simp: udp_packet_ok reader_ends_ok sweep_ok shutdown_ok activity_beat_def)

abbreviation udp_reach :: "int \<Rightarrow> wakeGate \<Rightarrow> udp_state \<Rightarrow> bool" where
  "udp_reach lim g \<equiv> (udp_step lim g)\<^sup>*\<^sup>* no_flows"

lemma udp_reach_ok: "udp_reach lim g st \<Longrightarrow> udp_ok lim st"
proof (induction rule: rtranclp_induct)
  case base
  show ?case by (simp add: udp_ok_def no_flows_def flow_sockets_def)
qed (rule udp_step_ok)

text \<open>C26: whatever packets, answers, sweeps and ends of readers come in whatever order, every slot taken
  is a reader's, no more than the limit (at most 128) are taken, each flow has a reader of its own,
  and \<open>activity\<close> counts the flows.\<close>

theorem udp_slots_bounded:
  assumes "udp_reach lim g st"
  shows "ud_slots st = length (ud_readers st) \<and> ud_slots st \<le> udp_limit lim \<and> ud_slots st \<le> 128
    \<and> length (ud_flows st) \<le> ud_slots st \<and> ud_count st = length (ud_flows st)"
proof -
  have ok: "udp_ok lim st" by (rule udp_reach_ok [OF assms])
  have "distinct (map fst (flow_sockets st))"
    using ok by (simp add: udp_ok_def flow_sockets_def comp_def case_prod_unfold)
  then have "distinct (flow_sockets st)"
    by (simp add: distinct_map)
  then have "length (ud_flows st) \<le> length (ud_readers st)"
    using ok card_mono [of "set (ud_readers st)" "set (flow_sockets st)"] card_length [of "ud_readers st"]
    by (simp add: udp_ok_def distinct_card) (simp add: flow_sockets_def)
  with ok show ?thesis by (auto simp: udp_ok_def udp_limit_def maxUDPFlows_def split: if_splits)
qed

theorem udp_slots_bounded_witness:
  "\<exists>st. udp_reach 8 \<lparr>wg_protocol = [], wg_gamePort = []\<rparr> st \<and> ud_slots st = 1 \<and> ud_count st = 1"
proof -
  let ?st = "snd (udp_packet 8 \<lparr>wg_protocol = [], wg_gamePort = []\<rparr> (1, ''10.0.0.7:4000'') ''x'' 5 (Some 3) no_flows)"
  have "udp_step 8 \<lparr>wg_protocol = [], wg_gamePort = []\<rparr> no_flows ?st" by (rule udp_step.packet) (simp add: no_flows_def)
  then have r: "udp_reach 8 \<lparr>wg_protocol = [], wg_gamePort = []\<rparr> ?st" by (rule r_into_rtranclp)
  have "length (ud_flows ?st) = 1" "ud_slots ?st = 1" by code_simp+
  with udp_slots_bounded [OF r] r show ?thesis by auto
qed

end
