(* ===== verification/Rate_Window.thy ===== *)
theory Rate_Window imports Main begin

text \<open>
  The contract of a fixed-window counter, as the limiter's callers rely on it: every key has a
  count and the end of its window; an attempt opens a window, counts within it, or is refused
  once the count has reached the limit; a collection drops the windows that have ended and a
  clearing one key. The contract bounds the attempts let through in any stretch of time as long
  as a window, by whoever makes them and in whatever order their clocks come.
\<close>

datatype rate_event = Attempt string int | Collect int | Clear string

fun event_time :: "rate_event \<Rightarrow> int option" where
  "event_time (Attempt k t) = Some t"
| "event_time (Collect t) = Some t"
| "event_time (Clear k) = None"

definition in_stretch :: "int \<Rightarrow> int \<Rightarrow> rate_event \<Rightarrow> bool" where
  "in_stretch t0 w e = (case event_time e of None \<Rightarrow> True | Some t \<Rightarrow> t0 \<le> t \<and> t \<le> t0 + w)"

definition attempt_result :: "int \<Rightarrow> int \<Rightarrow> int \<Rightarrow> (int \<times> int) option \<Rightarrow> bool \<times> int \<times> int" where
  \<comment> \<open>what an attempt answers and leaves of its key's counter\<close>
  "attempt_result limit window now c =
     (case c of
        None \<Rightarrow> (True, 1, now + window)
      | Some (n, r) \<Rightarrow>
          if r < now then (True, 1, now + window)
          else if n \<ge> limit then (False, n, r) else (True, n + 1, r))"

locale fixed_window =
  fixes wf :: "'b \<Rightarrow> bool"
    and view :: "'b \<Rightarrow> string \<Rightarrow> (int \<times> int) option"
    and attempt :: "string \<Rightarrow> int \<Rightarrow> 'b \<Rightarrow> bool \<times> 'b"
    and collect :: "int \<Rightarrow> 'b \<Rightarrow> 'b"
    and clear :: "string \<Rightarrow> 'b \<Rightarrow> 'b"
    and limit :: int and window :: int and grain :: "int \<Rightarrow> int"
  assumes attempt_answer: "fst (attempt k t b) = fst (attempt_result limit window (grain t) (view b k))"
    and attempt_view: "view (snd (attempt k t b)) k' =
      (if k' = k then Some (snd (attempt_result limit window (grain t) (view b k))) else view b k')"
    and collect_view: "wf b \<Longrightarrow> view (collect t b) k =
      (case view b k of None \<Rightarrow> None | Some (n, r) \<Rightarrow> if r < t then None else Some (n, r))"
    and clear_view: "view (clear k b) k' = (if k' = k then None else view b k')"
    and wf_attempt: "wf b \<Longrightarrow> wf (snd (attempt k t b))"
    and wf_collect: "wf b \<Longrightarrow> wf (collect t b)"
    and wf_clear: "wf b \<Longrightarrow> wf (clear k b)"
    and grain_le: "grain t \<le> t"
    and grain_mono: "t \<le> u \<Longrightarrow> grain t \<le> grain u"
begin

fun rate_step :: "rate_event \<Rightarrow> 'b \<Rightarrow> 'b" where
  "rate_step (Attempt k t) b = snd (attempt k t b)"
| "rate_step (Collect t) b = collect t b"
| "rate_step (Clear k) b = clear k b"

fun let_through :: "string \<Rightarrow> rate_event \<Rightarrow> 'b \<Rightarrow> bool" where
  "let_through key (Attempt k t) b = (k = key \<and> fst (attempt k t b))"
| "let_through key (Collect t) b = False"
| "let_through key (Clear k) b = False"

primrec allowed :: "string \<Rightarrow> rate_event list \<Rightarrow> 'b \<Rightarrow> int" where
  "allowed key [] b = 0"
| "allowed key (e # es) b = (if let_through key e b then 1 else 0) + allowed key es (rate_step e b)"

definition budget :: "int \<Rightarrow> (int \<times> int) option \<Rightarrow> int" where
  \<comment> \<open>what a key has left in the stretch from \<open>t0\<close>\<close>
  "budget t0 c =
     (case c of
        None \<Rightarrow> limit
      | Some (n, r) \<Rightarrow> max 0 (limit - n) + (if t0 + window \<le> r then 0 else limit))"

lemma budget_step:
  assumes "0 < limit" "in_stretch t0 window e" "e \<noteq> Clear key" "grain t0 = t0" "wf b"
  shows "(if let_through key e b then 1 else 0) + budget t0 (view (rate_step e b) key) \<le> budget t0 (view b key)"
proof (cases e)
  case (Attempt k t)
  then have "t0 \<le> t" "t \<le> t0 + window" using assms(2) by (auto simp: in_stretch_def)
  then have "t0 \<le> grain t" "grain t \<le> t0 + window"
    using assms(4) grain_mono [of t0 t] grain_le [of t] by auto
  with assms(1) Attempt show ?thesis
    by (auto simp: attempt_answer attempt_view attempt_result_def budget_def split: option.splits)
next
  case (Collect t)
  with assms show ?thesis by (auto simp: collect_view budget_def in_stretch_def split: option.splits)
next
  case (Clear k)
  with assms show ?thesis by (simp add: clear_view)
qed

lemma wf_step: "wf b \<Longrightarrow> wf (rate_step e b)"
  by (cases e) (simp_all add: wf_attempt wf_collect wf_clear)

lemma allowed_budget:
  assumes "0 < limit" "grain t0 = t0"
  shows "wf b \<Longrightarrow> list_all (in_stretch t0 window) es \<Longrightarrow> Clear key \<notin> set es \<Longrightarrow>
    allowed key es b \<le> budget t0 (view b key)"
proof (induction es arbitrary: b)
  case Nil
  with assms show ?case by (auto simp: budget_def split: option.splits)
next
  case (Cons e es)
  then have "allowed key es (rate_step e b) \<le> budget t0 (view (rate_step e b) key)" by (simp add: wf_step)
  moreover have "(if let_through key e b then 1 else 0) + budget t0 (view (rate_step e b) key) \<le> budget t0 (view b key)"
    using Cons.prems by (intro budget_step assms) auto
  ultimately show ?case by simp
qed

lemma budget_bound: "0 < limit \<Longrightarrow> (\<And>n r. c = Some (n, r) \<Longrightarrow> 0 \<le> n) \<Longrightarrow> budget t0 c \<le> 2 * limit"
  by (auto simp: budget_def split: option.splits)

end

end
