(* ===== verification/Rate_Limit.thy ===== *)
theory Rate_Limit imports Store_Db Rate_Window begin

text \<open>
  The limiter of \<open>internal/ratelimit\<close> and its shared storage (\<open>internal/store/ratecounter.go\<close>).
  A limiter counts in its own memory, or in the database under its prefix once it is shared;
  a call that the database fails falls back to the memory. The counters of both are
  \<open>fixed_window\<close> counters; the replicas of the API server share the ones in the database.
\<close>

subsection \<open>Shared counters\<close>

definition Truncate :: "duration \<Rightarrow> time \<Rightarrow> time" where
  "Truncate d t = t - t mod d"

abbreviation microsecond :: duration where "microsecond \<equiv> 1000"

definition RateAllow :: "string \<Rightarrow> int \<Rightarrow> duration \<Rightarrow> time \<Rightarrow> db \<Rightarrow> (bool \<times> time) \<times> db" where
  "RateAllow key limit window now0 d =
     (let now = Truncate microsecond now0;
          save = (\<lambda>c. d\<lparr>rate_counters := update_where (\<lambda>x. rc_key x = key) (\<lambda>_. c) (rate_counters d)\<rparr>)
      in case find (\<lambda>c. rc_key c = key) (rate_counters d) of
           None \<Rightarrow>
             (let c = \<lparr>rc_key = key, rc_count = 1, rc_reset_at = now + window\<rparr>
              in ((True, rc_reset_at c), d\<lparr>rate_counters := rate_counters d @ [c]\<rparr>))
         | Some c \<Rightarrow>
             if now > rc_reset_at c
             then (let c1 = c\<lparr>rc_count := 1, rc_reset_at := now + window\<rparr> in ((True, rc_reset_at c1), save c1))
             else if rc_count c \<ge> limit then ((False, rc_reset_at c), d)
             else ((True, rc_reset_at c), save (c\<lparr>rc_count := rc_count c + 1\<rparr>)))"

definition RateReset :: "string \<Rightarrow> db \<Rightarrow> db" where
  "RateReset key d = d\<lparr>rate_counters := delete_where (\<lambda>c. rc_key c = key) (rate_counters d)\<rparr>"

definition RateGC :: "time \<Rightarrow> db \<Rightarrow> db" where
  "RateGC now d = d\<lparr>rate_counters := delete_where (\<lambda>c. rc_reset_at c < now) (rate_counters d)\<rparr>"

subsection \<open>The limiter\<close>

record counter =
  co_n :: int
  co_reset :: time

type_synonym hits = "string \<rightharpoonup> counter"

record Limiter =
  lm_hits :: hits
  lm_limit :: int
  lm_window :: duration
  lm_shared :: "string option"  \<comment> \<open>the prefix, once a backend is set\<close>

definition New_limiter :: "int \<Rightarrow> duration \<Rightarrow> Limiter" where
  "New_limiter limit window = \<lparr>lm_hits = Map.empty, lm_limit = limit, lm_window = window, lm_shared = None\<rparr>"

definition Share :: "string \<Rightarrow> Limiter \<Rightarrow> Limiter" where
  "Share prefix l = l\<lparr>lm_shared := Some prefix\<rparr>"

definition local_allow :: "int \<Rightarrow> duration \<Rightarrow> string \<Rightarrow> time \<Rightarrow> hits \<Rightarrow> bool \<times> hits" where
  \<comment> \<open>the part of \<open>Allow\<close> that counts in memory\<close>
  "local_allow limit window key now h =
     (case h key of
        None \<Rightarrow> (True, h(key \<mapsto> \<lparr>co_n = 1, co_reset = now + window\<rparr>))
      | Some c \<Rightarrow>
          if now > co_reset c then (True, h(key \<mapsto> \<lparr>co_n = 1, co_reset = now + window\<rparr>))
          else if co_n c \<ge> limit then (False, h)
          else (True, h(key \<mapsto> c\<lparr>co_n := co_n c + 1\<rparr>)))"

definition Allow :: "string \<Rightarrow> time \<Rightarrow> bool \<Rightarrow> Limiter \<Rightarrow> db \<Rightarrow> bool \<times> Limiter \<times> db" where
  \<comment> \<open>\<open>up\<close>: whether the database answers\<close>
  "Allow key now up l d =
     (if lm_limit l \<le> 0 then (True, l, d)
      else
        (case (if up then lm_shared l else None) of
           Some prefix \<Rightarrow>
             (case RateAllow (prefix @ key) (lm_limit l) (lm_window l) now d of
                ((ok, reset), d1) \<Rightarrow>
                  (ok, l\<lparr>lm_hits := (lm_hits l)(key \<mapsto> \<lparr>co_n = 0, co_reset = reset\<rparr>)\<rparr>, d1))
         | None \<Rightarrow>
             (case local_allow (lm_limit l) (lm_window l) key now (lm_hits l) of
                (ok, h) \<Rightarrow> (ok, l\<lparr>lm_hits := h\<rparr>, d))))"

definition Reset :: "string \<Rightarrow> bool \<Rightarrow> Limiter \<Rightarrow> db \<Rightarrow> Limiter \<times> db" where
  "Reset key up l d =
     (l\<lparr>lm_hits := (lm_hits l)(key := None)\<rparr>,
      (case lm_shared l of Some prefix \<Rightarrow> if up then RateReset (prefix @ key) d else d | None \<Rightarrow> d))"

definition RetryAfter :: "string \<Rightarrow> time \<Rightarrow> Limiter \<Rightarrow> int" where
  "RetryAfter key now l =
     (if lm_limit l \<le> 0 then 0
      else
        (case lm_hits l key of
           None \<Rightarrow> 0
         | Some c \<Rightarrow> (let d = co_reset c - now in if d \<le> 0 then 0 else (d + second - 1) div second)))"

definition local_gc :: "time \<Rightarrow> hits \<Rightarrow> hits" where
  "local_gc now h = (\<lambda>k. case h k of None \<Rightarrow> None | Some c \<Rightarrow> if now > co_reset c then None else Some c)"

definition GC :: "time \<Rightarrow> bool \<Rightarrow> Limiter \<Rightarrow> db \<Rightarrow> Limiter \<times> db" where
  "GC now up l d =
     (l\<lparr>lm_hits := local_gc now (lm_hits l)\<rparr>,
      (case lm_shared l of Some _ \<Rightarrow> if up then RateGC now d else d | None \<Rightarrow> d))"

subsection \<open>Both counters keep the contract\<close>

definition rate_view :: "db \<Rightarrow> string \<Rightarrow> (int \<times> time) option" where
  "rate_view d k = map_option (\<lambda>c. (rc_count c, rc_reset_at c)) (find (\<lambda>c. rc_key c = k) (rate_counters d))"

lemma Truncate_le: "0 < d \<Longrightarrow> Truncate d t \<le> t"
  by (simp add: Truncate_def)

lemma Truncate_mono: "0 < d \<Longrightarrow> t \<le> u \<Longrightarrow> Truncate d t \<le> Truncate d u"
  by (simp add: Truncate_def minus_mod_eq_mult_div zdiv_mono1)

lemma find_saved_counter:
  "rc_key c = key \<Longrightarrow> find (\<lambda>x. rc_key x = k) (update_where (\<lambda>x. rc_key x = key) (\<lambda>_. c) xs) =
     (if k = key then map_option (\<lambda>_. c) (find (\<lambda>x. rc_key x = k) xs) else find (\<lambda>x. rc_key x = k) xs)"
  by (induction xs) auto

lemma find_delete_key:
  "find (\<lambda>x. rc_key x = k') (delete_where (\<lambda>x. rc_key x = k) xs) =
     (if k' = k then None else find (\<lambda>x. rc_key x = k') xs)"
  by (induction xs) auto

lemma find_key_eq: "find (\<lambda>c. rc_key c = k) xs = Some c \<Longrightarrow> rc_key c = k"
  by (drule find_SomeD) simp

lemma RateAllow_answer:
  "fst (fst (RateAllow k limit window t d)) =
     fst (attempt_result limit window (Truncate microsecond t) (rate_view d k))"
  by (auto simp: RateAllow_def Let_def attempt_result_def rate_view_def split: option.splits)

lemma RateAllow_view:
  "rate_view (snd (RateAllow k limit window t d)) k' =
     (if k' = k then Some (snd (attempt_result limit window (Truncate microsecond t) (rate_view d k)))
      else rate_view d k')"
proof (cases "find (\<lambda>c. rc_key c = k) (rate_counters d)")
  case None
  then show ?thesis
    by (auto simp: RateAllow_def Let_def attempt_result_def rate_view_def find_snoc split: option.splits)
next
  case (Some c)
  then show ?thesis using find_key_eq [OF Some]
    by (simp add: RateAllow_def Let_def attempt_result_def rate_view_def find_saved_counter)
qed

definition rate_keys_ok :: "db \<Rightarrow> bool" where
  \<comment> \<open>the table's primary key\<close>
  "rate_keys_ok d = distinct (map rc_key (rate_counters d))"

lemma rate_keys_update:
  "rc_key c = k \<Longrightarrow> map rc_key (update_where (\<lambda>x. rc_key x = k) (\<lambda>_. c) xs) = map rc_key xs"
  by (induction xs) auto

lemma RateAllow_keys: "rate_keys_ok d \<Longrightarrow> rate_keys_ok (snd (RateAllow k limit window t d))"
  by (auto simp: RateAllow_def Let_def rate_keys_ok_def rate_keys_update find_None
        dest: find_key_eq split: option.splits)

lemma delete_keys: "rate_keys_ok d \<Longrightarrow> rate_keys_ok (RateGC t d)" "rate_keys_ok d \<Longrightarrow> rate_keys_ok (RateReset k d)"
  by (simp_all add: rate_keys_ok_def RateGC_def RateReset_def distinct_map_delete_where)

abbreviation rate_attempt :: "int \<Rightarrow> duration \<Rightarrow> string \<Rightarrow> time \<Rightarrow> db \<Rightarrow> bool \<times> db" where
  "rate_attempt limit window k t d \<equiv> (case RateAllow k limit window t d of ((ok, _), d') \<Rightarrow> (ok, d'))"

interpretation shared: fixed_window rate_keys_ok rate_view "rate_attempt limit window" RateGC RateReset
    limit window "Truncate microsecond"
  for limit :: int and window :: duration
proof
  fix t k k' d
  show "rate_view (RateGC t d) k =
      (case rate_view d k of None \<Rightarrow> None | Some (n, r) \<Rightarrow> if r < t then None else Some (n, r))"
    if "rate_keys_ok d"
    using that by (simp add: rate_view_def RateGC_def rate_keys_ok_def find_delete_where split: option.splits)
  show "rate_view (RateReset k d) k' = (if k' = k then None else rate_view d k')"
    by (simp add: rate_view_def RateReset_def find_delete_key)
qed (auto simp: RateAllow_answer RateAllow_view RateAllow_keys Truncate_le Truncate_mono case_prod_unfold
      delete_keys)

definition hits_view :: "hits \<Rightarrow> string \<Rightarrow> (int \<times> time) option" where
  "hits_view h k = map_option (\<lambda>c. (co_n c, co_reset c)) (h k)"

interpretation memory: fixed_window "\<lambda>_. True" hits_view "local_allow limit window" local_gc "\<lambda>k h. h(k := None)"
    limit window "\<lambda>t. t"
  for limit :: int and window :: duration
  by unfold_locales
    (auto simp: hits_view_def local_allow_def local_gc_def attempt_result_def split: option.splits)

subsection \<open>Replicas\<close>

datatype replica_call = Allow_at nat string time | GC_at nat time | Reset_at nat string

type_synonym replicas = "(nat \<Rightarrow> Limiter) \<times> db"

fun replica_step :: "replica_call \<Rightarrow> replicas \<Rightarrow> replicas" where
  \<comment> \<open>a call that replica \<open>i\<close> makes while the database answers\<close>
  "replica_step (Allow_at i k t) (ls, d) = (let (_, l, d') = Allow k t True (ls i) d in (ls(i := l), d'))"
| "replica_step (GC_at i t) (ls, d) = (let (l, d') = GC t True (ls i) d in (ls(i := l), d'))"
| "replica_step (Reset_at i k) (ls, d) = (let (l, d') = Reset k True (ls i) d in (ls(i := l), d'))"

fun replica_allows :: "string \<Rightarrow> replica_call \<Rightarrow> replicas \<Rightarrow> bool" where
  "replica_allows key (Allow_at i k t) (ls, d) = (k = key \<and> fst (Allow k t True (ls i) d))"
| "replica_allows key (GC_at i t) s = False"
| "replica_allows key (Reset_at i k) s = False"

primrec replicas_allowed :: "string \<Rightarrow> replica_call list \<Rightarrow> replicas \<Rightarrow> int" where
  "replicas_allowed key [] s = 0"
| "replicas_allowed key (c # cs) s =
     (if replica_allows key c s then 1 else 0) + replicas_allowed key cs (replica_step c s)"

fun rate_event_of :: "string \<Rightarrow> replica_call \<Rightarrow> rate_event" where
  "rate_event_of p (Allow_at i k t) = Attempt (p @ k) t"
| "rate_event_of p (GC_at i t) = Collect t"
| "rate_event_of p (Reset_at i k) = Clear (p @ k)"

definition share_one :: "string \<Rightarrow> int \<Rightarrow> duration \<Rightarrow> (nat \<Rightarrow> Limiter) \<Rightarrow> bool" where
  "share_one p limit window ls \<longleftrightarrow>
     (\<forall>i. lm_shared (ls i) = Some p \<and> lm_limit (ls i) = limit \<and> lm_window (ls i) = window)"

lemma replica_step_shared:
  assumes "share_one p limit window ls" "0 < limit"
  shows "snd (replica_step c (ls, d)) = shared.rate_step limit window (rate_event_of p c) d"
    and "share_one p limit window (fst (replica_step c (ls, d)))"
    and "replica_allows key c (ls, d) = shared.let_through limit window (p @ key) (rate_event_of p c) d"
  using assms by (cases c; auto simp: share_one_def Allow_def GC_def Reset_def Let_def split: prod.splits)+

lemma replicas_allowed_shared:
  "share_one p limit window ls \<Longrightarrow> 0 < limit \<Longrightarrow>
     replicas_allowed key cs (ls, d) = shared.allowed limit window (p @ key) (map (rate_event_of p) cs) d"
proof (induction cs arbitrary: ls d)
  case (Cons c cs)
  obtain ls' d' where s: "replica_step c (ls, d) = (ls', d')" by fastforce
  with Cons replica_step_shared(1) [OF Cons.prems, of c d] replica_step_shared(2) [OF Cons.prems, of c d]
    replica_step_shared(3) [OF Cons.prems, of key c d]
  show ?case by simp
qed simp

fun call_time :: "replica_call \<Rightarrow> time option" where
  "call_time (Allow_at i k t) = Some t"
| "call_time (GC_at i t) = Some t"
| "call_time (Reset_at i k) = None"


subsection \<open>A database that fails every other call\<close>

primrec flaky_answers :: "string \<Rightarrow> (time \<times> time) list \<Rightarrow> Limiter \<Rightarrow> db \<Rightarrow> (bool \<times> bool) list" where
  \<comment> \<open>attempts in pairs: the database answers the first one and fails the second\<close>
  "flaky_answers key [] l d = []"
| "flaky_answers key (tu # ts) l d =
     (let (a, l1, d1) = Allow key (fst tu) True l d; (b, l2, d2) = Allow key (snd tu) False l1 d1
      in (a, b) # flaky_answers key ts l2 d2)"

text \<open>a key that is at its limit in the database is let through, as often as it comes, on every call
  that the database fails, as long as it answers one call in between: each of its answers sets the
  count the limiter falls back to back to nothing.\<close>

theorem flaky_database_never_limits:
  assumes "lm_shared l = Some p" and "0 < lm_limit l"
    and "find (\<lambda>c. rc_key c = p @ key) (rate_counters d) = Some c" and "lm_limit l \<le> rc_count c"
    and "\<forall>(t, u) \<in> set ts. t \<le> rc_reset_at c \<and> u \<le> rc_reset_at c"
  shows "flaky_answers key ts l d = map (\<lambda>_. (False, True)) ts"
  using assms
proof (induction ts arbitrary: l)
  case (Cons tu ts)
  have "Truncate microsecond (fst tu) \<le> rc_reset_at c"
    using Cons.prems(5) Truncate_le [of microsecond "fst tu"] by (auto simp: case_prod_unfold)
  then have 1: "Allow key (fst tu) True l d =
      (False, l\<lparr>lm_hits := (lm_hits l)(key \<mapsto> \<lparr>co_n = 0, co_reset = rc_reset_at c\<rparr>)\<rparr>, d)"
    using Cons.prems by (simp add: Allow_def RateAllow_def Let_def)
  have 2: "Allow key (snd tu) False (l\<lparr>lm_hits := (lm_hits l)(key \<mapsto> \<lparr>co_n = 0, co_reset = rc_reset_at c\<rparr>)\<rparr>) d =
      (True, l\<lparr>lm_hits := (lm_hits l)(key \<mapsto> \<lparr>co_n = 1, co_reset = rc_reset_at c\<rparr>)\<rparr>, d)"
    using Cons.prems by (auto simp: Allow_def local_allow_def case_prod_unfold)
  from Cons.IH [of "l\<lparr>lm_hits := (lm_hits l)(key \<mapsto> \<lparr>co_n = 1, co_reset = rc_reset_at c\<rparr>)\<rparr>"] Cons.prems
  show ?case by (simp add: 1 2)
qed simp

definition demo_limiter :: Limiter where "demo_limiter = Share ''login:'' (New_limiter 2 (60 * second))"

definition demo_counters :: "RateCounter list \<Rightarrow> db" where
  "demo_counters cs = \<lparr>servers = [], backups = [], ports = [], schedules = [], users = [], sessions = [],
     accesses = [], invites = [], resets = [], confirmations = [], api_keys = [], ssh_keys = [], uploads = [],
     cursors = [], rate_counters = cs, events = [], audits = [], admin_roles = []\<rparr>"

lemmas demo_defs = demo_limiter_def demo_counters_def Share_def New_limiter_def


theorem flaky_database_never_limits_witness:
  "flaky_answers ''eve'' [(1, 2), (3, 4), (5, 6)] demo_limiter
     (demo_counters [\<lparr>rc_key = ''login:eve'', rc_count = 2, rc_reset_at = 60 * second\<rparr>])
   = [(False, True), (False, True), (False, True)]"
  using flaky_database_never_limits [of demo_limiter "''login:''" "''eve''"
      "demo_counters [\<lparr>rc_key = ''login:eve'', rc_count = 2, rc_reset_at = 60 * second\<rparr>]"
      "\<lparr>rc_key = ''login:eve'', rc_count = 2, rc_reset_at = 60 * second\<rparr>" "[(1, 2), (3, 4), (5, 6)]"]
  by (simp add: demo_defs)

end
