(* ===== verification/Startup.thy ===== *)
theory Startup imports Go_Strings Models begin

text \<open>
  When a game has started (\<open>internal/startup/startup.go\<close>, \<open>internal/models/template.go\<close>): the done
  lines of a template, how a line of output is matched against them, and the watcher that follows
  the output of starting containers. Regular expressions are the argument \<open>compile\<close>: the text of
  the error, or the predicate the expression stands for.
\<close>

subsection \<open>Quoting (\<open>%q\<close>)\<close>

definition hex_lower :: "nat \<Rightarrow> char" where
  "hex_lower d = of_byte (if d < 10 then 48 + d else 87 + d)"

definition hex_digits :: "nat \<Rightarrow> nat \<Rightarrow> string" where
  "hex_digits k n = map (\<lambda>i. hex_lower (n div 16 ^ (k - 1 - i) mod 16)) [0..<k]"

definition quote_rune :: "(nat \<Rightarrow> bool) \<Rightarrow> nat \<times> string \<Rightarrow> string" where
  \<comment> \<open>\<open>printable\<close> is \<open>unicode.IsPrint\<close> outside ASCII\<close>
  "quote_rune printable = (\<lambda>(r, raw).
     if r = rune_error \<and> length raw = 1 then CHR 0x5C # CHR ''x'' # hex_digits 2 (byte (hd raw))
     else if r = 34 \<or> r = 92 then [CHR 0x5C, of_byte r]
     else if (if r < 128 then 32 \<le> r \<and> r \<le> 126 else printable r) then raw
     else if r = 7 then [CHR 0x5C, CHR ''a''] else if r = 8 then [CHR 0x5C, CHR ''b'']
     else if r = 12 then [CHR 0x5C, CHR ''f''] else if r = 10 then [CHR 0x5C, CHR ''n'']
     else if r = 13 then [CHR 0x5C, CHR ''r''] else if r = 9 then [CHR 0x5C, CHR ''t'']
     else if r = 11 then [CHR 0x5C, CHR ''v'']
     else if r < 32 \<or> r = 127 then CHR 0x5C # CHR ''x'' # hex_digits 2 r
     else if r < 65536 then CHR 0x5C # CHR ''u'' # hex_digits 4 r
     else CHR 0x5C # CHR ''U'' # hex_digits 8 r)"

definition go_quote :: "(nat \<Rightarrow> bool) \<Rightarrow> string \<Rightarrow> string" where
  "go_quote printable s = CHR 0x22 # concat (map (quote_rune printable) (runes s)) @ [CHR 0x22]"

subsection \<open>Templates\<close>

text \<open>The fields of a template that the code modelled here reads.\<close>

record Template =
  tp_id :: row_id
  tp_version :: int
  tp_startup :: string
  tp_done :: "string list"
  tp_doneRegex :: string
  tp_wakeProtocol :: string
  tp_stopCommand :: string
  tp_stopGraceSeconds :: int
  tp_features :: "string list"
  tp_reinstallKeep :: "string list"
  tp_ports :: "PortSpec list"

definition DoneLines :: "Template \<Rightarrow> string list" where
  "DoneLines t =
     (let out = filter (\<lambda>l. l \<noteq> []) (tp_done t)
      in if out = [] \<and> tp_doneRegex t \<noteq> [] then [tp_doneRegex t] else out)"

definition HasFeature :: "Template \<Rightarrow> string \<Rightarrow> bool" where
  "HasFeature t name = (name \<in> set (tp_features t))"

definition WakeAnyConnection :: string where "WakeAnyConnection = ''any''"
definition WakeMinecraft :: string where "WakeMinecraft = ''minecraft''"

definition EffectiveWakeProtocol :: "Template \<Rightarrow> string" where
  "EffectiveWakeProtocol t =
     (if tp_wakeProtocol t \<noteq> [] then tp_wakeProtocol t
      else if HasFeature t ''eula'' then WakeMinecraft else WakeAnyConnection)"

subsection \<open>Matching\<close>

datatype Matcher = Matcher_text string | Matcher_re "string \<Rightarrow> bool"

fun matches :: "Matcher \<Rightarrow> string \<Rightarrow> bool" where
  "matches (Matcher_text t) line = sublist t line"
| "matches (Matcher_re re) line = re line"

definition regex_prefix :: string where "regex_prefix = ''regex:''"

fun Compile ::
  "(string \<Rightarrow> string + (string \<Rightarrow> bool)) \<Rightarrow> (nat \<Rightarrow> bool) \<Rightarrow> string list \<Rightarrow> Matcher list \<times> string list" where
  \<comment> \<open>the matchers, and the errors' texts\<close>
  "Compile compile printable [] = ([], [])"
| "Compile compile printable (l # ls) =
     (let (ms, errs) = Compile compile printable ls
      in if prefix regex_prefix l \<and> drop (length regex_prefix) l \<noteq> []
         then (case compile (drop (length regex_prefix) l) of
                 Inl e \<Rightarrow> (ms, (''startup line '' @ go_quote printable l @ '': '' @ e) # errs)
               | Inr re \<Rightarrow> (Matcher_re re # ms, errs))
         else if l \<noteq> [] then (Matcher_text l # ms, errs)
         else (ms, errs))"

definition between :: "nat \<Rightarrow> nat \<Rightarrow> char \<Rightarrow> bool" where
  "between lo hi c = (lo \<le> byte c \<and> byte c \<le> hi)"

definition csi_rest :: "string \<Rightarrow> string option" where
  \<comment> \<open>what follows \<open>\[[0-9;?]*[ -/]*[@-~]\<close>; its classes are disjoint\<close>
  "csi_rest s =
     (case s of
        [] \<Rightarrow> None
      | c # t \<Rightarrow>
          if c \<noteq> CHR ''['' then None
          else (case dropWhile (between 0x20 0x2F) (dropWhile (\<lambda>c. is_digit c \<or> c = CHR '';'' \<or> c = CHR ''?'') t) of
                  [] \<Rightarrow> None
                | f # r \<Rightarrow> if between 0x40 0x7E f then Some r else None))"

lemma csi_rest_shorter: "csi_rest s = Some r \<Longrightarrow> length r < length s"
proof (cases s)
  case (Cons c t)
  assume "csi_rest s = Some r"
  then obtain f where "f # r = dropWhile (between 0x20 0x2F)
      (dropWhile (\<lambda>c. is_digit c \<or> c = CHR '';'' \<or> c = CHR ''?'') t)"
    by (auto simp: csi_rest_def Cons split: if_splits list.splits)
  from arg_cong [OF this, of length] show ?thesis
    by (metis Cons Suc_le_eq length_Cons length_dropWhile_le le_SucI le_trans)
qed (simp add: csi_rest_def)

function plain_line :: "string \<Rightarrow> string" where
  \<comment> \<open>\<open>ansi.ReplaceAll(line, nil)\<close>\<close>
  "plain_line [] = []"
| "plain_line (c # s) =
     (if c = CHR 0x1B then (case csi_rest s of Some r \<Rightarrow> plain_line r | None \<Rightarrow> c # plain_line s)
      else c # plain_line s)"
  by pat_completeness auto
termination
  by (relation "measure length") (auto dest: csi_rest_shorter)

definition Match_line :: "Matcher list \<Rightarrow> string \<Rightarrow> bool" where
  \<comment> \<open>replacing in a line that leaves nothing gives nil, which is not tried\<close>
  "Match_line ms line0 =
     (let line = trim_right [CHR 0x0D, CHR 0x0A] line0;
          plain = (if CHR 0x1B \<in> set line \<and> plain_line line \<noteq> [] then Some (plain_line line) else None)
      in list_ex (\<lambda>m. matches m line \<or> (case plain of None \<Rightarrow> False | Some p \<Rightarrow> matches m p)) ms)"

definition maxLine :: nat where "maxLine = 64 * 1024"

definition read_slice :: "string \<Rightarrow> string" where
  \<comment> \<open>the next slice of the reader: a line with its end, a full buffer, or what is left\<close>
  "read_slice s = (let b = take maxLine s; l = takeWhile (\<lambda>c. c \<noteq> CHR 0x0A) b in take (length l + 1) b)"

lemma read_slice_nonempty: "s \<noteq> [] \<Longrightarrow> 0 < length (read_slice s)"
  by (simp add: read_slice_def Let_def maxLine_def)

function Scan :: "Matcher list \<Rightarrow> string \<Rightarrow> bool" where
  \<comment> \<open>over what the stream gives until it ends or fails\<close>
  "Scan ms s =
     (if s = [] then False
      else if Match_line ms (read_slice s) then True
      else Scan ms (drop (length (read_slice s)) s))"
  by pat_completeness auto
termination
  using read_slice_nonempty by (relation "measure (\<lambda>(ms, s). length s)") (auto intro!: diff_less)

declare Scan.simps [simp del]

subsection \<open>The watcher\<close>

definition retryAfter :: duration where "retryAfter = 15 * second"
definition forgetAfter :: duration where "forgetAfter = 10 * minute"

record watch =
  wa_seen :: bool
  wa_running :: bool
  wa_retry :: "time option"
  wa_asked :: time

type_synonym watches = "string \<rightharpoonup> watch"

definition forget :: "time \<Rightarrow> watches \<Rightarrow> watches" where
  "forget now w = (\<lambda>id. case w id of
     None \<Rightarrow> None
   | Some wt \<Rightarrow> if \<not> wa_running wt \<and> now - wa_asked wt > forgetAfter then None else Some wt)"

definition Seen :: "string \<Rightarrow> time \<Rightarrow> time \<Rightarrow> watches \<Rightarrow> bool \<times> bool \<times> watches" where
  \<comment> \<open>the answer, and whether it starts to follow the container\<close>
  "Seen cid deadline now w0 =
     (let w = forget now w0;
          wt = (case w cid of Some wt \<Rightarrow> wt\<lparr>wa_asked := now\<rparr>
                | None \<Rightarrow> \<lparr>wa_seen = False, wa_running = False, wa_retry = None, wa_asked = now\<rparr>)
      in if wa_seen wt then (True, False, w(cid := None))
         else if wa_running wt \<or> (case wa_retry wt of None \<Rightarrow> False | Some t \<Rightarrow> now < t) \<or> deadline \<le> now
         then (False, False, w(cid \<mapsto> wt))
         else (False, True, w(cid \<mapsto> wt\<lparr>wa_running := True\<rparr>)))"

definition follow_end :: "string \<Rightarrow> bool \<Rightarrow> time \<Rightarrow> watches \<Rightarrow> watches" where
  \<comment> \<open>the end of \<open>follow\<close>, once the output has ended or shown a done line\<close>
  "follow_end cid seen now w =
     (let wt = (case w cid of Some wt \<Rightarrow> wt
                | None \<Rightarrow> \<lparr>wa_seen = False, wa_running = False, wa_retry = None, wa_asked = now\<rparr>)
      in w(cid \<mapsto> wt\<lparr>wa_running := False, wa_seen := seen,
            wa_retry := (if seen then wa_retry wt else Some (now + retryAfter))\<rparr>))"

text \<open>Runs of the watcher, with the containers its goroutines follow and the answers given so far.\<close>

datatype watch_event = Answered string bool | Followed string bool

record watcher =
  wt_watches :: watches
  wt_followers :: "string list"
  wt_log :: "watch_event list"

inductive watcher_step :: "watcher \<Rightarrow> watcher \<Rightarrow> bool" where
  ask: "Seen cid deadline now (wt_watches s) = (ans, start, w) \<Longrightarrow>
    watcher_step s \<lparr>wt_watches = w, wt_followers = (if start then [cid] else []) @ wt_followers s,
                    wt_log = Answered cid ans # wt_log s\<rparr>"
| ends: "cid \<in> set (wt_followers s) \<Longrightarrow>
    watcher_step s \<lparr>wt_watches = follow_end cid seen now (wt_watches s),
                    wt_followers = remove1 cid (wt_followers s), wt_log = Followed cid seen # wt_log s\<rparr>"

inductive_cases watcher_stepE: "watcher_step s s'"

definition no_watches :: watcher where
  "no_watches = \<lparr>wt_watches = Map.empty, wt_followers = [], wt_log = []\<rparr>"

definition watch_count :: "string \<Rightarrow> watches \<Rightarrow> (watch \<Rightarrow> bool) \<Rightarrow> nat" where
  "watch_count cid w P = (case w cid of Some wt \<Rightarrow> if P wt then 1 else 0 | None \<Rightarrow> 0)"

definition watch_ok :: "watches \<Rightarrow> string list \<Rightarrow> watch_event list \<Rightarrow> string \<Rightarrow> bool" where
  "watch_ok w followers log cid \<longleftrightarrow>
     count_list followers cid = watch_count cid w wa_running
     \<and> (\<forall>wt. w cid = Some wt \<longrightarrow> \<not> (wa_seen wt \<and> wa_running wt))
     \<and> count_list log (Answered cid True) + watch_count cid w wa_seen \<le> count_list log (Followed cid True)"

definition watcher_ok :: "watcher \<Rightarrow> bool" where
  "watcher_ok s \<longleftrightarrow> (\<forall>cid. watch_ok (wt_watches s) (wt_followers s) (wt_log s) cid)"

lemma watch_count_update: "watch_count cid (w(c := x)) P =
    (if c = cid then (case x of Some wt \<Rightarrow> if P wt then 1 else 0 | None \<Rightarrow> 0) else watch_count cid w P)"
  by (simp add: watch_count_def)

lemma forget_Some: "forget now w cid = Some wt \<Longrightarrow> w cid = Some wt"
  by (simp add: forget_def split: option.splits if_splits)

lemma forget_ok: "watch_ok w fs log cid \<Longrightarrow> watch_ok (forget now w) fs log cid"
  by (auto simp: watch_ok_def watch_count_def forget_def split: option.splits if_splits)

lemma count_list_remove1: "count_list (remove1 x xs) y = (if x = y then count_list xs y - 1 else count_list xs y)"
  by (induction xs) auto

lemma ask_ok:
  assumes "watch_ok (forget now w) fs log cid" and "Seen c deadline now w = (ans, start, w')"
  shows "watch_ok w' ((if start then [c] else []) @ fs) (Answered c ans # log) cid"
  using assms
  by (cases "forget now w c"; cases "cid = c")
    (auto simp: Seen_def Let_def watch_ok_def watch_count_update watch_count_def split: if_splits option.splits)

lemma ends_ok:
  assumes "watch_ok w fs log cid" and "c \<in> set fs"
  shows "watch_ok (follow_end c seen now w) (remove1 c fs) (Followed c seen # log) cid"
proof -
  have "0 < count_list fs c" using assms(2) count_list_0_iff [of fs c] by linarith
  then show ?thesis using assms(1)
    by (cases "w c"; cases "cid = c")
      (auto simp: follow_end_def Let_def watch_ok_def watch_count_def count_list_remove1 split: if_splits option.splits)
qed

lemma watcher_step_ok: "watcher_step s s' \<Longrightarrow> watcher_ok s \<Longrightarrow> watcher_ok s'"
proof (erule watcher_stepE)
  fix c deadline now ans start w
  assume "watcher_ok s" and a: "Seen c deadline now (wt_watches s) = (ans, start, w)"
    and s': "s' = \<lparr>wt_watches = w, wt_followers = (if start then [c] else []) @ wt_followers s,
      wt_log = Answered c ans # wt_log s\<rparr>"
  then have "watch_ok (forget now (wt_watches s)) (wt_followers s) (wt_log s) cid" for cid
    by (simp add: watcher_ok_def forget_ok)
  from ask_ok [OF this a] show "watcher_ok s'" by (simp add: watcher_ok_def s')
qed (simp add: watcher_ok_def ends_ok)

lemma watcher_reach_ok: "watcher_step\<^sup>*\<^sup>* no_watches s \<Longrightarrow> watcher_ok s"
proof (induction rule: rtranclp_induct)
  case base
  show ?case by (simp add: watcher_ok_def watch_ok_def no_watches_def watch_count_def)
qed (rule watcher_step_ok)

text \<open>a container is followed by one goroutine at most, and a done line that was seen is answered
  for once at most: a start is announced once.\<close>

theorem done_line_announced_once:
  assumes "watcher_step\<^sup>*\<^sup>* no_watches s"
  shows "count_list (wt_followers s) cid \<le> 1
    \<and> count_list (wt_log s) (Answered cid True) \<le> count_list (wt_log s) (Followed cid True)"
proof -
  have "watch_ok (wt_watches s) (wt_followers s) (wt_log s) cid"
    using watcher_reach_ok [OF assms] by (simp add: watcher_ok_def)
  then show ?thesis
    unfolding watch_ok_def watch_count_def by (cases "wt_watches s cid") (auto split: if_splits)
qed

theorem done_line_announced_once_witness:
  "\<exists>s. watcher_step\<^sup>*\<^sup>* no_watches s \<and> wt_log s = [Answered ''c'' True, Followed ''c'' True, Answered ''c'' False]
     \<and> count_list (wt_followers s) ''c'' \<le> 1"
proof -
  let ?w1 = "snd (snd (Seen ''c'' 90 1 Map.empty))"
  let ?w2 = "follow_end ''c'' True 5 ?w1"
  let ?s1 = "\<lparr>wt_watches = ?w1, wt_followers = [''c''], wt_log = [Answered ''c'' False]\<rparr>"
  let ?s2 = "\<lparr>wt_watches = ?w2, wt_followers = [], wt_log = [Followed ''c'' True, Answered ''c'' False]\<rparr>"
  let ?s3 = "\<lparr>wt_watches = snd (snd (Seen ''c'' 90 7 ?w2)), wt_followers = [],
    wt_log = [Answered ''c'' True, Followed ''c'' True, Answered ''c'' False]\<rparr>"
  have "Seen ''c'' 90 1 (wt_watches no_watches) = (False, True, ?w1)"
    by (simp add: no_watches_def Seen_def Let_def forget_def)
  then have 1: "watcher_step no_watches ?s1"
    using watcher_step.ask [of "''c''" 90 1 no_watches False True ?w1] by (simp add: no_watches_def)
  have 2: "watcher_step ?s1 ?s2" using watcher_step.ends [of "''c''" ?s1 True 5] by simp
  have "Seen ''c'' 90 7 (wt_watches ?s2) = (True, False, snd (snd (Seen ''c'' 90 7 ?w2)))"
    by (simp add: Seen_def Let_def forget_def follow_end_def forgetAfter_def)
  then have 3: "watcher_step ?s2 ?s3"
    using watcher_step.ask [of "''c''" 90 7 ?s2 True False "snd (snd (Seen ''c'' 90 7 ?w2))"] by simp
  from 1 2 3 have r: "watcher_step\<^sup>*\<^sup>* no_watches ?s3" by (meson rtranclp.rtrancl_into_rtrancl rtranclp.rtrancl_refl)
  with done_line_announced_once [OF r, of "''c''"] show ?thesis by (intro exI [of _ ?s3]) simp
qed

end
