(* ===== verification/Hibernate.thy ===== *)
theory Hibernate imports Store_Props Go_Strings begin

text \<open>
  Sleeping and waking (\<open>internal/hibernate/hibernate.go\<close>, and the callbacks of the activator in
  \<open>internal/api/handlers.go\<close>): which servers are looked at, how long they may be idle, how the
  connections of a server without a proxy are counted, and what a tick of the manager does, with
  the rest of the control plane acting on the database while a server is probed.
\<close>

subsection \<open>Words of a line\<close>

fun word_end :: "string \<Rightarrow> string \<times> string" where
  \<comment> \<open>up to the next white space\<close>
  "word_end [] = ([], [])"
| "word_end (c # s) =
     (if space_prefix (c # s) \<noteq> None then ([], c # s)
      else (let (w, r) = word_end s in (c # w, r)))"

lemma word_end_append: "fst (word_end s) @ snd (word_end s) = s"
  by (induction s) (auto simp: Let_def case_prod_unfold)

lemma word_end_progress: "s \<noteq> [] \<Longrightarrow> space_prefix s = None \<Longrightarrow> length (snd (word_end s)) < length s"
proof (cases s)
  case (Cons c t)
  assume "space_prefix s = None"
  moreover have "length (snd (word_end t)) \<le> length t"
    by (metis word_end_append le_add2 length_append)
  ultimately show ?thesis using Cons by (simp add: Let_def case_prod_unfold)
qed simp

function Fields :: "string \<Rightarrow> string list" where
  "Fields s =
     (let t = trim_space_left s
      in if t = [] then [] else fst (word_end t) # Fields (snd (word_end t)))"
  by pat_completeness auto
termination
proof (relation "measure length")
  fix s t assume t: "t = trim_space_left s" "t \<noteq> []"
  then have "length (snd (word_end t)) < length t" by (simp add: word_end_progress trim_space_left_no_prefix)
  also have "length t \<le> length s" using t suffix_length_le [OF trim_space_left_suffix [of s]] by simp
  finally show "(snd (word_end t), s) \<in> measure length" by simp
qed simp

declare Fields.simps [simp del]

fun scan_lines :: "string \<Rightarrow> string list" where
  \<comment> \<open>\<open>bufio.Scanner\<close> over a string's lines: the last one need not end, an empty last one is
     none, a carriage return goes with the end of its line, and a line that does not fit the
     scanner's 64 KiB ends the scan\<close>
  "scan_lines s =
     (let ls = split_on CHR 0x0A s;
          ls' = (if last ls = [] then butlast ls else ls)
      in map (trim_suffix [CHR 0x0D]) (takeWhile (\<lambda>l. length l < 65536) ls'))"

definition hex_digit :: "char \<Rightarrow> nat option" where
  "hex_digit c =
     (let b = byte c in
      if 48 \<le> b \<and> b \<le> 57 then Some (b - 48)
      else if 97 \<le> b \<and> b \<le> 102 then Some (b - 87)
      else if 65 \<le> b \<and> b \<le> 70 then Some (b - 55) else None)"

fun hex_value :: "nat \<Rightarrow> string \<Rightarrow> nat option" where
  "hex_value n [] = Some n"
| "hex_value n (c # s) = (case hex_digit c of None \<Rightarrow> None | Some v \<Rightarrow> hex_value (16 * n + v) s)"

definition parse_hex32 :: "string \<Rightarrow> int option" where
  \<comment> \<open>\<open>strconv.ParseInt(s, 16, 32)\<close>\<close>
  "parse_hex32 s =
     (let (neg, ds) = (case s of c # t \<Rightarrow> if c = CHR ''-'' then (True, t)
                                 else if c = CHR ''+'' then (False, t) else (False, s)
                       | [] \<Rightarrow> (False, s))
      in if ds = [] then None
         else (case hex_value 0 ds of
                 None \<Rightarrow> None
               | Some v \<Rightarrow> (let v' = (if neg then - int v else int v)
                    in if - (2 ^ 31) \<le> v' \<and> v' < 2 ^ 31 then Some v' else None)))"

subsection \<open>Counting connections\<close>

definition stateEstablished :: string where "stateEstablished = ''01''"

fun established_on :: "(int32 \<Rightarrow> bool) \<Rightarrow> string list \<Rightarrow> bool" where
  \<comment> \<open>whether the fields of a line count\<close>
  "established_on prts (sl # local # _ # st # _) =
     (sl \<noteq> ''sl'' \<and> st = stateEstablished \<and> CHR '':'' \<in> set local
      \<and> (case parse_hex32 (last (split_on CHR '':'' local)) of None \<Rightarrow> False | Some p \<Rightarrow> prts p))"
| "established_on prts _ = False"

definition CountEstablished :: "string \<Rightarrow> (int32 \<Rightarrow> bool) \<Rightarrow> nat" where
  "CountEstablished procNetTCP prts =
     length (filter (\<lambda>l. established_on prts (Fields l)) (scan_lines procNetTCP))"

subsection \<open>Which servers, and how long\<close>

definition defaultIdleMinutes :: int where "defaultIdleMinutes = 15"

definition equal_fold_udp :: "string \<Rightarrow> bool" where
  \<comment> \<open>\<open>strings.EqualFold(s, "UDP")\<close>: none of the three letters has a case twin outside ASCII\<close>
  "equal_fold_udp s = equal_fold_ascii s ''UDP''"

definition measurablePorts :: "Server \<Rightarrow> bool" where
  "measurablePorts srv = (sv_ports srv \<noteq> [] \<and> list_all (\<lambda>p. \<not> equal_fold_udp (ps_protocol p)) (sv_ports srv))"

definition eligible :: "Server \<Rightarrow> bool" where
  "eligible srv =
     (if \<not> hb_enabled (sv_hibernation srv) \<or> sv_desired_state srv \<noteq> StateRunning \<or> sv_hibernated srv then False
      else if hb_proxy (sv_hibernation srv) then sv_ports srv \<noteq> []
      else measurablePorts srv)"

definition idleWindow :: "Server \<Rightarrow> duration" where
  \<comment> \<open>the product is a 64-bit one\<close>
  "idleWindow srv =
     (let m = (if hb_idleMinutes (sv_hibernation srv) \<le> 0 then defaultIdleMinutes
               else hb_idleMinutes (sv_hibernation srv))
      in sint (word_of_int m * word_of_int minute :: 64 word))"

definition time_sub :: "time \<Rightarrow> time \<Rightarrow> duration" where
  \<comment> \<open>\<open>Time.Sub\<close> stops at the ends of the int64 range\<close>
  "time_sub t u = max (- (2 ^ 63)) (min (2 ^ 63 - 1) (t - u))"

subsection \<open>A tick\<close>

definition ListServers :: "db \<Rightarrow> Server list" where
  "ListServers d = sort_key sv_created_at (servers d)"

definition hibernate_one :: "time \<Rightarrow> time \<Rightarrow> (Server \<Rightarrow> int option) \<Rightarrow> Server \<Rightarrow> db \<Rightarrow> db" where
  \<comment> \<open>one server of the loop: \<open>srv\<close> as it was listed, \<open>d\<close> once its probe has answered\<close>
  "hibernate_one clk now probe srv d =
     (if \<not> eligible srv then d
      else
        (case (if hb_proxy (sv_hibernation srv) then Some 0 else probe srv) of
           None \<Rightarrow> d
         | Some conns \<Rightarrow>
             if conns > 0 then UpdateLastActive clk (sv_id srv) now d
             else
               (case sv_last_active_at srv of
                  None \<Rightarrow> UpdateLastActive clk (sv_id srv) now d
                | Some t \<Rightarrow>
                    if time_sub now t \<ge> idleWindow srv then snd (HibernateIfUnchanged clk srv d) else d)))"

primrec hibernate_trace ::
  "time \<Rightarrow> time \<Rightarrow> (Server \<Rightarrow> int option) \<Rightarrow> (Server \<Rightarrow> db \<Rightarrow> db) \<Rightarrow> Server list \<Rightarrow> db \<Rightarrow> (Server \<times> db \<times> db) list" where
  \<comment> \<open>each server with the database it is decided on, which the rest of the control plane has
     changed since the last one, and the database it leaves\<close>
  "hibernate_trace clk now probe world [] d = []"
| "hibernate_trace clk now probe world (srv # rest) d =
     (let d1 = world srv d; d2 = hibernate_one clk now probe srv d1
      in (srv, d1, d2) # hibernate_trace clk now probe world rest d2)"

definition Hibernate_Tick ::
  "time \<Rightarrow> time \<Rightarrow> (Server \<Rightarrow> int option) \<Rightarrow> (Server \<Rightarrow> db \<Rightarrow> db) \<Rightarrow> db \<Rightarrow> (Server \<times> db \<times> db) list" where
  "Hibernate_Tick clk now probe world d = hibernate_trace clk now probe world (ListServers d) d"

subsection \<open>The activator's callbacks\<close>

record wakeRequest =
  wr_slug :: string
  wr_token :: string

definition handleWake ::
  "(string \<Rightarrow> string) \<Rightarrow> bool \<Rightarrow> wakeRequest option \<Rightarrow> time \<Rightarrow> time \<Rightarrow> db \<Rightarrow> nat \<times> db" where
  \<comment> \<open>\<open>token\<close> is \<open>crypto.WakeToken\<close> under the installation's key, \<open>allowed\<close> the limiter's answer for
     the caller's address, \<open>None\<close> a body that is no request; the row of the audit log is not kept\<close>
  "handleWake token allowed body clk now d =
     (if \<not> allowed then (429, d)
      else
        (case body of
           None \<Rightarrow> (400, d)
         | Some req \<Rightarrow>
             (case GetServerBySlug (wr_slug req) d of
                Inl _ \<Rightarrow> (204, d)
              | Inr srv \<Rightarrow>
                  if wr_token req \<noteq> token (sv_slug srv) then (204, d)
                  else if WakesOnConnect (sv_hibernation srv) \<and> sv_hibernated srv
                  then (204, Wake clk (sv_id srv) now d) else (204, d))))"

definition handleActive ::
  "(string \<Rightarrow> string) \<Rightarrow> bool \<Rightarrow> wakeRequest option \<Rightarrow> time \<Rightarrow> time \<Rightarrow> db \<Rightarrow> nat \<times> db" where
  "handleActive token allowed body clk now d =
     (if \<not> allowed then (429, d)
      else
        (case body of
           None \<Rightarrow> (400, d)
         | Some req \<Rightarrow>
             (case GetServerBySlug (wr_slug req) d of
                Inl _ \<Rightarrow> (204, d)
              | Inr srv \<Rightarrow>
                  if wr_token req = token (sv_slug srv)
                  then (204, UpdateLastActive clk (sv_id srv) now d) else (204, d))))"

section \<open>What a tick does\<close>

lemma trace_step:
  "(srv, d1, d2) \<in> set (hibernate_trace clk now probe world srvs d) \<Longrightarrow>
     srv \<in> set srvs \<and> d2 = hibernate_one clk now probe srv d1"
  by (induction srvs arbitrary: d) (auto simp: Let_def)

lemma last_active_keeps_awake:
  "k < length (servers d) \<Longrightarrow>
     sv_hibernated (servers (UpdateLastActive clk i t d) ! k) = sv_hibernated (servers d ! k)"
  by (simp add: UpdateLastActive_def update_where_def)

lemma hibernate_hits:
  assumes "k < length (servers d)" "\<not> sv_hibernated (servers d ! k)"
    and "sv_hibernated (servers (snd (HibernateIfUnchanged clk srv d)) ! k)"
  shows "sv_id (servers d ! k) = sv_id srv" "sv_hibernation (servers d ! k) = sv_hibernation srv"
    "sv_desired_state (servers d ! k) = StateRunning" "sv_last_active_at (servers d ! k) = sv_last_active_at srv"
    "sv_updated_at (servers d ! k) = sv_updated_at srv"
  using assms by (auto simp: HibernateIfUnchanged_def Let_def update_where_def split: if_splits)

lemma idleWindow_minutes:
  assumes "0 < hb_idleMinutes (sv_hibernation s)" "hb_idleMinutes (sv_hibernation s) \<le> 153722867"
  shows "idleWindow s = hb_idleMinutes (sv_hibernation s) * minute"
proof -
  have "word_of_int (hb_idleMinutes (sv_hibernation s)) * word_of_int minute =
      (word_of_int (hb_idleMinutes (sv_hibernation s) * minute) :: 64 word)" by simp
  then show ?thesis using assms
    by (simp add: idleWindow_def signed_of_int signed_take_bit_int_eq_self del: of_int_mult)
qed

text \<open>A longer policy, which nothing refuses, wraps around: 200 million minutes are a negative window.\<close>

lemma longer_policy_wraps:
  "idleWindow (s\<lparr>sv_hibernation := h\<lparr>hb_idleMinutes := 200000000\<rparr>\<rparr>) < 0"
  by (simp add: idleWindow_def)

text \<open>C28: a tick puts a server to sleep only if its row, at that moment and not only when it was listed,
  says that hibernation is on, that it should run and that its last activity is at least its idle
  window ago; without a proxy, only if all its ports were TCP ones and its probe found no connection.\<close>

theorem only_idle_servers_sleep:
  assumes "(srv, d1, d2) \<in> set (Hibernate_Tick clk now probe world d)"
    and "k < length (servers d1)" and "\<not> sv_hibernated (servers d1 ! k)" and "sv_hibernated (servers d2 ! k)"
  shows "let s = servers d1 ! k in
      sv_id s = sv_id srv \<and> hb_enabled (sv_hibernation s) \<and> sv_desired_state s = StateRunning
      \<and> (\<exists>t. sv_last_active_at s = Some t \<and> time_sub now t \<ge> idleWindow s)
      \<and> (0 < hb_idleMinutes (sv_hibernation s) \<and> hb_idleMinutes (sv_hibernation s) \<le> 153722867
           \<longrightarrow> idleWindow s = hb_idleMinutes (sv_hibernation s) * minute)
      \<and> (hb_proxy (sv_hibernation s) \<or> (measurablePorts srv \<and> (\<exists>n \<le> 0. probe srv = Some n)))"
proof -
  have d2: "d2 = hibernate_one clk now probe srv d1"
    using assms(1) unfolding Hibernate_Tick_def by (blast dest: trace_step)
  have el: "eligible srv"
  proof (rule ccontr)
    assume "\<not> eligible srv"
    then have "d2 = d1" by (simp add: d2 hibernate_one_def)
    with assms show False by simp
  qed
  obtain n t where n: "(if hb_proxy (sv_hibernation srv) then Some 0 else probe srv) = Some n" "n \<le> 0"
    and t: "sv_last_active_at srv = Some t" "time_sub now t \<ge> idleWindow srv"
    and d2': "d2 = snd (HibernateIfUnchanged clk srv d1)"
    using assms(2-4) el unfolding d2 hibernate_one_def
    by (auto simp: last_active_keeps_awake split: option.splits if_splits)
  note hit = hibernate_hits [OF assms(2,3), of clk srv, folded d2', OF assms(4)]
  have "idleWindow (servers d1 ! k) = idleWindow srv" by (simp add: idleWindow_def hit)
  then show ?thesis using el n t by (auto simp: Let_def hit eligible_def idleWindow_minutes split: if_splits)
qed

section \<open>Reading the kernel's table\<close>

text \<open>
  How the kernel writes \<open>/proc/net/tcp\<close>: a line of headings, then a line per socket with its slot,
  its local address and port in hexadecimal, its peer's, its state as two hexadecimal digits and more.
\<close>

record socket =
  so_pad :: nat
  so_slot :: nat
  so_address :: string
  so_port :: nat
  so_remote :: string
  so_state :: nat
  so_rest :: string

definition hex_char :: "nat \<Rightarrow> char" where
  "hex_char d = of_byte (if d < 10 then 48 + d else 55 + d)"

definition hex2 :: "nat \<Rightarrow> string" where "hex2 n = [hex_char (n div 16), hex_char (n mod 16)]"

definition hex4 :: "nat \<Rightarrow> string" where "hex4 n = hex2 (n div 256) @ hex2 (n mod 256)"

definition socket_line :: "socket \<Rightarrow> string" where
  "socket_line s = replicate (so_pad s) CHR '' '' @ (show_nat (so_slot s) @ '':'') @ '' '' @
     (so_address s @ '':'' @ hex4 (so_port s)) @ '' '' @ so_remote s @ '' '' @ hex2 (so_state s) @ '' '' @ so_rest s"

definition tcp_table :: "socket list \<Rightarrow> string" where
  "tcp_table ss = ''  sl  local_address rem_address   st tx_queue rx_queue'' @ [CHR 0x0A] @
     concat (map (\<lambda>s. socket_line s @ [CHR 0x0A]) ss)"

definition graphic :: "char \<Rightarrow> bool" where "graphic c \<longleftrightarrow> 33 \<le> byte c \<and> byte c \<le> 126"

definition socket_ok :: "socket \<Rightarrow> bool" where
  "socket_ok s \<longleftrightarrow> list_all graphic (so_address s) \<and> CHR '':'' \<notin> set (so_address s)
     \<and> list_all graphic (so_remote s) \<and> so_remote s \<noteq> [] \<and> so_port s < 65536 \<and> so_state s < 256
     \<and> CHR 0x0A \<notin> set (so_rest s) \<and> CHR 0x0D \<notin> set (so_rest s) \<and> length (socket_line s) < 65536"

lemma graphic_visible: "graphic c \<Longrightarrow> visible c"
  by (auto simp: graphic_def visible_code space_seqs_def byte_def)

lemma visible_head: "visible c \<Longrightarrow> space_prefix (c # s) = None"
  using space_prefix_visible [of c "[]" s] by (simp add: space_prefix_def find_None space_seqs_def)

lemma blank_head: "space_prefix (CHR '' '' # s) = Some '' ''"
  by (simp add: space_prefix_def space_seqs_def prefix_def)

lemma trim_space_left_blank: "trim_space_left (CHR '' '' # s) = trim_space_left s"
  by (simp add: trim_space_left.simps [of "CHR '' '' # s"] blank_head)

lemma trim_space_left_word: "visible c \<Longrightarrow> trim_space_left (c # s) = c # s"
  by (simp add: trim_space_left.simps [of "c # s"] visible_head)

lemma word_end_word: "list_all visible w \<Longrightarrow> word_end (w @ CHR '' '' # r) = (w, CHR '' '' # r)"
  by (induction w) (simp_all add: blank_head visible_head)

lemma Fields_blank: "Fields (CHR '' '' # s) = Fields s"
  by (simp add: Fields.simps [of "CHR '' '' # s"] Fields.simps [of s] trim_space_left_blank)

lemma Fields_blanks: "Fields (replicate n CHR '' '' @ s) = Fields s"
  by (induction n) (simp_all add: Fields_blank)

lemma Fields_word:
  assumes "list_all graphic w" "w \<noteq> []"
  shows "Fields (w @ CHR '' '' # r) = w # Fields r"
proof -
  have v: "list_all visible w" using assms(1) by (auto simp: list_all_iff graphic_visible)
  then have "trim_space_left (w @ CHR '' '' # r) = w @ CHR '' '' # r"
    using assms(2) by (cases w) (simp_all add: trim_space_left_word)
  then show ?thesis
    using v by (simp add: Fields.simps [of "w @ CHR '' '' # r"] word_end_word Fields_blank)
qed

lemma byte_hex_char: "d < 16 \<Longrightarrow> byte (hex_char d) = (if d < 10 then 48 + d else 55 + d)"
  by (simp add: hex_char_def)

lemma hex_digit_char: "d < 16 \<Longrightarrow> hex_digit (hex_char d) = Some d"
  by (auto simp: hex_digit_def byte_hex_char Let_def)

lemma graphic_hex: "d < 16 \<Longrightarrow> graphic (hex_char d)"
  by (simp add: graphic_def byte_hex_char)

lemma hex_char_inject: "d < 16 \<Longrightarrow> e < 16 \<Longrightarrow> hex_char d = hex_char e \<longleftrightarrow> d = e"
  by (metis hex_digit_char option.inject)

lemma hex4_digits: "n < 65536 \<Longrightarrow> list_all graphic (hex4 n) \<and> CHR '':'' \<notin> set (hex4 n)"
proof -
  have "CHR '':'' \<noteq> hex_char d" if "d < 16" for d
  proof
    assume "CHR '':'' = hex_char d"
    then have "byte (hex_char d) = 58" by (simp add: byte_def flip: \<open>CHR '':'' = hex_char d\<close>)
    with that show False by (simp add: byte_hex_char split: if_splits)
  qed
  then show "n < 65536 \<Longrightarrow> ?thesis"
    by (auto simp: hex4_def hex2_def graphic_hex div_less_iff_less_mult less_mult_imp_div_less)
qed

lemma parse_hex4: "n < 65536 \<Longrightarrow> parse_hex32 (hex4 n) = Some (int n)"
proof -
  assume n: "n < 65536"
  let ?a = "n div 256 div 16" and ?b = "n div 256 mod 16" and ?c = "n mod 256 div 16" and ?d = "n mod 256 mod 16"
  have d: "?a < 16" "?b < 16" "?c < 16" "?d < 16" using n by (auto simp: less_mult_imp_div_less)
  have "hex_value 0 (hex4 n) = Some (16 * (16 * (16 * ?a + ?b) + ?c) + ?d)"
    using d by (simp add: hex4_def hex2_def hex_digit_char)
  also have "16 * (16 * (16 * ?a + ?b) + ?c) + ?d = 256 * (16 * ?a + ?b) + (16 * ?c + ?d)" by simp
  also have "\<dots> = n" by (simp only: mult_div_mod_eq)
  finally have v: "hex_value 0 (hex4 n) = Some n" .
  have "byte (hex_char ?a) \<noteq> byte CHR ''-''" "byte (hex_char ?a) \<noteq> byte CHR ''+''"
    using d(1) by (auto simp: byte_hex_char) (auto simp: byte_def)
  then have "hex_char ?a \<noteq> CHR ''-''" "hex_char ?a \<noteq> CHR ''+''" by auto
  with v n show ?thesis by (simp add: parse_hex32_def hex4_def hex2_def)
qed

lemma hex2_established: "n < 256 \<Longrightarrow> hex2 n = stateEstablished \<longleftrightarrow> n = 1"
proof -
  assume "n < 256"
  then have "hex2 n = hex2 1 \<longleftrightarrow> n div 16 = 0 \<and> n mod 16 = 1"
    by (simp add: hex2_def hex_char_inject less_mult_imp_div_less)
  moreover have "hex2 1 = stateEstablished" by code_simp
  ultimately show ?thesis by auto
qed

lemma slot_word: "list_all graphic (show_nat n @ '':'') \<and> show_nat n @ '':'' \<noteq> ''sl''"
proof -
  have "graphic c" if "is_digit c" for c using that by (auto simp: is_digit_def graphic_def)
  then show ?thesis
    by (auto simp: list_all_iff graphic_def byte_def dest: show_nat_digits)
qed

lemma established_line:
  assumes "socket_ok s"
  shows "established_on prts (Fields (socket_line s)) \<longleftrightarrow> so_state s = 1 \<and> prts (int (so_port s))"
proof -
  let ?l = "so_address s @ '':'' @ hex4 (so_port s)"
  have h: "list_all graphic ?l" "last (split_on CHR '':'' ?l) = hex4 (so_port s)"
    using assms hex4_digits [of "so_port s"]
    by (auto simp: socket_ok_def graphic_def byte_def split_on_append split_on_single)
  have s: "list_all graphic (hex2 (so_state s))" "hex2 (so_state s) \<noteq> []"
    using assms by (simp_all add: socket_ok_def hex2_def graphic_hex less_mult_imp_div_less)
  have "Fields (socket_line s) =
      (show_nat (so_slot s) @ '':'') # ?l # so_remote s # hex2 (so_state s) # Fields (so_rest s)"
    using assms h(1) s Fields_word [of "show_nat (so_slot s) @ '':''"] Fields_word [of ?l] Fields_word [of "so_remote s"]
      Fields_word [OF s] slot_word [of "so_slot s"]
    by (simp add: socket_line_def Fields_blanks socket_ok_def)
  then show ?thesis
    using assms h(2) slot_word [of "so_slot s"]
    by (simp add: socket_ok_def parse_hex4 hex2_established)
qed

lemma headings_not_counted: "\<not> established_on prts (''sl'' # xs)"
  by (cases "(prts, ''sl'' # xs)" rule: established_on.cases) auto

lemma socket_line_chars:
  assumes "socket_ok s" "c = CHR 0x0A \<or> c = CHR 0x0D"
  shows "c \<notin> set (socket_line s)"
proof -
  have g: "\<not> graphic c" "c \<noteq> CHR '' ''" "c \<noteq> CHR '':''" using assms(2) by (auto simp: graphic_def byte_def)
  have "c \<notin> set (hex4 (so_port s))" "c \<notin> set (hex2 (so_state s))" "c \<notin> set (show_nat (so_slot s))"
    using g assms(1) hex4_digits [of "so_port s"] slot_word [of "so_slot s"]
    by (auto simp: socket_ok_def list_all_iff hex2_def graphic_hex less_mult_imp_div_less)
  with g assms show ?thesis by (auto simp: socket_line_def socket_ok_def list_all_iff)
qed

lemma split_on_table:
  assumes "\<And>s. s \<in> set ss \<Longrightarrow> CHR 0x0A \<notin> set (f s)"
  shows "split_on CHR 0x0A (concat (map (\<lambda>s. f s @ [CHR 0x0A]) ss)) = map f ss @ [[]]"
  using assms by (induction ss) (simp_all add: split_on_append)

text \<open>Over any table the kernel writes, what is counted is the sockets with an established
  connection on one of the ports.\<close>

theorem connections_counted:
  assumes "list_all socket_ok ss"
  shows "CountEstablished (tcp_table ss) prts
    = length (filter (\<lambda>s. so_state s = 1 \<and> prts (int (so_port s))) ss)"
proof -
  let ?h = "''  sl  local_address rem_address   st tx_queue rx_queue''"
  have ok: "socket_ok s" if "s \<in> set ss" for s using assms that by (simp add: list_all_iff)
  have "CHR 0x0A \<notin> set ?h" by simp
  then have split: "split_on CHR 0x0A (tcp_table ss) = ?h # map socket_line ss @ [[]]"
    using split_on_table [of ss socket_line] ok socket_line_chars
    by (simp add: tcp_table_def split_on_append [of _ ?h, simplified])
  have "map (trim_suffix [CHR 0x0D]) (takeWhile (\<lambda>l. length l < 65536) (map socket_line ss)) = map socket_line ss"
  proof -
    have all: "takeWhile (\<lambda>l. length l < 65536) (map socket_line ss) = map socket_line ss"
      using ok by (auto simp: takeWhile_eq_all_conv socket_ok_def)
    moreover have "trim_suffix [CHR 0x0D] (socket_line s) = socket_line s" if "s \<in> set ss" for s
      using socket_line_chars [OF ok [OF that], of "CHR 0x0D"] by (auto simp: trim_suffix_def suffix_def)
    ultimately show ?thesis unfolding all by simp
  qed
  then have lines: "scan_lines (tcp_table ss) = ?h # map socket_line ss"
    by (simp add: split butlast_append trim_suffix_def suffix_def)
  have "\<not> established_on prts (Fields ?h)"
    using Fields_word [of "''sl''" "'' local_address rem_address   st tx_queue rx_queue''"]
    by (simp add: Fields_blank graphic_def byte_def headings_not_counted)
  with lines ok show ?thesis
    by (simp add: CountEstablished_def filter_map comp_def established_line cong: filter_cong)
qed

section \<open>The callbacks\<close>

text \<open>a callback without the server's own token changes nothing, and is answered just like one for
  a server that does not exist.\<close>

theorem callbacks_need_the_token:
  assumes "\<And>srv. GetServerBySlug (wr_slug req) d = Inr srv \<Longrightarrow> wr_token req \<noteq> token (sv_slug srv)"
  shows "handleWake token True (Some req) clk now d = (204, d) \<and> handleActive token True (Some req) clk now d = (204, d)"
  using assms by (auto simp: handleWake_def handleActive_def split: sum.splits)

section \<open>Witnesses\<close>

definition sleepy_server :: Server where
  "sleepy_server = sample_server\<lparr>sv_ports := [\<lparr>ps_name = ''p1'', ps_port = 1, ps_protocol = ''TCP'', ps_primary = True, ps_nodePort = 0\<rparr>],
     sv_hibernation := \<lparr>hb_enabled = True, hb_idleMinutes = 20, hb_wakeOnConnect = False, hb_proxy = False\<rparr>,
     sv_last_active_at := Some 5\<rparr>"

definition sleepy_db :: db where "sleepy_db = empty_db\<lparr>servers := [sleepy_server]\<rparr>"

lemma sleepy_fields:
  "sv_hibernation sleepy_server = \<lparr>hb_enabled = True, hb_idleMinutes = 20, hb_wakeOnConnect = False, hb_proxy = False\<rparr>"
  "sv_desired_state sleepy_server = StateRunning" "\<not> sv_hibernated sleepy_server" "sv_last_active_at sleepy_server = Some 5"
  by (simp_all add: sleepy_server_def sample_server_def)

lemma sleepy_measurable: "measurablePorts sleepy_server"
  by (simp add: measurablePorts_def sleepy_server_def equal_fold_udp_def) code_simp

theorem only_idle_servers_sleep_witness:
  "time_sub (2 * hour) 5 \<ge> idleWindow sleepy_server"
proof -
  let ?d2 = "hibernate_one 0 (2 * hour) (\<lambda>_. Some 0) sleepy_server sleepy_db"
  have in_trace: "(sleepy_server, sleepy_db, ?d2) \<in> set (Hibernate_Tick 0 (2 * hour) (\<lambda>_. Some 0) (\<lambda>_ d. d) sleepy_db)"
    by (simp add: Hibernate_Tick_def ListServers_def sleepy_db_def Let_def)
  have "idleWindow sleepy_server = 20 * minute"
    by (simp add: idleWindow_minutes sleepy_fields)
  then have "?d2 = snd (HibernateIfUnchanged 0 sleepy_server sleepy_db)"
    using sleepy_measurable
    by (simp add: hibernate_one_def eligible_def time_sub_def sleepy_fields)
  then have "\<not> sv_hibernated (servers sleepy_db ! 0)" "sv_hibernated (servers ?d2 ! 0)" "0 < length (servers sleepy_db)"
    by (simp_all add: HibernateIfUnchanged_def sleepy_db_def sleepy_fields)
  from only_idle_servers_sleep [OF in_trace this(3,1,2)] show ?thesis
    by (simp add: sleepy_db_def sleepy_fields)
qed

definition sample_sockets :: "socket list" where
  "sample_sockets =
     [\<lparr>so_pad = 3, so_slot = 0, so_address = ''00000000'', so_port = 25565, so_remote = ''00000000:0000'', so_state = 10, so_rest = []\<rparr>,
      \<lparr>so_pad = 3, so_slot = 1, so_address = ''0100007F'', so_port = 25565, so_remote = ''0100007F:C001'', so_state = 1, so_rest = ''00''\<rparr>]"

theorem connections_counted_witness: "CountEstablished (tcp_table sample_sockets) (\<lambda>p. p = 25565) = 1"
proof -
  have "list_all socket_ok sample_sockets"
    by (simp add: sample_sockets_def socket_ok_def graphic_def byte_def socket_line_def hex4_def hex2_def
          show_nat.simps)
  from connections_counted [OF this, of "\<lambda>p. p = 25565"] show ?thesis by (simp add: sample_sockets_def)
qed

theorem callbacks_need_the_token_witness:
  "handleWake (\<lambda>s. s @ ''!'') True (Some \<lparr>wr_slug = ''s'', wr_token = ''guess''\<rparr>) 0 1 sleepy_db = (204, sleepy_db)"
  using callbacks_need_the_token [of "\<lparr>wr_slug = ''s'', wr_token = ''guess''\<rparr>" sleepy_db "\<lambda>s. s @ ''!''" 0 1]
  by (simp add: GetServerBySlug_def sleepy_db_def sleepy_server_def sample_server_def)

end
