(* ===== verification/Pod_Status.thy ===== *)
theory Pod_Status imports Startup Hibernate begin

text \<open>
  What the reconciler sees of a server's pods and what it tells of the server
  (\<open>internal/reconciler/reconciler.go\<close>, \<open>internal/reconciler/placement.go\<close>): the health of the pods,
  the phase and its message, and the events that go with a change. What the API server answers in
  one pass is the argument \<open>ClusterView\<close>.
\<close>

subsection \<open>Kubernetes objects, as far as they are read\<close>

record Terminated =
  tm_reason :: string
  tm_exit :: int
  tm_message :: string

record Waiting =
  wg_reason :: string
  wg_message :: string

record ContainerStatus =
  ct_name :: string
  ct_id :: string
  ct_waiting :: "Waiting option"
  ct_running :: "time option"            \<comment> \<open>since when\<close>
  ct_terminated :: "Terminated option"
  ct_last :: "Terminated option"         \<comment> \<open>\<open>LastTerminationState.Terminated\<close>\<close>
  ct_restarts :: int

datatype PodPhase = PodPending | PodRunning | PodSucceeded | PodFailed | PodUnknown

record Condition =
  cn_type :: string
  cn_status :: string
  cn_reason :: string
  cn_message :: string

record Pod =
  po_name :: string
  po_node :: string
  po_deleting :: bool
  po_phase :: PodPhase
  po_conditions :: "Condition list"
  po_containers :: "ContainerStatus list"
  po_inits :: "ContainerStatus list"

record Node =
  nd_name :: string
  nd_conditions :: "Condition list"
  nd_addresses :: "(string \<times> string) list"

record Deployment =
  dp_generation :: int
  dp_observed :: int
  dp_replicas :: "int option"
  dp_updated :: int
  dp_ready :: int

record ClusterView =
  cv_pods :: "Pod list option"           \<comment> \<open>the game's pods; \<open>None\<close> is an error\<close>
  cv_data_pods :: "Pod list option"      \<comment> \<open>the data-manager's\<close>
  cv_nodes :: "Node list option"
  cv_node :: "string \<Rightarrow> Node option"
  cv_deployment :: "nat \<Rightarrow> Deployment option"  \<comment> \<open>what the reads of the pass find, in turn\<close>
  cv_ingress :: "(string \<times> string) list option"
  cv_log_tail :: "(string \<Rightarrow> string \<Rightarrow> bool \<Rightarrow> string option) option"
  cv_startup_seen :: "(string \<Rightarrow> string \<Rightarrow> time \<Rightarrow> bool) option"

definition workloadName :: string where "workloadName = ''server''"

subsection \<open>Nodes and placement\<close>

definition NodeReady :: "Node \<Rightarrow> bool" where
  "NodeReady n = (case find (\<lambda>c. cn_type c = ''Ready'') (nd_conditions n) of
     None \<Rightarrow> False | Some c \<Rightarrow> cn_status c = ''True'')"

definition PodCondition :: "Pod \<Rightarrow> string \<Rightarrow> Condition option" where
  "PodCondition p t = find (\<lambda>c. cn_type c = t) (po_conditions p)"

definition Unschedulable :: "Pod \<Rightarrow> string" where
  "Unschedulable p =
     (case PodCondition p ''PodScheduled'' of
        None \<Rightarrow> []
      | Some c \<Rightarrow>
          if po_phase p \<noteq> PodPending \<or> cn_status c \<noteq> ''False'' \<or> cn_reason c \<noteq> ''Unschedulable'' then []
          else if cn_message c = [] then ''no node can take it'' else cn_message c)"

fun placement_of :: "(string \<Rightarrow> Node option) \<Rightarrow> Pod list \<Rightarrow> string" where
  \<comment> \<open>the loop over the data-manager's pods\<close>
  "placement_of node [] = []"
| "placement_of node (p # ps) =
     (if po_deleting p then placement_of node ps
      else if Unschedulable p \<noteq> [] then ''no node can hold its data: '' @ Unschedulable p
      else if po_node p = [] then placement_of node ps
      else (case node (po_node p) of
              None \<Rightarrow> []
            | Some n \<Rightarrow> if \<not> NodeReady n
                then ''the node '' @ nd_name n @ '', which holds its data, is not responding''
                else placement_of node ps))"

definition placementProblem :: "ClusterView \<Rightarrow> string \<Rightarrow> string" where
  "placementProblem v unscheduled =
     (if unscheduled \<noteq> [] then ''no node can run it: '' @ unscheduled
      else (case cv_data_pods v of None \<Rightarrow> [] | Some ps \<Rightarrow> placement_of (cv_node v) ps))"

subsection \<open>Deployments\<close>

definition deploymentReady :: "Deployment option \<Rightarrow> bool" where
  "deploymentReady d = (case d of None \<Rightarrow> False | Some d \<Rightarrow> dp_ready d \<ge> 1)"

definition deploymentCurrent :: "Deployment option \<Rightarrow> bool" where
  "deploymentCurrent d = (case d of None \<Rightarrow> False
     | Some d \<Rightarrow> dp_observed d \<ge> dp_generation d \<and> dp_updated d \<ge> 1 \<and> dp_ready d \<ge> 1)"

definition deploymentRunning :: "Deployment option \<Rightarrow> bool" where
  "deploymentRunning d = (case d of None \<Rightarrow> False
     | Some d \<Rightarrow> (case dp_replicas d of None \<Rightarrow> False | Some n \<Rightarrow> n > 0))"

subsection \<open>The health of the pods\<close>

record podHealth =
  ph_restarts :: int
  ph_crashloop :: bool
  ph_msg :: string
  ph_oomKilled :: bool
  ph_termReason :: string
  ph_exitCode :: int
  ph_installing :: bool
  ph_installFailed :: bool
  ph_installStep :: string
  ph_installExit :: int
  ph_installMessage :: string
  ph_installRetrying :: bool
  ph_installAttempts :: int
  ph_gamePod :: string
  ph_gameContainer :: string
  ph_gameStarted :: "time option"
  ph_unscheduled :: string

definition no_health :: podHealth where
  "no_health = \<lparr>ph_restarts = 0, ph_crashloop = False, ph_msg = [], ph_oomKilled = False, ph_termReason = [],
     ph_exitCode = 0, ph_installing = False, ph_installFailed = False, ph_installStep = [], ph_installExit = 0,
     ph_installMessage = [], ph_installRetrying = False, ph_installAttempts = 0, ph_gamePod = [],
     ph_gameContainer = [], ph_gameStarted = None, ph_unscheduled = []\<rparr>"

definition note_exit :: "Terminated option \<Rightarrow> podHealth \<Rightarrow> podHealth" where
  "note_exit term h =
     (case term of
        None \<Rightarrow> h
      | Some t \<Rightarrow> h\<lparr>ph_termReason := tm_reason t, ph_exitCode := tm_exit t,
                    ph_oomKilled := (ph_oomKilled h \<or> tm_reason t = ''OOMKilled'')\<rparr>)"

text \<open>The last line of a log that reads as an error.\<close>

function strip_colours :: "string \<Rightarrow> string" where
  \<comment> \<open>\<open>ansi.ReplaceAllString(l, "")\<close> for \<open>\x1b\[[0-9;]*[A-Za-z]\<close>\<close>
  "strip_colours [] = []"
| "strip_colours (c # s) =
     (if c = CHR 0x1B \<and> s \<noteq> [] \<and> hd s = CHR ''[''
      then (case dropWhile (\<lambda>c. is_digit c \<or> c = CHR '';'') (tl s) of
              [] \<Rightarrow> c # strip_colours s
            | f # r \<Rightarrow> if between 65 90 f \<or> between 97 122 f then strip_colours r else c # strip_colours s)
      else c # strip_colours s)"
  by pat_completeness auto
termination
proof (relation "measure length")
  fix c :: char and s r :: string and f
  assume "dropWhile (\<lambda>c. is_digit c \<or> c = CHR '';'') (tl s) = f # r"
  from arg_cong [OF this, of length] have "Suc (length r) \<le> length (tl s)"
    by (metis length_Cons length_dropWhile_le)
  then show "(r, c # s) \<in> measure length" by simp
qed auto

fun fold_case :: "string \<Rightarrow> string" where
  \<comment> \<open>what \<open>(?i)\<close> takes for an ASCII letter, in lower case: U+017F is an s, U+212A a k\<close>
  "fold_case (a # b # c # s) =
     (if a = CHR 0xE2 \<and> b = CHR 0x84 \<and> c = CHR 0xAA then CHR ''k'' # fold_case s
      else if a = CHR 0xC5 \<and> b = CHR 0xBF then CHR ''s'' # fold_case (c # s)
      else lower_ascii a # fold_case (b # c # s))"
| "fold_case [a, b] = (if a = CHR 0xC5 \<and> b = CHR 0xBF then ''s'' else [lower_ascii a, lower_ascii b])"
| "fold_case [a] = [lower_ascii a]"
| "fold_case [] = []"

definition errorLine :: "string \<Rightarrow> bool" where
  "errorLine l = list_ex (\<lambda>w. sublist w (fold_case l))
     [''exception'', ''error'', ''fatal'', ''panic'', ''out of memory'', ''segmentation fault'', ''killed'']"

fun first_error_line :: "string list \<Rightarrow> string" where
  "first_error_line [] = []"
| "first_error_line (l0 # ls) =
     (let l = TrimSpace (strip_colours l0)
      in if errorLine l then (if length l > 200 then take 200 l @ [CHR 0xE2, CHR 0x80, CHR 0xA6] else l)
         else first_error_line ls)"

definition lastErrorLine :: "string \<Rightarrow> string" where
  "lastErrorLine log = first_error_line (rev (split_on CHR 0x0A (trim_right [CHR 0x0A] log)))"

definition crashMessage :: "ContainerStatus \<Rightarrow> string" where
  "crashMessage cs =
     (case (case ct_terminated cs of None \<Rightarrow> ct_last cs | Some t \<Rightarrow> Some t) of
        Some t \<Rightarrow> if tm_reason t = ''OOMKilled'' then ''the game ran out of memory (OOMKilled)''
                  else ''the game exited with code '' @ show_int (tm_exit t)
      | None \<Rightarrow>
          (case ct_waiting cs of
             Some w \<Rightarrow> if wg_message w \<noteq> [] then wg_message w else ''container in CrashLoopBackOff''
           | None \<Rightarrow> ''container in CrashLoopBackOff''))"

definition dash :: string where "dash = [CHR '' '', CHR 0xE2, CHR 0x80, CHR 0x94, CHR '' '']"

definition crashMessageWithLog :: "ClusterView \<Rightarrow> string \<Rightarrow> ContainerStatus \<Rightarrow> string" where
  "crashMessageWithLog v pod cs =
     (let msg = crashMessage cs
      in case cv_log_tail v of
           None \<Rightarrow> msg
         | Some tail \<Rightarrow>
             if ct_name cs \<noteq> workloadName then msg
             else (case tail pod (ct_name cs) (ct_terminated cs = None) of
                     None \<Rightarrow> msg
                   | Some log \<Rightarrow>
                       (let line = lastErrorLine log
                        in if line = [] then msg
                           else if sublist ''OutOfMemoryError'' line
                           then msg @ '', out of memory: '' @ line @ dash @ ''give it more memory''
                           else msg @ ''; its log ends with: '' @ line)))"

definition inspect_container :: "ClusterView \<Rightarrow> Pod \<Rightarrow> bool \<Rightarrow> ContainerStatus \<Rightarrow> podHealth \<Rightarrow> podHealth" where
  \<comment> \<open>the body of the loop over a pod's containers\<close>
  "inspect_container v p current cs h0 =
     (let h1 = h0\<lparr>ph_restarts := ph_restarts h0 + ct_restarts cs\<rparr>;
          crash = (\<lambda>h. h\<lparr>ph_crashloop := True, ph_msg := crashMessageWithLog v (po_name p) cs\<rparr>);
          h2 = (case ct_waiting cs of Some w \<Rightarrow> if wg_reason w = ''CrashLoopBackOff'' then crash h1 else h1 | None \<Rightarrow> h1);
          h3 = (case ct_terminated cs of Some t \<Rightarrow> if tm_exit t \<noteq> 0 \<and> current then crash h2 else h2 | None \<Rightarrow> h2);
          h4 = note_exit (ct_terminated cs) (note_exit (ct_last cs) h3)
      in case ct_running cs of
           None \<Rightarrow> h4
         | Some since \<Rightarrow>
             if ct_name cs = workloadName \<and> ct_id cs \<noteq> [] \<and> \<not> po_deleting p
                \<and> (case ph_gameStarted h4 of None \<Rightarrow> True | Some t \<Rightarrow> \<not> since < t)
             then h4\<lparr>ph_gamePod := po_name p, ph_gameContainer := ct_id cs, ph_gameStarted := Some since\<rparr>
             else h4)"

definition backing_off :: "ContainerStatus \<Rightarrow> bool" where
  "backing_off cs = (case ct_waiting cs of Some w \<Rightarrow> wg_reason w = ''CrashLoopBackOff'' | None \<Rightarrow> False)"

definition failed_exit :: "Terminated option \<Rightarrow> bool" where
  "failed_exit t = (case t of Some t \<Rightarrow> tm_exit t \<noteq> 0 | None \<Rightarrow> False)"

definition note_failure :: "Terminated option \<Rightarrow> podHealth \<Rightarrow> podHealth" where
  "note_failure t h =
     (case t of None \<Rightarrow> h
      | Some t \<Rightarrow> h\<lparr>ph_installExit := tm_exit t, ph_installMessage := TrimSpace (tm_message t)\<rparr>)"

definition noteInit_one :: "ContainerStatus \<Rightarrow> podHealth \<Rightarrow> podHealth" where
  "noteInit_one cs h =
     (let failing = h\<lparr>ph_installFailed := True, ph_installStep := ct_name cs\<rparr>
      in if failed_exit (ct_terminated cs) then note_failure (ct_terminated cs) failing
         else if backing_off cs then note_failure (ct_last cs) failing
         else if ct_running cs \<noteq> None \<and> ct_restarts cs > 0 \<and> failed_exit (ct_last cs)
         then (note_failure (ct_last cs) failing)\<lparr>ph_installRetrying := True, ph_installAttempts := ct_restarts cs + 1\<rparr>
         else if ct_terminated cs = None
         then h\<lparr>ph_installing := True,
                ph_installStep := (if ph_installStep h = [] then ct_name cs else ph_installStep h)\<rparr>
         else h)"

definition noteInit :: "ContainerStatus list \<Rightarrow> podHealth \<Rightarrow> podHealth" where
  "noteInit css h = fold noteInit_one css h"

definition inspect_pod :: "ClusterView \<Rightarrow> Pod \<Rightarrow> podHealth \<Rightarrow> podHealth" where
  "inspect_pod v p h =
     (let current = (\<not> po_deleting p \<and> po_phase p \<noteq> PodFailed \<and> po_phase p \<noteq> PodSucceeded);
          why = Unschedulable p;
          h1 = (if current \<and> why \<noteq> [] then h\<lparr>ph_unscheduled := why\<rparr> else h);
          h2 = fold (inspect_container v p current) (po_containers p) h1
      in noteInit (po_inits p) h2)"

definition inspectPods :: "ClusterView \<Rightarrow> podHealth" where
  "inspectPods v = (case cv_pods v of None \<Rightarrow> no_health | Some ps \<Rightarrow> fold (inspect_pod v) ps no_health)"

subsection \<open>The phase of a running server\<close>

definition startupLimit :: duration where "startupLimit = 30 * minute"

definition minutes :: "duration \<Rightarrow> string" where
  "minutes d = show_int (d div minute) @ '' minutes''"

definition quoteLines :: "(nat \<Rightarrow> bool) \<Rightarrow> string list \<Rightarrow> string" where
  "quoteLines printable ls = join '' or '' (map (go_quote printable) ls)"

definition installFailureMessage :: "podHealth \<Rightarrow> string" where
  "installFailureMessage h =
     (let msg0 = ph_installStep h @ '' failed (exit code '' @ show_int (ph_installExit h) @ '')'';
          msg1 = (if ph_installMessage h \<noteq> [] then msg0 @ '': '' @ ph_installMessage h else msg0);
          msg2 = msg1 @ dash @ ''see the install log for the output''
      in if ph_installRetrying h
         then msg2 @ '' (attempt '' @ show_int (ph_installAttempts h)
              @ '' is running; a step that keeps failing will keep being retried)''
         else msg2)"

record go_lib =
  gl_compile :: "string \<Rightarrow> string + (string \<Rightarrow> bool)"  \<comment> \<open>\<open>regexp.Compile\<close>\<close>
  gl_printable :: "nat \<Rightarrow> bool"                      \<comment> \<open>\<open>unicode.IsPrint\<close>\<close>

definition startupPhase ::
  "go_lib \<Rightarrow> ClusterView \<Rightarrow> Server \<Rightarrow> Template \<Rightarrow> podHealth \<Rightarrow> time \<Rightarrow> Phase \<times> string \<times> string \<times> bool" where
  "startupPhase gl v s t h now =
     (let lines = DoneLines t;
          (ms, bad) = Compile (gl_compile gl) (gl_printable gl) lines;
          cid = ph_gameContainer h; st = sv_status s
      in if ms = []
         then (PhaseRunning, cid,
               (if bad = [] then []
                else ''the template's startup line is invalid ('' @ join [CHR 0x0A] bad
                     @ ''), so the server is not checked for it''), False)
         else
           (case cv_startup_seen v of
              None \<Rightarrow> (PhaseRunning, cid, [], False)
            | Some seen \<Rightarrow>
                (case ph_gameStarted h of
                   None \<Rightarrow>
                     if ss_phase st = PhaseRunning \<or> ss_phase st = PhaseStarting
                     then (ss_phase st, ss_startedContainer st, ss_message st, ss_startupMissed st)
                     else (PhaseStarting, [], [], ss_startupMissed st)
                 | Some started \<Rightarrow>
                     if cid = []
                     then (if ss_phase st = PhaseRunning \<or> ss_phase st = PhaseStarting
                           then (ss_phase st, ss_startedContainer st, ss_message st, ss_startupMissed st)
                           else (PhaseStarting, [], [], ss_startupMissed st))
                     else if ss_startedContainer st = cid \<and> \<not> ss_startupMissed st
                     then (PhaseRunning, cid, [], False)
                     else if ss_startedContainer st = [] \<and> ss_phase st = PhaseRunning
                     then (PhaseRunning, cid, [], False)
                     else
                       (let deadline = started + startupLimit
                        in if seen (ph_gamePod h) cid deadline then (PhaseRunning, cid, [], False)
                           else if deadline \<le> now
                           then (PhaseRunning, cid, ''the console never showed '' @ quoteLines (gl_printable gl) lines
                                   @ '' within '' @ minutes startupLimit
                                   @ '' of starting; the template's startup line may be out of date'', True)
                           else if ss_startupMissed st
                           then (PhaseRunning, cid, ''the console did not show '' @ quoteLines (gl_printable gl) lines
                                   @ '' when this server last started, so it is not waited for this time; the template's startup line may be out of date'', True)
                           else (PhaseStarting, [], ''waiting for '' @ quoteLines (gl_printable gl) lines
                                   @ '' in the console, for up to '' @ minutes startupLimit, False)))))"

subsection \<open>Endpoints\<close>

definition serverPorts :: "Server \<Rightarrow> Template \<Rightarrow> PortSpec list" where
  "serverPorts s t = (if sv_ports s \<noteq> [] then sv_ports s else tp_ports t)"

definition protocol :: "string \<Rightarrow> string" where
  "protocol p = (if p = ''UDP'' then ''UDP'' else ''TCP'')"

definition JoinHostPort :: "string \<Rightarrow> string \<Rightarrow> string" where
  \<comment> \<open>\<open>net.JoinHostPort\<close>\<close>
  "JoinHostPort host port =
     (if CHR '':'' \<in> set host then ''['' @ host @ '']:'' @ port else host @ '':'' @ port)"

definition PublicPortKey :: "int32 \<Rightarrow> string \<Rightarrow> string" where
  \<comment> \<open>no rune outside ASCII has U, D or P for its upper case\<close>
  "PublicPortKey port proto =
     show_int port @ ''/'' @ (if map lower_ascii proto = ''udp'' then ''UDP'' else ''TCP'')"

definition publicEndpoint :: "PublicAddress option \<Rightarrow> PortSpec \<Rightarrow> string \<Rightarrow> int32 \<Rightarrow> string" where
  "publicEndpoint pub p host port =
     (case pub of
        None \<Rightarrow> JoinHostPort host (show_int port)
      | Some a \<Rightarrow>
          JoinHostPort (if pa_host a \<noteq> [] then pa_host a else host)
            (show_int (case pa_ports a (PublicPortKey (ps_port p) (ps_protocol p)) of
                         Some pp \<Rightarrow> if pp > 0 then pp else port | None \<Rightarrow> port)))"

definition node_addresses_of :: "string \<Rightarrow> Node list \<Rightarrow> string list" where
  "node_addresses_of kind ns = map snd (filter (\<lambda>(k, _). k = kind) (concat (map nd_addresses ns)))"

definition NodeAddress :: "Node list \<Rightarrow> string" where
  \<comment> \<open>the first external address that is not empty, else the first internal one that is not\<close>
  "NodeAddress ns =
     (case find (\<lambda>a. a \<noteq> []) (node_addresses_of ''ExternalIP'' ns) of
        Some a \<Rightarrow> a
      | None \<Rightarrow> (case find (\<lambda>a. a \<noteq> []) (node_addresses_of ''InternalIP'' ns) of Some a \<Rightarrow> a | None \<Rightarrow> []))"

definition firstNodeAddress :: "ClusterView \<Rightarrow> string" where
  "firstNodeAddress v = (case cv_nodes v of None \<Rightarrow> [] | Some ns \<Rightarrow> NodeAddress ns)"

definition dataNodeAddress :: "ClusterView \<Rightarrow> string" where
  "dataNodeAddress v =
     (case cv_data_pods v of
        None \<Rightarrow> []
      | Some ps \<Rightarrow>
          (case find (\<lambda>p. po_node p \<noteq> [] \<and> \<not> po_deleting p) ps of
             None \<Rightarrow> []
           | Some p \<Rightarrow> (case cv_node v (po_node p) of None \<Rightarrow> [] | Some n \<Rightarrow> NodeAddress [n])))"

definition localTraffic :: "Server \<Rightarrow> bool" where
  "localTraffic s = (External (sv_expose s) \<and> LocalTraffic (sv_expose s))"

definition endpointHost :: "string \<Rightarrow> ClusterView \<Rightarrow> Server \<Rightarrow> string" where
  \<comment> \<open>\<open>configured\<close> is the cluster's or the panel's hostname\<close>
  "endpointHost configured v s =
     (if configured \<noteq> [] then configured
      else if localTraffic s \<and> dataNodeAddress v \<noteq> [] then dataNodeAddress v
      else firstNodeAddress v)"

definition loadBalancerAddress :: "ClusterView \<Rightarrow> string" where
  "loadBalancerAddress v =
     (case cv_ingress v of
        None \<Rightarrow> []
      | Some ings \<Rightarrow>
          (case find (\<lambda>(ip, hn). ip \<noteq> [] \<or> hn \<noteq> []) ings of
             None \<Rightarrow> [] | Some (ip, hn) \<Rightarrow> if ip \<noteq> [] then ip else hn))"

type_synonym endpoints = "string list \<times> string \<times> PortEndpoint list"

definition add_endpoint :: "Server \<Rightarrow> nat \<Rightarrow> PortSpec \<Rightarrow> string \<Rightarrow> int32 \<Rightarrow> endpoints \<Rightarrow> endpoints" where
  "add_endpoint s n p host port acc =
     (let (eps, addr, pes) = acc; ep = publicEndpoint (ex_public (sv_expose s)) p host port;
          primary = (ps_primary p \<or> n = 1)
      in (eps @ [ep], (if addr = [] \<and> primary then ep else addr),
          pes @ [\<lparr>pe_port = ps_port p, pe_protocol = protocol (ps_protocol p), pe_address = ep, pe_primary = primary\<rparr>]))"

definition endpointsFor :: "string \<Rightarrow> ClusterView \<Rightarrow> Server \<Rightarrow> Template \<Rightarrow> endpoints" where
  "endpointsFor configured v s t =
     (let prts = serverPorts s t; add = add_endpoint s (length prts);
          (eps, addr, pes) =
            (case ServiceType (sv_expose s) of
               ExposeNodePort \<Rightarrow>
                 (let host0 = endpointHost configured v s; host = (if host0 = [] then ''<node-ip>'' else host0)
                  in fold (\<lambda>p. if ps_nodePort p = 0 then id else add p host (ps_nodePort p)) prts ([], [], []))
             | ExposeLoadBalancer \<Rightarrow>
                 (let host = loadBalancerAddress v
                  in if host = [] \<and> (case ex_public (sv_expose s) of None \<Rightarrow> True | Some a \<Rightarrow> pa_host a = [])
                     then ([], [], [])
                     else fold (\<lambda>p. add p host (ps_port p)) prts ([], [], []))
             | _ \<Rightarrow>
                 fold (\<lambda>p. add p (workloadName @ ''.'' @ sv_namespace s @ ''.svc.cluster.local'') (ps_port p))
                   prts ([], [], []))
      in (eps, (if addr = [] \<and> eps \<noteq> [] then hd eps else addr), pes))"

subsection \<open>Events\<close>

definition EventServerRunning :: string where "EventServerRunning = ''server.running''"
definition EventServerCrashed :: string where "EventServerCrashed = ''server.crashed''"
definition EventServerRestarted :: string where "EventServerRestarted = ''server.restarted''"
definition EventServerOOMKilled :: string where "EventServerOOMKilled = ''server.oomkilled''"
definition EventServerInstallFailed :: string where "EventServerInstallFailed = ''server.install-failed''"
definition EventServerStopped :: string where "EventServerStopped = ''server.stopped''"
definition EventServerHibernated :: string where "EventServerHibernated = ''server.hibernated''"

type_synonym notice = "string \<times> string"  \<comment> \<open>an event's type and message\<close>

definition emitTransition :: "Server \<Rightarrow> Phase \<Rightarrow> Status \<Rightarrow> notice list" where
  "emitTransition s old st =
     (let ev = (\<lambda>ty msg. [(ty, sv_slug s @ '': '' @ msg)])
      in if old = ss_phase st then []
         else (case ss_phase st of
                 PhaseRunning \<Rightarrow> ev EventServerRunning ''is up and running''
               | PhaseError \<Rightarrow> ev EventServerInstallFailed (ss_message st)
               | PhaseCrashed \<Rightarrow>
                   ev EventServerCrashed
                     ((if ss_crashCount st > 0 then ''crashed ('' @ show_int (ss_crashCount st) @ '' restarts)'' else ''crashed'')
                      @ (if ss_message st \<noteq> [] then '': '' @ ss_message st else []))
               | PhaseHibernated \<Rightarrow> ev EventServerHibernated ''hibernated after inactivity''
               | PhaseStopped \<Rightarrow>
                   if old \<in> {PhaseRunning, PhaseStarting, PhaseStopping, PhaseCrashed, PhaseHibernated}
                   then ev EventServerStopped ''is stopped'' else []
               | _ \<Rightarrow> []))"

definition emitRestartEvents :: "Server \<Rightarrow> Status \<Rightarrow> podHealth \<Rightarrow> int \<Rightarrow> notice list" where
  "emitRestartEvents s old h newCount =
     (let ev = (\<lambda>ty msg. [(ty, sv_slug s @ '': '' @ msg)]);
          increased = (newCount > ss_crashCount old);
          reset = (newCount < ss_crashCount old \<and> newCount > 0)
      in if \<not> increased \<and> \<not> reset then []
         else if ph_oomKilled h
         then ev EventServerOOMKilled (''ran out of memory (OOMKilled) and was restarted'' @ dash @ show_int newCount @ '' restart(s) so far'')
         else if ph_crashloop h then []
         else if ph_exitCode h \<noteq> 0
         then ev EventServerRestarted (''container exited (code '' @ show_int (ph_exitCode h) @ '') and was restarted''
                @ dash @ show_int newCount @ '' so far'')
         else ev EventServerRestarted (''container restarted'' @ dash @ show_int newCount @ '' so far''))"

subsection \<open>The status\<close>

definition joinNotice :: "string \<Rightarrow> string \<Rightarrow> string" where
  "joinNotice msg notice = (if notice = [] then msg else if msg = [] then notice else msg @ ''; '' @ notice)"

definition running_status ::
  "go_lib \<Rightarrow> ClusterView \<Rightarrow> Server \<Rightarrow> Template \<Rightarrow> time \<Rightarrow> Status \<Rightarrow> Status \<times> notice list" where
  \<comment> \<open>the default branch: the server should run\<close>
  "running_status gl v s t now st0 =
     (let h = inspectPods v; st = st0\<lparr>ss_crashCount := ph_restarts h\<rparr>;
          st' = (if ph_installFailed h
                 then st\<lparr>ss_phase := PhaseError, ss_message := installFailureMessage h\<rparr>
                 else if deploymentReady (cv_deployment v 0)
                 then (let (phase, cid, msg, missed) = startupPhase gl v s t h now;
                           st1 = st\<lparr>ss_phase := phase, ss_startedContainer := cid, ss_message := msg, ss_startupMissed := missed\<rparr>
                       in if deploymentCurrent (cv_deployment v 1)
                          then st1\<lparr>ss_installedGeneration := sv_install_generation s\<rparr> else st1)
                 else if ph_crashloop h then st\<lparr>ss_phase := PhaseCrashed, ss_message := ph_msg h\<rparr>
                 else if ph_installing h then st\<lparr>ss_phase := PhaseInstalling, ss_message := ''running '' @ ph_installStep h\<rparr>
                 else st\<lparr>ss_phase := PhaseStarting, ss_message := placementProblem v (ph_unscheduled h)\<rparr>)
      in (st', emitRestartEvents s (sv_status s) h (ss_crashCount st')))"

definition base_status ::
  "go_lib \<Rightarrow> string \<Rightarrow> ClusterView \<Rightarrow> Server \<Rightarrow> Template \<Rightarrow> time \<Rightarrow> Status \<times> notice list" where
  \<comment> \<open>up to the end of the switch\<close>
  "base_status gl configured v s t now =
     (let (eps, addr, pes) = endpointsFor configured v s t;
          st = \<lparr>ss_phase = PhaseUnset, ss_endpoints = eps, ss_address = addr, ss_portEndpoints = pes,
                ss_message = [], ss_crashCount = 0, ss_diskUsed = 0,
                ss_installedGeneration = ss_installedGeneration (sv_status s), ss_startedContainer = [],
                ss_startupMissed = ss_startupMissed (sv_status s)\<rparr>
      in if sv_desired_state s = StateSuspended then (st\<lparr>ss_phase := PhaseSuspended\<rparr>, [])
         else if sv_desired_state s = StateStopped
         then (st\<lparr>ss_phase := PhaseStopped, ss_message := placementProblem v []\<rparr>, [])
         else if sv_hibernated s
         then (st\<lparr>ss_phase := PhaseHibernated, ss_message := placementProblem v []\<rparr>, [])
         else if sv_restart_requested_at s \<noteq> None
         then (st\<lparr>ss_phase := PhaseStopping,
                  ss_message := ''restarting: the game is stopped first, and starts again once it is down''\<rparr>, [])
         else running_status gl v s t now st)"

definition new_status ::
  "go_lib \<Rightarrow> string \<Rightarrow> string \<Rightarrow> ClusterView \<Rightarrow> Server \<Rightarrow> Template \<Rightarrow> time \<Rightarrow> string \<Rightarrow> Status \<times> notice list" where
  \<comment> \<open>what \<open>writeStatus\<close> writes, and the events it adds; \<open>img\<close> is \<open>ActivatorImage\<close>\<close>
  "new_status gl configured img v s t now notice =
     (let (st1, evs) = base_status gl configured v s t now;
          st2 = (if sv_sftp_enabled s \<and> img = []
                 then st1\<lparr>ss_message := joinNotice (ss_message st1)
                        ''SFTP is enabled but no system image is configured (set QUETZAL_IMAGE); the SFTP sidecar will not start''\<rparr>
                 else st1);
          st3 = st2\<lparr>ss_message := joinNotice (ss_message st2) notice\<rparr>
      in (st3, evs @ emitTransition s (ss_phase (sv_status s)) st3))"

definition UpdateServerStatus :: "time \<Rightarrow> row_id \<Rightarrow> Status \<Rightarrow> db \<Rightarrow> db" where
  "UpdateServerStatus clk i st d = update_server clk i (sv_status_update (\<lambda>_. st)) d"

section \<open>What the status says\<close>

lemma startupPhase_phase: "fst (startupPhase gl v s t h now) = PhaseRunning \<or> fst (startupPhase gl v s t h now) = PhaseStarting"
  by (simp add: startupPhase_def Let_def case_prod_unfold split: option.splits)

definition wanted_up :: "Server \<Rightarrow> bool" where
  "wanted_up s \<longleftrightarrow> sv_desired_state s = StateRunning \<and> \<not> sv_hibernated s \<and> sv_restart_requested_at s = None"

lemma running_phase:
  "ss_phase (fst (running_status gl v s t now st0)) =
     (if ph_installFailed (inspectPods v) then PhaseError
      else if deploymentReady (cv_deployment v 0) then fst (startupPhase gl v s t (inspectPods v) now)
      else if ph_crashloop (inspectPods v) then PhaseCrashed
      else if ph_installing (inspectPods v) then PhaseInstalling
      else PhaseStarting)"
  by (simp add: running_status_def Let_def case_prod_unfold)

lemma new_status_base:
  "ss_phase (fst (new_status gl c img v s t now n)) = ss_phase (fst (base_status gl c v s t now))"
  "ss_startedContainer (fst (new_status gl c img v s t now n)) = ss_startedContainer (fst (base_status gl c v s t now))"
  "snd (new_status gl c img v s t now n) = snd (base_status gl c v s t now)
     @ emitTransition s (ss_phase (sv_status s)) (fst (new_status gl c img v s t now n))"
  by (simp_all add: new_status_def Let_def case_prod_unfold)

lemma new_status_phase:
  "ss_phase (fst (new_status gl c img v s t now n)) =
     (if sv_desired_state s = StateSuspended then PhaseSuspended
      else if sv_desired_state s = StateStopped then PhaseStopped
      else if sv_hibernated s then PhaseHibernated
      else if sv_restart_requested_at s \<noteq> None then PhaseStopping
      else if ph_installFailed (inspectPods v) then PhaseError
      else if deploymentReady (cv_deployment v 0) then fst (startupPhase gl v s t (inspectPods v) now)
      else if ph_crashloop (inspectPods v) then PhaseCrashed
      else if ph_installing (inspectPods v) then PhaseInstalling
      else PhaseStarting)"
  by (simp add: new_status_base base_status_def Let_def case_prod_unfold running_phase)

text \<open>the phase shown is the state the server is meant to be in when it is not meant to be up; when it is,
  a failing install or crashing game is never hidden behind another phase, and Running is only said of
  a server with a ready pod.\<close>

theorem status_tells_the_state:
  "let st = fst (new_status gl c img v s t now n); h = inspectPods v; ready = deploymentReady (cv_deployment v 0) in
     (ss_phase st = PhaseSuspended \<longleftrightarrow> sv_desired_state s = StateSuspended)
   \<and> (ss_phase st = PhaseStopped \<longleftrightarrow> sv_desired_state s = StateStopped)
   \<and> (ss_phase st = PhaseHibernated \<longleftrightarrow> sv_desired_state s = StateRunning \<and> sv_hibernated s)
   \<and> (ss_phase st = PhaseError \<longleftrightarrow> wanted_up s \<and> ph_installFailed h)
   \<and> (ss_phase st = PhaseCrashed \<longleftrightarrow> wanted_up s \<and> \<not> ph_installFailed h \<and> \<not> ready \<and> ph_crashloop h)
   \<and> (ss_phase st = PhaseRunning \<longrightarrow> wanted_up s \<and> ready \<and> \<not> ph_installFailed h)"
  using startupPhase_phase [of gl v s t "inspectPods v" now]
  by (cases "sv_desired_state s") (auto simp: Let_def new_status_phase wanted_up_def)

section \<open>A start is announced once\<close>

lemma started_stays_running:
  assumes "ss_phase (sv_status s) = PhaseRunning" "ss_startedContainer (sv_status s) = cid" "cid \<noteq> []"
    and "ph_gameContainer h = cid" "ph_gameStarted h = Some since"
  shows "fst (startupPhase gl v s t h now) = PhaseRunning"
  using assms by (auto simp: startupPhase_def Let_def case_prod_unfold split: option.splits)

lemma running_says_its_container:
  assumes "fst (startupPhase gl v s t h now) = PhaseRunning" "ph_gameContainer h \<noteq> []" "ph_gameStarted h = Some since"
  shows "fst (snd (startupPhase gl v s t h now)) = ph_gameContainer h"
  using assms by (auto simp: startupPhase_def Let_def case_prod_unfold split: option.splits if_splits)

definition up_and_ready :: "string \<Rightarrow> ClusterView \<Rightarrow> bool" where
  "up_and_ready cid v \<longleftrightarrow> deploymentReady (cv_deployment v 0) \<and> \<not> ph_installFailed (inspectPods v)
     \<and> ph_gameContainer (inspectPods v) = cid \<and> ph_gameStarted (inspectPods v) \<noteq> None"

lemma ready_pass:
  assumes "wanted_up s" "up_and_ready cid v"
  shows "ss_phase (fst (new_status gl c img v s t now n)) = fst (startupPhase gl v s t (inspectPods v) now)"
    and "ss_startedContainer (fst (new_status gl c img v s t now n)) = fst (snd (startupPhase gl v s t (inspectPods v) now))"
  using assms
  by (simp_all add: wanted_up_def up_and_ready_def new_status_base base_status_def running_status_def Let_def case_prod_unfold)

primrec status_run ::
  "go_lib \<Rightarrow> string \<Rightarrow> string \<Rightarrow> Template \<Rightarrow> (ClusterView \<times> time \<times> string) list \<Rightarrow> Server \<Rightarrow> (Status \<times> notice list) list" where
  \<comment> \<open>one pass after the other, with nothing else about the server changing\<close>
  "status_run gl c img t [] s = []"
| "status_run gl c img t (p # ps) s =
     (let r = new_status gl c img (fst p) s t (fst (snd p)) (snd (snd p))
      in r # status_run gl c img t ps (s\<lparr>sv_status := fst r\<rparr>))"

definition running_events :: "(Status \<times> notice list) list \<Rightarrow> nat" where
  "running_events rs = length (filter (\<lambda>e. fst e = EventServerRunning) (concat (map snd rs)))"

lemma event_types [simp]:
  "EventServerOOMKilled \<noteq> EventServerRunning" "EventServerRestarted \<noteq> EventServerRunning"
  "EventServerInstallFailed \<noteq> EventServerRunning" "EventServerCrashed \<noteq> EventServerRunning"
  "EventServerStopped \<noteq> EventServerRunning" "EventServerHibernated \<noteq> EventServerRunning"
  by (simp_all add: EventServerOOMKilled_def EventServerRestarted_def EventServerInstallFailed_def
      EventServerCrashed_def EventServerStopped_def EventServerHibernated_def EventServerRunning_def)

lemma restart_events_not_running: "filter (\<lambda>e. fst e = EventServerRunning) (emitRestartEvents s old h k) = []"
  by (simp add: emitRestartEvents_def Let_def)

lemma running_status_events: "filter (\<lambda>e. fst e = EventServerRunning) (snd (running_status gl v s t now st)) = []"
  by (simp add: running_status_def Let_def restart_events_not_running)

lemma base_events: "filter (\<lambda>e. fst e = EventServerRunning) (snd (base_status gl c v s t now)) = []"
  by (simp add: base_status_def Let_def case_prod_unfold running_status_events)

lemma transition_running:
  "length (filter (\<lambda>e. fst e = EventServerRunning) (emitTransition s old st)) =
     (if old \<noteq> PhaseRunning \<and> ss_phase st = PhaseRunning then 1 else 0)"
  by (simp add: emitTransition_def Let_def split: Phase.splits)

lemma pass_events:
  "length (filter (\<lambda>e. fst e = EventServerRunning) (snd (new_status gl c img v s t now n))) =
     (if ss_phase (sv_status s) \<noteq> PhaseRunning \<and> ss_phase (fst (new_status gl c img v s t now n)) = PhaseRunning then 1 else 0)"
  by (simp add: new_status_base(3) base_events transition_running)

lemma announced_no_more:
  assumes "cid \<noteq> []"
  shows "wanted_up s \<Longrightarrow> \<forall>p \<in> set ps. up_and_ready cid (fst p) \<Longrightarrow> ss_phase (sv_status s) = PhaseRunning \<Longrightarrow>
    ss_startedContainer (sv_status s) = cid \<Longrightarrow> running_events (status_run gl c img t ps s) = 0"
proof (induction ps arbitrary: s)
  case (Cons p ps)
  let ?r = "new_status gl c img (fst p) s t (fst (snd p)) (snd (snd p))"
  have up: "up_and_ready cid (fst p)" using Cons.prems(2) by simp
  obtain since where h: "ph_gameContainer (inspectPods (fst p)) = cid" "ph_gameStarted (inspectPods (fst p)) = Some since"
    using up by (auto simp: up_and_ready_def)
  note running = started_stays_running [OF Cons.prems(3,4) assms h]
  have "ss_phase (fst ?r) = PhaseRunning" "ss_startedContainer (fst ?r) = cid"
    using ready_pass [OF Cons.prems(1) up] running running_says_its_container [OF running] assms h by simp_all
  with Cons show ?case
    by (simp add: running_events_def Let_def pass_events wanted_up_def)
qed (simp add: running_events_def)

text \<open>While a game's container stays the same and its pod ready, however often the status is written and
  whatever the console is found to show, the panel announces it as running at most once.\<close>

theorem start_announced_once:
  assumes "wanted_up s" and "cid \<noteq> []" and "\<forall>p \<in> set ps. up_and_ready cid (fst p)"
  shows "running_events (status_run gl c img t ps s) \<le> 1"
  using assms(1,3)
proof (induction ps arbitrary: s)
  case (Cons p ps)
  let ?r = "new_status gl c img (fst p) s t (fst (snd p)) (snd (snd p))"
  have up: "up_and_ready cid (fst p)" and s': "wanted_up (s\<lparr>sv_status := fst ?r\<rparr>)"
    using Cons.prems by (simp_all add: wanted_up_def)
  show ?case
  proof (cases "ss_phase (fst ?r) = PhaseRunning")
    case True
    then have "ss_startedContainer (fst ?r) = cid"
      using ready_pass [OF Cons.prems(1) up] running_says_its_container up assms(2)
      by (auto simp: up_and_ready_def)
    with announced_no_more [OF assms(2) s', of ps gl c img t] True Cons.prems(2) show ?thesis
      by (simp add: running_events_def Let_def pass_events)
  next
    case False
    with Cons.IH [OF s'] Cons.prems(2) show ?thesis
      by (simp add: running_events_def Let_def pass_events)
  qed
qed (simp add: running_events_def)

section \<open>Witnesses\<close>

definition game_container :: ContainerStatus where
  "game_container = \<lparr>ct_name = workloadName, ct_id = ''c1'', ct_waiting = None, ct_running = Some 10,
     ct_terminated = None, ct_last = None, ct_restarts = 0\<rparr>"

definition game_pod :: Pod where
  "game_pod = \<lparr>po_name = ''p'', po_node = ''n'', po_deleting = False, po_phase = PodRunning, po_conditions = [],
     po_containers = [game_container], po_inits = []\<rparr>"

definition ready_view :: ClusterView where
  "ready_view = \<lparr>cv_pods = Some [game_pod], cv_data_pods = Some [], cv_nodes = Some [], cv_node = Map.empty,
     cv_deployment = (\<lambda>_. Some \<lparr>dp_generation = 1, dp_observed = 1, dp_replicas = Some 1, dp_updated = 1, dp_ready = 1\<rparr>),
     cv_ingress = None, cv_log_tail = None, cv_startup_seen = Some (\<lambda>_ _ _. True)\<rparr>"

definition plain_lib :: go_lib where "plain_lib = \<lparr>gl_compile = (\<lambda>_. Inl []), gl_printable = (\<lambda>_. True)\<rparr>"

definition sample_template :: Template where
  "sample_template = \<lparr>tp_id = 1, tp_version = 1, tp_startup = [], tp_done = [''Done''], tp_doneRegex = [],
     tp_wakeProtocol = [], tp_stopCommand = ''stop'', tp_stopGraceSeconds = 30, tp_features = [],
     tp_reinstallKeep = [], tp_ports = []\<rparr>"

lemma ready_health:
  "inspectPods ready_view = no_health\<lparr>ph_gamePod := ''p'', ph_gameContainer := ''c1'', ph_gameStarted := Some 10\<rparr>"
  by (simp add: inspectPods_def ready_view_def inspect_pod_def game_pod_def inspect_container_def game_container_def
      Unschedulable_def PodCondition_def noteInit_def note_exit_def no_health_def Let_def)

lemma ready_view_up: "up_and_ready ''c1'' ready_view"
  by (simp add: up_and_ready_def ready_health no_health_def deploymentReady_def) (simp add: ready_view_def)

theorem start_announced_once_witness:
  "running_events (status_run plain_lib [] [] sample_template [(ready_view, 20, []), (ready_view, 30, [])] sample_server) \<le> 1"
  using start_announced_once [of sample_server "''c1''" "[(ready_view, 20, []), (ready_view, 30, [])]"] ready_view_up
  by (simp add: wanted_up_def sample_server_def)

theorem status_tells_the_state_witness:
  "ss_phase (fst (new_status plain_lib [] [] ready_view (sample_server\<lparr>sv_hibernated := True\<rparr>) sample_template 20 [])) = PhaseHibernated"
  using status_tells_the_state [of plain_lib "[]" "[]" ready_view "sample_server\<lparr>sv_hibernated := True\<rparr>" sample_template 20 "[]"]
  by (simp add: Let_def sample_server_def)

end
