(* ===== verification/Reconcile.thy ===== *)
theory Reconcile imports Pod_Status Backups Node_Ports Access begin

text \<open>
  A pass of the reconciler over one server (\<open>internal/reconciler/reconciler.go\<close>): the order in
  which a server's objects are put in place, and what a step that fails stops; the two halves of a
  restart, the stop command before a scale-down or a replaced pod, the one-shot wipe of a
  reinstall, the image pins, the SFTP keys and the node ports of its Services. A step is the
  call that puts an object in place; what the API server answers to it is an argument. The pass
  carries the server's row as it was read, changed where the code changes it, beside the
  database.
\<close>

subsection \<open>What a pass puts in place\<close>

datatype object =
    Namespace_of | Game_policy | Activator_policy | Jobs_policy | Resource_quota
  | Sftp_host_key | Sftp_keys "string list" | Sftp_service int32
  | Data_volume | Secret_env
  | Data_manager nat           \<comment> \<open>its replicas\<close>
  | Passwd_map
  | Game Server                \<comment> \<open>the Deployment made from this row\<close>
  | Internal_service | Activator bool  \<comment> \<open>in proxy mode\<close>
  | Public_service bool "int32 list"   \<comment> \<open>the activator in front, the node ports\<close>

datatype action = Put object | Take_down object | Stop_command string

datatype apply_error = Answered string | Unreachable  \<comment> \<open>the API server's message, or another error\<close>

type_synonym step_error = "string \<times> apply_error"

record pass =
  ps_log :: "action list"
  ps_srv :: Server
  ps_db :: db

type_synonym pass_result = "step_error option \<times> pass"

definition andthen :: "pass_result \<Rightarrow> (pass \<Rightarrow> pass_result) \<Rightarrow> pass_result" where
  "andthen r f = (case r of (None, p) \<Rightarrow> f p | (Some e, p) \<Rightarrow> (Some e, p))"

text \<open>What a pass is answered: by the API server, the kubelet, a registry and chance.\<close>

record pass_env =
  pe_answer :: "object \<Rightarrow> apply_error option"
  pe_take_down :: "object \<Rightarrow> apply_error option"
  pe_service :: "nat \<Rightarrow> int32 list \<Rightarrow> api_error option"  \<comment> \<open>to each apply of the public Service\<close>
  pe_sftp_service :: "nat \<Rightarrow> int32 list \<Rightarrow> api_error option"
  pe_message :: "api_error \<Rightarrow> apply_error"  \<comment> \<open>what such a refusal says\<close>
  pe_secrets :: "string list option"     \<comment> \<open>the names of the opened secret variables\<close>
  pe_pods :: "nat option"                \<comment> \<open>the game's pods that are left\<close>
  pe_up :: bool                          \<comment> \<open>\<open>deploymentRunning\<close>, before the stop command\<close>
  pe_running :: "bool option"            \<comment> \<open>the same, before the image pins\<close>
  pe_rolls :: "Server \<Rightarrow> bool option"    \<comment> \<open>whether that Deployment replaces a running pod\<close>
  pe_now :: time
  pe_clk :: time
  pe_on_stop :: bool                     \<comment> \<open>whether \<open>OnStop\<close> is set\<close>
  pe_image :: string                     \<comment> \<open>\<open>ActivatorImage\<close>\<close>
  pe_wake_url :: string
  pe_resolve :: "(string \<Rightarrow> string option) option"
  pe_install_image :: string
  pe_egg_user :: bool                    \<comment> \<open>\<open>runsAsEggUser\<close>\<close>
  pe_line :: "string \<Rightarrow> string \<Rightarrow> string" \<comment> \<open>\<open>authkeys.Line\<close>, of one account\<close>
  pe_rnd :: "nat \<Rightarrow> nat"
  pe_ids :: move_ids
  pe_lo :: int32                         \<comment> \<open>\<open>NodePortMin\<close>\<close>
  pe_hi :: int32

definition put :: "pass_env \<Rightarrow> string \<Rightarrow> object \<Rightarrow> pass \<Rightarrow> pass_result" where
  "put e step obj p =
     (case pe_answer e obj of
        None \<Rightarrow> (None, p\<lparr>ps_log := ps_log p @ [Put obj]\<rparr>)
      | Some err \<Rightarrow> (Some (step, err), p))"

definition take_down :: "pass_env \<Rightarrow> string \<Rightarrow> object \<Rightarrow> pass \<Rightarrow> pass_result" where
  "take_down e step obj p =
     (case pe_take_down e obj of
        None \<Rightarrow> (None, p\<lparr>ps_log := ps_log p @ [Take_down obj]\<rparr>)
      | Some err \<Rightarrow> (Some (step, err), p))"

subsection \<open>Guards\<close>

definition NamespaceFor :: "string \<Rightarrow> string" where
  "NamespaceFor slug = ''quetzal-srv-'' @ slug"

definition isConsoleStop :: "string \<Rightarrow> bool" where
  "isConsoleStop cmd = (cmd \<noteq> [] \<and> hd cmd \<noteq> CHR ''^'')"

definition needsGracefulStop :: "Server \<Rightarrow> Template \<Rightarrow> bool" where
  "needsGracefulStop s t = (Replicas s = 0 \<and> isConsoleStop (tp_stopCommand t))"

definition wipeConsumed :: "Server \<Rightarrow> bool" where
  "wipeConsumed s = (sv_install_wipe s \<and> Replicas s = 0
     \<and> ss_installedGeneration (sv_status s) \<ge> sv_install_generation s)"

definition restartLimit :: duration where "restartLimit = 5 * minute"

definition restartDone :: "pass_env \<Rightarrow> time \<Rightarrow> Template \<Rightarrow> bool" where
  "restartDone e requested t =
     (if pe_now e - requested > restartLimit + tp_stopGraceSeconds t * second then True
      else pe_pods e = Some 0)"

definition udpPorts :: "PortSpec list \<Rightarrow> PortSpec list" where
  "udpPorts ps = filter (\<lambda>p. equal_fold_udp (ps_protocol p)) ps"

definition tcpPorts :: "PortSpec list \<Rightarrow> PortSpec list" where
  "tcpPorts ps = filter (\<lambda>p. \<not> equal_fold_udp (ps_protocol p)) ps"

definition hasTCPPort :: "PortSpec list \<Rightarrow> bool" where
  "hasTCPPort ps = (tcpPorts ps \<noteq> [])"

definition proxyActive :: "pass_env \<Rightarrow> Server \<Rightarrow> Template \<Rightarrow> bool" where
  "proxyActive e s t =
     (if pe_image e = [] \<or> pe_wake_url e = [] \<or> \<not> hb_enabled (sv_hibernation s) \<or> \<not> hb_proxy (sv_hibernation s)
         \<or> sv_desired_state s \<noteq> StateRunning then False
      else serverPorts s t \<noteq> [])"

definition dropActive :: "pass_env \<Rightarrow> Server \<Rightarrow> Template \<Rightarrow> bool" where
  "dropActive e s t =
     (if pe_image e = [] \<or> pe_wake_url e = [] \<or> hb_proxy (sv_hibernation s) \<or> \<not> sv_hibernated s
         \<or> \<not> hb_wakeOnConnect (sv_hibernation s) \<or> sv_desired_state s \<noteq> StateRunning then False
      else hasTCPPort (serverPorts s t))"

subsection \<open>Image pins\<close>

definition SetServerImagePins :: "time \<Rightarrow> row_id \<Rightarrow> env_map \<Rightarrow> db \<Rightarrow> db" where
  "SetServerImagePins clk i pins d = update_server clk i (sv_image_pins_update (\<lambda>_. pins)) d"

fun resolve_pins :: "(string \<Rightarrow> string option) \<Rightarrow> env_map \<Rightarrow> string list \<Rightarrow> env_map \<Rightarrow> env_map" where
  \<comment> \<open>the loop over the images\<close>
  "resolve_pins resolve old [] pins = pins"
| "resolve_pins resolve old (ref # refs) pins =
     resolve_pins resolve old refs
       (if ref = [] \<or> CHR ''@'' \<in> set ref \<or> pins ref \<noteq> None then pins
        else (case resolve ref of
                Some d \<Rightarrow> pins(ref \<mapsto> d)
              | None \<Rightarrow>
                  (case old ref of None \<Rightarrow> pins
                   | Some d \<Rightarrow> if d = [] then pins else pins(ref \<mapsto> d))))"

definition refreshImagePins :: "pass_env \<Rightarrow> pass \<Rightarrow> pass" where
  "refreshImagePins e p =
     (let srv = ps_srv p in
      case pe_resolve e of
        None \<Rightarrow> p
      | Some resolve \<Rightarrow>
          if Replicas srv = 0 then p
          else if pe_running e \<noteq> Some False then p
          else
            (let pins = resolve_pins resolve (sv_image_pins srv) [sv_image srv, pe_install_image e] Map.empty
             in if pins = sv_image_pins srv then p
                else p\<lparr>ps_db := SetServerImagePins (pe_clk e) (sv_id srv) pins (ps_db p),
                       ps_srv := srv\<lparr>sv_image_pins := pins\<rparr>\<rparr>))"

subsection \<open>The pass\<close>

fun sftp_lines :: "(string \<Rightarrow> string \<Rightarrow> string) \<Rightarrow> db \<Rightarrow> SSHKey list \<Rightarrow> store_error + string list" where
  \<comment> \<open>the loop over the keys: each line names the account its key belongs to\<close>
  "sftp_lines line d [] = Inr []"
| "sftp_lines line d (k # ks) =
     (case GetUser (sk_user_id k) d of
        Inl e \<Rightarrow> Inl e
      | Inr u \<Rightarrow>
          (case sftp_lines line d ks of
             Inl e \<Rightarrow> Inl e
           | Inr ls \<Rightarrow> Inr (let l = line (sk_public_key k) (us_username u) in if l \<noteq> [] then l # ls else ls)))"

definition authorized_keys :: "pass_env \<Rightarrow> pass \<Rightarrow> store_error + string list" where
  "authorized_keys e p =
     (case ListAuthorizedSSHKeys (sv_id (ps_srv p)) (ps_db p) of
        Inl err \<Rightarrow> Inl err
      | Inr keys \<Rightarrow> sftp_lines (pe_line e) (ps_db p) (if sv_transfer (ps_srv p) \<noteq> None then [] else keys))"

definition sftp_service_ports :: "int32 \<Rightarrow> int32 list" where
  "sftp_service_ports np = [if np > 0 then np else 0]"

definition deleteSFTP :: "pass \<Rightarrow> pass" where
  \<comment> \<open>the errors of the two deletions are not looked at\<close>
  "deleteSFTP p =
     p\<lparr>ps_log := ps_log p @ [Take_down (Sftp_service 0), Take_down (Sftp_keys [])],
       ps_db := ReleaseNodePort (sv_id (ps_srv p)) SFTPPortName (ps_db p)\<rparr>"

definition put_sftp_service :: "pass_env \<Rightarrow> pass \<Rightarrow> pass_result" where
  "put_sftp_service e p =
     (let srv = ps_srv p
      in case AllocateNodePort (pe_rnd e) (new_id (pe_ids e)) (sv_id srv) SFTPPortName (pe_lo e) (pe_hi e) (ps_db p) of
           Inl _ \<Rightarrow> (Some (''SFTP access'', Unreachable), p)
         | Inr (np, d) \<Rightarrow>
             (let (out, (np', d'), _) =
                applyNodePortService (\<lambda>(np, d). sftp_service_ports np)
                  (\<lambda>k _ svc. pe_sftp_service e k svc)
                  (\<lambda>taken (np, d). case moveSFTPPort (pe_rnd e) (pe_ids e) (pe_clk e) (pe_lo e) (pe_hi e) taken srv d of
                     Inl err \<Rightarrow> Inl (err, (np, d)) | Inr s \<Rightarrow> Inr s)
                  (np, d);
                q = p\<lparr>ps_db := d'\<rparr>
              in case out of
                   Applied \<Rightarrow> (None, q\<lparr>ps_log := ps_log q @ [Put (Sftp_service np')]\<rparr>)
                 | Refused err \<Rightarrow> (Some (''SFTP access'', pe_message e err), q)
                 | MoveFailed err _ \<Rightarrow> (Some (''SFTP access'', pe_message e err), q)))"

definition ensureSFTP :: "pass_env \<Rightarrow> pass \<Rightarrow> pass_result" where
  "ensureSFTP e p =
     (if \<not> sv_sftp_enabled (ps_srv p) then (None, deleteSFTP p)
      else if pe_image e = [] then (None, p)
      else andthen (put e ''SFTP access'' Sftp_host_key p) (\<lambda>p.
           case authorized_keys e p of
             Inl _ \<Rightarrow> (Some (''SFTP access'', Unreachable), p)
           | Inr ls \<Rightarrow> andthen (put e ''SFTP access'' (Sftp_keys ls) p) (put_sftp_service e)))"

definition finish_restart :: "pass_env \<Rightarrow> Template \<Rightarrow> pass \<Rightarrow> pass" where
  "finish_restart e t p =
     (case sv_restart_requested_at (ps_srv p) of
        None \<Rightarrow> p
      | Some requested \<Rightarrow>
          if restartDone e requested t
          then p\<lparr>ps_db := FinishRestart (pe_clk e) (sv_id (ps_srv p)) (ps_db p),
                 ps_srv := (ps_srv p)\<lparr>sv_restart_requested_at := None\<rparr>\<rparr>
          else p)"

definition graceful_stop :: "pass_env \<Rightarrow> Template \<Rightarrow> pass \<Rightarrow> pass" where
  "graceful_stop e t p =
     (if needsGracefulStop (ps_srv p) t \<and> pe_on_stop e \<and> pe_up e
      then p\<lparr>ps_log := ps_log p @ [Stop_command (tp_stopCommand t)]\<rparr> else p)"

definition data_replicas :: "pass \<Rightarrow> nat" where
  "data_replicas p =
     (if RestoreNeedsDataVolume (sv_id (ps_srv p)) (ps_db p) \<or> sv_transfer (ps_srv p) \<noteq> None then 0 else 1)"

definition ensureDataDeployment :: "pass_env \<Rightarrow> pass \<Rightarrow> pass_result" where
  "ensureDataDeployment e p = put e ''data manager'' (Data_manager (data_replicas p)) p"

definition retire_wipe :: "pass_env \<Rightarrow> pass \<Rightarrow> pass" where
  "retire_wipe e p =
     (if wipeConsumed (ps_srv p)
      then p\<lparr>ps_db := ClearInstallWipe (pe_clk e) (sv_id (ps_srv p)) (ps_db p),
             ps_srv := (ps_srv p)\<lparr>sv_install_wipe := False, sv_install_keep := []\<rparr>\<rparr>
      else p)"

definition ensureInternalService :: "pass_env \<Rightarrow> Template \<Rightarrow> bool \<Rightarrow> pass \<Rightarrow> pass_result" where
  "ensureInternalService e t proxy p =
     (if \<not> proxy \<or> serverPorts (ps_srv p) t = [] then take_down e ''internal Service'' Internal_service p
      else put e ''internal Service'' Internal_service p)"

definition ensureActivator :: "pass_env \<Rightarrow> bool \<Rightarrow> bool \<Rightarrow> pass \<Rightarrow> pass_result" where
  "ensureActivator e proxy dropping p =
     (if \<not> proxy \<and> \<not> dropping then take_down e ''activator'' (Activator False) p
      else put e ''activator'' (Activator proxy) p)"

definition service_ports :: "Template \<Rightarrow> Server \<Rightarrow> int32 list" where
  \<comment> \<open>the node ports \<open>BuildService\<close> writes\<close>
  "service_ports t s =
     map (\<lambda>p. if ServiceType (sv_expose s) = ExposeNodePort \<and> ps_nodePort p > 0 then ps_nodePort p else 0)
       (serverPorts s t)"

definition ensureService :: "pass_env \<Rightarrow> Template \<Rightarrow> bool \<Rightarrow> pass \<Rightarrow> pass_result" where
  "ensureService e t activator p =
     (let (out, (srv, d), _) =
        applyNodePortService (\<lambda>(s, d). service_ports t s) (\<lambda>k _ svc. pe_service e k svc)
          (moveGamePort (pe_rnd e) (pe_ids e) (pe_clk e) (pe_lo e) (pe_hi e)) (ps_srv p, ps_db p);
        q = p\<lparr>ps_srv := srv, ps_db := d\<rparr>
      in case out of
           Applied \<Rightarrow> (None, q\<lparr>ps_log := ps_log q @ [Put (Public_service activator (service_ports t srv))]\<rparr>)
         | Refused err \<Rightarrow> (Some (''Service'', pe_message e err), q)
         | MoveFailed err _ \<Rightarrow> (Some (''Service'', pe_message e err), q))"

definition ensure_front :: "pass_env \<Rightarrow> Template \<Rightarrow> pass \<Rightarrow> pass_result" where
  \<comment> \<open>what fronts the game, at the end of the pass\<close>
  "ensure_front e t p =
     (let proxy = proxyActive e (ps_srv p) t; dropping = dropActive e (ps_srv p) t
      in andthen (ensureInternalService e t proxy p) (\<lambda>p.
         andthen (ensureActivator e proxy dropping p) (\<lambda>p.
         if serverPorts (ps_srv p) t \<noteq> [] then ensureService e t (proxy \<or> dropping) p else (None, p))))"

definition ensureDeployment :: "pass_env \<Rightarrow> Template \<Rightarrow> pass \<Rightarrow> pass_result" where
  \<comment> \<open>\<open>pe_rolls\<close> has no answer when the live Deployment cannot be read\<close>
  "ensureDeployment e t p =
     (case pe_rolls e (ps_srv p) of
        None \<Rightarrow> (Some (''game Deployment'', Unreachable), p)
      | Some r \<Rightarrow>
          (let q = (if r \<and> pe_on_stop e \<and> isConsoleStop (tp_stopCommand t)
                    then p\<lparr>ps_log := ps_log p @ [Stop_command (tp_stopCommand t)]\<rparr> else p)
           in put e ''game Deployment'' (Game (ps_srv q)) q))"

definition ensure_game :: "pass_env \<Rightarrow> Template \<Rightarrow> pass \<Rightarrow> pass_result" where
  \<comment> \<open>from the restart to the game's Deployment\<close>
  "ensure_game e t p0 =
     (let p1 = graceful_stop e t (finish_restart e t p0)
      in andthen (ensureDataDeployment e p1) (\<lambda>p2.
         let p3 = retire_wipe e p2
         in andthen (if pe_egg_user e then put e ''passwd file'' Passwd_map p3 else (None, p3)) (\<lambda>p4.
            ensureDeployment e t (refreshImagePins e p4))))"

definition fence_in :: "pass_env \<Rightarrow> pass \<Rightarrow> pass_result" where
  \<comment> \<open>the namespace, its policies and its quota\<close>
  "fence_in e p =
     andthen (put e ''namespace'' Namespace_of p) (\<lambda>p.
     andthen (put e ''network policy'' Game_policy p) (\<lambda>p.
     andthen (put e ''network policy'' Activator_policy p) (\<lambda>p.
     andthen (put e ''network policy'' Jobs_policy p)
       (put e ''resource quota'' Resource_quota))))"

definition prepare :: "pass_env \<Rightarrow> pass \<Rightarrow> pass_result" where
  \<comment> \<open>what the game's pod needs: SFTP, the volume and the secret variables\<close>
  "prepare e p =
     andthen (ensureSFTP e p) (\<lambda>p.
     andthen (put e ''data volume'' Data_volume p) (\<lambda>p.
     case pe_secrets e of
       None \<Rightarrow> (Some (''secret variables'', Unreachable), p)
     | Some keys \<Rightarrow> if keys = [] then (None, p) else put e ''secret variables'' Secret_env p))"

definition ensureObjects :: "pass_env \<Rightarrow> Template \<Rightarrow> pass \<Rightarrow> pass_result" where
  "ensureObjects e t p =
     andthen (fence_in e p) (\<lambda>p.
     andthen (prepare e p) (\<lambda>p.
     andthen (ensure_game e t p) (ensure_front e t)))"

definition failureNotice :: "step_error \<Rightarrow> string" where
  "failureNotice err =
     (case snd err of
        Answered msg \<Rightarrow>
          if msg \<noteq> [] then ''Kubernetes refused this server's '' @ fst err @ '': '' @ msg
          else ''this server's '' @ fst err @ '' could not be put in place; the controller retries and logs why''
      | Unreachable \<Rightarrow> ''this server's '' @ fst err @ '' could not be put in place; the controller retries and logs why'')"

definition ReconcileServer ::
  "pass_env \<Rightarrow> go_lib \<Rightarrow> string \<Rightarrow> ClusterView \<Rightarrow> Template \<Rightarrow> string \<Rightarrow> Server \<Rightarrow> db
   \<Rightarrow> (step_error option \<times> action list \<times> (Status \<times> notice list) \<times> db) option" where
  \<comment> \<open>\<open>None\<close>: the row's namespace is not its slug's, and nothing is acted on; \<open>pinned\<close> is the notice
     of a template kept until the next restart\<close>
  "ReconcileServer e gl configured v t pinned srv d =
     (if sv_namespace srv \<noteq> NamespaceFor (sv_slug srv) then None
      else
        (let (err, p) = ensureObjects e t \<lparr>ps_log = [], ps_srv = srv, ps_db = d\<rparr>;
             notice = (case err of None \<Rightarrow> pinned | Some er \<Rightarrow> joinNotice pinned (failureNotice er));
             st = new_status gl configured (pe_image e) v (ps_srv p) t (pe_now e) notice
         in Some (err, ps_log p, st, UpdateServerStatus (pe_clk e) (sv_id srv) (fst st) (ps_db p))))"

end
