(* ===== verification/Reconcile_Props.thy ===== *)
theory Reconcile_Props imports Reconcile Store_Props begin

text \<open>
  What a pass over a server never does, whatever the API server answers and wherever the pass
  stops: nothing that runs a tenant's code goes up before the policies that fence it in, a
  restart is a stop and then a start, a running game is left as it is, and the volume is let go
  of while something else has the server's data. The steps are composed by \<open>andthen\<close>, so each
  fact is one invariant of the row and the database, kept by every step, beside the set of
  actions a step may take.
\<close>

subsection \<open>What a step does\<close>

definition runs :: "(Server \<Rightarrow> db \<Rightarrow> bool) \<Rightarrow> (action \<Rightarrow> bool) \<Rightarrow> pass \<Rightarrow> pass_result \<Rightarrow> bool" where
  "runs I A p r \<longleftrightarrow>
     (I (ps_srv p) (ps_db p) \<longrightarrow>
        I (ps_srv (snd r)) (ps_db (snd r))
        \<and> (\<exists>ys. ps_log (snd r) = ps_log p @ ys \<and> (\<forall>a \<in> set ys. A a)))"

named_theorems step_rules

lemma runs_stay [step_rules]: "runs I A p (x, p)"
  by (simp add: runs_def)

lemma runs_andthen [step_rules]:
  assumes "runs I A p r" "\<And>q. runs I A q (f q)"
  shows "runs I A p (andthen r f)"
proof (cases r)
  case (Pair x q)
  show ?thesis
  proof (cases x)
    case None
    show ?thesis
      unfolding runs_def
    proof
      assume I: "I (ps_srv p) (ps_db p)"
      from assms(1) I Pair None obtain ys where 1: "ps_log q = ps_log p @ ys" "\<forall>a \<in> set ys. A a"
          and Iq: "I (ps_srv q) (ps_db q)"
        by (auto simp: runs_def)
      from assms(2) [of q] Iq obtain zs where 2: "ps_log (snd (f q)) = ps_log q @ zs" "\<forall>a \<in> set zs. A a"
          and If: "I (ps_srv (snd (f q))) (ps_db (snd (f q)))"
        by (auto simp: runs_def)
      have "ps_log (snd (f q)) = ps_log p @ (ys @ zs)" using 1 2 by simp
      moreover have "\<forall>a \<in> set (ys @ zs). A a" using 1 2 by auto
      ultimately show "I (ps_srv (snd (andthen r f))) (ps_db (snd (andthen r f)))
          \<and> (\<exists>ys. ps_log (snd (andthen r f)) = ps_log p @ ys \<and> (\<forall>a \<in> set ys. A a))"
        using If Pair None by (simp add: andthen_def)
    qed
  next
    case (Some e)
    with Pair assms(1) show ?thesis by (simp add: andthen_def)
  qed
qed

lemma runs_put [step_rules]: "A (Put obj) \<Longrightarrow> runs I A p (put e step obj p)"
  by (simp add: runs_def put_def split: option.splits)

lemma runs_take_down [step_rules]: "A (Take_down obj) \<Longrightarrow> runs I A p (take_down e step obj p)"
  by (simp add: runs_def take_down_def split: option.splits)

lemma runsD:
  assumes "runs I A p r" "I (ps_srv p) (ps_db p)"
  shows "I (ps_srv (snd r)) (ps_db (snd r))"
    "\<exists>ys. ps_log (snd r) = ps_log p @ ys \<and> (\<forall>a \<in> set ys. A a)"
  using assms by (simp_all add: runs_def)

subsection \<open>The loops over node ports\<close>

definition keeps :: "('s \<Rightarrow> bool) \<Rightarrow> (int32 \<Rightarrow> 's \<Rightarrow> ('e \<times> 's) + 's) \<Rightarrow> bool" where
  "keeps I move \<longleftrightarrow>
     (\<forall>taken s. I s \<longrightarrow> (\<forall>e s'. move taken s = Inl (e, s') \<longrightarrow> I s') \<and> (\<forall>s'. move taken s = Inr s' \<longrightarrow> I s'))"

lemma keepsD:
  "keeps I move \<Longrightarrow> I s \<Longrightarrow> move taken s = Inl (e, s') \<Longrightarrow> I s'"
  "keeps I move \<Longrightarrow> I s \<Longrightarrow> move taken s = Inr s' \<Longrightarrow> I s'"
  unfolding keeps_def by blast+

lemma move_all_keeps:
  assumes "keeps I move" "I s"
  shows "move_all move ps s = Inl (e, s') \<Longrightarrow> I s'" "move_all move ps s = Inr s' \<Longrightarrow> I s'"
proof -
  have "(move_all move ps s = Inl (e, s') \<longrightarrow> I s') \<and> (move_all move ps s = Inr s' \<longrightarrow> I s')"
    using assms(2)
  proof (induction ps arbitrary: s)
    case (Cons x xs)
    show ?case
    proof (cases "move x s")
      case (Inl y)
      with keepsD(1) [OF assms(1) Cons.prems, of x] show ?thesis by (cases y) auto
    next
      case (Inr s1)
      with Cons.IH [OF keepsD(2) [OF assms(1) Cons.prems Inr]] show ?thesis by simp
    qed
  qed auto
  then show "move_all move ps s = Inl (e, s') \<Longrightarrow> I s'" "move_all move ps s = Inr s' \<Longrightarrow> I s'" by blast+
qed

lemma applyLoop_keeps:
  assumes "keeps I move" "I s"
  shows "I (fst (snd (applyLoop build app move m s)))"
  using assms(2)
proof (induction "maxNodePortMoves - m" arbitrary: m s rule: less_induct)
  case less
  define taken where "taken = takenNodePorts (app m s (build s)) (build s)"
  show ?case
  proof (cases "taken = [] \<or> m \<ge> maxNodePortMoves")
    case True
    then show ?thesis using less.prems
      by (subst applyLoop.simps) (simp add: Let_def taken_def [symmetric])
  next
    case False
    show ?thesis
    proof (cases "move_all move taken s")
      case (Inl x)
      then obtain e s1 where x: "move_all move taken s = Inl (e, s1)" by (cases x) simp
      from move_all_keeps(1) [OF assms(1) less.prems x] have "I s1" .
      with x False show ?thesis
        by (subst applyLoop.simps) (simp add: Let_def taken_def [symmetric])
    next
      case (Inr s1)
      from move_all_keeps(2) [OF assms(1) less.prems Inr] have "I s1" .
      then have "I (fst (snd (applyLoop build app move (Suc m) s1)))"
        by (rule less.hyps [rotated]) (use False in arith)
      with Inr False show ?thesis
        by (subst applyLoop.simps) (simp add: Let_def taken_def [symmetric])
    qed
  qed
qed

lemma applyNodePortService_keeps:
  assumes "keeps I move" "I s" "applyNodePortService build app move s = (out, s', n)"
  shows "I s'"
  using applyLoop_keeps [OF assms(1,2), of build app 0] assms(3) by (simp add: applyNodePortService_def)

subsection \<open>The steps\<close>

definition calm :: "(Server \<Rightarrow> db \<Rightarrow> bool) \<Rightarrow> bool" where
  \<comment> \<open>not about the node ports and the events\<close>
  "calm I \<longleftrightarrow> (\<forall>s d d'. I s d \<and> servers d' = servers d \<and> backups d' = backups d \<longrightarrow> I s d')"

lemma calmD: "calm I \<Longrightarrow> I s d \<Longrightarrow> servers d' = servers d \<Longrightarrow> backups d' = backups d \<Longrightarrow> I s d'"
  by (auto simp: calm_def)

definition mobile :: "(Server \<Rightarrow> db \<Rightarrow> bool) \<Rightarrow> bool" where
  \<comment> \<open>nor about the ports of a server\<close>
  "mobile I \<longleftrightarrow> calm I \<and> (\<forall>s d c i f. I s d \<longrightarrow> I (sv_ports_update f s) d \<and> I s (update_server c i (sv_ports_update f) d))"

lemma mobileD:
  "mobile I \<Longrightarrow> calm I"
  "mobile I \<Longrightarrow> I s d \<Longrightarrow> I (sv_ports_update f s) d"
  "mobile I \<Longrightarrow> I s d \<Longrightarrow> I s (update_server c i (sv_ports_update f) d)"
  by (auto simp: mobile_def)

lemma RepointServerNodePort_cases:
  assumes "RepointServerNodePort c i a b d = Inr d'"
  shows "d' = d \<or> (\<exists>f. d' = update_server c i (sv_ports_update f) d)"
  using assms by (auto simp: RepointServerNodePort_def Let_def split: option.splits if_splits)

lemma allocateNodePort_frame:
  assumes "allocateNodePort rnd n i k lo hi d = Inr (np, d')"
  shows "servers d' = servers d" "backups d' = backups d"
  using assms by (auto simp: allocateNodePort_def Let_def split: if_splits option.splits)

lemma SetAsideNodePort_frame:
  assumes "SetAsideNodePort rnd a n i k taken lo hi d = Inr (np, d')"
  shows "servers d' = servers d" "backups d' = backups d"
  using assms
  by (auto simp: SetAsideNodePort_def Let_def split: if_splits option.splits dest: allocateNodePort_frame)

lemma moveSFTPPort_frame:
  assumes "moveSFTPPort rnd ids c lo hi taken s d = Inr (np, d')"
  shows "servers d' = servers d" "backups d' = backups d"
  using assms
  by (auto simp: moveSFTPPort_def emitEvent_def split: sum.splits prod.splits dest: SetAsideNodePort_frame)

lemma runs_put_sftp_service [step_rules]:
  assumes "calm I" "\<And>np. A (Put (Sftp_service np))"
  shows "runs I A p (put_sftp_service e p)"
proof (cases "AllocateNodePort (pe_rnd e) (new_id (pe_ids e)) (sv_id (ps_srv p)) SFTPPortName (pe_lo e) (pe_hi e) (ps_db p)")
  case (Inl err)
  then show ?thesis by (simp add: put_sftp_service_def runs_def)
next
  case (Inr r)
  obtain np d where r: "r = (np, d)" by fastforce
  note f = allocateNodePort_frame [OF Inr [unfolded AllocateNodePort_def r]]
  define move :: "int32 \<Rightarrow> int32 \<times> db \<Rightarrow> _" where "move = (\<lambda>taken (np, d). case moveSFTPPort (pe_rnd e) (pe_ids e) (pe_clk e) (pe_lo e) (pe_hi e) taken (ps_srv p) d of
     Inl err \<Rightarrow> Inl (err, (np, d)) | Inr s \<Rightarrow> Inr s)"
  have k: "keeps (\<lambda>(np :: int32, d). I (ps_srv p) d) move" if "I (ps_srv p) (ps_db p)"
    unfolding keeps_def move_def
    by (auto split: sum.splits dest: moveSFTPPort_frame intro: calmD [OF assms(1)])
  obtain out np' d' n where a: "applyNodePortService (\<lambda>(np, d). sftp_service_ports np)
      (\<lambda>k _ svc. pe_sftp_service e k svc) move (np, d) = (out, (np', d'), n)"
    by (metis prod.exhaust)
  have "I (ps_srv p) d'" if "I (ps_srv p) (ps_db p)"
    using applyNodePortService_keeps [OF k [OF that] _ a] calmD [OF assms(1) that f] by simp
  with Inr r a [unfolded move_def] assms(2) show ?thesis
    by (auto simp: put_sftp_service_def Let_def runs_def split: apply_outcome.splits)
qed

lemma runs_ensureSFTP [step_rules]:
  assumes "calm I" "\<And>np. A (Put (Sftp_service np))" "\<And>ls. A (Put (Sftp_keys ls))" "A (Put Sftp_host_key)"
    "\<And>obj. A (Take_down obj)"
  shows "runs I A p (ensureSFTP e p)"
proof -
  have "runs I A p (None, deleteSFTP p)"
    using assms(5) by (auto simp: runs_def deleteSFTP_def ReleaseNodePort_def intro: calmD [OF assms(1)])
  moreover have "runs I A q (case authorized_keys e q of Inl _ \<Rightarrow> (Some (''SFTP access'', Unreachable), q)
      | Inr ls \<Rightarrow> andthen (put e ''SFTP access'' (Sftp_keys ls) q) (put_sftp_service e))" for q
    by (auto split: sum.splits intro!: step_rules assms)
  ultimately show ?thesis
    unfolding ensureSFTP_def by (auto intro!: step_rules assms)
qed

lemma runs_prepare [step_rules]:
  assumes "calm I" "\<And>np. A (Put (Sftp_service np))" "\<And>ls. A (Put (Sftp_keys ls))" "A (Put Sftp_host_key)"
    "\<And>obj. A (Take_down obj)" "A (Put Data_volume)" "A (Put Secret_env)"
  shows "runs I A p (prepare e p)"
  unfolding prepare_def by (auto split: option.splits intro!: step_rules assms)

lemma moveGamePort_keeps:
  assumes "mobile I"
  shows "keeps (\<lambda>(s, d). I s d) (moveGamePort rnd ids c lo hi)"
proof -
  note calm = calmD [OF mobileD(1) [OF assms]]
  have goal: "case moveGamePort rnd ids c lo hi taken (s, d) of Inl (e, s', d') \<Rightarrow> I s' d' | Inr (s', d') \<Rightarrow> I s' d'"
    if I: "I s d" for s d taken
  proof -
    define number where "number = (case find (\<lambda>p. ps_nodePort p = taken) (sv_ports s) of None \<Rightarrow> 0 | Some p \<Rightarrow> ps_port p)"
    consider "number = 0"
      | err where "number \<noteq> 0"
          "SetAsideNodePort rnd (aside_id ids) (new_id ids) (sv_id s) (NodePortKey number) taken lo hi d = Inl err"
      | np d1 where "number \<noteq> 0"
          "SetAsideNodePort rnd (aside_id ids) (new_id ids) (sv_id s) (NodePortKey number) taken lo hi d = Inr (np, d1)"
      by (metis prod.exhaust sum.exhaust)
    then show ?thesis
    proof cases
      case 1
      with I show ?thesis by (simp add: moveGamePort_def number_def [symmetric])
    next
      case 2
      with I show ?thesis by (simp add: moveGamePort_def number_def [symmetric])
    next
      case 3
      have I1: "I s d1" using calm [OF I SetAsideNodePort_frame [OF 3(2)]] .
      show ?thesis
      proof (cases "RepointServerNodePort c (sv_id s) taken np d1")
        case (Inl err)
        with 3 I1 show ?thesis by (simp add: moveGamePort_def number_def [symmetric])
      next
        case (Inr d2)
        from RepointServerNodePort_cases [OF Inr] I1 mobileD(3) [OF assms] have "I s d2" by auto
        then have "I (s\<lparr>sv_ports := qs\<rparr>) (emitEvent c (event_id ids) s' k m d2)" for qs s' k m
          by (auto intro!: calm [OF mobileD(2) [OF assms]] simp: emitEvent_def)
        with 3 Inr show ?thesis by (simp add: moveGamePort_def number_def [symmetric] Let_def)
      qed
    qed
  qed
  have "case y of (s', d') \<Rightarrow> I s' d'"
    if "case x of (s, d) \<Rightarrow> I s d" "moveGamePort rnd ids c lo hi taken x = Inl (e, y)
      \<or> moveGamePort rnd ids c lo hi taken x = Inr y" for taken x e y
    using that goal [of "fst x" "snd x" taken] by (cases x; cases y) auto
  then show ?thesis unfolding keeps_def by blast
qed

lemma runs_ensureService [step_rules]:
  assumes "mobile I" "\<And>b nps. A (Put (Public_service b nps))"
  shows "runs I A p (ensureService e t b p)"
proof -
  obtain out srv d n where a: "applyNodePortService (\<lambda>(s, d). service_ports t s) (\<lambda>k _ svc. pe_service e k svc)
      (moveGamePort (pe_rnd e) (pe_ids e) (pe_clk e) (pe_lo e) (pe_hi e)) (ps_srv p, ps_db p) = (out, (srv, d), n)"
    by (metis prod.exhaust)
  have "I srv d" if "I (ps_srv p) (ps_db p)"
    using applyNodePortService_keeps [OF moveGamePort_keeps [OF assms(1)] _ a] that by simp
  with a assms(2) show ?thesis
    by (auto simp: ensureService_def Let_def runs_def split: apply_outcome.splits)
qed

lemma runs_ensure_front [step_rules]:
  assumes "mobile I" "\<And>b nps. A (Put (Public_service b nps))" "\<And>b. A (Put (Activator b))"
    "A (Put Internal_service)" "\<And>obj. A (Take_down obj)"
  shows "runs I A p (ensure_front e t p)"
  unfolding ensure_front_def ensureInternalService_def ensureActivator_def Let_def
  by (auto intro!: step_rules assms)

lemma runs_ensure_game_log:
  assumes "\<And>k. A (Put (Data_manager k))" "A (Put Passwd_map)" "\<And>s. A (Put (Game s))" "\<And>c. A (Stop_command c)"
  shows "runs (\<lambda>_ _. True) A p (ensure_game e t p)"
proof -
  have pre: "\<exists>ys. ps_log (graceful_stop e t (finish_restart e t p)) = ps_log p @ ys \<and> (\<forall>a \<in> set ys. A a)"
    using assms(4) by (simp add: graceful_stop_def finish_restart_def split: option.split)
  have dep: "runs (\<lambda>_ _. True) A q (ensureDeployment e t q)" for q
    using assms by (auto simp: ensureDeployment_def runs_def put_def Let_def split: option.splits)
  have log: "ps_log (refreshImagePins e q) = ps_log q" "ps_log (retire_wipe e q) = ps_log q" for q
    by (simp_all add: refreshImagePins_def retire_wipe_def Let_def split: option.split)
  have pins: "runs (\<lambda>_ _. True) A q (ensureDeployment e t (refreshImagePins e q))" for q
    using dep [of "refreshImagePins e q"] by (simp add: runs_def log)
  have pw: "runs (\<lambda>_ _. True) A q (if pe_egg_user e then put e ''passwd file'' Passwd_map q else (None, q))" for q
    by (simp add: step_rules assms)
  have rest: "runs (\<lambda>_ _. True) A q (let p3 = retire_wipe e q
      in andthen (if pe_egg_user e then put e ''passwd file'' Passwd_map p3 else (None, p3)) (\<lambda>p4.
           ensureDeployment e t (refreshImagePins e p4)))" for q
    using runs_andthen [OF pw pins, of "retire_wipe e q"] by (simp add: runs_def log Let_def)
  let ?q = "graceful_stop e t (finish_restart e t p)"
  have "runs (\<lambda>_ _. True) A ?q (ensure_game e t p)"
    unfolding ensure_game_def Let_def ensureDataDeployment_def
    by (rule runs_andthen [OF runs_put [of A]]) (simp_all add: assms rest [unfolded Let_def])
  with pre show ?thesis by (fastforce simp: runs_def)
qed

subsection \<open>Policies first\<close>

lemma first_outside:
  assumes "fs @ zs = xs @ a # ys" "a \<notin> set fs"
  shows "prefix fs xs"
proof -
  have "\<not> length xs < length fs"
  proof
    assume l: "length xs < length fs"
    then have "fs ! length xs = (fs @ zs) ! length xs" by (simp add: nth_append)
    also have "\<dots> = a" by (simp add: assms(1) nth_append)
    finally show False using l assms(2) nth_mem by metis
  qed
  then have "fs = take (length fs) xs" using arg_cong [OF assms(1), of "take (length fs)"] by simp
  then show ?thesis by (metis take_is_prefix)
qed

definition fence :: "action list" where
  "fence = [Put Namespace_of, Put Game_policy, Put Activator_policy, Put Jobs_policy, Put Resource_quota]"

lemma fence_in_log:
  assumes "fence_in e p = (err, q)"
  shows "ps_srv q = ps_srv p" "ps_db q = ps_db p"
    "if err = None then ps_log q = ps_log p @ fence else \<exists>zs. ps_log q = ps_log p @ zs \<and> set zs \<subseteq> set fence"
proof -
  show "ps_srv q = ps_srv p" "ps_db q = ps_db p"
    using assms by (auto simp: fence_in_def put_def andthen_def split: option.splits)
  show "if err = None then ps_log q = ps_log p @ fence else \<exists>zs. ps_log q = ps_log p @ zs \<and> set zs \<subseteq> set fence"
    using assms
    by (auto simp: fence_in_def put_def andthen_def fence_def split: option.splits)
qed


subsection \<open>The game's Deployment\<close>

definition game_row :: "pass_env \<Rightarrow> Template \<Rightarrow> pass \<Rightarrow> Server" where
  \<comment> \<open>the row the game's Deployment is made from, in a pass that gets there\<close>
  "game_row e t p = ps_srv (refreshImagePins e (retire_wipe e (finish_restart e t p)))"

definition stop_first :: "pass_env \<Rightarrow> Template \<Rightarrow> pass \<Rightarrow> action list" where
  "stop_first e t p =
     (if needsGracefulStop (ps_srv (finish_restart e t p)) t \<and> pe_on_stop e \<and> pe_up e
      then [Stop_command (tp_stopCommand t)] else [])"

definition game_actions :: "pass_env \<Rightarrow> Template \<Rightarrow> pass \<Rightarrow> action set" where
  "game_actions e t p =
     {Put (Data_manager (data_replicas (finish_restart e t p))), Put Passwd_map, Put (Game (game_row e t p))}
     \<union> (if pe_rolls e (game_row e t p) = Some True then {Stop_command (tp_stopCommand t)} else {})"

lemma pins_cong: "ps_srv p = ps_srv q \<Longrightarrow> ps_srv (refreshImagePins e p) = ps_srv (refreshImagePins e q)"
  by (simp add: refreshImagePins_def Let_def split: option.split)

lemma wipe_cong: "ps_srv p = ps_srv q \<Longrightarrow> ps_srv (retire_wipe e p) = ps_srv (retire_wipe e q)"
  by (simp add: retire_wipe_def)

lemma data_replicas_log [simp]: "data_replicas (p\<lparr>ps_log := l\<rparr>) = data_replicas p"
  by (simp add: data_replicas_def)

lemma log_kept [simp]:
  "ps_log (refreshImagePins e p) = ps_log p" "ps_log (retire_wipe e p) = ps_log p"
  "ps_log (finish_restart e t p) = ps_log p"
  by (simp_all add: refreshImagePins_def retire_wipe_def finish_restart_def Let_def split: option.split)

lemma graceful_stop_eq: "graceful_stop e t (finish_restart e t p)
    = (finish_restart e t p)\<lparr>ps_log := ps_log p @ stop_first e t p\<rparr>"
  by (simp add: graceful_stop_def stop_first_def)

lemma ensureDeployment_log:
  "\<exists>ys. ps_log (snd (ensureDeployment e t p)) = ps_log p @ ys
     \<and> set ys \<subseteq> insert (Put (Game (ps_srv p))) (if pe_rolls e (ps_srv p) = Some True then {Stop_command (tp_stopCommand t)} else {})"
  by (simp add: ensureDeployment_def put_def Let_def split: option.split)

lemma ensure_game_log:
  "\<exists>ys. ps_log (snd (ensure_game e t p)) = ps_log p @ stop_first e t p @ ys \<and> set ys \<subseteq> game_actions e t p"
proof -
  let ?f = "finish_restart e t p"
  let ?dm = "Data_manager (data_replicas ?f)"
  let ?l = "ps_log p @ stop_first e t p"
  have wipe: "ps_srv (retire_wipe e (?f\<lparr>ps_log := l\<rparr>)) = ps_srv (retire_wipe e ?f)" for l
    by (rule wipe_cong) simp
  have row: "ps_srv (refreshImagePins e (retire_wipe e (?f\<lparr>ps_log := l\<rparr>))) = game_row e t p"
      "ps_srv (refreshImagePins e ((retire_wipe e (?f\<lparr>ps_log := l\<rparr>))\<lparr>ps_log := l'\<rparr>)) = game_row e t p" for l l'
    unfolding game_row_def by (rule pins_cong, simp add: wipe)+
  have dep: "\<exists>ys. ps_log (snd (ensureDeployment e t q)) = ps_log q @ ys \<and> set ys \<subseteq> game_actions e t p"
    if "ps_srv q = game_row e t p" for q
    using ensureDeployment_log [of e t q] that by (auto simp: game_actions_def split: if_splits)
  show ?thesis
  proof (cases "pe_answer e ?dm")
    case (Some err)
    then show ?thesis
      by (simp add: ensure_game_def graceful_stop_eq ensureDataDeployment_def put_def andthen_def)
  next
    case dm: None
    let ?p3 = "retire_wipe e (?f\<lparr>ps_log := ?l @ [Put ?dm]\<rparr>)"
    have game: "ensure_game e t p = andthen (if pe_egg_user e then put e ''passwd file'' Passwd_map ?p3 else (None, ?p3))
        (\<lambda>p4. ensureDeployment e t (refreshImagePins e p4))"
      using dm by (simp add: ensure_game_def graceful_stop_eq ensureDataDeployment_def put_def andthen_def Let_def)
    have dm_in: "Put ?dm \<in> game_actions e t p" "Put Passwd_map \<in> game_actions e t p"
      by (simp_all add: game_actions_def)
    show ?thesis
    proof (cases "pe_egg_user e")
      case False
      with dep [of "refreshImagePins e ?p3"] dm_in show ?thesis
        by (auto simp: game andthen_def row)
    next
      case True
      with dep [of "refreshImagePins e (?p3\<lparr>ps_log := ps_log ?p3 @ [Put Passwd_map]\<rparr>)"] dm_in show ?thesis
        by (auto simp: game andthen_def put_def row split: option.splits)
    qed
  qed
qed

definition game_action :: "action \<Rightarrow> bool" where
  "game_action a = (case a of Put (Game _) \<Rightarrow> True | Put (Data_manager _) \<Rightarrow> True | Stop_command _ \<Rightarrow> True | _ \<Rightarrow> False)"

lemma game_action_simps [simp]:
  "game_action (Put (Game s))" "game_action (Put (Data_manager k))" "game_action (Stop_command c)"
  "\<not> game_action (Take_down obj)" "\<not> game_action (Put (Sftp_service np))" "\<not> game_action (Put (Sftp_keys ls))"
  "\<not> game_action (Put Sftp_host_key)" "\<not> game_action (Put Data_volume)" "\<not> game_action (Put Secret_env)"
  "\<not> game_action (Put (Public_service b nps))" "\<not> game_action (Put (Activator b))" "\<not> game_action (Put Internal_service)"
  "\<not> game_action (Put Namespace_of)" "\<not> game_action (Put Game_policy)" "\<not> game_action (Put Activator_policy)"
  "\<not> game_action (Put Jobs_policy)" "\<not> game_action (Put Resource_quota)"
  by (simp_all add: game_action_def)

text \<open>A pass that touched the game got as far as \<open>ensure_game\<close>, with the row as it was read.\<close>

lemma pass_reaches_game:
  assumes pass: "ensureObjects e t \<lparr>ps_log = [], ps_srv = srv, ps_db = d\<rparr> = (err, p)"
    and a: "a \<in> set (ps_log p)" "game_action a" and I: "mobile I"
  obtains q xs ys zs where
    "ps_srv q = srv" "servers (ps_db q) = servers d" "backups (ps_db q) = backups d"
    "ps_log p = xs @ stop_first e t q @ ys @ zs" "set ys \<subseteq> game_actions e t q"
    "\<forall>x \<in> set xs \<union> set zs. \<not> game_action x"
    "I (ps_srv (snd (ensure_game e t q))) (ps_db (snd (ensure_game e t q))) \<longrightarrow> I (ps_srv p) (ps_db p)"
proof -
  let ?p0 = "\<lparr>ps_log = [], ps_srv = srv, ps_db = d\<rparr>"
  let ?J = "\<lambda>s b. s = srv \<and> servers b = servers d \<and> backups b = backups d"
  let ?N = "\<lambda>a. \<not> game_action a"
  obtain err0 q0 where q0: "fence_in e ?p0 = (err0, q0)" by (cases "fence_in e ?p0")
  note f = fence_in_log [OF q0]
  have calm: "calm ?J" by (simp add: calm_def)
  from runs_prepare [OF calm, of ?N q0 e] f
  have "runs ?J ?N q0 (prepare e q0)" by simp
  from runsD [OF this] f obtain us where prep: "ps_log (snd (prepare e q0)) = ps_log q0 @ us"
      "\<forall>a \<in> set us. \<not> game_action a" "ps_srv (snd (prepare e q0)) = srv"
      "servers (ps_db (snd (prepare e q0))) = servers d" "backups (ps_db (snd (prepare e q0))) = backups d"
    by auto
  have fence_none: "err0 = None"
  proof (rule ccontr)
    assume "err0 \<noteq> None"
    with q0 pass f a show False by (auto simp: ensureObjects_def andthen_def fence_def split: option.splits)
  qed
  have prep_none: "fst (prepare e q0) = None"
  proof (rule ccontr)
    assume "fst (prepare e q0) \<noteq> None"
    with q0 pass f fence_none have "p = snd (prepare e q0)"
      by (auto simp: ensureObjects_def andthen_def split: prod.splits option.splits)
    with prep f fence_none a show False by (auto simp: fence_def)
  qed
  define q where "q = snd (prepare e q0)"
  have p: "andthen (ensure_game e t q) (ensure_front e t) = (err, p)"
    using pass q0 fence_none prep_none
    by (cases "prepare e q0") (auto simp: ensureObjects_def andthen_def q_def)
  from ensure_game_log [of e t q] obtain ys where ys: "ps_log (snd (ensure_game e t q)) = ps_log q @ stop_first e t q @ ys"
      "set ys \<subseteq> game_actions e t q" by blast
  have front: "runs I ?N r (ensure_front e t r)" for r
    by (rule runs_ensure_front [OF I]) simp_all
  have front': "runs (\<lambda>_ _. True) ?N r (ensure_front e t r)" for r
    by (rule runs_ensure_front) (simp_all add: mobile_def calm_def)
  have "\<exists>zs. ps_log p = ps_log (snd (ensure_game e t q)) @ zs \<and> (\<forall>z \<in> set zs. \<not> game_action z)
     \<and> (I (ps_srv (snd (ensure_game e t q))) (ps_db (snd (ensure_game e t q))) \<longrightarrow> I (ps_srv p) (ps_db p))"
  proof (cases "ensure_game e t q")
    case (Pair err1 r)
    then show ?thesis
    proof (cases err1)
      case None
      with Pair p front [of r] runsD(2) [OF front' [of r]] show ?thesis
        by (auto simp: andthen_def runs_def)
    next
      case (Some e1)
      with Pair p show ?thesis by (simp add: andthen_def)
    qed
  qed
  then obtain zs where zs: "ps_log p = ps_log (snd (ensure_game e t q)) @ zs" "\<forall>z \<in> set zs. \<not> game_action z"
      "I (ps_srv (snd (ensure_game e t q))) (ps_db (snd (ensure_game e t q))) \<longrightarrow> I (ps_srv p) (ps_db p)" by blast
  have "\<forall>x \<in> set (ps_log q). \<not> game_action x" using prep f fence_none by (auto simp: q_def fence_def)
  with that [of q "ps_log q" ys zs] prep ys zs show ?thesis by (auto simp: q_def)
qed

subsection \<open>A restart is a stop and then a start\<close>

lemma ensure_game_keeps:
  assumes "I (ps_srv (finish_restart e t p)) (ps_db (finish_restart e t p))"
    and wipe: "\<And>s d c i. I s d \<Longrightarrow> I (s\<lparr>sv_install_wipe := False, sv_install_keep := []\<rparr>) (ClearInstallWipe c i d)"
    and pins: "\<And>s d c i m. I s d \<Longrightarrow> I (s\<lparr>sv_image_pins := m\<rparr>) (SetServerImagePins c i m d)"
  shows "I (ps_srv (snd (ensure_game e t p))) (ps_db (snd (ensure_game e t p)))"
proof -
  have pins': "I (ps_srv (refreshImagePins e q)) (ps_db (refreshImagePins e q))" if "I (ps_srv q) (ps_db q)" for q
    using that pins by (simp add: refreshImagePins_def Let_def split: option.split)
  have dep: "runs I (\<lambda>_. True) q (ensureDeployment e t (refreshImagePins e q))" for q
    using pins' [of q] by (simp add: runs_def ensureDeployment_def put_def Let_def split: option.split)
  have wipe': "I (ps_srv (retire_wipe e q)) (ps_db (retire_wipe e q))" if "I (ps_srv q) (ps_db q)" for q
    using that wipe by (simp add: retire_wipe_def)
  have rest: "runs I (\<lambda>_. True) q (andthen (if pe_egg_user e then put e ''passwd file'' Passwd_map (retire_wipe e q) else (None, retire_wipe e q))
      (\<lambda>p4. ensureDeployment e t (refreshImagePins e p4)))" for q
  proof -
    have "runs I (\<lambda>_. True) (retire_wipe e q) (andthen (if pe_egg_user e then put e ''passwd file'' Passwd_map (retire_wipe e q) else (None, retire_wipe e q))
      (\<lambda>p4. ensureDeployment e t (refreshImagePins e p4)))"
      by (rule runs_andthen) (simp_all add: step_rules dep)
    with wipe' [of q] show ?thesis by (simp add: runs_def)
  qed
  have "runs I (\<lambda>_. True) (graceful_stop e t (finish_restart e t p)) (ensure_game e t p)"
    unfolding ensure_game_def Let_def ensureDataDeployment_def by (intro runs_andthen runs_put rest TrueI)
  from runsD(1) [OF this] assms(1) show ?thesis by (simp add: graceful_stop_eq)
qed

definition restarted :: "row_id \<Rightarrow> db \<Rightarrow> bool" where
  \<comment> \<open>no restart is asked of that server any more\<close>
  "restarted i d \<longleftrightarrow> (\<forall>x \<in> set (servers d). sv_id x = i \<longrightarrow> sv_restart_requested_at x = None)"

lemma restarted_update:
  assumes "restarted i d" "\<And>x. sv_restart_requested_at (f x) = sv_restart_requested_at x" "\<And>x. sv_id (f x) = sv_id x"
  shows "restarted i (update_server c j f d)"
  unfolding restarted_def
proof (intro ballI impI)
  fix x assume "x \<in> set (servers (update_server c j f d))" "sv_id x = i"
  then show "sv_restart_requested_at x = None"
    using assms(1) by (cases rule: in_update_server) (simp_all add: restarted_def assms(2,3))
qed

lemma restarted_finish: "restarted i (FinishRestart c i d)"
  unfolding restarted_def FinishRestart_def
proof (intro ballI impI)
  fix x assume "x \<in> set (servers (update_server c i (sv_restart_requested_at_update (\<lambda>_. None)) d))" "sv_id x = i"
  then show "sv_restart_requested_at x = None" by (cases rule: in_update_server) simp_all
qed

lemma mobile_restarted: "mobile (\<lambda>_. restarted i)"
  by (auto simp: mobile_def calm_def intro!: restarted_update) (simp add: restarted_def)

text \<open>C30: while a restart waits for the game to go, every pass that reaches the game's Deployment
  makes it with no replica and keeps the request, the stop command first when the game is up;
  once none of its pods is left, or the limit is past, the pass makes it with the replica the
  server's state asks for, and the request is gone from the row and from the database.\<close>

theorem restart_stops_then_starts:
  assumes "ensureObjects e t \<lparr>ps_log = [], ps_srv = srv, ps_db = d\<rparr> = (err, p)"
    "Put (Game s) \<in> set (ps_log p)" "sv_restart_requested_at srv = Some req"
  shows "if restartDone e req t
    then sv_restart_requested_at s = None \<and> restarted (sv_id srv) (ps_db p)
      \<and> Replicas s = (if sv_desired_state srv = StateRunning \<and> \<not> sv_hibernated srv then 1 else 0)
    else Replicas s = 0 \<and> sv_restart_requested_at s = Some req
      \<and> (isConsoleStop (tp_stopCommand t) \<and> pe_on_stop e \<and> pe_up e \<longrightarrow>
           (\<exists>xs ys. ps_log p = xs @ Stop_command (tp_stopCommand t) # ys \<and> Put (Game s) \<notin> set xs))"
proof -
  obtain q xs ys zs where q: "ps_srv q = srv"
    "ps_log p = xs @ stop_first e t q @ ys @ zs" "set ys \<subseteq> game_actions e t q"
    "\<forall>x \<in> set xs \<union> set zs. \<not> game_action x"
    "restarted (sv_id srv) (ps_db (snd (ensure_game e t q))) \<longrightarrow> restarted (sv_id srv) (ps_db p)"
    using pass_reaches_game [OF assms(1,2) _ mobile_restarted] by (metis game_action_simps(1))
  have "Put (Game s) \<notin> set xs \<union> set zs" using q(4) game_action_simps(1) by blast
  then have "Put (Game s) \<in> set ys" using assms(2) q(2) by (auto simp: stop_first_def split: if_splits)
  then have s: "s = game_row e t q" using q(3) by (auto simp: game_actions_def split: if_splits)
  have "restarted (sv_id srv) (ps_db (snd (ensure_game e t q)))" if "restartDone e req t"
  proof (rule ensure_game_keeps)
    show "restarted (sv_id srv) (ps_db (finish_restart e t q))"
      using that q(1) assms(3) restarted_finish by (simp add: finish_restart_def)
  qed (auto simp: ClearInstallWipe_def SetServerImagePins_def intro!: restarted_update)
  moreover have row: "sv_restart_requested_at s = (if restartDone e req t then None else Some req)"
      "sv_desired_state s = sv_desired_state srv" "sv_hibernated s = sv_hibernated srv"
    using q(1) assms(3)
    by (simp_all add: s game_row_def refreshImagePins_def retire_wipe_def finish_restart_def Let_def split: option.split)
  moreover have "\<exists>xs ys. ps_log p = xs @ Stop_command (tp_stopCommand t) # ys \<and> Put (Game s) \<notin> set xs"
    if "\<not> restartDone e req t" "isConsoleStop (tp_stopCommand t)" "pe_on_stop e" "pe_up e"
  proof -
    have "stop_first e t q = [Stop_command (tp_stopCommand t)]"
      using that q(1) assms(3) by (simp add: stop_first_def finish_restart_def needsGracefulStop_def Replicas_def)
    with q(2) \<open>Put (Game s) \<notin> set xs \<union> set zs\<close> show ?thesis by (intro exI [of _ xs] exI [of _ "ys @ zs"]) simp
  qed
  ultimately show ?thesis using q(5) by (auto simp: Replicas_def)
qed

text \<open>C31: a pass over a server that should run and whose game is up makes its Deployment from the
  row exactly as it was read, nothing of it refreshed or retired meanwhile, and sends the game
  no command unless that row replaces its pod.\<close>

theorem running_game_left_alone:
  assumes "ensureObjects e t \<lparr>ps_log = [], ps_srv = srv, ps_db = d\<rparr> = (err, p)"
    "Replicas srv = 1" "pe_running e \<noteq> Some False"
  shows "(\<forall>s. Put (Game s) \<in> set (ps_log p) \<longrightarrow> s = srv)
    \<and> (\<forall>c. Stop_command c \<in> set (ps_log p) \<longrightarrow> pe_rolls e srv = Some True)"
proof -
  have row: "game_row e t q = srv" "stop_first e t q = []" if "ps_srv q = srv" for q
  proof -
    have fin: "finish_restart e t q = q"
      using that assms(2) by (auto simp: finish_restart_def Replicas_def split: option.split if_splits)
    have wipe: "retire_wipe e q = q" using that assms(2) by (simp add: retire_wipe_def wipeConsumed_def)
    have pins: "refreshImagePins e q = q"
      using that assms(2,3) by (simp add: refreshImagePins_def Let_def split: option.split)
    show "game_row e t q = srv" "stop_first e t q = []"
      using that assms(2) by (simp_all add: game_row_def stop_first_def fin wipe pins needsGracefulStop_def)
  qed
  have "a = Put (Game srv) \<or> (\<exists>k. a = Put (Data_manager k)) \<or> ((\<exists>c. a = Stop_command c) \<and> pe_rolls e srv = Some True)"
    if a: "a \<in> set (ps_log p)" "game_action a" for a
  proof -
    obtain q xs ys zs where q: "ps_srv q = srv"
      "ps_log p = xs @ stop_first e t q @ ys @ zs" "set ys \<subseteq> game_actions e t q"
      "\<forall>x \<in> set xs \<union> set zs. \<not> game_action x"
      using pass_reaches_game [OF assms(1) a mobile_restarted] by metis
    with a row [OF q(1)] have "a \<in> game_actions e t q" by auto
    with a(2) row(1) [OF q(1)] show ?thesis by (auto simp: game_actions_def game_action_def split: if_splits)
  qed
  then show ?thesis by fastforce
qed

subsection \<open>The volume during a restore and a transfer\<close>

lemma authorized_keys_log [simp]: "authorized_keys e (p\<lparr>ps_log := l\<rparr>) = authorized_keys e p"
  by (simp add: authorized_keys_def split: sum.split)

definition no_keys :: "action \<Rightarrow> bool" where
  "no_keys a = (case a of Put (Sftp_keys _) \<Rightarrow> False | _ \<Rightarrow> True)"

lemma not_no_keys [simp]: "\<not> no_keys (Put (Sftp_keys ls))"
  by (simp add: no_keys_def)

lemma no_keys_mono:
  assumes "runs (\<lambda>_ _. True) no_keys p r" "Put (Sftp_keys ls) \<in> set (ps_log (snd r))"
  shows "Put (Sftp_keys ls) \<in> set (ps_log p)"
proof -
  from runsD(2) [OF assms(1)] obtain ys where "ps_log (snd r) = ps_log p @ ys" "\<forall>a \<in> set ys. no_keys a" by auto
  with assms(2) not_no_keys [of ls] show ?thesis by auto
qed

lemma ensureSFTP_keys:
  assumes "Put (Sftp_keys ls) \<in> set (ps_log (snd (ensureSFTP e p)))"
  shows "Put (Sftp_keys ls) \<in> set (ps_log p) \<or> authorized_keys e p = Inr ls"
proof -
  have svc: "runs (\<lambda>_ _. True) no_keys q (put_sftp_service e q)" for q
    by (rule runs_put_sftp_service) (simp_all add: calm_def no_keys_def)
  note in_svc = no_keys_mono [OF svc]
  consider "\<not> sv_sftp_enabled (ps_srv p)" | "sv_sftp_enabled (ps_srv p)" "pe_image e = []"
    | "sv_sftp_enabled (ps_srv p)" "pe_image e \<noteq> []" by blast
  then show ?thesis
  proof cases
    case 3
    with assms show ?thesis
      by (auto simp: ensureSFTP_def put_def andthen_def split: option.splits sum.splits dest: in_svc)
  qed (use assms in \<open>simp_all add: ensureSFTP_def deleteSFTP_def\<close>)
qed

lemma pass_keys:
  assumes "ensureObjects e t \<lparr>ps_log = [], ps_srv = srv, ps_db = d\<rparr> = (err, p)"
    "Put (Sftp_keys ls) \<in> set (ps_log p)"
  shows "authorized_keys e \<lparr>ps_log = [], ps_srv = srv, ps_db = d\<rparr> = Inr ls"
proof -
  let ?p0 = "\<lparr>ps_log = [], ps_srv = srv, ps_db = d\<rparr>"
  obtain err0 q where q: "fence_in e ?p0 = (err0, q)" by (cases "fence_in e ?p0")
  note f = fence_in_log [OF q]
  have fence: "Put (Sftp_keys ls) \<notin> set (ps_log q)" using f(3) by (auto simp: fence_def split: if_splits)
  have same: "authorized_keys e q = authorized_keys e ?p0" using f(1,2) by (simp add: authorized_keys_def split: sum.split)
  have rest: "runs (\<lambda>_ _. True) no_keys r (andthen (put e ''data volume'' Data_volume r) (\<lambda>p.
     case pe_secrets e of
       None \<Rightarrow> (Some (''secret variables'', Unreachable), p)
     | Some keys \<Rightarrow> if keys = [] then (None, p) else put e ''secret variables'' Secret_env p))" for r
    by (rule runs_andthen) (auto simp: no_keys_def split: option.split intro!: step_rules)
  have later: "runs (\<lambda>_ _. True) no_keys r (andthen (ensure_game e t r) (ensure_front e t))" for r
    by (rule runs_andthen)
      (auto simp: no_keys_def mobile_def calm_def intro!: runs_ensure_game_log runs_ensure_front)
  note mono = no_keys_mono
  obtain err1 r where r: "prepare e q = (err1, r)" by (cases "prepare e q")
  have "err0 = None"
    using assms q fence by (cases err0) (auto simp: ensureObjects_def andthen_def)
  with assms(1) q r have "p = (if err1 = None then snd (andthen (ensure_game e t r) (ensure_front e t)) else r)"
    by (cases err1) (auto simp: ensureObjects_def andthen_def)
  with assms(2) mono [OF later [of r]] have inr: "Put (Sftp_keys ls) \<in> set (ps_log r)"
    by (simp split: if_splits)
  obtain err2 s where s: "ensureSFTP e q = (err2, s)" by (cases "ensureSFTP e q")
  have "Put (Sftp_keys ls) \<in> set (ps_log s)"
  proof (cases err2)
    case None
    with s r inr mono [OF rest [of s]] show ?thesis by (simp add: prepare_def andthen_def)
  next
    case (Some x)
    with s r inr show ?thesis by (simp add: prepare_def andthen_def)
  qed
  with s have "Put (Sftp_keys ls) \<in> set (ps_log (snd (ensureSFTP e q)))" by simp
  with ensureSFTP_keys fence same show ?thesis by fastforce
qed

lemma restore_stops_server:
  assumes "store_inv d" "srv \<in> set (servers d)" "RestoreNeedsDataVolume (sv_id srv) d"
  shows "sv_desired_state srv \<noteq> StateRunning"
proof
  assume run: "sv_desired_state srv = StateRunning"
  have "server_ok (machine_of d) (sv_id srv) (power_of srv)" and ids: "ids_ok d"
    using store_inv_server [OF assms(1,2)] assms(1) by (simp_all add: store_inv_def)
  with run have off: "\<not> offline_on (machine_of d) (sv_id srv) k" for k
    by (simp add: server_ok_def)
  let ?ops = "sort_key bk_id (filter (\<lambda>b. bk_server_id b = sv_id srv \<and> op_active (bk_phase b)) (backups d))"
  obtain b where "b \<in> set ?ops" "bk_direction b = DirRestore"
  proof (cases "find (\<lambda>b. bk_phase b = BackupRunning) ?ops")
    case None
    with assms(3) have "?ops \<noteq> []" "bk_direction (hd ?ops) = DirRestore"
      by (simp_all add: RestoreNeedsDataVolume_def Let_def)
    with that [of "hd ?ops"] show ?thesis using hd_in_set by blast
  next
    case (Some b)
    then have "b \<in> set ?ops" by (metis find_Some_iff nth_mem)
    with that [of b] Some assms(3) show ?thesis by (simp add: RestoreNeedsDataVolume_def Let_def)
  qed
  with off ids show False by (auto simp: view_offline)
qed

lemma transfer_stops_server:
  assumes "store_inv d" "srv \<in> set (servers d)" "sv_transfer srv \<noteq> None"
  shows "sv_desired_state srv \<noteq> StateRunning"
  using store_inv_server [OF assms(1,2)] assms(3) by (auto simp: server_ok_def transfer_ok_def)

text \<open>C9: in every database the store reaches, a pass over a server whose volume a restore is due or
  running on, or which is being transferred, makes the game and the data manager with no
  replica, whatever the cluster answers; and in a transfer it lets no SFTP key in.\<close>

theorem volume_let_go:
  assumes "store_step\<^sup>*\<^sup>* empty_db d" "srv \<in> set (servers d)"
    "RestoreNeedsDataVolume (sv_id srv) d \<or> sv_transfer srv \<noteq> None"
    "ensureObjects e t \<lparr>ps_log = [], ps_srv = srv, ps_db = d\<rparr> = (err, p)"
  shows "(\<forall>s. Put (Game s) \<in> set (ps_log p) \<longrightarrow> Replicas s = 0)
    \<and> (\<forall>k. Put (Data_manager k) \<in> set (ps_log p) \<longrightarrow> k = 0)
    \<and> (sv_transfer srv \<noteq> None \<longrightarrow> (\<forall>ls. Put (Sftp_keys ls) \<in> set (ps_log p) \<longrightarrow> ls = []))"
proof -
  have inv: "store_inv d" using store_steps_inv [OF assms(1) store_inv_empty] .
  have down: "sv_desired_state srv \<noteq> StateRunning"
    using restore_stops_server [OF inv assms(2)] transfer_stops_server [OF inv assms(2)] assms(3) by blast
  have "case a of Put (Game s) \<Rightarrow> Replicas s = 0 | Put (Data_manager k) \<Rightarrow> k = 0 | _ \<Rightarrow> True"
    if a: "a \<in> set (ps_log p)" "game_action a" for a
  proof -
    obtain q xs ys zs where q: "ps_srv q = srv" "backups (ps_db q) = backups d"
      "ps_log p = xs @ stop_first e t q @ ys @ zs" "set ys \<subseteq> game_actions e t q"
      "\<forall>x \<in> set xs \<union> set zs. \<not> game_action x"
      using pass_reaches_game [OF assms(4) a mobile_restarted] by metis
    have "sv_desired_state (game_row e t q) = sv_desired_state srv"
      using q(1) by (simp add: game_row_def refreshImagePins_def retire_wipe_def finish_restart_def Let_def split: option.split)
    with down have row: "Replicas (game_row e t q) = 0" by (simp add: Replicas_def)
    have "ps_srv (finish_restart e t q) = srv \<or> (\<exists>x. ps_srv (finish_restart e t q) = srv\<lparr>sv_restart_requested_at := x\<rparr>)"
      "backups (ps_db (finish_restart e t q)) = backups d"
      using q(1,2) by (auto simp: finish_restart_def FinishRestart_def split: option.split)
    then have dm: "data_replicas (finish_restart e t q) = 0"
      using assms(3) by (auto simp: data_replicas_def RestoreNeedsDataVolume_def)
    from a q(3-5) have "a \<in> game_actions e t q \<or> a \<in> set (stop_first e t q)" by auto
    with row dm show ?thesis by (auto simp: game_actions_def stop_first_def split: if_splits)
  qed
  from this [of "Put (Game _)"] this [of "Put (Data_manager _)"]
  have "\<forall>s. Put (Game s) \<in> set (ps_log p) \<longrightarrow> Replicas s = 0"
    "\<forall>k. Put (Data_manager k) \<in> set (ps_log p) \<longrightarrow> k = 0" by fastforce+
  moreover have "ls = []" if "sv_transfer srv \<noteq> None" "Put (Sftp_keys ls) \<in> set (ps_log p)" for ls
    using pass_keys [OF assms(4) that(2)] that(1) by (auto simp: authorized_keys_def split: sum.splits)
  ultimately show ?thesis by blast
qed

section \<open>Examples\<close>

text \<open>A cluster that takes everything, and the passes over the servers of the store's examples.\<close>

definition yes_env :: pass_env where
  "yes_env = \<lparr>pe_answer = (\<lambda>_. None), pe_take_down = (\<lambda>_. None), pe_service = (\<lambda>_ _. None),
     pe_sftp_service = (\<lambda>_ _. None), pe_message = (\<lambda>_. Unreachable), pe_secrets = Some [], pe_pods = Some 1,
     pe_up = True, pe_running = Some True, pe_rolls = (\<lambda>_. Some False), pe_now = 10, pe_clk = 10,
     pe_on_stop = True, pe_image = ''panel'', pe_wake_url = [], pe_resolve = None, pe_install_image = [],
     pe_egg_user = True, pe_line = (\<lambda>k u. u @ k), pe_rnd = (\<lambda>_. 0),
     pe_ids = \<lparr>aside_id = 7, new_id = 8, event_id = 9\<rparr>, pe_lo = 0, pe_hi = 0\<rparr>"

definition stop_template :: Template where
  "stop_template = sample_template\<lparr>tp_stopCommand := ''stop'', tp_stopGraceSeconds := 30\<rparr>"

abbreviation start_pass :: "Server \<Rightarrow> db \<Rightarrow> pass" where
  "start_pass srv d \<equiv> \<lparr>ps_log = [], ps_srv = srv, ps_db = d\<rparr>"

lemma yes_sel [simp]:
  "pe_secrets yes_env = Some []" "pe_up yes_env" "pe_running yes_env = Some True" "pe_rolls yes_env x = Some False"
  "pe_on_stop yes_env" "pe_wake_url yes_env = []" "pe_resolve yes_env = None" "pe_egg_user yes_env"
  "pe_pods yes_env = Some 1" "pe_now yes_env = 10"
  by (simp_all add: yes_env_def)

lemma yes_put [simp]:
  "put yes_env step obj p = (None, p\<lparr>ps_log := ps_log p @ [Put obj]\<rparr>)"
  "take_down yes_env step obj p = (None, p\<lparr>ps_log := ps_log p @ [Take_down obj]\<rparr>)"
  by (simp_all add: put_def take_down_def yes_env_def)

lemma andthen_None [simp]: "andthen (None, p) f = f p"
  by (simp add: andthen_def)

lemma stop_template_sel [simp]:
  "tp_stopCommand stop_template = ''stop''" "tp_ports stop_template = []" "tp_stopGraceSeconds stop_template = 30"
  by (simp_all add: stop_template_def sample_template_def)

lemma yes_fence: "fence_in yes_env p = (None, p\<lparr>ps_log := ps_log p @ fence\<rparr>)"
  by (simp add: fence_in_def fence_def)

lemma yes_prepare:
  "\<not> sv_sftp_enabled (ps_srv p) \<Longrightarrow> prepare yes_env p =
     (None, (deleteSFTP p)\<lparr>ps_log := ps_log p @ [Take_down (Sftp_service 0), Take_down (Sftp_keys []), Put Data_volume]\<rparr>)"
  by (simp add: prepare_def ensureSFTP_def deleteSFTP_def)

lemma yes_game:
  assumes "\<not> sv_install_wipe (ps_srv p)"
    "case sv_restart_requested_at (ps_srv p) of None \<Rightarrow> True | Some r \<Rightarrow> 10 - r \<le> restartLimit"
  shows "ensure_game yes_env stop_template p = (None, p\<lparr>ps_log := ps_log p
      @ (if Replicas (ps_srv p) = 0 then [Stop_command ''stop''] else [])
      @ [Put (Data_manager (data_replicas p)), Put Passwd_map, Put (Game (ps_srv p))]\<rparr>)"
proof -
  have fin: "finish_restart yes_env stop_template p = p"
  proof (cases "sv_restart_requested_at (ps_srv p)")
    case (Some r)
    with assms(2) have "\<not> restartDone yes_env r stop_template" by (simp add: restartDone_def)
    with Some show ?thesis by (simp add: finish_restart_def)
  qed (simp add: finish_restart_def)
  have stop: "graceful_stop yes_env stop_template p
      = p\<lparr>ps_log := ps_log p @ (if Replicas (ps_srv p) = 0 then [Stop_command ''stop''] else [])\<rparr>"
    by (simp add: graceful_stop_def needsGracefulStop_def isConsoleStop_def)
  have rest: "retire_wipe yes_env (p\<lparr>ps_log := l\<rparr>) = p\<lparr>ps_log := l\<rparr>"
    "refreshImagePins yes_env (p\<lparr>ps_log := l\<rparr>) = p\<lparr>ps_log := l\<rparr>" for l
    using assms(1) by (simp_all add: retire_wipe_def wipeConsumed_def refreshImagePins_def Let_def)
  show ?thesis
    by (simp add: ensure_game_def fin stop ensureDataDeployment_def Let_def rest ensureDeployment_def)
qed

lemma yes_front:
  assumes "sv_ports (ps_srv p) = []"
  shows "ensure_front yes_env stop_template p =
    (None, p\<lparr>ps_log := ps_log p @ [Take_down Internal_service, Take_down (Activator False)]\<rparr>)"
  using assms by (simp add: ensure_front_def proxyActive_def dropActive_def serverPorts_def
    ensureInternalService_def ensureActivator_def Let_def)

lemma yes_pass:
  assumes "\<not> sv_sftp_enabled srv" "sv_ports srv = []" "\<not> sv_install_wipe srv"
    "case sv_restart_requested_at srv of None \<Rightarrow> True | Some r \<Rightarrow> 10 - r \<le> restartLimit"
  obtains p xs ys where "ensureObjects yes_env stop_template (start_pass srv d) = (None, p)"
    "ps_log p = xs @ (if Replicas srv = 0 then [Stop_command ''stop''] else [])
        @ [Put (Data_manager (if RestoreNeedsDataVolume (sv_id srv) d \<or> sv_transfer srv \<noteq> None then 0 else 1)),
           Put Passwd_map, Put (Game srv)] @ ys"
    "xs = fence @ [Take_down (Sftp_service 0), Take_down (Sftp_keys []), Put Data_volume]"
    "ys = [Take_down Internal_service, Take_down (Activator False)]"
  using that assms
  by (simp add: ensureObjects_def yes_fence yes_prepare deleteSFTP_def yes_game yes_front data_replicas_def
      ReleaseNodePort_def RestoreNeedsDataVolume_def cong: option.case_cong)

lemma sample_pass:
  assumes "srv \<in> {sample_server, sample_server\<lparr>sv_restart_requested_at := Some 5\<rparr>, moving_server sample_transfer}"
  obtains p xs ys where "ensureObjects yes_env stop_template (start_pass srv d) = (None, p)"
    "ps_log p = xs @ Put (Data_manager (if RestoreNeedsDataVolume (sv_id srv) d \<or> sv_transfer srv \<noteq> None then 0 else 1))
       # Put Passwd_map # Put (Game srv) # ys"
    "xs = fence @ [Take_down (Sftp_service 0), Take_down (Sftp_keys []), Put Data_volume]
      @ (if Replicas srv = 0 then [Stop_command ''stop''] else [])"
    "ys = [Take_down Internal_service, Take_down (Activator False)]"
proof -
  have "\<not> sv_sftp_enabled srv" "sv_ports srv = []" "\<not> sv_install_wipe srv"
    "case sv_restart_requested_at srv of None \<Rightarrow> True | Some r \<Rightarrow> 10 - r \<le> restartLimit"
    using assms by (auto simp: sample_server_def moving_server_def restartLimit_def)
  then show ?thesis by (rule yes_pass [where d = d]) (use that in auto)
qed


theorem restart_stops_then_starts_witness:
  "\<exists>p xs ys. ensureObjects yes_env stop_template
       (start_pass (sample_server\<lparr>sv_restart_requested_at := Some 5\<rparr>) sample_db) = (None, p)
     \<and> ps_log p = xs @ Stop_command ''stop'' # ys"
proof -
  let ?s = "sample_server\<lparr>sv_restart_requested_at := Some 5\<rparr>"
  obtain p xs ys where p: "ensureObjects yes_env stop_template (start_pass ?s sample_db) = (None, p)"
    "ps_log p = xs @ Put (Data_manager (if RestoreNeedsDataVolume (sv_id ?s) sample_db \<or> sv_transfer ?s \<noteq> None then 0 else 1))
       # Put Passwd_map # Put (Game ?s) # ys"
    by (rule sample_pass [of ?s sample_db]) simp
  have "\<not> restartDone yes_env 5 stop_template" by (simp add: restartDone_def restartLimit_def)
  moreover have "Put (Game ?s) \<in> set (ps_log p)" using p(2) by simp
  ultimately have "\<exists>xs ys. ps_log p = xs @ Stop_command ''stop'' # ys"
    using restart_stops_then_starts [OF p(1), of ?s 5] by (simp add: isConsoleStop_def) blast
  with p(1) show ?thesis by blast
qed

theorem running_game_left_alone_witness:
  "\<exists>p. ensureObjects yes_env stop_template (start_pass sample_server sample_db) = (None, p)
     \<and> Put (Game sample_server) \<in> set (ps_log p) \<and> (\<forall>c. Stop_command c \<notin> set (ps_log p))"
proof -
  obtain p xs ys where p: "ensureObjects yes_env stop_template (start_pass sample_server sample_db) = (None, p)"
    "ps_log p = xs @ Put (Data_manager (if RestoreNeedsDataVolume (sv_id sample_server) sample_db \<or> sv_transfer sample_server \<noteq> None then 0 else 1))
       # Put Passwd_map # Put (Game sample_server) # ys"
    by (rule sample_pass [of sample_server sample_db]) simp
  have "Replicas sample_server = 1" by (simp add: Replicas_def sample_server_def)
  from running_game_left_alone [OF p(1) this] p show ?thesis by auto
qed

theorem volume_let_go_witness:
  "\<exists>p. ensureObjects yes_env stop_template (start_pass (moving_server sample_transfer) begun_db) = (None, p)
     \<and> Put (Data_manager 0) \<in> set (ps_log p) \<and> (\<forall>s. Put (Game s) \<in> set (ps_log p) \<longrightarrow> Replicas s = 0)"
proof -
  let ?s = "moving_server sample_transfer"
  obtain p xs ys where p: "ensureObjects yes_env stop_template (start_pass ?s begun_db) = (None, p)"
    "ps_log p = xs @ Put (Data_manager (if RestoreNeedsDataVolume (sv_id ?s) begun_db \<or> sv_transfer ?s \<noteq> None then 0 else 1))
       # Put Passwd_map # Put (Game ?s) # ys"
    by (rule sample_pass [of ?s begun_db]) simp
  have t: "sv_transfer ?s \<noteq> None" "?s \<in> set (servers begun_db)" by (simp_all add: moving_server_def begun_db_def)
  from volume_let_go [OF begun_reachable t(2) disjI2 [OF t(1)] p(1)] p t(1) show ?thesis by auto
qed

end
