(* ===== verification/Backup_Manager.thy ===== *)
theory Backup_Manager imports Backups Go_Strings begin

text \<open>
  The manager of backups, restores and database imports (\<open>internal/backup/manager.go\<close>): each tick
  it turns the oldest waiting operation of each server into a Kubernetes Job, and finalises
  operations from what their Jobs became. Each item of a list it goes through is one function,
  from the database as it was when the item's server was read and the world at the moment it
  acts; what the cluster and the configuration answer besides is in an \<open>op_env\<close>.

  The world is the database, the instances of Jobs there are or were, and a bound on the keys the
  database has given. An instance is live while a pod of it runs or may yet run; the object may
  be deleted before. The namespace of a Job is its server's, which never changes, and is left
  out of its key.
\<close>

subsection \<open>Jobs\<close>

record JobStatus =
  js_succeeded :: int
  js_failed :: int
  js_conditions :: "(string \<times> bool) list"  \<comment> \<open>type, and whether its status is True\<close>
  js_backoff :: "int option"

fun outcome_of_conditions :: "(string \<times> bool) list \<Rightarrow> (bool \<times> bool) option" where
  "outcome_of_conditions [] = None"
| "outcome_of_conditions ((typ, holds) # cs) =
     (if \<not> holds then outcome_of_conditions cs
      else if typ = ''Complete'' then Some (True, False)
      else if typ = ''Failed'' then Some (False, True)
      else outcome_of_conditions cs)"

definition jobOutcome :: "JobStatus \<Rightarrow> bool \<times> bool" where
  "jobOutcome s =
     (if js_succeeded s > 0 then (True, False)
      else case outcome_of_conditions (js_conditions s) of
             Some r \<Rightarrow> r
           | None \<Rightarrow> (case js_backoff s of
                        Some limit \<Rightarrow> if js_failed s > limit then (False, True) else (False, False)
                      | None \<Rightarrow> (False, False)))"

type_synonym job_key = "row_id \<times> string"  \<comment> \<open>the cluster and the Job's name\<close>

record job =
  jb_uid :: string
  jb_key :: job_key
  jb_op :: row_id
  jb_server :: row_id
  jb_forget :: bool
  jb_exists :: bool
  jb_live :: bool
  jb_status :: JobStatus

record world =
  w_db :: db
  w_jobs :: "job list"
  w_seq :: row_id
  w_torn :: "(row_id \<times> row_id) list"  \<comment> \<open>the clusters on which a server's namespace was deleted for a transfer\<close>

definition get_job :: "job_key \<Rightarrow> world \<Rightarrow> job option" where
  "get_job k w = find (\<lambda>j. jb_exists j \<and> jb_key j = k) (w_jobs w)"

definition job_pods :: "job_key \<Rightarrow> world \<Rightarrow> bool" where
  \<comment> \<open>pods labelled with that Job's name; a Job that exists may not have made its own yet\<close>
  "job_pods k w = (\<exists>j \<in> set (w_jobs w). jb_live j \<and> jb_key j = k)"

definition no_status :: "int \<Rightarrow> JobStatus" where
  "no_status backoff = \<lparr>js_succeeded = 0, js_failed = 0, js_conditions = [], js_backoff = Some backoff\<rparr>"

definition create_job :: "string \<Rightarrow> job_key \<Rightarrow> row_id \<Rightarrow> row_id \<Rightarrow> bool \<Rightarrow> int \<Rightarrow> world \<Rightarrow> world option" where
  \<comment> \<open>\<open>None\<close>: one of that name is there already\<close>
  "create_job uid k op server forget backoff w =
     (if get_job k w \<noteq> None then None
      else Some (w\<lparr>w_jobs := w_jobs w @ [\<lparr>jb_uid = uid, jb_key = k, jb_op = op, jb_server = server,
             jb_forget = forget, jb_exists = True, jb_live = True, jb_status = no_status backoff\<rparr>]\<rparr>))"

definition delete_job :: "job_key \<Rightarrow> world \<Rightarrow> world" where
  "delete_job k w = w\<lparr>w_jobs := map (\<lambda>j. if jb_key j = k then j\<lparr>jb_exists := False\<rparr> else j) (w_jobs w)\<rparr>"

definition dir_string :: "BackupDirection \<Rightarrow> string" where
  "dir_string dir = (case dir of DirBackup \<Rightarrow> ''backup'' | DirRestore \<Rightarrow> ''restore'' | DirDatabaseImport \<Rightarrow> ''db-import'')"

definition JobName :: "bool \<Rightarrow> BackupDirection \<Rightarrow> row_id \<Rightarrow> string" where
  \<comment> \<open>a purge, made when a server is deleted, is not an operation\<close>
  "JobName forget dir i =
     (if forget then ''quetzal-forget-'' @ show_nat i else ''quetzal-'' @ dir_string dir @ ''-'' @ show_nat i)"

subsection \<open>What an operation waits for\<close>

definition stopWait :: duration where "stopWait = 15 * minute"
definition restoreWait :: duration where "restoreWait = 15 * minute"

datatype answer = Answered_made | Lost bool
  \<comment> \<open>a creation that is answered, or not: then whether the object was made\<close>

record op_env =
  oe_unusable :: string             \<comment> \<open>why the target cannot be used, if it cannot\<close>
  oe_target :: string               \<comment> \<open>\<open>TargetID(cfg)\<close>\<close>
  oe_reach :: bool                  \<comment> \<open>the cluster's clients could be made\<close>
  oe_pods :: "bool option"          \<comment> \<open>whether the game or the data manager has a pod, if it is known\<close>
  oe_game_pods :: "bool option"
  oe_databases :: "string option + string list"      \<comment> \<open>\<open>Inl (Some _)\<close> ends the operation\<close>
  oe_exclusions :: "string option + string \<times> string" \<comment> \<open>the list recorded and the note\<close>
  oe_secret :: bool                 \<comment> \<open>the credentials are in place\<close>
  oe_spec :: string
  oe_uid :: string
  oe_create :: answer
  oe_get :: bool                    \<comment> \<open>the Job could be asked for\<close>
  oe_listed :: bool                 \<comment> \<open>its pods could\<close>
  oe_adopt :: bool                  \<comment> \<open>the expiry an older release gave the Job is off\<close>
  oe_decodes :: bool                \<comment> \<open>the stored Job can be read back\<close>
  oe_keep :: int                    \<comment> \<open>\<open>retentionPolicy\<close>\<close>
  oe_size :: int
  oe_failure :: string
  oe_delete :: bool                 \<comment> \<open>the deletion of the Job was answered\<close>
  oe_creds :: bool                  \<comment> \<open>that of its credentials too\<close>
  oe_now :: time
  oe_event :: row_id
  oe_size_text :: "int \<Rightarrow> string"   \<comment> \<open>\<open>byteSize\<close>\<close>
  oe_database_name :: "row_id \<Rightarrow> string option"

definition busyServers :: "db \<Rightarrow> row_id set" where
  "busyServers d = set (map bk_server_id (ListBackupsByPhase BackupRunning d)
     @ map bk_server_id (filter (\<lambda>b. bk_job_name b \<noteq> []) (ListBackupsByPhase BackupDeleting d)))"

definition operationCluster :: "Backup \<Rightarrow> Server \<Rightarrow> row_id" where
  "operationCluster b srv = (case bk_cluster_id b of Some c \<Rightarrow> c | None \<Rightarrow> sv_cluster_id srv)"

definition op_pods :: "row_id \<Rightarrow> row_id \<Rightarrow> world \<Rightarrow> bool" where
  \<comment> \<open>pods of an operation in the server's namespace on that cluster\<close>
  "op_pods cluster i w = (\<exists>j \<in> set (w_jobs w). jb_live j \<and> fst (jb_key j) = cluster \<and> jb_server j = i)"

definition serverHasPods :: "op_env \<Rightarrow> row_id \<Rightarrow> row_id \<Rightarrow> world \<Rightarrow> bool option" where
  "serverHasPods e cluster i w = map_option (\<lambda>p. p \<or> op_pods cluster i w) (oe_pods e)"

datatype readiness = Go | Wait | Give_up string

definition readiness_of :: "op_env \<Rightarrow> Backup \<Rightarrow> Server \<Rightarrow> row_id \<Rightarrow> world \<Rightarrow> readiness" where
  "readiness_of e b srv cluster w =
     (case bk_direction b of
        DirRestore \<Rightarrow>
          (case serverHasPods e cluster (sv_id srv) w of
             None \<Rightarrow> Wait
           | Some has \<Rightarrow>
               if \<not> has then Go
               else if oe_now e - bk_created_at b > restoreWait
               then Give_up ''it never started: the server's data was still in use 15m0s after the request, so nothing was restored''
               else Wait)
      | DirDatabaseImport \<Rightarrow>
          (case oe_game_pods e of
             None \<Rightarrow> Wait
           | Some up \<Rightarrow>
               if \<not> up then Go
               else if oe_now e - bk_created_at b > restoreWait
               then Give_up ''it never started: the server was still running 15m0s after the request, so nothing was imported''
               else Wait)
      | DirBackup \<Rightarrow>
          if (sv_desired_state srv \<noteq> StateRunning \<or> sv_hibernated srv) \<and> oe_now e - bk_created_at b < stopWait
             \<and> oe_game_pods e \<noteq> Some False
          then Wait else Go)"

subsection \<open>The end of an operation\<close>

definition databaseList :: "string list \<Rightarrow> string" where
  "databaseList names =
     (case names of [n] \<Rightarrow> ''database '' @ n | _ \<Rightarrow> ''databases '' @ join '', '' names)"

definition announcement :: "op_env \<Rightarrow> Backup \<Rightarrow> string \<times> string" where
  \<comment> \<open>the event's type and text\<close>
  "announcement e b =
     (let withs = (if bk_databases b \<noteq> [] then '', with '' @ databaseList (bk_databases b) else [])
      in case bk_direction b of
        DirDatabaseImport \<Rightarrow>
          (let name = (case oe_database_name e (bk_database_id b) of
                         Some n \<Rightarrow> n | None \<Rightarrow> ''#'' @ show_nat (bk_database_id b))
           in if bk_phase b = BackupSucceeded
              then (''database.imported'', bk_path b @ '' loaded into database '' @ name)
              else (''database.import-failed'',
                    ''loading '' @ bk_path b @ '' into database '' @ name @ '' failed: '' @ bk_message b))
      | DirRestore \<Rightarrow>
          if bk_phase b = BackupSucceeded
          then (''restore.succeeded'', ''restored backup #'' @ show_nat (bk_source_id b) @ withs
                  @ (if bk_message b \<noteq> [] then ''; '' @ bk_message b else []))
          else (''restore.failed'', ''restoring backup #'' @ show_nat (bk_source_id b) @ '' failed: '' @ bk_message b)
      | DirBackup \<Rightarrow>
          if bk_phase b = BackupSucceeded
          then (''backup.succeeded'', ''backup #'' @ show_nat (bk_id b) @ '' completed''
                  @ (if bk_size_bytes b > 0 then '' ('' @ oe_size_text e (bk_size_bytes b) @ '')'' else []) @ withs)
          else (''backup.failed'', ''backup #'' @ show_nat (bk_id b) @ '' failed: '' @ bk_message b))"

definition announce :: "op_env \<Rightarrow> Backup \<Rightarrow> db \<Rightarrow> db" where
  "announce e b d =
     (case GetServer (bk_server_id b) d of
        Inl _ \<Rightarrow> d
      | Inr srv \<Rightarrow>
          (let (typ, text) = announcement e b
           in AddEvent (oe_now e) (oe_event e)
                \<lparr>ev_id = 0, ev_created_at = 0, ev_type = typ, ev_server_id = sv_id srv, ev_user_id = 0,
                 ev_username = [], ev_message = sv_slug srv @ '': '' @ text, ev_data = Map.empty\<rparr> d))"

definition complete :: "op_env \<Rightarrow> Backup \<Rightarrow> BackupPhase \<Rightarrow> int \<Rightarrow> string \<Rightarrow> int \<Rightarrow> world \<Rightarrow> bool \<times> world" where
  \<comment> \<open>whether it went through\<close>
  "complete e b phase bytes msg keepLast w =
     (let b' = b\<lparr>bk_phase := phase, bk_size_bytes := bytes, bk_message := msg, bk_completed_at := Some (oe_now e)\<rparr>
      in case CompleteBackup b' (bk_phase b) keepLast (w_db w) of
           Inl _ \<Rightarrow> (False, w)
         | Inr d \<Rightarrow> (True, w\<lparr>w_db := announce e b' d\<rparr>))"

definition finish :: "op_env \<Rightarrow> Backup \<Rightarrow> BackupPhase \<Rightarrow> int \<Rightarrow> string \<Rightarrow> world \<Rightarrow> bool \<times> world" where
  "finish e b phase bytes msg w = complete e b phase bytes msg 0 w"

definition cleanup :: "op_env \<Rightarrow> Backup \<Rightarrow> job_key \<Rightarrow> world \<Rightarrow> bool \<times> world" where
  \<comment> \<open>the Job, in the background, and its credentials\<close>
  "cleanup e b key w =
     (if bk_job_name b = [] then (oe_creds e, w)
      else if \<not> oe_delete e then (False, w)
      else (oe_creds e, delete_job key w))"

definition cleanupFinished :: "op_env \<Rightarrow> Backup \<Rightarrow> job_key \<Rightarrow> world \<Rightarrow> world" where
  "cleanupFinished e b key w =
     (let (ok, w') = cleanup e b key w
      in if ok then w'\<lparr>w_db := ClearBackupJob (bk_id b) (bk_job_name b) (w_db w')\<rparr> else w')"

definition cleanupForgotten :: "op_env \<Rightarrow> Backup \<Rightarrow> job_key \<Rightarrow> world \<Rightarrow> world" where
  "cleanupForgotten e b key w =
     (let (ok, w') = cleanup e b key w
      in if ok then w'\<lparr>w_db := DeleteBackup (bk_id b) (w_db w')\<rparr> else w')"

definition restoreNote :: "Backup \<Rightarrow> db \<Rightarrow> string" where
  "restoreNote b d =
     (if bk_direction b \<noteq> DirRestore \<or> \<not> bk_with_databases b then []
      else case GetBackup (bk_source_id b) d of
             Inl _ \<Rightarrow> []
           | Inr src \<Rightarrow>
               (let gone = filter (\<lambda>n. n \<notin> set (bk_databases b)) (bk_databases src)
                in case gone of
                     [] \<Rightarrow> []
                   | [n] \<Rightarrow> ''database '' @ n @ '' was not restored: the server no longer has it''
                   | _ \<Rightarrow> ''databases '' @ join '', '' gone @ '' were not restored: the server no longer has them''))"

definition holdOperation :: "Backup \<Rightarrow> string \<Rightarrow> world \<Rightarrow> world" where
  "holdOperation b message w =
     w\<lparr>w_db := (w_db w)\<lparr>backups := update_where (\<lambda>r. bk_id r = bk_id b \<and> bk_phase r = BackupRunning)
         (bk_message_update (\<lambda>_. message)) (backups (w_db w))\<rparr>\<rparr>"

subsection \<open>Submission\<close>

definition submit_job :: "op_env \<Rightarrow> job_key \<Rightarrow> row_id \<Rightarrow> row_id \<Rightarrow> bool \<Rightarrow> int \<Rightarrow> world \<Rightarrow> bool \<times> world" where
  \<comment> \<open>the creation of a Job: whether it was answered as made\<close>
  "submit_job e key op server forget backoff w =
     (case oe_create e of
        Lost made \<Rightarrow>
          (False, if made then (case create_job (oe_uid e) key op server forget backoff w of
                                  None \<Rightarrow> w | Some w' \<Rightarrow> w') else w)
      | Answered_made \<Rightarrow>
          (case create_job (oe_uid e) key op server forget backoff w of
             None \<Rightarrow> (False, w) | Some w' \<Rightarrow> (True, w')))"

definition observe :: "string \<Rightarrow> row_id \<Rightarrow> bool \<times> world \<Rightarrow> world" where
  "observe uid i r =
     (case r of
        (False, w) \<Rightarrow> w
      | (True, w) \<Rightarrow>
          (case ObserveBackupJob i uid (w_db w) of Inl _ \<Rightarrow> w | Inr d \<Rightarrow> w\<lparr>w_db := d\<rparr>))"

definition backoff_of :: "Backup \<Rightarrow> int" where
  \<comment> \<open>an import runs once\<close>
  "backoff_of b = (if bk_direction b = DirDatabaseImport then 0 else 1)"

definition claim_and_submit :: "op_env \<Rightarrow> Backup \<Rightarrow> row_id \<Rightarrow> string list \<Rightarrow> string \<Rightarrow> string \<Rightarrow> world \<Rightarrow> world" where
  "claim_and_submit e b cluster dbs ignored note w =
     (let imports = (bk_direction b = DirDatabaseImport);
          target = (if bk_direction b = DirBackup then oe_target e else []);
          names = (if \<not> imports \<and> dbs \<noteq> [] then Some dbs else None);
          jn = JobName False (bk_direction b) (bk_id b)
      in if \<not> oe_secret e then w
         else case ClaimBackup (bk_id b) jn target names ignored note (oe_spec e) cluster (w_db w) of
                Inl _ \<Rightarrow> w
              | Inr (False, _) \<Rightarrow> w
              | Inr (True, d) \<Rightarrow>
                  observe (oe_uid e) (bk_id b)
                    (submit_job e (cluster, jn) (bk_id b) (bk_server_id b) False (backoff_of b) (w\<lparr>w_db := d\<rparr>)))"

subsection \<open>The four lists of a tick\<close>

definition OtherTargetMessage :: string where
  "OtherTargetMessage =
     ''this backup was made to a backup target the panel no longer uses; it can be restored once that target is set again''"

definition other_target :: "op_env \<Rightarrow> Backup \<Rightarrow> db \<Rightarrow> bool" where
  "other_target e b d =
     (bk_direction b = DirRestore
      \<and> (case GetBackup (bk_source_id b) d of
           Inl _ \<Rightarrow> False | Inr src \<Rightarrow> bk_target src \<noteq> [] \<and> bk_target src \<noteq> oe_target e))"

definition start_pending :: "op_env \<Rightarrow> Backup \<Rightarrow> Server \<Rightarrow> db \<Rightarrow> world \<Rightarrow> world" where
  "start_pending e b srv d0 w =
     (let fail = (\<lambda>msg. snd (finish e b BackupFailed 0 msg w)); cluster = operationCluster b srv
      in if other_target e b d0 then fail OtherTargetMessage
         else if \<not> oe_reach e then w
         else case readiness_of e b srv cluster w of
                Wait \<Rightarrow> w
              | Give_up msg \<Rightarrow> fail msg
              | Go \<Rightarrow>
                  (case oe_databases e of
                     Inl (Some msg) \<Rightarrow> fail msg
                   | Inl None \<Rightarrow> w
                   | Inr dbs \<Rightarrow>
                       (case oe_exclusions e of
                          Inl (Some msg) \<Rightarrow> fail msg
                        | Inl None \<Rightarrow> w
                        | Inr (ignored, note) \<Rightarrow> claim_and_submit e b cluster dbs ignored note w)))"

definition not_its_transfer :: "Backup \<Rightarrow> Server \<Rightarrow> bool" where
  "not_its_transfer b srv =
     (case sv_transfer srv of
        None \<Rightarrow> False
      | Some t \<Rightarrow> tr_cancelled t \<or> (tr_backup_id t \<noteq> bk_id b \<and> tr_restore_id t \<noteq> bk_id b))"

definition pending_item :: "op_env \<Rightarrow> Backup \<Rightarrow> db \<Rightarrow> row_id set \<Rightarrow> world \<Rightarrow> row_id set \<times> world" where
  \<comment> \<open>an operation of \<open>processPending\<close>; \<open>d0\<close> is the database its server was read from\<close>
  "pending_item e b d0 busy w =
     (if bk_direction b \<noteq> DirDatabaseImport \<and> oe_unusable e \<noteq> []
      then (busy, snd (finish e b BackupFailed 0 (oe_unusable e) w))
      else if bk_server_id b \<in> busy then (busy, w)
      else case GetServer (bk_server_id b) d0 of
             Inl _ \<Rightarrow> (busy, snd (finish e b BackupFailed 0 ''server not found'' w))
           | Inr srv \<Rightarrow>
               if not_its_transfer b srv then (busy, w)
               else (insert (bk_server_id b) busy, start_pending e b srv d0 w))"

definition resumeSubmission :: "op_env \<Rightarrow> Backup \<Rightarrow> job_key \<Rightarrow> world \<Rightarrow> world" where
  \<comment> \<open>a Job that is missing is made again until it was seen once\<close>
  "resumeSubmission e b key w =
     (if bk_job_uid b \<noteq> [] \<or> bk_job_spec b = []
      then holdOperation b ''the operation Job is missing; an administrator must inspect and drain its pods before releasing the server (the operation will not be replayed)'' w
      else if \<not> oe_listed e then w
      else if job_pods key w
      then holdOperation b ''the operation Job is missing but its pods remain; an administrator must recover the Job evidence before releasing the server'' w
      else if \<not> oe_decodes e
      then holdOperation b ''the stored operation Job cannot be decoded; administrator intervention is required'' w
      else observe (oe_uid e) (bk_id b)
             (submit_job e key (bk_id b) (bk_server_id b) False (backoff_of b) w))"

definition finish_running :: "op_env \<Rightarrow> Backup \<Rightarrow> job_key \<Rightarrow> JobStatus \<Rightarrow> db \<Rightarrow> world \<Rightarrow> world" where
  "finish_running e b key status d0 w =
     (let (did, failed) = jobOutcome status
      in if did then
           (let backup = (bk_direction b = DirBackup);
                (ok, w') = complete e b BackupSucceeded (if backup then oe_size e else 0)
                  (if backup then bk_message b else restoreNote b d0) (oe_keep e) w
            in if ok then cleanupFinished e b key w' else w')
         else if failed then
           (let msg = (if oe_failure e = [] then dir_string (bk_direction b) @ '' job failed'' else oe_failure e);
                (ok, w') = finish e b BackupFailed 0 msg w
            in if ok then cleanupFinished e b key w' else w')
         else w)"

definition running_item :: "op_env \<Rightarrow> Backup \<Rightarrow> db \<Rightarrow> world \<Rightarrow> world" where
  \<comment> \<open>an operation of \<open>processRunning\<close>\<close>
  "running_item e b d0 w =
     (case GetServer (bk_server_id b) d0 of
        Inl _ \<Rightarrow> w
      | Inr srv \<Rightarrow>
          if (case sv_transfer srv of
                None \<Rightarrow> False
              | Some t \<Rightarrow> tr_cancelled t \<and> (tr_backup_id t = bk_id b \<or> tr_restore_id t = bk_id b)) then w
          else if \<not> oe_reach e \<or> \<not> oe_get e then w
          else
            (let key = (operationCluster b srv, bk_job_name b)
             in case get_job key w of
                  None \<Rightarrow> resumeSubmission e b key w
                | Some j \<Rightarrow>
                    if bk_job_uid b \<noteq> [] \<and> bk_job_uid b \<noteq> jb_uid j
                    then holdOperation b ''the operation Job was replaced; an administrator must inspect its pods before releasing the server'' w
                    else if \<not> oe_adopt e then w
                    else if bk_job_uid b = [] \<and> jb_uid j \<noteq> []
                    then (case ObserveBackupJob (bk_id b) (jb_uid j) (w_db w) of
                            Inl _ \<Rightarrow> w
                          | Inr d \<Rightarrow> finish_running e b key (jb_status j) d0 (w\<lparr>w_db := d\<rparr>))
                    else finish_running e b key (jb_status j) d0 w))"

definition deletion_over :: "op_env \<Rightarrow> Backup \<Rightarrow> job_key \<Rightarrow> JobStatus \<Rightarrow> world \<Rightarrow> world" where
  \<comment> \<open>what a deletion's Job became\<close>
  "deletion_over e b key status w =
     (let (did, failed) = jobOutcome status
      in if did then
           (case MarkBackupForgotten (bk_id b) (w_db w) of
              Inl _ \<Rightarrow> w
            | Inr d \<Rightarrow> cleanupForgotten e b key (w\<lparr>w_db := d\<rparr>))
         else if failed then
           (let b' = b\<lparr>bk_message := ''snapshot deletion failed; retrying (the snapshot may already have been removed)''\<rparr>
            in snd (cleanup e b' key (w\<lparr>w_db := UpdateBackup b' (w_db w)\<rparr>)))
         else w)"

definition forget_job :: "op_env \<Rightarrow> Backup \<Rightarrow> row_id \<Rightarrow> row_id set \<Rightarrow> world \<Rightarrow> row_id set \<times> world" where
  \<comment> \<open>the submission of a deletion's Job, claimed first when it never was\<close>
  "forget_job e b cluster busy w =
     (if oe_unusable e \<noteq> [] \<or> (bk_target b \<noteq> [] \<and> bk_target b \<noteq> oe_target e) \<or> \<not> oe_secret e then (busy, w)
      else
        (let jn = JobName True (bk_direction b) (bk_id b);
             submit = (\<lambda>w. snd (submit_job e (cluster, jn) (bk_id b) (bk_server_id b) True 1 w))
         in if bk_job_name b \<noteq> [] then (insert (bk_server_id b) busy, submit w)
            else (case ClaimBackupDeletion (bk_id b) jn cluster (w_db w) of
                    (False, _) \<Rightarrow> (busy, w)
                  | (True, d) \<Rightarrow> (insert (bk_server_id b) busy, submit (w\<lparr>w_db := d\<rparr>)))))"

definition deleting_item :: "op_env \<Rightarrow> Backup \<Rightarrow> db \<Rightarrow> row_id set \<Rightarrow> world \<Rightarrow> row_id set \<times> world" where
  \<comment> \<open>a backup of \<open>processDeleting\<close>\<close>
  "deleting_item e b d0 busy w =
     (case GetServer (bk_server_id b) d0 of
        Inl _ \<Rightarrow> (busy, w)
      | Inr srv \<Rightarrow>
          if \<not> oe_reach e then (busy, w)
          else
            (let cluster = operationCluster b srv; key = (cluster, bk_job_name b)
             in if bk_forgotten b then (busy, cleanupForgotten e b key w)
                else if bk_job_name b \<noteq> [] then
                  (if \<not> oe_get e then (busy, w)
                   else case get_job key w of
                          Some j \<Rightarrow> (busy, if oe_adopt e then deletion_over e b key (jb_status j) w else w)
                        | None \<Rightarrow>
                            if \<not> oe_listed e \<or> job_pods key w then (busy, w)
                            else forget_job e b cluster busy w)
                else if bk_server_id b \<in> busy then (busy, w)
                else forget_job e b cluster busy w))"

definition cleanup_item :: "op_env \<Rightarrow> Backup \<Rightarrow> db \<Rightarrow> world \<Rightarrow> world" where
  \<comment> \<open>a finished operation of \<open>processCleanup\<close>\<close>
  "cleanup_item e b d0 w =
     (case GetServer (bk_server_id b) d0 of
        Inl _ \<Rightarrow> w
      | Inr srv \<Rightarrow>
          if \<not> oe_reach e then w
          else cleanupFinished e b (operationCluster b srv, bk_job_name b) w)"

end
