(* ===== verification/Transfer_Manager.thy ===== *)
theory Transfer_Manager imports Backup_Manager Transfers begin

text \<open>
  The manager of transfers between clusters (\<open>internal/transfer/transfer.go\<close>): one step per tick
  for each server that moves. It queues the backup and the restore that the backup manager runs,
  moves the server's placement between them, and deletes a namespace on one side or the other:
  the source's once the transfer is committed, the target's when it is called off.
\<close>

record transfer_env =
  te_reach :: "row_id \<Rightarrow> bool"        \<comment> \<open>the clients of that cluster could be made\<close>
  te_pods :: "bool option"            \<comment> \<open>whether the game or the data manager has a pod on the source\<close>
  te_readable :: "row_id \<Rightarrow> bool"     \<comment> \<open>the record of that operation could be asked for\<close>
  te_ready :: "bool option"           \<comment> \<open>the target's volume is there\<close>
  te_delete :: "row_id \<Rightarrow> bool"       \<comment> \<open>the deletion of that operation's Job was answered\<close>
  te_gone :: "row_id \<Rightarrow> bool"         \<comment> \<open>and the Job is not there any more\<close>
  te_listed :: "row_id \<Rightarrow> bool"
  te_creds :: "row_id \<Rightarrow> bool"
  te_ns_delete :: "row_id \<Rightarrow> bool"    \<comment> \<open>the deletion of the namespace on that cluster was answered\<close>
  te_ns_gone :: "row_id \<Rightarrow> bool"
  te_now :: time
  te_new :: row_id
  te_event :: row_id

definition hasServerPods :: "transfer_env \<Rightarrow> row_id \<Rightarrow> row_id \<Rightarrow> world \<Rightarrow> bool option" where
  "hasServerPods e cluster i w = map_option (\<lambda>p. p \<or> op_pods cluster i w) (te_pods e)"

definition transfer_emit :: "transfer_env \<Rightarrow> Server \<Rightarrow> string \<Rightarrow> world \<Rightarrow> world" where
  "transfer_emit e srv msg w =
     w\<lparr>w_db := AddEvent (te_now e) (te_event e)
         \<lparr>ev_id = 0, ev_created_at = 0, ev_type = ''server.transfer'', ev_server_id = sv_id srv, ev_user_id = 0,
          ev_username = [], ev_message = sv_slug srv @ '': '' @ msg, ev_data = Map.empty\<rparr> (w_db w)\<rparr>"

definition deleteNamespace :: "transfer_env \<Rightarrow> row_id \<Rightarrow> row_id \<Rightarrow> world \<Rightarrow> bool \<times> world" where
  \<comment> \<open>whether it is gone; its Jobs go with it\<close>
  "deleteNamespace e cluster i w =
     (if \<not> te_ns_delete e cluster then (False, w)
      else (te_ns_gone e cluster,
            w\<lparr>w_jobs := map (\<lambda>j. if fst (jb_key j) = cluster \<and> jb_server j = i then j\<lparr>jb_exists := False\<rparr> else j) (w_jobs w),
              w_torn := (cluster, i) # w_torn w\<rparr>))"

definition stopOperation :: "transfer_env \<Rightarrow> Server \<Rightarrow> row_id \<Rightarrow> row_id \<Rightarrow> world \<Rightarrow> bool \<times> world" where
  \<comment> \<open>whether the operation has stopped: its Job and its pods are gone\<close>
  "stopOperation e srv i cluster w =
     (if \<not> te_readable e i then (False, w)
      else case GetBackup i (w_db w) of
             Inl _ \<Rightarrow> (True, w)
           | Inr b \<Rightarrow>
               if bk_job_name b = [] \<and> bk_phase b \<noteq> BackupRunning then (True, w)
               else
                 (let cl = (case bk_cluster_id b of Some c \<Rightarrow> c | None \<Rightarrow> cluster);
                      name = (if bk_job_name b = [] then JobName False (bk_direction b) (bk_id b) else bk_job_name b);
                      key = (cl, name)
                  in if \<not> te_reach e cl \<or> \<not> te_delete e i then (False, w)
                     else if get_job key w \<noteq> None \<and> \<not> te_gone e i then (False, w)
                     else
                       (let w1 = delete_job key w
                        in if \<not> te_listed e i \<or> job_pods key w1 \<or> \<not> te_creds e i then (False, w1)
                           else if bk_phase b = BackupRunning
                           then (case FinishCancelledTransferOperation (te_now e) (sv_id srv) (bk_id b) (w_db w1) of
                                   Inl _ \<Rightarrow> (False, w1)
                                 | Inr d \<Rightarrow> (True, w1\<lparr>w_db := d\<rparr>))
                           else (True, w1))))"

definition stop_linked :: "transfer_env \<Rightarrow> Server \<Rightarrow> row_id \<Rightarrow> row_id \<Rightarrow> world \<Rightarrow> bool \<times> world" where
  "stop_linked e srv i cluster w = (if i = 0 then (True, w) else stopOperation e srv i cluster w)"

definition rollback :: "transfer_env \<Rightarrow> Server \<Rightarrow> string \<Rightarrow> world \<Rightarrow> world" where
  "rollback e srv0 msg w =
     (case CancelServerTransfer (te_now e) (sv_id srv0) msg (w_db w) of
        Inl _ \<Rightarrow> w
      | Inr (srv, d) \<Rightarrow>
          (case sv_transfer srv of
             None \<Rightarrow> w\<lparr>w_db := d\<rparr>  \<comment> \<open>not a value \<open>CancelServerTransfer\<close> returns\<close>
           | Some t \<Rightarrow>
               (let (ok1, w1) = stop_linked e srv (tr_backup_id t) (tr_source_cluster t) (w\<lparr>w_db := d\<rparr>)
                in if \<not> ok1 then w1
                   else
                     (let (ok2, w2) = stop_linked e srv (tr_restore_id t) (tr_target_cluster t) w1
                      in if \<not> ok2 then w2
                         else
                           (let (ok3, w3) =
                              (if tr_phase t = TransferBackingUp then (True, w2)
                               else if \<not> te_reach e (tr_target_cluster t) then (False, w2)
                               else deleteNamespace e (tr_target_cluster t) (sv_id srv) w2)
                            in if \<not> ok3 then w3
                               else case FinishServerTransfer (te_now e) (sv_id srv) True (w_db w3) of
                                      Inl _ \<Rightarrow> w3
                                    | Inr d3 \<Rightarrow> transfer_emit e srv (''transfer cancelled: '' @ msg) (w3\<lparr>w_db := d3\<rparr>))))))"

definition linked_result :: "transfer_env \<Rightarrow> Server \<Rightarrow> row_id \<Rightarrow> string \<Rightarrow> world \<Rightarrow> (world \<Rightarrow> world) \<Rightarrow> world" where
  \<comment> \<open>what the linked operation came to: \<open>f\<close> goes on once it succeeded\<close>
  "linked_result e srv i what w f =
     (if \<not> te_readable e i then w
      else case GetBackup i (w_db w) of
             Inl _ \<Rightarrow> rollback e srv (what @ '' record lost'') w
           | Inr b \<Rightarrow>
               (case bk_phase b of
                  BackupSucceeded \<Rightarrow> f w
                | BackupFailed \<Rightarrow> rollback e srv (what @ '' failed: '' @ bk_message b) w
                | _ \<Rightarrow> w))"

definition queue_linked :: "transfer_env \<Rightarrow> Server \<Rightarrow> BackupDirection \<Rightarrow> world \<Rightarrow> world" where
  "queue_linked e srv dir w =
     (case CreateTransferOperation (te_now e) (te_new e) (sv_id srv) dir (w_db w) of
        Inl _ \<Rightarrow> w | Inr d \<Rightarrow> w\<lparr>w_db := d\<rparr>)"

definition advanceBackingUp :: "transfer_env \<Rightarrow> Server \<Rightarrow> TransferState \<Rightarrow> world \<Rightarrow> world" where
  "advanceBackingUp e srv t w =
     (if tr_backup_id t = 0 then
        (if \<not> te_reach e (tr_source_cluster t) then w
         else if hasServerPods e (tr_source_cluster t) (sv_id srv) w \<noteq> Some False then w
         else queue_linked e srv DirBackup w)
      else linked_result e srv (tr_backup_id t) ''backup'' w
             (\<lambda>w. case AdvanceServerTransfer (te_now e) (sv_id srv) (w_db w) of
                     Inl _ \<Rightarrow> w | Inr d \<Rightarrow> w\<lparr>w_db := d\<rparr>))"

definition advanceCommitting :: "transfer_env \<Rightarrow> Server \<Rightarrow> TransferState \<Rightarrow> world \<Rightarrow> world" where
  "advanceCommitting e srv t w =
     (if \<not> te_reach e (tr_source_cluster t) then w
      else
        (let (ok, w1) = deleteNamespace e (tr_source_cluster t) (sv_id srv) w
         in if \<not> ok then w1
            else case FinishServerTransfer (te_now e) (sv_id srv) False (w_db w1) of
                   Inl _ \<Rightarrow> w1
                 | Inr d \<Rightarrow> transfer_emit e srv (''transfer to cluster '' @ show_nat (tr_target_cluster t) @ '' complete'')
                              (w1\<lparr>w_db := d\<rparr>)))"

definition advanceRestoring :: "transfer_env \<Rightarrow> Server \<Rightarrow> TransferState \<Rightarrow> world \<Rightarrow> world" where
  "advanceRestoring e srv t w =
     (if \<not> te_reach e (tr_target_cluster t) then w
      else if tr_restore_id t = 0 then
        (if te_ready e = Some True then queue_linked e srv DirRestore w else w)
      else linked_result e srv (tr_restore_id t) ''restore'' w
             (\<lambda>w. case CommitServerTransfer (te_now e) (sv_id srv) (w_db w) of
                     Inl _ \<Rightarrow> w | Inr d \<Rightarrow> advanceCommitting e srv t (w\<lparr>w_db := d\<rparr>)))"

definition transfer_item :: "transfer_env \<Rightarrow> Server \<Rightarrow> world \<Rightarrow> world" where
  \<comment> \<open>a server of \<open>Process\<close>, as it was listed\<close>
  "transfer_item e srv w =
     (case sv_transfer srv of
        None \<Rightarrow> w
      | Some t \<Rightarrow>
          if tr_cancelled t then rollback e srv (tr_message t) w
          else case tr_phase t of
                 TransferBackingUp \<Rightarrow> advanceBackingUp e srv t w
               | TransferRestoring \<Rightarrow> advanceRestoring e srv t w
               | TransferCommitting \<Rightarrow> advanceCommitting e srv t w)"

end
