(* ===== verification/Controller.thy ===== *)
theory Controller imports Transfer_Manager Store_Props begin

text \<open>
  The leader's controller (\<open>cmd/controller/main.go\<close>) as far as it runs Jobs: the managers of
  transfers and of backups take turns in one goroutine, while the API's transactions and the
  cluster go on between any two of their statements that touch what both read. An item of a
  list acts on a world that may have moved on since its server was read; the database's own
  conditions (\<open>ClaimBackup\<close>, \<open>ClaimBackupDeletion\<close>, \<open>CompleteBackup\<close>) and the list of busy servers
  are what keeps two Jobs of one server apart. A leader may stop between two items, or have an
  answer lost, at any moment.

  What the API may do meanwhile is the interface \<open>clients\<close>: it neither takes up nor lets go of an
  operation, and the keys of its new rows are new ones. The interpretation is the store's
  transactions the API makes.
\<close>

section \<open>Steps\<close>

datatype mode =
    Idle
  | Transfers "Server list"
  | Cleaning "Backup list"
  | Pending "row_id set" "Backup list"
  | Running "Backup list"
  | Deleting "row_id set" "Backup list"

definition sids :: "db \<Rightarrow> row_id set" where
  "sids d = sv_id ` set (servers d)"

definition keys_below :: "row_id \<Rightarrow> db \<Rightarrow> bool" where
  "keys_below n d = ((\<forall>i \<in> sids d. i < n) \<and> (\<forall>b \<in> set (backups d). bk_id b < n \<and> bk_server_id b < n))"

definition job_goes :: "job \<Rightarrow> job \<Rightarrow> bool" where
  \<comment> \<open>a Job runs to an end, or is deleted; one that may still run has no outcome yet\<close>
  "job_goes j j' =
     (jb_uid j' = jb_uid j \<and> jb_key j' = jb_key j \<and> jb_op j' = jb_op j \<and> jb_server j' = jb_server j
      \<and> jb_forget j' = jb_forget j \<and> (jb_exists j' \<longrightarrow> jb_exists j) \<and> (jb_live j' \<longrightarrow> jb_live j)
      \<and> (jb_live j' \<longrightarrow> jobOutcome (jb_status j') = (False, False)))"

inductive outside_step :: "(row_id \<Rightarrow> db \<Rightarrow> db \<Rightarrow> bool) \<Rightarrow> world \<Rightarrow> world \<Rightarrow> bool" for api where
  transaction: "api (w_seq w) (w_db w) d \<Longrightarrow> w_seq w \<le> n \<Longrightarrow> keys_below n d \<Longrightarrow>
    outside_step api w (w\<lparr>w_db := d, w_seq := n\<rparr>)"
| cluster: "list_all2 job_goes (w_jobs w) js \<Longrightarrow> outside_step api w (w\<lparr>w_jobs := js\<rparr>)"

abbreviation outside :: "(row_id \<Rightarrow> db \<Rightarrow> db \<Rightarrow> bool) \<Rightarrow> world \<Rightarrow> world \<Rightarrow> bool" where
  "outside api \<equiv> (outside_step api)\<^sup>*\<^sup>*"

definition new_uid :: "op_env \<Rightarrow> world \<Rightarrow> bool" where
  "new_uid e w = (oe_uid e \<notin> jb_uid ` set (w_jobs w))"

inductive ctl_step :: "(row_id \<Rightarrow> db \<Rightarrow> db \<Rightarrow> bool) \<Rightarrow> world \<times> mode \<Rightarrow> world \<times> mode \<Rightarrow> bool" for api where
  others: "outside_step api w w' \<Longrightarrow> ctl_step api (w, m) (w', m)"
| stopped: "ctl_step api (w, m) (w, Idle)"
| list_transfers: "ctl_step api (w, Idle) (w, Transfers (ListServersWithTransfer (w_db w)))"
| transfer: "outside api w w1 \<Longrightarrow> w_seq w1 \<le> te_new e \<Longrightarrow>
    ctl_step api (w, Transfers (s # ss)) ((transfer_item e s w1)\<lparr>w_seq := Suc (te_new e)\<rparr>, Transfers ss)"
| list_cleanup: "ctl_step api (w, Idle) (w, Cleaning (ListBackupCleanup (w_db w)))"
| clean: "outside api w w1 \<Longrightarrow>
    ctl_step api (w, Cleaning (b # bs)) (cleanup_item e b (w_db w) w1, Cleaning bs)"
| list_pending: "outside api w w1 \<Longrightarrow>
    ctl_step api (w, Idle) (w1, Pending (busyServers (w_db w1)) (ListBackupsByPhase BackupPending (w_db w)))"
| pending: "outside api w w1 \<Longrightarrow> new_uid e w1 \<Longrightarrow> pending_item e b (w_db w) busy w1 = (busy', w') \<Longrightarrow>
    ctl_step api (w, Pending busy (b # bs)) (w', Pending busy' bs)"
| list_running: "ctl_step api (w, Idle) (w, Running (ListBackupsByPhase BackupRunning (w_db w)))"
| running: "outside api w w1 \<Longrightarrow> new_uid e w1 \<Longrightarrow>
    ctl_step api (w, Running (b # bs)) (running_item e b (w_db w) w1, Running bs)"
| list_deleting: "outside api w w1 \<Longrightarrow>
    ctl_step api (w, Idle) (w1, Deleting (busyServers (w_db w1)) (ListBackupsByPhase BackupDeleting (w_db w)))"
| deleting: "outside api w w1 \<Longrightarrow> new_uid e w1 \<Longrightarrow> deleting_item e b (w_db w) busy w1 = (busy', w') \<Longrightarrow>
    ctl_step api (w, Deleting busy (b # bs)) (w', Deleting busy' bs)"

section \<open>What holds of every world\<close>

lemma last_dash:
  assumes "xs @ CHR ''-'' # show_nat m = ys @ CHR ''-'' # show_nat n"
  shows "xs = ys \<and> m = n"
proof -
  have dash: "CHR ''-'' \<notin> set (show_nat k)" for k
    using show_nat_digits [of "CHR ''-''" k] by (auto simp: is_digit_def byte_def)
  have "rev (show_nat m) @ CHR ''-'' # rev xs = rev (show_nat n) @ CHR ''-'' # rev ys"
    using arg_cong [OF assms, of rev] by simp
  then have "takeWhile (\<lambda>c. c \<noteq> CHR ''-'') (rev (show_nat m) @ CHR ''-'' # rev xs)
      = takeWhile (\<lambda>c. c \<noteq> CHR ''-'') (rev (show_nat n) @ CHR ''-'' # rev ys)" by simp
  moreover have "takeWhile (\<lambda>c. c \<noteq> CHR ''-'') (rev (show_nat k) @ CHR ''-'' # zs) = rev (show_nat k)" for k zs
    using dash [of k] by (subst takeWhile_append2) auto
  ultimately have "show_nat m = show_nat n" by simp
  with assms show ?thesis by simp
qed

lemma JobName_inject: "JobName f dir i = JobName f' dir' i' \<Longrightarrow> f = f' \<and> i = i'"
proof -
  assume eq: "JobName f dir i = JobName f' dir' i'"
  have form: "JobName f dir i = (''quetzal-'' @ (if f then ''forget'' else dir_string dir)) @ CHR ''-'' # show_nat i" for f dir i
    by (simp add: JobName_def)
  from last_dash [OF eq [unfolded form]] have *: "(if f then ''forget'' else dir_string dir) = (if f' then ''forget'' else dir_string dir')" "i = i'"
    by simp_all
  then show ?thesis by (auto simp: dir_string_def split: if_splits BackupDirection.splits)
qed

definition held :: "Backup \<Rightarrow> bool" where
  \<comment> \<open>an operation that may have a Job\<close>
  "held b = (bk_phase b = BackupRunning \<or> bk_phase b = BackupDeleting \<and> bk_job_name b \<noteq> [])"

definition op_row :: "Backup \<Rightarrow> job \<Rightarrow> bool" where
  "op_row b j =
     (bk_id b = jb_op j \<and> bk_server_id b = jb_server j \<and> held b
      \<and> bk_cluster_id b = Some (fst (jb_key j)) \<and> bk_job_name b = snd (jb_key j)
      \<and> bk_phase b = (if jb_forget j then BackupDeleting else BackupRunning) \<and> \<not> bk_forgotten b)"

definition jobs_ok :: "world \<Rightarrow> bool" where
  "jobs_ok w =
     ((\<forall>j \<in> set (w_jobs w). jb_live j \<longrightarrow> jobOutcome (jb_status j) = (False, False)
         \<and> (jb_server j \<in> sids (w_db w) \<longrightarrow> (\<exists>b \<in> set (backups (w_db w)). op_row b j)))
      \<and> (\<forall>j \<in> set (w_jobs w). \<forall>j' \<in> set (w_jobs w).
            jb_live j \<and> jb_live j' \<and> jb_server j = jb_server j' \<longrightarrow> jb_uid j = jb_uid j')
      \<and> (\<forall>j \<in> set (w_jobs w). \<forall>j' \<in> set (w_jobs w).
            jb_live j \<and> jb_exists j' \<and> jb_key j = jb_key j' \<longrightarrow> jb_uid j = jb_uid j')
      \<and> distinct (map jb_uid (w_jobs w))
      \<and> (\<forall>j \<in> set (w_jobs w). jb_server j < w_seq w \<and> jb_op j < w_seq w
            \<and> (\<exists>dir. snd (jb_key j) = JobName (jb_forget j) dir (jb_op j))
            \<and> (\<forall>b \<in> set (backups (w_db w)). bk_id b = jb_op j \<longrightarrow> bk_server_id b = jb_server j)))"

definition rows_ok :: "db \<Rightarrow> bool" where
  "rows_ok d =
     ((\<forall>b \<in> set (backups d). \<forall>b' \<in> set (backups d).
         held b \<and> held b' \<and> bk_server_id b = bk_server_id b' \<longrightarrow> bk_id b = bk_id b')
      \<and> (\<forall>b \<in> set (backups d). held b \<longrightarrow> bk_cluster_id b \<noteq> None
            \<and> bk_job_name b = JobName (bk_phase b = BackupDeleting) (bk_direction b) (bk_id b))
      \<and> (\<forall>b \<in> set (backups d). bk_forgotten b \<longrightarrow> held b \<and> bk_phase b = BackupDeleting))"

definition world_ok :: "world \<Rightarrow> bool" where
  "world_ok w = (store_inv (w_db w) \<and> keys_below (w_seq w) (w_db w) \<and> jobs_ok w \<and> rows_ok (w_db w))"

lemma jobs_okD:
  assumes "jobs_ok w" "j \<in> set (w_jobs w)"
  shows "jb_live j \<Longrightarrow> jobOutcome (jb_status j) = (False, False)"
    "jb_live j \<Longrightarrow> jb_server j \<in> sids (w_db w) \<Longrightarrow> \<exists>b \<in> set (backups (w_db w)). op_row b j"
    "jb_server j < w_seq w"
    "j' \<in> set (w_jobs w) \<Longrightarrow> jb_live j \<Longrightarrow> jb_live j' \<Longrightarrow> jb_server j = jb_server j' \<Longrightarrow> jb_uid j = jb_uid j'"
    "j' \<in> set (w_jobs w) \<Longrightarrow> jb_live j \<Longrightarrow> jb_exists j' \<Longrightarrow> jb_key j = jb_key j' \<Longrightarrow> jb_uid j = jb_uid j'"
    "jb_op j < w_seq w" "\<exists>dir. snd (jb_key j) = JobName (jb_forget j) dir (jb_op j)"
    "b \<in> set (backups (w_db w)) \<Longrightarrow> bk_id b = jb_op j \<Longrightarrow> bk_server_id b = jb_server j"
  using assms unfolding jobs_ok_def by blast+

lemma rows_okD:
  assumes "rows_ok d" "b \<in> set (backups d)"
  shows "b' \<in> set (backups d) \<Longrightarrow> held b \<Longrightarrow> held b' \<Longrightarrow> bk_server_id b = bk_server_id b' \<Longrightarrow> bk_id b = bk_id b'"
    "held b \<Longrightarrow> bk_job_name b = JobName (bk_phase b = BackupDeleting) (bk_direction b) (bk_id b)"
    "bk_forgotten b \<Longrightarrow> held b" "bk_forgotten b \<Longrightarrow> bk_phase b = BackupDeleting" "held b \<Longrightarrow> bk_cluster_id b \<noteq> None"
  using assms unfolding rows_ok_def by blast+

section \<open>Moves that take nothing up\<close>

definition carried :: "row_id set \<Rightarrow> Backup \<Rightarrow> Backup \<Rightarrow> bool" where
  \<comment> \<open>what became of a row; only an operation of \<open>S\<close> may be let go of\<close>
  "carried S b b' =
     (bk_id b' = bk_id b \<and> bk_server_id b' = bk_server_id b \<and> bk_direction b' = bk_direction b
      \<and> (held b' \<longrightarrow> held b \<and> bk_phase b' = bk_phase b \<and> bk_job_name b' = bk_job_name b \<and> bk_cluster_id b' = bk_cluster_id b)
      \<and> (held b \<and> \<not> held b' \<longrightarrow> bk_id b \<in> S \<and> bk_phase b = BackupRunning)
      \<and> (bk_forgotten b' \<longrightarrow> bk_forgotten b \<or> bk_id b \<in> S \<and> held b' \<and> bk_phase b' = BackupDeleting)
      \<and> (bk_forgotten b \<longrightarrow> bk_forgotten b'))"

definition new_row :: "row_id \<Rightarrow> Backup \<Rightarrow> bool" where
  "new_row n b = (n \<le> bk_id b \<and> \<not> held b \<and> \<not> bk_forgotten b)"

definition rows_go :: "row_id set \<Rightarrow> row_id \<Rightarrow> db \<Rightarrow> db \<Rightarrow> bool" where
  "rows_go S n d d' =
     ((\<forall>b' \<in> set (backups d'). (\<exists>b \<in> set (backups d). carried S b b') \<or> new_row n b')
      \<and> (\<forall>b \<in> set (backups d). held b \<and> bk_server_id b \<in> sids d' \<and> bk_id b \<notin> S \<longrightarrow> bk_id b \<in> bk_id ` set (backups d'))
      \<and> (\<forall>i \<in> sids d'. i \<in> sids d \<or> n \<le> i) \<and> store_inv d')"

definition tame :: "row_id set \<Rightarrow> world \<Rightarrow> world \<Rightarrow> bool" where
  "tame S w w' =
     (rows_go S (w_seq w) (w_db w) (w_db w') \<and> keys_below (w_seq w') (w_db w') \<and> w_seq w \<le> w_seq w'
      \<and> list_all2 job_goes (w_jobs w) (w_jobs w')
      \<and> (\<forall>j \<in> set (w_jobs w'). jb_live j \<and> jb_op j \<in> S \<longrightarrow> jb_server j \<notin> sids (w_db w')))"

lemma carried_refl [simp]: "carried S b b"
  by (simp add: carried_def)

lemma carriedD:
  assumes "carried S b b'"
  shows "bk_id b' = bk_id b" "bk_server_id b' = bk_server_id b" "bk_direction b' = bk_direction b"
    "held b' \<Longrightarrow> held b" "held b' \<Longrightarrow> bk_phase b' = bk_phase b" "held b' \<Longrightarrow> bk_job_name b' = bk_job_name b"
    "held b' \<Longrightarrow> bk_cluster_id b' = bk_cluster_id b"
    "held b \<Longrightarrow> \<not> held b' \<Longrightarrow> bk_id b \<in> S" "held b \<Longrightarrow> \<not> held b' \<Longrightarrow> bk_phase b = BackupRunning"
    "bk_forgotten b' \<Longrightarrow> bk_forgotten b \<or> bk_id b \<in> S \<and> held b' \<and> bk_phase b' = BackupDeleting"
    "bk_forgotten b \<Longrightarrow> bk_forgotten b'"
  using assms by (simp_all add: carried_def)

lemma carried_trans:
  assumes 1: "carried S a b" and 2: "carried S' b c"
  shows "carried (S \<union> S') a c"
  unfolding carried_def
proof (intro conjI impI)
  show "bk_id c = bk_id a" "bk_server_id c = bk_server_id a" "bk_direction c = bk_direction a"
    using carriedD(1-3) [OF 1] carriedD(1-3) [OF 2] by simp_all
  show "held a" "bk_phase c = bk_phase a" "bk_job_name c = bk_job_name a" "bk_cluster_id c = bk_cluster_id a" if "held c"
    using carriedD(4-7) [OF 1] carriedD(4-7) [OF 2] that by simp_all
  show "bk_id a \<in> S \<union> S'" "bk_phase a = BackupRunning" if "held a \<and> \<not> held c"
    using carriedD(1,5,8,9) [OF 1] carriedD(8,9) [OF 2] that by (cases "held b"; simp)+
  show "bk_forgotten a \<or> bk_id a \<in> S \<union> S' \<and> held c \<and> bk_phase c = BackupDeleting" if f: "bk_forgotten c"
  proof (cases "bk_forgotten a")
    case False
    from carriedD(10) [OF 2 f] consider "bk_forgotten b" | "bk_id b \<in> S'" "held c" "bk_phase c = BackupDeleting" by blast
    then show ?thesis
    proof cases
      case 1
      with carriedD(10) [OF assms(1) this] False have b: "bk_id a \<in> S" "held b" "bk_phase b = BackupDeleting" by auto
      moreover have "held c" using carriedD(9) [OF 2 b(2)] b(3) by auto
      ultimately show ?thesis using carriedD(5) [OF 2] by simp
    qed (use carriedD(1) [OF assms(1)] in simp)
  qed simp
  show "bk_forgotten c" if "bk_forgotten a" using carriedD(11) [OF 2 carriedD(11) [OF 1 that]] .
qed

lemma world_ids: "store_inv d \<Longrightarrow> b \<in> set (backups d) \<Longrightarrow> b' \<in> set (backups d) \<Longrightarrow> bk_id b = bk_id b' \<Longrightarrow> b = b'"
  unfolding store_inv_def ids_ok_def by (metis inj_on_contraD distinct_map)

lemma job_goes_refl [simp]: "job_goes j j \<longleftrightarrow> (jb_live j \<longrightarrow> jobOutcome (jb_status j) = (False, False))"
  by (simp add: job_goes_def)

lemma job_goes_trans: "job_goes a b \<Longrightarrow> job_goes b c \<Longrightarrow> job_goes a c"
  by (auto simp: job_goes_def)

lemma jobs_go_uids: "list_all2 job_goes js js' \<Longrightarrow> map jb_uid js' = map jb_uid js"
  by (induction js js' rule: list_all2_induct) (auto simp: job_goes_def)

lemma jobs_go_back:
  assumes "list_all2 job_goes js js'" "j' \<in> set js'"
  obtains j where "j \<in> set js" "job_goes j j'"
  using assms by (induction js js' rule: list_all2_induct) auto

lemma rows_go_carried:
  assumes "rows_go S n d d'" "keys_below n d" "store_inv d" "b \<in> set (backups d)" "b' \<in> set (backups d')" "bk_id b' = bk_id b"
  shows "carried S b b'"
proof -
  from assms(1,5) consider a where "a \<in> set (backups d)" "carried S a b'" | "new_row n b'"
    by (auto simp: rows_go_def)
  then show ?thesis
  proof cases
    case 1
    then have "bk_id a = bk_id b" using assms(6) by (simp add: carried_def)
    with 1 assms(3,4) world_ids show ?thesis by blast
  next
    case 2
    with assms(2,4,6) show ?thesis by (auto simp: new_row_def keys_below_def)
  qed
qed

lemma rows_go_persist:
  assumes "rows_go S n d d'" "keys_below n d" "store_inv d" "b \<in> set (backups d)" "held b"
    "bk_server_id b \<in> sids d'" "bk_id b \<notin> S"
  obtains b' where "b' \<in> set (backups d')" "carried S b b'" "held b'"
proof -
  from assms obtain b' where b': "b' \<in> set (backups d')" "bk_id b' = bk_id b" unfolding rows_go_def by force
  with rows_go_carried [OF assms(1-4) this] that [of b'] assms(5,7) show ?thesis by (auto simp: carried_def)
qed

lemma rows_go_sid: "rows_go S n d d' \<Longrightarrow> i \<in> sids d' \<Longrightarrow> i < n \<Longrightarrow> i \<in> sids d"
  by (auto simp: rows_go_def)

lemma tame_ok:
  assumes ok: "world_ok w" and t: "tame S w w'"
  shows "world_ok w'"
proof -
  let ?d = "w_db w" and ?d' = "w_db w'"
  have rg: "rows_go S (w_seq w) ?d ?d'" and kb: "keys_below (w_seq w) ?d" and si: "store_inv ?d"
    and jg: "list_all2 job_goes (w_jobs w) (w_jobs w')" and jo: "jobs_ok w" and ro: "rows_ok ?d"
    using ok t by (simp_all add: world_ok_def tame_def)
  have live: "\<exists>j \<in> set (w_jobs w). job_goes j j'" if "j' \<in> set (w_jobs w')" for j'
    using jobs_go_back [OF jg that] by blast
  have uids: "map jb_uid (w_jobs w') = map jb_uid (w_jobs w)" using jobs_go_uids [OF jg] .
  have row: "\<exists>b' \<in> set (backups ?d'). op_row b' j'"
    if j': "j' \<in> set (w_jobs w')" "jb_live j'" "jb_server j' \<in> sids ?d'" for j'
  proof -
    obtain j where j: "j \<in> set (w_jobs w)" "job_goes j j'" using live [OF j'(1)] by blast
    have same: "jb_live j" "jb_server j' = jb_server j" "jb_op j' = jb_op j" "jb_key j' = jb_key j" "jb_forget j' = jb_forget j"
      using j(2) j'(2) by (simp_all add: job_goes_def)
    have "jb_server j \<in> sids ?d"
      using rows_go_sid [OF rg j'(3)] jobs_okD(3) [OF jo j(1)] same(2) by simp
    from jobs_okD(2) [OF jo j(1) same(1) this] obtain b where b: "b \<in> set (backups ?d)" "op_row b j" by blast
    have "jb_op j' \<notin> S" using t j' unfolding tame_def by blast
    then have notS: "bk_id b \<notin> S" using b(2) same(3) by (simp add: op_row_def)
    have "bk_server_id b \<in> sids ?d'" "held b" using b(2) same(2) j'(3) by (simp_all add: op_row_def)
    then obtain b' where b': "b' \<in> set (backups ?d')" "carried S b b'" "held b'"
      using rows_go_persist [OF rg kb si b(1) _ _ notS] by blast
    have "\<not> bk_forgotten b'" using carriedD(10) [OF b'(2)] notS b(2) by (auto simp: op_row_def)
    then have "op_row b' j'" using b(2) b'(3) carriedD(1,2,5-7) [OF b'(2)] same by (simp add: op_row_def)
    with b'(1) show ?thesis by blast
  qed
  have "jobs_ok w'"
    unfolding jobs_ok_def
  proof (intro conjI ballI impI)
    fix j' assume j': "j' \<in> set (w_jobs w')"
    obtain j where j: "j \<in> set (w_jobs w)" "job_goes j j'" using live [OF j'] by blast
    show "jobOutcome (jb_status j') = (False, False)" if "jb_live j'" using j that by (simp add: job_goes_def)
    show "\<exists>b \<in> set (backups ?d'). op_row b j'" if "jb_live j'" "jb_server j' \<in> sids ?d'" using row [OF j' that] .
    have "w_seq w \<le> w_seq w'" using t by (simp add: tame_def)
    with jobs_okD(3,6) [OF jo j(1)] j(2) show "jb_server j' < w_seq w'" "jb_op j' < w_seq w'" by (simp_all add: job_goes_def)
    show "\<exists>dir. snd (jb_key j') = JobName (jb_forget j') dir (jb_op j')"
      using jobs_okD(7) [OF jo j(1)] j(2) by (simp add: job_goes_def)
    show "bk_server_id b = jb_server j'" if b: "b \<in> set (backups ?d')" "bk_id b = jb_op j'" for b
    proof -
      from rg b(1) consider a where "a \<in> set (backups ?d)" "carried S a b" | "new_row (w_seq w) b"
        unfolding rows_go_def by blast
      then show ?thesis
      proof cases
        case 1
        with jobs_okD(8) [OF jo j(1) 1(1)] carriedD(1,2) [OF 1(2)] b(2) j(2) show ?thesis by (simp add: job_goes_def)
      next
        case 2
        with jobs_okD(6) [OF jo j(1)] b(2) j(2) show ?thesis by (simp add: new_row_def job_goes_def)
      qed
    qed
    fix k' assume k': "k' \<in> set (w_jobs w')"
    obtain k where k: "k \<in> set (w_jobs w)" "job_goes k k'" using live [OF k'] by blast
    show "jb_uid j' = jb_uid k'" if "jb_live j' \<and> jb_live k' \<and> jb_server j' = jb_server k'"
      using jobs_okD(4) [OF jo j(1) k(1)] j(2) k(2) that by (simp add: job_goes_def)
    show "jb_uid j' = jb_uid k'" if "jb_live j' \<and> jb_exists k' \<and> jb_key j' = jb_key k'"
      using jobs_okD(5) [OF jo j(1) k(1)] j(2) k(2) that by (simp add: job_goes_def)
  next
    show "distinct (map jb_uid (w_jobs w'))" using uids jo by (simp add: jobs_ok_def)
  qed
  moreover have "rows_ok ?d'"
  proof -
    have old: "\<exists>a \<in> set (backups ?d). carried S a b" if "b \<in> set (backups ?d')" "held b \<or> bk_forgotten b" for b
      using rg that unfolding rows_go_def new_row_def by blast
    have ro': "bk_phase a = BackupDeleting \<and> held a" if "a \<in> set (backups ?d)" "bk_forgotten a" for a
      using rows_okD(3,4) [OF ro that(1)] that(2) by blast
    show ?thesis
      unfolding rows_ok_def
    proof (intro conjI ballI impI)
      fix b assume b: "b \<in> set (backups ?d')"
      show "bk_cluster_id b \<noteq> None" "bk_job_name b = JobName (bk_phase b = BackupDeleting) (bk_direction b) (bk_id b)" if h: "held b"
      proof -
        obtain a where a: "a \<in> set (backups ?d)" "carried S a b" using old [OF b] h by blast
        then show "bk_cluster_id b \<noteq> None" "bk_job_name b = JobName (bk_phase b = BackupDeleting) (bk_direction b) (bk_id b)"
          using h rows_okD(2,5) [OF ro a(1)] carriedD(1,3,4-7) [OF a(2)] by simp_all
      qed
      have "held b \<and> bk_phase b = BackupDeleting" if f: "bk_forgotten b"
      proof -
        obtain a where a: "a \<in> set (backups ?d)" "carried S a b" using old [OF b] f by blast
        show ?thesis
        proof (cases "bk_forgotten a")
          case True
          then have "bk_phase a = BackupDeleting" "held a" using ro' a(1) by blast+
          with carriedD(5,9) [OF a(2)] show ?thesis by auto
        qed (use carriedD(10) [OF a(2) f] in blast)
      qed
      then show "bk_forgotten b \<Longrightarrow> held b" "bk_forgotten b \<Longrightarrow> bk_phase b = BackupDeleting" by blast+
      fix b2 assume b2: "b2 \<in> set (backups ?d')"
      show "bk_id b = bk_id b2" if h: "held b \<and> held b2 \<and> bk_server_id b = bk_server_id b2"
      proof -
        obtain a where a: "a \<in> set (backups ?d)" "carried S a b" using old [OF b] h by blast
        obtain a2 where a2: "a2 \<in> set (backups ?d)" "carried S a2 b2" using old [OF b2] h by blast
        from h carriedD(1,2,4) [OF a(2)] carriedD(1,2,4) [OF a2(2)] rows_okD(1) [OF ro a(1) a2(1)] show ?thesis by simp
      qed
    qed
  qed
  ultimately show ?thesis using t by (simp add: world_ok_def tame_def rows_go_def)
qed

lemma tame_trans:
  assumes ok: "world_ok w" and 1: "tame S w w1" and 2: "tame S' w1 w2"
  shows "tame (S \<union> S') w w2"
proof -
  let ?d = "w_db w" and ?d1 = "w_db w1" and ?d2 = "w_db w2"
  have ok1: "world_ok w1" using tame_ok [OF ok 1] .
  have r1: "rows_go S (w_seq w) ?d ?d1" and r2: "rows_go S' (w_seq w1) ?d1 ?d2"
    and le: "w_seq w \<le> w_seq w1" "w_seq w1 \<le> w_seq w2" and kb: "keys_below (w_seq w) ?d" and si: "store_inv ?d"
    and kb1: "keys_below (w_seq w1) ?d1" and si1: "store_inv ?d1"
    and jg: "list_all2 job_goes (w_jobs w) (w_jobs w1)" "list_all2 job_goes (w_jobs w1) (w_jobs w2)"
    using 1 2 ok ok1 by (simp_all add: tame_def world_ok_def)
  have was: "i \<in> sids ?d1" if "i \<in> sids ?d2" "i < w_seq w" for i
    using rows_go_sid [OF r2 that(1)] that(2) le(1) by simp
  have rows: "(\<exists>b \<in> set (backups ?d). carried (S \<union> S') b b2) \<or> new_row (w_seq w) b2" if b2: "b2 \<in> set (backups ?d2)" for b2
  proof -
    from r2 b2 consider b1 where "b1 \<in> set (backups ?d1)" "carried S' b1 b2" | "new_row (w_seq w1) b2"
      unfolding rows_go_def by blast
    then show ?thesis
    proof cases
      case c: 1
      from r1 c(1) consider b where "b \<in> set (backups ?d)" "carried S b b1" | "new_row (w_seq w) b1"
        unfolding rows_go_def by blast
      then show ?thesis
      proof cases
        case 1
        with carried_trans c(2) show ?thesis by blast
      next
        case 2
        with carriedD(1,4,10) [OF c(2)] show ?thesis unfolding new_row_def by auto
      qed
    next
      case 2
      with le show ?thesis by (simp add: new_row_def)
    qed
  qed
  have keep: "bk_id b \<in> bk_id ` set (backups ?d2)"
    if b: "b \<in> set (backups ?d)" "held b" "bk_server_id b \<in> sids ?d2" "bk_id b \<notin> S \<union> S'" for b
  proof -
    have "bk_server_id b < w_seq w" using kb b(1) by (simp add: keys_below_def)
    then have "bk_server_id b \<in> sids ?d1" using was b(3) by blast
    then obtain b1 where b1: "b1 \<in> set (backups ?d1)" "carried S b b1" "held b1"
      using rows_go_persist [OF r1 kb si b(1,2)] b(4) by blast
    then obtain b2 where "b2 \<in> set (backups ?d2)" "carried S' b1 b2"
      using rows_go_persist [OF r2 kb1 si1 b1(1,3)] b(3,4) carriedD(1,2) [OF b1(2)] by auto
    then show ?thesis
      by (intro rev_image_eqI [of b2]) (use carriedD(1) [OF b1(2)] carriedD(1) [of S' b1 b2] in simp_all)
  qed
  have "rows_go (S \<union> S') (w_seq w) ?d ?d2"
    unfolding rows_go_def
  proof (intro conjI ballI impI)
    show "(\<exists>b \<in> set (backups ?d). carried (S \<union> S') b b') \<or> new_row (w_seq w) b'" if "b' \<in> set (backups ?d2)" for b'
      using rows [OF that] .
    show "bk_id b \<in> bk_id ` set (backups ?d2)"
      if "b \<in> set (backups ?d)" "held b \<and> bk_server_id b \<in> sids ?d2 \<and> bk_id b \<notin> S \<union> S'" for b
      using keep that by blast
    show "i \<in> sids ?d \<or> w_seq w \<le> i" if "i \<in> sids ?d2" for i
      using was [OF that] rows_go_sid [OF r1] by force
    show "store_inv ?d2" using r2 by (simp add: rows_go_def)
  qed
  moreover have "list_all2 job_goes (w_jobs w) (w_jobs w2)"
    using list_all2_trans [OF job_goes_trans jg] .
  moreover have "jb_server j \<notin> sids ?d2" if j: "j \<in> set (w_jobs w2)" "jb_live j" "jb_op j \<in> S \<union> S'" for j
  proof (cases "jb_op j \<in> S'")
    case True
    with 2 j show ?thesis unfolding tame_def by blast
  next
    case False
    obtain j1 where j1: "j1 \<in> set (w_jobs w1)" "job_goes j1 j" using jobs_go_back [OF jg(2) j(1)] .
    obtain j0 where j0: "j0 \<in> set (w_jobs w)" "job_goes j0 j1" using jobs_go_back [OF jg(1) j1(1)] .
    have "jb_server j < w_seq w"
      using jobs_okD(3) [OF _ j0(1)] ok j0(2) j1(2) by (simp add: world_ok_def job_goes_def)
    moreover have "jb_server j1 \<notin> sids ?d1" using 1 j1 j False unfolding tame_def job_goes_def by auto
    ultimately show ?thesis using was j1(2) by (auto simp: job_goes_def)
  qed
  ultimately show ?thesis using 2 le unfolding tame_def by auto
qed

lemma tame_refl: "world_ok w \<Longrightarrow> tame {} w w"
  unfolding tame_def rows_go_def world_ok_def
  by (auto simp: list.rel_refl_strong dest: jobs_okD(1) intro!: list.rel_refl_strong bexI)

lemma tame_mono:
  assumes "tame S w w'" "S \<subseteq> T" "\<forall>j \<in> set (w_jobs w'). jb_live j \<and> jb_op j \<in> T \<longrightarrow> jb_server j \<notin> sids (w_db w')"
  shows "tame T w w'"
proof -
  have "carried S b b' \<Longrightarrow> carried T b b'" for b b' using assms(2) by (auto simp: carried_def)
  with assms show ?thesis unfolding tame_def rows_go_def by blast
qed

subsection \<open>Statements on the database\<close>

lemma jobs_same: "jobs_ok w \<Longrightarrow> list_all2 job_goes (w_jobs w) (w_jobs w)"
  by (rule list.rel_refl_strong) (auto dest: jobs_okD(1))

lemma tame_db:
  assumes "world_ok w" "rows_go S (w_seq w) (w_db w) d" "keys_below (w_seq w) d"
    "\<forall>j \<in> set (w_jobs w). jb_live j \<and> jb_op j \<in> S \<longrightarrow> jb_server j \<notin> sids d"
  shows "tame S w (w\<lparr>w_db := d\<rparr>)"
  using assms jobs_same by (simp add: tame_def world_ok_def)

lemma tame_update:
  assumes ok: "world_ok w" and b: "backups d = update_where P f (backups (w_db w))" and s: "sids d = sids (w_db w)"
    and f: "\<And>b. b \<in> set (backups (w_db w)) \<Longrightarrow> P b \<Longrightarrow> carried S b (f b)" and inv: "store_inv d"
    and S: "\<And>j. j \<in> set (w_jobs w) \<Longrightarrow> jb_live j \<Longrightarrow> jb_op j \<in> S \<Longrightarrow> jb_server j \<notin> sids d"
  shows "tame S w (w\<lparr>w_db := d\<rparr>)"
proof (rule tame_db [OF ok])
  have g: "carried S b (if P b then f b else b)" if "b \<in> set (backups (w_db w))" for b using f that by simp
  show "rows_go S (w_seq w) (w_db w) d"
    unfolding rows_go_def
  proof (intro conjI ballI impI)
    fix b' assume "b' \<in> set (backups d)"
    then show "(\<exists>b \<in> set (backups (w_db w)). carried S b b') \<or> new_row (w_seq w) b'"
      using g unfolding b set_update_where by blast
  next
    fix r assume r: "r \<in> set (backups (w_db w))"
    then have "(if P r then f r else r) \<in> set (backups d)" unfolding b set_update_where by blast
    then show "bk_id r \<in> bk_id ` set (backups d)"
      by (rule rev_image_eqI) (use carriedD(1) [OF g [OF r]] in simp)
  qed (simp_all add: s inv)
  have "keys_below (w_seq w) (w_db w)" using ok by (simp add: world_ok_def)
  with s carriedD(1,2) [OF f] show "keys_below (w_seq w) d"
    unfolding keys_below_def b set_update_where by auto
qed (use S in blast)

lemma tame_delete:
  assumes ok: "world_ok w" and b: "backups d = delete_where P (backups (w_db w))" and s: "sids d = sids (w_db w)"
    and P: "\<And>b. b \<in> set (backups (w_db w)) \<Longrightarrow> P b \<Longrightarrow> held b \<Longrightarrow> bk_server_id b \<in> sids d \<Longrightarrow> bk_id b \<in> S" and inv: "store_inv d"
    and S: "\<And>j. j \<in> set (w_jobs w) \<Longrightarrow> jb_live j \<Longrightarrow> jb_op j \<in> S \<Longrightarrow> jb_server j \<notin> sids d"
  shows "tame S w (w\<lparr>w_db := d\<rparr>)"
proof (rule tame_db [OF ok])
  show "rows_go S (w_seq w) (w_db w) d"
    unfolding rows_go_def
  proof (intro conjI ballI impI)
    fix b' assume "b' \<in> set (backups d)"
    then show "(\<exists>b \<in> set (backups (w_db w)). carried S b b') \<or> new_row (w_seq w) b'"
      unfolding b by (auto simp: delete_where_def intro: bexI [of _ b'])
  next
    fix r assume "r \<in> set (backups (w_db w))" "held r \<and> bk_server_id r \<in> sids d \<and> bk_id r \<notin> S"
    with P have "r \<in> set (backups d)" unfolding b by (auto simp: delete_where_def)
    then show "bk_id r \<in> bk_id ` set (backups d)" by simp
  qed (simp_all add: s inv)
  have "keys_below (w_seq w) (w_db w)" using ok by (simp add: world_ok_def)
  with s show "keys_below (w_seq w) d" unfolding keys_below_def b by (auto simp: delete_where_def)
qed (use S in blast)

section \<open>What a list keeps of the rows it was made of\<close>

definition known :: "world \<Rightarrow> Backup \<Rightarrow> bool" where
  "known w b =
     (bk_id b < w_seq w \<and> bk_server_id b < w_seq w
      \<and> (\<forall>r \<in> set (backups (w_db w)). bk_id r = bk_id b \<longrightarrow>
            bk_server_id r = bk_server_id b \<and> bk_direction r = bk_direction b))"

definition same_hold :: "Backup \<Rightarrow> Backup \<Rightarrow> bool" where
  "same_hold b r =
     (held r \<and> bk_phase r = bk_phase b \<and> bk_job_name r = bk_job_name b \<and> bk_cluster_id r = bk_cluster_id b
      \<and> bk_forgotten r = bk_forgotten b)"

definition tracked :: "world \<Rightarrow> Backup \<Rightarrow> bool" where
  \<comment> \<open>an operation taken up, as long as its server is there\<close>
  "tracked w b =
     (known w b \<and> held b \<and> bk_job_name b = JobName (bk_phase b = BackupDeleting) (bk_direction b) (bk_id b)
      \<and> (\<forall>r \<in> set (backups (w_db w)). bk_id r = bk_id b \<longrightarrow> same_hold b r)
      \<and> (bk_server_id b \<in> sids (w_db w) \<longrightarrow> (\<exists>r \<in> set (backups (w_db w)). bk_id r = bk_id b)))"

definition busy_ok :: "world \<Rightarrow> row_id set \<Rightarrow> bool" where
  "busy_ok w busy = (\<forall>r \<in> set (backups (w_db w)). held r \<longrightarrow> bk_server_id r \<in> busy)"

definition item_ok :: "row_id \<Rightarrow> row_id set \<Rightarrow> row_id set \<Rightarrow> world \<Rightarrow> world \<Rightarrow> bool" where
  \<comment> \<open>what dealing with operation \<open>k\<close> leaves of everything else\<close>
  "item_ok k busy busy' w w' =
     (world_ok w' \<and> w_seq w \<le> w_seq w' \<and> (busy_ok w busy \<longrightarrow> busy_ok w' busy')
      \<and> (\<forall>b. known w b \<longrightarrow> known w' b) \<and> (\<forall>b. tracked w b \<and> bk_id b \<noteq> k \<longrightarrow> tracked w' b))"

lemma known_tame:
  assumes "tame S w w'" "known w b"
  shows "known w' b"
  unfolding known_def
proof (intro conjI ballI impI)
  show "bk_id b < w_seq w'" "bk_server_id b < w_seq w'" using assms by (simp_all add: known_def tame_def)
  fix r assume r: "r \<in> set (backups (w_db w'))" "bk_id r = bk_id b"
  with assms(1) consider a where "a \<in> set (backups (w_db w))" "carried S a r" | "new_row (w_seq w) r"
    unfolding tame_def rows_go_def by blast
  then have "bk_server_id r = bk_server_id b \<and> bk_direction r = bk_direction b"
  proof cases
    case 1
    with r assms(2) carriedD(1-3) [OF 1(2)] show ?thesis by (simp add: known_def)
  next
    case 2
    with r assms(2) show ?thesis by (simp add: known_def new_row_def)
  qed
  then show "bk_server_id r = bk_server_id b" "bk_direction r = bk_direction b" by blast+
qed

lemma tracked_tame:
  assumes ok: "world_ok w" and t: "tame S w w'" and b: "tracked w b" "bk_id b \<notin> S"
  shows "tracked w' b"
proof -
  have rg: "rows_go S (w_seq w) (w_db w) (w_db w')" "keys_below (w_seq w) (w_db w)" "store_inv (w_db w)"
    using ok t by (simp_all add: world_ok_def tame_def)
  have kn: "known w b" using b(1) by (simp add: tracked_def)
  have hold: "same_hold b r" if r: "r \<in> set (backups (w_db w'))" "bk_id r = bk_id b" for r
  proof -
    from rg(1) r(1) consider a where "a \<in> set (backups (w_db w))" "carried S a r" | "new_row (w_seq w) r"
      unfolding rows_go_def by blast
    then show ?thesis
    proof cases
      case c: 1
      have a: "same_hold b a" "bk_id a \<notin> S" using b c r(2) carriedD(1) [OF c(2)] by (auto simp: tracked_def)
      then have "held r" using carriedD(8) [OF c(2)] by (auto simp: same_hold_def)
      moreover have "bk_forgotten r = bk_forgotten a" using carriedD(10,11) [OF c(2)] a(2) by blast
      ultimately show ?thesis using a(1) carriedD(5-7) [OF c(2)] by (simp add: same_hold_def)
    next
      case 2
      with r(2) kn show ?thesis by (simp add: new_row_def known_def)
    qed
  qed
  show ?thesis
    unfolding tracked_def
  proof (intro conjI ballI impI)
    show "known w' b" using known_tame [OF t kn] .
    show "held b" "bk_job_name b = JobName (bk_phase b = BackupDeleting) (bk_direction b) (bk_id b)"
      using b(1) by (simp_all add: tracked_def)
    show "same_hold b r" if "r \<in> set (backups (w_db w'))" "bk_id r = bk_id b" for r using hold that .
    assume i: "bk_server_id b \<in> sids (w_db w')"
    show "\<exists>r \<in> set (backups (w_db w')). bk_id r = bk_id b"
    proof -
      have "bk_server_id b \<in> sids (w_db w)" using rows_go_sid [OF rg(1) i] kn by (simp add: known_def)
      with b(1) obtain r where r: "r \<in> set (backups (w_db w))" "bk_id r = bk_id b" by (auto simp: tracked_def)
      with b(1) kn have "held r" "bk_server_id r = bk_server_id b" by (auto simp: tracked_def same_hold_def known_def)
      then obtain r' where "r' \<in> set (backups (w_db w'))" "carried S r r'"
        using rows_go_persist [OF rg r(1)] i r(2) b(2) by auto
      with carriedD(1) r(2) show ?thesis by (intro bexI [of _ r']) auto
    qed
  qed
qed

lemma busy_tame: "tame S w w' \<Longrightarrow> busy_ok w busy \<Longrightarrow> busy_ok w' busy"
  unfolding busy_ok_def
proof (intro ballI impI)
  fix r assume t: "tame S w w'" "\<forall>r \<in> set (backups (w_db w)). held r \<longrightarrow> bk_server_id r \<in> busy"
    and r: "r \<in> set (backups (w_db w'))" "held r"
  from t(1) r obtain a where "a \<in> set (backups (w_db w))" "carried S a r"
    unfolding tame_def rows_go_def new_row_def by blast
  with t(2) carriedD(2,4) r(2) show "bk_server_id r \<in> busy" by metis
qed

lemma item_tame:
  assumes "world_ok w" "tame S w w'" "S \<subseteq> {k}" "busy \<subseteq> busy'"
  shows "item_ok k busy busy' w w'"
proof -
  have "w_seq w \<le> w_seq w'" using assms(2) by (simp add: tame_def)
  moreover have "busy_ok w' busy'" if "busy_ok w busy"
    using busy_tame [OF assms(2) that] assms(4) by (auto simp: busy_ok_def)
  ultimately show ?thesis
    unfolding item_ok_def
    using tame_ok [OF assms(1,2)] known_tame [OF assms(2)] tracked_tame [OF assms(1,2)] assms(3) by blast
qed

lemma item_refl: "world_ok w \<Longrightarrow> busy \<subseteq> busy' \<Longrightarrow> item_ok k busy busy' w w"
  by (rule item_tame [OF _ tame_refl]) auto

lemma item_trans:
  assumes "item_ok k busy busy' w w1" "item_ok k busy' busy'' w1 w2"
  shows "item_ok k busy busy'' w w2"
  using assms unfolding item_ok_def by (metis order_trans)

subsection \<open>Jobs made, deleted and taken up\<close>

lemma item_jobs:
  assumes "world_ok w'" "w_db w' = w_db w" "w_seq w' = w_seq w" "busy \<subseteq> busy'"
  shows "item_ok k busy busy' w w'"
  using assms by (auto simp: item_ok_def known_def tracked_def busy_ok_def)

lemma create_job_ok:
  assumes ok: "world_ok w" and c: "create_job uid key k i fg bo w = Some w'"
    and uid: "uid \<notin> jb_uid ` set (w_jobs w)" and i: "i < w_seq w" and bo: "0 \<le> bo"
    and k: "k < w_seq w" "\<And>b. b \<in> set (backups (w_db w)) \<Longrightarrow> bk_id b = k \<Longrightarrow> bk_server_id b = i"
    and name: "snd key = JobName fg dir k"
    and idle: "\<And>j. j \<in> set (w_jobs w) \<Longrightarrow> jb_live j \<Longrightarrow> jb_server j \<noteq> i \<and> jb_key j \<noteq> key"
    and row: "i \<in> sids (w_db w) \<Longrightarrow> \<exists>b \<in> set (backups (w_db w)). bk_id b = k \<and> bk_server_id b = i \<and> held b
       \<and> bk_cluster_id b = Some (fst key) \<and> bk_job_name b = snd key
       \<and> bk_phase b = (if fg then BackupDeleting else BackupRunning) \<and> \<not> bk_forgotten b"
  shows "world_ok w'" "w_db w' = w_db w" "w_seq w' = w_seq w"
proof -
  define nj where "nj = \<lparr>jb_uid = uid, jb_key = key, jb_op = k, jb_server = i, jb_forget = fg, jb_exists = True,
    jb_live = True, jb_status = no_status bo\<rparr>"
  have w': "w' = w\<lparr>w_jobs := w_jobs w @ [nj]\<rparr>" and free: "get_job key w = None"
    using c by (auto simp: create_job_def nj_def split: if_splits)
  then show "w_db w' = w_db w" "w_seq w' = w_seq w" by simp_all
  have jo: "jobs_ok w" using ok by (simp add: world_ok_def)
  have none: "\<not> (jb_exists j \<and> jb_key j = key)" if "j \<in> set (w_jobs w)" for j
    using free that by (auto simp: get_job_def find_None_iff)
  have nj: "jb_uid nj = uid" "jb_key nj = key" "jb_server nj = i" "jb_op nj = k" "jb_forget nj = fg" "jb_live nj" "jb_exists nj"
    "jobOutcome (jb_status nj) = (False, False)"
    by (simp_all add: nj_def) (use bo in \<open>simp add: jobOutcome_def no_status_def\<close>)
  have js: "set (w_jobs w') = insert nj (set (w_jobs w))" "w_db w' = w_db w" "w_seq w' = w_seq w" by (simp_all add: w')
  have old_uid: "jb_uid j \<noteq> uid" if "j \<in> set (w_jobs w)" for j using uid that by auto
  have "jobs_ok w'"
    unfolding jobs_ok_def
  proof (intro conjI ballI impI)
    fix j assume j: "j \<in> set (w_jobs w')"
    show "jobOutcome (jb_status j) = (False, False)" if "jb_live j"
      using j nj jobs_okD(1) [OF jo _ that] by (auto simp: js)
    show "\<exists>b \<in> set (backups (w_db w')). op_row b j" if "jb_live j" "jb_server j \<in> sids (w_db w')"
    proof (cases "j = nj")
      case True
      with row that nj show ?thesis unfolding op_row_def js by metis
    next
      case False
      with j jobs_okD(2) [OF jo, of j] that show ?thesis by (simp add: js)
    qed
    show "jb_server j < w_seq w'" "jb_op j < w_seq w'" using j nj i k jobs_okD(3,6) [OF jo] by (auto simp: js)
    show "\<exists>dir. snd (jb_key j) = JobName (jb_forget j) dir (jb_op j)"
      using j nj name jobs_okD(7) [OF jo] by (auto simp: js)
    show "bk_server_id b = jb_server j" if "b \<in> set (backups (w_db w'))" "bk_id b = jb_op j" for b
      using j nj k(2) that jobs_okD(8) [OF jo] by (auto simp: js)
    fix j' assume j': "j' \<in> set (w_jobs w')"
    show "jb_uid j = jb_uid j'" if h: "jb_live j \<and> jb_live j' \<and> jb_server j = jb_server j'"
      using j j' h nj idle [of j] idle [of j'] jobs_okD(4) [OF jo, of j j'] by (auto simp: js)
    show "jb_uid j = jb_uid j'" if h: "jb_live j \<and> jb_exists j' \<and> jb_key j = jb_key j'"
    proof (cases "j = nj \<or> j' = nj")
      case True
      show ?thesis
      proof (cases "j = nj")
        case True
        with none [of j'] h nj j' show ?thesis by (auto simp: js)
      next
        case False
        with True have eqs: "j' = nj" "j \<in> set (w_jobs w)" using j by (auto simp: js)
        with idle [of j] h nj show ?thesis by simp
      qed
    next
      case False
      with j j' jobs_okD(5) [OF jo, of j j'] h show ?thesis by (simp add: js)
    qed
  next
    show "distinct (map jb_uid (w_jobs w'))" using jo uid nj(1) by (auto simp: jobs_ok_def w')
  qed
  with ok show "world_ok w'" by (simp add: world_ok_def w')
qed

lemma take_up:
  assumes ok: "world_ok w" and r: "r \<in> set (backups (w_db w))" "\<not> held r"
    and alone: "\<And>b. b \<in> set (backups (w_db w)) \<Longrightarrow> held b \<Longrightarrow> bk_server_id b \<noteq> bk_server_id r"
    and d: "set (backups d) = insert r' (set (backups (w_db w)) - {r})" "sids d = sids (w_db w)" "store_inv d"
    and r': "bk_id r' = bk_id r" "bk_server_id r' = bk_server_id r" "bk_direction r' = bk_direction r" "held r'"
      "bk_job_name r' = JobName (bk_phase r' = BackupDeleting) (bk_direction r) (bk_id r)" "\<not> bk_forgotten r'"
      "bk_cluster_id r' \<noteq> None"
  shows "item_ok (bk_id r) busy (insert (bk_server_id r) busy) w (w\<lparr>w_db := d\<rparr>)"
proof -
  let ?w = "w\<lparr>w_db := d\<rparr>"
  have si: "store_inv (w_db w)" and kb: "keys_below (w_seq w) (w_db w)" and jo: "jobs_ok w" and ro: "rows_ok (w_db w)"
    using ok by (simp_all add: world_ok_def)
  have rows: "b = r' \<or> b \<in> set (backups (w_db w)) \<and> b \<noteq> r" if "b \<in> set (backups d)" for b using that d(1) by auto
  have other: "b \<in> set (backups d)" if "b \<in> set (backups (w_db w))" "b \<noteq> r" for b using that d(1) by auto
  have ids: "bk_id b \<noteq> bk_id r" if "b \<in> set (backups (w_db w))" "b \<noteq> r" for b
    using world_ids [OF si that(1) r(1)] that(2) by blast
  have "jobs_ok ?w"
    unfolding jobs_ok_def
  proof (intro conjI ballI impI)
    fix j assume "j \<in> set (w_jobs ?w)"
    then have j: "j \<in> set (w_jobs w)" by simp
    show "jobOutcome (jb_status j) = (False, False)" if "jb_live j" using jobs_okD(1) [OF jo j that] .
    show "\<exists>b \<in> set (backups (w_db ?w)). op_row b j" if l: "jb_live j" "jb_server j \<in> sids (w_db ?w)"
    proof -
      obtain b where b: "b \<in> set (backups (w_db w))" "op_row b j" using jobs_okD(2) [OF jo j l(1)] l(2) d(2) by auto
      then have "b \<noteq> r" using r(2) by (auto simp: op_row_def)
      with other [OF b(1)] b(2) show ?thesis by auto
    qed
    show "jb_server j < w_seq ?w" "jb_op j < w_seq ?w" using jobs_okD(3,6) [OF jo j] by simp_all
    show "\<exists>dir. snd (jb_key j) = JobName (jb_forget j) dir (jb_op j)" using jobs_okD(7) [OF jo j] .
    show "bk_server_id b = jb_server j" if "b \<in> set (backups (w_db ?w))" "bk_id b = jb_op j" for b
      using rows [of b] that jobs_okD(8) [OF jo j, of b] jobs_okD(8) [OF jo j r(1)] r' by auto
    fix j' assume "j' \<in> set (w_jobs ?w)"
    then have j': "j' \<in> set (w_jobs w)" by simp
    show "jb_uid j = jb_uid j'" if "jb_live j \<and> jb_live j' \<and> jb_server j = jb_server j'"
      using jobs_okD(4) [OF jo j j'] that by blast
    show "jb_uid j = jb_uid j'" if "jb_live j \<and> jb_exists j' \<and> jb_key j = jb_key j'"
      using jobs_okD(5) [OF jo j j'] that by blast
  qed (use jo in \<open>simp add: jobs_ok_def\<close>)
  moreover have "rows_ok d"
    unfolding rows_ok_def
  proof (intro conjI ballI impI)
    fix b assume b: "b \<in> set (backups d)"
    show "bk_cluster_id b \<noteq> None" "bk_job_name b = JobName (bk_phase b = BackupDeleting) (bk_direction b) (bk_id b)" if "held b"
      using rows [OF b] r' rows_okD(2,5) [OF ro, of b] that by auto
    show "held b" "bk_phase b = BackupDeleting" if "bk_forgotten b"
      using rows [OF b] r'(6) rows_okD(3,4) [OF ro, of b] that by auto
    fix b2 assume b2: "b2 \<in> set (backups d)"
    show "bk_id b = bk_id b2" if "held b \<and> held b2 \<and> bk_server_id b = bk_server_id b2"
      using rows [OF b] rows [OF b2] that alone [of b] alone [of b2] r' rows_okD(1) [OF ro, of b b2] by auto
  qed
  moreover have "keys_below (w_seq w) d"
    unfolding keys_below_def
  proof (intro conjI ballI)
    show "i < w_seq w" if "i \<in> sids d" for i using kb d(2) that by (simp add: keys_below_def)
    fix b assume "b \<in> set (backups d)"
    from rows [OF this] kb r'(1,2) r(1) show "bk_id b < w_seq w" "bk_server_id b < w_seq w"
      by (auto simp: keys_below_def)
  qed
  ultimately have "world_ok ?w" using d(3) by (simp add: world_ok_def)
  moreover have "busy_ok ?w (insert (bk_server_id r) busy)" if "busy_ok w busy"
    using that rows r'(2) by (auto simp: busy_ok_def)
  moreover have kn: "known ?w b" if "known w b" for b
    unfolding known_def
  proof (intro conjI ballI impI)
    show "bk_id b < w_seq ?w" "bk_server_id b < w_seq ?w" using that by (simp_all add: known_def)
    fix x assume "x \<in> set (backups (w_db ?w))" "bk_id x = bk_id b"
    with rows [of x] r' r(1) that show "bk_server_id x = bk_server_id b" "bk_direction x = bk_direction b"
      by (auto simp: known_def)
  qed
  moreover have "tracked ?w b" if b: "tracked w b" "bk_id b \<noteq> bk_id r" for b
    unfolding tracked_def
  proof (intro conjI ballI impI)
    show "known ?w b" using kn b(1) by (simp add: tracked_def)
    show "held b" "bk_job_name b = JobName (bk_phase b = BackupDeleting) (bk_direction b) (bk_id b)"
      using b(1) by (simp_all add: tracked_def)
    show "same_hold b x" if "x \<in> set (backups (w_db ?w))" "bk_id x = bk_id b" for x
      using rows [of x] that b r'(1) by (auto simp: tracked_def)
    show "\<exists>x \<in> set (backups (w_db ?w)). bk_id x = bk_id b" if i: "bk_server_id b \<in> sids (w_db ?w)"
    proof -
      have "bk_server_id b \<in> sids (w_db w)" using i d(2) by simp
      with b(1) obtain x where x: "x \<in> set (backups (w_db w))" "bk_id x = bk_id b" unfolding tracked_def by blast
      with b(2) have "x \<noteq> r" by auto
      with other [OF x(1)] x(2) show ?thesis by auto
    qed
  qed
  ultimately show ?thesis by (simp add: item_ok_def)
qed

lemma update_one:
  assumes "store_inv d" "r \<in> set (backups d)" "P r" "\<And>b. P b \<Longrightarrow> bk_id b = bk_id r"
  shows "set (update_where P f (backups d)) = insert (f r) (set (backups d) - {r})"
proof -
  have eq: "b = r" if "b \<in> set (backups d)" "P b" for b
    using world_ids [OF assms(1) that(1) assms(2) assms(4) [OF that(2)]] .
  have "(if P b then f b else b) = (if b = r then f r else b)" if "b \<in> set (backups d)" for b
    using eq [OF that] assms(3) by (cases "b = r") auto
  then have "set (update_where P f (backups d)) = (\<lambda>b. if b = r then f r else b) ` set (backups d)"
    unfolding set_update_where by (intro image_cong) auto
  also have "\<dots> = insert (f r) (set (backups d) - {r})" using assms(2) by auto
  finally show ?thesis .
qed

end
