(* ===== verification/Controller_Items.thy ===== *)
theory Controller_Items imports Controller begin

text \<open>
  What each item of the managers' lists (\<open>internal/backup/manager.go\<close>, \<open>internal/transfer/transfer.go\<close>)
  leaves of the Jobs, the rows and the lists in hand: \<open>item_ok\<close>. The argument against a second
  Job is made where the item's server was read: whatever has happened since, no Job was made.
\<close>

section \<open>Statements\<close>

lemma sim_inv: "sim d d' \<Longrightarrow> store_inv d \<Longrightarrow> store_inv d'"
  using sim_steps power_steps_inv unfolding store_inv_def by blast

lemma world_inv: "world_ok w \<Longrightarrow> store_inv (w_db w)"
  by (simp add: world_ok_def)

lemma tame_same:
  assumes "world_ok w" "backups d = backups (w_db w)" "sids d = sids (w_db w)" "store_inv d"
  shows "tame {} w (w\<lparr>w_db := d\<rparr>)"
  by (rule tame_update [where P = "\<lambda>_. False" and f = "\<lambda>b. b"]) (use assms in \<open>simp_all add: update_where_def\<close>)

lemma sids_update_server [simp]: "(\<And>s. sv_id (f s) = sv_id s) \<Longrightarrow> sids (update_server c i f d) = sids d"
proof -
  assume f: "\<And>s. sv_id (f s) = sv_id s"
  have "map sv_id (servers (update_server c i f d)) = map sv_id (servers d)"
    by (simp add: update_server_def update_where_def f)
  then show ?thesis unfolding sids_def set_map [symmetric] by simp
qed

lemma sids_backups [simp]: "sids (d\<lparr>backups := bs\<rparr>) = sids d" "sids (AddEvent c n e d) = sids d"
  by (simp_all add: sids_def)

lemma sids_update_backup [simp]: "sids (update_backup i f d) = sids d"
  by (simp add: sids_def)

lemma GetServer_sids: "GetServer i d = Inr s \<Longrightarrow> i \<in> sids d"
  by (auto simp: GetServer_def sids_def dest!: find_SomeD split: option.splits)

lemma lockServer_sids: "lockServer i d = Inr s \<Longrightarrow> i \<in> sids d"
  by (auto simp: sids_def dest!: find_SomeD)

lemma tame_event:
  assumes "world_ok w"
  shows "tame {} w (w\<lparr>w_db := AddEvent c n e (w_db w)\<rparr>)"
  using assms by (intro tame_same) (auto intro: store_step_inv [OF store_step.other_tables] world_inv)

lemma tame_announce: "world_ok w \<Longrightarrow> tame {} w (w\<lparr>w_db := announce e b (w_db w)\<rparr>)"
  by (auto simp: announce_def case_prod_unfold Let_def tame_event split: sum.splits intro: tame_refl)

lemma tame_jobs:
  assumes "world_ok w" "\<And>j. jb_uid (f j) = jb_uid j \<and> jb_key (f j) = jb_key j \<and> jb_op (f j) = jb_op j
      \<and> jb_server (f j) = jb_server j \<and> jb_forget (f j) = jb_forget j \<and> jb_live (f j) = jb_live j
      \<and> jb_status (f j) = jb_status j \<and> (jb_exists (f j) \<longrightarrow> jb_exists j)"
  shows "tame {} w (w\<lparr>w_jobs := map f (w_jobs w)\<rparr>)" "tame {} w (w\<lparr>w_jobs := map f (w_jobs w), w_torn := ts\<rparr>)"
proof -
  have "list_all2 job_goes (w_jobs w) (map f (w_jobs w))"
    unfolding list.rel_map
    by (rule list.rel_refl_strong) (use assms in \<open>auto simp: job_goes_def world_ok_def dest: jobs_okD(1)\<close>)
  then show "tame {} w (w\<lparr>w_jobs := map f (w_jobs w)\<rparr>)" "tame {} w (w\<lparr>w_jobs := map f (w_jobs w), w_torn := ts\<rparr>)"
    using tame_refl [OF assms(1)] by (simp_all add: tame_def)
qed

lemma tame_delete_job: "world_ok w \<Longrightarrow> tame {} w (delete_job k w)"
  unfolding delete_job_def by (rule tame_jobs) auto

lemma tame_cleanup: "world_ok w \<Longrightarrow> tame {} w (snd (cleanup e b k w))"
  by (simp add: cleanup_def tame_delete_job tame_refl)

lemma cleanup_frame [simp]: "w_db (snd (cleanup e b k w)) = w_db w" "w_seq (snd (cleanup e b k w)) = w_seq w"
  by (simp_all add: cleanup_def delete_job_def)

lemma cleanup_live: "j \<in> set (w_jobs (snd (cleanup e b k w))) \<Longrightarrow> jb_live j \<Longrightarrow>
    \<exists>j0 \<in> set (w_jobs w). jb_live j0 \<and> jb_op j0 = jb_op j \<and> jb_server j0 = jb_server j"
  by (auto simp: cleanup_def delete_job_def split: if_splits)

lemma tame_then:
  assumes "world_ok w" "tame S w w1" "world_ok w1 \<Longrightarrow> tame {} w1 w2"
  shows "tame S w w2"
  using tame_trans [OF assms(1,2) assms(3) [OF tame_ok [OF assms(1,2)]]] by simp

lemma tame_after:
  assumes "world_ok w" "tame {} w w1" "world_ok w1 \<Longrightarrow> tame S w1 w2"
  shows "tame S w w2"
  using tame_trans [OF assms(1,2) assms(3) [OF tame_ok [OF assms(1,2)]]] by simp

lemma tame_update0:
  assumes "world_ok w" "store_inv d" "d = (w_db w)\<lparr>backups := update_where P f (backups (w_db w))\<rparr>"
    and "\<And>b. b \<in> set (backups (w_db w)) \<Longrightarrow> P b \<Longrightarrow> carried {} b (f b)"
  shows "tame {} w (w\<lparr>w_db := d\<rparr>)"
  by (rule tame_update [OF assms(1) _ _ _ assms(2), where P = P and f = f]) (use assms(3,4) in simp_all)

lemma tame_ClearBackupJob: "world_ok w \<Longrightarrow> tame {} w (w\<lparr>w_db := ClearBackupJob i jn (w_db w)\<rparr>)"
  by (rule tame_update0 [OF _ store_step_inv [OF store_step.clear_job world_inv] ClearBackupJob_def])
    (auto simp: carried_def held_def op_finished_def)

lemma tame_cleanupFinished: "world_ok w \<Longrightarrow> tame {} w (cleanupFinished e b k w)"
  using tame_then [OF _ tame_cleanup tame_ClearBackupJob]
  by (auto simp: cleanupFinished_def case_prod_unfold Let_def tame_cleanup)

lemma tame_hold:
  assumes "world_ok w"
  shows "tame {} w (holdOperation b msg w)"
  unfolding holdOperation_def
proof (rule tame_update0 [OF assms _ refl])
  show "store_inv ((w_db w)\<lparr>backups := update_where (\<lambda>r. bk_id r = bk_id b \<and> bk_phase r = BackupRunning)
      (bk_message_update (\<lambda>_. msg)) (backups (w_db w))\<rparr>)"
    by (rule sim_inv [OF sim_backups_same [where P = "\<lambda>r. bk_id r = bk_id b \<and> bk_phase r = BackupRunning"
        and f = "bk_message_update (\<lambda>_. msg)"] world_inv [OF assms]]) (simp_all add: oper_of_def)
qed (auto simp: carried_def held_def)

lemma tame_ObserveBackupJob:
  assumes "world_ok w" "ObserveBackupJob i uid (w_db w) = Inr d"
  shows "tame {} w (w\<lparr>w_db := d\<rparr>)"
proof (rule tame_update0 [OF assms(1)])
  show "store_inv d" using store_step_inv [OF store_step.observe_job [OF assms(2)] world_inv [OF assms(1)]] .
  show "d = (w_db w)\<lparr>backups := update_where (\<lambda>b. bk_id b = i \<and> bk_phase b = BackupRunning \<and> (bk_job_uid b = [] \<or> bk_job_uid b = uid))
      (bk_job_uid_update (\<lambda>_. uid)) (backups (w_db w))\<rparr>"
    using assms(2) by (simp add: ObserveBackupJob_def Let_def split: if_splits)
qed (auto simp: carried_def held_def)

lemma tame_observe: "world_ok w \<Longrightarrow> tame {} w (observe uid i (ok, w))"
  by (auto simp: observe_def tame_refl tame_ObserveBackupJob split: bool.splits sum.splits)


section \<open>The Job of an operation in hand\<close>

lemma its_job:
  assumes ok: "world_ok w" and t: "tame {} w w1" and b: "tracked w b" "bk_server_id b \<in> sids (w_db w)"
    and j: "j \<in> set (w_jobs w1)" "jb_live j" "jb_server j = bk_server_id b \<or> jb_op j = bk_id b"
  shows "jb_op j = bk_id b" "jb_server j = bk_server_id b" "bk_cluster_id b = Some (fst (jb_key j))"
    "bk_job_name b = snd (jb_key j)" "\<not> bk_forgotten b"
proof -
  have jo: "jobs_ok w" and ro: "rows_ok (w_db w)" using ok by (simp_all add: world_ok_def)
  obtain j0 where j0: "j0 \<in> set (w_jobs w)" "job_goes j0 j"
    using t j(1) by (auto simp: tame_def elim: jobs_go_back)
  then have same: "jb_live j0" "jb_server j0 = jb_server j" "jb_op j0 = jb_op j" "jb_key j0 = jb_key j"
    using j(2) by (simp_all add: job_goes_def)
  obtain r where r: "r \<in> set (backups (w_db w))" "bk_id r = bk_id b" using b by (auto simp: tracked_def)
  then have hold: "same_hold b r" "bk_server_id r = bk_server_id b" using b(1) by (simp_all add: tracked_def known_def)
  have srv: "jb_server j = bk_server_id b"
    using j(3) jobs_okD(8) [OF jo j0(1) r(1)] r(2) hold(2) same by auto
  with jobs_okD(2) [OF jo j0(1) same(1)] b(2) same(2) obtain x where x: "x \<in> set (backups (w_db w))" "op_row x j0" by auto
  then have "bk_id x = bk_id r"
    using rows_okD(1) [OF ro x(1) r(1)] hold srv same by (simp add: op_row_def same_hold_def)
  then have "x = r" using world_ids [OF world_inv [OF ok] x(1) r(1)] by simp
  with x(2) hold(1) r(2) srv same show "jb_op j = bk_id b" "jb_server j = bk_server_id b"
      "bk_cluster_id b = Some (fst (jb_key j))" "bk_job_name b = snd (jb_key j)" "\<not> bk_forgotten b"
    by (auto simp: op_row_def same_hold_def)
qed

lemma its_job_over:
  \<comment> \<open>its Job has ended, so nothing of the operation runs\<close>
  assumes ok: "world_ok w" and t: "tame {} w w1" and b: "tracked w b" "bk_server_id b \<in> sids (w_db w)"
    and got: "get_job (operationCluster b srv, bk_job_name b) w1 = Some j" "jobOutcome (jb_status j) \<noteq> (False, False)"
    and k: "k \<in> set (w_jobs w1)" "jb_live k"
  shows "jb_op k \<noteq> bk_id b"
proof
  assume "jb_op k = bk_id b"
  note i = its_job [OF ok t b k disjI2 [OF this]]
  have jo: "jobs_ok w1" using tame_ok [OF ok t] by (simp add: world_ok_def)
  have j: "j \<in> set (w_jobs w1)" "jb_exists j" "jb_key j = jb_key k"
    using got(1) i(3,4) by (auto simp: get_job_def operationCluster_def dest!: find_SomeD)
  with jobs_okD(5) [OF jo k(1) j(1) k(2)] have "jb_uid k = jb_uid j" by simp
  moreover have "distinct (map jb_uid (w_jobs w1))" using jo by (simp add: jobs_ok_def)
  ultimately have "k = j" using k(1) j(1) by (meson distinct_map inj_onD)
  with jobs_okD(1) [OF jo k] got(2) show False by simp
qed

lemma idle_server:
  assumes ok: "world_ok w" and t: "tame {} w w1" and i: "i \<in> sids (w_db w)" "i \<notin> busy" "busy_ok w busy"
    and j: "j \<in> set (w_jobs w1)" "jb_live j"
  shows "jb_server j \<noteq> i"
proof
  assume s: "jb_server j = i"
  have jo: "jobs_ok w" using ok by (simp add: world_ok_def)
  obtain j0 where j0: "j0 \<in> set (w_jobs w)" "job_goes j0 j"
    using t j(1) by (auto simp: tame_def elim: jobs_go_back)
  then have "jb_live j0" "jb_server j0 = i" using j(2) s by (simp_all add: job_goes_def)
  with jobs_okD(2) [OF jo j0(1)] i(1) obtain x where "x \<in> set (backups (w_db w))" "op_row x j0" by auto
  with i(2,3) \<open>jb_server j0 = i\<close> show False by (auto simp: op_row_def busy_ok_def)
qed

section \<open>The end of an operation\<close>

lemma CompleteBackup_parts:
  assumes "CompleteBackup b from keep d = Inr d'"
  obtains d1 where "CompleteBackup b from 0 d = Inr d1"
    "d1 = d\<lparr>backups := update_where (\<lambda>r. bk_id r = bk_id b \<and> bk_phase r = from) (\<lambda>r. r\<lparr>bk_phase := bk_phase b,
       bk_size_bytes := bk_size_bytes b, bk_message := bk_message b, bk_completed_at := bk_completed_at b\<rparr>) (backups d)\<rparr>"
    "d' = d1 \<or> pruneBackups (bk_server_id b) (bk_target b) keep d1 = Inr d'"
  using assms by (auto simp: CompleteBackup_def Let_def pruneBackups_def [of _ _ 0] split: if_splits)

lemma tame_prune:
  assumes "world_ok w" "pruneBackups i tg keep (w_db w) = Inr d"
  shows "tame {} w (w\<lparr>w_db := d\<rparr>)"
proof (cases "d = w_db w")
  case False
  then obtain old where d: "d = (w_db w)\<lparr>backups := update_where
       (\<lambda>b. bk_id b \<in> old \<and> bk_phase b = BackupSucceeded) to_deleting (backups (w_db w))\<rparr>"
    using assms(2) by (auto simp: pruneBackups_def Let_def split: if_splits)
  show ?thesis
  proof (rule tame_update0 [OF assms(1) _ d])
    show "store_inv d"
      using store_step_inv [OF store_step.prune [OF assms(2) [folded PruneBackups_def]] world_inv [OF assms(1)]] .
  qed (auto simp: carried_def held_def to_deleting_def)
qed (use tame_refl [OF assms(1)] in simp)

lemma tame_complete:
  assumes ok: "world_ok w" and ph: "op_finished phase" "op_active (bk_phase b)"
    and S: "bk_phase b = BackupRunning \<Longrightarrow> \<exists>k. S = {k} \<and> k = bk_id b" "bk_phase b = BackupPending \<Longrightarrow> S = {}"
    and jobs: "\<And>j. j \<in> set (w_jobs w) \<Longrightarrow> jb_live j \<Longrightarrow> jb_op j \<notin> S"
  shows "tame S w (snd (complete e b phase bytes msg keep w))"
proof -
  define b' where "b' = b\<lparr>bk_phase := phase, bk_size_bytes := bytes, bk_message := msg, bk_completed_at := Some (oe_now e)\<rparr>"
  show ?thesis
  proof (cases "CompleteBackup b' (bk_phase b) keep (w_db w)")
    case (Inl err)
    then have "snd (complete e b phase bytes msg keep w) = w" by (simp add: complete_def b'_def Let_def)
    moreover have "tame S w w"
      by (rule tame_mono [OF tame_refl [OF ok]]) (use jobs in auto)
    ultimately show ?thesis by simp
  next
    case (Inr d)
    from CompleteBackup_parts [OF this] obtain d1 where d1: "CompleteBackup b' (bk_phase b) 0 (w_db w) = Inr d1"
      "d1 = (w_db w)\<lparr>backups := update_where (\<lambda>r. bk_id r = bk_id b' \<and> bk_phase r = bk_phase b) (\<lambda>r. r\<lparr>bk_phase := bk_phase b',
         bk_size_bytes := bk_size_bytes b', bk_message := bk_message b', bk_completed_at := bk_completed_at b'\<rparr>) (backups (w_db w))\<rparr>"
      "d = d1 \<or> pruneBackups (bk_server_id b') (bk_target b') keep d1 = Inr d" .
    have inv: "store_inv d1"
      by (rule store_step_inv [OF store_step.complete_backup [OF d1(1) ph(2)] world_inv [OF ok]]) (simp add: b'_def ph)
    have "tame S w (w\<lparr>w_db := d1\<rparr>)"
    proof (rule tame_update [OF ok _ _ _ inv])
      show "sids d1 = sids (w_db w)" by (simp add: d1(2))
      show "carried S r (r\<lparr>bk_phase := bk_phase b', bk_size_bytes := bk_size_bytes b', bk_message := bk_message b',
          bk_completed_at := bk_completed_at b'\<rparr>)" if "r \<in> set (backups (w_db w))" "bk_id r = bk_id b' \<and> bk_phase r = bk_phase b" for r
        using that ph S rows_okD(4) [of "w_db w" r] ok
        by (auto simp: carried_def held_def b'_def op_finished_def op_active_def world_ok_def)
    qed (use jobs in \<open>auto simp: d1(2)\<close>)
    then have "tame S w (w\<lparr>w_db := d\<rparr>)"
    proof (rule tame_then [OF ok])
      assume "world_ok (w\<lparr>w_db := d1\<rparr>)"
      then show "tame {} (w\<lparr>w_db := d1\<rparr>) (w\<lparr>w_db := d\<rparr>)"
        using d1(3) tame_prune [of "w\<lparr>w_db := d1\<rparr>"] tame_refl by auto
    qed
    then have "tame S w (w\<lparr>w_db := announce e b' d\<rparr>)"
      by (rule tame_then [OF ok]) (use tame_announce [of "w\<lparr>w_db := d\<rparr>"] in simp)
    with Inr show ?thesis by (simp add: complete_def b'_def Let_def)
  qed
qed

lemma finish_pending:
  assumes "world_ok w" "bk_phase b = BackupPending"
  shows "tame {} w (snd (finish e b BackupFailed bytes msg w))"
  unfolding finish_def using assms by (intro tame_complete) (auto simp: op_finished_def)


section \<open>Submission\<close>

lemma submit_ok:
  \<comment> \<open>a creation, answered or not, of the Job of an operation taken up, where none lives\<close>
  assumes ok: "world_ok w" and uid: "new_uid e w" and kn: "known w b" and bo: "0 \<le> bo"
    and name: "snd key = JobName fg dir (bk_id b)"
    and idle: "\<And>j. j \<in> set (w_jobs w) \<Longrightarrow> jb_live j \<Longrightarrow> jb_server j \<noteq> bk_server_id b \<and> jb_key j \<noteq> key"
    and row: "bk_server_id b \<in> sids (w_db w) \<Longrightarrow> \<exists>r \<in> set (backups (w_db w)). bk_id r = bk_id b \<and> held r
       \<and> bk_cluster_id r = Some (fst key) \<and> bk_job_name r = snd key
       \<and> bk_phase r = (if fg then BackupDeleting else BackupRunning) \<and> \<not> bk_forgotten r"
    and le: "busy \<subseteq> busy'"
  shows "item_ok (bk_id b) busy busy' w (snd (submit_job e key (bk_id b) (bk_server_id b) fg bo w))"
proof -
  have row': "\<exists>r \<in> set (backups (w_db w)). bk_id r = bk_id b \<and> bk_server_id r = bk_server_id b \<and> held r
       \<and> bk_cluster_id r = Some (fst key) \<and> bk_job_name r = snd key
       \<and> bk_phase r = (if fg then BackupDeleting else BackupRunning) \<and> \<not> bk_forgotten r"
    if "bk_server_id b \<in> sids (w_db w)"
    using row [OF that] kn unfolding known_def by blast
  have made: "item_ok (bk_id b) busy busy' w w'" if c: "create_job (oe_uid e) key (bk_id b) (bk_server_id b) fg bo w = Some w'" for w'
  proof -
    have "world_ok w' \<and> w_db w' = w_db w \<and> w_seq w' = w_seq w"
      using create_job_ok [OF ok c _ _ bo _ _ name idle row'] uid kn by (auto simp: new_uid_def known_def)
    then show ?thesis using le by (intro item_jobs) auto
  qed
  then show ?thesis
    using item_refl [OF ok le] by (auto simp: submit_job_def split: answer.splits option.splits)
qed

lemma item_then_tame:
  assumes "item_ok k busy busy' w w'" "world_ok w' \<Longrightarrow> tame S w' w''" "S \<subseteq> {k}"
  shows "item_ok k busy busy' w w''"
proof -
  have "world_ok w'" using assms(1) by (simp add: item_ok_def)
  from item_trans [OF assms(1) item_tame [OF this assms(2) [OF this] assms(3) subset_refl]] show ?thesis .
qed

lemma observe_ok: "item_ok k busy busy' w w' \<Longrightarrow> item_ok k busy busy' w (observe uid i (ok, w'))"
  by (rule item_then_tame [OF _ tame_observe]) auto

lemma ClaimBackup_taken:
  assumes "ClaimBackup i jn tg dbs ig nt spec cl d = Inr (True, d')"
  obtains r upd where "r \<in> set (backups d)" "bk_id r = i" "bk_phase r = BackupPending"
    "d' = d\<lparr>backups := update_where (\<lambda>b. bk_id b = i \<and> bk_phase b = BackupPending) upd (backups d)\<rparr>"
    "\<forall>b. bk_id (upd b) = bk_id b \<and> bk_server_id (upd b) = bk_server_id b \<and> bk_direction (upd b) = bk_direction b
        \<and> bk_phase (upd b) = BackupRunning \<and> bk_job_name (upd b) = jn \<and> bk_cluster_id (upd b) = Some cl
        \<and> bk_forgotten (upd b) = bk_forgotten b"
proof -
  let ?P = "\<lambda>b. bk_id b = i \<and> bk_phase b = BackupPending"
  obtain f where "rows_affected ?P (backups d) = 1" and d': "d' = d\<lparr>backups := update_where ?P f (backups d)\<rparr>"
    and f: "\<forall>b. bk_id (f b) = bk_id b \<and> bk_server_id (f b) = bk_server_id b \<and> bk_direction (f b) = bk_direction b
        \<and> bk_phase (f b) = BackupRunning \<and> bk_job_name (f b) = jn \<and> bk_cluster_id (f b) = Some cl
        \<and> bk_forgotten (f b) = bk_forgotten b"
    using assms unfolding ClaimBackup_def Let_def by (auto split: option.splits sum.splits if_splits)
  with rows_affected_1_ex [of ?P "backups d"] that [OF _ _ _ d' f] show ?thesis by blast
qed

lemma taken_ok:
  \<comment> \<open>a row taken up by its claim, and the creation of its Job\<close>
  assumes ok: "world_ok w" and t: "tame {} w w1" and uid: "new_uid e w1" and kn: "known w1 b" and bo: "0 \<le> bo"
    and busy: "busy_ok w busy" "bk_server_id b \<in> sids (w_db w)" "bk_server_id b \<notin> busy"
    and r: "r \<in> set (backups (w_db w1))" "bk_id r = bk_id b" "\<not> held r"
    and d: "store_inv d" "d = (w_db w1)\<lparr>backups := update_where P f (backups (w_db w1))\<rparr>"
    and P: "P r" "\<And>x. P x \<Longrightarrow> bk_id x = bk_id b"
    and f: "bk_id (f r) = bk_id r" "bk_server_id (f r) = bk_server_id r" "bk_direction (f r) = bk_direction r"
      "bk_phase (f r) = (if fg then BackupDeleting else BackupRunning)" "bk_job_name (f r) = JobName fg (bk_direction b) (bk_id b)"
      "bk_cluster_id (f r) = Some cl" "bk_forgotten (f r) = bk_forgotten r"
  shows "item_ok (bk_id b) busy (insert (bk_server_id b) busy) w1
     (snd (submit_job e (cl, JobName fg (bk_direction b) (bk_id b)) (bk_id b) (bk_server_id b) fg bo (w1\<lparr>w_db := d\<rparr>)))"
proof -
  let ?i = "bk_server_id b" and ?w = "w1\<lparr>w_db := d\<rparr>" and ?key = "(cl, JobName fg (bk_direction b) (bk_id b))"
  have ok1: "world_ok w1" and busy1: "busy_ok w1 busy" using tame_ok [OF ok t] busy_tame [OF t busy(1)] .
  have ro: "rows_ok (w_db w1)" and jo: "jobs_ok w1" using ok1 by (simp_all add: world_ok_def)
  have same: "bk_server_id r = ?i" "bk_direction r = bk_direction b" using kn r(1,2) by (auto simp: known_def)
  have set: "set (backups d) = insert (f r) (set (backups (w_db w1)) - {r})"
    using update_one [of "w_db w1" r P f] world_inv [OF ok1] r P by (simp add: d(2))
  have held: "held (f r)" using f(4,5) by (auto simp: held_def JobName_def)
  have name: "bk_job_name (f r) = JobName (bk_phase (f r) = BackupDeleting) (bk_direction r) (bk_id r)"
    using f(4,5) same r(2) by simp
  have new: "\<not> bk_forgotten (f r)" using f(7) rows_okD(3) [OF ro r(1)] r(3) by auto
  have "item_ok (bk_id r) busy (insert (bk_server_id r) busy) w1 ?w"
  proof (rule take_up [OF ok1 r(1,3) _ set _ d(1) f(1-3) held name new])
    show "bk_server_id x \<noteq> bk_server_id r" if "x \<in> set (backups (w_db w1))" "held x" for x
      using busy1 busy(3) that same by (auto simp: busy_ok_def)
  qed (simp_all add: d(2) f(6))
  then have taken: "item_ok (bk_id b) busy (insert ?i busy) w1 ?w" by (simp add: r(2) same)
  have "item_ok (bk_id b) (insert ?i busy) (insert ?i busy) ?w
      (snd (submit_job e ?key (bk_id b) ?i fg bo ?w))"
  proof (rule submit_ok [where dir = "bk_direction b"])
    show "world_ok ?w" "known ?w b" using taken kn by (simp_all add: item_ok_def)
    show "new_uid e ?w" using uid by (simp add: new_uid_def)
    show "jb_server j \<noteq> ?i \<and> jb_key j \<noteq> ?key" if j: "j \<in> set (w_jobs ?w)" "jb_live j" for j
    proof -
      have j1: "j \<in> set (w_jobs w1)" using j by simp
      have "jb_server j \<noteq> ?i" using idle_server [OF ok t busy(2,3,1) j1 j(2)] .
      moreover have "jb_server j = ?i" if key: "jb_key j = ?key"
      proof -
        obtain dir where "JobName fg (bk_direction b) (bk_id b) = JobName (jb_forget j) dir (jb_op j)"
          using jobs_okD(7) [OF jo j1] key by auto
        then have "bk_id r = jb_op j" using JobName_inject r(2) by metis
        with jobs_okD(8) [OF jo j1 r(1)] same show ?thesis by simp
      qed
      ultimately show ?thesis by blast
    qed
    show "\<exists>x \<in> set (backups (w_db ?w)). bk_id x = bk_id b \<and> held x \<and> bk_cluster_id x = Some (fst ?key)
       \<and> bk_job_name x = snd ?key \<and> bk_phase x = (if fg then BackupDeleting else BackupRunning) \<and> \<not> bk_forgotten x"
      using f held new r(2) by (intro bexI [of _ "f r"]) (simp_all add: set)
  qed (simp_all add: bo)
  with taken show ?thesis by (rule item_trans)
qed

lemma claim_ok:
  assumes ok: "world_ok w" and t: "tame {} w w1" and uid: "new_uid e w1" and kn: "known w1 b"
    and busy: "busy_ok w busy" "bk_server_id b \<in> sids (w_db w)" "bk_server_id b \<notin> busy"
  shows "item_ok (bk_id b) busy (insert (bk_server_id b) busy) w1 (claim_and_submit e b cluster dbs ig nt w1)"
proof -
  let ?jn = "JobName False (bk_direction b) (bk_id b)"
  let ?claim = "ClaimBackup (bk_id b) ?jn (if bk_direction b = DirBackup then oe_target e else [])
     (if bk_direction b \<noteq> DirDatabaseImport \<and> dbs \<noteq> [] then Some dbs else None) ig nt (oe_spec e) cluster (w_db w1)"
  have stay: "item_ok (bk_id b) busy (insert (bk_server_id b) busy) w1 w1"
    by (rule item_refl [OF tame_ok [OF ok t]]) blast
  have goes: "item_ok (bk_id b) busy (insert (bk_server_id b) busy) w1
      (snd (submit_job e (cluster, ?jn) (bk_id b) (bk_server_id b) False (backoff_of b) (w1\<lparr>w_db := d\<rparr>)))"
    if c: "?claim = Inr (True, d)" for d
  proof -
    from ClaimBackup_taken [OF c] obtain r upd where r: "r \<in> set (backups (w_db w1))" "bk_id r = bk_id b" "bk_phase r = BackupPending"
      and d: "d = (w_db w1)\<lparr>backups := update_where (\<lambda>x. bk_id x = bk_id b \<and> bk_phase x = BackupPending) upd (backups (w_db w1))\<rparr>"
      and upd: "\<forall>x. bk_id (upd x) = bk_id x \<and> bk_server_id (upd x) = bk_server_id x \<and> bk_direction (upd x) = bk_direction x
        \<and> bk_phase (upd x) = BackupRunning \<and> bk_job_name (upd x) = ?jn \<and> bk_cluster_id (upd x) = Some cluster
        \<and> bk_forgotten (upd x) = bk_forgotten x"
      .
    have inv: "store_inv d" using store_step_inv [OF store_step.claim_backup [OF c] world_inv [OF tame_ok [OF ok t]]] .
    show ?thesis
      by (rule taken_ok [OF ok t uid kn _ busy r(1,2) _ inv d]) (use r upd in \<open>auto simp: backoff_of_def held_def\<close>)
  qed
  show ?thesis
  proof (cases "submit_job e (cluster, ?jn) (bk_id b) (bk_server_id b) False (backoff_of b) (w1\<lparr>w_db := snd (projr ?claim)\<rparr>)")
    case (Pair made w2)
    show ?thesis
    proof (cases "?claim = Inr (True, snd (projr ?claim)) \<and> oe_secret e")
      case True
      with goes [of "snd (projr ?claim)"] Pair observe_ok [of "bk_id b" busy "insert (bk_server_id b) busy" w1 w2]
      have "item_ok (bk_id b) busy (insert (bk_server_id b) busy) w1 (observe (oe_uid e) (bk_id b) (made, w2))" by simp
      with True Pair show ?thesis by (cases ?claim) (auto simp: claim_and_submit_def Let_def)
    next
      case False
      then have "claim_and_submit e b cluster dbs ig nt w1 = w1"
        by (cases ?claim) (auto simp: claim_and_submit_def Let_def split: bool.splits)
      with stay show ?thesis by simp
    qed
  qed
qed


section \<open>The items of the four lists\<close>

lemma pending_ok:
  assumes ok: "world_ok w" and t: "tame {} w w1" and uid: "new_uid e w1" and kn: "known w b"
    and b: "bk_phase b = BackupPending" and busy: "busy_ok w busy"
    and step: "pending_item e b (w_db w) busy w1 = (busy', w')"
  shows "item_ok (bk_id b) busy busy' w1 w'"
proof -
  note ok1 = tame_ok [OF ok t] and kn1 = known_tame [OF t kn]
  have same: "item_ok (bk_id b) busy x w1 w1" if "busy \<subseteq> x" for x by (rule item_refl [OF ok1 that])
  have fin: "item_ok (bk_id b) busy x w1 (snd (finish e b BackupFailed n msg w1))" if "busy \<subseteq> x" for x n msg
    by (rule item_tame [OF ok1 finish_pending [OF ok1 b] _ that]) simp
  note [simp] = pending_item_def start_pending_def Let_def
  show ?thesis
  proof (cases "GetServer (bk_server_id b) (w_db w)")
    case (Inl err)
    with step fin [of busy] same [of busy] show ?thesis by (auto split: if_splits)
  next
    case (Inr srv)
    note claim = claim_ok [OF ok t uid kn1 busy GetServer_sids [OF Inr]]
    show ?thesis
    proof (cases "bk_direction b \<noteq> DirDatabaseImport \<and> oe_unusable e \<noteq> [] \<or> bk_server_id b \<in> busy \<or> not_its_transfer b srv")
      case True
      with step Inr fin [of busy] same [of busy] show ?thesis by (auto split: if_splits)
    next
      case False
      then have "busy' = insert (bk_server_id b) busy" "w' = start_pending e b srv (w_db w) w1" "bk_server_id b \<notin> busy"
        using step Inr by auto
      then show ?thesis
        using fin [of busy'] same [of busy'] claim
        by (auto split: if_splits readiness.splits sum.splits option.splits prod.splits)
    qed
  qed
qed

lemma finish_running_ok:
  assumes ok: "world_ok w" and b: "bk_phase b = BackupRunning"
    and over: "\<And>j. jobOutcome status \<noteq> (False, False) \<Longrightarrow> j \<in> set (w_jobs w) \<Longrightarrow> jb_live j \<Longrightarrow> jb_op j \<noteq> bk_id b"
  shows "item_ok (bk_id b) busy busy w (finish_running e b key status d0 w)"
proof -
  have ends: "item_ok (bk_id b) busy busy w (snd (complete e b ph n msg keep w))"
    "item_ok (bk_id b) busy busy w (cleanupFinished e b key (snd (complete e b ph n msg keep w)))"
    if "op_finished ph" "jobOutcome status \<noteq> (False, False)" for ph n msg keep
  proof -
    have "tame {bk_id b} w (snd (complete e b ph n msg keep w))"
      using that over by (intro tame_complete ok) (auto simp: b)
    then show c: "item_ok (bk_id b) busy busy w (snd (complete e b ph n msg keep w))"
      by (rule item_tame [OF ok]) auto
    show "item_ok (bk_id b) busy busy w (cleanupFinished e b key (snd (complete e b ph n msg keep w)))"
      by (rule item_then_tame [OF c tame_cleanupFinished]) auto
  qed
  show ?thesis
  proof (cases "jobOutcome status = (False, False)")
    case False
    have fin: "op_finished BackupSucceeded" "op_finished BackupFailed" by (simp_all add: op_finished_def)
    show ?thesis
      unfolding finish_running_def finish_def Let_def case_prod_unfold
      using item_refl [OF ok, of busy busy "bk_id b"] ends [OF fin(1) False] ends [OF fin(2) False] by simp
  qed (simp add: finish_running_def item_refl [OF ok])
qed

lemma resume_ok:
  assumes ok: "world_ok w" and t: "tame {} w w1" and uid: "new_uid e w1"
    and b: "tracked w b" "GetServer (bk_server_id b) (w_db w) = Inr srv" and bo: "0 \<le> bo"
    and gone: "\<not> job_pods (operationCluster b srv, bk_job_name b) w1"
    and fg: "fg \<longleftrightarrow> bk_phase b = BackupDeleting" "\<not> bk_forgotten b" and le: "busy \<subseteq> busy'"
  shows "item_ok (bk_id b) busy busy' w1
     (snd (submit_job e (operationCluster b srv, bk_job_name b) (bk_id b) (bk_server_id b) fg bo w1))"
proof (rule submit_ok [OF tame_ok [OF ok t] uid _ bo _ _ _ le])
  note b1 = tracked_tame [OF ok t b(1)] and ok1 = tame_ok [OF ok t]
  show "known w1 b" using known_tame [OF t] b(1) by (simp add: tracked_def)
  show "snd (operationCluster b srv, bk_job_name b) = JobName fg (bk_direction b) (bk_id b)"
    using b(1) fg(1) by (simp add: tracked_def)
  show "jb_server j \<noteq> bk_server_id b \<and> jb_key j \<noteq> (operationCluster b srv, bk_job_name b)"
    if j: "j \<in> set (w_jobs w1)" "jb_live j" for j
  proof -
    have "jb_key j \<noteq> (operationCluster b srv, bk_job_name b)" using gone j by (auto simp: job_pods_def)
    moreover have "jb_server j \<noteq> bk_server_id b"
    proof
      assume "jb_server j = bk_server_id b"
      from its_job(3,4) [OF ok t b(1) GetServer_sids [OF b(2)] j disjI1 [OF this]] calculation
      show False by (cases "jb_key j") (simp add: operationCluster_def)
    qed
    ultimately show ?thesis by blast
  qed
  assume "bk_server_id b \<in> sids (w_db w1)"
  with b1 obtain r where r: "r \<in> set (backups (w_db w1))" "bk_id r = bk_id b" "same_hold b r" by (auto simp: tracked_def)
  with rows_okD(5) [of "w_db w1" r] ok1 have "bk_cluster_id b \<noteq> None" by (auto simp: world_ok_def same_hold_def)
  with r fg show "\<exists>r \<in> set (backups (w_db w1)). bk_id r = bk_id b \<and> held r
       \<and> bk_cluster_id r = Some (fst (operationCluster b srv, bk_job_name b)) \<and> bk_job_name r = snd (operationCluster b srv, bk_job_name b)
       \<and> bk_phase r = (if fg then BackupDeleting else BackupRunning) \<and> \<not> bk_forgotten r"
    by (intro bexI [of _ r]) (auto simp: same_hold_def operationCluster_def held_def split: if_splits)
qed

lemma item_after: "world_ok w \<Longrightarrow> tame {} w w1 \<Longrightarrow> item_ok k busy busy' w1 w2 \<Longrightarrow> item_ok k busy busy' w w2"
  by (rule item_trans [OF item_tame]) auto

lemma running_not_forgotten:
  assumes "world_ok w" "tracked w b" "bk_server_id b \<in> sids (w_db w)" "bk_phase b = BackupRunning"
  shows "\<not> bk_forgotten b"
proof -
  obtain r where "r \<in> set (backups (w_db w))" "same_hold b r" using assms(2,3) by (auto simp: tracked_def)
  with rows_okD(4) [of "w_db w" r] assms(1,4) show ?thesis by (auto simp: world_ok_def same_hold_def)
qed

lemma running_ok:
  assumes ok: "world_ok w" and t: "tame {} w w1" and uid: "new_uid e w1"
    and b: "tracked w b" "bk_phase b = BackupRunning"
  shows "item_ok (bk_id b) busy busy w1 (running_item e b (w_db w) w1)"
proof -
  note ok1 = tame_ok [OF ok t]
  have same: "item_ok (bk_id b) busy busy w1 w1" by (rule item_refl [OF ok1]) simp
  have hold: "item_ok (bk_id b) busy busy w1 (holdOperation b msg w1)" for msg
    by (rule item_tame [OF ok1 tame_hold [OF ok1]]) auto
  have held: "held b" using b(1) by (simp add: tracked_def)
  show ?thesis
  proof (cases "GetServer (bk_server_id b) (w_db w)")
    case (Inr srv)
    let ?key = "(operationCluster b srv, bk_job_name b)"
    have i: "bk_server_id b \<in> sids (w_db w)" using GetServer_sids [OF Inr] .
    show ?thesis
    proof (cases "get_job ?key w1")
      case None
      have "item_ok (bk_id b) busy busy w1 (resumeSubmission e b ?key w1)"
      proof (cases "bk_job_uid b \<noteq> [] \<or> bk_job_spec b = [] \<or> \<not> oe_listed e \<or> job_pods ?key w1 \<or> \<not> oe_decodes e")
        case True
        with same hold show ?thesis by (auto simp: resumeSubmission_def)
      next
        case False
        have r: "item_ok (bk_id b) busy busy w1
            (snd (submit_job e ?key (bk_id b) (bk_server_id b) False (backoff_of b) w1))"
          by (rule resume_ok [OF ok t uid b(1) Inr])
            (use False running_not_forgotten [OF ok b(1) i b(2)] b(2) in \<open>auto simp: backoff_of_def\<close>)
        have "resumeSubmission e b ?key w1 = observe (oe_uid e) (bk_id b)
            (submit_job e ?key (bk_id b) (bk_server_id b) False (backoff_of b) w1)"
          using False by (simp add: resumeSubmission_def)
        with observe_ok [OF r, of _ _ "fst (submit_job e ?key (bk_id b) (bk_server_id b) False (backoff_of b) w1)"]
        show ?thesis by simp
      qed
      with Inr None same show ?thesis by (auto simp: running_item_def Let_def split: option.splits)
    next
      case (Some j)
      note over = its_job_over [OF ok t b(1) i Some]
      have "item_ok (bk_id b) busy busy w1 (finish_running e b ?key (jb_status j) (w_db w) w1)"
        by (rule finish_running_ok [OF ok1 b(2) over])
      moreover have "item_ok (bk_id b) busy busy w1 (finish_running e b ?key (jb_status j) (w_db w) (w1\<lparr>w_db := d\<rparr>))"
        if o: "ObserveBackupJob (bk_id b) (jb_uid j) (w_db w1) = Inr d" for d
      proof -
        have ob: "tame {} w1 (w1\<lparr>w_db := d\<rparr>)" using tame_ObserveBackupJob [OF ok1 o] .
        have "item_ok (bk_id b) busy busy (w1\<lparr>w_db := d\<rparr>) (finish_running e b ?key (jb_status j) (w_db w) (w1\<lparr>w_db := d\<rparr>))"
          by (rule finish_running_ok [OF tame_ok [OF ok1 ob] b(2)]) (use over in simp)
        then show ?thesis by (rule item_after [OF ok1 ob])
      qed
      ultimately show ?thesis
        using Inr Some same hold by (simp add: running_item_def Let_def split: sum.splits)
    qed
  qed (use same in \<open>simp add: running_item_def\<close>)
qed


lemma clean_ok:
  assumes "world_ok w1"
  shows "item_ok (bk_id b) busy busy w1 (cleanup_item e b d w1)"
  using item_tame [OF assms tame_cleanupFinished [OF assms], of "bk_id b" busy busy] item_refl [OF assms, of busy busy]
  by (auto simp: cleanup_item_def split: sum.splits)

lemma tame_forgotten:
  assumes ok: "world_ok w" and idle: "\<And>j. j \<in> set (w_jobs w) \<Longrightarrow> jb_live j \<Longrightarrow> jb_op j \<noteq> bk_id b"
  shows "tame {bk_id b} w (cleanupForgotten e b key w)"
proof -
  have c: "tame {bk_id b} w (snd (cleanup e b key w))"
    by (rule tame_mono [OF tame_cleanup [OF ok]]) (use idle in \<open>auto dest!: cleanup_live\<close>)
  have "tame {bk_id b} w (snd (cleanup e b key w)\<lparr>w_db := DeleteBackup (bk_id b) (w_db (snd (cleanup e b key w)))\<rparr>)"
  proof (rule tame_after [OF ok tame_cleanup [OF ok]])
    assume ok': "world_ok (snd (cleanup e b key w))"
    show "tame {bk_id b} (snd (cleanup e b key w))
        (snd (cleanup e b key w)\<lparr>w_db := DeleteBackup (bk_id b) (w_db (snd (cleanup e b key w)))\<rparr>)"
    proof (rule tame_delete [OF ok'])
      show "store_inv (DeleteBackup (bk_id b) (w_db (snd (cleanup e b key w))))"
        using store_step_inv [OF store_step.delete_backup world_inv [OF ok']] .
      show "jb_server j \<notin> sids (DeleteBackup (bk_id b) (w_db (snd (cleanup e b key w))))"
        if "j \<in> set (w_jobs (snd (cleanup e b key w)))" "jb_live j" "jb_op j \<in> {bk_id b}" for j
        using cleanup_live [OF that(1,2)] idle that(3) by auto
    qed (auto simp: DeleteBackup_def)
  qed
  with c show ?thesis by (simp add: cleanupForgotten_def case_prod_unfold Let_def)
qed

lemma tame_MarkBackupForgotten:
  assumes ok: "world_ok w" and m: "MarkBackupForgotten i (w_db w) = Inr d"
    and held: "\<And>r. r \<in> set (backups (w_db w)) \<Longrightarrow> bk_id r = i \<Longrightarrow> held r"
    and idle: "\<And>j. j \<in> set (w_jobs w) \<Longrightarrow> jb_live j \<Longrightarrow> jb_op j \<noteq> i"
  shows "tame {i} w (w\<lparr>w_db := d\<rparr>)"
proof -
  let ?P = "\<lambda>b. bk_id b = i \<and> bk_phase b = BackupDeleting"
  have d: "d = (w_db w)\<lparr>backups := update_where ?P (bk_forgotten_update (\<lambda>_. True)) (backups (w_db w))\<rparr>"
    using m by (simp add: MarkBackupForgotten_def Let_def split: if_splits)
  show ?thesis
  proof (rule tame_update [OF ok, where P = ?P and f = "bk_forgotten_update (\<lambda>_. True)"])
    show "store_inv d" using store_step_inv [OF store_step.forgotten [OF m] world_inv [OF ok]] .
    show "carried {i} b (bk_forgotten_update (\<lambda>_. True) b)" if "b \<in> set (backups (w_db w))" "?P b" for b
      using held [OF that(1)] that(2) by (auto simp: carried_def held_def)
  qed (use idle in \<open>auto simp: d\<close>)
qed

lemma deletion_over_ok:
  assumes ok: "world_ok w1" and b: "tracked w1 b" "bk_phase b = BackupDeleting"
    and over: "\<And>j. jobOutcome status \<noteq> (False, False) \<Longrightarrow> j \<in> set (w_jobs w1) \<Longrightarrow> jb_live j \<Longrightarrow> jb_op j \<noteq> bk_id b"
  shows "item_ok (bk_id b) busy busy w1 (deletion_over e b key status w1)"
proof -
  have same: "item_ok (bk_id b) busy busy w1 w1" by (rule item_refl [OF ok]) simp
  have rows: "same_hold b r" if "r \<in> set (backups (w_db w1))" "bk_id r = bk_id b" for r
    using b(1) that by (simp add: tracked_def)
  have done_case: "item_ok (bk_id b) busy busy w1 (cleanupForgotten e b key (w1\<lparr>w_db := d\<rparr>))"
    if m: "MarkBackupForgotten (bk_id b) (w_db w1) = Inr d" and out: "jobOutcome status \<noteq> (False, False)" for d
  proof -
    have t: "tame {bk_id b} w1 (w1\<lparr>w_db := d\<rparr>)"
      by (rule tame_MarkBackupForgotten [OF ok m]) (use rows over [OF out] in \<open>auto simp: same_hold_def\<close>)
    then have "tame {bk_id b} (w1\<lparr>w_db := d\<rparr>) (cleanupForgotten e b key (w1\<lparr>w_db := d\<rparr>))"
      by (intro tame_forgotten tame_ok [OF ok]) (use over [OF out] in auto)
    with tame_trans [OF ok t this] show ?thesis by (intro item_tame [OF ok]) auto
  qed
  have failed_case: "item_ok (bk_id b) busy busy w1 (snd (cleanup e b' key (w1\<lparr>w_db := UpdateBackup b' (w_db w1)\<rparr>)))"
    if b': "b' = b\<lparr>bk_message := msg\<rparr>" for b' msg
  proof -
    have inv: "store_inv (UpdateBackup b' (w_db w1))"
      by (rule store_step_inv [OF store_step.update_deleting world_inv [OF ok]]) (use b(2) rows in \<open>auto simp: b' same_hold_def\<close>)
    have "tame {} w1 (w1\<lparr>w_db := UpdateBackup b' (w_db w1)\<rparr>)"
    proof (rule tame_update0 [OF ok inv, where P = "\<lambda>r. bk_id r = bk_id b'"])
      show "UpdateBackup b' (w_db w1) = (w_db w1)\<lparr>backups := update_where (\<lambda>r. bk_id r = bk_id b')
          (\<lambda>r. r\<lparr>bk_phase := bk_phase b', bk_size_bytes := bk_size_bytes b', bk_message := bk_message b',
            bk_job_name := bk_job_name b', bk_completed_at := bk_completed_at b', bk_target := bk_target b'\<rparr>) (backups (w_db w1))\<rparr>"
        by (simp add: UpdateBackup_def update_backup_def)
    qed (use rows in \<open>auto simp: carried_def held_def same_hold_def b'\<close>)
    then have "tame {} w1 (snd (cleanup e b' key (w1\<lparr>w_db := UpdateBackup b' (w_db w1)\<rparr>)))"
      by (rule tame_then [OF ok]) (rule tame_cleanup)
    then show ?thesis by (intro item_tame [OF ok]) auto
  qed
  show ?thesis
  proof (cases "jobOutcome status = (False, False)")
    case False
    show ?thesis
      unfolding deletion_over_def Let_def case_prod_unfold
      using same done_case [OF _ False] failed_case [OF refl] by (auto split: sum.splits)
  qed (simp add: deletion_over_def same)
qed

lemma deleting_ok:
  assumes ok: "world_ok w" and t: "tame {} w w1" and uid: "new_uid e w1" and kn: "known w b"
    and b: "bk_phase b = BackupDeleting" "held b \<Longrightarrow> tracked w b" "\<not> held b \<Longrightarrow> \<not> bk_forgotten b"
    and busy: "busy_ok w busy" and step: "deleting_item e b (w_db w) busy w1 = (busy', w')"
  shows "item_ok (bk_id b) busy busy' w1 w'"
proof -
  note ok1 = tame_ok [OF ok t] and kn1 = known_tame [OF t kn]
  have same: "item_ok (bk_id b) busy x w1 w1" if "busy \<subseteq> x" for x by (rule item_refl [OF ok1 that])
  show ?thesis
  proof (cases "GetServer (bk_server_id b) (w_db w)")
    case (Inr srv)
    let ?cl = "operationCluster b srv" and ?jn = "JobName True (bk_direction b) (bk_id b)"
    let ?key = "(?cl, bk_job_name b)"
    have i: "bk_server_id b \<in> sids (w_db w)" using GetServer_sids [OF Inr] .
    show ?thesis
    proof (cases "held b")
      case held: True
      note tr = b(2) [OF held]
      have jn: "bk_job_name b \<noteq> []" "?jn = bk_job_name b" using held b(1) tr by (simp_all add: held_def tracked_def)
      have forgotten: "item_ok (bk_id b) busy busy w1 (cleanupForgotten e b ?key w1)" if "bk_forgotten b"
        by (rule item_tame [OF ok1 tame_forgotten [OF ok1]]) (use its_job(5) [OF ok t tr i] that in auto)
      have over: "item_ok (bk_id b) busy busy w1 (deletion_over e b ?key (jb_status j) w1)" if "get_job ?key w1 = Some j" for j
        by (rule deletion_over_ok [OF ok1 tracked_tame [OF ok t tr] b(1)]) (use its_job_over [OF ok t tr i that] in auto)
      have again: "item_ok (bk_id b) busy (insert (bk_server_id b) busy) w1
          (snd (submit_job e ?key (bk_id b) (bk_server_id b) True 1 w1))" if "\<not> job_pods ?key w1" "\<not> bk_forgotten b"
        by (rule resume_ok [OF ok t uid tr Inr _ that(1)]) (use b(1) that(2) in auto)
      show ?thesis
        using step Inr jn same [of busy] same [of busy'] forgotten over again
        by (auto simp: deleting_item_def forget_job_def Let_def split: if_splits option.splits)
    next
      case free: False
      then have jn: "bk_job_name b = []" and nf: "\<not> bk_forgotten b" using b by (auto simp: held_def)
      have claim: "item_ok (bk_id b) busy (insert (bk_server_id b) busy) w1
          (snd (submit_job e (?cl, ?jn) (bk_id b) (bk_server_id b) True 1 (w1\<lparr>w_db := d\<rparr>)))"
        if c: "ClaimBackupDeletion (bk_id b) ?jn ?cl (w_db w1) = (True, d)" and nb: "bk_server_id b \<notin> busy" for d
      proof -
        let ?P = "\<lambda>x. bk_id x = bk_id b \<and> bk_phase x = BackupDeleting \<and> bk_job_name x = []"
        let ?f = "\<lambda>x. x\<lparr>bk_job_name := ?jn, bk_cluster_id := Some ?cl\<rparr>"
        have d: "d = (w_db w1)\<lparr>backups := update_where ?P ?f (backups (w_db w1))\<rparr>"
          and aff: "rows_affected ?P (backups (w_db w1)) = 1"
          using c by (simp_all add: ClaimBackupDeletion_def Let_def)
        obtain r where r: "r \<in> set (backups (w_db w1))" "?P r" using rows_affected_1_ex [OF aff] by blast
        have inv: "store_inv d"
          using store_step_inv [OF store_step.claim_deletion world_inv [OF ok1], of "bk_id b" ?jn ?cl] c by simp
        show ?thesis
          by (rule taken_ok [OF ok t uid kn1 _ busy i nb r(1) _ _ inv d]) (use r in \<open>auto simp: held_def\<close>)
      qed
      show ?thesis
        using step Inr jn nf same [of busy] claim
        by (auto simp: deleting_item_def forget_job_def Let_def split: if_splits prod.splits bool.splits)
    qed
  qed (use step same [of busy] in \<open>simp add: deleting_item_def\<close>)
qed


section \<open>The items of the transfer manager\<close>

definition eased :: "world \<Rightarrow> world \<Rightarrow> bool" where
  "eased w w' = (w_seq w' = w_seq w \<and> (world_ok w \<longrightarrow> (\<exists>S. tame S w w')))"

lemma eased_refl [simp]: "eased w w"
  unfolding eased_def using tame_refl by blast

lemma eased_tame: "w_seq w' = w_seq w \<Longrightarrow> (world_ok w \<Longrightarrow> tame S w w') \<Longrightarrow> eased w w'"
  unfolding eased_def by blast

lemma eased_trans: "eased w w1 \<Longrightarrow> eased w1 w2 \<Longrightarrow> eased w w2"
  unfolding eased_def using tame_ok tame_trans by metis

lemma eased_deleteNamespace: "eased w (snd (deleteNamespace e cluster i w))"
proof (rule eased_tame)
  show "w_seq (snd (deleteNamespace e cluster i w)) = w_seq w" by (simp add: deleteNamespace_def)
  assume ok: "world_ok w"
  have "tame {} w (w\<lparr>w_jobs := map (\<lambda>j. if fst (jb_key j) = cluster \<and> jb_server j = i then j\<lparr>jb_exists := False\<rparr> else j) (w_jobs w),
      w_torn := (cluster, i) # w_torn w\<rparr>)"
    by (rule tame_jobs(2) [OF ok]) auto
  then show "tame {} w (snd (deleteNamespace e cluster i w))" by (simp add: deleteNamespace_def tame_refl [OF ok])
qed

lemma eased_emit: "eased w (transfer_emit e srv msg w)"
  unfolding transfer_emit_def by (rule eased_tame [OF _ tame_event]) simp_all

lemma eased_step:
  assumes "store_step (w_db w) d" "backups d = backups (w_db w)" "sids d = sids (w_db w)"
  shows "eased w (w\<lparr>w_db := d\<rparr>)"
  by (rule eased_tame [OF _ tame_same [OF _ assms(2,3)]]) (use store_step_inv [OF assms(1) world_inv] in auto)

lemma CancelServerTransfer_rows:
  assumes "CancelServerTransfer clk i msg d = Inr (srv, d')"
  obtains P f where "backups d' = update_where P f (backups d)" "sids d' = sids d" "\<forall>b. P b \<longrightarrow> bk_phase b = BackupPending"
    "\<forall>b. bk_phase (f b) = BackupFailed \<and> bk_id (f b) = bk_id b \<and> bk_server_id (f b) = bk_server_id b
      \<and> bk_direction (f b) = bk_direction b \<and> bk_forgotten (f b) = bk_forgotten b"
proof -
  from assms have "\<exists>P f. backups d' = update_where P f (backups d) \<and> sids d' = sids d \<and> (\<forall>b. P b \<longrightarrow> bk_phase b = BackupPending)
    \<and> (\<forall>b. bk_phase (f b) = BackupFailed \<and> bk_id (f b) = bk_id b \<and> bk_server_id (f b) = bk_server_id b
      \<and> bk_direction (f b) = bk_direction b \<and> bk_forgotten (f b) = bk_forgotten b)"
    by (fastforce simp: CancelServerTransfer_def Let_def split: sum.splits option.splits if_splits)
  with that show thesis by blast
qed

lemma eased_cancel:
  assumes c: "CancelServerTransfer clk i msg (w_db w) = Inr (srv, d)"
  shows "eased w (w\<lparr>w_db := d\<rparr>)"
proof (rule eased_tame)
  show "w_seq (w\<lparr>w_db := d\<rparr>) = w_seq w" by simp
  assume ok: "world_ok w"
  from CancelServerTransfer_rows [OF c] obtain P f where b: "backups d = update_where P f (backups (w_db w))"
    and s: "sids d = sids (w_db w)" and P: "\<forall>b. P b \<longrightarrow> bk_phase b = BackupPending"
    and f: "\<forall>b. bk_phase (f b) = BackupFailed \<and> bk_id (f b) = bk_id b \<and> bk_server_id (f b) = bk_server_id b
      \<and> bk_direction (f b) = bk_direction b \<and> bk_forgotten (f b) = bk_forgotten b" .
  show "tame {} w (w\<lparr>w_db := d\<rparr>)"
  proof (rule tame_update [OF ok b s])
    show "carried {} x (f x)" if "x \<in> set (backups (w_db w))" "P x" for x
      using P f that(2) by (auto simp: carried_def held_def)
    show "store_inv d" using store_step_inv [OF store_step.cancel [OF c] world_inv [OF ok]] .
  qed simp
qed

lemma eased_finish_cancelled:
  assumes c: "FinishCancelledTransferOperation clk i k (w_db w) = Inr d"
    and idle: "world_ok w \<Longrightarrow> \<forall>j \<in> set (w_jobs w). jb_live j \<and> jb_op j = k \<longrightarrow> jb_server j \<notin> sids (w_db w)"
  shows "eased w (w\<lparr>w_db := d\<rparr>)"
proof (rule eased_tame [where S = "{k}"])
  show "w_seq (w\<lparr>w_db := d\<rparr>) = w_seq w" by simp
  assume ok: "world_ok w"
  obtain msg where d: "d = (w_db w)\<lparr>backups := update_where
      (\<lambda>b. bk_id b = k \<and> bk_server_id b = i \<and> bk_phase b = BackupRunning)
      (\<lambda>b. b\<lparr>bk_phase := BackupFailed, bk_message := msg, bk_completed_at := Some clk\<rparr>) (backups (w_db w))\<rparr>"
    using c by (auto simp: FinishCancelledTransferOperation_def split: sum.splits option.splits if_splits)
  show "tame {k} w (w\<lparr>w_db := d\<rparr>)"
  proof (rule tame_update [OF ok])
    show "store_inv d" using store_step_inv [OF store_step.finish_cancelled [OF c] world_inv [OF ok]] .
    show "backups d = update_where (\<lambda>b. bk_id b = k \<and> bk_server_id b = i \<and> bk_phase b = BackupRunning)
      (\<lambda>b. b\<lparr>bk_phase := BackupFailed, bk_message := msg, bk_completed_at := Some clk\<rparr>) (backups (w_db w))"
      by (simp add: d)
    show "carried {k} b (b\<lparr>bk_phase := BackupFailed, bk_message := msg, bk_completed_at := Some clk\<rparr>)"
      if "b \<in> set (backups (w_db w))" "bk_id b = k \<and> bk_server_id b = i \<and> bk_phase b = BackupRunning" for b
      using that rows_okD(4) [of "w_db w" b] ok by (auto simp: carried_def held_def world_ok_def)
  qed (use idle [OF ok] in \<open>auto simp: d\<close>)
qed

lemma GetBackup_found: "GetBackup i d = Inr b \<Longrightarrow> b \<in> set (backups d) \<and> bk_id b = i"
  by (auto simp: GetBackup_def dest!: find_SomeD split: option.splits)

lemma eased_stop: "eased w (snd (stopOperation e srv i cluster w))"
proof (cases "GetBackup i (w_db w)")
  case (Inr b)
  define cl where "cl = (case bk_cluster_id b of Some c \<Rightarrow> c | None \<Rightarrow> cluster)"
  define name where "name = (if bk_job_name b = [] then JobName False (bk_direction b) (bk_id b) else bk_job_name b)"
  define w1 where "w1 = delete_job (cl, name) w"
  note b = GetBackup_found [OF Inr]
  have t: "eased w w1" unfolding w1_def by (rule eased_tame [OF _ tame_delete_job]) (simp_all add: delete_job_def)
  have idle: "\<forall>j \<in> set (w_jobs w1). jb_live j \<and> jb_op j = bk_id b \<longrightarrow> jb_server j \<notin> sids (w_db w1)"
    if ok: "world_ok w1" and gone: "\<not> job_pods (cl, name) w1"
  proof (intro ballI impI notI)
    fix j assume j: "j \<in> set (w_jobs w1)" "jb_live j \<and> jb_op j = bk_id b" "jb_server j \<in> sids (w_db w1)"
    then obtain r where r: "r \<in> set (backups (w_db w1))" "op_row r j"
      using ok jobs_okD(2) [of w1 j] by (auto simp: world_ok_def)
    have "b \<in> set (backups (w_db w1))" using b by (simp add: w1_def delete_job_def)
    with r j(2) have "r = b" using world_ids [OF world_inv [OF ok]] by (auto simp: op_row_def)
    then have "jb_key j = (cl, name)"
      using r ok rows_okD(2) [of "w_db w1" r] by (cases "jb_key j") (auto simp: op_row_def cl_def name_def world_ok_def JobName_def)
    with gone j(1,2) show False by (auto simp: job_pods_def)
  qed
  have fin: "eased w (w1\<lparr>w_db := d\<rparr>)"
    if "FinishCancelledTransferOperation (te_now e) (sv_id srv) (bk_id b) (w_db w1) = Inr d" "\<not> job_pods (cl, name) w1" for d
    by (rule eased_trans [OF t eased_finish_cancelled [OF that(1)]]) (use idle that(2) in blast)
  show ?thesis
    unfolding stopOperation_def Inr sum.case Let_def cl_def [symmetric] name_def [symmetric] w1_def [symmetric]
    using t fin by (auto split: sum.splits)
qed (simp add: stopOperation_def)

lemma eased_stop_linked: "eased w (snd (stop_linked e srv i cluster w))"
  by (simp add: stop_linked_def eased_stop)


lemma eased_statement:
  assumes "FinishServerTransfer clk i rb (w_db w) = Inr d \<or> CommitServerTransfer clk i (w_db w) = Inr d
     \<or> AdvanceServerTransfer clk i (w_db w) = Inr d"
  shows "eased w (w\<lparr>w_db := d\<rparr>)"
proof (rule eased_step)
  show "store_step (w_db w) d"
    using assms by (auto intro: store_step.finish store_step.commit store_step.advance)
  show "backups d = backups (w_db w)" "sids d = sids (w_db w)"
    using assms by (auto simp: FinishServerTransfer_def CommitServerTransfer_def AdvanceServerTransfer_def Let_def
      split: sum.splits option.splits if_splits)
qed

lemma eased_rollback: "eased w (rollback e srv0 msg w)"
proof (cases "CancelServerTransfer (te_now e) (sv_id srv0) msg (w_db w)")
  case (Inr p)
  then obtain srv d where c: "CancelServerTransfer (te_now e) (sv_id srv0) msg (w_db w) = Inr (srv, d)" by (cases p) auto
  note w0 = eased_cancel [OF c]
  show ?thesis
  proof (cases "sv_transfer srv")
    case (Some t)
    define w1 where "w1 = snd (stop_linked e srv (tr_backup_id t) (tr_source_cluster t) (w\<lparr>w_db := d\<rparr>))"
    define w2 where "w2 = snd (stop_linked e srv (tr_restore_id t) (tr_target_cluster t) w1)"
    define w3 where "w3 = snd (if tr_phase t = TransferBackingUp then (True, w2)
        else if \<not> te_reach e (tr_target_cluster t) then (False, w2)
        else deleteNamespace e (tr_target_cluster t) (sv_id srv) w2)"
    have e1: "eased w w1" unfolding w1_def by (rule eased_trans [OF w0 eased_stop_linked])
    have e2: "eased w w2" unfolding w2_def by (rule eased_trans [OF e1 eased_stop_linked])
    have e3: "eased w w3"
      by (rule eased_trans [OF e2]) (simp add: w3_def eased_deleteNamespace)
    have e4: "eased w (transfer_emit e srv m (w3\<lparr>w_db := d3\<rparr>))"
      if "FinishServerTransfer (te_now e) (sv_id srv) True (w_db w3) = Inr d3" for d3 m
      by (rule eased_trans [OF eased_trans [OF e3 eased_statement] eased_emit]) (use that in blast)
    show ?thesis
      unfolding rollback_def c sum.case case_prod_unfold Let_def fst_conv snd_conv Some option.case
        w1_def [symmetric] w2_def [symmetric] w3_def [symmetric]
      using e1 e2 e3 e4 by (simp split: sum.splits)
  qed (use c w0 in \<open>simp add: rollback_def\<close>)
qed (simp add: rollback_def)

lemma eased_committing: "eased w (advanceCommitting e srv t w)"
proof -
  define w1 where "w1 = snd (deleteNamespace e (tr_source_cluster t) (sv_id srv) w)"
  have e1: "eased w w1" unfolding w1_def by (rule eased_deleteNamespace)
  have "eased w (transfer_emit e srv m (w1\<lparr>w_db := d\<rparr>))"
    if "FinishServerTransfer (te_now e) (sv_id srv) False (w_db w1) = Inr d" for d m
    by (rule eased_trans [OF eased_trans [OF e1 eased_statement] eased_emit]) (use that in blast)
  with e1 show ?thesis
    unfolding advanceCommitting_def case_prod_unfold Let_def w1_def [symmetric] by (simp split: sum.splits)
qed

lemma eased_linked:
  assumes "\<And>w. eased w (f w)"
  shows "eased w (linked_result e srv i wht w f)"
  using assms by (simp add: linked_result_def eased_rollback split: sum.splits BackupPhase.splits)

lemma transfer_item_eased:
  "eased w (transfer_item e srv w) \<or> (\<exists>dir. transfer_item e srv w = queue_linked e srv dir w)"
proof (cases "sv_transfer srv")
  case (Some t)
  have backing: "advanceBackingUp e srv t w = queue_linked e srv DirBackup w \<or> eased w (advanceBackingUp e srv t w)"
  proof (cases "tr_backup_id t = 0")
    case False
    have "eased w (linked_result e srv (tr_backup_id t) ''backup'' w
         (\<lambda>w. case AdvanceServerTransfer (te_now e) (sv_id srv) (w_db w) of Inl _ \<Rightarrow> w | Inr d \<Rightarrow> w\<lparr>w_db := d\<rparr>))"
      by (rule eased_linked) (use eased_statement [OF disjI2 [OF disjI2]] in \<open>auto split: sum.splits\<close>)
    with False show ?thesis by (simp add: advanceBackingUp_def)
  qed (simp add: advanceBackingUp_def)
  have restoring: "advanceRestoring e srv t w = queue_linked e srv DirRestore w \<or> eased w (advanceRestoring e srv t w)"
  proof (cases "tr_restore_id t = 0")
    case False
    have commit: "eased w (advanceCommitting e srv t (w\<lparr>w_db := d\<rparr>))"
      if "CommitServerTransfer (te_now e) (sv_id srv) (w_db w) = Inr d" for w d
      by (rule eased_trans [OF eased_statement eased_committing]) (use that in blast)
    have "eased w (linked_result e srv (tr_restore_id t) ''restore'' w
         (\<lambda>w. case CommitServerTransfer (te_now e) (sv_id srv) (w_db w) of Inl _ \<Rightarrow> w
            | Inr d \<Rightarrow> advanceCommitting e srv t (w\<lparr>w_db := d\<rparr>)))"
      by (rule eased_linked) (use commit in \<open>auto split: sum.splits\<close>)
    with False show ?thesis by (simp add: advanceRestoring_def)
  qed (simp add: advanceRestoring_def)
  show ?thesis
    using Some backing restoring eased_rollback eased_committing
    by (auto simp: transfer_item_def split: TransferPhase.splits)
qed (simp add: transfer_item_def)

lemma CreateTransferOperation_new:
  assumes "CreateTransferOperation clk k i dir d = Inr d'"
  obtains b where "backups d' = backups d @ [b]" "sids d' = sids d" "i \<in> sids d" "bk_id b = k" "bk_server_id b = i"
    "\<not> held b" "\<not> bk_forgotten b"
proof -
  obtain b where "backups d' = backups d @ [b] \<and> bk_id b = k \<and> bk_server_id b = i \<and> bk_phase b = BackupPending
      \<and> \<not> bk_forgotten b" and "sids d' = sids d"
    using assms by (auto simp: CreateTransferOperation_def Let_def new_operation_def
        split: sum.splits option.splits if_splits BackupDirection.splits)
  moreover obtain s where "lockServer i d = Inr s"
    using assms by (auto simp: CreateTransferOperation_def split: sum.splits)
  ultimately show thesis using lockServer_sids by (intro that) (auto simp: held_def)
qed

lemma transfer_ok:
  assumes ok: "world_ok w" and n: "w_seq w \<le> te_new e"
  shows "\<exists>S. tame S w ((transfer_item e srv w)\<lparr>w_seq := Suc (te_new e)\<rparr>)"
proof -
  let ?n = "Suc (te_new e)"
  have kb: "keys_below (w_seq w) (w_db w)" using ok by (simp add: world_ok_def)
  have kb': "keys_below ?n (w_db w)" using kb n by (fastforce simp: keys_below_def)
  have stay: "\<exists>S. tame S w (w\<lparr>w_seq := ?n\<rparr>)"
    using tame_refl [OF ok] n kb' by (auto simp: tame_def)
  consider S where "tame S w (transfer_item e srv w)" "w_seq (transfer_item e srv w) = w_seq w"
    | dir d where "CreateTransferOperation (te_now e) (te_new e) (sv_id srv) dir (w_db w) = Inr d"
        "transfer_item e srv w = w\<lparr>w_db := d\<rparr>"
    | "transfer_item e srv w = w"
  proof (cases "eased w (transfer_item e srv w)")
    case False
    then obtain dir where q: "transfer_item e srv w = queue_linked e srv dir w" using transfer_item_eased by blast
    show thesis
      by (cases "CreateTransferOperation (te_now e) (te_new e) (sv_id srv) dir (w_db w)")
        (use q that(2) [of dir] that(3) in \<open>auto simp: queue_linked_def\<close>)
  qed (use ok that(1) in \<open>auto simp: eased_def\<close>)
  then show ?thesis
  proof cases
    case 1
    have "keys_below ?n (w_db (transfer_item e srv w))"
      using 1 n by (fastforce simp: tame_def keys_below_def)
    with 1 n show ?thesis by (intro exI [of _ S]) (simp add: tame_def)
  next
    case (2 dir d)
    from CreateTransferOperation_new [OF 2(1)] obtain b where b: "backups d = backups (w_db w) @ [b]" "sids d = sids (w_db w)"
      "sv_id srv \<in> sids (w_db w)" "bk_id b = te_new e" "bk_server_id b = sv_id srv" "\<not> held b" "\<not> bk_forgotten b" .
    have old: "bk_id r < w_seq w" if "r \<in> set (backups (w_db w))" for r using kb that by (simp add: keys_below_def)
    have srv: "sv_id srv < w_seq w" using kb b(3) by (simp add: keys_below_def)
    have "fresh_backup (te_new e) (w_db w)" using old n srv by (fastforce simp: fresh_backup_def)
    then have inv: "store_inv d" using store_step_inv [OF store_step.create_operation [OF 2(1)] world_inv [OF ok]] by blast
    have "rows_go {} (w_seq w) (w_db w) d"
      unfolding rows_go_def
    proof (intro conjI ballI impI inv)
      show "(\<exists>a \<in> set (backups (w_db w)). carried {} a x) \<or> new_row (w_seq w) x" if "x \<in> set (backups d)" for x
        using that b n by (auto simp: new_row_def intro: bexI [of _ x])
    qed (use b in auto)
    moreover have "keys_below ?n d" using kb' srv n b by (auto simp: keys_below_def)
    ultimately have "tame {} w ((w\<lparr>w_db := d\<rparr>)\<lparr>w_seq := ?n\<rparr>)"
      using n jobs_same ok by (simp add: tame_def world_ok_def)
    with 2(2) show ?thesis by auto
  qed (use stay in simp)
qed

end
