(* ===== verification/Controller_Props.thy ===== *)
theory Controller_Props imports Controller_Items begin

text \<open>
  The leader's controller as a whole: whatever the API's transactions, the cluster and a restart of
  the leader do meanwhile, no server ever has two Jobs that run, and each Job that runs has its row
  in the queue. The locale \<open>clients\<close> is what the API must keep to; its interpretation is the API's
  transactions of the store.
\<close>

section \<open>What the API keeps to\<close>

locale clients =
  fixes api :: "row_id \<Rightarrow> db \<Rightarrow> db \<Rightarrow> bool"
  assumes api_rows_go: "api n d d' \<Longrightarrow> store_inv d \<Longrightarrow> keys_below n d \<Longrightarrow> rows_go {} n d d'"
begin

lemma outside_step_tame:
  assumes "outside_step api w w1" "world_ok w"
  shows "tame {} w w1"
  using assms(1)
proof cases
  case (transaction d n)
  have "rows_go {} (w_seq w) (w_db w) d"
    using api_rows_go [OF transaction(2)] assms(2) by (simp add: world_ok_def)
  with transaction assms(2) jobs_same show ?thesis by (simp add: tame_def world_ok_def)
next
  case (cluster js)
  with tame_refl [OF assms(2)] show ?thesis by (simp add: tame_def)
qed

lemma outside_tame: "outside api w w1 \<Longrightarrow> world_ok w \<Longrightarrow> tame {} w w1"
proof (induction rule: rtranclp_induct)
  case (step w1 w2)
  have t: "tame {} w w1" using step by simp
  show ?case
    using tame_then [OF step.prems t outside_step_tame [OF step.hyps(2)]] .
qed (rule tame_refl)

end

section \<open>What the lists in hand are good for\<close>

fun mode_ok :: "world \<Rightarrow> mode \<Rightarrow> bool" where
  "mode_ok w (Pending busy bs) \<longleftrightarrow> busy_ok w busy \<and> (\<forall>b \<in> set bs. known w b \<and> bk_phase b = BackupPending)"
| "mode_ok w (Running bs) \<longleftrightarrow> distinct (map bk_id bs) \<and> (\<forall>b \<in> set bs. tracked w b \<and> bk_phase b = BackupRunning)"
| "mode_ok w (Deleting busy bs) \<longleftrightarrow> busy_ok w busy \<and> distinct (map bk_id bs)
     \<and> (\<forall>b \<in> set bs. known w b \<and> bk_phase b = BackupDeleting \<and> (held b \<longrightarrow> tracked w b) \<and> (\<not> held b \<longrightarrow> \<not> bk_forgotten b))"
| "mode_ok w _ \<longleftrightarrow> True"

definition ctl_ok :: "world \<times> mode \<Rightarrow> bool" where
  "ctl_ok s = (world_ok (fst s) \<and> mode_ok (fst s) (snd s))"

lemma mode_tame:
  assumes "world_ok w" "tame {} w w'" "mode_ok w m"
  shows "mode_ok w' m"
  using assms(3) busy_tame [OF assms(2)] known_tame [OF assms(2)] tracked_tame [OF assms(1,2)]
  by (cases m) auto

lemma row_known: "world_ok w \<Longrightarrow> b \<in> set (backups (w_db w)) \<Longrightarrow> known w b"
  using world_ids [OF world_inv] unfolding known_def by (auto simp: world_ok_def keys_below_def)

lemma row_tracked:
  assumes "world_ok w" "b \<in> set (backups (w_db w))" "held b"
  shows "tracked w b"
proof -
  have "same_hold b r" if "r \<in> set (backups (w_db w))" "bk_id r = bk_id b" for r
    using world_ids [OF world_inv [OF assms(1)] that(1) assms(2) that(2)] assms(3) by (simp add: same_hold_def)
  with row_known [OF assms(1,2)] rows_okD(2) [OF _ assms(2)] assms show ?thesis
    by (auto simp: tracked_def world_ok_def)
qed

lemma list_rows: "b \<in> set (ListBackupsByPhase ph d) \<longleftrightarrow> b \<in> set (backups d) \<and> bk_phase b = ph"
  by (auto simp: ListBackupsByPhase_def)

lemma list_distinct: "store_inv d \<Longrightarrow> distinct (map bk_id (ListBackupsByPhase ph d))"
  by (simp add: ListBackupsByPhase_def store_inv_def ids_ok_def distinct_map inj_on_def)

lemma busyServers_ok: "busy_ok w (busyServers (w_db w))"
  by (auto simp: busy_ok_def busyServers_def held_def list_rows)

context clients begin

lemma ctl_step_ok:
  assumes "ctl_step api s s'" "ctl_ok s"
  shows "ctl_ok s'"
  using assms
proof (induction rule: ctl_step.induct)
  case (others w w' m)
  then have t: "tame {} w w'" using outside_step_tame by (simp add: ctl_ok_def)
  with others tame_ok mode_tame show ?case by (auto simp: ctl_ok_def)
next
  case (transfer w w1 e s ss)
  then have "world_ok w1" using tame_ok [OF _ outside_tame] by (auto simp: ctl_ok_def)
  with transfer transfer_ok [of w1 e s] tame_ok show ?case by (auto simp: ctl_ok_def)
next
  case (clean w w1 b bs e)
  then have "world_ok w1" using tame_ok [OF _ outside_tame] by (auto simp: ctl_ok_def)
  from clean_ok [OF this, of b "{}" e "w_db w"] show ?case by (simp add: ctl_ok_def item_ok_def)
next
  case (list_pending w w1)
  then have t: "tame {} w w1" and ok: "world_ok w" using outside_tame by (auto simp: ctl_ok_def)
  with tame_ok row_known known_tame [OF t] busyServers_ok show ?case by (auto simp: ctl_ok_def list_rows)
next
  case (pending w w1 e b busy busy' w' bs)
  then have t: "tame {} w w1" and ok: "world_ok w" and kn: "known w b" "bk_phase b = BackupPending" and bu: "busy_ok w busy"
    using outside_tame by (auto simp: ctl_ok_def)
  from pending_ok [OF ok t pending(2) kn bu pending(3)] have i: "item_ok (bk_id b) busy busy' w1 w'" .
  have "busy_ok w1 busy" using busy_tame [OF t bu] .
  moreover have "known w1 x" if "x \<in> set bs" for x using known_tame [OF t] pending(4) that by (auto simp: ctl_ok_def)
  ultimately show ?case using i pending(4) by (auto simp: ctl_ok_def item_ok_def)
next
  case (list_running w)
  then show ?case using row_tracked list_distinct world_inv by (auto simp: ctl_ok_def list_rows held_def)
next
  case (running w w1 e b bs)
  then have t: "tame {} w w1" and ok: "world_ok w" and b: "tracked w b" "bk_phase b = BackupRunning"
    using outside_tame by (auto simp: ctl_ok_def)
  note i = running_ok [OF ok t running(2) b, of "{}"]
  have "bk_id b \<notin> bk_id ` set bs" using running(3) by (simp add: ctl_ok_def)
  then have new: "bk_id x \<noteq> bk_id b" if "x \<in> set bs" for x using that by (metis imageI)
  have "tracked w1 x" "bk_id x \<noteq> bk_id b" if "x \<in> set bs" for x
    using tracked_tame [OF ok t] running(3) that new by (auto simp: ctl_ok_def)
  with i running(3) show ?case by (auto simp: ctl_ok_def item_ok_def)
next
  case (list_deleting w w1)
  then have t: "tame {} w w1" and ok: "world_ok w" using outside_tame by (auto simp: ctl_ok_def)
  have "held x" if "x \<in> set (backups (w_db w))" "bk_forgotten x" for x
    using rows_okD(3) [of "w_db w" x] ok that by (auto simp: world_ok_def)
  with t ok show ?case
    using tame_ok row_known known_tame [OF t] row_tracked tracked_tame [OF ok t] busyServers_ok list_distinct world_inv
    by (auto simp: ctl_ok_def list_rows)
next
  case (deleting w w1 e b busy busy' w' bs)
  then have t: "tame {} w w1" and ok: "world_ok w" and bu: "busy_ok w busy" and b: "known w b" "bk_phase b = BackupDeleting"
    "held b \<Longrightarrow> tracked w b" "\<not> held b \<Longrightarrow> \<not> bk_forgotten b"
    using outside_tame by (auto simp: ctl_ok_def)
  from deleting_ok [OF ok t deleting(2) b bu deleting(3)] have i: "item_ok (bk_id b) busy busy' w1 w'" .
  have "bk_id b \<notin> bk_id ` set bs" using deleting(4) by (simp add: ctl_ok_def)
  then have new: "bk_id x \<noteq> bk_id b" if "x \<in> set bs" for x using that by (metis imageI)
  have "known w1 x" "bk_id x \<noteq> bk_id b" "held x \<Longrightarrow> tracked w1 x" if "x \<in> set bs" for x
    using known_tame [OF t] tracked_tame [OF ok t] deleting(4) that new by (auto simp: ctl_ok_def)
  with i deleting(4) busy_tame [OF t bu] show ?case by (auto simp: ctl_ok_def item_ok_def)
qed (auto simp: ctl_ok_def)

lemma ctl_steps_ok: "(ctl_step api)\<^sup>*\<^sup>* s s' \<Longrightarrow> ctl_ok s \<Longrightarrow> ctl_ok s'"
  by (induction rule: rtranclp_induct) (auto intro: ctl_step_ok)

end


section \<open>The API's transactions\<close>

text \<open>
  The store's transactions the API makes, with what its handlers check before them. A handler
  reads a row and then acts by its key: \<open>mark_deleting\<close> and \<open>drop_record\<close> hold of the row at the
  moment it acts, which the database does not enforce, and \<open>teardown\<close> leaves out the deletion of
  a server one of whose operations has a Job.
\<close>

inductive client_step :: "row_id \<Rightarrow> db \<Rightarrow> db \<Rightarrow> bool" where
  servers: "store_step d d' \<Longrightarrow> backups d' = backups d \<Longrightarrow> \<forall>i \<in> sids d'. i \<in> sids d \<or> n \<le> i \<Longrightarrow> client_step n d d'"
| create_backup: "CreateBackup c k b d = Inr d' \<Longrightarrow> bk_direction b = DirBackup \<Longrightarrow> bk_phase b = BackupPending \<Longrightarrow>
    \<not> bk_forgotten b \<Longrightarrow> n \<le> k \<Longrightarrow> client_step n d d'"
| create_restore: "CreateRestore c k b d = Inr d' \<Longrightarrow> bk_direction b = DirRestore \<Longrightarrow> bk_phase b = BackupPending \<Longrightarrow>
    \<not> bk_forgotten b \<Longrightarrow> n \<le> k \<Longrightarrow> client_step n d d'"
| create_import: "CreateDatabaseImport c k b d = Inr d' \<Longrightarrow> bk_direction b = DirDatabaseImport \<Longrightarrow> bk_phase b = BackupPending \<Longrightarrow>
    \<not> bk_forgotten b \<Longrightarrow> n \<le> k \<Longrightarrow> client_step n d d'"
| cancel_pending: "client_step n d (snd (CancelPendingBackup k d))"
| mark_deleting: "\<forall>r \<in> set (backups d). bk_id r = k \<longrightarrow> bk_phase r = BackupSucceeded \<Longrightarrow>
    client_step n d (MarkBackupDeleting k d)"
| drop_record: "\<forall>r \<in> set (backups d). bk_id r = k \<longrightarrow> op_finished (bk_phase r) \<Longrightarrow> client_step n d (DeleteBackup k d)"
| drop_imports: "\<forall>r \<in> set (backups d). bk_database_id r = dbid \<and> bk_direction r = DirDatabaseImport \<longrightarrow> \<not> held r \<Longrightarrow>
    client_step n d (DeleteDatabaseImports dbid d)"
| stamp_targets: "client_step n d (StampBackupTargets tg d)"
| teardown: "\<forall>r \<in> set (backups d). bk_server_id r = i \<longrightarrow> \<not> held r \<Longrightarrow> client_step n d (DeleteBackupsForServer i d)"
| cancel: "CancelServerTransfer c i msg d = Inr (srv, d') \<Longrightarrow> client_step n d d'"

lemma client_store_step: "client_step n d d' \<Longrightarrow> keys_below n d \<Longrightarrow> store_step d d'"
proof (induction rule: client_step.induct)
  case (create_backup c k b d d' n)
  then have "fresh_backup k d"
    using lockServer_sids by (fastforce simp: fresh_backup_def keys_below_def CreateBackup_def split: sum.splits)
  with create_backup show ?case by (blast intro: store_step.create_backup)
next
  case (create_restore c k b d d' n)
  then have "fresh_backup k d"
    using lockServer_sids by (fastforce simp: fresh_backup_def keys_below_def CreateRestore_def createWhileStopped_def split: sum.splits)
  with create_restore show ?case by (blast intro: store_step.create_restore)
next
  case (create_import c k b d d' n)
  then have "fresh_backup k d"
    using lockServer_sids by (fastforce simp: fresh_backup_def keys_below_def CreateDatabaseImport_def createWhileStopped_def split: sum.splits)
  with create_import show ?case by (blast intro: store_step.create_import)
qed (blast intro: store_step.intros)+

lemma rows_go_update:
  assumes "store_inv d'" "backups d' = update_where P f (backups d)" "sids d' = sids d"
    and f: "\<And>b. b \<in> set (backups d) \<Longrightarrow> P b \<Longrightarrow> carried {} b (f b)"
  shows "rows_go {} n d d'"
  unfolding rows_go_def
proof (intro conjI ballI impI)
  have g: "carried {} b (if P b then f b else b)" if "b \<in> set (backups d)" for b using f that by simp
  show "(\<exists>b \<in> set (backups d). carried {} b b') \<or> new_row n b'" if "b' \<in> set (backups d')" for b'
    using g that unfolding assms(2) set_update_where by blast
  fix r assume r: "r \<in> set (backups d)"
  then have "(if P r then f r else r) \<in> set (backups d')" unfolding assms(2) set_update_where by blast
  then show "bk_id r \<in> bk_id ` set (backups d')"
    by (rule rev_image_eqI) (use carriedD(1) [OF g [OF r]] in simp)
qed (use assms in auto)

lemma rows_go_delete:
  assumes "store_inv d'" "backups d' = delete_where P (backups d)" "sids d' = sids d"
    and "\<And>b. b \<in> set (backups d) \<Longrightarrow> P b \<Longrightarrow> \<not> held b"
  shows "rows_go {} n d d'"
  using assms by (auto simp: rows_go_def delete_where_def intro: carried_refl)

lemma rows_go_append:
  assumes "store_inv d'" "backups d' = backups d @ [b]" "sids d' = sids d" "new_row n b"
  shows "rows_go {} n d d'"
  using assms by (auto simp: rows_go_def intro: carried_refl)

lemma client_rows_go:
  assumes "client_step n d d'" "store_inv d" "keys_below n d"
  shows "rows_go {} n d d'"
proof -
  have inv: "store_inv d'" using store_step_inv [OF client_store_step] assms by blast
  show ?thesis
    using assms(1) inv
  proof (cases rule: client_step.cases)
    case servers
    with inv show ?thesis by (auto simp: rows_go_def intro: carried_refl)
  next
    case (create_backup c k b)
    then show ?thesis
      by (intro rows_go_append [OF inv, where b = "b\<lparr>bk_id := k, bk_created_at := c\<rparr>"])
        (auto simp: CreateBackup_def new_row_def held_def split: sum.splits if_splits)
  next
    case (create_restore c k b)
    then show ?thesis
      by (intro rows_go_append [OF inv, where b = "b\<lparr>bk_id := k, bk_created_at := c\<rparr>"])
        (auto simp: CreateRestore_def createWhileStopped_def new_row_def held_def split: sum.splits if_splits option.splits)
  next
    case (create_import c k b)
    then show ?thesis
      by (intro rows_go_append [OF inv, where b = "b\<lparr>bk_id := k, bk_created_at := c\<rparr>"])
        (auto simp: CreateDatabaseImport_def createWhileStopped_def new_row_def held_def split: sum.splits if_splits option.splits)
  next
    case (cancel_pending k)
    then show ?thesis
      by (intro rows_go_delete [OF inv, where P = "\<lambda>b. bk_id b = k \<and> bk_phase b = BackupPending"])
        (auto simp: CancelPendingBackup_def Let_def held_def)
  next
    case (mark_deleting k)
    then show ?thesis
      by (intro rows_go_update [OF inv, where P = "\<lambda>b. bk_id b = k" and f = to_deleting])
        (auto simp: MarkBackupDeleting_def update_backup_def to_deleting_def carried_def held_def)
  next
    case (drop_record k)
    then show ?thesis
      by (intro rows_go_delete [OF inv, where P = "\<lambda>b. bk_id b = k"])
        (auto simp: DeleteBackup_def held_def op_finished_def)
  next
    case (drop_imports dbid)
    then show ?thesis
      by (intro rows_go_delete [OF inv, where P = "\<lambda>b. bk_database_id b = dbid \<and> bk_direction b = DirDatabaseImport"])
        (auto simp: DeleteDatabaseImports_def)
  next
    case (stamp_targets tg)
    then show ?thesis
      by (intro rows_go_update [OF inv, where f = "bk_target_update (\<lambda>_. tg)"
          and P = "\<lambda>b. bk_target b = [] \<and> bk_direction b = DirBackup \<and> bk_phase b = BackupSucceeded"])
        (auto simp: StampBackupTargets_def carried_def held_def)
  next
    case (teardown i)
    then show ?thesis
      by (intro rows_go_delete [OF inv, where P = "\<lambda>b. bk_server_id b = i"])
        (auto simp: DeleteBackupsForServer_def)
  next
    case (cancel c i msg srv)
    from CancelServerTransfer_rows [OF cancel(1)] obtain P f where
      "backups d' = update_where P f (backups d)" "sids d' = sids d" "\<forall>b. P b \<longrightarrow> bk_phase b = BackupPending"
      and f: "\<forall>b. bk_phase (f b) = BackupFailed \<and> bk_id (f b) = bk_id b \<and> bk_server_id (f b) = bk_server_id b
        \<and> bk_direction (f b) = bk_direction b \<and> bk_forgotten (f b) = bk_forgotten b" .
    then show ?thesis by (intro rows_go_update [OF inv, where P = P and f = f]) (auto simp: carried_def held_def)
  qed
qed


interpretation ctl: clients client_step
  by unfold_locales (rule client_rows_go)

section \<open>What holds of every controller\<close>

definition start_world :: world where
  "start_world = \<lparr>w_db = empty_db, w_jobs = [], w_seq = 0, w_torn = []\<rparr>"

abbreviation controlled :: "world \<Rightarrow> mode \<Rightarrow> bool" where
  "controlled w m \<equiv> (ctl_step client_step)\<^sup>*\<^sup>* (start_world, Idle) (w, m)"

lemma start_world_ok: "ctl_ok (start_world, Idle)"
  using store_inv_empty
  by (simp add: ctl_ok_def world_ok_def start_world_def jobs_ok_def rows_ok_def keys_below_def sids_def empty_db_def)

lemma controlled_ok: "controlled w m \<Longrightarrow> world_ok w"
  using ctl.ctl_steps_ok [OF _ start_world_ok] by (auto simp: ctl_ok_def)



section \<open>Runs\<close>

text \<open>A stopped server, a restore of it that was asked for, and the tick that takes it up.\<close>

definition restored_server :: Server where
  "restored_server = sample_server\<lparr>sv_desired_state := StateStopped\<rparr>"

definition asked_restore :: Backup where
  "asked_restore = (new_operation 1 DirRestore)\<lparr>bk_id := 2\<rparr>"

definition asked_world :: world where
  "asked_world = start_world\<lparr>w_db := empty_db\<lparr>servers := [restored_server], backups := [asked_restore]\<rparr>, w_seq := 3\<rparr>"

definition ready_env :: op_env where
  "ready_env = \<lparr>oe_unusable = [], oe_target = [], oe_reach = True, oe_pods = Some False, oe_game_pods = Some False,
     oe_databases = Inr [], oe_exclusions = Inr ([], []), oe_secret = True, oe_spec = ''{}'', oe_uid = ''u'',
     oe_create = Answered_made, oe_get = True, oe_listed = True, oe_adopt = True, oe_decodes = True, oe_keep = 0,
     oe_size = 0, oe_failure = [], oe_delete = True, oe_creds = True, oe_now = 0, oe_event = 1,
     oe_size_text = (\<lambda>_. []), oe_database_name = (\<lambda>_. None)\<rparr>"

definition restore_job :: job where
  "restore_job = \<lparr>jb_uid = ''u'', jb_key = (1, ''quetzal-restore-2''), jb_op = 2, jb_server = 1, jb_forget = False,
     jb_exists = True, jb_live = True, jb_status = no_status 1\<rparr>"

definition restoring_world :: world where
  "restoring_world = asked_world\<lparr>w_jobs := [restore_job], w_db := empty_db\<lparr>servers := [restored_server],
     backups := [asked_restore\<lparr>bk_phase := BackupRunning, bk_job_name := ''quetzal-restore-2'', bk_job_spec := ''{}'',
       bk_job_uid := ''u'', bk_cluster_id := Some 1\<rparr>]\<rparr>\<rparr>"

lemmas run_defs = restored_server_def asked_restore_def asked_world_def start_world_def new_operation_def sample_server_def
  empty_db_def

lemma asked_world_controlled: "controlled asked_world Idle"
proof -
  let ?w1 = "start_world\<lparr>w_db := empty_db\<lparr>servers := [restored_server]\<rparr>, w_seq := 2\<rparr>"
  have "client_step 0 empty_db (empty_db\<lparr>servers := [restored_server]\<rparr>)"
  proof (rule client_step.servers)
    have "CreateServerChecked 0 1 restored_server None empty_db = Inr (empty_db\<lparr>servers := [restored_server]\<rparr>)"
      by (simp add: CreateServerChecked_def CreateServer_def any_row_def run_defs)
    then show "store_step empty_db (empty_db\<lparr>servers := [restored_server]\<rparr>)"
      by (rule store_step.create_server) (simp_all add: run_defs fresh_server_def)
  qed simp_all
  then have "outside_step client_step start_world ?w1"
    using outside_step.transaction [of client_step start_world "empty_db\<lparr>servers := [restored_server]\<rparr>" 2]
    by (simp add: run_defs keys_below_def sids_def)
  then have 1: "controlled ?w1 Idle" by (blast intro: ctl_step.others)
  have "client_step 2 (w_db ?w1) (w_db asked_world)"
    by (rule client_step.create_restore [where c = 0 and k = 2 and b = asked_restore])
      (simp_all add: run_defs CreateRestore_def createWhileStopped_def lockServer_def offlineOperationActive_def)
  then have "outside_step client_step ?w1 asked_world"
    using outside_step.transaction [of client_step ?w1 "w_db asked_world" 3]
    by (simp add: run_defs keys_below_def sids_def)
  with 1 show ?thesis by (blast intro: ctl_step.others rtranclp.rtrancl_into_rtrancl)
qed


lemma JobName_restore_2: "JobName False DirRestore 2 = ''quetzal-restore-2''"
  by code_simp

lemma restoring_step:
  "pending_item ready_env asked_restore (w_db asked_world) {} asked_world = ({1}, restoring_world)"
  by (simp add: pending_item_def start_pending_def other_target_def readiness_of_def serverHasPods_def op_pods_def
      not_its_transfer_def claim_and_submit_def ClaimBackup_def lockServer_def rows_affected_def submit_job_def create_job_def
      get_job_def observe_def ObserveBackupJob_def operationCluster_def GetBackup_def GetServer_def backoff_of_def
      JobName_restore_2 restoring_world_def restore_job_def ready_env_def run_defs update_where_def Let_def)

lemma restoring_controlled: "controlled restoring_world (Pending {1} [])"
proof -
  have "ctl_step client_step (asked_world, Idle) (asked_world, Pending (busyServers (w_db asked_world))
      (ListBackupsByPhase BackupPending (w_db asked_world)))"
    by (rule ctl_step.list_pending) simp
  moreover have "busyServers (w_db asked_world) = {}" "ListBackupsByPhase BackupPending (w_db asked_world) = [asked_restore]"
    by (simp_all add: busyServers_def ListBackupsByPhase_def run_defs)
  ultimately have "controlled asked_world (Pending {} [asked_restore])"
    using asked_world_controlled by (auto intro: rtranclp.rtrancl_into_rtrancl)
  moreover have "ctl_step client_step (asked_world, Pending {} [asked_restore]) (restoring_world, Pending {1} [])"
    by (rule ctl_step.pending [OF _ _ restoring_step]) (simp_all add: new_uid_def run_defs)
  ultimately show ?thesis by (rule rtranclp.rtrancl_into_rtrancl)
qed



end
