(* ===== verification/Manager_Props.thy ===== *)
theory Manager_Props imports Controller_Props begin

text \<open>
  What one step of the managers may do (\<open>internal/backup/manager.go\<close>, \<open>internal/transfer/transfer.go\<close>):
  when a Job is made, that one that was seen is never made again, and when a namespace goes.
\<close>

section \<open>When a Job is made\<close>

lemma submit_job_snd:
  "snd (submit_job e key op i fg bo w) = w \<or> create_job (oe_uid e) key op i fg bo w = Some (snd (submit_job e key op i fg bo w))"
  by (cases "create_job (oe_uid e) key op i fg bo w") (simp_all add: submit_job_def split: answer.splits)

lemma create_job_jobs:
  assumes "create_job uid key op i fg bo w = Some w'"
  obtains j where "w_jobs w' = w_jobs w @ [j]" "jb_key j = key" "jb_op j = op" "jb_server j = i" "get_job key w = None"
  using assms by (auto simp: create_job_def split: if_splits)

lemma observe_jobs [simp]: "w_jobs (observe uid i r) = w_jobs (snd r)"
  by (auto simp: observe_def split: prod.splits bool.splits sum.splits)

lemma complete_jobs [simp]: "w_jobs (snd (complete e b ph n msg keep w)) = w_jobs w"
  by (simp add: complete_def Let_def split: sum.splits)

lemma finish_jobs [simp]: "w_jobs (snd (finish e b ph n msg w)) = w_jobs w"
  by (simp add: finish_def)

lemma claim_and_submit_jobs:
  assumes "w_jobs (claim_and_submit e b cluster dbs ig nt w) \<noteq> w_jobs w"
  shows "\<exists>j. w_jobs (claim_and_submit e b cluster dbs ig nt w) = w_jobs w @ [j]
      \<and> jb_key j = (cluster, JobName False (bk_direction b) (bk_id b)) \<and> jb_op j = bk_id b \<and> jb_server j = bk_server_id b
      \<and> get_job (jb_key j) w = None \<and> (\<exists>r \<in> set (backups (w_db w)). bk_id r = bk_id b \<and> bk_phase r = BackupPending)"
proof -
  let ?key = "(cluster, JobName False (bk_direction b) (bk_id b))"
  obtain tg names d where c: "ClaimBackup (bk_id b) (snd ?key) tg names ig nt (oe_spec e) cluster (w_db w) = Inr (True, d)"
    and w': "w_jobs (claim_and_submit e b cluster dbs ig nt w)
        = w_jobs (snd (submit_job e ?key (bk_id b) (bk_server_id b) False (backoff_of b) (w\<lparr>w_db := d\<rparr>)))"
    using assms unfolding claim_and_submit_def Let_def by (auto split: if_splits sum.splits prod.splits bool.splits)
  obtain r where r: "r \<in> set (backups (w_db w))" "bk_id r = bk_id b" "bk_phase r = BackupPending"
    by (rule ClaimBackup_taken [OF c]) blast
  have "create_job (oe_uid e) ?key (bk_id b) (bk_server_id b) False (backoff_of b) (w\<lparr>w_db := d\<rparr>)
      = Some (snd (submit_job e ?key (bk_id b) (bk_server_id b) False (backoff_of b) (w\<lparr>w_db := d\<rparr>)))"
    using submit_job_snd [of e ?key "bk_id b" "bk_server_id b" False "backoff_of b" "w\<lparr>w_db := d\<rparr>"] assms w' by auto
  from create_job_jobs [OF this] obtain j where "w_jobs (claim_and_submit e b cluster dbs ig nt w) = w_jobs w @ [j]"
    "jb_key j = ?key" "jb_op j = bk_id b" "jb_server j = bk_server_id b" "get_job ?key w = None"
    unfolding w' by (auto simp: get_job_def)
  with r show ?thesis by auto
qed

lemma start_pending_jobs:
  assumes "w_jobs (start_pending e b srv d0 w) \<noteq> w_jobs w"
  obtains dbs ig nt where "readiness_of e b srv (operationCluster b srv) w = Go"
    "start_pending e b srv d0 w = claim_and_submit e b (operationCluster b srv) dbs ig nt w"
proof -
  have a: "\<not> other_target e b d0" "oe_reach e" using assms by (auto simp: start_pending_def Let_def split: if_splits)
  then have g: "readiness_of e b srv (operationCluster b srv) w = Go"
    using assms by (cases "readiness_of e b srv (operationCluster b srv) w") (simp_all add: start_pending_def Let_def)
  obtain dbs where d: "oe_databases e = Inr dbs"
    using assms a g by (auto simp: start_pending_def Let_def split: sum.splits option.splits)
  obtain ig nt where x: "oe_exclusions e = Inr (ig, nt)"
    using assms a g d by (auto simp: start_pending_def Let_def split: sum.splits option.splits)
  show thesis by (rule that [OF g]) (use a g d x in \<open>simp add: start_pending_def Let_def\<close>)
qed



lemma cleanup_uids [simp]:
  "map jb_uid (w_jobs (snd (cleanup e b key w))) = map jb_uid (w_jobs w)"
  "map jb_uid (w_jobs (cleanupFinished e b key w)) = map jb_uid (w_jobs w)"
  "map jb_uid (w_jobs (holdOperation b msg w)) = map jb_uid (w_jobs w)"
  by (auto simp: cleanupFinished_def cleanup_def delete_job_def holdOperation_def case_prod_unfold Let_def)

lemma finish_running_uids [simp]:
  "map jb_uid (w_jobs (finish_running e b key status d0 w)) = map jb_uid (w_jobs w)"
  by (simp add: finish_running_def Let_def case_prod_unfold)

text \<open>C17: an operation whose Job was seen once is never submitted again: the running pass makes no
  Job for it, and if the Job is missing or another one has its name, the operation stays taken
  up, with a message, and everything else stays as it is.\<close>

theorem seen_job_not_replayed:
  assumes "bk_job_uid b \<noteq> []"
  shows "map jb_uid (w_jobs (running_item e b d0 w)) = map jb_uid (w_jobs w)
    \<and> (\<forall>srv. GetServer (bk_server_id b) d0 = Inr srv
        \<and> (\<forall>j. get_job (operationCluster b srv, bk_job_name b) w = Some j \<longrightarrow> jb_uid j \<noteq> bk_job_uid b)
        \<longrightarrow> (\<exists>msg. running_item e b d0 w \<in> {w, holdOperation b msg w}))"
proof (cases "GetServer (bk_server_id b) d0")
  case (Inr srv)
  show ?thesis
    by (cases "get_job (operationCluster b srv, bk_job_name b) w")
      (use assms Inr in \<open>auto simp: running_item_def resumeSubmission_def Let_def\<close>)
qed (simp add: running_item_def)

definition lost_world :: world where
  \<comment> \<open>the Job of \<open>restoring_world\<close> was deleted\<close>
  "lost_world = restoring_world\<lparr>w_jobs := [restore_job\<lparr>jb_exists := False, jb_live := False\<rparr>]\<rparr>"

definition seen_restore :: Backup where
  "seen_restore = asked_restore\<lparr>bk_phase := BackupRunning, bk_job_name := ''quetzal-restore-2'', bk_job_spec := ''{}'',
       bk_job_uid := ''u'', bk_cluster_id := Some 1\<rparr>"

theorem seen_job_not_replayed_witness:
  "\<exists>msg. running_item ready_env seen_restore (w_db lost_world) lost_world \<in> {lost_world, holdOperation seen_restore msg lost_world}"
proof -
  have "bk_job_uid seen_restore \<noteq> []" "GetServer (bk_server_id seen_restore) (w_db lost_world) = Inr restored_server"
    "get_job k lost_world = None" for k
    by (simp_all add: seen_restore_def lost_world_def restoring_world_def GetServer_def get_job_def run_defs)
  with seen_job_not_replayed [of seen_restore ready_env "w_db lost_world" lost_world] show ?thesis by simp
qed


section \<open>When a namespace goes\<close>

definition running_ops :: "world \<Rightarrow> (row_id \<times> row_id) list" where
  \<comment> \<open>the operations whose Jobs run, with their servers\<close>
  "running_ops w = map (\<lambda>j. (jb_op j, jb_server j)) (filter jb_live (w_jobs w))"

lemma running_map:
  assumes "\<And>j. jb_op (f j) = jb_op j \<and> jb_server (f j) = jb_server j \<and> jb_live (f j) = jb_live j"
  shows "map (\<lambda>j. (jb_op j, jb_server j)) (filter jb_live (map f js)) = map (\<lambda>j. (jb_op j, jb_server j)) (filter jb_live js)"
  by (induction js) (simp_all add: assms)

lemma running_ops_simps [simp]:
  "running_ops (w\<lparr>w_db := d\<rparr>) = running_ops w" "running_ops (delete_job k w) = running_ops w"
  "running_ops (snd (deleteNamespace e cl i w)) = running_ops w" "running_ops (transfer_emit e srv msg w) = running_ops w"
  unfolding running_ops_def delete_job_def deleteNamespace_def transfer_emit_def
  by (simp_all add: running_map del: map_map filter_map list.map_comp)

lemma torn_simps [simp]:
  "w_torn (delete_job k w) = w_torn w" "w_torn (transfer_emit e srv msg w) = w_torn w"
  by (simp_all add: delete_job_def transfer_emit_def)

lemma stop_frame:
  "running_ops (snd (stopOperation e srv k cl w)) = running_ops w \<and> w_torn (snd (stopOperation e srv k cl w)) = w_torn w
    \<and> sids (w_db (snd (stopOperation e srv k cl w))) = sids (w_db w)"
proof (cases "GetBackup k (w_db w)")
  case (Inr b)
  have "sids d = sids (w_db (delete_job key w))"
    if "FinishCancelledTransferOperation c i k (w_db (delete_job key w)) = Inr d" for c i k key d
    using that by (auto simp: FinishCancelledTransferOperation_def split: sum.splits option.splits if_splits)
  moreover have "w_db (delete_job key w) = w_db w" for key by (simp add: delete_job_def)
  ultimately show ?thesis
    using Inr by (simp add: stopOperation_def Let_def split: sum.splits)
qed (simp add: stopOperation_def)

lemma live_row:
  assumes "world_ok w" "(k, i) \<in> set (running_ops w)" "i \<in> sids (w_db w)"
  obtains b j where "b \<in> set (backups (w_db w))" "j \<in> set (w_jobs w)" "jb_live j" "op_row b j" "bk_id b = k" "held b"
  using assms jobs_okD(2) [of w] by (fastforce simp: running_ops_def world_ok_def op_row_def)

lemma stop_drains:
  assumes ok: "world_ok w" and s: "fst (stopOperation e srv k cl w)" and i: "i \<in> sids (w_db w)"
  shows "(k, i) \<notin> set (running_ops w)"
proof
  assume "(k, i) \<in> set (running_ops w)"
  from live_row [OF ok this i] obtain r j where
    r: "r \<in> set (backups (w_db w))" "j \<in> set (w_jobs w)" "jb_live j" "op_row r j" "bk_id r = k" "held r" .
  show False
  proof (cases "GetBackup k (w_db w)")
    case (Inl err)
    with r(1,5) show False by (auto simp: GetBackup_def find_None_iff split: option.splits)
  next
    case (Inr b)
    note f = GetBackup_found [OF Inr]
    have "b = r" by (rule world_ids [OF world_inv [OF ok] conjunct1 [OF f] r(1)]) (use f r(5) in simp)
    with r(4,6) have row: "op_row b j" "held b" by simp_all
    have "rows_ok (w_db w)" using ok by (simp add: world_ok_def)
    then have "bk_job_name b = JobName (bk_phase b = BackupDeleting) (bk_direction b) (bk_id b)"
      using rows_okD(2) [OF _ r(1)] row(2) \<open>b = r\<close> by blast
    then have name: "bk_job_name b \<noteq> []" by (simp add: JobName_def)
    obtain c where c: "bk_cluster_id b = Some c" "jb_key j = (c, bk_job_name b)"
      using row(1) by (cases "jb_key j") (simp add: op_row_def)
    have "job_pods (jb_key j) (delete_job (jb_key j) w)"
      using r(2,3) by (auto simp: job_pods_def delete_job_def intro!: bexI [of _ "j\<lparr>jb_exists := False\<rparr>"])
    moreover have "\<not> fst (stopOperation e srv k cl w)" if "job_pods (c, bk_job_name b) (delete_job (c, bk_job_name b) w)"
      using that name by (simp add: stopOperation_def Inr c(1) Let_def)
    ultimately show False using s c(2) by simp
  qed
qed

lemma stop_linked_frame:
  "running_ops (snd (stop_linked e srv k cl w)) = running_ops w \<and> w_torn (snd (stop_linked e srv k cl w)) = w_torn w
    \<and> sids (w_db (snd (stop_linked e srv k cl w))) = sids (w_db w)"
  using stop_frame by (simp add: stop_linked_def)

lemma rollback_torn:
  assumes ok: "world_ok w" and new: "(cl, i) \<in> set (w_torn (rollback e srv0 msg w))" "(cl, i) \<notin> set (w_torn w)"
  shows "\<exists>srv d t. CancelServerTransfer (te_now e) (sv_id srv0) msg (w_db w) = Inr (srv, d) \<and> sv_transfer srv = Some t
    \<and> tr_phase t = TransferRestoring \<and> cl = tr_target_cluster t \<and> i = sv_id srv0
    \<and> (\<forall>k \<in> {tr_backup_id t, tr_restore_id t}. k \<noteq> 0 \<longrightarrow> (k, i) \<notin> set (running_ops w))"
proof (cases "CancelServerTransfer (te_now e) (sv_id srv0) msg (w_db w)")
  case (Inr p)
  then obtain srv d where c: "CancelServerTransfer (te_now e) (sv_id srv0) msg (w_db w) = Inr (srv, d)" by (cases p) auto
  have "lockServer (sv_id srv0) (w_db w) = Inr s \<Longrightarrow> sv_id srv0 \<in> sids (w_db w)" for s by (rule lockServer_sids)
  then have here: "sv_id srv0 \<in> sids (w_db w)" "sv_id srv = sv_id srv0"
    "sv_transfer srv \<noteq> None" "tr_phase (the (sv_transfer srv)) \<noteq> TransferCommitting"
    using c by (auto simp: CancelServerTransfer_def Let_def dest: lockServer_InrD simp del: lockServer_Inr
        split: sum.splits option.splits if_splits)
  have found: "sv_id srv = sv_id srv0" "sv_id srv0 \<in> sids (w_db w)" "sids d = sids (w_db w)"
    using here by (auto intro: CancelServerTransfer_rows [OF c])
  from here obtain t where t: "sv_transfer srv = Some t" "tr_phase t \<noteq> TransferCommitting" by auto
  define w1 where "w1 = snd (stop_linked e srv (tr_backup_id t) (tr_source_cluster t) (w\<lparr>w_db := d\<rparr>))"
  define w2 where "w2 = snd (stop_linked e srv (tr_restore_id t) (tr_target_cluster t) w1)"
  have ok0: "world_ok (w\<lparr>w_db := d\<rparr>)" using eased_cancel [OF c] ok tame_ok [OF ok] unfolding eased_def by blast
  have ok1: "world_ok w1" using eased_stop_linked ok0 tame_ok [OF ok0] unfolding eased_def w1_def by blast
  have f1: "running_ops w1 = running_ops w" "w_torn w1 = w_torn w" "sids (w_db w1) = sids (w_db w)"
    using stop_linked_frame [of e srv "tr_backup_id t" "tr_source_cluster t" "w\<lparr>w_db := d\<rparr>"] found(3) by (simp_all add: w1_def)
  have f2: "running_ops w2 = running_ops w" "w_torn w2 = w_torn w"
    using stop_linked_frame [of e srv "tr_restore_id t" "tr_target_cluster t" w1] f1 by (simp_all add: w2_def)
  let ?ok1 = "fst (stop_linked e srv (tr_backup_id t) (tr_source_cluster t) (w\<lparr>w_db := d\<rparr>))"
  let ?ok2 = "fst (stop_linked e srv (tr_restore_id t) (tr_target_cluster t) w1)"
  have torn: "w_torn (rollback e srv0 msg w) = w_torn w \<or> ?ok1 \<and> ?ok2 \<and> tr_phase t \<noteq> TransferBackingUp
      \<and> w_torn (rollback e srv0 msg w) = (tr_target_cluster t, sv_id srv) # w_torn w"
    unfolding rollback_def c sum.case case_prod_unfold Let_def fst_conv snd_conv t(1) option.case w1_def [symmetric] w2_def [symmetric]
    using f1 f2 by (auto simp: deleteNamespace_def split: sum.splits)
  with new have d: "?ok1" "?ok2" "tr_phase t \<noteq> TransferBackingUp" "cl = tr_target_cluster t" "i = sv_id srv"
    by auto
  have "(tr_backup_id t, i) \<notin> set (running_ops w)" if "tr_backup_id t \<noteq> 0"
    using stop_drains [OF ok0, of e srv "tr_backup_id t" "tr_source_cluster t" i] d(1,5) that found by (simp add: stop_linked_def)
  moreover have "(tr_restore_id t, i) \<notin> set (running_ops w)" if "tr_restore_id t \<noteq> 0"
    using stop_drains [OF ok1, of e srv "tr_restore_id t" "tr_target_cluster t" i] d(2,5) that found f1 by (simp add: stop_linked_def)
  moreover have "tr_phase t = TransferRestoring" using t(2) d(3) by (cases "tr_phase t") simp_all
  ultimately show ?thesis using c t d found by blast
qed (use new in \<open>simp add: rollback_def\<close>)

lemma committing_torn:
  "w_torn (advanceCommitting e srv t w) = w_torn w
    \<or> w_torn (advanceCommitting e srv t w) = (tr_source_cluster t, sv_id srv) # w_torn w"
  by (auto simp: advanceCommitting_def deleteNamespace_def split: sum.splits)


definition committed :: "time \<Rightarrow> row_id \<Rightarrow> TransferState \<Rightarrow> db \<Rightarrow> bool" where
  \<comment> \<open>the transfer was committed, or is committed now, on a restore that succeeded\<close>
  "committed clk i t d =
     (tr_phase t = TransferCommitting
      \<or> is_ok (CommitServerTransfer clk i d) \<and> (\<exists>r. GetBackup (tr_restore_id t) d = Inr r \<and> bk_phase r = BackupSucceeded))"

definition called_off :: "time \<Rightarrow> row_id \<Rightarrow> row_id \<Rightarrow> world \<Rightarrow> bool" where
  \<comment> \<open>the transfer to that cluster is called off, after the placement moved, and its Jobs are over\<close>
  "called_off clk i cl w =
     (\<exists>msg s d t. CancelServerTransfer clk i msg (w_db w) = Inr (s, d) \<and> sv_transfer s = Some t
        \<and> tr_phase t = TransferRestoring \<and> cl = tr_target_cluster t
        \<and> (\<forall>k \<in> {tr_backup_id t, tr_restore_id t}. k \<noteq> 0 \<longrightarrow> (k, i) \<notin> set (running_ops w)))"

lemma rollback_called_off:
  assumes "world_ok w" "(cl, i) \<in> set (w_torn (rollback e srv msg w))" "(cl, i) \<notin> set (w_torn w)"
  shows "i = sv_id srv \<and> called_off (te_now e) i cl w"
  using rollback_torn [OF assms] unfolding called_off_def by blast

lemma linked_torn:
  assumes "world_ok w" "(cl, i) \<in> set (w_torn (linked_result e srv k what' w f))" "(cl, i) \<notin> set (w_torn w)"
  obtains "i = sv_id srv" "called_off (te_now e) i cl w"
  | r where "GetBackup k (w_db w) = Inr r" "bk_phase r = BackupSucceeded" "linked_result e srv k what' w f = f w"
proof (cases "GetBackup k (w_db w)")
  case (Inl err)
  with assms(2,3) have "(cl, i) \<in> set (w_torn (rollback e srv (what' @ '' record lost'') w))"
    by (simp add: linked_result_def split: if_splits)
  with rollback_called_off [OF assms(1) this assms(3)] that(1) show thesis by blast
next
  case (Inr r)
  show thesis
  proof (cases "bk_phase r")
    case BackupFailed
    with Inr assms(2,3) have "(cl, i) \<in> set (w_torn (rollback e srv (what' @ '' failed: '' @ bk_message r) w))"
      by (simp add: linked_result_def split: if_splits)
    with rollback_called_off [OF assms(1) this assms(3)] that(1) show thesis by blast
  next
    case BackupSucceeded
    with Inr assms(2,3) that(2) show thesis by (simp add: linked_result_def split: if_splits)
  qed (use Inr assms(2,3) in \<open>simp_all add: linked_result_def split: if_splits\<close>)
qed



definition reachable_env :: transfer_env where
  "reachable_env = \<lparr>te_reach = (\<lambda>_. True), te_pods = Some False, te_readable = (\<lambda>_. True), te_ready = Some True,
     te_delete = (\<lambda>_. True), te_gone = (\<lambda>_. True), te_listed = (\<lambda>_. True), te_creds = (\<lambda>_. True),
     te_ns_delete = (\<lambda>_. True), te_ns_gone = (\<lambda>_. False), te_now = 0, te_new = 9, te_event = 1\<rparr>"



section \<open>Where the guarantee ends\<close>

text \<open>A running server with a snapshot being deleted and a backup that was asked for.\<close>

definition deleted_backup :: Backup where
  "deleted_backup = (new_operation 1 DirBackup)\<lparr>bk_id := 2, bk_phase := BackupDeleting,
     bk_job_name := ''quetzal-forget-2'', bk_cluster_id := Some 1\<rparr>"

definition asked_backup :: Backup where
  "asked_backup = (new_operation 1 DirBackup)\<lparr>bk_id := 3\<rparr>"

definition forget_job_2 :: job where
  "forget_job_2 = \<lparr>jb_uid = ''f'', jb_key = (1, ''quetzal-forget-2''), jb_op = 2, jb_server = 1, jb_forget = True,
     jb_exists = True, jb_live = True, jb_status = no_status 1\<rparr>"

definition forgetting_world :: world where
  "forgetting_world = \<lparr>w_db = empty_db\<lparr>servers := [sample_server], backups := [deleted_backup, asked_backup]\<rparr>,
     w_jobs = [forget_job_2], w_seq = 4, w_torn = []\<rparr>"

definition remarked_world :: world where
  "remarked_world = forgetting_world\<lparr>w_db := MarkBackupDeleting 2 (w_db forgetting_world)\<rparr>"

lemma JobNames_2: "JobName True DirBackup 2 = ''quetzal-forget-2''" "JobName False DirBackup 3 = ''quetzal-backup-3''"
  by code_simp+

lemma forgetting_world_ok: "world_ok forgetting_world"
proof -
  let ?d = "w_db forgetting_world"
  note [simp] = forgetting_world_def deleted_backup_def asked_backup_def forget_job_2_def run_defs no_status_def
  have "ids_ok ?d" by (simp add: ids_ok_def)
  moreover have "machine_inv (machine_of ?d)"
    by (auto simp: machine_inv_def machine_of_def server_ok_def offline_on_def active_on_def power_of_def oper_of_def
        phase_active_def split: if_splits)
  moreover have "rows_ok ?d" using JobNames_2 by (auto simp: rows_ok_def held_def)
  moreover have "keys_below 4 ?d" by (auto simp: keys_below_def sids_def)
  moreover have "jobs_ok forgetting_world"
    by (auto simp: jobs_ok_def op_row_def held_def jobOutcome_def sids_def JobNames_2 intro!: exI [of _ DirBackup])
  ultimately show ?thesis by (simp add: world_ok_def store_inv_def)
qed

text \<open>the guarantee needs \<open>MarkBackupDeleting\<close> to find its backup still succeeded: two requests
  that delete the same backup both read it so, and when the second one writes after the
  controller submitted the deletion's Job, that Job is struck off the row, and the next tick
  starts a waiting backup of the server beside it.\<close>

theorem second_delete_frees_the_server:
  "\<exists>busy w'. world_ok forgetting_world
     \<and> remarked_world = forgetting_world\<lparr>w_db := MarkBackupDeleting 2 (w_db forgetting_world)\<rparr>
     \<and> asked_backup \<in> set (ListBackupsByPhase BackupPending (w_db remarked_world))
     \<and> pending_item ready_env asked_backup (w_db remarked_world) (busyServers (w_db remarked_world)) remarked_world = (busy, w')
     \<and> (\<exists>j \<in> set (w_jobs w'). \<exists>j' \<in> set (w_jobs w'). jb_live j \<and> jb_live j' \<and> jb_server j = 1 \<and> jb_server j' = 1
          \<and> jb_forget j \<and> \<not> jb_forget j')"
proof -
  have db: "w_db remarked_world = empty_db\<lparr>servers := [sample_server],
      backups := [to_deleting deleted_backup, asked_backup]\<rparr>" "w_jobs remarked_world = [forget_job_2]"
    by (simp_all add: remarked_world_def forgetting_world_def MarkBackupDeleting_def update_backup_def update_where_def
        deleted_backup_def asked_backup_def run_defs)
  have busy: "busyServers (w_db remarked_world) = {}"
    by (simp add: busyServers_def ListBackupsByPhase_def db to_deleting_def asked_backup_def run_defs)
  define p where "p = pending_item ready_env asked_backup (w_db remarked_world) {} remarked_world"
  have jobs: "w_jobs (snd p) = [forget_job_2, \<lparr>jb_uid = ''u'', jb_key = (1, ''quetzal-backup-3''), jb_op = 3, jb_server = 1,
      jb_forget = False, jb_exists = True, jb_live = True, jb_status = no_status 1\<rparr>]"
    unfolding p_def
    by (simp add: pending_item_def start_pending_def other_target_def readiness_of_def not_its_transfer_def claim_and_submit_def
        ClaimBackup_def lockServer_def rows_affected_def submit_job_def create_job_def get_job_def operationCluster_def
        GetServer_def backoff_of_def JobNames_2 ready_env_def forget_job_2_def db to_deleting_def asked_backup_def
        deleted_backup_def run_defs update_where_def Let_def)
  show ?thesis
  proof (intro exI conjI)
    show "world_ok forgetting_world" by (rule forgetting_world_ok)
    show "remarked_world = forgetting_world\<lparr>w_db := MarkBackupDeleting 2 (w_db forgetting_world)\<rparr>" by (rule remarked_world_def)
    show "asked_backup \<in> set (ListBackupsByPhase BackupPending (w_db remarked_world))"
      by (simp add: ListBackupsByPhase_def db asked_backup_def new_operation_def)
    show "pending_item ready_env asked_backup (w_db remarked_world) (busyServers (w_db remarked_world)) remarked_world = (fst p, snd p)"
      by (simp add: busy p_def)
    show "\<exists>j \<in> set (w_jobs (snd p)). \<exists>j' \<in> set (w_jobs (snd p)). jb_live j \<and> jb_live j' \<and> jb_server j = 1 \<and> jb_server j' = 1
          \<and> jb_forget j \<and> \<not> jb_forget j'"
      by (simp add: jobs forget_job_2_def)
  qed
qed

end
