(* ===== verification/Go_Paths.thy ===== *)
theory Go_Paths imports Go_Strings begin

text \<open>
  What the program uses of Go's \<open>path\<close> and, on Unix, \<open>path/filepath\<close>: paths are
  strings, and every function here works on their slash-separated elements. \<open>elems p\<close> is the
  list of elements of \<open>Clean p\<close>: for an absolute path, names only; for a relative one, names
  after leading \<open>..\<close> elements, and nothing for \<open>.\<close>.
\<close>

subsection \<open>Cleaning\<close>

definition IsAbs :: "string \<Rightarrow> bool" where
  "IsAbs p = (case p of [] \<Rightarrow> False | c # _ \<Rightarrow> c = CHR ''/'')"

definition push_elem :: "bool \<Rightarrow> string list \<Rightarrow> string \<Rightarrow> string list" where
  \<comment> \<open>one element onto the path built so far, which is reversed\<close>
  "push_elem rooted acc c =
     (if c = [] \<or> c = ''.'' then acc
      else if c = ''..'' then
        (case acc of [] \<Rightarrow> if rooted then [] else [c]
         | a # acc' \<Rightarrow> if a = ''..'' then c # acc else acc')
      else c # acc)"

definition clean_elems :: "bool \<Rightarrow> string list \<Rightarrow> string list" where
  "clean_elems rooted cs = rev (foldl (push_elem rooted) [] cs)"

definition elems :: "string \<Rightarrow> string list" where
  "elems p = clean_elems (IsAbs p) (split_on (CHR ''/'') p)"

definition show_path :: "bool \<Rightarrow> string list \<Rightarrow> string" where
  "show_path rooted cs =
     (if rooted then CHR ''/'' # join ''/'' cs else if cs = [] then ''.'' else join ''/'' cs)"

definition Clean :: "string \<Rightarrow> string" where
  "Clean p = show_path (IsAbs p) (elems p)"

definition plain_elem :: "string \<Rightarrow> bool" where
  \<comment> \<open>the name of a directory entry\<close>
  "plain_elem c = (c \<noteq> [] \<and> c \<noteq> ''.'' \<and> c \<noteq> ''..'' \<and> CHR ''/'' \<notin> set c)"

definition dots :: "nat \<Rightarrow> string list" where
  "dots k = replicate k ''..''"

lemma dots_simps [simp]: "dots 0 = []" "dots (Suc k) = ''..'' # dots k"
  by (simp_all add: dots_def)

lemma dots_snoc: "dots k @ ''..'' # cs = ''..'' # dots k @ cs"
  by (simp add: dots_def replicate_app_Cons_same)

lemma rev_dots [simp]: "rev (dots k) = dots k"
  by (simp add: dots_def)

lemma length_dots [simp]: "length (dots k) = k"
  by (simp add: dots_def)

lemma set_dots: "c \<in> set (dots k) \<Longrightarrow> c = ''..''"
  by (simp add: dots_def)

lemma plain_elemD:
  assumes "plain_elem c" shows "c \<noteq> []" "c \<noteq> ''.''" "c \<noteq> ''..''" "CHR ''/'' \<notin> set c"
  using assms by (simp_all add: plain_elem_def)

lemma push_plain [simp]: "plain_elem c \<Longrightarrow> push_elem rooted acc c = c # acc"
  by (simp add: push_elem_def plain_elem_def)

lemma push_skip [simp]: "push_elem rooted acc [] = acc" "push_elem rooted acc ''.'' = acc"
  by (simp_all add: push_elem_def)

lemma push_up [simp]:
  "push_elem True [] ''..'' = []" "push_elem False [] ''..'' = [''..'']"
  "plain_elem a \<Longrightarrow> push_elem rooted (a # acc) ''..'' = acc"
  "push_elem rooted (''..'' # acc) ''..'' = ''..'' # ''..'' # acc"
  by (auto simp: push_elem_def plain_elem_def)

lemma foldl_push_plain:
  "list_all plain_elem cs \<Longrightarrow> foldl (push_elem rooted) acc cs = rev cs @ acc"
  by (induction cs arbitrary: acc) auto

lemma clean_plain [simp]: "list_all plain_elem cs \<Longrightarrow> clean_elems rooted cs = cs"
  by (simp add: clean_elems_def foldl_push_plain)

lemma clean_append:
  "clean_elems rooted (xs @ ys) = rev (foldl (push_elem rooted) (rev (clean_elems rooted xs)) ys)"
  by (simp add: clean_elems_def)

lemma clean_append_plain:
  "list_all plain_elem ys \<Longrightarrow> clean_elems rooted (xs @ ys) = clean_elems rooted xs @ ys"
  by (simp add: clean_append foldl_push_plain)

lemma clean_Nil [simp]: "clean_elems rooted [] = []"
  by (simp add: clean_elems_def)

lemma clean_skip [simp]:
  "clean_elems rooted ([] # cs) = clean_elems rooted cs"
  "clean_elems rooted (''.'' # cs) = clean_elems rooted cs"
  by (simp_all add: clean_elems_def)

text \<open>The normal form: some \<open>..\<close> and then names; no \<open>..\<close> at all below a root.\<close>

lemma push_shape:
  assumes "\<forall>c \<in> set cs. CHR ''/'' \<notin> set c"
    and "list_all plain_elem ds" and "rooted \<longrightarrow> k = 0"
  shows "\<exists>k' ds'. foldl (push_elem rooted) (rev ds @ dots k) cs = rev ds' @ dots k' \<and>
           list_all plain_elem ds' \<and> (rooted \<longrightarrow> k' = 0) \<and> k \<le> k'"
  using assms
proof (induction cs arbitrary: ds k)
  case Nil
  then show ?case by auto
next
  case (Cons c cs)
  consider (skip) "c = [] \<or> c = ''.''" | (up) "c = ''..''" | (name) "plain_elem c"
    using Cons.prems(1) by (auto simp: plain_elem_def)
  then show ?case
  proof cases
    case skip
    then have "push_elem rooted (rev ds @ dots k) c = rev ds @ dots k" by auto
    with Cons show ?thesis by simp
  next
    case name
    have "list_all plain_elem (ds @ [c])" using Cons.prems name by simp
    from Cons.IH [OF _ this Cons.prems(3)] Cons.prems name show ?thesis by simp
  next
    case up
    show ?thesis
    proof (cases ds rule: rev_cases)
      case (snoc es d)
      then have "push_elem rooted (rev ds @ dots k) c = rev es @ dots k" "list_all plain_elem es"
        using Cons.prems(2) up by auto
      with Cons.IH [of es k] Cons.prems show ?thesis by simp
    next
      case Nil
      show ?thesis
      proof (cases rooted)
        case True
        with Nil up Cons.prems have "push_elem rooted (rev ds @ dots k) c = rev ds @ dots k" by simp
        with Cons show ?thesis by simp
      next
        case False
        have "push_elem rooted (dots k) ''..'' = dots (Suc k)"
          using False by (cases k) (simp_all)
        with Cons.IH [of "[]" "Suc k"] Cons.prems Nil up False show ?thesis
          by simp (meson Suc_leD)
      qed
    qed
  qed
qed

lemma clean_shape:
  assumes "\<forall>c \<in> set cs. CHR ''/'' \<notin> set c"
  obtains k ds where "clean_elems rooted cs = dots k @ ds" "list_all plain_elem ds" "rooted \<longrightarrow> k = 0"
proof -
  obtain k ds where "foldl (push_elem rooted) [] cs = rev ds @ dots k" "list_all plain_elem ds" "rooted \<longrightarrow> k = 0"
    using push_shape [OF assms, of "[]" rooted 0] by auto
  then have "clean_elems rooted cs = dots k @ ds" by (simp add: clean_elems_def)
  with that \<open>list_all plain_elem ds\<close> \<open>rooted \<longrightarrow> k = 0\<close> show thesis by blast
qed

lemma elems_shape:
  obtains k ds where "elems p = dots k @ ds" "list_all plain_elem ds" "IsAbs p \<longrightarrow> k = 0"
  unfolding elems_def using clean_shape [of "split_on (CHR ''/'') p"] split_on_no_sep by metis

lemma elems_rooted: "IsAbs p \<Longrightarrow> list_all plain_elem (elems p)"
  by (rule elems_shape [of p]) simp

lemma foldl_push_dots:
  "foldl (push_elem False) [] (dots k) = dots k"
proof (induction k)
  case (Suc k)
  have "dots (Suc k) = dots k @ [''..'']" using dots_snoc [of k "[]"] by simp
  moreover have "push_elem False (dots k) ''..'' = dots (Suc k)" by (cases k) simp_all
  ultimately show ?case using Suc by simp
qed simp

lemma clean_normal: "list_all plain_elem ds \<Longrightarrow> clean_elems False (dots k @ ds) = dots k @ ds"
  by (simp add: clean_append_plain) (simp add: clean_elems_def foldl_push_dots)

lemma clean_shape_id:
  assumes "list_all plain_elem ds" "rooted \<longrightarrow> k = 0"
  shows "clean_elems rooted (dots k @ ds) = dots k @ ds"
  using assms clean_normal by (cases rooted) auto

subsection \<open>Paths as strings\<close>

lemma split_Cons_sep [simp]: "split_on c (c # s) = [] # split_on c s"
  by simp

lemma split_append_sep: "split_on c (s @ c # t) = split_on c s @ split_on c t"
  by (induction s) (auto split: list.splits)

lemma no_sep_shape: "list_all plain_elem ds \<Longrightarrow> \<forall>c \<in> set (dots k @ ds). CHR ''/'' \<notin> set c"
proof
  fix c assume ds: "list_all plain_elem ds" and c: "c \<in> set (dots k @ ds)"
  then consider "c = ''..''" | "plain_elem c"
    by (metis Un_iff list_all_iff set_append set_dots)
  then show "CHR ''/'' \<notin> set c"
    by cases (simp_all add: plain_elem_def)
qed

lemma IsAbs_join:
  assumes "list_all plain_elem ds" shows "\<not> IsAbs (join ''/'' (dots k @ ds))"
proof (cases "dots k @ ds")
  case (Cons c cs)
  have "c \<noteq> []"
    using assms Cons by (cases k; cases ds) (auto simp: plain_elem_def)
  moreover have "CHR ''/'' \<notin> set c"
    using no_sep_shape [OF assms, of k] Cons by auto
  ultimately have "hd (join ''/'' (c # cs)) \<noteq> CHR ''/'' \<and> join ''/'' (c # cs) \<noteq> []"
    by (cases cs; cases c) auto
  then show ?thesis unfolding Cons by (auto simp: IsAbs_def split: list.splits)
qed (simp add: IsAbs_def)

lemma IsAbs_show [simp]: "list_all plain_elem ds \<Longrightarrow> IsAbs (show_path rooted (dots k @ ds)) = rooted"
  using IsAbs_join [of ds k] by (auto simp: show_path_def IsAbs_def)

lemma split_show:
  assumes "list_all plain_elem ds"
  shows "split_on (CHR ''/'') (show_path rooted (dots k @ ds)) =
     (if rooted then [] # (if dots k @ ds = [] then [[]] else dots k @ ds)
      else if dots k @ ds = [] then [''.''] else dots k @ ds)"
proof (cases "dots k @ ds = []")
  case False
  then have "split_on (CHR ''/'') (join ''/'' (dots k @ ds)) = dots k @ ds"
    using no_sep_shape [OF assms] by (intro split_on_join) auto
  then show ?thesis
    using False by (cases rooted) (simp_all only: show_path_def if_True if_False split_Cons_sep)
qed (auto simp: show_path_def)

lemma elems_show:
  assumes "list_all plain_elem ds" "rooted \<longrightarrow> k = 0"
  shows "elems (show_path rooted (dots k @ ds)) = dots k @ ds"
proof -
  have "elems (show_path rooted (dots k @ ds)) =
      clean_elems rooted (split_on (CHR ''/'') (show_path rooted (dots k @ ds)))"
    by (simp only: elems_def IsAbs_show [OF assms(1)])
  also have "\<dots> = dots k @ ds"
    unfolding split_show [OF assms(1)] using clean_shape_id [OF assms]
    by (cases rooted; cases "dots k @ ds = []") (simp_all del: append_is_Nil_conv)
  finally show ?thesis .
qed

lemma elems_Clean [simp]: "elems (Clean p) = elems p"
  by (metis Clean_def elems_shape elems_show)

lemma IsAbs_Clean [simp]: "IsAbs (Clean p) = IsAbs p"
  by (metis Clean_def elems_shape IsAbs_show)

lemma Clean_idem [simp]: "Clean (Clean p) = Clean p"
  by (simp only: Clean_def [of "Clean p"] IsAbs_Clean elems_Clean) (simp only: Clean_def)

lemma Clean_eq_iff: "Clean p = Clean q \<longleftrightarrow> IsAbs p = IsAbs q \<and> elems p = elems q"
proof
  assume "Clean p = Clean q"
  then show "IsAbs p = IsAbs q \<and> elems p = elems q"
    by (metis IsAbs_Clean elems_Clean)
qed (simp add: Clean_def)

lemma elems_slash: "elems (CHR ''/'' # p) = clean_elems True (split_on (CHR ''/'') p)"
  by (simp add: elems_def IsAbs_def)

lemma elems_no_slash: "c \<in> set (elems p) \<Longrightarrow> CHR ''/'' \<notin> set c"
  by (metis elems_shape no_sep_shape)


subsection \<open>Joining, and the parts of a path\<close>

definition Join :: "string list \<Rightarrow> string" where
  "Join es = (let es' = filter (\<lambda>e. e \<noteq> []) es in if es' = [] then [] else Clean (join ''/'' es'))"

definition strip_slashes :: "string \<Rightarrow> string" where
  "strip_slashes p = drop_while_end (\<lambda>c. c = CHR ''/'') p"

definition Base :: "string \<Rightarrow> string" where
  "Base p = (if p = [] then ''.''
             else let q = strip_slashes p in if q = [] then ''/'' else last (split_on (CHR ''/'') q))"

definition dir_part :: "string \<Rightarrow> string" where
  \<comment> \<open>up to and with the last slash\<close>
  "dir_part p = drop_while_end (\<lambda>c. c \<noteq> CHR ''/'') p"

definition path_Dir :: "string \<Rightarrow> string" where
  "path_Dir p = Clean (dir_part p)"

definition path_Ext :: "string \<Rightarrow> string" where
  "path_Ext p =
     (let e = last (split_on (CHR ''/'') p) in
      if CHR ''.'' \<notin> set e then [] else CHR ''.'' # last (split_on (CHR ''.'') e))"

definition IsLocal :: "string \<Rightarrow> bool" where
  "IsLocal p =
     (if IsAbs p \<or> p = [] then False
      else let cs = split_on (CHR ''/'') p;
               q = (if ''.'' \<in> set cs \<or> ''..'' \<in> set cs then Clean p else p)
           in \<not> (q = ''..'' \<or> prefix ''../'' q))"

fun strip_common :: "string list \<Rightarrow> string list \<Rightarrow> string list \<times> string list" where
  "strip_common (b # bs) (t # ts) = (if b = t then strip_common bs ts else (b # bs, t # ts))"
| "strip_common bs ts = (bs, ts)"

definition Rel :: "string \<Rightarrow> string \<Rightarrow> string option" where
  \<comment> \<open>from a base without \<open>..\<close> in what it does not share with the target, as all the
    program's are\<close>
  "Rel base targ =
     (if Clean base = Clean targ then Some ''.''
      else if IsAbs base \<noteq> IsAbs targ then None
      else let (bs, ts) = strip_common (elems base) (if Clean targ = ''.'' then [''.''] else elems targ)
           in if ''..'' \<in> set bs then None else Some (join ''/'' (dots (length bs) @ ts)))"

lemma Join_two:
  assumes "a \<noteq> []" "b \<noteq> []" shows "Join [a, b] = Clean (a @ CHR ''/'' # b)"
  using assms by (simp add: Join_def)

lemma IsAbs_nonempty: "IsAbs p \<Longrightarrow> p \<noteq> []"
  by (auto simp: IsAbs_def)

lemma IsAbs_append [simp]: "a \<noteq> [] \<Longrightarrow> IsAbs (a @ b) = IsAbs a"
  by (cases a) (simp_all add: IsAbs_def)

lemma elems_Join:
  assumes "a \<noteq> []" "b \<noteq> []"
  shows "elems (Join [a, b]) = clean_elems (IsAbs a) (split_on (CHR ''/'') a @ split_on (CHR ''/'') b)"
  using assms by (simp add: Join_two elems_def [of "a @ CHR ''/'' # b"] split_append_sep)

lemma clean_append_clean:
  assumes "\<forall>c \<in> set xs. CHR ''/'' \<notin> set c"
  shows "clean_elems rooted (xs @ ys) = clean_elems rooted (clean_elems rooted xs @ ys)"
proof -
  obtain k ds where s: "clean_elems rooted xs = dots k @ ds" "list_all plain_elem ds" "rooted \<longrightarrow> k = 0"
    using clean_shape [OF assms] by blast
  then have "clean_elems rooted (clean_elems rooted xs) = clean_elems rooted xs"
    by (simp add: clean_shape_id)
  then show ?thesis by (simp add: clean_append)
qed

lemma elems_Join_elems:
  assumes "a \<noteq> []" "b \<noteq> []"
  shows "elems (Join [a, b]) = clean_elems (IsAbs a) (elems a @ split_on (CHR ''/'') b)"
  using elems_Join [OF assms] clean_append_clean [of "split_on (CHR ''/'') a" "IsAbs a"]
  by (metis elems_def split_on_no_sep)

lemma IsAbs_Join [simp]: "a \<noteq> [] \<Longrightarrow> b \<noteq> [] \<Longrightarrow> IsAbs (Join [a, b]) = IsAbs a"
  by (simp add: Join_two)

lemma split_Clean_plain:
  assumes "IsAbs b"
  shows "clean_elems rooted (xs @ split_on (CHR ''/'') (Clean b)) = clean_elems rooted xs @ elems b"
proof -
  have p: "list_all plain_elem (elems b)" using assms by (rule elems_rooted)
  have "split_on (CHR ''/'') (Clean b) = [] # (if elems b = [] then [[]] else elems b)"
    using split_show [OF p, of True 0] assms by (simp add: Clean_def)
  then show ?thesis
    by (simp add: clean_append foldl_push_plain p)
qed

lemma clean_filter: "clean_elems rooted cs = clean_elems rooted (filter (\<lambda>c. c \<noteq> []) cs)"
  by (rule rev_induct [of _ cs]) (auto simp: clean_append)

lemma Clean_climbs:
  assumes "\<not> IsAbs p"
  shows "Clean p = ''..'' \<or> prefix ''../'' (Clean p) \<longleftrightarrow> \<not> list_all plain_elem (elems p)"
proof -
  obtain k ds where s: "elems p = dots k @ ds" "list_all plain_elem ds" by (rule elems_shape)
  show ?thesis
  proof (cases k)
    case 0
    have "split_on (CHR ''/'') (Clean p) = (if ds = [] then [''.''] else ds)"
      using split_show [OF s(2), of False 0] s(1) 0 assms by (simp add: Clean_def)
    moreover have "split_on (CHR ''/'') (Clean p) = [''..'']" if "Clean p = ''..''"
      using that by simp
    moreover have "\<exists>cs. split_on (CHR ''/'') (Clean p) = ''..'' # cs" if "prefix ''../'' (Clean p)"
      using that split_on_append [of "CHR ''/''" "''..''"] by (auto simp: prefix_def)
    ultimately have "\<not> (Clean p = ''..'' \<or> prefix ''../'' (Clean p))"
      using s(2) by (cases ds) (auto simp: plain_elem_def)
    with s 0 show ?thesis by simp
  next
    case (Suc j)
    then have "Clean p = ''..'' \<or> prefix ''../'' (Clean p)"
      using s(1) assms by (cases "dots j @ ds") (auto simp: Clean_def show_path_def)
    moreover have "\<not> list_all plain_elem (elems p)"
      using s Suc by (simp add: plain_elem_def)
    ultimately show ?thesis by simp
  qed
qed

lemma IsLocal_iff:
  assumes "p \<noteq> []" "\<not> IsAbs p"
  shows "IsLocal p \<longleftrightarrow> list_all plain_elem (elems p)"
proof -
  have shape: "\<not> (Clean p = ''..'' \<or> prefix ''../'' (Clean p)) \<longleftrightarrow> list_all plain_elem (elems p)"
    using Clean_climbs assms(2) by blast
  show ?thesis
  proof (cases "''.'' \<in> set (split_on (CHR ''/'') p) \<or> ''..'' \<in> set (split_on (CHR ''/'') p)")
    case True
    then show ?thesis using shape assms by (simp add: IsLocal_def Let_def)
  next
    case False
    let ?cs = "split_on (CHR ''/'') p"
    have "list_all plain_elem (filter (\<lambda>c. c \<noteq> []) ?cs)"
      using False split_on_no_sep by (fastforce simp: list_all_iff plain_elem_def)
    then have "list_all plain_elem (clean_elems False ?cs)"
      by (subst clean_filter) simp
    then have "list_all plain_elem (elems p)"
      using assms(2) by (simp add: elems_def)
    moreover have "\<not> (p = ''..'' \<or> prefix ''../'' p)"
      using False split_on_append [of "CHR ''/''" "''..''"] by (auto simp: prefix_def)
    ultimately show ?thesis using False assms by (simp add: IsLocal_def Let_def)
  qed
qed


lemma strip_common_split:
  "strip_common bs ts = (bs', ts') \<Longrightarrow> \<exists>ps. bs = ps @ bs' \<and> ts = ps @ ts'"
  by (induction bs ts rule: strip_common.induct) (auto split: if_splits)

lemma strip_common_prefix [simp]: "strip_common bs (bs @ ts) = ([], ts)"
proof (induction bs)
  case Nil show ?case by (cases ts) simp_all
qed simp

lemma foldl_push_up:
  "list_all plain_elem bs \<Longrightarrow> foldl (push_elem rooted) (rev bs @ acc) (dots (length bs)) = acc"
proof (induction bs arbitrary: acc rule: rev_induct)
  case (snoc b bs)
  then show ?case by simp
qed simp

lemma clean_up_down:
  assumes "list_all plain_elem (ps @ bs)"
  shows "clean_elems rooted ((ps @ bs) @ dots (length bs) @ ts) = clean_elems rooted (ps @ ts)"
proof -
  have "foldl (push_elem rooted) [] (ps @ bs) = rev bs @ rev ps"
    using foldl_push_plain [OF assms, of rooted "[]"] by simp
  moreover have "foldl (push_elem rooted) [] ps = rev ps"
    using foldl_push_plain [of ps rooted "[]"] assms by simp
  ultimately show ?thesis
    using foldl_push_up [of bs rooted "rev ps"] assms by (simp add: clean_elems_def)
qed

lemma Rel_below:
  \<comment> \<open>a target below the base\<close>
  assumes "IsAbs base" "IsAbs targ" "elems targ = elems base @ cs" "cs \<noteq> []"
  shows "Rel base targ = Some (join ''/'' cs)"
proof -
  have "Clean base \<noteq> Clean targ" using assms by (auto simp: Clean_eq_iff)
  moreover have "Clean targ \<noteq> ''.''"
    using assms(2) by (auto simp: Clean_def show_path_def)
  ultimately show ?thesis using assms by (simp add: Rel_def)
qed

lemma Rel_same: "Clean base = Clean targ \<Longrightarrow> Rel base targ = Some ''.''"
  by (simp add: Rel_def)

lemma join_plain_elems:
  assumes "list_all plain_elem cs" "cs \<noteq> []"
  shows "elems (join ''/'' (dots k @ cs)) = dots k @ cs" "\<not> IsAbs (join ''/'' (dots k @ cs))"
    "join ''/'' (dots k @ cs) \<noteq> []"
proof -
  have "show_path False (dots k @ cs) = join ''/'' (dots k @ cs)"
    using assms by (simp add: show_path_def)
  then show "elems (join ''/'' (dots k @ cs)) = dots k @ cs"
    using elems_show [of cs False k] assms by simp
  then show "join ''/'' (dots k @ cs) \<noteq> []"
    using assms by (auto simp: elems_def IsAbs_def)
  show "\<not> IsAbs (join ''/'' (dots k @ cs))"
    using assms by (simp add: IsAbs_join)
qed

lemma Rel_local:
  \<comment> \<open>a relative path to an absolute target is local exactly when the target is below the base\<close>
  assumes "IsAbs base" "IsAbs targ"
  shows "(\<exists>r. Rel base targ = Some r \<and> IsLocal r \<and> elems r = cs) \<longleftrightarrow> elems targ = elems base @ cs"
proof
  have tp: "list_all plain_elem (elems targ)" and bp: "list_all plain_elem (elems base)"
    using assms by (simp_all add: elems_rooted)
  {
    assume t: "elems targ = elems base @ cs"
    show "\<exists>r. Rel base targ = Some r \<and> IsLocal r \<and> elems r = cs"
    proof (cases "cs = []")
      case True
      with t assms have "Rel base targ = Some ''.''" by (simp add: Rel_same Clean_eq_iff)
      moreover have "elems ''.'' = []" "IsLocal ''.''" by code_simp+
      ultimately show ?thesis using True by blast
    next
      case False
      have cp: "list_all plain_elem cs" using t tp by simp
      from Rel_below [OF assms t False] join_plain_elems [OF cp False, of 0] IsLocal_iff cp
      show ?thesis by auto
    qed
  next
    assume "\<exists>r. Rel base targ = Some r \<and> IsLocal r \<and> elems r = cs"
    then obtain r where r: "Rel base targ = Some r" "IsLocal r" "elems r = cs" by blast
    show "elems targ = elems base @ cs"
    proof (cases "Clean base = Clean targ")
      case True
      with r have "r = ''.''" by (simp add: Rel_def)
      moreover have "elems ''.'' = []" by code_simp
      ultimately show ?thesis using r True by (simp add: Clean_eq_iff)
    next
      case False
      have "Clean targ \<noteq> ''.''"
        using assms(2) by (auto simp: Clean_def show_path_def)
      then obtain bs ts where st: "strip_common (elems base) (elems targ) = (bs, ts)"
          and r': "r = join ''/'' (dots (length bs) @ ts)"
        using r(1) False assms by (auto simp: Rel_def split: prod.splits if_splits)
      obtain ps where ps: "elems base = ps @ bs" "elems targ = ps @ ts"
        using strip_common_split [OF st] by blast
      have "r \<noteq> []" "\<not> IsAbs r" using r(2) by (auto simp: IsLocal_def split: if_splits)
      then have loc: "list_all plain_elem (elems r)" using r(2) IsLocal_iff by blast
      have tsp: "list_all plain_elem ts" using ps tp by simp
      have er: "elems r = dots (length bs) @ ts"
      proof (cases "dots (length bs) @ ts = []")
        case True
        with r' \<open>r \<noteq> []\<close> show ?thesis by simp
      next
        case False
        then have "show_path False (dots (length bs) @ ts) = r" by (simp add: show_path_def r')
        with elems_show [OF tsp, of False "length bs"] show ?thesis by simp
      qed
      with loc have "bs = []" by (cases bs) (auto simp: plain_elem_def)
      with er ps r show ?thesis by simp
    qed
  }
qed

end
