(* ===== verification/File_Jail.thy ===== *)
theory File_Jail imports Go_Paths begin

text \<open>
  The paths of the file manager, on both sides of the exec into the data manager's pod: how the
  API confines what a client sends (\<open>internal/api/files.go\<close>,
  \<open>internal/api/filesbulk.go\<close>) and how the helper takes it back
  (\<open>internal/fileops/fileops.go\<close>), the names a request may give, and the listing that
  one side prints and the other parses.
\<close>

subsection \<open>The jail\<close>

definition jail :: "string \<Rightarrow> string \<Rightarrow> string" where
  "jail root rel = Join [root, Clean (CHR ''/'' # rel)]"

definition outside :: "string \<Rightarrow> bool" where
  "outside p = (let c = Clean (trim_left ''/'' p) in c = ''..'' \<or> prefix ''../'' c)"

definition outsideRoot :: "string list \<Rightarrow> bool" where
  "outsideRoot paths = list_ex outside paths"

definition relative :: "string \<Rightarrow> string \<Rightarrow> string option" where
  \<comment> \<open>\<open>relative\<close> of the helper, \<open>root\<close> being \<open>r.Name()\<close>; it refuses with 4\<close>
  "relative root name =
     (if \<not> IsAbs name then None
      else case Rel root name of None \<Rightarrow> None | Some r \<Rightarrow> if IsLocal r then Some r else None)"

fun climbs :: "nat \<Rightarrow> string list \<Rightarrow> bool" where
  \<comment> \<open>walking the elements of a path from \<open>d\<close> levels below the root leaves it\<close>
  "climbs d [] = False"
| "climbs d (c # cs) =
     (if c = [] \<or> c = ''.'' then climbs d cs
      else if c = ''..'' then (if d = 0 then True else climbs (d - 1) cs)
      else climbs (d + 1) cs)"

lemma elems_jail:
  assumes "IsAbs root"
  shows "elems (jail root rel) = elems root @ elems (CHR ''/'' # rel)"
proof -
  have "IsAbs (CHR ''/'' # rel)" by (simp add: IsAbs_def)
  moreover have "Clean (CHR ''/'' # rel) \<noteq> []"
    using calculation IsAbs_Clean IsAbs_nonempty by blast
  ultimately show ?thesis
    using assms IsAbs_nonempty [OF assms] elems_rooted [OF assms]
    by (simp add: jail_def elems_Join_elems split_Clean_plain)
qed

lemma IsAbs_jail: "IsAbs root \<Longrightarrow> IsAbs (jail root rel)"
proof -
  assume "IsAbs root"
  moreover have "IsAbs (CHR ''/'' # rel)" by (simp add: IsAbs_def)
  then have "Clean (CHR ''/'' # rel) \<noteq> []"
    using IsAbs_Clean IsAbs_nonempty by blast
  ultimately show ?thesis using IsAbs_nonempty by (simp add: jail_def)
qed

lemma relative_iff:
  assumes "IsAbs root"
  shows "(\<exists>r. relative root name = Some r \<and> elems r = cs) \<longleftrightarrow> IsAbs name \<and> elems name = elems root @ cs"
  using Rel_local [OF assms, of name cs]
  by (auto simp: relative_def split: option.splits)

lemma relative_local: "relative root name = Some r \<Longrightarrow> list_all plain_elem (elems r) \<and> r \<noteq> [] \<and> \<not> IsAbs r"
  using IsLocal_iff [of r] by (auto simp: relative_def IsLocal_def split: option.splits if_splits)

lemma inside_clean:
  assumes "\<forall>c \<in> set cs. CHR ''/'' \<notin> set c" and "list_all plain_elem ds" and "\<not> climbs (length ds) cs"
  shows "\<exists>es. list_all plain_elem es \<and> (\<forall>rooted. foldl (push_elem rooted) (rev ds) cs = rev es)"
  using assms
proof (induction cs arbitrary: ds)
  case (Cons c cs)
  consider (skip) "c = [] \<or> c = ''.''" | (up) "c = ''..''" | (name) "plain_elem c"
    using Cons.prems(1) by (auto simp: plain_elem_def)
  then show ?case
  proof cases
    case skip
    then have "push_elem rooted (rev ds) c = rev ds" for rooted by auto
    with Cons skip show ?thesis by auto
  next
    case name
    then have "\<not> climbs (length (ds @ [c])) cs"
      using Cons.prems(3) by (simp add: plain_elem_def)
    with Cons.IH [of "ds @ [c]"] Cons.prems name show ?thesis by simp
  next
    case up
    from up Cons.prems(3) have ds: "ds \<noteq> []" by auto
    from ds up Cons.prems(3) have cl: "\<not> climbs (length ds - 1) cs" by simp
    from ds obtain es d where "ds = es @ [d]" by (cases ds rule: rev_cases) auto
    with Cons.IH [of es] Cons.prems up ds cl show ?thesis by simp
  qed
qed auto

lemma outside_clean:
  assumes "\<forall>c \<in> set cs. CHR ''/'' \<notin> set c" and "list_all plain_elem ds" and "climbs (length ds) cs"
  shows "\<exists>k es. foldl (push_elem False) (rev ds) cs = rev es @ dots (Suc k)"
  using assms
proof (induction cs arbitrary: ds)
  case (Cons c cs)
  consider (skip) "c = [] \<or> c = ''.''" | (up) "c = ''..''" | (name) "plain_elem c"
    using Cons.prems(1) by (auto simp: plain_elem_def)
  then show ?case
  proof cases
    case skip
    then have "push_elem False (rev ds) c = rev ds" by auto
    with Cons skip show ?thesis by auto
  next
    case name
    then have "climbs (length (ds @ [c])) cs"
      using Cons.prems(3) by (simp add: plain_elem_def)
    with Cons.IH [of "ds @ [c]"] Cons.prems name show ?thesis by simp
  next
    case up
    show ?thesis
    proof (cases ds rule: rev_cases)
      case Nil
      obtain k es where "foldl (push_elem False) (rev [] @ dots 1) cs = rev es @ dots k" "1 \<le> k"
        using push_shape [of cs "[]" False 1] Cons.prems(1) by auto
      then have "foldl (push_elem False) [''..''] cs = rev es @ dots (Suc (k - 1))" by simp
      with up Nil show ?thesis by auto
    next
      case (snoc es d)
      with Cons.IH [of es] Cons.prems up show ?thesis by simp
    qed
  qed
qed simp

lemma not_plain_dots: "\<not> list_all plain_elem (dots (Suc k) @ es)"
  by (simp add: plain_elem_def)

lemma trim_left_slash: "\<not> IsAbs (trim_left ''/'' p)"
  by (induction p) (auto simp: trim_left_def IsAbs_def)

lemma clean_rooted_trim:
  "clean_elems rooted (split_on (CHR ''/'') (trim_left ''/'' p)) = clean_elems rooted (split_on (CHR ''/'') p)"
  by (induction p) (auto simp: trim_left_def)

lemma climbs_trim: "climbs d (split_on (CHR ''/'') (trim_left ''/'' p)) = climbs d (split_on (CHR ''/'') p)"
  by (induction p) (auto simp: trim_left_def)

lemma outside_climbs: "outside p \<longleftrightarrow> climbs 0 (split_on (CHR ''/'') p)"
proof -
  let ?q = "trim_left ''/'' p" and ?cs = "split_on (CHR ''/'') (trim_left ''/'' p)"
  have ns: "\<forall>c \<in> set ?cs. CHR ''/'' \<notin> set c" by (simp add: split_on_no_sep)
  have e: "elems ?q = clean_elems False ?cs" by (simp add: elems_def trim_left_slash)
  have "list_all plain_elem (elems ?q) \<longleftrightarrow> \<not> climbs 0 ?cs"
  proof (cases "climbs 0 ?cs")
    case True
    then obtain k es where "foldl (push_elem False) [] ?cs = rev es @ dots (Suc k)"
      using outside_clean [OF ns, of "[]"] by auto
    then have "elems ?q = dots (Suc k) @ es" by (simp add: e clean_elems_def del: dots_simps)
    with True not_plain_dots [of k es] show ?thesis by simp
  next
    case False
    then obtain es where "list_all plain_elem es" "foldl (push_elem False) [] ?cs = rev es"
      using inside_clean [OF ns, of "[]"] by auto
    with False show ?thesis by (simp add: e clean_elems_def)
  qed
  then show ?thesis
    using Clean_climbs [OF trim_left_slash, of p] by (simp add: outside_def Let_def climbs_trim)
qed

lemma inside_unchanged:
  assumes "\<not> outside p" shows "elems (CHR ''/'' # p) = elems (trim_left ''/'' p)"
proof -
  let ?cs = "split_on (CHR ''/'') (trim_left ''/'' p)"
  have ns: "\<forall>c \<in> set ?cs. CHR ''/'' \<notin> set c" by (simp add: split_on_no_sep)
  have "\<not> climbs 0 ?cs" using assms by (simp add: outside_climbs climbs_trim)
  then have "clean_elems True ?cs = clean_elems False ?cs"
    using inside_clean [OF ns, of "[]"] by (auto simp: clean_elems_def)
  then show ?thesis
    by (simp add: elems_slash elems_def [of "trim_left ''/'' p"] trim_left_slash clean_rooted_trim)
qed


subsection \<open>What a client names\<close>

text \<open>
  The entry a request names, as the list of names that leads to it from the data directory:
  \<open>walk_elems\<close> takes the elements of the path one by one, as a reader would.
\<close>

fun walk_elems :: "string list \<Rightarrow> string list \<Rightarrow> string list" where
  "walk_elems cur [] = cur"
| "walk_elems cur (c # cs) =
     (if c = [] \<or> c = ''.'' then walk_elems cur cs
      else if c = ''..'' then walk_elems (butlast cur) cs
      else walk_elems (cur @ [c]) cs)"

lemma walk_elems_clean:
  assumes "list_all plain_elem ds" and "\<forall>c \<in> set cs. CHR ''/'' \<notin> set c"
  shows "walk_elems ds cs = rev (foldl (push_elem True) (rev ds) cs)"
  using assms
proof (induction cs arbitrary: ds)
  case (Cons c cs)
  consider (skip) "c = [] \<or> c = ''.''" | (up) "c = ''..''" | (name) "plain_elem c"
    using Cons.prems(2) by (auto simp: plain_elem_def)
  then show ?case
  proof cases
    case skip
    then have "push_elem True (rev ds) c = rev ds" by auto
    with Cons skip show ?thesis by auto
  next
    case name
    with Cons.IH [of "ds @ [c]"] Cons.prems show ?thesis by (simp add: plain_elem_def)
  next
    case up
    show ?thesis
    proof (cases ds rule: rev_cases)
      case Nil
      with Cons.IH [of "[]"] Cons.prems up show ?thesis by simp
    next
      case (snoc es d)
      with Cons.IH [of es] Cons.prems up show ?thesis by simp
    qed
  qed
qed simp

lemma elems_slash_walk: "elems (CHR ''/'' # p) = walk_elems [] (split_on (CHR ''/'') p)"
  using walk_elems_clean [of "[]" "split_on (CHR ''/'') p"]
  by (simp add: elems_slash clean_elems_def split_on_no_sep)

definition checkNames :: "string list \<Rightarrow> string option" where
  \<comment> \<open>\<open>None\<close> accepts\<close>
  "checkNames names =
     (let bad = (\<lambda>n. n = [] \<or> n = ''.'' \<or> n = ''..'' \<or> CHR ''/'' \<in> set n \<or> CHR 0x00 \<in> set n) in
      if names = [] then Some ''no files given''
      else if length names > 1000 then Some ''at most 1000 files at once''
      else (case find (\<lambda>i. bad (names ! i) \<or> names ! i \<in> set (take i names)) [0..<length names] of
              None \<Rightarrow> None
            | Some i \<Rightarrow> Some (if bad (names ! i) then ''invalid file name'' else ''given twice'')))"

lemma checkNames_ok:
  "checkNames names = None \<longleftrightarrow>
     names \<noteq> [] \<and> length names \<le> 1000 \<and> distinct names
     \<and> (\<forall>n \<in> set names. plain_elem n \<and> CHR 0x00 \<notin> set n)"
proof -
  have "distinct names \<longleftrightarrow> (\<forall>i < length names. names ! i \<notin> set (take i names))"
    by (auto simp: distinct_conv_nth in_set_conv_nth) (metis nat_neq_iff)
  then show ?thesis
    by (auto simp: checkNames_def Let_def find_None plain_elem_def all_set_conv_all_nth split: option.splits
        dest: find_SomeD)
qed

definition file_name :: "string \<Rightarrow> bool" where
  \<comment> \<open>the name a directory entry can have, which no NUL ends early\<close>
  "file_name n = (plain_elem n \<and> CHR 0x00 \<notin> set n)"

definition splitExt :: "string \<Rightarrow> string \<times> string" where
  "splitExt name =
     (let lower = ToLower name in
      case find (\<lambda>e. suffix e lower \<and> length name > length e) [''.tar.gz'', ''.tar.bz2'', ''.tar.xz'', ''.tar.zst''] of
        Some e \<Rightarrow> (take (length name - length e) name, drop (length name - length e) name)
      | None \<Rightarrow> (let ext = path_Ext name in if ext = name then (name, []) else (trim_suffix ext name, ext)))"

definition copyCandidates :: "string \<Rightarrow> string list" where
  "copyCandidates name =
     (let (base, ext) = splitExt name in
      (base @ '' copy'' @ ext) # map (\<lambda>i. base @ '' copy '' @ show_nat i @ ext) [1..<51])"

lemma last_split_suffix:
  "c \<in> set s \<Longrightarrow> suffix (c # last (split_on c s)) s" "suffix (last (split_on c s)) s"
proof -
  show 1: "suffix (c # last (split_on c s)) s" if c: "c \<in> set s"
  proof -
    obtain p q where "s = p @ c # q" "c \<notin> set q" using split_list_last [OF c] by blast
    then show ?thesis by (simp add: split_append_sep split_on_single suffix_def)
  qed
  show "suffix (last (split_on c s)) s"
    using 1 by (cases "c \<in> set s") (auto simp: split_on_single dest: suffix_ConsD)
qed

lemma path_Ext_suffix: "suffix (path_Ext p) p"
  unfolding path_Ext_def Let_def
  using last_split_suffix(1) [of "CHR ''.''"] last_split_suffix(2) [of "CHR ''/''" p] suffix_order.trans
  by (cases "CHR ''.'' \<in> set (last (split_on (CHR ''/'') p))") (simp, blast, simp)

lemma splitExt_append: "splitExt name = (base, ext) \<Longrightarrow> base @ ext = name"
  using path_Ext_suffix [of name]
  by (auto simp: splitExt_def Let_def trim_suffix_def suffix_def split: option.splits if_splits)

theorem copyCandidates_ok:
  assumes "plain_elem name"
  shows "distinct (copyCandidates name) \<and> name \<notin> set (copyCandidates name)
    \<and> list_all plain_elem (copyCandidates name) \<and> length (copyCandidates name) = 51"
proof -
  obtain base ext where be: "splitExt name = (base, ext)" by force
  have name: "base @ ext = name" using splitExt_append [OF be] .
  have sp: "show_nat i \<noteq> []" for i by simp
  have "CHR ''/'' \<notin> set (show_nat i)" for i
    using show_nat_digits [of "CHR ''/''" i] by (auto simp: is_digit_def byte_def)
  moreover have "CHR ''/'' \<notin> set base" "CHR ''/'' \<notin> set ext"
    using assms name by (auto simp: plain_elem_def)
  ultimately have "list_all plain_elem (copyCandidates name)"
    by (auto simp: copyCandidates_def be list_all_iff plain_elem_def Cons_eq_append_conv append_eq_Cons_conv)
  moreover have "c \<noteq> name" if "c \<in> set (copyCandidates name)" for c
  proof -
    have "length name = length base + length ext" using name by auto
    then have "length c > length name" using that by (auto simp: copyCandidates_def be)
    then show ?thesis by blast
  qed
  moreover have "'' copy'' @ ext \<noteq> '' copy '' @ show_nat i @ ext" for i
  proof
    assume "'' copy'' @ ext = '' copy '' @ show_nat i @ ext"
    then have "length ('' copy'' @ ext) = length ('' copy '' @ show_nat i @ ext)" by (rule arg_cong)
    then show False by simp
  qed
  ultimately show ?thesis
    by (auto simp: copyCandidates_def be distinct_map inj_on_def)
qed


subsection \<open>Names shown and formats told\<close>

definition sanitizeFilename :: "string \<Rightarrow> string" where
  "sanitizeFilename name =
     filter (\<lambda>c. c \<noteq> CHR 0x22 \<and> c \<noteq> CHR 0x5C \<and> c \<noteq> CHR 0x0A \<and> c \<noteq> CHR 0x0D) name"

definition has_ext :: "string \<Rightarrow> string list \<Rightarrow> bool" where
  "has_ext lower exts = list_ex (\<lambda>e. suffix e lower) exts"

definition archiveFormat :: "string \<Rightarrow> string option" where
  "archiveFormat name =
     (let lower = ToLower name in
      if has_ext lower [''.zip''] then Some ''zip''
      else if has_ext lower [''.tar''] then Some ''-''
      else if has_ext lower [''.tar.gz'', ''.tgz''] then Some ''z''
      else if has_ext lower [''.tar.bz2'', ''.tbz2''] then Some ''j''
      else if has_ext lower [''.tar.xz'', ''.txz''] then Some ''J''
      else None)"

definition describeBulk :: "string \<Rightarrow> string list \<Rightarrow> string" where
  "describeBulk root files =
     (let shown = take 5 files;
          d = join '', '' shown @
              (if length files > length shown
               then '' and '' @ show_nat (length files - length shown) @ '' more'' else []);
          root' = trim_cut ''/'' root
      in if root' \<noteq> [] then root' @ '': '' @ d else d)"

subsection \<open>The listing\<close>

record fileEntry =
  fe_name :: string
  fe_size :: int
  fe_mtime :: int
  fe_dir :: bool

definition tab :: char where "tab = CHR 0x09"
definition nul :: char where "nul = CHR 0x00"

definition show_entry :: "fileEntry \<Rightarrow> string" where
  \<comment> \<open>one record of the helper's listing\<close>
  "show_entry e =
     (if fe_dir e then ''d'' else ''f'') @ [tab] @ show_int (if fe_dir e then 0 else fe_size e) @ [tab]
     @ show_int (fe_mtime e) @ [tab] @ fe_name e @ [nul]"

fun split_n :: "char \<Rightarrow> nat \<Rightarrow> string \<Rightarrow> string list" where
  \<comment> \<open>\<open>strings.SplitN(s, sep, n + 1)\<close>\<close>
  "split_n sep 0 s = [s]"
| "split_n sep (Suc n) s =
     (if sep \<in> set s then takeWhile (\<lambda>c. c \<noteq> sep) s # split_n sep n (tl (dropWhile (\<lambda>c. c \<noteq> sep) s))
      else [s])"

definition parse_or_zero :: "string \<Rightarrow> int" where
  \<comment> \<open>\<open>n, _ := strconv.ParseInt(s, 10, 64)\<close>: zero for what is no number, the nearest bound for
    one out of range\<close>
  "parse_or_zero s =
     (case parse_int64 s of Some n \<Rightarrow> n
      | None \<Rightarrow>
         (let neg = prefix ''-'' s; ds = (if neg \<or> prefix ''+'' s then tl s else s) in
          if ds = [] \<or> \<not> list_all is_digit ds then 0 else if neg then - (2 ^ 63) else 2 ^ 63 - 1))"

definition parse_record :: "string \<Rightarrow> fileEntry option" where
  "parse_record rec =
     (case split_n tab 3 rec of
        [kind, sz, mt, nm] \<Rightarrow>
          if nm = [] then None
          else (let dir = (kind = ''d'') in
                Some \<lparr>fe_name = nm, fe_size = (if dir then 0 else parse_or_zero (TrimSpace sz)),
                      fe_mtime = parse_or_zero (takeWhile (\<lambda>c. c \<noteq> CHR ''.'') (TrimSpace mt)), fe_dir = dir\<rparr>)
      | _ \<Rightarrow> None)"

definition parseListing :: "string \<Rightarrow> fileEntry list" where
  "parseListing out = List.map_filter parse_record (split_on nul out)"

definition int64 :: "int \<Rightarrow> bool" where
  "int64 i = (- (2 ^ 63) \<le> i \<and> i < 2 ^ 63)"

lemma digit_visible: "is_digit c \<Longrightarrow> visible c \<and> c \<noteq> tab \<and> c \<noteq> nul \<and> c \<noteq> CHR ''.'' \<and> c \<noteq> CHR ''-'' \<and> c \<noteq> CHR ''+''"
proof -
  assume "is_digit c"
  then have "byte c \<in> set [48..<58]" unfolding is_digit_def set_upt by simp
  then have "c \<in> set (map of_byte [48..<58])" by (metis image_eqI of_byte_byte list.set_map)
  moreover have "list_all (\<lambda>c. visible c \<and> c \<noteq> tab \<and> c \<noteq> nul \<and> c \<noteq> CHR ''.'' \<and> c \<noteq> CHR ''-'' \<and> c \<noteq> CHR ''+'')
      (map of_byte [48..<58])"
    unfolding visible_code by code_simp
  ultimately show ?thesis unfolding list_all_iff by (rule bspec [rotated])
qed

lemma show_int_chars:
  assumes "c \<in> set (show_int i)" shows "visible c \<and> c \<noteq> tab \<and> c \<noteq> nul \<and> c \<noteq> CHR ''.''"
proof -
  have m: "visible (CHR ''-'') \<and> CHR ''-'' \<noteq> tab \<and> CHR ''-'' \<noteq> nul \<and> CHR ''-'' \<noteq> CHR ''.''"
    unfolding visible_code by code_simp
  have "c = CHR ''-'' \<or> is_digit c"
    using assms by (auto simp: show_int_def dest: show_nat_digits split: if_splits)
  then show ?thesis
  proof
    assume "c = CHR ''-''" then show ?thesis using m by (simp only:) simp
  next
    assume "is_digit c" then show ?thesis using digit_visible by simp
  qed
qed

lemma TrimSpace_visible_all:
  assumes "\<forall>c \<in> set s. visible c" shows "TrimSpace s = s"
proof (rule TrimSpace_id)
  have v: "c \<notin> set q" if "c \<in> set s" "q \<in> set space_seqs" for c q
    using assms that by (auto simp: visible_def)
  have n: "q \<noteq> []" if "q \<in> set space_seqs" for q using that by (rule space_seqs_nonempty)
  show "space_prefix s = None"
    unfolding space_prefix_def find_None using v n by (metis hd_in_set set_mono_prefix subsetD)
  show "space_suffix s = None"
    unfolding space_suffix_def find_None using v n by (metis hd_in_set set_mono_suffix subsetD)
qed

lemma TrimSpace_show_int [simp]: "TrimSpace (show_int i) = show_int i"
  by (rule TrimSpace_visible_all) (blast dest: show_int_chars)

lemma parse_show_int [simp]:
  assumes "int64 i" shows "parse_int64 (show_int i) = Some i"
proof (cases "i < 0")
  case True
  have "list_all is_digit (show_nat (nat (- i)))"
    using show_nat_digits by (auto simp: list_all_iff)
  with True assms show ?thesis by (simp add: show_int_def parse_int64_def int64_def)
next
  case False
  have d: "list_all is_digit (show_nat (nat i))"
    using show_nat_digits by (auto simp: list_all_iff)
  then obtain c t where ct: "show_nat (nat i) = c # t" "is_digit c"
    by (cases "show_nat (nat i)") auto
  then have "c \<noteq> CHR ''-''" "c \<noteq> CHR ''+''" using digit_visible by auto
  with ct d False assms digits_value_show_nat [of "nat i"] show ?thesis
    by (simp add: show_int_def parse_int64_def int64_def)
qed

lemma split_n_append: "sep \<notin> set p \<Longrightarrow> split_n sep (Suc n) (p @ sep # s) = p # split_n sep n s"
  by (induction p) auto

lemma takeWhile_show_int [simp]: "takeWhile (\<lambda>c. c \<noteq> CHR ''.'') (show_int i) = show_int i"
  by (simp add: takeWhile_eq_all_conv) (metis show_int_chars)

lemma no_sep_show_int [simp]: "tab \<notin> set (show_int i)" "nul \<notin> set (show_int i)"
  using show_int_chars by blast+

lemma parse_show_entry:
  assumes "fe_name e \<noteq> []" "int64 (fe_size e)" "int64 (fe_mtime e)" "show_entry e = r @ [nul]"
  shows "parse_record r = Some (e\<lparr>fe_size := if fe_dir e then 0 else fe_size e\<rparr>)"
proof -
  let ?k = "if fe_dir e then ''d'' else ''f''" and ?n = "show_int (if fe_dir e then 0 else fe_size e)"
  have r: "r = ?k @ tab # ?n @ tab # show_int (fe_mtime e) @ tab # fe_name e"
    using assms(4) by (simp add: show_entry_def)
  have "tab \<notin> set ?k" by (simp add: tab_def)
  then have "split_n tab 3 r = [?k, ?n, show_int (fe_mtime e), fe_name e]"
    unfolding r numeral_3_eq_3 by (simp only: split_n_append no_sep_show_int split_n.simps(1) not_False_eq_True)
  then show ?thesis
    using assms(1-3) by (simp add: parse_record_def Let_def parse_or_zero_def)
qed

text \<open>C36: What the helper lists, the API reads back: every name, size, time and kind, in order, whatever
  characters but NUL and a slash a name has.\<close>

theorem listing_round_trip:
  assumes "\<forall>e \<in> set es. file_name (fe_name e) \<and> int64 (fe_size e) \<and> int64 (fe_mtime e)"
  shows "parseListing (concat (map show_entry es)) = map (\<lambda>e. e\<lparr>fe_size := if fe_dir e then 0 else fe_size e\<rparr>) es"
  using assms
proof (induction es)
  case Nil
  have "split_n tab 3 [] = [[]]" by (simp add: numeral_3_eq_3)
  then show ?case by (simp add: parseListing_def parse_record_def List.map_filter_def)
next
  case (Cons e es)
  obtain r where r: "show_entry e = r @ [nul]" by (simp add: show_entry_def)
  have "fe_name e \<noteq> []" "nul \<notin> set (fe_name e)"
    using Cons.prems by (auto simp: file_name_def plain_elem_def nul_def)
  then have "nul \<notin> set r" using r no_sep_show_int by (auto simp: show_entry_def nul_def tab_def split: if_splits)
  then have "parseListing (show_entry e @ s) = (case parse_record r of None \<Rightarrow> parseListing s | Some x \<Rightarrow> x # parseListing s)" for s
    by (simp add: r parseListing_def split_on_append List.map_filter_def split: option.splits)
  with parse_show_entry [OF _ _ _ r] Cons \<open>fe_name e \<noteq> []\<close> show ?case by simp
qed

lemma copyCandidates_ok_witness:
  "distinct (copyCandidates ''save.txt'') \<and> hd (copyCandidates ''save.txt'') = ''save copy.txt''"
  using copyCandidates_ok [of "''save.txt''"] by code_simp

lemma listing_round_trip_witness:
  "parseListing (show_entry \<lparr>fe_name = ''a b'', fe_size = 3, fe_mtime = 12, fe_dir = False\<rparr>)
   = [\<lparr>fe_name = ''a b'', fe_size = 3, fe_mtime = 12, fe_dir = False\<rparr>]"
  using listing_round_trip [of "[\<lparr>fe_name = ''a b'', fe_size = 3, fe_mtime = 12, fe_dir = False\<rparr>]"]
  by (simp add: file_name_def plain_elem_def int64_def)

lemma outside_climbs_example: "outside ''a/../../b'' \<and> \<not> outside ''a/../b''"
  by code_simp

end
