(* ===== verification/File_Tree.thy ===== *)
theory File_Tree imports File_Jail begin

text \<open>
  A server's data volume: a tree of named entries, with the contents of its files kept by inode,
  so that two names can share a file and an open file outlives its name. \<open>wf_tree\<close> is what
  a file system keeps: a directory's names are distinct and are names.

  The operations here are those of the kernel on the entry at a \<^emph>\<open>place\<close>, the list of names
  that leads to it through directories only. Permission bits and times are not part of the tree.
\<close>

datatype node =
    File nat
  | Dir "(string \<times> node) list"
  | Link string
  | Fifo

type_synonym place = "string list"

record fsys =
  fs_tree :: node
  fs_blob :: "nat \<Rightarrow> string"
  fs_next :: nat

datatype ferr =
    Refused | Conflict  \<comment> \<open>the helper's own errors, \<open>bad\<close> and \<open>conflict\<close>\<close>
  | NotExist | Escapes | TooManyLinks | NotDir | IsDirectory | Exists | Other_error

fun is_dir :: "node \<Rightarrow> bool" where
  "is_dir (Dir es) = True"
| "is_dir n = False"

fun is_file :: "node \<Rightarrow> bool" where
  "is_file (File i) = True"
| "is_file n = False"

fun lookup :: "node \<Rightarrow> place \<Rightarrow> node option" where
  "lookup t [] = Some t"
| "lookup t (c # cs) =
     (case t of Dir es \<Rightarrow> (case map_of es c of None \<Rightarrow> None | Some n \<Rightarrow> lookup n cs) | _ \<Rightarrow> None)"

fun upd :: "string \<Rightarrow> node option \<Rightarrow> (string \<times> node) list \<Rightarrow> (string \<times> node) list" where
  \<comment> \<open>one entry of a directory: a new one goes at its end\<close>
  "upd c x [] = (case x of None \<Rightarrow> [] | Some n \<Rightarrow> [(c, n)])"
| "upd c x (e # es) =
     (if fst e = c then (case x of None \<Rightarrow> upd c x es | Some n \<Rightarrow> (c, n) # es) else e # upd c x es)"

fun alter :: "place \<Rightarrow> (node option \<Rightarrow> node option) \<Rightarrow> node \<Rightarrow> node" where
  \<comment> \<open>changes the entry at a place of a directory that is there\<close>
  "alter (c # cs) f (Dir es) =
     Dir (upd c (if cs = [] then f (map_of es c) else map_option (alter cs f) (map_of es c)) es)"
| "alter p f t = t"

fun wf_tree :: "node \<Rightarrow> bool" where
  "wf_tree (Dir es) = (distinct (map fst es) \<and> (\<forall>(c, n) \<in> set es. file_name c \<and> wf_tree n))"
| "wf_tree n = True"

fun inodes :: "node \<Rightarrow> nat set" where
  "inodes (File i) = {i}"
| "inodes (Dir es) = (\<Union>(c, n) \<in> set es. inodes n)"
| "inodes n = {}"

definition wf_fs :: "fsys \<Rightarrow> bool" where
  "wf_fs s = (is_dir (fs_tree s) \<and> wf_tree (fs_tree s) \<and> (\<forall>i \<in> inodes (fs_tree s). i < fs_next s))"

subsection \<open>Looking up and altering\<close>

lemma lookup_append: "lookup t (p @ q) = (case lookup t p of None \<Rightarrow> None | Some n \<Rightarrow> lookup n q)"
  by (induction t p rule: lookup.induct) (auto split: node.splits option.splits)

lemma lookup_snoc:
  "lookup t (p @ [c]) = (case lookup t p of Some (Dir es) \<Rightarrow> map_of es c | _ \<Rightarrow> None)"
  by (auto simp: lookup_append split: option.splits node.splits)

lemma map_of_upd [simp]: "map_of (upd c x es) d = (if d = c then x else map_of es d)"
  by (induction es) (auto split: option.splits)

lemma lookup_prefix_dir: "lookup t (p @ c # q) = Some n \<Longrightarrow> \<exists>es. lookup t p = Some (Dir es)"
  by (auto simp: lookup_append split: option.splits node.splits)

lemma alter_Cons:
  "lookup (alter (c # cs) f t) (d # q) =
     (if d = c \<and> is_dir t \<and> cs \<noteq> []
      then (case lookup t [c] of None \<Rightarrow> None | Some m \<Rightarrow> lookup (alter cs f m) q)
      else if d = c \<and> is_dir t then (case f (lookup t [c]) of None \<Rightarrow> None | Some m \<Rightarrow> lookup m q)
      else lookup t (d # q))"
  by (cases t) (auto split: option.splits)

lemma lookup_alter_same:
  assumes "lookup t p = Some (Dir es)"
  shows "lookup (alter (p @ [c]) f t) (p @ [c]) = f (map_of es c)"
  using assms
proof (induction p arbitrary: t)
  case Nil
  then show ?case by (auto split: option.splits)
next
  case (Cons d p)
  obtain fs m where t: "t = Dir fs" "map_of fs d = Some m" "lookup m p = Some (Dir es)"
    using Cons.prems by (auto split: node.splits option.splits)
  with Cons.IH [OF t(3)] show ?case by (simp add: alter_Cons)
qed

lemma lookup_alter_other:
  assumes "\<not> prefix (p @ [c]) q" "\<not> prefix q p"
  shows "lookup (alter (p @ [c]) f t) q = lookup t q"
  using assms
proof (induction p arbitrary: t q)
  case Nil
  then obtain d q' where q: "q = d # q'" by (cases q) auto
  with Nil have "d \<noteq> c" by auto
  with q show ?case by (simp only: append_Nil alter_Cons) simp
next
  case (Cons d p)
  then obtain e q' where q: "q = e # q'" by (cases q) auto
  show ?case
  proof (cases "e = d")
    case True
    with Cons.prems q have "\<not> prefix (p @ [c]) q'" "\<not> prefix q' p" by auto
    with Cons.IH show ?thesis
      unfolding q True append_Cons alter_Cons by (auto split: option.splits node.splits elim: is_dir.elims)
  next
    case False
    then show ?thesis unfolding q append_Cons alter_Cons by simp
  qed
qed

lemma lookup_alter_above:
  \<comment> \<open>a directory on the way stays a directory\<close>
  assumes "lookup t q = Some (Dir es)"
  shows "\<exists>fs. lookup (alter (q @ d # r) f t) q = Some (Dir fs)"
  using assms
proof (induction q arbitrary: t)
  case Nil
  then show ?case by simp
next
  case (Cons e q)
  then obtain gs m where t: "t = Dir gs" "map_of gs e = Some m" "lookup m q = Some (Dir es)"
    by (auto split: node.splits option.splits)
  with Cons.IH [OF t(3)] show ?case by (simp add: alter_Cons)
qed

lemma lookup_below: "lookup t p = Some n \<Longrightarrow> lookup n q = lookup t (p @ q)"
  by (simp add: lookup_append)

subsection \<open>What stays well-formed\<close>

lemma upd_names: "fst ` set (upd c x es) \<subseteq> insert c (fst ` set es)"
  by (induction es) (auto split: option.splits)

lemma distinct_upd: "distinct (map fst es) \<Longrightarrow> distinct (map fst (upd c x es))"
proof (induction es)
  case (Cons e es)
  then have "fst e \<noteq> c \<Longrightarrow> fst e \<notin> fst ` set (upd c x es)" using upd_names [of c x es] by auto
  with Cons show ?case by (auto split: option.splits)
qed (auto split: option.splits)

lemma set_upd: "e \<in> set (upd c x es) \<Longrightarrow> e \<in> set es \<or> (\<exists>n. x = Some n \<and> e = (c, n))"
  by (induction es) (auto split: option.splits if_splits)

lemma wf_upd:
  assumes "wf_tree (Dir es)" "\<And>n. x = Some n \<Longrightarrow> file_name c \<and> wf_tree n"
  shows "wf_tree (Dir (upd c x es))"
  using assms distinct_upd [of es c x] by (auto dest!: set_upd)

lemma wf_child: "wf_tree (Dir es) \<Longrightarrow> map_of es c = Some n \<Longrightarrow> file_name c \<and> wf_tree n"
  by (auto dest: map_of_SomeD)

lemma wf_lookup: "wf_tree t \<Longrightarrow> lookup t p = Some n \<Longrightarrow> wf_tree n"
  by (induction t p rule: lookup.induct) (auto split: node.splits option.splits dest: map_of_SomeD)

lemma wf_alter:
  assumes "wf_tree t" "\<And>x n. f x = Some n \<Longrightarrow> (\<forall>m. x = Some m \<longrightarrow> wf_tree m) \<Longrightarrow> file_name (last p) \<and> wf_tree n"
  shows "wf_tree (alter p f t)"
  using assms
proof (induction p f t rule: alter.induct)
  case (1 c cs f es)
  let ?x = "if cs = [] then f (map_of es c) else map_option (alter cs f) (map_of es c)"
  have "file_name c \<and> wf_tree n" if x: "?x = Some n" for n
  proof (cases "cs = []")
    case True
    with x 1(3) [of "map_of es c" n] wf_child [OF 1(2)] show ?thesis by auto
  next
    case False
    with x obtain m where m: "map_of es c = Some m" "n = alter cs f m" by auto
    with wf_child [OF 1(2) m(1)] 1(1) [OF False] 1(3) False show ?thesis by simp
  qed
  with wf_upd [OF 1(2)] show ?case by (simp del: wf_tree.simps)
qed auto

lemma inodes_child: "map_of es c = Some n \<Longrightarrow> inodes n \<subseteq> inodes (Dir es)"
  by (auto dest!: map_of_SomeD)

lemma inodes_lookup: "lookup t p = Some n \<Longrightarrow> inodes n \<subseteq> inodes t"
proof (induction t p rule: lookup.induct)
  case (2 t c cs)
  then obtain es m where "t = Dir es" "map_of es c = Some m" "lookup m cs = Some n"
    by (auto split: node.splits option.splits)
  with 2(1) inodes_child show ?case by blast
qed simp

lemma inodes_upd: "inodes (Dir (upd c x es)) \<subseteq> inodes (Dir es) \<union> (case x of None \<Rightarrow> {} | Some n \<Rightarrow> inodes n)"
proof
  fix i assume "i \<in> inodes (Dir (upd c x es))"
  then obtain d m where e: "(d, m) \<in> set (upd c x es)" "i \<in> inodes m" by auto
  from set_upd [OF e(1)] show "i \<in> inodes (Dir es) \<union> (case x of None \<Rightarrow> {} | Some n \<Rightarrow> inodes n)"
    using e(2) by auto
qed

lemma inodes_alter:
  assumes "\<And>x n. f x = Some n \<Longrightarrow> (\<forall>m. x = Some m \<longrightarrow> inodes m \<subseteq> I) \<Longrightarrow> inodes n \<subseteq> I" "inodes t \<subseteq> I"
  shows "inodes (alter p f t) \<subseteq> I"
  using assms
proof (induction p f t rule: alter.induct)
  case (1 c cs f es)
  let ?x = "if cs = [] then f (map_of es c) else map_option (alter cs f) (map_of es c)"
  have "inodes n \<subseteq> I" if x: "?x = Some n" for n
  proof (cases "cs = []")
    case True
    have "inodes m \<subseteq> I" if "map_of es c = Some m" for m
      using inodes_child [OF that] 1(3) by blast
    with True x show ?thesis by (intro 1(2) [of "map_of es c" n]) auto
  next
    case False
    with x obtain m where m: "map_of es c = Some m" "n = alter cs f m" by auto
    with inodes_child [OF m(1)] 1(1) [OF False] 1(2,3) False show ?thesis by auto
  qed
  then show ?case using inodes_upd [of c ?x es] 1(3) by (cases ?x) (auto simp del: inodes.simps)
qed auto

lemma is_dir_alter [simp]: "is_dir (alter p f t) = is_dir t"
  by (induction p f t rule: alter.induct) auto

end
