(* ===== verification/Root_Fs.thy ===== *)
theory Root_Fs imports File_Tree begin

text \<open>
  How a name becomes a place: \<open>walk\<close> is the resolution that \<open>os.Root\<close> does for each
  of its operations, element by element, following links inside the volume and refusing what leaves
  it; \<open>Resolve\<close> is \<open>internal/fileops/resolve.go\<close>, which rewrites a name
  beforehand so that links that older versions stored as absolute paths still work.

  A name relative to the volume is the list of its elements, \<open>.\<close> being the empty list:
  \<open>filepath.Dir\<close> is \<open>butlast\<close>, \<open>filepath.Base\<close> is \<open>last\<close> and
  \<open>filepath.Join\<close> appends. How many links \<open>os.Root\<close> follows in one name is a parameter.
\<close>

subsection \<open>Resolution by the standard library\<close>

function walk :: "nat \<Rightarrow> node \<Rightarrow> bool \<Rightarrow> place \<Rightarrow> string list \<Rightarrow> ferr + place" where
  \<comment> \<open>from the directory \<open>cur\<close>; \<open>follow\<close> says whether a link at the end is followed\<close>
  "walk n t follow cur [] = Inr cur"
| "walk n t follow cur (c # cs) =
     (if c = [] \<or> c = ''.'' then walk n t follow cur cs
      else if c = ''..'' then (if cur = [] then Inl Escapes else walk n t follow (butlast cur) cs)
      else if CHR 0x00 \<in> set c then Inl Other_error
      else case lookup t (cur @ [c]) of
          None \<Rightarrow> if cs = [] then Inr (cur @ [c]) else Inl NotExist
        | Some (Dir es) \<Rightarrow> walk n t follow (cur @ [c]) cs
        | Some (Link target) \<Rightarrow>
            if cs = [] \<and> \<not> follow then Inr (cur @ [c])
            else if n = 0 then Inl TooManyLinks
            else if IsAbs target then Inl Escapes
            else walk (n - 1) t follow cur (split_on (CHR ''/'') target @ cs)
        | Some _ \<Rightarrow> if cs = [] then Inr (cur @ [c]) else Inl NotDir)"
  by pat_completeness auto
termination
  by (relation "measures [\<lambda>(n, t, follow, cur, todo). n, \<lambda>(n, t, follow, cur, todo). length todo]") auto

declare walk.simps(2) [simp del]

lemma walk_name:
  assumes "file_name c"
  shows "walk n t follow cur (c # cs) =
     (case lookup t (cur @ [c]) of
          None \<Rightarrow> if cs = [] then Inr (cur @ [c]) else Inl NotExist
        | Some (Dir es) \<Rightarrow> walk n t follow (cur @ [c]) cs
        | Some (Link target) \<Rightarrow>
            if cs = [] \<and> \<not> follow then Inr (cur @ [c])
            else if n = 0 then Inl TooManyLinks
            else if IsAbs target then Inl Escapes
            else walk (n - 1) t follow cur (split_on (CHR ''/'') target @ cs)
        | Some _ \<Rightarrow> if cs = [] then Inr (cur @ [c]) else Inl NotDir)"
  using assms by (simp add: walk.simps(2) file_name_def plain_elem_def)

lemma walk_up: "walk n t follow (cur @ [c]) (''..'' # cs) = walk n t follow cur cs"
  by (simp add: walk.simps(2))

lemma walk_skip: "walk n t follow cur ([] # cs) = walk n t follow cur cs"
    "walk n t follow cur (''.'' # cs) = walk n t follow cur cs"
  by (simp_all add: walk.simps(2))

lemma lookup_butlast_dir:
  "lookup t cur = Some (Dir es) \<Longrightarrow> \<exists>fs. lookup t (butlast cur) = Some (Dir fs)"
  by (cases cur rule: rev_cases) (auto dest: lookup_prefix_dir)

lemma walk_place:
  assumes "walk n t follow cur cs = Inr q" "\<exists>es. lookup t cur = Some (Dir es)"
    "list_all file_name cur" "\<forall>c \<in> set cs. CHR ''/'' \<notin> set c"
  shows "list_all file_name q \<and> (\<exists>es. lookup t (butlast q) = Some (Dir es) )
     \<and> (follow \<longrightarrow> (\<forall>target. lookup t q \<noteq> Some (Link target)))"
  using assms
proof (induction n t follow cur cs rule: walk.induct)
  case (1 n t follow cur)
  then show ?case by (auto dest: lookup_butlast_dir)
next
  case (2 n t follow cur c cs)
  consider (skip) "c = [] \<or> c = ''.''" | (up) "c = ''..''" | (zero) "plain_elem c" "CHR 0x00 \<in> set c" | (name) "file_name c"
    using 2(8) by (auto simp: plain_elem_def file_name_def)
  then show ?case
  proof cases
    case skip
    with 2 show ?thesis by (auto simp: walk.simps(2))
  next
    case up
    with 2(5) have "cur \<noteq> []" "walk n t follow (butlast cur) cs = Inr q"
      by (auto simp: walk.simps(2) split: if_splits)
    moreover have "\<exists>es. lookup t (butlast cur) = Some (Dir es)"
      using 2(6) lookup_butlast_dir by blast
    moreover have "list_all file_name (butlast cur)"
      using 2(7) by (auto simp: list_all_iff dest: in_set_butlastD)
    ultimately show ?thesis using 2(2) up 2(8) by simp
  next
    case zero
    with 2(5) show ?thesis by (simp add: walk.simps(2) plain_elem_def)
  next
    case name
    then have nc: "\<not> (c = [] \<or> c = ''.'')" "c \<noteq> ''..''" "CHR 0x00 \<notin> set c"
      by (simp_all add: file_name_def plain_elem_def)
    have here: ?thesis if "q = cur @ [c]" "\<And>target. follow \<Longrightarrow> lookup t q \<noteq> Some (Link target)"
      using that 2(6,7) name by auto
    show ?thesis
    proof (cases "lookup t (cur @ [c])")
      case None
      with 2(5) here show ?thesis by (auto simp: walk_name [OF name] split: if_splits)
    next
      case (Some m)
      show ?thesis
      proof (cases m)
        case (File i)
        with Some 2(5) here show ?thesis by (auto simp: walk_name [OF name] split: if_splits)
      next
        case Fifo
        with Some 2(5) here show ?thesis by (auto simp: walk_name [OF name] split: if_splits)
      next
        case (Dir es)
        with Some 2(5) have "walk n t follow (cur @ [c]) cs = Inr q" by (simp add: walk_name [OF name])
        with 2(3) [OF nc Some Dir] Some Dir 2(7,8) name show ?thesis by simp
      next
        case (Link target)
        show ?thesis
        proof (cases "cs = [] \<and> \<not> follow")
          case True
          with Link Some 2(5) here show ?thesis by (simp add: walk_name [OF name])
        next
          case False
          with Link Some 2(5) have w: "n \<noteq> 0" "\<not> IsAbs target"
              "walk (n - 1) t follow cur (split_on (CHR ''/'') target @ cs) = Inr q"
            by (auto simp: walk_name [OF name] split: if_splits)
          have "\<forall>c \<in> set (split_on (CHR ''/'') target @ cs). CHR ''/'' \<notin> set c"
            using 2(8) by (auto simp: split_on_no_sep)
          with 2(4) [OF nc Some Link False w] 2(6,7) show ?thesis using w by blast
        qed
      qed
    qed
  qed
qed


lemma walk_dirs:
  assumes "list_all file_name ds" "lookup t (cur @ ds) = Some (Dir es)"
  shows "walk n t follow cur (ds @ cs) = walk n t follow (cur @ ds) cs"
  using assms
proof (induction ds arbitrary: cur)
  case (Cons d ds)
  obtain fs where "lookup t (cur @ [d]) = Some (Dir fs)"
    using Cons.prems(2) lookup_append [of t "cur @ [d]" ds] by (cases ds) (auto split: option.splits node.splits)
  with Cons show ?case by (simp add: walk_name)
qed simp

definition Lstat_at :: "nat \<Rightarrow> node \<Rightarrow> bool \<Rightarrow> string list \<Rightarrow> ferr + node" where
  \<comment> \<open>\<open>Lstat\<close>, or \<open>Stat\<close> when it follows\<close>
  "Lstat_at L t follow p =
     (case walk L t follow [] p of Inl e \<Rightarrow> Inl e
      | Inr q \<Rightarrow> (case lookup t q of None \<Rightarrow> Inl NotExist | Some n \<Rightarrow> Inr n))"

lemma Lstat_child:
  assumes "list_all file_name ds" "lookup t ds = Some (Dir es)" "file_name c"
  shows "Lstat_at L t False (ds @ [c]) = (case map_of es c of None \<Rightarrow> Inl NotExist | Some n \<Rightarrow> Inr n)"
proof -
  have "lookup t (ds @ [c]) = map_of es c" using assms(2) by (simp add: lookup_snoc)
  moreover have "walk L t False [] (ds @ [c]) = walk L t False ds [c]"
    using walk_dirs [OF assms(1), of t "[]" es] assms(2) by simp
  ultimately show ?thesis
    by (auto simp: Lstat_at_def walk_name [OF assms(3)] split: option.splits node.splits)
qed

subsection \<open>Names rewritten beforehand\<close>

datatype scan = Settled | Failed ferr | Replaced "string list"

definition link_elems :: "string \<Rightarrow> string list \<Rightarrow> string \<Rightarrow> string list option" where
  \<comment> \<open>where a link in the directory \<open>ds\<close> leads, when that is below the root\<close>
  "link_elems root ds target =
     (if IsAbs target then
        (case Rel root target of None \<Rightarrow> None | Some r \<Rightarrow> if IsLocal r then Some (elems r) else None)
      else (let r = clean_elems False (ds @ split_on (CHR ''/'') target) in
            if list_all plain_elem r then Some r else None))"

fun scan_name :: "nat \<Rightarrow> node \<Rightarrow> string \<Rightarrow> bool \<Rightarrow> string list \<Rightarrow> string list \<Rightarrow> scan" where
  "scan_name L t root deref ds [] = Settled"
| "scan_name L t root deref ds (c # cs) =
     (if \<not> deref \<and> cs = [] then Settled
      else case Lstat_at L t False (ds @ [c]) of
          Inl e \<Rightarrow> if e = NotExist then Settled else Failed e
        | Inr (Link target) \<Rightarrow>
            (case link_elems root ds target of
               None \<Rightarrow> Failed Refused | Some ts \<Rightarrow> Replaced (ts @ cs))
        | Inr _ \<Rightarrow> scan_name L t root deref (ds @ [c]) cs)"

fun resolve_rounds :: "nat \<Rightarrow> nat \<Rightarrow> node \<Rightarrow> string \<Rightarrow> bool \<Rightarrow> string list \<Rightarrow> ferr + string list" where
  "resolve_rounds 0 L t root deref p = Inl Refused"
| "resolve_rounds (Suc k) L t root deref p =
     (case scan_name L t root deref [] p of
        Settled \<Rightarrow> Inr p
      | Failed e \<Rightarrow> Inl e
      | Replaced p' \<Rightarrow> resolve_rounds k L t root deref p')"

definition Resolve :: "nat \<Rightarrow> node \<Rightarrow> string \<Rightarrow> bool \<Rightarrow> string list \<Rightarrow> ferr + string list" where
  "Resolve L t root deref p =
     (if \<not> list_all plain_elem p then Inl Refused else resolve_rounds 40 L t root deref p)"

text \<open>
  A name is settled when no element of it is a link, but for its last one where that is not
  followed. Every operation on a settled name acts on the entry at that very place.
\<close>

definition settled :: "node \<Rightarrow> bool \<Rightarrow> string list \<Rightarrow> bool" where
  "settled t deref p \<longleftrightarrow>
     (\<forall>k < length p. (deref \<or> k + 1 < length p) \<longrightarrow> (\<forall>target. lookup t (take (k + 1) p) \<noteq> Some (Link target)))"

lemma settledD:
  assumes "settled t deref (ds @ c # cs)" "deref \<or> cs \<noteq> []"
  shows "lookup t (ds @ [c]) \<noteq> Some (Link target)"
proof -
  have "length ds < length (ds @ c # cs)" "deref \<or> length ds + 1 < length (ds @ c # cs)"
    using assms(2) by auto
  then have "lookup t (take (length ds + 1) (ds @ c # cs)) \<noteq> Some (Link target)"
    using assms(1) unfolding settled_def by blast
  then show ?thesis by simp
qed

lemma walk_settled:
  assumes "settled t deref (cur @ cs)" "list_all plain_elem cs"
  shows "walk n t deref cur cs = walk 0 t deref cur cs
    \<and> (\<forall>q. walk n t deref cur cs = Inr q \<longrightarrow> q = cur @ cs)"
  using assms
proof (induction cs arbitrary: cur)
  case (Cons c cs)
  show ?case
  proof (cases "CHR 0x00 \<in> set c")
    case True
    with Cons.prems show ?thesis by (simp add: walk.simps(2) plain_elem_def)
  next
    case False
    with Cons.prems have c: "file_name c" by (simp add: file_name_def)
    have nl: "lookup t (cur @ [c]) \<noteq> Some (Link target)" if "deref \<or> cs \<noteq> []" for target
      using settledD [OF Cons.prems(1) that] .
    show ?thesis
    proof (cases "lookup t (cur @ [c])")
      case (Some m)
      with nl Cons.IH [of "cur @ [c]"] Cons.prems show ?thesis
        by (cases m) (auto simp: walk_name [OF c])
    qed (simp add: walk_name [OF c])
  qed
qed simp

lemma settled_snoc:
  "settled t True ds \<Longrightarrow> (\<And>target. lookup t (ds @ [c]) \<noteq> Some (Link target)) \<Longrightarrow> settled t True (ds @ [c])"
  by (auto simp: settled_def less_Suc_eq)

lemma settled_last: "settled t True ds \<Longrightarrow> settled t False (ds @ [c])"
  by (auto simp: settled_def less_Suc_eq)

lemma settled_missing:
  assumes "settled t True ds" "lookup t (ds @ [c]) = None"
  shows "settled t deref (ds @ c # cs)"
  unfolding settled_def
proof (intro allI impI)
  fix k target assume k: "k < length (ds @ c # cs)"
  show "lookup t (take (k + 1) (ds @ c # cs)) \<noteq> Some (Link target)"
  proof (cases "k < length ds")
    case True
    then show ?thesis using assms(1) by (auto simp: settled_def)
  next
    case False
    then obtain j where "k = length ds + j" using le_Suc_ex not_less by blast
    then have e: "take (k + 1) (ds @ c # cs) = (ds @ [c]) @ take j cs" by simp
    show ?thesis unfolding e lookup_append [of t "ds @ [c]"] assms(2) by simp
  qed
qed

lemma Lstat_not_dir:
  assumes "list_all file_name ds" "lookup t ds = Some m" "\<not> is_dir m" "\<And>target. m \<noteq> Link target" "is_dir t"
  shows "Lstat_at L t False (ds @ [c]) = Inl NotDir"
proof -
  obtain bs b where ds: "ds = bs @ [b]"
    using assms(2,3,5) by (cases ds rule: rev_cases) auto
  then obtain es where b: "lookup t bs = Some (Dir es)"
    using assms(2) lookup_prefix_dir by blast
  have "walk L t False [] ((bs @ [b]) @ [c]) = walk L t False bs [b, c]"
    using walk_dirs [of bs t "[]" es L False "[b, c]"] assms(1) b ds by simp
  moreover have "walk L t False bs [b, c] = Inl NotDir"
    using assms ds by (cases m) (auto simp: walk_name)
  ultimately show ?thesis by (simp add: Lstat_at_def ds)
qed

lemma Lstat_nul: "plain_elem c \<Longrightarrow> \<not> file_name c \<Longrightarrow> list_all file_name ds \<Longrightarrow> lookup t ds = Some (Dir es)
    \<Longrightarrow> Lstat_at L t False (ds @ [c]) = Inl Other_error"
  using walk_dirs [of ds t "[]" es L False "[c]"]
  by (auto simp: Lstat_at_def walk.simps(2) file_name_def plain_elem_def)

text \<open>What one look at the next element can find.\<close>

lemma Lstat_cases:
  assumes "list_all file_name ds" "lookup t ds = Some m" "\<And>target. m \<noteq> Link target" "is_dir t" "plain_elem c"
  obtains (missing) "Lstat_at L t False (ds @ [c]) = Inl NotExist" "lookup t (ds @ [c]) = None" "is_dir m" "file_name c"
  | (bad) e where "Lstat_at L t False (ds @ [c]) = Inl e" "e \<noteq> NotExist"
  | (found) n where "Lstat_at L t False (ds @ [c]) = Inr n" "lookup t (ds @ [c]) = Some n" "is_dir m" "file_name c"
proof (cases "is_dir m")
  case True
  then obtain es where m: "m = Dir es" by (cases m) auto
  show thesis
  proof (cases "file_name c")
    case True
    with Lstat_child [OF assms(1) _ True, of t es L] assms(2) m lookup_snoc [of t ds c] missing found
    show thesis by (auto split: option.splits)
  next
    case False
    with Lstat_nul [OF assms(5) False assms(1)] assms(2) m bad show thesis by blast
  qed
next
  case False
  with Lstat_not_dir [OF assms(1,2) False assms(3,4)] bad show thesis by blast
qed

lemma scan_settled:
  assumes "scan_name L t root deref ds cs = Settled"
    and "list_all file_name ds" "lookup t ds = Some m" "\<And>target. m \<noteq> Link target" "is_dir t"
    and "list_all plain_elem cs" "settled t True ds"
  shows "settled t deref (ds @ cs)"
  using assms
proof (induction cs arbitrary: ds m)
  case Nil
  then show ?case by (simp add: settled_def)
next
  case (Cons c cs)
  show ?case
  proof (cases "\<not> deref \<and> cs = []")
    case True
    with Cons.prems settled_last show ?thesis by simp
  next
    case False
    have pc: "plain_elem c" using Cons.prems by simp
    from Cons.prems(2-5) pc show ?thesis
    proof (cases rule: Lstat_cases [where L = L])
      case missing
      with Cons.prems settled_missing show ?thesis by blast
    next
      case (bad e)
      with Cons.prems(1) show ?thesis unfolding scan_name.simps if_not_P [OF False] by simp
    next
      case (found n)
      have nl: "n \<noteq> Link target" for target
        using found(1) Cons.prems(1) unfolding scan_name.simps if_not_P [OF False] by (auto split: option.splits)
      have "scan_name L t root deref (ds @ [c]) cs = Settled"
        using found(1) Cons.prems(1) nl unfolding scan_name.simps if_not_P [OF False]
        by (cases n) (auto split: option.splits)
      from Cons.IH [OF this _ found(2) nl] Cons.prems found settled_snoc [of t ds c] nl
      show ?thesis by simp
    qed
  qed
qed

lemma scan_replaced:
  assumes "scan_name L t root deref ds cs = Replaced p'"
    and "list_all file_name ds" "lookup t ds = Some m" "\<And>target. m \<noteq> Link target" "is_dir t"
    and "list_all plain_elem cs"
  obtains bs b as target es ts where "cs = bs @ b # as" "list_all file_name (ds @ bs)" "lookup t (ds @ bs) = Some (Dir es)"
    "lookup t (ds @ bs @ [b]) = Some (Link target)" "link_elems root (ds @ bs) target = Some ts" "p' = ts @ as"
    "file_name b" "deref \<or> as \<noteq> []"
proof -
  have "\<exists>bs b as target es ts. cs = bs @ b # as \<and> list_all file_name (ds @ bs) \<and> lookup t (ds @ bs) = Some (Dir es) \<and>
    lookup t (ds @ bs @ [b]) = Some (Link target) \<and> link_elems root (ds @ bs) target = Some ts \<and> p' = ts @ as
    \<and> file_name b \<and> (deref \<or> as \<noteq> [])"
    using assms
  proof (induction cs arbitrary: ds m)
    case (Cons c cs)
    have fin: "\<not> (\<not> deref \<and> cs = [])" using Cons.prems(1) by auto
    have pc: "plain_elem c" using Cons.prems by simp
    from Cons.prems(2-5) pc show ?case
    proof (cases rule: Lstat_cases [where L = L])
      case missing
      with Cons.prems(1) show ?thesis unfolding scan_name.simps if_not_P [OF fin] by simp
    next
      case (bad e)
      with Cons.prems(1) show ?thesis unfolding scan_name.simps if_not_P [OF fin] by simp
    next
      case (found n)
      show ?thesis
      proof (cases "\<exists>target. n = Link target")
        case True
        then obtain target where n: "n = Link target" by blast
        with found(1) Cons.prems(1) obtain ts where ts: "link_elems root ds target = Some ts" "p' = ts @ cs"
          unfolding scan_name.simps if_not_P [OF fin] by (auto split: option.splits)
        obtain es where "m = Dir es" using found(3) by (cases m) auto
        then have "c # cs = [] @ c # cs \<and> list_all file_name (ds @ []) \<and> lookup t (ds @ []) = Some (Dir es) \<and>
            lookup t (ds @ [] @ [c]) = Some (Link target) \<and> link_elems root (ds @ []) target = Some ts \<and> p' = ts @ cs
            \<and> file_name c \<and> (deref \<or> cs \<noteq> [])"
          using Cons.prems ts found n fin by auto
        then show ?thesis by blast
      next
        case False
        then have "scan_name L t root deref (ds @ [c]) cs = Replaced p'"
          using found(1) Cons.prems(1) unfolding scan_name.simps if_not_P [OF fin] by (cases n) simp_all
        then have "\<exists>bs b as target es ts. cs = bs @ b # as \<and> list_all file_name ((ds @ [c]) @ bs) \<and>
            lookup t ((ds @ [c]) @ bs) = Some (Dir es) \<and> lookup t ((ds @ [c]) @ bs @ [b]) = Some (Link target)
            \<and> link_elems root ((ds @ [c]) @ bs) target = Some ts \<and> p' = ts @ as \<and> file_name b \<and> (deref \<or> as \<noteq> [])"
          by (rule Cons.IH [OF _ _ found(2) _ Cons.prems(5)]) (use False Cons.prems found in auto)
        then obtain bs b as target es ts where "cs = bs @ b # as \<and> list_all file_name ((ds @ [c]) @ bs) \<and>
            lookup t ((ds @ [c]) @ bs) = Some (Dir es) \<and> lookup t ((ds @ [c]) @ bs @ [b]) = Some (Link target)
            \<and> link_elems root ((ds @ [c]) @ bs) target = Some ts \<and> p' = ts @ as \<and> file_name b \<and> (deref \<or> as \<noteq> [])"
          by blast
        then have "c # cs = (c # bs) @ b # as \<and> list_all file_name (ds @ c # bs) \<and>
            lookup t (ds @ c # bs) = Some (Dir es) \<and> lookup t (ds @ (c # bs) @ [b]) = Some (Link target)
            \<and> link_elems root (ds @ c # bs) target = Some ts \<and> p' = ts @ as \<and> file_name b \<and> (deref \<or> as \<noteq> [])"
          by simp
        then show ?thesis by blast
      qed
    qed
  qed simp
  then show thesis using that by blast
qed


lemma scan_replaced_top:
  assumes "scan_name L t root deref [] p = Replaced q" "is_dir t" "list_all plain_elem p"
  obtains bs b as target es ts where "p = bs @ b # as" "list_all file_name bs" "lookup t bs = Some (Dir es)"
    "lookup t (bs @ [b]) = Some (Link target)" "link_elems root bs target = Some ts" "q = ts @ as"
    "file_name b" "deref \<or> as \<noteq> []"
proof -
  have t: "list_all file_name []" "lookup t [] = Some t" "\<And>target. t \<noteq> Link target"
    using assms(2) by auto
  show thesis
    by (rule scan_replaced [OF assms(1) t assms(2,3)]) (rule that, simp_all)
qed

lemma link_elems_plain:
  assumes "link_elems root ds target = Some ts" shows "list_all plain_elem ts"
proof (cases "IsAbs target")
  case True
  then obtain r where r: "IsLocal r" "ts = elems r"
    using assms by (auto simp: link_elems_def split: option.splits if_splits)
  then have "r \<noteq> []" "\<not> IsAbs r" by (auto simp: IsLocal_def split: if_splits)
  with r IsLocal_iff show ?thesis by blast
next
  case False
  with assms show ?thesis by (simp add: link_elems_def Let_def split: if_splits)
qed

lemma resolve_rounds_ok:
  assumes "resolve_rounds k L t root deref p = Inr p'" "is_dir t" "list_all plain_elem p"
  shows "list_all plain_elem p' \<and> settled t deref p'"
  using assms
proof (induction k L t root deref p rule: resolve_rounds.induct)
  case (2 k L t root deref p)
  have t: "lookup t [] = Some t" "\<And>target. t \<noteq> Link target" "settled t True []"
    using 2(3) by (auto simp: settled_def)
  show ?case
  proof (cases "scan_name L t root deref [] p")
    case Settled
    with scan_settled [OF Settled _ t(1,2) 2(3,4) t(3)] 2 show ?thesis by simp
  next
    case (Failed e)
    with 2 show ?thesis by simp
  next
    case (Replaced q)
    then obtain bs b as target ts where "p = bs @ b # as" "link_elems root bs target = Some ts" "q = ts @ as"
      using scan_replaced_top [OF Replaced 2(3,4)] by metis
    then have "list_all plain_elem q" using link_elems_plain 2(4) by auto
    with 2 Replaced show ?thesis by simp
  qed
qed simp

lemma Resolve_settles:
  assumes "is_dir t" and "Resolve L t root deref p = Inr p'"
  shows "list_all plain_elem p' \<and> settled t deref p'"
  using assms resolve_rounds_ok by (auto simp: Resolve_def split: if_splits)

text \<open>
  Where links are relative and go up only at their start, the rewritten name leads where the
  standard library's own resolution of the name the client gave would have led.
\<close>

fun link_targets :: "node \<Rightarrow> string list" where
  "link_targets (Link target) = [target]"
| "link_targets (Dir es) = concat (map (\<lambda>(c, n). link_targets n) es)"
| "link_targets n = []"

definition normal_target :: "string \<Rightarrow> bool" where
  "normal_target target = list_all plain_elem (dropWhile (\<lambda>c. c = ''..'') (split_on (CHR ''/'') target))"

lemma lookup_links: "lookup t p = Some n \<Longrightarrow> set (link_targets n) \<subseteq> set (link_targets t)"
proof (induction t p rule: lookup.induct)
  case (2 t c cs)
  then obtain es m where m: "t = Dir es" "map_of es c = Some m" "lookup m cs = Some n"
    by (auto split: node.splits option.splits)
  then have "set (link_targets n) \<subseteq> set (link_targets m)" using 2(1) by blast
  also have "\<dots> \<subseteq> set (link_targets t)" using m map_of_SomeD [OF m(2)] by auto
  finally show ?case .
qed simp

lemma normal_split:
  assumes "normal_target target"
  obtains j ns where "split_on (CHR ''/'') target = dots j @ ns" "list_all plain_elem ns" "\<not> IsAbs target"
proof -
  let ?cs = "split_on (CHR ''/'') target"
  have "takeWhile (\<lambda>c. c = ''..'') ?cs = dots (length (takeWhile (\<lambda>c. c = ''..'') ?cs))"
    unfolding dots_def by (intro replicate_eqI) (auto dest: set_takeWhileD)
  then have s: "?cs = dots (length (takeWhile (\<lambda>c. c = ''..'') ?cs)) @ dropWhile (\<lambda>c. c = ''..'') ?cs"
    by (metis takeWhile_dropWhile_id)
  have "\<not> IsAbs target"
    using assms by (cases target) (auto simp: IsAbs_def normal_target_def plain_elem_def)
  with s assms that show thesis by (simp add: normal_target_def)
qed

lemma clean_up:
  assumes "list_all plain_elem bs" "list_all plain_elem ns" "list_all plain_elem (clean_elems False (bs @ dots j @ ns))"
  shows "j \<le> length bs \<and> clean_elems False (bs @ dots j @ ns) = take (length bs - j) bs @ ns"
proof -
  have e: "clean_elems False (bs @ dots j @ ns) = clean_elems False (bs @ dots j) @ ns"
    using clean_append_plain [OF assms(2), of False "bs @ dots j"] by simp
  show ?thesis
  proof (cases "j \<le> length bs")
    case True
    let ?ps = "take (length bs - j) bs" and ?qs = "drop (length bs - j) bs"
    have "clean_elems False ((?ps @ ?qs) @ dots (length ?qs) @ []) = clean_elems False (?ps @ [])"
      by (rule clean_up_down) (use assms(1) in simp)
    moreover have "list_all plain_elem ?ps"
      using assms(1) by (auto simp: list_all_iff dest: in_set_takeD)
    ultimately have "clean_elems False (bs @ dots j) = ?ps" using True by simp
    with e True show ?thesis by simp
  next
    case False
    then obtain i where j: "j = length bs + Suc i" by (metis add_Suc_right less_iff_Suc_add not_le)
    have "dots j = dots (length bs) @ dots (Suc i)" unfolding dots_def j by (rule replicate_add)
    then have "clean_elems False (bs @ dots j) = dots (Suc i)"
      using foldl_push_up [of bs False "[]"] foldl_push_dots [of "Suc i"] assms(1)
      by (simp add: clean_elems_def foldl_push_plain del: dots_simps)
    with e assms(3) show ?thesis by (simp add: plain_elem_def)
  qed
qed

lemma walk_dots: "j \<le> length cur \<Longrightarrow> walk n t follow cur (dots j @ cs) = walk n t follow (take (length cur - j) cur) cs"
proof (induction j arbitrary: cur)
  case (Suc j)
  then obtain c ds where "cur = ds @ [c]" by (cases cur rule: rev_cases) auto
  with Suc show ?case by (simp add: walk_up)
qed simp

lemma lookup_take_dir:
  "lookup t ds = Some (Dir es) \<Longrightarrow> \<exists>fs. lookup t (take k ds) = Some (Dir fs)"
proof (cases "k < length ds")
  case True
  assume "lookup t ds = Some (Dir es)"
  then show ?thesis
    using lookup_prefix_dir [of t "take k ds" "ds ! k" "drop (Suc k) ds"] True by (simp add: id_take_nth_drop [symmetric])
qed auto

lemma resolve_rounds_agrees:
  assumes "resolve_rounds k L t root deref p = Inr p'" "is_dir t" "list_all plain_elem p"
    and "list_all normal_target (link_targets t)" "k \<le> n"
  shows "walk n t deref [] p = walk 0 t deref [] p'"
  using assms
proof (induction k L t root deref p arbitrary: n rule: resolve_rounds.induct)
  case (2 k L t root deref p)
  have t: "lookup t [] = Some t" "\<And>target. t \<noteq> Link target" "settled t True []"
    using 2(3) by (auto simp: settled_def)
  show ?case
  proof (cases "scan_name L t root deref [] p")
    case Settled
    with scan_settled [OF Settled _ t(1,2) 2(3,4) t(3)] 2 show ?thesis
      using walk_settled [of t deref "[]" p n] by simp
  next
    case (Failed e)
    with 2 show ?thesis by simp
  next
    case (Replaced q)
    obtain m where n: "n = Suc m" "k \<le> m" using 2(6) by (cases n) auto
    obtain bs b as target es ts where r: "p = bs @ b # as" "list_all file_name bs" "lookup t bs = Some (Dir es)"
        "lookup t (bs @ [b]) = Some (Link target)" "link_elems root bs target = Some ts" "q = ts @ as"
        "file_name b" "deref \<or> as \<noteq> []"
      by (rule scan_replaced_top [OF Replaced 2(3,4)])
    have "normal_target target" using lookup_links [OF r(4)] 2(5) by (simp add: list_all_iff)
    then obtain j ns where s: "split_on (CHR ''/'') target = dots j @ ns" "list_all plain_elem ns" "\<not> IsAbs target"
      by (rule normal_split)
    have bp: "list_all plain_elem bs" using 2(4) r(1) by simp
    have ts: "ts = clean_elems False (bs @ dots j @ ns)" "list_all plain_elem ts"
      using r(5) s by (auto simp: link_elems_def Let_def split: if_splits)
    note cu = clean_up [OF bp s(2), of j, folded ts(1), OF ts(2)]
    let ?us = "take (length bs - j) bs"
    obtain fs where us: "lookup t ?us = Some (Dir fs)" using lookup_take_dir [OF r(3)] by blast
    have uf: "list_all file_name ?us" using r(2) by (auto simp: list_all_iff dest: in_set_takeD)
    have "walk n t deref [] p = walk n t deref bs (b # as)"
      using walk_dirs [of bs t "[]" es n deref "b # as"] r by simp
    also have "\<dots> = walk m t deref bs (dots j @ ns @ as)"
      using r(4,8) s n(1) by (auto simp: walk_name [OF r(7)])
    also have "\<dots> = walk m t deref ?us (ns @ as)"
      using walk_dots cu by blast
    also have "\<dots> = walk m t deref [] q"
      using walk_dirs [of ?us t "[]" fs m deref "ns @ as"] uf us cu r(6) by simp
    finally have "walk n t deref [] p = walk m t deref [] q" .
    moreover have "list_all plain_elem q" using ts(2) r(1,6) 2(4) by simp
    ultimately show ?thesis
      using "2.IH" [OF Replaced, of m] 2 Replaced n(2) by simp
  qed
qed simp


definition neat_tree :: node where
  "neat_tree = Dir [(''b'', Dir [(''x'', File 0), (''y'', Link ''../x'')]), (''x'', File 1), (''n'', Link ''b/y'')]"


text \<open>
  A link that goes up after a name is cleaned as text: where that name is itself a link, the
  directory above what it names is not the one above it, and the helper acts on another file than
  the kernel, or a game, would.
\<close>

definition linked_tree :: node where
  "linked_tree = Dir [(''a'', Link ''b/c''), (''b'', Dir [(''c'', Dir []), (''x'', File 0)]), (''x'', File 1),
     (''l'', Link ''a/../x'')]"

text \<open>A link whose target goes up after another link is resolved to a file it does not name.\<close>

theorem Resolve_goes_up_too_early:
  "Resolve 40 linked_tree ''/data'' True [''l''] = Inr [''x''] \<and> walk 40 linked_tree True [] [''l''] = Inr [''b'', ''x'']
   \<and> lookup linked_tree [''x''] = Some (File 1) \<and> lookup linked_tree [''b'', ''x''] = Some (File 0)"
  by code_simp

end
