(* ===== verification/Volume_Ops.thy ===== *)
theory Volume_Ops imports Root_Fs begin

text \<open>
  The operations of \<open>os.Root\<close> and of the kernel that the helper uses, on the tree of the
  volume. An operation takes the volume and returns it with an error or a value; one that fails
  midway leaves what it did. \<open>L\<close> is how many links one name may lead through. A file that
  is open is its inode. No operation fails for want of permission or of space.
\<close>

type_synonym 'a fop = "fsys \<Rightarrow> fsys \<times> (ferr + 'a)"

definition ret :: "'a \<Rightarrow> 'a fop" where
  "ret x s = (s, Inr x)"

definition fail :: "ferr \<Rightarrow> 'a fop" where
  "fail e s = (s, Inl e)"

definition on_result :: "'a fop \<Rightarrow> (ferr + 'a \<Rightarrow> 'b fop) \<Rightarrow> 'b fop" where
  "on_result m f s = (case m s of (s', r) \<Rightarrow> f r s')"

definition andthen :: "'a fop \<Rightarrow> ('a \<Rightarrow> 'b fop) \<Rightarrow> 'b fop" where
  "andthen m f s = (case m s of (s', Inl e) \<Rightarrow> (s', Inl e) | (s', Inr x) \<Rightarrow> f x s')"

definition finally_do :: "'a fop \<Rightarrow> unit fop \<Rightarrow> 'a fop" where
  \<comment> \<open>a deferred call whose error is dropped\<close>
  "finally_do m h s = (case m s of (s', r) \<Rightarrow> (fst (h s'), r))"

fun for_all :: "'a list \<Rightarrow> ('a \<Rightarrow> unit fop) \<Rightarrow> unit fop" where
  "for_all [] f = ret ()"
| "for_all (x # xs) f = andthen (f x) (\<lambda>_. for_all xs f)"

definition ret_result :: "ferr + 'a \<Rightarrow> 'a fop" where
  "ret_result r s = (s, r)"

definition state_of :: "fsys fop" where
  "state_of s = (s, Inr s)"

subsection \<open>The kernel, at a place\<close>

definition get_at :: "fsys \<Rightarrow> place \<Rightarrow> node option" where
  "get_at s q = lookup (fs_tree s) q"

definition put_at :: "place \<Rightarrow> node option \<Rightarrow> fsys \<Rightarrow> fsys" where
  "put_at q x s = s\<lparr>fs_tree := alter q (\<lambda>_. x) (fs_tree s)\<rparr>"

definition new_file :: "place \<Rightarrow> string \<Rightarrow> nat fop" where
  "new_file q d s =
     (put_at q (Some (File (fs_next s)))
        (s\<lparr>fs_blob := (fs_blob s)(fs_next s := d), fs_next := Suc (fs_next s)\<rparr>), Inr (fs_next s))"

definition write_fd :: "nat \<Rightarrow> string \<Rightarrow> unit fop" where
  "write_fd i d s = (s\<lparr>fs_blob := (fs_blob s)(i := d)\<rparr>, Inr ())"

definition read_fd :: "nat \<Rightarrow> string fop" where
  "read_fd i s = (s, Inr (fs_blob s i))"

definition create_at :: "place \<Rightarrow> node \<Rightarrow> unit fop" where
  \<comment> \<open>\<open>mkdirat\<close>, \<open>symlinkat\<close>, \<open>linkat\<close>: the name must be free\<close>
  "create_at q n s = (if get_at s q \<noteq> None then (s, Inl Exists) else (put_at q (Some n) s, Inr ()))"

definition create_excl_at :: "place \<Rightarrow> nat fop" where
  \<comment> \<open>\<open>openat\<close> with \<open>O_CREAT | O_EXCL\<close>\<close>
  "create_excl_at q s = (if get_at s q \<noteq> None then (s, Inl Exists) else new_file q [] s)"

definition unlink_at :: "place \<Rightarrow> unit fop" where
  "unlink_at q s =
     (case get_at s q of
        None \<Rightarrow> (s, Inl NotExist)
      | Some (Dir (e # es)) \<Rightarrow> (s, Inl Other_error)
      | Some _ \<Rightarrow> if q = [] then (s, Inl Other_error) else (put_at q None s, Inr ()))"

definition move_entry :: "place \<Rightarrow> place \<Rightarrow> node \<Rightarrow> fsys \<Rightarrow> fsys" where
  "move_entry q q' n s = put_at q' (Some n) (put_at q None s)"

definition rename_at :: "place \<Rightarrow> place \<Rightarrow> unit fop" where
  "rename_at q q' s =
     (case get_at s q of
        None \<Rightarrow> (s, Inl NotExist)
      | Some n \<Rightarrow>
          if q = [] \<or> q' = [] \<or> strict_prefix q q' then (s, Inl Other_error)
          else if q = q' then (s, Inr ())
          else case get_at s q' of
              None \<Rightarrow> (move_entry q q' n s, Inr ())
            | Some (Dir es) \<Rightarrow>
                if \<not> is_dir n then (s, Inl IsDirectory)
                else if es \<noteq> [] then (s, Inl Other_error)
                else (move_entry q q' n s, Inr ())
            | Some m \<Rightarrow>
                if is_dir n then (s, Inl NotDir)
                else if is_file n \<and> m = n then (s, Inr ())
                else (move_entry q q' n s, Inr ()))"

definition rename_noreplace_at :: "place \<Rightarrow> place \<Rightarrow> unit fop" where
  "rename_noreplace_at q q' s =
     (case get_at s q of
        None \<Rightarrow> (s, Inl NotExist)
      | Some n \<Rightarrow>
          if get_at s q' \<noteq> None then (s, Inl Exists)
          else if q = [] \<or> strict_prefix q q' then (s, Inl Other_error)
          else (move_entry q q' n s, Inr ()))"

subsection \<open>The operations of \<open>os.Root\<close>\<close>

definition at_name :: "nat \<Rightarrow> bool \<Rightarrow> string list \<Rightarrow> place fop" where
  "at_name L follow p s = (s, walk L (fs_tree s) follow [] p)"

definition Lstat :: "nat \<Rightarrow> string list \<Rightarrow> node fop" where
  "Lstat L p s = (s, Lstat_at L (fs_tree s) False p)"

definition Stat :: "nat \<Rightarrow> string list \<Rightarrow> node fop" where
  "Stat L p s = (s, Lstat_at L (fs_tree s) True p)"

definition root_Mkdir :: "nat \<Rightarrow> string list \<Rightarrow> unit fop" where
  "root_Mkdir L p = andthen (at_name L False p) (\<lambda>q. create_at q (Dir []))"

definition root_Symlink :: "nat \<Rightarrow> string \<Rightarrow> string list \<Rightarrow> unit fop" where
  "root_Symlink L target p =
     (if target = [] then fail NotExist else andthen (at_name L False p) (\<lambda>q. create_at q (Link target)))"

definition root_Link :: "nat \<Rightarrow> string list \<Rightarrow> string list \<Rightarrow> unit fop" where
  "root_Link L p p' =
     andthen (at_name L False p) (\<lambda>q. andthen (at_name L False p') (\<lambda>q' s.
       case get_at s q of
         None \<Rightarrow> (s, Inl NotExist)
       | Some (Dir es) \<Rightarrow> (s, Inl Other_error)
       | Some n \<Rightarrow> create_at q' n s))"

definition root_Remove :: "nat \<Rightarrow> string list \<Rightarrow> unit fop" where
  "root_Remove L p = andthen (at_name L False p) unlink_at"

definition root_RemoveAll :: "nat \<Rightarrow> string list \<Rightarrow> unit fop" where
  "root_RemoveAll L p =
     (if p = [] then fail Other_error
      else on_result (at_name L False p)
        (\<lambda>r. case r of Inl e \<Rightarrow> if e = NotExist then ret () else fail e
            | Inr q \<Rightarrow> (\<lambda>s. (put_at q None s, Inr ()))))"

definition root_Rename :: "nat \<Rightarrow> string list \<Rightarrow> string list \<Rightarrow> unit fop" where
  "root_Rename L p p' =
     andthen (at_name L False p) (\<lambda>q. andthen (at_name L False p') (\<lambda>q'. rename_at q q'))"

definition open_dir :: "nat \<Rightarrow> string list \<Rightarrow> place fop" where
  \<comment> \<open>\<open>OpenRoot\<close>, or \<open>OpenFile\<close> with \<open>O_DIRECTORY\<close>\<close>
  "open_dir L p =
     andthen (at_name L True p) (\<lambda>q s.
       case get_at s q of
         None \<Rightarrow> (s, Inl NotExist)
       | Some (Dir es) \<Rightarrow> (s, Inr q)
       | Some _ \<Rightarrow> (s, Inl NotDir))"

definition open_read :: "nat \<Rightarrow> string list \<Rightarrow> nat fop" where
  \<comment> \<open>\<open>regular\<close> of the helper with \<open>O_RDONLY\<close>\<close>
  "open_read L p =
     andthen (at_name L True p) (\<lambda>q s.
       case get_at s q of
         None \<Rightarrow> (s, Inl NotExist)
       | Some (File i) \<Rightarrow> (s, Inr i)
       | Some _ \<Rightarrow> (s, Inl Refused))"

definition open_append :: "nat \<Rightarrow> string list \<Rightarrow> nat fop" where
  \<comment> \<open>\<open>regular\<close> with \<open>O_WRONLY | O_CREATE | O_APPEND\<close>\<close>
  "open_append L p =
     andthen (at_name L True p) (\<lambda>q s.
       case get_at s q of
         None \<Rightarrow> new_file q [] s
       | Some (File i) \<Rightarrow> (s, Inr i)
       | Some (Dir es) \<Rightarrow> (s, Inl IsDirectory)
       | Some _ \<Rightarrow> (s, Inl Other_error))"

function mkwalk :: "nat \<Rightarrow> place \<Rightarrow> string list \<Rightarrow> node \<Rightarrow> node \<times> ferr option" where
  \<comment> \<open>the resolution of \<open>MkdirAll\<close>, which makes the directories that are missing\<close>
  "mkwalk n cur [] t = (t, None)"
| "mkwalk n cur (c # cs) t =
     (if c = [] \<or> c = ''.'' then mkwalk n cur cs t
      else if c = ''..'' then (if cur = [] then (t, Some Escapes) else mkwalk n (butlast cur) cs t)
      else if CHR 0x00 \<in> set c then (t, Some Other_error)
      else case lookup t (cur @ [c]) of
          None \<Rightarrow> mkwalk n (cur @ [c]) cs (alter (cur @ [c]) (\<lambda>_. Some (Dir [])) t)
        | Some (Dir es) \<Rightarrow> mkwalk n (cur @ [c]) cs t
        | Some (Link target) \<Rightarrow>
            if cs = [] then
              (t, case Lstat_at n t True (cur @ [c]) of Inr (Dir es) \<Rightarrow> None | _ \<Rightarrow> Some NotDir)
            else if n = 0 then (t, Some TooManyLinks)
            else if IsAbs target then (t, Some Escapes)
            else mkwalk (n - 1) cur (split_on (CHR ''/'') target @ cs) t
        | Some _ \<Rightarrow> (t, Some NotDir))"
  by pat_completeness auto
termination
  by (relation "measures [\<lambda>(n, cur, todo, t). n, \<lambda>(n, cur, todo, t). length todo]") auto

declare mkwalk.simps(2) [simp del]

definition root_MkdirAll :: "nat \<Rightarrow> string list \<Rightarrow> unit fop" where
  "root_MkdirAll L p s =
     (case mkwalk L [] p (fs_tree s) of (t, e) \<Rightarrow>
        (s\<lparr>fs_tree := t\<rparr>, case e of None \<Rightarrow> Inr () | Some e \<Rightarrow> Inl e))"

subsection \<open>Every operation keeps the volume well-formed\<close>

definition keeps :: "'a fop \<Rightarrow> ('a \<Rightarrow> bool) \<Rightarrow> bool" where
  \<comment> \<open>and a result has the property given\<close>
  "keeps m Q = (\<forall>s. wf_fs s \<longrightarrow> (wf_fs (fst (m s)) \<and> (\<forall>x. snd (m s) = Inr x \<longrightarrow> Q x)))"

named_theorems keeps_rules "operations that keep the volume well-formed"

abbreviation anyhow :: "'a \<Rightarrow> bool" where "anyhow \<equiv> \<lambda>_. True"

lemma keepsI:
  "(\<And>s s' r. wf_fs s \<Longrightarrow> m s = (s', r) \<Longrightarrow> wf_fs s' \<and> (\<forall>x. r = Inr x \<longrightarrow> Q x)) \<Longrightarrow> keeps m Q"
  unfolding keeps_def by (metis prod.collapse)

lemma keeps_volumeD:
  assumes "keeps m Q" "wf_fs s" "m s = (s', r)"
  shows "wf_fs s'" "\<And>x. r = Inr x \<Longrightarrow> Q x"
  using assms unfolding keeps_def by (metis fst_conv snd_conv)+

lemma keeps_weaken: "keeps m Q \<Longrightarrow> (\<And>x. Q x \<Longrightarrow> R x) \<Longrightarrow> keeps m R"
  by (auto simp: keeps_def)

lemma keeps_ret: "Q x \<Longrightarrow> keeps (ret x) Q"
  by (simp add: keeps_def ret_def)

lemma keeps_ret_unit [keeps_rules]: "keeps (ret x) anyhow" and keeps_fail [keeps_rules]: "keeps (fail e) Q"
  by (simp_all add: keeps_def ret_def fail_def)

lemma keeps_andthen:
  assumes "keeps m Q" "\<And>x. Q x \<Longrightarrow> keeps (f x) R" shows "keeps (andthen m f) R"
proof (rule keepsI)
  fix s s' r assume s: "wf_fs s" "andthen m f s = (s', r)"
  obtain u y where u: "m s = (u, y)" by force
  note m = keeps_volumeD [OF assms(1) s(1) u]
  show "wf_fs s' \<and> (\<forall>x. r = Inr x \<longrightarrow> R x)"
  proof (cases y)
    case (Inl e)
    with s u m show ?thesis by (auto simp: andthen_def)
  next
    case (Inr x)
    then have "f x u = (s', r)" using s(2) u by (simp add: andthen_def)
    with keeps_volumeD [OF assms(2) [OF m(2) [OF Inr]] m(1)] show ?thesis by auto
  qed
qed

lemma keeps_andthen_any [keeps_rules]:
  "keeps m anyhow \<Longrightarrow> (\<And>x. keeps (f x) R) \<Longrightarrow> keeps (andthen m f) R"
  by (rule keeps_andthen)

lemma keeps_on_result:
  assumes "keeps m Q" "\<And>e. keeps (f (Inl e)) R" "\<And>x. Q x \<Longrightarrow> keeps (f (Inr x)) R"
  shows "keeps (on_result m f) R"
proof (rule keepsI)
  fix s s' r assume s: "wf_fs s" "on_result m f s = (s', r)"
  obtain u y where u: "m s = (u, y)" by force
  note m = keeps_volumeD [OF assms(1) s(1) u]
  have "f y u = (s', r)" using s(2) u by (simp add: on_result_def)
  moreover have "keeps (f y) R" using assms(2,3) m(2) by (cases y) auto
  ultimately show "wf_fs s' \<and> (\<forall>x. r = Inr x \<longrightarrow> R x)"
    using keeps_volumeD [of "f y" R u s' r] m(1) by blast
qed

lemma keeps_on_result_any [keeps_rules]:
  "keeps m anyhow \<Longrightarrow> (\<And>r. keeps (f r) R) \<Longrightarrow> keeps (on_result m f) R"
  by (rule keeps_on_result) auto

lemma keeps_finally:
  assumes "keeps m Q" "keeps h anyhow" shows "keeps (finally_do m h) Q"
  using assms by (auto simp: keeps_def finally_do_def split: prod.splits)

lemma keeps_for_all: "(\<And>x. x \<in> set xs \<Longrightarrow> keeps (f x) anyhow) \<Longrightarrow> keeps (for_all xs f) anyhow"
  by (induction xs) (auto intro!: keeps_rules)

lemma keeps_if [keeps_rules]: "(b \<Longrightarrow> keeps m Q) \<Longrightarrow> (\<not> b \<Longrightarrow> keeps m' Q) \<Longrightarrow> keeps (if b then m else m') Q"
  by simp

lemma wf_put:
  assumes "wf_fs s" "q \<noteq> [] \<Longrightarrow> file_name (last q)"
    "\<And>n. x = Some n \<Longrightarrow> wf_tree n \<and> inodes n \<subseteq> {..<fs_next s}"
  shows "wf_fs (put_at q x s)"
proof -
  let ?t = "alter q (\<lambda>_. x) (fs_tree s)"
  have q: "q = [] \<or> file_name (last q)" using assms(2) by blast
  then have "wf_tree ?t"
  proof
    assume "q = []" then show ?thesis using assms(1) by (simp add: wf_fs_def)
  next
    assume "file_name (last q)"
    with assms show ?thesis by (intro wf_alter) (auto simp: wf_fs_def)
  qed
  moreover have "inodes ?t \<subseteq> {..<fs_next s}"
    using assms by (intro inodes_alter) (auto simp: wf_fs_def)
  ultimately show ?thesis using assms(1) by (auto simp: wf_fs_def put_at_def)
qed

lemma wf_get:
  assumes "wf_fs s" "get_at s q = Some n" shows "wf_tree n \<and> inodes n \<subseteq> {..<fs_next s}"
  using assms wf_lookup inodes_lookup by (fastforce simp: wf_fs_def get_at_def)

lemma next_put [simp]: "fs_next (put_at q x s) = fs_next s"
  by (simp add: put_at_def)

lemma wf_move: "wf_fs s \<Longrightarrow> get_at s q = Some n \<Longrightarrow> file_name (last q) \<Longrightarrow> file_name (last q') \<Longrightarrow> wf_fs (move_entry q q' n s)"
  unfolding move_entry_def by (intro wf_put) (auto dest: wf_get)

definition at_place :: "place \<Rightarrow> bool" where
  "at_place q = list_all file_name q"

lemma at_place_last: "at_place q \<Longrightarrow> q \<noteq> [] \<Longrightarrow> file_name (last q)"
  by (simp add: at_place_def list_all_iff)

lemma keeps_new_file: "at_place q \<Longrightarrow> keeps (new_file q d) anyhow"
proof (rule keepsI)
  fix s s' r assume s: "at_place q" "wf_fs s" "new_file q d s = (s', r)"
  let ?u = "s\<lparr>fs_blob := (fs_blob s)(fs_next s := d), fs_next := Suc (fs_next s)\<rparr>"
  have "wf_fs ?u" using s(2) by (auto simp: wf_fs_def)
  then have "wf_fs (put_at q (Some (File (fs_next s))) ?u)"
    by (rule wf_put) (auto simp: at_place_last [OF s(1)])
  then show "wf_fs s' \<and> (\<forall>x. r = Inr x \<longrightarrow> anyhow x)"
    using s(3) by (auto simp: new_file_def)
qed

lemma keeps_create_at:
  "at_place q \<Longrightarrow> (\<And>s. wf_fs s \<Longrightarrow> wf_tree n \<and> inodes n \<subseteq> {..<fs_next s}) \<Longrightarrow> keeps (create_at q n) anyhow"
  by (rule keepsI) (auto simp: create_at_def split: if_splits intro!: wf_put at_place_last)

lemma keeps_create_excl_at: "at_place q \<Longrightarrow> keeps (create_excl_at q) anyhow"
  using keeps_new_file [of q "[]"] by (auto simp: keeps_def create_excl_at_def)

lemma keeps_write_fd [keeps_rules]: "keeps (write_fd i d) anyhow" and keeps_read_fd [keeps_rules]: "keeps (read_fd i) anyhow"
  by (auto simp: keeps_def write_fd_def read_fd_def wf_fs_def)

lemma keeps_unlink_at: "at_place q \<Longrightarrow> keeps (unlink_at q) anyhow"
  by (rule keepsI)
     (auto simp: unlink_at_def split: option.splits node.splits list.splits if_splits intro!: wf_put at_place_last)

lemma keeps_rename_at: "at_place q \<Longrightarrow> at_place q' \<Longrightarrow> keeps (rename_at q q') anyhow"
  by (rule keepsI)
     (auto simp: rename_at_def split: option.splits node.splits if_splits intro!: wf_move at_place_last)

lemma keeps_rename_noreplace_at: "at_place q \<Longrightarrow> at_place q' \<Longrightarrow> keeps (rename_noreplace_at q q') anyhow"
  by (rule keepsI)
     (auto simp: rename_noreplace_at_def get_at_def wf_fs_def [symmetric]
        split: option.splits if_splits intro!: wf_move at_place_last)


definition plain :: "string list \<Rightarrow> bool" where
  "plain p = list_all plain_elem p"

lemma plain_no_slash: "plain p \<Longrightarrow> \<forall>c \<in> set p. CHR ''/'' \<notin> set c"
  by (auto simp: plain_def list_all_iff plain_elem_def)

lemma keeps_at_name: "plain p \<Longrightarrow> keeps (at_name L follow p) at_place"
proof (rule keepsI)
  fix s s' r assume a: "plain p" "wf_fs s" "at_name L follow p s = (s', r)"
  obtain es where "fs_tree s = Dir es" using a(2) by (cases "fs_tree s") (auto simp: wf_fs_def)
  then have "\<exists>es. lookup (fs_tree s) [] = Some (Dir es)" by simp
  from walk_place [OF _ this _ plain_no_slash [OF a(1)], of L follow] a(2,3)
  show "wf_fs s' \<and> (\<forall>x. r = Inr x \<longrightarrow> at_place x)" by (auto simp: at_name_def at_place_def)
qed

lemma keeps_Lstat [keeps_rules]: "keeps (Lstat L p) wf_tree" and keeps_Stat [keeps_rules]: "keeps (Stat L p) wf_tree"
  by (auto simp: keeps_def Lstat_def Stat_def Lstat_at_def wf_fs_def dest: wf_lookup split: sum.splits option.splits)

lemma keeps_Mkdir: "plain p \<Longrightarrow> keeps (root_Mkdir L p) anyhow"
  unfolding root_Mkdir_def by (rule keeps_andthen [OF keeps_at_name keeps_create_at]) auto

lemma keeps_Symlink: "plain p \<Longrightarrow> keeps (root_Symlink L target p) anyhow"
  unfolding root_Symlink_def
  by (rule keeps_if [OF keeps_fail], rule keeps_andthen [OF keeps_at_name keeps_create_at]) auto

lemma keeps_Remove: "plain p \<Longrightarrow> keeps (root_Remove L p) anyhow"
  unfolding root_Remove_def by (rule keeps_andthen [OF keeps_at_name keeps_unlink_at])

lemma keeps_Link: "plain p \<Longrightarrow> plain p' \<Longrightarrow> keeps (root_Link L p p') anyhow"
  unfolding root_Link_def
proof (rule keeps_andthen [OF keeps_at_name], assumption, rule keeps_andthen [OF keeps_at_name], assumption)
  fix q q' assume "at_place q'"
  show "keeps (\<lambda>s. case get_at s q of None \<Rightarrow> (s, Inl NotExist) | Some (Dir es) \<Rightarrow> (s, Inl Other_error)
       | Some n \<Rightarrow> create_at q' n s) anyhow"
  proof (rule keepsI)
    fix s s' r
    assume s: "wf_fs s" and m: "(case get_at s q of None \<Rightarrow> (s, Inl NotExist) | Some (Dir es) \<Rightarrow> (s, Inl Other_error)
       | Some n \<Rightarrow> create_at q' n s) = (s', r)"
    have "wf_fs (put_at q' (Some n) s)" if "get_at s q = Some n" for n
      using wf_put [OF s] wf_get [OF s that] at_place_last [OF \<open>at_place q'\<close>] by blast
    with s m show "wf_fs s' \<and> (\<forall>x. r = Inr x \<longrightarrow> anyhow x)"
      by (auto simp: create_at_def split: option.splits node.splits if_splits)
  qed
qed

lemma keeps_RemoveAll: "plain p \<Longrightarrow> keeps (root_RemoveAll L p) anyhow"
  unfolding root_RemoveAll_def
proof (rule keeps_if [OF keeps_fail], rule keeps_on_result [OF keeps_at_name], assumption)
  show "keeps (case Inl e of Inl e \<Rightarrow> if e = NotExist then ret () else fail e | Inr q \<Rightarrow> \<lambda>s. (put_at q None s, Inr ())) anyhow" for e
    by (simp add: keeps_rules)
  show "keeps (case Inr q of Inl e \<Rightarrow> if e = NotExist then ret () else fail e | Inr q \<Rightarrow> \<lambda>s. (put_at q None s, Inr ())) anyhow"
    if "at_place q" for q
    using that by (auto simp: keeps_def intro!: wf_put at_place_last)
qed

lemma keeps_Rename: "plain p \<Longrightarrow> plain p' \<Longrightarrow> keeps (root_Rename L p p') anyhow"
  unfolding root_Rename_def
  by (rule keeps_andthen [OF keeps_at_name], assumption, rule keeps_andthen [OF keeps_at_name], assumption)
     (rule keeps_rename_at)

lemma keeps_same_state:
  assumes "\<And>s. fst (m s) = s" "\<And>s x. snd (m s) = Inr x \<Longrightarrow> Q x" shows "keeps m Q"
  using assms by (auto simp: keeps_def)

lemma keeps_open_dir: "plain p \<Longrightarrow> keeps (open_dir L p) at_place"
  unfolding open_dir_def
  by (rule keeps_andthen [OF keeps_at_name], assumption, rule keeps_same_state)
     (auto split: option.splits node.splits)

lemma keeps_open_read: "plain p \<Longrightarrow> keeps (open_read L p) anyhow"
  unfolding open_read_def
  by (rule keeps_andthen [OF keeps_at_name], assumption, rule keeps_same_state)
     (auto split: option.splits node.splits)

lemma keeps_open_append: "plain p \<Longrightarrow> keeps (open_append L p) anyhow"
  unfolding open_append_def
proof (rule keeps_andthen [OF keeps_at_name], assumption)
  fix q assume "at_place q"
  then show "keeps (\<lambda>s. case get_at s q of None \<Rightarrow> new_file q [] s | Some (File i) \<Rightarrow> (s, Inr i)
       | Some (Dir es) \<Rightarrow> (s, Inl IsDirectory) | Some _ \<Rightarrow> (s, Inl Other_error)) anyhow"
    using keeps_new_file [of q "[]"] by (auto simp: keeps_def split: option.splits node.splits)
qed

lemma mkwalk_keeps:
  assumes "is_dir t" "wf_tree t" "inodes t \<subseteq> I" "list_all file_name cur" "\<forall>c \<in> set cs. CHR ''/'' \<notin> set c"
  shows "case mkwalk n cur cs t of (t', e) \<Rightarrow> is_dir t' \<and> wf_tree t' \<and> inodes t' \<subseteq> I"
  using assms
proof (induction n cur cs t rule: mkwalk.induct)
  case (2 n cur c cs t)
  have b: "list_all file_name (butlast cur)"
    using 2(9) by (auto simp: list_all_iff dest: in_set_butlastD)
  consider (skip) "c = [] \<or> c = ''.''" | (up) "c = ''..''" | (zero) "plain_elem c" "CHR 0x00 \<in> set c" | (name) "file_name c"
    using 2(10) by (auto simp: plain_elem_def file_name_def)
  then show ?case
  proof cases
    case skip
    with 2 show ?thesis by (simp add: mkwalk.simps(2))
  next
    case up
    with 2 b show ?thesis by (simp add: mkwalk.simps(2))
  next
    case zero
    with 2 show ?thesis by (simp add: mkwalk.simps(2) plain_elem_def)
  next
    case name
    then have nc: "\<not> (c = [] \<or> c = ''.'')" "c \<noteq> ''..''" "CHR 0x00 \<notin> set c"
      by (simp_all add: file_name_def plain_elem_def)
    have fn: "list_all file_name (cur @ [c])" using 2(9) name by simp
    show ?thesis
    proof (cases "lookup t (cur @ [c])")
      case None
      let ?t = "alter (cur @ [c]) (\<lambda>_. Some (Dir [])) t"
      have "wf_tree ?t" using 2(7) name by (intro wf_alter) auto
      moreover have "inodes ?t \<subseteq> I" using 2(8) by (intro inodes_alter) auto
      ultimately show ?thesis
        using 2(3) [OF nc None] 2(6,10) fn None nc by (simp add: mkwalk.simps(2))
    next
      case (Some m)
      show ?thesis
      proof (cases m)
        case (Dir es)
        show ?thesis
          using 2(4) [OF nc Some Dir] 2(6-8,10) fn Some Dir nc by (simp add: mkwalk.simps(2))
      next
        case (Link target)
        have sl: "\<forall>c \<in> set (split_on (CHR ''/'') target @ cs). CHR ''/'' \<notin> set c"
          using 2(10) by (auto simp: split_on_no_sep)
        show ?thesis
        proof (cases "cs = [] \<or> n = 0 \<or> IsAbs target")
          case True
          with 2(6-8) Some Link nc show ?thesis by (auto simp: mkwalk.simps(2))
        next
          case False
          then show ?thesis
            using 2(5) [OF nc Some Link] 2(6-9) sl Some Link nc by (simp add: mkwalk.simps(2))
        qed
      qed (use 2(6-8) Some nc in \<open>auto simp: mkwalk.simps(2)\<close>)
    qed
  qed
qed auto

lemma keeps_MkdirAll: "plain p \<Longrightarrow> keeps (root_MkdirAll L p) anyhow"
proof (rule keepsI)
  fix s s' r assume a: "plain p" "wf_fs s" "root_MkdirAll L p s = (s', r)"
  have "inodes (fs_tree s) \<subseteq> {..<fs_next s}" using a(2) by (auto simp: wf_fs_def)
  then have "case mkwalk L [] p (fs_tree s) of (t', e) \<Rightarrow> is_dir t' \<and> wf_tree t' \<and> inodes t' \<subseteq> {..<fs_next s}"
    using a(2) by (intro mkwalk_keeps plain_no_slash [OF a(1)]) (auto simp: wf_fs_def)
  with a(3) show "wf_fs s' \<and> (\<forall>x. r = Inr x \<longrightarrow> anyhow x)"
    by (auto simp: root_MkdirAll_def wf_fs_def split: prod.splits)
qed

end
