(* ===== verification/Archives.thy ===== *)
theory Archives imports Volume_Ops begin

text \<open>
  Packing and unpacking on the volume (\<open>internal/fileops/archive.go\<close>). What the readers
  and writers of \<open>archive/tar\<close>, \<open>archive/zip\<close> and the compressors turn into bytes is
  here the list of entries that the code writes and reads one by one; an archive that is read is its
  entries up to the first error, and whether there is one. Permission bits and times are left out.
\<close>

datatype entry_kind =
    TarDir
  | TarReg string bool   \<comment> \<open>the data, and whether it can be read to its end\<close>
  | TarSymlink string
  | TarLink string
  | TarOther

type_synonym tar_entry = "string \<times> entry_kind"

datatype compression = Zip | Plain_tar | Gzip | Bzip2 | Xz

subsection \<open>Packing\<close>

definition archiveName :: "string \<Rightarrow> ferr + string" where
  "archiveName name =
     (if name = [] \<or> CHR 0x00 \<in> set name \<or> IsAbs name then Inl Refused
      else let n = Clean name in
        if n = ''..'' \<or> prefix ''../'' n then Inl Refused else Inr n)"

fun archive_node :: "(nat \<Rightarrow> string) \<Rightarrow> string \<Rightarrow> node \<Rightarrow> tar_entry list \<times> ferr option"
  and archive_nodes :: "(nat \<Rightarrow> string) \<Rightarrow> string \<Rightarrow> (string \<times> node) list \<Rightarrow> tar_entry list \<times> ferr option" where
  \<comment> \<open>\<open>writeArchiveEntry\<close>: what is written, and the error that stopped it\<close>
  "archive_node blob base (Link target) = ([(base, TarSymlink target)], None)"
| "archive_node blob base Fifo = ([], Some Refused)"
| "archive_node blob base (File i) = ([(base, TarReg (blob i) True)], None)"
| "archive_node blob base (Dir es) =
     (case archive_nodes blob base es of (out, e) \<Rightarrow> ((base @ ''/'', TarDir) # out, e))"
| "archive_nodes blob base [] = ([], None)"
| "archive_nodes blob base ((c, n) # es) =
     (case archive_node blob (Join [base, c]) n of
        (out, Some e) \<Rightarrow> (out, Some e)
      | (out, None) \<Rightarrow> (case archive_nodes blob base es of (out', e) \<Rightarrow> (out @ out', e)))"

fun writeArchive_loop :: "nat \<Rightarrow> fsys \<Rightarrow> (string list \<times> string) list \<Rightarrow> tar_entry list \<times> ferr option" where
  "writeArchive_loop L s [] = ([], None)"
| "writeArchive_loop L s ((p, base) # rest) =
     (case archiveName base of
        Inl e \<Rightarrow> ([], Some e)
      | Inr b \<Rightarrow>
         (case Lstat_at L (fs_tree s) False p of
            Inl e \<Rightarrow> ([], Some e)
          | Inr n \<Rightarrow>
             (case archive_node (fs_blob s) b n of
                (out, Some e) \<Rightarrow> (out, Some e)
              | (out, None) \<Rightarrow> (case writeArchive_loop L s rest of (out', e) \<Rightarrow> (out @ out', e)))))"

definition writeArchive :: "nat \<Rightarrow> (string list \<times> string) list \<Rightarrow> fsys \<Rightarrow> tar_entry list \<times> ferr option" where
  "writeArchive L names s = writeArchive_loop L s names"

subsection \<open>The format\<close>

definition tar_format :: "string \<Rightarrow> string \<Rightarrow> compression option" where
  \<comment> \<open>\<open>extractTar\<close>: the format asked for, or what the first bytes tell\<close>
  "tar_format data format =
     (let magic = take 6 data;
          f = (if format = ''tar'' then
                 (if take 2 magic = [CHR 0x1F, CHR 0x8B] then ''gzip''
                  else if take 3 magic = ''BZh'' then ''bzip2''
                  else if magic = [CHR 0xFD, CHR ''7'', CHR ''z'', CHR ''X'', CHR ''Z'', CHR 0x00] then ''xz''
                  else ''tar'')
               else format)
      in if f = ''tar'' then Some Plain_tar
         else if f \<in> {''gzip'', ''gz'', ''tar.gz'', ''tgz''} then Some Gzip
         else if f \<in> {''bzip2'', ''bz2'', ''tar.bz2'', ''tbz2''} then Some Bzip2
         else if f \<in> {''xz'', ''tar.xz'', ''txz''} then Some Xz
         else None)"

definition pick_format :: "string \<Rightarrow> string \<Rightarrow> compression option" where
  \<comment> \<open>of \<open>extractArchive\<close>\<close>
  "pick_format data format =
     (if equal_fold_ascii format ''zip'' then Some Zip
      else tar_format data (ToLower
        (if format = ''-'' then ''tar'' else if format = ''z'' then ''gzip''
         else if format = ''j'' then ''bzip2'' else if format = ''J'' then ''xz'' else format)))"

subsection \<open>Unpacking\<close>

record extractor =
  ex_dirs :: "string list list"                         \<comment> \<open>whose times are restored at the end\<close>
  ex_links :: "(string list \<times> string list) list"        \<comment> \<open>the hard link's name and its target\<close>

definition destination :: "string list \<Rightarrow> string \<Rightarrow> ferr + string list" where
  "destination dir name = (case archiveName name of Inl e \<Rightarrow> Inl e | Inr n \<Rightarrow> Inr (dir @ elems n))"

definition archiveLinkTarget :: "string list \<Rightarrow> string \<Rightarrow> ferr + string list" where
  "archiveLinkTarget base target =
     (if target = [] \<or> IsAbs target \<or> CHR 0x00 \<in> set target then Inl Refused
      else let resolved = clean_elems False (base @ split_on (CHR ''/'') target) in
        if resolved \<noteq> [] \<and> hd resolved = ''..'' then Inl Refused else Inr resolved)"

definition Resolve_op :: "nat \<Rightarrow> string \<Rightarrow> bool \<Rightarrow> string list \<Rightarrow> string list fop" where
  "Resolve_op L root deref p s = (s, Resolve L (fs_tree s) root deref p)"

definition unless_missing :: "unit fop \<Rightarrow> unit fop" where
  \<comment> \<open>drops the error that says that nothing is there\<close>
  "unless_missing m = on_result m (\<lambda>r. case r of Inl e \<Rightarrow> if e = NotExist then ret () else fail e | Inr x \<Rightarrow> ret ())"

definition open_write_nofollow :: "nat \<Rightarrow> string list \<Rightarrow> nat fop" where
  \<comment> \<open>\<open>O_WRONLY | O_CREATE | O_NOFOLLOW | O_NONBLOCK\<close>, with what \<open>regular\<close> makes of its
    errors\<close>
  "open_write_nofollow L p =
     andthen (at_name L False p) (\<lambda>q s.
       case get_at s q of
         None \<Rightarrow> new_file q [] s
       | Some (File i) \<Rightarrow> (s, Inr i)
       | Some (Dir es) \<Rightarrow> (s, Inl IsDirectory)
       | Some (Link target) \<Rightarrow> (s, Inl Refused)
       | Some Fifo \<Rightarrow> (s, Inl Other_error))"

definition extract_directory :: "nat \<Rightarrow> string \<Rightarrow> extractor \<Rightarrow> string list \<Rightarrow> extractor fop" where
  "extract_directory L root x name =
     andthen (Resolve_op L root True name) (\<lambda>p.
     andthen (root_MkdirAll L p) (\<lambda>_.
     ret (x\<lparr>ex_dirs := ex_dirs x @ [p]\<rparr>)))"

definition extract_regular :: "nat \<Rightarrow> string \<Rightarrow> string list \<Rightarrow> string \<Rightarrow> bool \<Rightarrow> unit fop" where
  "extract_regular L root name data complete =
     andthen (Resolve_op L root True name) (\<lambda>p.
     andthen (root_MkdirAll L (butlast p)) (\<lambda>_.
     andthen (open_write_nofollow L p) (\<lambda>i.
     andthen (write_fd i data) (\<lambda>_.
     if complete then ret () else fail Other_error))))"

definition prepareLink :: "nat \<Rightarrow> string list \<Rightarrow> unit fop" where
  "prepareLink L name =
     andthen (root_MkdirAll L (butlast name)) (\<lambda>_. unless_missing (root_Remove L name))"

definition relative_target :: "string \<Rightarrow> string list \<Rightarrow> string \<Rightarrow> ferr + string" where
  \<comment> \<open>an absolute target below the root, as seen from the link's directory\<close>
  "relative_target root base target =
     (if IsAbs target then
        (case relative root target of
           None \<Rightarrow> Inl Refused
         | Some r \<Rightarrow> (case Rel (show_path False base) r of None \<Rightarrow> Inl Other_error | Some t \<Rightarrow> Inr t))
      else Inr target)"

definition extract_symlink :: "nat \<Rightarrow> string \<Rightarrow> string list \<Rightarrow> string \<Rightarrow> unit fop" where
  "extract_symlink L root name target =
     andthen (ret_result (relative_target root (butlast name) target)) (\<lambda>tgt.
     andthen (ret_result (archiveLinkTarget (butlast name) tgt)) (\<lambda>resolved.
     andthen (on_result (Stat L resolved)
        (\<lambda>r. case r of Inl e \<Rightarrow> if e = NotExist then ret () else fail e | Inr n \<Rightarrow> ret ())) (\<lambda>_.
     andthen (prepareLink L name) (\<lambda>_.
     root_Symlink L tgt name))))"

definition extract_entry :: "nat \<Rightarrow> string \<Rightarrow> string list \<Rightarrow> bool \<Rightarrow> extractor \<Rightarrow> tar_entry \<Rightarrow> extractor fop" where
  "extract_entry L root dir iszip x e =
     andthen (ret_result (destination dir (fst e))) (\<lambda>name.
       case snd e of
         TarDir \<Rightarrow> extract_directory L root x name
       | TarReg data complete \<Rightarrow> andthen (extract_regular L root name data complete) (\<lambda>_. ret x)
       | TarSymlink target \<Rightarrow>
           if iszip \<and> length target > 4096 then fail Refused
           else andthen (extract_symlink L root name target) (\<lambda>_. ret x)
       | TarLink target \<Rightarrow>
           if iszip then fail Refused
           else andthen (ret_result (archiveLinkTarget dir target)) (\<lambda>t. ret (x\<lparr>ex_links := ex_links x @ [(name, t)]\<rparr>))
       | TarOther \<Rightarrow> fail Refused)"

fun extract_entries :: "nat \<Rightarrow> string \<Rightarrow> string list \<Rightarrow> bool \<Rightarrow> extractor \<Rightarrow> tar_entry list \<Rightarrow> extractor fop" where
  "extract_entries L root dir iszip x [] = ret x"
| "extract_entries L root dir iszip x (e # es) =
     andthen (extract_entry L root dir iszip x e) (\<lambda>x'. extract_entries L root dir iszip x' es)"

fun link_pass :: "nat \<Rightarrow> (string list \<times> string list) list \<Rightarrow> fsys
    \<Rightarrow> fsys \<times> (ferr + (string list \<times> string list) list \<times> bool)" where
  \<comment> \<open>one round of \<open>finish\<close>: the links that still wait, and whether one was made\<close>
  "link_pass L [] s = (s, Inr ([], False))"
| "link_pass L ((name, target) # links) s =
     (case Lstat_at L (fs_tree s) False target of
        Inl e \<Rightarrow>
          if e = NotExist then
            (case link_pass L links s of
               (s', Inl e') \<Rightarrow> (s', Inl e')
             | (s', Inr (pending, progress)) \<Rightarrow> (s', Inr ((name, target) # pending, progress)))
          else (s, Inl e)
      | Inr (File i) \<Rightarrow>
          if name = target then (s, Inl Refused)
          else (case andthen (prepareLink L name) (\<lambda>_. root_Link L target name) s of
               (s', Inl e) \<Rightarrow> (s', Inl e)
             | (s', Inr _) \<Rightarrow> (case link_pass L links s' of
                 (s'', Inl e) \<Rightarrow> (s'', Inl e)
               | (s'', Inr (pending, progress)) \<Rightarrow> (s'', Inr (pending, True))))
      | Inr _ \<Rightarrow> (s, Inl Refused))"

lemma link_pass_length:
  "link_pass L links s = (s', Inr (pending, progress)) \<Longrightarrow>
     length pending \<le> length links \<and> (progress \<longleftrightarrow> length pending < length links)"
proof (induction L links s arbitrary: pending progress s' rule: link_pass.induct)
  case (2 L name target links s)
  then show ?case
    by (auto split: sum.splits prod.splits if_splits node.splits) force+
qed auto

function finish_links :: "nat \<Rightarrow> (string list \<times> string list) list \<Rightarrow> unit fop" where
  "finish_links L links s =
     (if links = [] then (s, Inr ())
      else case link_pass L links s of
          (s', Inl e) \<Rightarrow> (s', Inl e)
        | (s', Inr (pending, progress)) \<Rightarrow>
            if \<not> progress then (s', Inl Refused) else finish_links L pending s')"
  by pat_completeness auto
termination
  by (relation "measure (\<lambda>(L, links, s). length links)") (auto dest: link_pass_length [OF sym])

declare finish_links.simps [simp del]

definition open_dir_nofollow :: "nat \<Rightarrow> string list \<Rightarrow> unit fop" where
  "open_dir_nofollow L p =
     andthen (Lstat L p) (\<lambda>n. case n of Dir es \<Rightarrow> ret () | Link target \<Rightarrow> fail TooManyLinks | _ \<Rightarrow> fail NotDir)"

definition finish :: "nat \<Rightarrow> extractor \<Rightarrow> unit fop" where
  "finish L x =
     andthen (finish_links L (ex_links x)) (\<lambda>_. for_all (rev (ex_dirs x)) (open_dir_nofollow L))"

definition extractArchive ::
  "(compression \<Rightarrow> string \<Rightarrow> tar_entry list \<times> bool) \<Rightarrow> nat \<Rightarrow> string \<Rightarrow> string list \<Rightarrow> string \<Rightarrow> string \<Rightarrow> unit fop" where
  \<comment> \<open>\<open>decode\<close> stands for the archive readers\<close>
  "extractArchive decode L root dir data format =
     andthen (root_MkdirAll L dir) (\<lambda>_.
       case pick_format data format of
         None \<Rightarrow> fail Refused
       | Some c \<Rightarrow>
           (case decode c data of (entries, complete) \<Rightarrow>
              andthen (extract_entries L root dir (c = Zip) \<lparr>ex_dirs = [], ex_links = []\<rparr> entries) (\<lambda>x.
                if complete then finish L x else fail Other_error)))"


subsection \<open>Unpacking keeps the volume well-formed\<close>

lemma archiveName_local:
  assumes "archiveName name = Inr n" shows "plain (elems n) \<and> \<not> IsAbs n"
proof -
  have n: "\<not> IsAbs name" "n = Clean name" "\<not> (Clean name = ''..'' \<or> prefix ''../'' (Clean name))"
    using assms by (auto simp: archiveName_def Let_def split: if_splits)
  then show ?thesis using Clean_climbs [OF n(1)] by (simp add: plain_def)
qed

lemma destination_plain: "plain dir \<Longrightarrow> destination dir name = Inr p \<Longrightarrow> plain p \<and> prefix dir p"
  using archiveName_local by (auto simp: destination_def plain_def split: sum.splits)

lemma clean_hd_plain:
  assumes "\<forall>c \<in> set cs. CHR ''/'' \<notin> set c"
    and "clean_elems False cs = [] \<or> hd (clean_elems False cs) \<noteq> ''..''"
  shows "plain (clean_elems False cs)"
proof -
  obtain k ds where "clean_elems False cs = dots k @ ds" "list_all plain_elem ds"
    using clean_shape [OF assms(1)] by metis
  with assms(2) show ?thesis by (cases k) (auto simp: plain_def)
qed

lemma archiveLinkTarget_plain:
  assumes "plain base" "archiveLinkTarget base target = Inr r" shows "plain r"
proof -
  have "\<forall>c \<in> set (base @ split_on (CHR ''/'') target). CHR ''/'' \<notin> set c"
    using plain_no_slash [OF assms(1)] by (auto simp: split_on_no_sep)
  from clean_hd_plain [OF this] assms(2) show ?thesis
    by (auto simp: archiveLinkTarget_def Let_def split: if_splits)
qed

lemma plain_butlast: "plain p \<Longrightarrow> plain (butlast p)"
  by (auto simp: plain_def list_all_iff dest: in_set_butlastD)

lemma keeps_ret_result: "(\<And>x. r = Inr x \<Longrightarrow> Q x) \<Longrightarrow> keeps (ret_result r) Q"
  by (auto simp: keeps_def ret_result_def)

lemma keeps_Resolve_op: "keeps (Resolve_op L root deref p) plain"
  using Resolve_settles by (auto simp: keeps_def Resolve_op_def wf_fs_def plain_def)

lemma keeps_unless_missing: "keeps m anyhow \<Longrightarrow> keeps (unless_missing m) anyhow"
  unfolding unless_missing_def
  by (rule keeps_on_result [where Q = anyhow]) (auto intro: keeps_rules)

lemma keeps_open_write_nofollow: "plain p \<Longrightarrow> keeps (open_write_nofollow L p) anyhow"
  unfolding open_write_nofollow_def
proof (rule keeps_andthen [OF keeps_at_name], assumption)
  fix q assume "at_place q"
  then show "keeps (\<lambda>s. case get_at s q of None \<Rightarrow> new_file q [] s | Some (File i) \<Rightarrow> (s, Inr i)
       | Some (Dir es) \<Rightarrow> (s, Inl IsDirectory) | Some (Link target) \<Rightarrow> (s, Inl Refused)
       | Some Fifo \<Rightarrow> (s, Inl Other_error)) anyhow"
    using keeps_new_file [of q "[]"] by (auto simp: keeps_def split: option.splits node.splits)
qed

lemma keeps_extract_directory: "keeps (extract_directory L root x name) anyhow"
  unfolding extract_directory_def
  by (rule keeps_andthen [OF keeps_Resolve_op], rule keeps_andthen [OF keeps_MkdirAll], assumption)
     (rule keeps_rules)

lemma keeps_extract_regular: "keeps (extract_regular L root name data complete) anyhow"
  unfolding extract_regular_def
  by (rule keeps_andthen [OF keeps_Resolve_op], rule keeps_andthen [OF keeps_MkdirAll], erule plain_butlast,
      rule keeps_andthen [OF keeps_open_write_nofollow], assumption)
     (intro keeps_rules)

lemma keeps_prepareLink: "plain name \<Longrightarrow> keeps (prepareLink L name) anyhow"
  unfolding prepareLink_def
  by (rule keeps_andthen [OF keeps_MkdirAll], erule plain_butlast, rule keeps_unless_missing, rule keeps_Remove)

lemma keeps_extract_symlink: "plain name \<Longrightarrow> keeps (extract_symlink L root name target) anyhow"
  unfolding extract_symlink_def
  by (rule keeps_andthen [OF keeps_ret_result [where Q = anyhow]], simp,
      rule keeps_andthen [OF keeps_ret_result [where Q = anyhow]], simp,
      rule keeps_andthen [OF keeps_on_result [OF keeps_Stat, where R = anyhow]])
     (auto intro: keeps_rules keeps_andthen [OF keeps_prepareLink keeps_Symlink])

definition links_plain :: "extractor \<Rightarrow> bool" where
  "links_plain x = (\<forall>(p, t) \<in> set (ex_links x). plain p \<and> plain t)"

lemma keeps_extract_entry:
  assumes "plain dir" "links_plain x" shows "keeps (extract_entry L root dir iszip x e) links_plain"
  unfolding extract_entry_def
proof (rule keeps_andthen [OF keeps_ret_result [where Q = plain]])
  show "plain n" if "destination dir (fst e) = Inr n" for n
    using destination_plain [OF assms(1) that] by blast
  fix name assume n: "plain name"
  have sub: "keeps (andthen m (\<lambda>_. ret x)) links_plain" if "keeps m anyhow" for m :: "unit fop"
    by (rule keeps_andthen [OF that]) (rule keeps_ret [where Q = links_plain, OF assms(2)])
  show "keeps (case snd e of TarDir \<Rightarrow> extract_directory L root x name
      | TarReg data complete \<Rightarrow> andthen (extract_regular L root name data complete) (\<lambda>_. ret x)
      | TarSymlink target \<Rightarrow>
           if iszip \<and> length target > 4096 then fail Refused
           else andthen (extract_symlink L root name target) (\<lambda>_. ret x)
      | TarLink target \<Rightarrow>
           if iszip then fail Refused
           else andthen (ret_result (archiveLinkTarget dir target)) (\<lambda>t. ret (x\<lparr>ex_links := ex_links x @ [(name, t)]\<rparr>))
      | TarOther \<Rightarrow> fail Refused) links_plain"
  proof (cases "snd e")
    case TarDir
    have "keeps (extract_directory L root x name) links_plain"
      unfolding extract_directory_def
      by (rule keeps_andthen [OF keeps_Resolve_op], rule keeps_andthen [OF keeps_MkdirAll], assumption)
         (rule keeps_ret, use assms(2) in \<open>simp add: links_plain_def\<close>)
    with TarDir show ?thesis by simp
  next
    case (TarReg data complete)
    with sub [OF keeps_extract_regular] show ?thesis by simp
  next
    case (TarSymlink target)
    with sub [OF keeps_extract_symlink [OF n]] show ?thesis by (simp add: keeps_fail)
  next
    case (TarLink target)
    have "keeps (andthen (ret_result (archiveLinkTarget dir target)) (\<lambda>t. ret (x\<lparr>ex_links := ex_links x @ [(name, t)]\<rparr>))) links_plain"
      by (rule keeps_andthen [OF keeps_ret_result [where Q = plain]], erule archiveLinkTarget_plain [OF assms(1)])
         (rule keeps_ret, use assms(2) n in \<open>auto simp: links_plain_def\<close>)
    with TarLink show ?thesis by (simp add: keeps_fail)
  next
    case TarOther
    then show ?thesis by (simp add: keeps_fail)
  qed
qed

lemma keeps_extract_entries:
  "plain dir \<Longrightarrow> links_plain x \<Longrightarrow> keeps (extract_entries L root dir iszip x es) links_plain"
  by (induction es arbitrary: x) (auto intro: keeps_ret keeps_andthen [OF keeps_extract_entry])

lemma keeps_link_pass:
  "\<forall>(p, t) \<in> set links. plain p \<and> plain t \<Longrightarrow>
     keeps (link_pass L links) (\<lambda>(pending, progress). \<forall>(p, t) \<in> set pending. plain p \<and> plain t)"
proof (induction links)
  case Nil
  then show ?case by (simp add: keeps_def)
next
  case (Cons l links)
  obtain name target where l: "l = (name, target)" by force
  let ?m = "andthen (prepareLink L name) (\<lambda>_. root_Link L target name)"
  have m: "keeps ?m anyhow"
    using Cons.prems l by (auto intro: keeps_andthen [OF keeps_prepareLink keeps_Link])
  have IH: "keeps (link_pass L links) (\<lambda>(pending, progress). \<forall>(p, t) \<in> set pending. plain p \<and> plain t)"
    using Cons by simp
  show ?case
  proof (rule keepsI)
    fix s s' r assume s: "wf_fs s" "link_pass L (l # links) s = (s', r)"
    show "wf_fs s' \<and> (\<forall>x. r = Inr x \<longrightarrow> (case x of (pending, progress) \<Rightarrow> \<forall>(p, t) \<in> set pending. plain p \<and> plain t))"
    proof (cases "Lstat_at L (fs_tree s) False target")
      case (Inl e)
      obtain u y where u: "link_pass L links s = (u, y)" by force
      from keeps_volumeD [OF IH s(1) u] s Inl u Cons.prems l show ?thesis
        by (auto split: if_splits sum.splits prod.splits)
    next
      case (Inr n)
      obtain u y where u: "?m s = (u, y)" by force
      obtain v z where v: "link_pass L links u = (v, z)" by force
      note wu = keeps_volumeD(1) [OF m s(1) u]
      from keeps_volumeD [OF IH wu v] wu s Inr u v l show ?thesis
        by (auto split: if_splits sum.splits prod.splits node.splits)
    qed
  qed
qed

lemma keeps_finish_links:
  "\<forall>(p, t) \<in> set links. plain p \<and> plain t \<Longrightarrow> wf_fs s \<Longrightarrow> wf_fs (fst (finish_links L links s))"
proof (induction L links s rule: finish_links.induct)
  case (1 L links s)
  obtain u y where u: "link_pass L links s = (u, y)" by force
  note k = keeps_volumeD [OF keeps_link_pass [OF 1(2), of L] 1(3) u]
  show ?case
  proof (cases y)
    case (Inl e)
    with u k 1(3) show ?thesis by (simp add: finish_links.simps [of L links s])
  next
    case (Inr pr)
    obtain pending progress where pr: "pr = (pending, progress)" by force
    then have pp: "\<forall>(p, t) \<in> set pending. plain p \<and> plain t" using k(2) [OF Inr] by simp
    show ?thesis
    proof (cases "links = [] \<or> \<not> progress")
      case True
      with u k 1(3) Inr pr show ?thesis by (auto simp: finish_links.simps [of L links s])
    next
      case False
      then have "wf_fs (fst (finish_links L pending u))"
        using 1(1) [OF _ u [symmetric] Inr pr [symmetric]] pp k(1) by simp
      with False u Inr pr show ?thesis by (simp add: finish_links.simps [of L links s])
    qed
  qed
qed

lemma keeps_finish: "links_plain x \<Longrightarrow> keeps (finish L x) anyhow"
  unfolding finish_def
proof (rule keeps_andthen_any)
  assume "links_plain x"
  then show "keeps (finish_links L (ex_links x)) anyhow"
    using keeps_finish_links by (auto simp: keeps_def links_plain_def)
  show "keeps (for_all (rev (ex_dirs x)) (open_dir_nofollow L)) anyhow"
    unfolding open_dir_nofollow_def
    by (rule keeps_for_all, rule keeps_andthen [OF keeps_Lstat]) (auto intro: keeps_rules split: node.splits)
qed

lemma keeps_extractArchive: "plain dir \<Longrightarrow> keeps (extractArchive decode L root dir data format) anyhow"
  unfolding extractArchive_def
proof (rule keeps_andthen [OF keeps_MkdirAll], assumption)
  assume p: "plain dir"
  have "keeps (andthen (extract_entries L root dir (c = Zip) \<lparr>ex_dirs = [], ex_links = []\<rparr> es)
       (\<lambda>x. if complete then finish L x else fail Other_error)) anyhow" for c es complete
    by (rule keeps_andthen [OF keeps_extract_entries [OF p]]) (auto simp: links_plain_def intro: keeps_rules keeps_finish)
  then show "keeps (case pick_format data format of None \<Rightarrow> fail Refused
       | Some c \<Rightarrow> (case decode c data of (entries, complete) \<Rightarrow>
          andthen (extract_entries L root dir (c = Zip) \<lparr>ex_dirs = [], ex_links = []\<rparr> entries)
            (\<lambda>x. if complete then finish L x else fail Other_error))) anyhow"
    by (auto split: option.splits prod.splits intro: keeps_rules)
qed

end
