(* ===== verification/File_Ops.thy ===== *)
theory File_Ops imports Archives begin

text \<open>
  The file helper that runs in the data manager's pod (\<open>internal/fileops/fileops.go\<close>): its
  operations on the volume, the checks of its arguments, and the code it exits with, which the API
  turns into a status. One run is one function of the volume; what a game writes meanwhile is not part
  of it. What arrives on its input is the bytes, and whether the stream then ends or fails.
\<close>

record helper =
  hp_links :: nat                                   \<comment> \<open>how many links \<open>os.Root\<close> follows in a name\<close>
  hp_mtime :: "place \<Rightarrow> int"                        \<comment> \<open>the modification times\<close>
  hp_encode :: "tar_entry list \<Rightarrow> bool \<Rightarrow> string"   \<comment> \<open>a tar stream; cut short when not complete\<close>
  hp_decode :: "compression \<Rightarrow> string \<Rightarrow> tar_entry list \<times> bool"
  hp_random :: "nat list"                           \<comment> \<open>the bytes drawn for a temporary name\<close>

type_synonym input = "string \<times> bool"

type_synonym outcome = "string \<times> ferr option"  \<comment> \<open>what was printed, and the error\<close>

definition exit_code :: "ferr option \<Rightarrow> nat" where
  "exit_code e =
     (case e of
        None \<Rightarrow> 0
      | Some Refused \<Rightarrow> 4 | Some Conflict \<Rightarrow> 7
      | Some NotExist \<Rightarrow> 6
      | Some Escapes \<Rightarrow> 4 | Some TooManyLinks \<Rightarrow> 4 | Some NotDir \<Rightarrow> 4 | Some IsDirectory \<Rightarrow> 4
      | Some Exists \<Rightarrow> 1 | Some Other_error \<Rightarrow> 1)"

definition hex_char :: "nat \<Rightarrow> char" where
  "hex_char n = (if n < 10 then of_byte (48 + n) else of_byte (87 + n))"

definition hex_string :: "nat list \<Rightarrow> string" where
  "hex_string bs = concat (map (\<lambda>b. [hex_char (b div 16 mod 16), hex_char (b mod 16)]) bs)"

definition temp_name :: "helper \<Rightarrow> string" where
  "temp_name h = ''.quetzal-part-'' @ hex_string (hp_random h)"

definition plainName :: "string \<Rightarrow> bool" where
  "plainName name = (name \<noteq> [] \<and> name \<noteq> ''.'' \<and> name \<noteq> ''..'' \<and> CHR ''/'' \<notin> set name \<and> CHR 0x00 \<notin> set name)"

definition byte_count :: "string \<Rightarrow> ferr + int" where
  "byte_count s = (case parse_int64 s of Some n \<Rightarrow> if n < 0 then Inl Refused else Inr n | None \<Rightarrow> Inl Refused)"

subsection \<open>The pieces\<close>

definition copy_input :: "nat \<Rightarrow> string \<Rightarrow> input \<Rightarrow> int fop" where
  \<comment> \<open>\<open>io.Copy\<close> of the input onto the end of an open file, whose content was \<open>d\<close>\<close>
  "copy_input i d inp =
     andthen (write_fd i (d @ fst inp)) (\<lambda>_. if snd inp then ret (int (length (fst inp))) else fail Other_error)"

definition available :: "nat \<Rightarrow> string list \<Rightarrow> unit fop" where
  "available L p =
     on_result (Lstat L p) (\<lambda>r. case r of Inr n \<Rightarrow> fail Refused | Inl e \<Rightarrow> if e = NotExist then ret () else fail e)"

definition exists_is_refused :: "unit fop \<Rightarrow> unit fop" where
  "exists_is_refused m = on_result m (\<lambda>r. case r of Inr x \<Rightarrow> ret () | Inl e \<Rightarrow> fail (if e = Exists then Refused else e))"

definition at_child :: "place \<Rightarrow> string \<Rightarrow> place fop" where
  \<comment> \<open>a name as a system call takes it, relative to a directory that is open\<close>
  "at_child q c = (if CHR 0x00 \<in> set c then fail Other_error else ret (q @ [c]))"

definition renameNew :: "nat \<Rightarrow> string list \<Rightarrow> string list \<Rightarrow> unit fop" where
  "renameNew L from to =
     (if from = [] \<or> to = [] then fail Refused
      else andthen (available L to) (\<lambda>_.
           andthen (open_dir L (butlast from)) (\<lambda>src.
           andthen (open_dir L (butlast to)) (\<lambda>dst.
           andthen (at_child src (last from)) (\<lambda>q.
           andthen (at_child dst (last to)) (\<lambda>q'.
           exists_is_refused (rename_noreplace_at q q')))))))"

definition renameNew_in :: "place \<Rightarrow> string \<Rightarrow> string \<Rightarrow> unit fop" where
  \<comment> \<open>in a directory that is held open: both names are plain\<close>
  "renameNew_in q from to s =
     (if get_at s (q @ [to]) \<noteq> None then (s, Inl Refused)
      else exists_is_refused (rename_noreplace_at (q @ [from]) (q @ [to])) s)"

definition atomicWrite :: "helper \<Rightarrow> string list \<Rightarrow> string \<Rightarrow> input \<Rightarrow> unit fop" where
  "atomicWrite h dst expected inp =
     andthen (open_dir (hp_links h) (butlast dst)) (\<lambda>q.
     andthen (create_excl_at (q @ [temp_name h])) (\<lambda>i.
     finally_do
       (andthen (copy_input i [] inp) (\<lambda>n.
        andthen (if expected = [] then ret ()
                 else andthen (ret_result (byte_count expected)) (\<lambda>want. if n \<noteq> want then fail Other_error else ret ())) (\<lambda>_.
        if dst = [] then fail Other_error
        else andthen (at_child q (last dst)) (\<lambda>q'. rename_at (q @ [temp_name h]) q'))))
       (unlink_at (q @ [temp_name h]))))"

definition list_dir :: "helper \<Rightarrow> string list \<Rightarrow> string fop" where
  "list_dir h p =
     andthen (open_dir (hp_links h) p) (\<lambda>q s.
       (s, Inr (concat (map (\<lambda>(c, n).
          (let place = (case walk (hp_links h) (fs_tree s) True [] (p @ [c]) of
                          Inr w \<Rightarrow> (if lookup (fs_tree s) w = None then q @ [c] else w) | Inl e \<Rightarrow> q @ [c]);
               found = (case lookup (fs_tree s) place of Some m \<Rightarrow> m | None \<Rightarrow> n)
           in show_entry \<lparr>fe_name = c,
                fe_size = (case found of File i \<Rightarrow> int (length (fs_blob s i)) | Link t \<Rightarrow> int (length t) | _ \<Rightarrow> 0),
                fe_mtime = hp_mtime h place, fe_dir = is_dir found\<rparr>))
          (case get_at s q of Some (Dir es) \<Rightarrow> es | _ \<Rightarrow> [])))))"

fun copy_node :: "node \<Rightarrow> fsys \<Rightarrow> fsys \<times> node option \<times> ferr option"
  and copy_nodes :: "(string \<times> node) list \<Rightarrow> fsys \<Rightarrow> fsys \<times> (string \<times> node) list \<times> ferr option" where
  \<comment> \<open>the copy as far as it got\<close>
  "copy_node (Link target) s = (s, Some (Link target), None)"
| "copy_node Fifo s = (s, None, Some Refused)"
| "copy_node (File i) s =
     (s\<lparr>fs_blob := (fs_blob s)(fs_next s := fs_blob s i), fs_next := Suc (fs_next s)\<rparr>, Some (File (fs_next s)), None)"
| "copy_node (Dir es) s = (case copy_nodes es s of (s', es', e) \<Rightarrow> (s', Some (Dir es'), e))"
| "copy_nodes [] s = (s, [], None)"
| "copy_nodes ((c, n) # es) s =
     (case copy_node n s of
        (s', n', Some e) \<Rightarrow> (s', (case n' of Some m \<Rightarrow> [(c, m)] | None \<Rightarrow> []), Some e)
      | (s', n', None) \<Rightarrow>
          (case copy_nodes es s' of (s'', es', e) \<Rightarrow> (s'', (case n' of Some m \<Rightarrow> (c, m) # es' | None \<Rightarrow> es'), e)))"

definition copyEntry :: "nat \<Rightarrow> string list \<Rightarrow> string list \<Rightarrow> unit fop" where
  "copyEntry L src dst =
     andthen (Lstat L src) (\<lambda>n.
       if n = Fifo then fail Refused
       else andthen (at_name L False dst) (\<lambda>q s.
         if get_at s q \<noteq> None then (s, Inl Exists)
         else case copy_node n s of (s', n', e) \<Rightarrow>
           (put_at q n' s', case e of None \<Rightarrow> Inr () | Some e \<Rightarrow> Inl e)))"

fun copy_to_first :: "nat \<Rightarrow> string \<Rightarrow> string list \<Rightarrow> string list list \<Rightarrow> string fop" where
  \<comment> \<open>the name printed is \<open>filepath.Join(r.Name(), dst)\<close>\<close>
  "copy_to_first L root src [] = fail Refused"
| "copy_to_first L root src (dst # dsts) =
     on_result (Lstat L dst) (\<lambda>r. case r of
         Inr n \<Rightarrow> copy_to_first L root src dsts
       | Inl e \<Rightarrow> if e \<noteq> NotExist then fail e
                 else andthen (copyEntry L src dst) (\<lambda>_. ret (Join [root, show_path False dst])))"

subsection \<open>The operations\<close>

definition op_shape :: "string \<Rightarrow> (nat \<times> nat option \<times> nat option) option" where
  \<comment> \<open>how many arguments at least and at most, and how many of them are paths; \<open>None\<close> is no bound\<close>
  "op_shape op =
     (if op \<in> {''list'', ''read'', ''archive'', ''mkdir'', ''upload-size'', ''upload-remove''} then Some (1, Some 1, Some 1)
      else if op = ''delete'' then Some (1, None, None)
      else if op \<in> {''write'', ''extract'', ''decompress'', ''upload-check'', ''upload-append''} then Some (2, Some 2, Some 1)
      else if op = ''rename'' then Some (2, Some 2, Some 2)
      else if op \<in> {''move'', ''copy''} then Some (2, None, None)
      else if op = ''compress'' then Some (3, None, Some 1)
      else if op = ''upload-finish-file'' then Some (3, Some 3, Some 2)
      else if op = ''upload-finish-archive'' then Some (4, Some 4, Some 2)
      else None)"

definition derefs :: "string \<Rightarrow> nat \<Rightarrow> bool" where
  "derefs op i =
     (if op \<in> {''archive'', ''write'', ''delete'', ''rename'', ''copy'', ''upload-finish-file'', ''upload-remove''} then False
      else if op = ''move'' then i = 0
      else True)"

fun resolve_args :: "helper \<Rightarrow> string \<Rightarrow> string \<Rightarrow> nat \<Rightarrow> string list \<Rightarrow> string list list fop" where
  "resolve_args h root op i [] = ret []"
| "resolve_args h root op i (a # as) =
     (case relative root a of
        None \<Rightarrow> fail Refused
      | Some r \<Rightarrow>
          andthen (Resolve_op (hp_links h) root (derefs op i) (elems r)) (\<lambda>p.
          andthen (resolve_args h root op (Suc i) as) (\<lambda>ps. ret (p # ps))))"

definition said :: "string fop \<Rightarrow> outcome fop" where
  "said m = on_result m (\<lambda>r. case r of Inl e \<Rightarrow> ret ([], Some e) | Inr out \<Rightarrow> ret (out, None))"

definition silently :: "unit fop \<Rightarrow> outcome fop" where
  "silently m = on_result m (\<lambda>r. case r of Inl e \<Rightarrow> ret ([], Some e) | Inr _ \<Rightarrow> ret ([], None))"

definition op_delete :: "nat \<Rightarrow> string list list \<Rightarrow> unit fop" where
  "op_delete L ps = for_all ps (\<lambda>p. if p = [] then fail Refused else root_RemoveAll L p)"

definition op_move :: "nat \<Rightarrow> string list \<Rightarrow> string list list \<Rightarrow> unit fop" where
  "op_move L dest srcs =
     andthen (open_dir L dest) (\<lambda>_.
     andthen (for_all srcs (\<lambda>p.
        andthen (Lstat L p) (\<lambda>_. available L (dest @ (if p = [] then [] else [last p]))))) (\<lambda>_.
     for_all srcs (\<lambda>p. renameNew L p (dest @ (if p = [] then [] else [last p])))))"

definition op_archive :: "helper \<Rightarrow> string \<Rightarrow> string list \<Rightarrow> outcome fop" where
  "op_archive h root p s =
     (let base = (if p = [] then Base root else last p) in
      case writeArchive (hp_links h) [(p, base)] s of
        (out, e) \<Rightarrow> (s, Inr (if e = None then hp_encode h out True else if out = [] then [] else hp_encode h out False, e)))"

definition op_compress :: "helper \<Rightarrow> string list \<Rightarrow> string \<Rightarrow> string list \<Rightarrow> string fop" where
  "op_compress h p name members =
     (if \<not> plainName name \<or> \<not> list_all plainName members then fail Refused
      else andthen (open_dir (hp_links h) p) (\<lambda>q.
           andthen (\<lambda>s. if get_at s (q @ [name]) \<noteq> None then (s, Inl Refused) else (s, Inr ())) (\<lambda>_.
           andthen (create_excl_at (q @ [temp_name h])) (\<lambda>i.
           finally_do
             (andthen (\<lambda>s. case writeArchive (hp_links h) (map (\<lambda>m. (p @ [m], m)) members) s of
                  (out, None) \<Rightarrow> write_fd i (hp_encode h out True) s
                | (out, Some e) \<Rightarrow> (fst (write_fd i (hp_encode h out False) s), Inl e)) (\<lambda>_.
              andthen (renameNew_in q (temp_name h) name) (\<lambda>_. ret name)))
             (unlink_at (q @ [temp_name h]))))))"

definition op_extract :: "helper \<Rightarrow> string \<Rightarrow> string list \<Rightarrow> string \<Rightarrow> input \<Rightarrow> unit fop" where
  "op_extract h root p format inp =
     andthen (root_MkdirAll (hp_links h) p) (\<lambda>_.
     andthen (open_dir (hp_links h) p) (\<lambda>q.
     andthen (create_excl_at (q @ [temp_name h])) (\<lambda>i.
     finally_do
       (andthen (copy_input i [] inp) (\<lambda>_.
        extractArchive (hp_decode h) (hp_links h) root p (fst inp) format))
       (unlink_at (q @ [temp_name h])))))"

definition op_decompress :: "helper \<Rightarrow> string \<Rightarrow> string list \<Rightarrow> string \<Rightarrow> unit fop" where
  "op_decompress h root p format =
     andthen (open_read (hp_links h) p) (\<lambda>i.
     andthen (read_fd i) (\<lambda>data.
     extractArchive (hp_decode h) (hp_links h) root (butlast p) data format))"

definition op_upload_check :: "nat \<Rightarrow> string list \<Rightarrow> string \<Rightarrow> unit fop" where
  "op_upload_check L p kind =
     (if kind = ''archive'' then root_MkdirAll L p
      else andthen (open_dir L (butlast p)) (\<lambda>_.
           on_result (Stat L p) (\<lambda>r. case r of
               Inl e \<Rightarrow> if e = NotExist then ret () else fail e
             | Inr n \<Rightarrow> (case n of File i \<Rightarrow> ret () | _ \<Rightarrow> fail Refused))))"

definition op_upload_size :: "nat \<Rightarrow> string list \<Rightarrow> string fop" where
  "op_upload_size L p =
     on_result (open_read L p) (\<lambda>r. case r of
         Inl e \<Rightarrow> if e = NotExist then ret (show_int 0) else fail e
       | Inr i \<Rightarrow> andthen (read_fd i) (\<lambda>d. ret (show_int (int (length d)))))"

definition op_upload_append :: "nat \<Rightarrow> string list \<Rightarrow> string \<Rightarrow> input \<Rightarrow> outcome fop" where
  "op_upload_append L p offset inp =
     (case byte_count offset of
        Inl e \<Rightarrow> ret ([], Some e)
      | Inr want \<Rightarrow>
          on_result (open_append L p) (\<lambda>r. case r of
              Inl e \<Rightarrow> ret ([], Some e)
            | Inr i \<Rightarrow> andthen (read_fd i) (\<lambda>d.
                if int (length d) \<noteq> want then ret (show_int (int (length d)), Some Conflict)
                else said (andthen (copy_input i d inp) (\<lambda>n. ret (show_int (want + n)))))))"

definition op_upload_finish :: "helper \<Rightarrow> string \<Rightarrow> string \<Rightarrow> string list \<Rightarrow> string list \<Rightarrow> string \<Rightarrow> string \<Rightarrow> unit fop" where
  "op_upload_finish h root op tmp dst size_arg format =
     andthen (ret_result (byte_count size_arg)) (\<lambda>want.
     on_result (open_read (hp_links h) tmp) (\<lambda>r. case r of
         Inl e \<Rightarrow> fail (if e = NotExist then Conflict else e)
       | Inr i \<Rightarrow> andthen (read_fd i) (\<lambda>d.
           if int (length d) \<noteq> want then fail Conflict
           else if op = ''upload-finish-file'' then root_Rename (hp_links h) tmp dst
           else andthen (root_MkdirAll (hp_links h) dst) (\<lambda>_.
                on_result (extractArchive (hp_decode h) (hp_links h) root dst d format) (\<lambda>r.
                on_result (root_Remove (hp_links h) tmp) (\<lambda>r'.
                  case r of Inl e \<Rightarrow> fail e | Inr _ \<Rightarrow> ret_result r')))))) "

definition run_op :: "helper \<Rightarrow> string \<Rightarrow> string \<Rightarrow> string list list \<Rightarrow> string list \<Rightarrow> input \<Rightarrow> outcome fop" where
  \<comment> \<open>\<open>ps\<close> are the arguments that are paths, resolved, and \<open>as\<close> the others\<close>
  "run_op h root op ps as inp =
     (let L = hp_links h in
      if op = ''list'' then said (list_dir h (ps ! 0))
      else if op = ''read'' then said (andthen (open_read L (ps ! 0)) read_fd)
      else if op = ''write'' then silently (atomicWrite h (ps ! 0) (as ! 0) inp)
      else if op = ''mkdir'' then silently (root_MkdirAll L (ps ! 0))
      else if op = ''delete'' then silently (op_delete L ps)
      else if op = ''rename'' then silently (renameNew L (ps ! 0) (ps ! 1))
      else if op = ''move'' then silently (op_move L (hd ps) (tl ps))
      else if op = ''copy'' then
        said (andthen (Lstat L (hd ps)) (\<lambda>_. copy_to_first L root (hd ps) (tl ps)))
      else if op = ''archive'' then op_archive h root (ps ! 0)
      else if op = ''compress'' then said (op_compress h (ps ! 0) (as ! 0) (tl as))
      else if op = ''extract'' then silently (op_extract h root (ps ! 0) (as ! 0) inp)
      else if op = ''decompress'' then silently (op_decompress h root (ps ! 0) (as ! 0))
      else if op = ''upload-check'' then silently (op_upload_check L (ps ! 0) (as ! 0))
      else if op = ''upload-size'' then said (op_upload_size L (ps ! 0))
      else if op = ''upload-append'' then op_upload_append L (ps ! 0) (as ! 0) inp
      else if op = ''upload-finish-file'' then silently (op_upload_finish h root op (ps ! 0) (ps ! 1) (as ! 0) [])
      else if op = ''upload-finish-archive'' then silently (op_upload_finish h root op (ps ! 0) (ps ! 1) (as ! 0) (as ! 1))
      else if op = ''upload-remove'' then silently (unless_missing (root_Remove L (ps ! 0)))
      else ret ([], Some Refused))"

definition execute :: "helper \<Rightarrow> string \<Rightarrow> string \<Rightarrow> string list \<Rightarrow> input \<Rightarrow> outcome fop" where
  "execute h root op args inp =
     (case op_shape op of
        None \<Rightarrow> ret ([], Some Refused)
      | Some (least, most, paths) \<Rightarrow>
          if length args < least \<or> (case most of None \<Rightarrow> False | Some m \<Rightarrow> length args \<noteq> m)
          then ret ([], Some Refused)
          else let k = (case paths of None \<Rightarrow> length args | Some k \<Rightarrow> k) in
            on_result (resolve_args h root op 0 (take k args)) (\<lambda>r. case r of
                Inl e \<Rightarrow> ret ([], Some e)
              | Inr ps \<Rightarrow> run_op h root op ps (drop k args) inp))"

definition Run :: "helper \<Rightarrow> string list \<Rightarrow> input \<Rightarrow> fsys \<Rightarrow> fsys \<times> string \<times> nat" where
  \<comment> \<open>\<open>ROOT OP ARGS...\<close>: the volume, what is printed and the exit code\<close>
  "Run h args inp s =
     (case args of
        root # op # as \<Rightarrow>
          (case execute h root op as inp s of
             (s', Inl e) \<Rightarrow> (s', [], exit_code (Some e))
           | (s', Inr (out, e)) \<Rightarrow> (s', out, exit_code e))
      | _ \<Rightarrow> (s, [], 4))"


subsection \<open>Every operation keeps the volume well-formed\<close>

lemma hex_char_ok: "CHR ''/'' \<noteq> hex_char (n mod 16) \<and> CHR 0x00 \<noteq> hex_char (n mod 16)"
proof -
  have "n mod 16 \<in> set [0..<16]" by simp
  moreover have "list_all (\<lambda>m. CHR ''/'' \<noteq> hex_char m \<and> CHR 0x00 \<noteq> hex_char m) [0..<16]" by code_simp
  ultimately show ?thesis unfolding list_all_iff by (rule bspec [rotated])
qed

lemma file_name_temp: "file_name (temp_name h)"
proof -
  have "CHR ''/'' \<notin> set (hex_string bs)" "CHR 0x00 \<notin> set (hex_string bs)" for bs
    using hex_char_ok by (auto simp: hex_string_def)
  then show ?thesis by (simp add: temp_name_def file_name_def plain_elem_def)
qed

lemma at_place_temp: "at_place q \<Longrightarrow> at_place (q @ [temp_name h])"
  by (simp add: at_place_def file_name_temp)

lemma at_place_snoc: "at_place q \<Longrightarrow> file_name c \<Longrightarrow> at_place (q @ [c])"
  by (simp add: at_place_def)

lemma plainName_file_name: "plainName c = file_name c"
  by (auto simp: plainName_def file_name_def plain_elem_def)

lemma keeps_copy_input: "keeps (copy_input i d inp) anyhow"
  unfolding copy_input_def by (intro keeps_rules)

lemma keeps_available: "keeps (available L p) anyhow"
  unfolding available_def by (rule keeps_on_result [OF keeps_Lstat]) (auto intro: keeps_rules)

lemma keeps_exists_is_refused: "keeps m anyhow \<Longrightarrow> keeps (exists_is_refused m) anyhow"
  unfolding exists_is_refused_def by (rule keeps_on_result [where Q = anyhow]) (auto intro: keeps_rules)

lemma keeps_at_child: "at_place q \<Longrightarrow> plain_elem c \<Longrightarrow> keeps (at_child q c) at_place"
  by (auto simp: keeps_def at_child_def ret_def fail_def at_place_def file_name_def)

lemma plain_last: "plain p \<Longrightarrow> p \<noteq> [] \<Longrightarrow> plain_elem (last p)"
  by (simp add: plain_def list_all_iff)

lemma keeps_renameNew: "plain from \<Longrightarrow> plain to \<Longrightarrow> keeps (renameNew L from to) anyhow"
  unfolding renameNew_def
  by (rule keeps_if [OF keeps_fail], rule keeps_andthen [OF keeps_available],
      rule keeps_andthen [OF keeps_open_dir], erule plain_butlast,
      rule keeps_andthen [OF keeps_open_dir], erule plain_butlast,
      rule keeps_andthen [OF keeps_at_child], assumption, simp add: plain_last,
      rule keeps_andthen [OF keeps_at_child], assumption, simp add: plain_last)
     (intro keeps_exists_is_refused keeps_rename_noreplace_at)

lemma keeps_renameNew_in:
  "at_place q \<Longrightarrow> file_name c \<Longrightarrow> file_name d \<Longrightarrow> keeps (renameNew_in q c d) anyhow"
  using keeps_exists_is_refused [OF keeps_rename_noreplace_at, of "q @ [c]" "q @ [d]"]
  by (auto simp: keeps_def renameNew_in_def at_place_snoc)

lemma keeps_atomicWrite: "plain dst \<Longrightarrow> keeps (atomicWrite h dst expected inp) anyhow"
  unfolding atomicWrite_def
proof (rule keeps_andthen [OF keeps_open_dir], erule plain_butlast)
  fix q assume p: "plain dst" and q: "at_place q"
  note t = at_place_temp [OF q, of h]
  have r: "keeps (if dst = [] then fail Other_error
      else andthen (at_child q (last dst)) (\<lambda>q'. rename_at (q @ [temp_name h]) q')) anyhow"
    by (rule keeps_if [OF keeps_fail], rule keeps_andthen [OF keeps_at_child [OF q]], simp add: plain_last [OF p])
       (rule keeps_rename_at [OF t])
  show "keeps (andthen (create_excl_at (q @ [temp_name h])) (\<lambda>i.
     finally_do
       (andthen (copy_input i [] inp) (\<lambda>n.
        andthen (if expected = [] then ret ()
                 else andthen (ret_result (byte_count expected)) (\<lambda>want. if n \<noteq> want then fail Other_error else ret ())) (\<lambda>_.
        if dst = [] then fail Other_error
        else andthen (at_child q (last dst)) (\<lambda>q'. rename_at (q @ [temp_name h]) q'))))
       (unlink_at (q @ [temp_name h])))) anyhow"
    by (rule keeps_andthen [OF keeps_create_excl_at [OF t]], rule keeps_finally [OF _ keeps_unlink_at [OF t]],
        rule keeps_andthen [OF keeps_copy_input], rule keeps_andthen_any [OF _ r])
       (intro keeps_rules keeps_ret_result TrueI)
qed

lemma keeps_list_dir: "plain p \<Longrightarrow> keeps (list_dir h p) anyhow"
  unfolding list_dir_def by (rule keeps_andthen [OF keeps_open_dir], assumption, rule keeps_same_state) auto

lemma range_mono: "A \<subseteq> {a..<b} \<Longrightarrow> a' \<le> a \<Longrightarrow> b \<le> b' \<Longrightarrow> A \<subseteq> {a'..<b' :: nat}"
  by auto

lemma copy_node_ok:
  "wf_tree n \<Longrightarrow> inodes n \<subseteq> {..<fs_next s} \<Longrightarrow> copy_node n s = (s', n', e) \<Longrightarrow>
     fs_tree s' = fs_tree s \<and> fs_next s \<le> fs_next s'
     \<and> (\<forall>i < fs_next s. fs_blob s' i = fs_blob s i)
     \<and> (\<forall>m. n' = Some m \<longrightarrow> wf_tree m \<and> inodes m \<subseteq> {fs_next s..<fs_next s'})"
  "wf_tree (Dir es) \<Longrightarrow> inodes (Dir es) \<subseteq> {..<fs_next s} \<Longrightarrow> copy_nodes es s = (s', es', e) \<Longrightarrow>
     fs_tree s' = fs_tree s \<and> fs_next s \<le> fs_next s'
     \<and> (\<forall>i < fs_next s. fs_blob s' i = fs_blob s i)
     \<and> wf_tree (Dir es') \<and> inodes (Dir es') \<subseteq> {fs_next s..<fs_next s'} \<and> fst ` set es' \<subseteq> fst ` set es"
proof (induction n s and es s arbitrary: s' n' e and s' es' e rule: copy_node_copy_nodes.induct)
  case (4 es s)
  obtain u ms f where u: "copy_nodes es s = (u, ms, f)" by (metis prod_cases3)
  then have "s' = u" "n' = Some (Dir ms)" "e = f" using 4(4) by auto
  with 4(1) [OF 4(2,3) u] show ?case by (simp del: wf_tree.simps inodes.simps)
next
  case (6 c n es s)
  obtain u m f where u: "copy_node n s = (u, m, f)" by (metis prod_cases3)
  have IH: "fs_tree u = fs_tree s \<and> fs_next s \<le> fs_next u \<and> (\<forall>i < fs_next s. fs_blob u i = fs_blob s i)
      \<and> (\<forall>k. m = Some k \<longrightarrow> wf_tree k \<and> inodes k \<subseteq> {fs_next s..<fs_next u})"
    by (rule "6.IH"(1) [OF _ _ u]) (use 6(3,4) in auto)
  show ?case
  proof (cases f)
    case (Some e')
    with 6(3,5) u IH show ?thesis by (auto split: option.splits)
  next
    case None
    obtain v ms g where v: "copy_nodes es u = (v, ms, g)" by (metis prod_cases3)
    have "inodes (Dir es) \<subseteq> {..<fs_next s}" using 6(4) by auto
    then have "inodes (Dir es) \<subseteq> {..<fs_next u}" "wf_tree (Dir es)"
      using 6(3) IH by (meson lessThan_iff order_less_le_trans subset_iff, auto)
    then have IH2: "fs_tree v = fs_tree u \<and> fs_next u \<le> fs_next v \<and> (\<forall>i < fs_next u. fs_blob v i = fs_blob u i)
        \<and> wf_tree (Dir ms) \<and> inodes (Dir ms) \<subseteq> {fs_next u..<fs_next v} \<and> fst ` set ms \<subseteq> fst ` set es"
      by (intro "6.IH"(2) [OF u [symmetric] refl None _ _ v]) auto
    note a = IH [THEN conjunct1] IH [THEN conjunct2, THEN conjunct1] IH [THEN conjunct2, THEN conjunct2]
    note b = IH2 [THEN conjunct1] IH2 [THEN conjunct2, THEN conjunct1] IH2 [THEN conjunct2, THEN conjunct2]
    have names: "fst ` set ms \<subseteq> fst ` set es" and wms: "wf_tree (Dir ms)"
      and ims: "inodes (Dir ms) \<subseteq> {fs_next u..<fs_next v}"
      by (rule b(3) [THEN conjunct2, THEN conjunct2, THEN conjunct2], rule b(3) [THEN conjunct2, THEN conjunct1],
          rule b(3) [THEN conjunct2, THEN conjunct2, THEN conjunct1])
    have t: "fs_tree v = fs_tree s" "fs_next s \<le> fs_next v" using a(1,2) b(1,2) by simp_all
    have blob: "fs_blob v i = fs_blob s i" if "i < fs_next s" for i
      using a(3) [THEN conjunct1, rule_format, OF that] b(3) [THEN conjunct1, rule_format, of i] a(2) that by simp
    have i: "inodes (Dir ms) \<subseteq> {fs_next s..<fs_next v}" by (rule range_mono [OF ims a(2) order_refl])
    have r: "s' = v" "es' = (case m of Some k \<Rightarrow> (c, k) # ms | None \<Rightarrow> ms)" "e = g"
      using 6(5) u v None by auto
    show ?thesis
    proof (cases m)
      case N: None
      have n: "fst ` set ms \<subseteq> fst ` set ((c, n) # es)" using names by auto
      show ?thesis
        unfolding r N option.case by (intro conjI allI impI t blob wms i n)
    next
      case (Some k)
      have k: "wf_tree k" "inodes k \<subseteq> {fs_next s..<fs_next u}"
        using a(3) [THEN conjunct2, rule_format, OF Some] by (rule conjunct1, rule conjunct2)
      have c: "c \<notin> fst ` set ms" "file_name c" using 6(3) names by auto
      have "inodes k \<subseteq> {fs_next s..<fs_next v}" by (rule range_mono [OF k(2) order_refl b(2)])
      with i have i': "inodes (Dir ((c, k) # ms)) \<subseteq> {fs_next s..<fs_next v}" by simp
      have w: "wf_tree (Dir ((c, k) # ms))" using c k wms by simp
      have n: "fst ` set ((c, k) # ms) \<subseteq> fst ` set ((c, n) # es)" using names by auto
      show ?thesis
        unfolding r Some option.case by (intro conjI allI impI t blob w i' n)
    qed
  qed
qed auto

lemma keeps_copyEntry: "plain dst \<Longrightarrow> keeps (copyEntry L src dst) anyhow"
  unfolding copyEntry_def
proof (rule keepsI)
  fix s s' r
  assume p: "plain dst" and s: "wf_fs s"
    and m: "andthen (Lstat L src) (\<lambda>n. if n = Fifo then fail Refused
       else andthen (at_name L False dst) (\<lambda>q s. if get_at s q \<noteq> None then (s, Inl Exists)
         else case copy_node n s of (s', n', e) \<Rightarrow>
           (put_at q n' s', case e of None \<Rightarrow> Inr () | Some e \<Rightarrow> Inl e))) s = (s', r)"
  show "wf_fs s' \<and> (\<forall>x. r = Inr x \<longrightarrow> anyhow x)"
  proof (cases "Lstat_at L (fs_tree s) False src")
    case (Inl e)
    with m s show ?thesis by (simp add: andthen_def Lstat_def)
  next
    case (Inr n)
    have n: "wf_tree n" "inodes n \<subseteq> {..<fs_next s}"
      using Inr s wf_lookup inodes_lookup
      by (fastforce simp: Lstat_at_def wf_fs_def split: sum.splits option.splits)+
    show ?thesis
    proof (cases "n = Fifo")
      case True
      with m s Inr show ?thesis by (simp add: andthen_def Lstat_def fail_def)
    next
      case False
      show ?thesis
      proof (cases "walk L (fs_tree s) False [] dst")
        case Inl': (Inl e)
        with m s Inr False show ?thesis by (simp add: andthen_def Lstat_def at_name_def)
      next
        case w: (Inr q)
        then have q: "at_place q"
          using keeps_volumeD(2) [OF keeps_at_name [OF p] s, of L False s "Inr q"] by (simp add: at_name_def)
        obtain u n' e where u: "copy_node n s = (u, n', e)" by (metis prod_cases3)
        note c = copy_node_ok(1) [OF n u]
        have "wf_fs u" using c s by (auto simp: wf_fs_def)
        then have "wf_fs (put_at q n' u)"
          using c by (intro wf_put) (auto simp: at_place_last [OF q])
        with m s Inr False w u show ?thesis
          by (auto simp: andthen_def Lstat_def at_name_def split: if_splits)
      qed
    qed
  qed
qed

lemma keeps_copy_to_first: "list_all plain dsts \<Longrightarrow> keeps (copy_to_first L root src dsts) anyhow"
proof (induction dsts)
  case (Cons dst dsts)
  then have p: "plain dst" "keeps (copy_to_first L root src dsts) anyhow" by auto
  show ?case
    unfolding copy_to_first.simps
    by (rule keeps_on_result [OF keeps_Lstat])
       (auto intro: keeps_rules p keeps_andthen [OF keeps_copyEntry [OF p(1)]])
qed (simp add: keeps_fail)

lemma keeps_said: "keeps m anyhow \<Longrightarrow> keeps (said m) anyhow"
  unfolding said_def by (rule keeps_on_result [where Q = anyhow]) (auto intro: keeps_rules)

lemma keeps_silently: "keeps m anyhow \<Longrightarrow> keeps (silently m) anyhow"
  unfolding silently_def by (rule keeps_on_result [where Q = anyhow]) (auto intro: keeps_rules)

lemma keeps_op_delete: "list_all plain ps \<Longrightarrow> keeps (op_delete L ps) anyhow"
  unfolding op_delete_def
  by (rule keeps_for_all) (auto simp: list_all_iff intro!: keeps_rules keeps_RemoveAll)

lemma keeps_op_move:
  assumes "plain dest" "list_all plain srcs" shows "keeps (op_move L dest srcs) anyhow"
proof -
  have pd: "plain (dest @ (if p = [] then [] else [last p]))" if "p \<in> set srcs" for p
    using assms that plain_last [of p] by (auto simp: plain_def list_all_iff)
  have "keeps (for_all srcs (\<lambda>p. andthen (Lstat L p) (\<lambda>_. available L (dest @ (if p = [] then [] else [last p]))))) anyhow"
    by (rule keeps_for_all, rule keeps_andthen [OF keeps_Lstat keeps_available])
  moreover have "keeps (for_all srcs (\<lambda>p. renameNew L p (dest @ (if p = [] then [] else [last p])))) anyhow"
    using assms(2) pd by (auto simp: list_all_iff intro!: keeps_for_all keeps_renameNew)
  ultimately show ?thesis
    unfolding op_move_def by (intro keeps_andthen [OF keeps_open_dir [OF assms(1)]] keeps_andthen_any)
qed

lemma keeps_op_compress: "plain p \<Longrightarrow> keeps (op_compress h p name members) anyhow"
  unfolding op_compress_def
proof (rule keeps_if [OF keeps_fail], rule keeps_andthen [OF keeps_open_dir], assumption)
  fix q assume n: "\<not> (\<not> plainName name \<or> \<not> list_all plainName members)" and q: "at_place q"
  note t = at_place_temp [OF q, of h]
  have free: "keeps (\<lambda>s. if get_at s (q @ [name]) \<noteq> None then (s, Inl Refused) else (s, Inr ())) anyhow"
    by (rule keeps_same_state) auto
  have w: "keeps (\<lambda>s. case writeArchive (hp_links h) (map (\<lambda>m. (p @ [m], m)) members) s of
                  (out, None) \<Rightarrow> write_fd i (hp_encode h out True) s
                | (out, Some e) \<Rightarrow> (fst (write_fd i (hp_encode h out False) s), Inl e)) anyhow" for i
    by (auto simp: keeps_def write_fd_def wf_fs_def split: prod.splits option.splits)
  show "keeps (andthen (\<lambda>s. if get_at s (q @ [name]) \<noteq> None then (s, Inl Refused) else (s, Inr ())) (\<lambda>_.
           andthen (create_excl_at (q @ [temp_name h])) (\<lambda>i.
           finally_do
             (andthen (\<lambda>s. case writeArchive (hp_links h) (map (\<lambda>m. (p @ [m], m)) members) s of
                  (out, None) \<Rightarrow> write_fd i (hp_encode h out True) s
                | (out, Some e) \<Rightarrow> (fst (write_fd i (hp_encode h out False) s), Inl e)) (\<lambda>_.
              andthen (renameNew_in q (temp_name h) name) (\<lambda>_. ret name)))
             (unlink_at (q @ [temp_name h]))))) anyhow"
    by (rule keeps_andthen [OF free], rule keeps_andthen [OF keeps_create_excl_at [OF t]],
        rule keeps_finally [OF _ keeps_unlink_at [OF t]], rule keeps_andthen [OF w],
        rule keeps_andthen [OF keeps_renameNew_in [OF q file_name_temp]], use n in \<open>simp add: plainName_file_name\<close>,
        rule keeps_ret_unit)
qed

lemma keeps_op_extract: "plain p \<Longrightarrow> keeps (op_extract h root p format inp) anyhow"
  unfolding op_extract_def
  by (rule keeps_andthen [OF keeps_MkdirAll], assumption, rule keeps_andthen [OF keeps_open_dir], assumption,
      rule keeps_andthen [OF keeps_create_excl_at], erule at_place_temp,
      rule keeps_finally [OF _ keeps_unlink_at], rule keeps_andthen [OF keeps_copy_input],
      rule keeps_extractArchive, assumption, erule at_place_temp)

lemma keeps_op_decompress: "plain p \<Longrightarrow> keeps (op_decompress h root p format) anyhow"
  unfolding op_decompress_def
  by (rule keeps_andthen [OF keeps_open_read], assumption, rule keeps_andthen [OF keeps_read_fd],
      rule keeps_extractArchive, erule plain_butlast)

lemma keeps_op_upload_check: "plain p \<Longrightarrow> keeps (op_upload_check L p kind) anyhow"
  unfolding op_upload_check_def
  by (rule keeps_if [OF keeps_MkdirAll], assumption, rule keeps_andthen [OF keeps_open_dir], erule plain_butlast,
      rule keeps_on_result [OF keeps_Stat]) (auto intro: keeps_rules split: node.splits)

lemma keeps_op_upload_size: "plain p \<Longrightarrow> keeps (op_upload_size L p) anyhow"
  unfolding op_upload_size_def
  by (rule keeps_on_result [OF keeps_open_read], assumption)
     (auto intro: keeps_rules keeps_andthen [OF keeps_read_fd])

lemma keeps_op_upload_append: "plain p \<Longrightarrow> keeps (op_upload_append L p offset inp) anyhow"
  unfolding op_upload_append_def
  by (cases "byte_count offset")
     (auto intro!: keeps_ret_unit keeps_on_result [OF keeps_open_append] keeps_andthen [OF keeps_read_fd]
        keeps_said keeps_andthen [OF keeps_copy_input])

lemma keeps_op_upload_finish:
  "plain tmp \<Longrightarrow> plain dst \<Longrightarrow> keeps (op_upload_finish h root op tmp dst size_arg format) anyhow"
  unfolding op_upload_finish_def
  by (rule keeps_andthen [OF keeps_ret_result [where Q = anyhow]], simp,
      rule keeps_on_result [OF keeps_open_read], assumption)
     (auto intro!: keeps_rules keeps_Rename keeps_MkdirAll keeps_extractArchive keeps_Remove keeps_ret_result
        split: sum.splits)


lemma keeps_op_archive: "keeps (op_archive h root p) anyhow"
  by (auto simp: keeps_def op_archive_def Let_def split: prod.splits)

lemma keeps_resolve_args:
  "keeps (resolve_args h root op i as) (\<lambda>ps. list_all plain ps \<and> length ps = length as)"
proof (induction as arbitrary: i)
  case Nil
  show ?case unfolding resolve_args.simps by (rule keeps_ret) simp
next
  case (Cons a as)
  show ?case
  proof (cases "relative root a")
    case None
    then show ?thesis by (simp add: keeps_fail)
  next
    case (Some r)
    then show ?thesis
      unfolding resolve_args.simps Some option.case
      by (intro keeps_andthen [OF keeps_Resolve_op] keeps_andthen [OF Cons.IH] keeps_ret) simp
  qed
qed

lemma op_shapes:
  "op_shape op \<in> {None, Some (1, Some 1, Some 1), Some (1, None, None), Some (2, Some 2, Some 1),
     Some (2, Some 2, Some 2), Some (2, None, None), Some (3, None, Some 1), Some (3, Some 3, Some 2),
     Some (4, Some 4, Some 2)}"
  by (simp only: op_shape_def insert_iff refl simp_thms split: if_split)

lemma op_shape_two:
  "op_shape ''rename'' = Some (2, Some 2, Some 2)" "op_shape ''upload-finish-file'' = Some (3, Some 3, Some 2)"
  "op_shape ''upload-finish-archive'' = Some (4, Some 4, Some 2)"
  by code_simp+

lemma shape_paths:
  assumes "op_shape op = Some (least, most, paths)" "\<not> (length args < least \<or> (case most of None \<Rightarrow> False | Some m \<Rightarrow> length args \<noteq> m))"
    "length ps = length (take (case paths of None \<Rightarrow> length args | Some k \<Rightarrow> k) args)"
  shows "ps \<noteq> [] \<and> (op \<in> {''rename'', ''upload-finish-file'', ''upload-finish-archive''} \<longrightarrow> length ps = 2)"
proof
  have l: "least \<ge> 1" "paths = None \<or> (\<exists>k \<ge> 1. paths = Some k)"
    using op_shapes [of op] unfolding assms(1) by auto
  then show "ps \<noteq> []" using assms(2,3) by (cases ps) auto
  show "op \<in> {''rename'', ''upload-finish-file'', ''upload-finish-archive''} \<longrightarrow> length ps = 2"
  proof
    assume "op \<in> {''rename'', ''upload-finish-file'', ''upload-finish-archive''}"
    then have "paths = Some 2" "least \<ge> 2"
      using assms(1) op_shape_two unfolding insert_iff empty_iff by (elim disjE; simp)+
    with assms(2,3) show "length ps = 2" by simp
  qed
qed

lemma keeps_run_op:
  assumes "list_all plain ps" "ps \<noteq> []"
    and "op \<in> {''rename'', ''upload-finish-file'', ''upload-finish-archive''} \<Longrightarrow> length ps = 2"
  shows "keeps (run_op h root op ps as inp) anyhow"
proof -
  have p0: "plain (ps ! 0)" "plain (hd ps)" "list_all plain (tl ps)"
    using assms(1,2) by (cases ps; simp)+
  have p1: "plain (ps ! 1)" if "op \<in> {''rename'', ''upload-finish-file'', ''upload-finish-archive''}"
    using assms(1) assms(3) [OF that] by (simp add: list_all_length)
  have c: "keeps (andthen (Lstat (hp_links h) (hd ps)) (\<lambda>_. copy_to_first (hp_links h) root (hd ps) (tl ps))) anyhow"
    by (rule keeps_andthen [OF keeps_Lstat keeps_copy_to_first [OF p0(3)]])
  have r: "keeps (andthen (open_read (hp_links h) (ps ! 0)) read_fd) anyhow"
    by (rule keeps_andthen [OF keeps_open_read [OF p0(1)] keeps_read_fd])
  have two: "op = ''rename'' \<Longrightarrow> plain (ps ! 1)" "op = ''upload-finish-file'' \<Longrightarrow> plain (ps ! 1)"
      "op = ''upload-finish-archive'' \<Longrightarrow> plain (ps ! 1)"
    by (rule p1, simp only: insert_iff simp_thms)+
  show ?thesis
    unfolding run_op_def Let_def
    by (rule keeps_if [OF keeps_said [OF keeps_list_dir [OF p0(1)]]],
        rule keeps_if [OF keeps_said [OF r]],
        rule keeps_if [OF keeps_silently [OF keeps_atomicWrite [OF p0(1)]]],
        rule keeps_if [OF keeps_silently [OF keeps_MkdirAll [OF p0(1)]]],
        rule keeps_if [OF keeps_silently [OF keeps_op_delete [OF assms(1)]]],
        rule keeps_if [OF keeps_silently [OF keeps_renameNew [OF p0(1) two(1)]]], assumption,
        rule keeps_if [OF keeps_silently [OF keeps_op_move [OF p0(2,3)]]],
        rule keeps_if [OF keeps_said [OF c]],
        rule keeps_if [OF keeps_op_archive],
        rule keeps_if [OF keeps_said [OF keeps_op_compress [OF p0(1)]]],
        rule keeps_if [OF keeps_silently [OF keeps_op_extract [OF p0(1)]]],
        rule keeps_if [OF keeps_silently [OF keeps_op_decompress [OF p0(1)]]],
        rule keeps_if [OF keeps_silently [OF keeps_op_upload_check [OF p0(1)]]],
        rule keeps_if [OF keeps_said [OF keeps_op_upload_size [OF p0(1)]]],
        rule keeps_if [OF keeps_op_upload_append [OF p0(1)]],
        rule keeps_if [OF keeps_silently [OF keeps_op_upload_finish [OF p0(1) two(2)]]], assumption,
        rule keeps_if [OF keeps_silently [OF keeps_op_upload_finish [OF p0(1) two(3)]]], assumption,
        rule keeps_if [OF keeps_silently [OF keeps_unless_missing [OF keeps_Remove [OF p0(1)]]] keeps_ret_unit])
qed

lemma keeps_execute: "keeps (execute h root op args inp) anyhow"
proof (cases "op_shape op")
  case None
  then show ?thesis by (simp add: execute_def keeps_ret_unit)
next
  case (Some shape)
  obtain least most paths where sh: "shape = (least, most, paths)" by (metis prod_cases3)
  let ?bad = "length args < least \<or> (case most of None \<Rightarrow> False | Some m \<Rightarrow> length args \<noteq> m)"
  let ?k = "case paths of None \<Rightarrow> length args | Some k \<Rightarrow> k"
  have ok: "keeps (on_result (resolve_args h root op 0 (take ?k args)) (\<lambda>r. case r of
                Inl e \<Rightarrow> ret ([], Some e)
              | Inr ps \<Rightarrow> run_op h root op ps (drop ?k args) inp)) anyhow" if "\<not> ?bad"
  proof (rule keeps_on_result [OF keeps_resolve_args])
    show "keeps (case Inl e of Inl e \<Rightarrow> ret ([], Some e) | Inr ps \<Rightarrow> run_op h root op ps (drop ?k args) inp) anyhow" for e
      by (simp add: keeps_ret_unit)
    fix ps assume ps: "list_all plain ps \<and> length ps = length (take ?k args)"
    have "ps \<noteq> [] \<and> (op \<in> {''rename'', ''upload-finish-file'', ''upload-finish-archive''} \<longrightarrow> length ps = 2)"
      using shape_paths [OF Some [unfolded sh] that] ps by blast
    then have "keeps (run_op h root op ps (drop ?k args) inp) anyhow"
      using ps by (intro keeps_run_op) blast+
    then show "keeps (case Inr ps of Inl e \<Rightarrow> ret ([], Some e) | Inr ps \<Rightarrow> run_op h root op ps (drop ?k args) inp) anyhow"
      by simp
  qed
  show ?thesis
    unfolding execute_def Some sh option.case prod.case Let_def
    by (rule keeps_if [OF keeps_ret_unit ok])
qed

lemma keeps_Run: "wf_fs s \<Longrightarrow> Run h args inp s = (s', out, code) \<Longrightarrow> wf_fs s'"
  using keeps_volumeD(1) [OF keeps_execute]
  by (auto simp: Run_def split: list.splits prod.splits sum.splits)


definition demo_helper :: helper where
  "demo_helper =
     \<lparr>hp_links = 40, hp_mtime = (\<lambda>_. 0), hp_encode = (\<lambda>es ok. ''tar''), hp_decode = (\<lambda>c d. ([], True)), hp_random = [7]\<rparr>"

definition demo_fs :: fsys where
  "demo_fs = \<lparr>fs_tree = Dir [(''world'', Dir [(''level.dat'', File 0)]), (''server.jar'', File 1)],
     fs_blob = (\<lambda>i. if i = 0 then ''old'' else ''jar''), fs_next = 2\<rparr>"

lemma demo_fs_ok: "wf_fs demo_fs"
  by code_simp


end
