(* ===== verification/File_Props.thy ===== *)
theory File_Props imports File_Ops "HOL-Library.Multiset" begin

text \<open>
  What the file manager promises: the API and the helper agree on what a path names; a write replaces
  a file in one step or changes nothing; what renames, moves, copies and archives do never costs an
  entry that was there.
\<close>

subsection \<open>The tree after a change undone\<close>

lemma upd_undo: "c \<notin> fst ` set es \<Longrightarrow> upd c None (upd c x es) = es"
  by (induction es) (auto split: option.splits)

lemma upd_same: "map_of es c = Some n \<Longrightarrow> upd c (Some n) es = es"
  by (induction es) (auto split: if_splits)

lemma upd_none: "c \<notin> fst ` set es \<Longrightarrow> upd c None es = es"
  by (induction es) auto

lemma upd_upd: "upd c (Some n) (upd c (Some m) es) = upd c (Some n) es"
  by (induction es) auto

lemma alter_undo:
  "lookup t (p @ [c]) = None \<Longrightarrow> alter (p @ [c]) (\<lambda>_. None) (alter (p @ [c]) (\<lambda>_. Some x) t) = t"
proof (induction p arbitrary: t)
  case Nil
  show ?case
  proof (cases t)
    case (Dir es)
    with Nil have "c \<notin> fst ` set es" by (auto simp: map_of_eq_None_iff split: option.splits)
    with Dir show ?thesis by (simp add: upd_undo)
  qed auto
next
  case (Cons d p)
  show ?case
  proof (cases t)
    case (Dir es)
    show ?thesis
    proof (cases "map_of es d")
      case None
      then have "d \<notin> fst ` set es" by (simp add: map_of_eq_None_iff)
      with Dir None show ?thesis by (simp add: upd_none)
    next
      case (Some m)
      with Cons Dir have "alter (p @ [c]) (\<lambda>_. None) (alter (p @ [c]) (\<lambda>_. Some x) m) = m" by simp
      with Dir Some show ?thesis by (simp add: upd_upd upd_same)
    qed
  qed auto
qed

lemma open_dir_settled:
  assumes "settled (fs_tree s) True p" "plain p" "open_dir L p s = (s', r)"
  shows "s' = s" "\<And>q. r = Inr q \<Longrightarrow> q = p \<and> (\<exists>es. lookup (fs_tree s) p = Some (Dir es))"
  using assms walk_settled [of "fs_tree s" True "[]" p L]
  by (auto simp: open_dir_def andthen_def at_name_def get_at_def plain_def
      split: sum.splits option.splits node.splits)

lemma settled_butlast: "settled t False p \<Longrightarrow> p \<noteq> [] \<Longrightarrow> settled t True (butlast p)"
  by (auto simp: settled_def take_butlast)


subsection \<open>A write is atomic\<close>

lemma shape_write: "op_shape ''write'' = Some (2, Some 2, Some 1)"
  by code_simp

lemma execute_write:
  assumes "relative root name = Some r"
  shows "execute h root ''write'' [name, expected] inp s =
     (case Resolve (hp_links h) (fs_tree s) root False (elems r) of
        Inl e \<Rightarrow> (s, Inr ([], Some e))
      | Inr p \<Rightarrow> silently (atomicWrite h p expected inp) s)"
  using assms
  by (simp add: execute_def shape_write derefs_def on_result_def andthen_def Resolve_op_def ret_def run_op_def Let_def
      split: sum.split)

definition with_temp :: "place \<Rightarrow> string \<Rightarrow> fsys \<Rightarrow> fsys" where
  \<comment> \<open>a new file at a place, with its content\<close>
  "with_temp q d s =
     put_at q (Some (File (fs_next s))) (s\<lparr>fs_blob := (fs_blob s)(fs_next s := d), fs_next := Suc (fs_next s)\<rparr>)"

definition body_of_write :: "helper \<Rightarrow> place \<Rightarrow> nat \<Rightarrow> string list \<Rightarrow> string \<Rightarrow> input \<Rightarrow> unit fop" where
  "body_of_write h q i dst expected inp =
       andthen (copy_input i [] inp) (\<lambda>n.
        andthen (if expected = [] then ret ()
                 else andthen (ret_result (byte_count expected)) (\<lambda>want. if n \<noteq> want then fail Other_error else ret ())) (\<lambda>_.
        if dst = [] then fail Other_error
        else andthen (at_child q (last dst)) (\<lambda>q'. rename_at (q @ [temp_name h]) q')))"

lemma write_temp: "write_fd (fs_next s) d (with_temp q d' s) = (with_temp q d s, Inr ())"
  by (simp add: write_fd_def with_temp_def put_at_def)

definition complete_input :: "input \<Rightarrow> string \<Rightarrow> bool" where
  \<comment> \<open>everything arrived, as much as was announced\<close>
  "complete_input inp expected =
     (snd inp \<and> (expected \<noteq> [] \<longrightarrow> parse_int64 expected = Some (int (length (fst inp)))))"

lemma body_of_write_eq:
  "body_of_write h q (fs_next s) dst expected inp (with_temp t d s) =
     (if complete_input inp expected \<and> dst \<noteq> [] \<and> CHR 0x00 \<notin> set (last dst)
      then rename_at (q @ [temp_name h]) (q @ [last dst]) (with_temp t (fst inp) s)
      else (with_temp t (fst inp) s, snd (body_of_write h q (fs_next s) dst expected inp (with_temp t d s))))
   \<and> (\<not> (complete_input inp expected \<and> dst \<noteq> [] \<and> CHR 0x00 \<notin> set (last dst)) \<longrightarrow>
      (\<forall>x. snd (body_of_write h q (fs_next s) dst expected inp (with_temp t d s)) \<noteq> Inr x))"
  by (cases "parse_int64 expected")
     (auto simp: body_of_write_def copy_input_def andthen_def write_temp ret_def fail_def ret_result_def
        complete_input_def byte_count_def at_child_def)

lemma unlink_temp:
  assumes "lookup (fs_tree s) q = Some (Dir es)" "lookup (fs_tree s) (q @ [c]) = None"
  shows "fs_tree (fst (unlink_at (q @ [c]) (with_temp (q @ [c]) d s))) = fs_tree s"
    "fs_blob (fst (unlink_at (q @ [c]) (with_temp (q @ [c]) d s))) = (fs_blob s)(fs_next s := d)"
proof -
  have g: "get_at (with_temp (q @ [c]) d s) (q @ [c]) = Some (File (fs_next s))"
    using lookup_alter_same [OF assms(1)] by (simp add: get_at_def with_temp_def put_at_def)
  show "fs_tree (fst (unlink_at (q @ [c]) (with_temp (q @ [c]) d s))) = fs_tree s"
    using alter_undo [OF assms(2)] by (simp add: unlink_at_def g) (simp add: put_at_def with_temp_def)
  show "fs_blob (fst (unlink_at (q @ [c]) (with_temp (q @ [c]) d s))) = (fs_blob s)(fs_next s := d)"
    by (simp add: unlink_at_def g) (simp add: put_at_def with_temp_def)
qed

lemma rename_temp:
  fixes x :: string
  assumes "wf_fs s" "lookup (fs_tree s) q = Some (Dir es)" "lookup (fs_tree s) (q @ [c]) = None" "d \<noteq> c"
  defines "t \<equiv> with_temp (q @ [c]) x s"
  shows "rename_at (q @ [c]) (q @ [d]) t =
     (case lookup (fs_tree s) (q @ [d]) of
        Some (Dir ds) \<Rightarrow> (t, Inl IsDirectory)
      | _ \<Rightarrow> (put_at (q @ [d]) (Some (File (fs_next s))) (put_at (q @ [c]) None t), Inr ()))"
proof -
  have g: "get_at t (q @ [c]) = Some (File (fs_next s))"
    using lookup_alter_same [OF assms(2)] by (simp add: t_def get_at_def with_temp_def put_at_def)
  have o: "get_at t (q @ [d]) = lookup (fs_tree s) (q @ [d])"
    unfolding t_def get_at_def with_temp_def put_at_def using assms(4)
    by (simp, intro lookup_alter_other) auto
  have f: "lookup (fs_tree s) (q @ [d]) \<noteq> Some (File (fs_next s))"
    using assms(1) inodes_lookup [of "fs_tree s" "q @ [d]" "File (fs_next s)"] by (auto simp: wf_fs_def)
  have "\<not> strict_prefix (q @ [c]) (q @ [d])" by (auto simp: strict_prefix_def prefix_def)
  with assms(4) f show ?thesis
    by (auto simp: rename_at_def g o move_entry_def split: option.splits node.splits)
qed

lemma temp_moved:
  assumes "lookup (fs_tree s) (q @ [c]) = None"
  shows "fs_tree (put_at p n (put_at (q @ [c]) None (with_temp (q @ [c]) x s))) = alter p (\<lambda>_. n) (fs_tree s)"
    "fs_blob (put_at p n (put_at (q @ [c]) None (with_temp (q @ [c]) x s))) = (fs_blob s)(fs_next s := x)"
  using alter_undo [OF assms] by (simp_all add: put_at_def with_temp_def)

definition write_effect :: "fsys \<Rightarrow> string list \<Rightarrow> string \<Rightarrow> input \<Rightarrow> fsys \<times> (ferr + unit) \<Rightarrow> bool" where
  \<comment> \<open>all or nothing: the new file with all that was announced, or the tree as it was\<close>
  "write_effect s p expected inp r =
     (fs_next s \<le> fs_next (fst r) \<and> (\<forall>i < fs_next s. fs_blob (fst r) i = fs_blob s i) \<and>
      (case snd r of
         Inr _ \<Rightarrow> complete_input inp expected \<and> fs_blob (fst r) (fs_next s) = fst inp
           \<and> fs_tree (fst r) = alter p (\<lambda>_. Some (File (fs_next s))) (fs_tree s)
           \<and> lookup (fs_tree (fst r)) p = Some (File (fs_next s))
       | Inl _ \<Rightarrow> fs_tree (fst r) = fs_tree s))"

lemma write_effect_failed: "write_effect s p expected inp (s, Inl e)"
  by (simp add: write_effect_def)

lemma write_effect_undone:
  assumes "lookup (fs_tree s) q = Some (Dir es)" "lookup (fs_tree s) (q @ [c]) = None"
  shows "write_effect s p expected inp (fst (unlink_at (q @ [c]) (with_temp (q @ [c]) d s)), Inl e)"
proof -
  have "fs_next (fst (unlink_at (q @ [c]) (with_temp (q @ [c]) d s))) = Suc (fs_next s)"
    by (auto simp: unlink_at_def with_temp_def put_at_def split: option.splits node.splits list.splits)
  with unlink_temp [OF assms] show ?thesis by (simp add: write_effect_def)
qed

lemma write_effect_done:
  assumes "lookup (fs_tree s) q = Some (Dir es)" "lookup (fs_tree s) (q @ [c]) = None" "p = q @ [b]"
    "complete_input inp expected"
  shows "write_effect s p expected inp
     (put_at p (Some (File (fs_next s))) (put_at (q @ [c]) None (with_temp (q @ [c]) (fst inp) s)), Inr ())"
proof -
  have "fs_next (put_at p (Some (File (fs_next s))) (put_at (q @ [c]) None (with_temp (q @ [c]) (fst inp) s))) = Suc (fs_next s)"
    by (simp add: with_temp_def)
  moreover have "lookup (alter p (\<lambda>_. Some (File (fs_next s))) (fs_tree s)) p = Some (File (fs_next s))"
    using lookup_alter_same [OF assms(1)] assms(3) by simp
  ultimately show ?thesis using temp_moved [OF assms(2)] assms(4) by (simp add: write_effect_def)
qed

lemma body_of_write_effect:
  fixes h expected inp
  defines "w \<equiv> \<lambda>q p s. finally_do (body_of_write h q (fs_next s) p expected inp) (unlink_at (q @ [temp_name h]))
      (with_temp (q @ [temp_name h]) [] s)"
  assumes "wf_fs s" "q = butlast p" "lookup (fs_tree s) q = Some (Dir es)" "lookup (fs_tree s) (q @ [temp_name h]) = None"
    and "last p \<noteq> temp_name h"
  shows "write_effect s p expected inp (w q p s)"
proof -
  let ?t = "q @ [temp_name h]"
  let ?B = "body_of_write h q (fs_next s) p expected inp (with_temp ?t [] s)"
  have undone: "write_effect s p expected inp (w q p s)" if "?B = (with_temp ?t (fst inp) s, Inl e)" for e
    using write_effect_undone [OF assms(4,5)] that by (simp add: w_def finally_do_def)
  show ?thesis
  proof (cases "complete_input inp expected \<and> p \<noteq> [] \<and> CHR 0x00 \<notin> set (last p)")
    case False
    obtain e where "?B = (with_temp ?t (fst inp) s, Inl e)"
      using body_of_write_eq [of h q s p expected inp ?t "[]"] False by (cases "snd ?B") (auto simp: prod_eq_iff)
    then show ?thesis by (rule undone)
  next
    case True
    have pq: "q @ [last p] = p" using True assms(3) by simp
    have B: "?B = rename_at ?t p (with_temp ?t (fst inp) s)"
      using body_of_write_eq [of h q s p expected inp ?t "[]"] True pq by simp
    note ren = rename_temp [OF assms(2,4,5,6), of "fst inp", unfolded pq]
    show ?thesis
    proof (cases "\<exists>ds. lookup (fs_tree s) p = Some (Dir ds)")
      case True
      then have "?B = (with_temp ?t (fst inp) s, Inl IsDirectory)" unfolding B ren by auto
      then show ?thesis by (rule undone)
    next
      case nodir: False
      let ?u = "put_at p (Some (File (fs_next s))) (put_at ?t None (with_temp ?t (fst inp) s))"
      have B': "?B = (?u, Inr ())" unfolding B ren using nodir by (auto split: option.split node.split)
      have "\<not> prefix (q @ [last p]) ?t" "\<not> prefix ?t q" using assms(6) by (auto dest: prefix_length_le)
      then have "lookup (fs_tree ?u) ?t = None"
        unfolding temp_moved(1) [OF assms(5)] using lookup_alter_other [of q "last p" ?t] pq assms(5) by metis
      then have "w q p s = (?u, Inr ())"
        by (simp add: w_def finally_do_def B' unlink_at_def get_at_def)
      then show ?thesis using write_effect_done [OF assms(4,5) pq [symmetric]] True by simp
    qed
  qed
qed

lemma atomicWrite_effect:
  assumes "wf_fs s" "Resolve (hp_links h) (fs_tree s) root False cs = Inr p" "last p \<noteq> temp_name h"
  shows "write_effect s p expected inp (atomicWrite h p expected inp s)"
proof -
  have p: "plain p" "settled (fs_tree s) False p"
    using Resolve_settles [OF _ assms(2)] assms(1) by (auto simp: plain_def wf_fs_def)
  then have st: "settled (fs_tree s) True (butlast p)"
    using settled_butlast [of "fs_tree s" p] by (cases "p = []") (auto simp: settled_def)
  obtain s0 r0 where o: "open_dir (hp_links h) (butlast p) s = (s0, r0)" by force
  note od = open_dir_settled [OF st plain_butlast [OF p(1)] o]
  show ?thesis
  proof (cases r0)
    case (Inl e)
    with o od(1) show ?thesis by (simp add: atomicWrite_def andthen_def write_effect_failed)
  next
    case (Inr q)
    then obtain es where q: "q = butlast p" "lookup (fs_tree s) q = Some (Dir es)"
      using od(2) by auto
    show ?thesis
    proof (cases "lookup (fs_tree s) (q @ [temp_name h])")
      case (Some n)
      with o od(1) Inr show ?thesis
        by (simp add: atomicWrite_def andthen_def create_excl_at_def get_at_def write_effect_failed)
    next
      case None
      with o od(1) Inr have "atomicWrite h p expected inp s =
          finally_do (body_of_write h q (fs_next s) p expected inp) (unlink_at (q @ [temp_name h]))
            (with_temp (q @ [temp_name h]) [] s)"
        by (simp add: atomicWrite_def andthen_def create_excl_at_def get_at_def new_file_def with_temp_def body_of_write_def)
      with body_of_write_effect [OF assms(1) q None assms(3)] show ?thesis by simp
    qed
  qed
qed

lemma exit_code_error [simp]: "0 < exit_code (Some e)"
  by (cases e) (simp_all add: exit_code_def)

lemma exit_code_none [simp]: "exit_code None = 0"
  by (simp add: exit_code_def)

lemma Run_write:
  assumes "relative root name = Some r" "Resolve (hp_links h) (fs_tree s) root False (elems r) = Inr p"
    and "Run h [root, ''write'', name, expected] inp s = (s', out, code)"
  obtains res where "atomicWrite h p expected inp s = (s', res)" "code = 0 \<longleftrightarrow> (\<exists>x. res = Inr x)"
  using assms(3) execute_write [OF assms(1), of h expected inp s] assms(2) that [of "snd (atomicWrite h p expected inp s)"]
  by (auto simp: Run_def silently_def on_result_def ret_def split: sum.splits prod.splits)

lemma write_all_or_nothing:
  assumes "wf_fs s" and "relative root name = Some r"
    and "Resolve (hp_links h) (fs_tree s) root False (elems r) = Inr p" and "last p \<noteq> temp_name h"
    and "Run h [root, ''write'', name, expected] inp s = (s', out, code)"
  shows "fs_next s \<le> fs_next s' \<and> (\<forall>i < fs_next s. fs_blob s' i = fs_blob s i) \<and>
     (if code = 0
      then complete_input inp expected \<and> fs_blob s' (fs_next s) = fst inp
         \<and> fs_tree s' = alter p (\<lambda>_. Some (File (fs_next s))) (fs_tree s)
         \<and> lookup (fs_tree s') p = Some (File (fs_next s))
      else fs_tree s' = fs_tree s)"
proof -
  obtain res where res: "atomicWrite h p expected inp s = (s', res)" "code = 0 \<longleftrightarrow> (\<exists>x. res = Inr x)"
    using Run_write [OF assms(2,3,5)] by blast
  show ?thesis
    using atomicWrite_effect [OF assms(1,3,4), of expected inp] res
    by (cases res) (auto simp: write_effect_def)
qed

text \<open>A write puts all of what was announced under the name or changes no entry, and touches no
  file's content but its own new one.\<close>

theorem write_is_atomic:
  assumes "wf_fs s" and "relative root name = Some r"
    and "Resolve (hp_links h) (fs_tree s) root False (elems r) = Inr p" and "last p \<noteq> temp_name h"
    and "Run h [root, ''write'', name, expected] inp s = (s', out, code)"
  shows "(\<forall>i < fs_next s. fs_blob s' i = fs_blob s i) \<and>
     (if code = 0
      then complete_input inp expected \<and> fs_blob s' (fs_next s) = fst inp
         \<and> fs_tree s' = alter p (\<lambda>_. Some (File (fs_next s))) (fs_tree s)
         \<and> lookup (fs_tree s') p = Some (File (fs_next s))
      else fs_tree s' = fs_tree s)"
  by (rule write_all_or_nothing [OF assms, THEN conjunct2])

subsection \<open>What is there stays there\<close>

fun leaves :: "node \<Rightarrow> node multiset" where
  \<comment> \<open>the files, links and directories of a tree, however named\<close>
  "leaves (Dir es) = add_mset (Dir []) (sum_list (map (\<lambda>(c, n). leaves n) es))"
| "leaves n = {#n#}"

definition leaves_opt :: "node option \<Rightarrow> node multiset" where
  "leaves_opt x = (case x of None \<Rightarrow> {#} | Some n \<Rightarrow> leaves n)"

lemma leaves_opt_simps [simp]: "leaves_opt None = {#}" "leaves_opt (Some n) = leaves n"
  by (simp_all add: leaves_opt_def)

lemma leaves_upd:
  assumes "distinct (map fst es)"
  shows "leaves (Dir (upd c x es)) + leaves_opt (map_of es c) = leaves (Dir es) + leaves_opt x"
  using assms
proof (induction es)
  case (Cons e es)
  show ?case
  proof (cases "fst e = c")
    case True
    with Cons.prems have "c \<notin> fst ` set es" by auto
    then have "upd c None es = es" by (rule upd_none)
    with True show ?thesis by (cases e; cases x) auto
  next
    case False
    with Cons show ?thesis by (cases e) (auto simp: union_ac)
  qed
qed (auto split: option.splits)

lemma mset_swap:
  fixes A :: "'a multiset"
  assumes "A + m = T + b" "b + l = m + x" shows "A + l = T + x"
proof (rule multiset_eqI)
  fix y
  show "count (A + l) y = count (T + x) y"
    using arg_cong [OF assms(1), of "\<lambda>M. count M y"] arg_cong [OF assms(2), of "\<lambda>M. count M y"] by simp
qed

lemma leaves_alter:
  assumes "wf_tree t" "lookup t p = Some (Dir es)"
  shows "leaves (alter (p @ [c]) (\<lambda>_. x) t) + leaves_opt (lookup t (p @ [c])) = leaves t + leaves_opt x"
  using assms
proof (induction p arbitrary: t)
  case Nil
  then have "distinct (map fst es)" by simp
  moreover have "lookup t [c] = map_of es c" "t = Dir es" using Nil by (auto split: option.splits)
  ultimately show ?case using leaves_upd [of es c x] by simp
next
  case (Cons d p)
  then obtain fs m where t: "t = Dir fs" "map_of fs d = Some m" "lookup m p = Some (Dir es)"
    by (auto split: node.splits option.splits)
  have "distinct (map fst fs)" "wf_tree m" using Cons.prems(1) wf_child [of fs d m] t(1,2) by simp_all
  note u = leaves_upd [OF this(1), of d "Some (alter (p @ [c]) (\<lambda>_. x) m)"] and m = Cons.IH [OF this(2) t(3)]
  have "leaves (alter ((d # p) @ [c]) (\<lambda>_. x) t) + leaves m = leaves t + leaves (alter (p @ [c]) (\<lambda>_. x) m)"
    using u unfolding t(1) append_Cons alter.simps t(2) by (simp del: leaves.simps)
  moreover have "lookup t ((d # p) @ [c]) = lookup m (p @ [c])" using t by simp
  ultimately show ?case using mset_swap [OF _ m] by simp
qed

lemma lookup_dir_alter:
  assumes "lookup t d = Some (Dir es)" "\<not> prefix (p @ [c]) d"
  shows "\<exists>fs. lookup (alter (p @ [c]) f t) d = Some (Dir fs)"
proof (cases "prefix d p")
  case True
  then obtain r where "p = d @ r" by (auto simp: prefix_def)
  then show ?thesis
    using lookup_alter_above [OF assms(1), of "hd (r @ [c])" "tl (r @ [c])" f] by (cases r) auto
next
  case False
  with lookup_alter_other [OF assms(2) False] assms(1) show ?thesis by auto
qed

definition same_files :: "fsys \<Rightarrow> fsys \<Rightarrow> bool" where
  \<comment> \<open>every file, link and directory is still there, once, with its content\<close>
  "same_files s s' = (leaves (fs_tree s') = leaves (fs_tree s) \<and> fs_next s \<le> fs_next s'
     \<and> (\<forall>i < fs_next s. fs_blob s' i = fs_blob s i))"

definition more_files :: "fsys \<Rightarrow> fsys \<Rightarrow> bool" where
  "more_files s s' = (leaves (fs_tree s) \<subseteq># leaves (fs_tree s') \<and> fs_next s \<le> fs_next s'
     \<and> (\<forall>i < fs_next s. fs_blob s' i = fs_blob s i))"

lemma same_files_refl [simp]: "same_files s s" and more_files_refl [simp]: "more_files s s"
  by (simp_all add: same_files_def more_files_def)

lemma same_files_trans: "same_files s t \<Longrightarrow> same_files t u \<Longrightarrow> same_files s u"
  by (auto simp: same_files_def)

lemma more_files_trans: "more_files s t \<Longrightarrow> more_files t u \<Longrightarrow> more_files s u"
  by (auto simp: more_files_def)

lemma move_same_files:
  assumes "wf_fs s" "get_at s (p @ [c]) = Some n" "get_at s (d @ [e]) = None"
    "lookup (fs_tree s) p = Some (Dir ps)" "lookup (fs_tree s) d = Some (Dir ds)"
    "\<not> strict_prefix (p @ [c]) (d @ [e])"
  shows "same_files s (move_entry (p @ [c]) (d @ [e]) n s)"
proof -
  let ?t = "alter (p @ [c]) (\<lambda>_. None) (fs_tree s)"
  have ne: "p @ [c] \<noteq> d @ [e]" using assms(2,3) by (metis option.distinct(1))
  with assms(6) have np: "\<not> prefix (p @ [c]) (d @ [e])" by (blast intro: strict_prefixI)
  have nd: "\<not> prefix (p @ [c]) d"
  proof
    assume "prefix (p @ [c]) d"
    then have "prefix (p @ [c]) (d @ [e])" by (rule prefix_order.trans) simp
    with np show False by blast
  qed
  obtain fs where fs: "lookup ?t d = Some (Dir fs)" using lookup_dir_alter [OF assms(5) nd] by blast
  have "\<not> prefix (d @ [e]) p"
  proof
    assume "prefix (d @ [e]) p"
    then obtain r where "p = (d @ [e]) @ r" by (auto simp: prefix_def)
    with assms(3,4) lookup_append [of "fs_tree s" "d @ [e]" r] show False by (simp add: get_at_def)
  qed
  then have none: "lookup ?t (d @ [e]) = None"
    using lookup_alter_other [OF np] assms(3) by (simp add: get_at_def)
  have wt: "wf_tree (fs_tree s)" using assms(1) by (simp add: wf_fs_def)
  have "wf_tree ?t" using wf_alter [OF wt, of "\<lambda>_. None"] by simp
  from leaves_alter [OF this fs, of e "Some n"] leaves_alter [OF wt assms(4), of c None] none assms(2)
  show ?thesis by (simp add: same_files_def move_entry_def put_at_def get_at_def)
qed

lemma open_dir_same: "open_dir L p s = (s', r) \<Longrightarrow> s' = s \<and> (\<forall>q. r = Inr q \<longrightarrow> (\<exists>es. lookup (fs_tree s) q = Some (Dir es)))"
  by (auto simp: open_dir_def andthen_def at_name_def get_at_def split: sum.splits option.splits node.splits)

lemma available_same: "available L p s = (s', r) \<Longrightarrow> s' = s"
  by (auto simp: available_def on_result_def Lstat_def ret_def fail_def split: sum.splits if_splits)

lemma renameNew_same_files:
  assumes "wf_fs s" shows "same_files s (fst (renameNew L p p' s))"
proof (cases "p = [] \<or> p' = []")
  case True
  then show ?thesis by (auto simp: renameNew_def fail_def)
next
  case False
  obtain s1 r1 where a: "available L p' s = (s1, r1)" by force
  obtain s2 r2 where b: "open_dir L (butlast p) s = (s2, r2)" by force
  obtain s3 r3 where c: "open_dir L (butlast p') s = (s3, r3)" by force
  have same: "s1 = s" "s2 = s" "s3 = s" using available_same [OF a] open_dir_same [OF b] open_dir_same [OF c] by auto
  show ?thesis
  proof (cases "\<exists>x src dst. r1 = Inr x \<and> r2 = Inr src \<and> r3 = Inr dst \<and> CHR 0x00 \<notin> set (last p) \<and> CHR 0x00 \<notin> set (last p')")
    case ok: True
    then obtain src dst where r: "r2 = Inr src" "r3 = Inr dst" by blast
    obtain es fs where d: "lookup (fs_tree s) src = Some (Dir es)" "lookup (fs_tree s) dst = Some (Dir fs)"
      using open_dir_same [OF b] open_dir_same [OF c] r by auto
    have "fst (renameNew L p p' s) = fst (rename_noreplace_at (src @ [last p]) (dst @ [last p']) s)"
      using False a b c same ok r
      by (auto simp: renameNew_def andthen_def at_child_def ret_def exists_is_refused_def on_result_def fail_def
          split: prod.splits sum.splits)
    then show ?thesis
      using move_same_files [OF assms _ _ d, of "last p" _ "last p'"]
      by (auto simp: rename_noreplace_at_def split: option.splits)
  next
    case False': False
    have "fst (renameNew L p p' s) = s"
      using False a b c same False'
      by (auto simp: renameNew_def andthen_def at_child_def ret_def fail_def split: prod.splits sum.splits)
    then show ?thesis by simp
  qed
qed


subsection \<open>Relations that every operation respects\<close>

definition steps :: "(fsys \<Rightarrow> fsys \<Rightarrow> bool) \<Rightarrow> 'a fop \<Rightarrow> bool" where
  "steps R m = (\<forall>s. wf_fs s \<longrightarrow> R s (fst (m s)))"

text \<open>What holds between a volume and itself, and along two operations, holds along a sequence.\<close>

locale volume_frame =
  fixes R :: "fsys \<Rightarrow> fsys \<Rightarrow> bool"
  assumes frame_refl: "R s s"
    and frame_trans: "R s t \<Longrightarrow> R t u \<Longrightarrow> R s u"
begin

lemma steps_still: "(\<And>s. fst (m s) = s) \<Longrightarrow> steps R m"
  by (simp add: steps_def frame_refl)

lemma steps_andthen:
  assumes "keeps m Q" "steps R m" "\<And>x. Q x \<Longrightarrow> steps R (f x)"
  shows "steps R (andthen m f)"
  unfolding steps_def
proof (intro allI impI)
  fix s assume s: "wf_fs s"
  obtain u y where u: "m s = (u, y)" by force
  note k = keeps_volumeD [OF assms(1) s u]
  have "R s u" using assms(2) s u by (auto simp: steps_def)
  moreover have "R u (fst (f x u))" if "y = Inr x" for x
    using assms(3) [OF k(2) [OF that]] k(1) by (simp add: steps_def)
  ultimately show "R s (fst (andthen m f s))"
    using u frame_trans by (cases y) (auto simp: andthen_def)
qed

lemma steps_on_result:
  assumes "keeps m anyhow" "steps R m" "\<And>r. steps R (f r)"
  shows "steps R (on_result m f)"
  unfolding steps_def
proof (intro allI impI)
  fix s assume s: "wf_fs s"
  obtain u y where u: "m s = (u, y)" by force
  have "R s u" using assms(2) s u by (auto simp: steps_def)
  moreover have "R u (fst (f y u))"
    using assms(3) [of y] keeps_volumeD(1) [OF assms(1) s u] by (simp add: steps_def)
  ultimately show "R s (fst (on_result m f s))" using u frame_trans by (auto simp: on_result_def)
qed

lemma steps_for_all:
  assumes "\<And>x. x \<in> set xs \<Longrightarrow> keeps (f x) anyhow \<and> steps R (f x)"
  shows "steps R (for_all xs f)"
  using assms
proof (induction xs)
  case Nil
  show ?case unfolding for_all.simps by (rule steps_still) (simp add: ret_def)
next
  case (Cons x xs)
  then show ?case unfolding for_all.simps by (intro steps_andthen [where Q = anyhow]) auto
qed

end

interpretation same: volume_frame same_files
  by unfold_locales (simp, erule same_files_trans)

interpretation more: volume_frame more_files
  by unfold_locales (simp, erule more_files_trans)

lemma steps_same_more: "steps same_files m \<Longrightarrow> steps more_files m"
  by (auto simp: steps_def same_files_def more_files_def)

lemma move_steps:
  assumes "plain dest" "list_all plain srcs" shows "steps same_files (op_move L dest srcs)"
proof -
  have pd: "plain (dest @ (if p = [] then [] else [last p]))" if "p \<in> set srcs" for p
    using assms that plain_last [of p] by (auto simp: plain_def list_all_iff)
  have still: "steps same_files (open_dir L dest)" "\<And>p. steps same_files (Lstat L p)" "\<And>p. steps same_files (available L p)"
    by (rule same.steps_still, metis open_dir_same prod.collapse, rule same.steps_still, simp add: Lstat_def,
        rule same.steps_still, metis available_same prod.collapse)
  have ren: "keeps (renameNew L p (dest @ (if p = [] then [] else [last p]))) anyhow
      \<and> steps same_files (renameNew L p (dest @ (if p = [] then [] else [last p])))" if "p \<in> set srcs" for p
    using that pd [OF that] assms(2) renameNew_same_files
    by (auto simp: steps_def list_all_iff simp del: append_assoc intro!: keeps_renameNew)
  show ?thesis
    unfolding op_move_def
    by (rule same.steps_andthen [OF keeps_open_dir [OF assms(1)] still(1)],
        rule same.steps_andthen [OF keeps_for_all same.steps_for_all])
       (auto simp: ren intro!: keeps_andthen [OF keeps_Lstat keeps_available]
          same.steps_andthen [OF keeps_Lstat still(2)] still same.steps_for_all)
qed


lemma put_new_more:
  assumes "wf_fs s" "lookup (fs_tree s) d = Some (Dir es)" "get_at s (d @ [c]) = None"
  shows "more_files s (put_at (d @ [c]) x s)"
proof -
  have "wf_tree (fs_tree s)" using assms(1) by (simp add: wf_fs_def)
  from leaves_alter [OF this assms(2), of c x] assms(3)
  show ?thesis by (simp add: more_files_def put_at_def get_at_def)
qed

lemma more_files_blobs:
  assumes "fs_tree u = fs_tree s" "fs_next s \<le> fs_next u" "\<forall>i < fs_next s. fs_blob u i = fs_blob s i"
  shows "more_files s u"
  using assms by (simp add: more_files_def)

lemma copyEntry_more:
  assumes "plain dst" shows "steps more_files (copyEntry L src dst)"
  unfolding steps_def
proof (intro allI impI)
  fix s assume s: "wf_fs s"
  show "more_files s (fst (copyEntry L src dst s))"
  proof (cases "Lstat_at L (fs_tree s) False src")
    case (Inr n)
    have n: "wf_tree n" "inodes n \<subseteq> {..<fs_next s}"
      using Inr s wf_lookup inodes_lookup
      by (fastforce simp: Lstat_at_def wf_fs_def split: sum.splits option.splits)+
    show ?thesis
    proof (cases "walk L (fs_tree s) False [] dst")
      case w: (Inr q)
      obtain ts where ts: "fs_tree s = Dir ts" using s by (cases "fs_tree s") (auto simp: wf_fs_def)
      have "\<exists>es. lookup (fs_tree s) [] = Some (Dir es)" by (simp add: ts)
      then obtain es where d: "lookup (fs_tree s) (butlast q) = Some (Dir es)"
        using walk_place [OF w _ _ plain_no_slash [OF assms]] by auto
      obtain u n' e where u: "copy_node n s = (u, n', e)" by (metis prod_cases3)
      note c = copy_node_ok(1) [OF n u]
      show ?thesis
      proof (cases "n = Fifo \<or> get_at s q \<noteq> None")
        case True
        with Inr w show ?thesis by (auto simp: copyEntry_def andthen_def Lstat_def at_name_def fail_def)
      next
        case False
        then have "q \<noteq> []" by (auto simp: get_at_def)
        then obtain p b where q: "q = p @ [b]" by (cases q rule: rev_cases) auto
        have "wf_fs u" "more_files s u" using c s by (auto simp: wf_fs_def more_files_def)
        moreover have "more_files u (put_at q n' u)"
          using put_new_more [of u p es b n'] \<open>wf_fs u\<close> d q False c by (simp add: get_at_def)
        ultimately show ?thesis
          using Inr w u False more_files_trans by (auto simp: copyEntry_def andthen_def Lstat_def at_name_def)
      qed
    qed (use Inr in \<open>simp add: copyEntry_def andthen_def Lstat_def at_name_def fail_def\<close>)
  qed (simp add: copyEntry_def andthen_def Lstat_def)
qed

lemma still_steps:
  "steps more_files (ret x)" "steps more_files (fail e)" "steps more_files (Lstat L p)" "steps more_files (open_dir L p)"
  by (rule more.steps_still, simp add: ret_def, rule more.steps_still, simp add: fail_def,
      rule more.steps_still, simp add: Lstat_def, rule more.steps_still, metis open_dir_same prod.collapse)

lemma copy_to_first_more: "list_all plain dsts \<Longrightarrow> steps more_files (copy_to_first L root src dsts)"
proof (induction dsts)
  case (Cons dst dsts)
  then have p: "plain dst" "steps more_files (copy_to_first L root src dsts)" by auto
  show ?case
    unfolding copy_to_first.simps
    by (rule more.steps_on_result [OF keeps_weaken [OF keeps_Lstat]])
       (auto split: sum.split intro: still_steps p more.steps_andthen [OF keeps_copyEntry copyEntry_more])
qed (simp add: still_steps)

lemma mkwalk_more:
  assumes "wf_tree t" "\<exists>es. lookup t cur = Some (Dir es)" "\<forall>c \<in> set cs. CHR ''/'' \<notin> set c"
  shows "leaves t \<subseteq># leaves (fst (mkwalk n cur cs t))"
  using assms
proof (induction n cur cs t rule: mkwalk.induct)
  case (2 n cur c cs t)
  consider (skip) "c = [] \<or> c = ''.''" | (up) "c = ''..''" | (zero) "plain_elem c" "CHR 0x00 \<in> set c" | (name) "file_name c"
    using 2(8) by (auto simp: plain_elem_def file_name_def)
  then show ?case
  proof cases
    case skip
    with 2 show ?thesis by (simp add: mkwalk.simps(2))
  next
    case up
    with 2 show ?thesis by (auto simp: mkwalk.simps(2) dest: lookup_butlast_dir)
  next
    case zero
    then show ?thesis by (simp add: mkwalk.simps(2) plain_elem_def)
  next
    case name
    then have nc: "\<not> (c = [] \<or> c = ''.'')" "c \<noteq> ''..''" "CHR 0x00 \<notin> set c"
      by (simp_all add: file_name_def plain_elem_def)
    obtain es where es: "lookup t cur = Some (Dir es)" using 2(7) by blast
    show ?thesis
    proof (cases "lookup t (cur @ [c])")
      case None
      let ?t = "alter (cur @ [c]) (\<lambda>_. Some (Dir [])) t"
      have "wf_tree ?t" using 2(6) name by (intro wf_alter) auto
      moreover have "\<exists>es. lookup ?t (cur @ [c]) = Some (Dir es)"
        using lookup_alter_same [OF es] by blast
      moreover have "leaves t \<subseteq># leaves ?t"
        using leaves_alter [OF 2(6) es, of c "Some (Dir [])"] None by simp
      ultimately show ?thesis
        using 2(3) [OF nc None] 2(8) None nc subset_mset.order_trans by (simp add: mkwalk.simps(2))
    next
      case (Some m)
      show ?thesis
      proof (cases m)
        case (Dir es)
        with 2(4) [OF nc Some Dir] 2(6,8) Some nc show ?thesis by (simp add: mkwalk.simps(2))
      next
        case (Link target)
        have sl: "\<forall>c \<in> set (split_on (CHR ''/'') target @ cs). CHR ''/'' \<notin> set c"
          using 2(8) by (auto simp: split_on_no_sep)
        show ?thesis
        proof (cases "cs = [] \<or> n = 0 \<or> IsAbs target")
          case True
          with Some Link nc show ?thesis by (auto simp: mkwalk.simps(2))
        next
          case False
          then show ?thesis
            using 2(5) [OF nc Some Link] 2(6,7) sl Some Link nc by (simp add: mkwalk.simps(2))
        qed
      qed (use Some nc in \<open>auto simp: mkwalk.simps(2)\<close>)
    qed
  qed
qed simp

lemma MkdirAll_more: "plain p \<Longrightarrow> steps more_files (root_MkdirAll L p)"
  unfolding steps_def
proof (intro allI impI)
  fix s assume a: "plain p" "wf_fs s"
  obtain ts where "fs_tree s = Dir ts" using a(2) by (cases "fs_tree s") (auto simp: wf_fs_def)
  then have "leaves (fs_tree s) \<subseteq># leaves (fst (mkwalk L [] p (fs_tree s)))"
    using a by (intro mkwalk_more plain_no_slash) (auto simp: wf_fs_def)
  then show "more_files s (fst (root_MkdirAll L p s))"
    by (auto simp: root_MkdirAll_def more_files_def split: prod.splits)
qed

text \<open>An archive is written beside its place and then moved there, if the name is still free.\<close>

lemma op_compress_more: "steps more_files (op_compress h p name members)"
  unfolding steps_def
proof (intro allI impI)
  fix s assume s: "wf_fs s"
  obtain s0 r0 where o: "open_dir (hp_links h) p s = (s0, r0)" by force
  note od = open_dir_same [OF o]
  let ?c = "temp_name h"
  show "more_files s (fst (op_compress h p name members s))"
  proof (cases "\<exists>q. r0 = Inr q \<and> plainName name \<and> list_all plainName members \<and> get_at s (q @ [name]) = None
      \<and> get_at s (q @ [?c]) = None")
    case False
    then have "fst (op_compress h p name members s) = s"
      using o od by (auto simp: op_compress_def andthen_def fail_def create_excl_at_def split: sum.splits)
    then show ?thesis by simp
  next
    case True
    then obtain q where q: "r0 = Inr q" "plainName name" "list_all plainName members"
        and free: "get_at s (q @ [name]) = None" "get_at s (q @ [?c]) = None" by blast
    obtain es where es: "lookup (fs_tree s) q = Some (Dir es)" using od q by blast
    let ?t = "q @ [?c]"
    obtain out e where w: "writeArchive (hp_links h) (map (\<lambda>m. (p @ [m], m)) members) (with_temp ?t [] s) = (out, e)"
      by force
    let ?d = "hp_encode h out (e = None)"
    have cr: "create_excl_at ?t s = (with_temp ?t [] s, Inr (fs_next s))"
      using free by (simp add: create_excl_at_def new_file_def with_temp_def)
    have lk: "lookup (fs_tree s) ?t = None" using free by (simp add: get_at_def)
    note un = unlink_temp [OF es lk, of ?d]
    have undone: "more_files s (fst (unlink_at ?t (with_temp ?t ?d s)))"
    proof -
      have "fs_next (fst (unlink_at ?t (with_temp ?t ?d s))) = Suc (fs_next s)"
        by (auto simp: unlink_at_def with_temp_def put_at_def split: option.splits node.splits list.splits)
      with un show ?thesis by (simp add: more_files_def)
    qed
    have run: "fst (op_compress h p name members s) =
        (case e of Some x \<Rightarrow> fst (unlink_at ?t (with_temp ?t ?d s))
         | None \<Rightarrow> fst (unlink_at ?t (fst (renameNew_in q ?c name (with_temp ?t ?d s)))))"
      using o od q free cr w
      by (auto simp: op_compress_def andthen_def finally_do_def write_temp ret_def split: option.splits sum.splits prod.splits)
    show ?thesis
    proof (cases "e = None \<and> name \<noteq> ?c")
      case False
      have "renameNew_in q ?c ?c (with_temp ?t ?d s) = (with_temp ?t ?d s, Inl Refused)"
        using lookup_alter_same [OF es] by (simp add: renameNew_in_def get_at_def with_temp_def put_at_def)
      with False run undone show ?thesis by (auto split: option.splits)
    next
      case True
      have g: "get_at (with_temp ?t ?d s) (q @ [name]) = None"
        unfolding get_at_def with_temp_def put_at_def using True free
        by (simp add: get_at_def, subst lookup_alter_other) auto
      have g': "get_at (with_temp ?t ?d s) ?t = Some (File (fs_next s))"
        using lookup_alter_same [OF es] by (simp add: get_at_def with_temp_def put_at_def)
      have "\<not> strict_prefix ?t (q @ [name])" using True by (auto simp: strict_prefix_def prefix_def)
      then have "rename_noreplace_at ?t (q @ [name]) (with_temp ?t ?d s) =
          (move_entry ?t (q @ [name]) (File (fs_next s)) (with_temp ?t ?d s), Inr ())"
        using g g' by (simp add: rename_noreplace_at_def)
      then have "fst (renameNew_in q ?c name (with_temp ?t ?d s)) =
          move_entry ?t (q @ [name]) (File (fs_next s)) (with_temp ?t ?d s)"
        using g by (simp add: renameNew_in_def exists_is_refused_def on_result_def ret_def)
      moreover define u where "u = put_at (q @ [name]) (Some (File (fs_next s))) (put_at ?t None (with_temp ?t ?d s))"
      ultimately have f: "fst (renameNew_in q ?c name (with_temp ?t ?d s)) = u" by (simp add: move_entry_def)
      have u: "fs_tree u = alter (q @ [name]) (\<lambda>_. Some (File (fs_next s))) (fs_tree s)"
          "fs_blob u = (fs_blob s)(fs_next s := ?d)" "fs_next u = Suc (fs_next s)"
        using temp_moved [OF lk] by (simp_all add: u_def with_temp_def)
      have "get_at u ?t = None"
        unfolding get_at_def u using True lk by (subst lookup_alter_other) auto
      then have "unlink_at ?t u = (u, Inl NotExist)" by (simp add: unlink_at_def)
      then have "fst (op_compress h p name members s) = u" using run True f by simp
      moreover have "more_files s u"
        using put_new_more [OF s es free(1), of "Some (File (fs_next s))"] u
        by (simp add: more_files_def put_at_def)
      ultimately show ?thesis by simp
    qed
  qed
qed


subsection \<open>The operations of one run\<close>

lemma said_state: "fst (said m s) = fst (m s)" and silently_state: "fst (silently m' s) = fst (m' s)"
  by (auto simp: said_def silently_def on_result_def ret_def split: prod.splits sum.splits)

lemma resolve_args_same: "resolve_args h root op i as s = (s', r) \<Longrightarrow> s' = s"
proof (induction as arbitrary: i r s')
  case (Cons a as)
  obtain u y where u: "resolve_args h root op (Suc i) as s = (u, y)" by force
  with Cons.IH [OF u] Cons.prems show ?case
    by (auto simp: ret_def fail_def andthen_def Resolve_op_def split: option.splits sum.splits)
qed (simp add: ret_def)

lemma Run_state:
  assumes "op_shape op = Some (least, most, paths)" "wf_fs s"
    and "\<And>ps as. list_all plain ps \<Longrightarrow> ps \<noteq> []
      \<Longrightarrow> (op \<in> {''rename'', ''upload-finish-file'', ''upload-finish-archive''} \<Longrightarrow> length ps = 2)
      \<Longrightarrow> R s (fst (run_op h root op ps as inp s))"
    and "R s s" and "Run h (root # op # args) inp s = (s', out, code)"
  shows "R s s'"
proof -
  let ?bad = "length args < least \<or> (case most of None \<Rightarrow> False | Some m \<Rightarrow> length args \<noteq> m)"
  let ?k = "case paths of None \<Rightarrow> length args | Some k \<Rightarrow> k"
  obtain s1 r where r: "resolve_args h root op 0 (take ?k args) s = (s1, r)" by force
  have "s1 = s" using resolve_args_same [OF r] .
  have s': "s' = fst (execute h root op args inp s)"
    using assms(5) by (auto simp: Run_def split: prod.splits sum.splits)
  show ?thesis
  proof (cases "?bad \<or> (\<exists>e. r = Inl e)")
    case True
    then have "s' = s" using s' assms(1) r \<open>s1 = s\<close>
      by (auto simp: execute_def ret_def on_result_def Let_def)
    with assms(4) show ?thesis by simp
  next
    case False
    then obtain ps where ps: "r = Inr ps" by (cases r) auto
    have "list_all plain ps \<and> length ps = length (take ?k args)"
      using keeps_volumeD(2) [OF keeps_resolve_args assms(2) r] ps by blast
    moreover have "ps \<noteq> [] \<and> (op \<in> {''rename'', ''upload-finish-file'', ''upload-finish-archive''} \<longrightarrow> length ps = 2)"
      using shape_paths [OF assms(1), of args ps] False calculation by blast
    moreover have "s' = fst (run_op h root op ps (drop ?k args) inp s)"
      using s' assms(1) r ps False \<open>s1 = s\<close> by (simp add: execute_def on_result_def Let_def)
    ultimately show ?thesis using assms(3) by blast
  qed
qed

lemma shapes: "op_shape ''move'' = Some (2, None, None)" "op_shape ''copy'' = Some (2, None, None)"
    "op_shape ''compress'' = Some (3, None, Some 1)" "op_shape ''mkdir'' = Some (1, Some 1, Some 1)"
  by code_simp+

lemma run_ops:
  "run_op h root ''rename'' ps as inp = silently (renameNew (hp_links h) (ps ! 0) (ps ! 1))"
  "run_op h root ''move'' ps as inp = silently (op_move (hp_links h) (hd ps) (tl ps))"
  "run_op h root ''copy'' ps as inp =
     said (andthen (Lstat (hp_links h) (hd ps)) (\<lambda>_. copy_to_first (hp_links h) root (hd ps) (tl ps)))"
  "run_op h root ''compress'' ps as inp = said (op_compress h (ps ! 0) (as ! 0) (tl as))"
  "run_op h root ''mkdir'' ps as inp = silently (root_MkdirAll (hp_links h) (ps ! 0))"
  by (simp_all add: run_op_def Let_def)

text \<open>C12: A rename or a move, also one that stops half way, leaves the same files, links and
  directories with the same contents; a copy, a compression or a mkdir leaves all there were.\<close>

theorem nothing_lost:
  assumes "wf_fs s" and "Run h (root # op # args) inp s = (s', out, code)"
  shows "(op \<in> {''rename'', ''move''} \<longrightarrow> same_files s s')
    \<and> (op \<in> {''copy'', ''compress'', ''mkdir''} \<longrightarrow> more_files s s')"
proof (intro conjI impI)
  assume "op \<in> {''rename'', ''move''}"
  then consider "op = ''rename''" | "op = ''move''" by blast
  then show "same_files s s'"
  proof cases
    case 1
    show ?thesis
      by (rule Run_state [OF op_shape_two(1) assms(1) _ _ assms(2) [unfolded 1]])
         (simp_all add: run_ops silently_state renameNew_same_files assms(1))
  next
    case 2
    have st: "same_files s (fst (op_move (hp_links h) (hd ps) (tl ps) s))" if "list_all plain ps" "ps \<noteq> []" for ps
      using move_steps [of "hd ps" "tl ps" "hp_links h"] that assms(1) by (cases ps) (auto simp: steps_def)
    show ?thesis
      by (rule Run_state [OF shapes(1) assms(1) _ _ assms(2) [unfolded 2]]) (simp_all add: run_ops silently_state st)
  qed
next
  assume "op \<in> {''copy'', ''compress'', ''mkdir''}"
  then consider "op = ''copy''" | "op = ''compress''" | "op = ''mkdir''" by blast
  then show "more_files s s'"
  proof cases
    case 1
    have st: "more_files s (fst (andthen (Lstat (hp_links h) (hd ps)) (\<lambda>_. copy_to_first (hp_links h) root (hd ps) (tl ps)) s))"
      if "list_all plain ps" "ps \<noteq> []" for ps
      using more.steps_andthen [OF keeps_Lstat still_steps(3) copy_to_first_more] that assms(1)
      by (cases ps) (auto simp: steps_def)
    show ?thesis
      by (rule Run_state [OF shapes(2) assms(1) _ _ assms(2) [unfolded 1]]) (simp_all add: run_ops said_state st)
  next
    case 2
    have st: "more_files s (fst (op_compress h p name members s))" for p name members
      using op_compress_more assms(1) by (simp add: steps_def)
    show ?thesis
      by (rule Run_state [OF shapes(3) assms(1) _ _ assms(2) [unfolded 2]]) (simp_all add: run_ops said_state st)
  next
    case 3
    have st: "more_files s (fst (root_MkdirAll (hp_links h) (ps ! 0) s))" if "list_all plain ps" "ps \<noteq> []" for ps
      using MkdirAll_more [of "ps ! 0" "hp_links h"] that assms(1) by (cases ps) (auto simp: steps_def)
    show ?thesis
      by (rule Run_state [OF shapes(4) assms(1) _ _ assms(2) [unfolded 3]]) (simp_all add: run_ops silently_state st)
  qed
qed

subsection \<open>Both sides name the same entry\<close>

text \<open>C13: What a client calls \<open>rel\<close> is, for the helper, the list of names that a reader of the path
  walks; a path that leaves the data directory on the way is refused, and only such a path.\<close>

theorem paths_meet:
  assumes "IsAbs root"
  shows "(\<exists>r. relative root (jail root rel) = Some r \<and> elems r = walk_elems [] (split_on (CHR ''/'') rel))
    \<and> (outsideRoot [rel] \<longleftrightarrow> climbs 0 (split_on (CHR ''/'') rel))
    \<and> (\<forall>r. relative root name = Some r \<longrightarrow> elems name = elems root @ elems r \<and> plain (elems r))"
proof (intro conjI allI impI)
  show "\<exists>r. relative root (jail root rel) = Some r \<and> elems r = walk_elems [] (split_on (CHR ''/'') rel)"
    using relative_iff [OF assms] elems_jail [OF assms] IsAbs_jail [OF assms] elems_slash_walk by metis
  show "outsideRoot [rel] = climbs 0 (split_on (CHR ''/'') rel)"
    by (simp add: outsideRoot_def outside_climbs)
  fix r assume "relative root name = Some r"
  then show "elems name = elems root @ elems r" "plain (elems r)"
    using relative_iff [OF assms, of name "elems r"] relative_local [of root name r] by (auto simp: plain_def)
qed

subsection \<open>Concrete runs\<close>

abbreviation demo_write :: "fsys \<times> string \<times> nat" where
  "demo_write \<equiv> Run demo_helper [''/data'', ''write'', ''/data/world/level.dat'', ''3''] (''new'', True) demo_fs"

lemma demo_write_name:
  "relative ''/data'' ''/data/world/level.dat'' = Some ''world/level.dat''"
  "Resolve (hp_links demo_helper) (fs_tree demo_fs) ''/data'' False (elems ''world/level.dat'') = Inr [''world'', ''level.dat'']"
  "last [''world'', ''level.dat''] \<noteq> temp_name demo_helper"
  by code_simp+

lemma write_is_atomic_witness:
  "snd (snd demo_write) = 0 \<and> fs_blob (fst demo_write) 2 = ''new''
   \<and> lookup (fs_tree (fst demo_write)) [''world'', ''level.dat''] = Some (File 2)"
proof -
  obtain s' out code where r: "demo_write = (s', out, code)" by (rule prod_cases3)
  have "snd (snd demo_write) = 0" "fs_next demo_fs = 2" by code_simp+
  then show ?thesis
    using write_is_atomic [OF demo_fs_ok demo_write_name r] unfolding r fst_conv snd_conv by (metis fst_conv)
qed

abbreviation demo_move :: "fsys \<times> string \<times> nat" where
  "demo_move \<equiv> Run demo_helper [''/data'', ''move'', ''/data/world'', ''/data/server.jar''] ([], True) demo_fs"

lemma nothing_lost_witness:
  "same_files demo_fs (fst demo_move) \<and> lookup (fs_tree (fst demo_move)) [''world'', ''server.jar''] = Some (File 1)"
proof -
  have "lookup (fs_tree (fst demo_move)) [''world'', ''server.jar''] = Some (File 1)" by code_simp
  moreover obtain s' out code where "demo_move = (s', out, code)" by (rule prod_cases3)
  ultimately show ?thesis
    using nothing_lost [OF demo_fs_ok, of demo_helper "''/data''" "''move''" "[''/data/world'', ''/data/server.jar'']"
        "([], True)" s' out code] by simp
qed

lemma paths_meet_witness:
  "(\<exists>r. relative ''/data'' (jail ''/data'' ''a/../world'') = Some r \<and> elems r = [''world''])"
proof -
  have "IsAbs ''/data''" by code_simp
  moreover have "walk_elems [] (split_on (CHR ''/'') ''a/../world'') = [''world'']" by code_simp
  ultimately show ?thesis using paths_meet [of "''/data''" "''a/../world''" "[]"] by metis
qed

end
