(* ===== verification/File_Api.thy ===== *)
theory File_Api imports File_Props Access Backups Pod_Status begin

text \<open>
  The file manager's requests (\<open>internal/api/files.go\<close>, \<open>internal/api/filesbulk.go\<close>):
  what each handler checks, the command it runs in the data manager's pod, and the status it answers
  with. \<open>Inl\<close> is the status of a request that ends there. The template's data path, the
  cluster's clients and the pods are arguments.
\<close>

subsection \<open>Before every request\<close>

fun http_status :: "http_error \<Rightarrow> nat" where
  "http_status (Status400 m) = 400" | "http_status (Status403 m) = 403"
| "http_status (Status404 m) = 404" | "http_status (Status409 m) = 409"

definition dataRoot :: "(row_id \<Rightarrow> string option) \<Rightarrow> Server \<Rightarrow> string" where
  "dataRoot template_path srv =
     (case template_path (sv_template_id srv) of
        Some p \<Rightarrow> if p \<noteq> [] then p else ''/data''
      | None \<Rightarrow> ''/data'')"

definition podNotReady :: "Pod \<Rightarrow> bool" where
  "podNotReady p = (case PodCondition p ''Ready'' of None \<Rightarrow> False | Some c \<Rightarrow> cn_status c = ''False'')"

definition containerRunning :: "Pod \<Rightarrow> string \<Rightarrow> bool" where
  "containerRunning p name =
     (case find (\<lambda>c. ct_name c = name) (po_containers p) of None \<Rightarrow> False | Some c \<Rightarrow> ct_running c \<noteq> None)"

fun dataPodTrouble :: "(Pod \<Rightarrow> duration) \<Rightarrow> (string \<Rightarrow> Node option) \<Rightarrow> Pod list \<Rightarrow> string" where
  \<comment> \<open>\<open>waited p\<close> is how long the pod has had the condition \<open>PodScheduled\<close> it has\<close>
  "dataPodTrouble waited node [] = []"
| "dataPodTrouble waited node (p # ps) =
     (if po_deleting p then dataPodTrouble waited node ps
      else if Unschedulable p \<noteq> [] \<and> waited p > 20 * second then
        ''no node can mount this server's files right now ('' @ Unschedulable p @ '')''
      else if po_node p = [] \<or> \<not> podNotReady p then dataPodTrouble waited node ps
      else (case node (po_node p) of
              Some n \<Rightarrow>
                if \<not> NodeReady n then ''the node '' @ nd_name n @ '', which holds this server's files, is not responding''
                else dataPodTrouble waited node ps
            | None \<Rightarrow> dataPodTrouble waited node ps))"

definition serves_files :: "Pod \<Rightarrow> bool" where
  "serves_files p =
     (\<not> po_deleting p \<and> po_phase p = PodRunning \<and> containerRunning p workloadName \<and> \<not> podNotReady p)"

datatype pod_answer = Pod_name string | Pod_unavailable string | Pod_not_ready

fun dataPodName :: "(Pod \<Rightarrow> duration) \<Rightarrow> (string \<Rightarrow> Node option) \<Rightarrow> (Pod list option \<times> bool) list \<Rightarrow> pod_answer option" where
  \<comment> \<open>the rounds of the loop: what the listing answers, and whether the time is up by then;
    \<open>None\<close> is still waiting\<close>
  "dataPodName waited node [] = None"
| "dataPodName waited node ((pods, over) # rounds) =
     (let wait_on = (if over then Some Pod_not_ready else dataPodName waited node rounds) in
      case pods of
        None \<Rightarrow> wait_on
      | Some ps \<Rightarrow>
          (case find serves_files ps of
             Some p \<Rightarrow> Some (Pod_name (po_name p))
           | None \<Rightarrow> let why = dataPodTrouble waited node ps in
               if why \<noteq> [] then Some (Pod_unavailable why) else wait_on))"

definition fileContext ::
  "db \<Rightarrow> User option \<Rightarrow> row_id option \<Rightarrow> string \<Rightarrow> string \<Rightarrow> (row_id \<Rightarrow> string option) \<Rightarrow> (Server \<Rightarrow> bool)
    \<Rightarrow> (Server \<Rightarrow> pod_answer) \<Rightarrow> nat + Server \<times> string \<times> string" where
  "fileContext d u path_id q_path q_to template_path clients pod =
     (case requireServer d u path_id PermFiles of
        Inl e \<Rightarrow> Inl (http_status e)
      | Inr srv \<Rightarrow>
          if outsideRoot [q_path, q_to] then Inl 400
          else if sv_transfer srv \<noteq> None then Inl 409
          else if HasActiveRestore (sv_id srv) d then Inl 409
          else if \<not> clients srv then Inl 503
          else (case pod srv of
                  Pod_unavailable why \<Rightarrow> Inl 503
                | Pod_not_ready \<Rightarrow> Inl 409
                | Pod_name p \<Rightarrow> Inr (srv, dataRoot template_path srv, p)))"

definition fileOpStatus :: "nat option \<Rightarrow> nat" where
  \<comment> \<open>\<open>writeFileOpError\<close>: the helper's exit code, when the error is one\<close>
  "fileOpStatus code = (if code = Some 4 then 400 else if code = Some 6 then 404 else 502)"

definition fileCommand :: "string \<Rightarrow> string \<Rightarrow> string list \<Rightarrow> string list" where
  "fileCommand root op args = [''/quetzal-bin/sftp'', ''fileop'', root, op] @ args"

subsection \<open>The commands\<close>

text \<open>What each handler runs once the request has its server, pod and data directory.\<close>

definition handleListFiles :: "string \<Rightarrow> string \<Rightarrow> string list" where
  "handleListFiles root q_path = fileCommand root ''list'' [jail root q_path]"

definition handleReadFile :: "string \<Rightarrow> string \<Rightarrow> string list" where
  "handleReadFile root q_path = fileCommand root ''read'' [jail root q_path]"

definition read_filename :: "string \<Rightarrow> string \<Rightarrow> string" where
  "read_filename root q_path = sanitizeFilename (Base (jail root q_path))"

definition handleArchiveFile :: "string \<Rightarrow> string \<Rightarrow> string list" where
  "handleArchiveFile root q_path = fileCommand root ''archive'' [jail root q_path]"

definition archive_filename :: "string \<Rightarrow> string \<Rightarrow> string" where
  "archive_filename root q_path =
     (let name = Base (jail root q_path) in
      sanitizeFilename (if name = ''/'' \<or> name = ''.'' \<or> name = [] then ''files'' else name) @ ''.tar.gz'')"

definition handleExtractArchive :: "string \<Rightarrow> string \<Rightarrow> string \<Rightarrow> string list" where
  "handleExtractArchive root q_path q_format =
     fileCommand root ''extract''
       [jail root q_path, if equal_fold_ascii q_format ''zip'' then ''zip'' else ''tar'']"

definition write_expected :: "int \<Rightarrow> string" where
  \<comment> \<open>the length announced; negative when the request has none\<close>
  "write_expected content_length = (if content_length \<ge> 0 then show_int content_length else [])"

definition handleMkdir :: "string \<Rightarrow> string \<Rightarrow> string list" where
  "handleMkdir root q_path = fileCommand root ''mkdir'' [jail root q_path]"

definition handleDeleteFile :: "string \<Rightarrow> string \<Rightarrow> nat + string list" where
  "handleDeleteFile root q_path =
     (if Clean (CHR ''/'' # q_path) = ''/'' then Inl 400
      else Inr (fileCommand root ''delete'' [jail root q_path]))"

definition handleRenameFile :: "string \<Rightarrow> string \<Rightarrow> string \<Rightarrow> nat + string list" where
  "handleRenameFile root q_path q_to =
     (if TrimSpace q_to = [] then Inl 400
      else Inr (fileCommand root ''rename'' [jail root q_path, jail root q_to]))"

definition child_paths :: "string \<Rightarrow> string list \<Rightarrow> string list" where
  "child_paths dir files = map (\<lambda>f. dir @ ''/'' @ f) files"

definition handleBulkDelete :: "string \<Rightarrow> string \<Rightarrow> string list \<Rightarrow> nat + string list" where
  "handleBulkDelete root req_root files =
     (if checkNames files \<noteq> None then Inl 400
      else if outsideRoot [req_root] then Inl 400
      else Inr (fileCommand root ''delete'' (child_paths (jail root req_root) files)))"

definition handleBulkMove :: "string \<Rightarrow> string \<Rightarrow> string \<Rightarrow> string list \<Rightarrow> nat + string list" where
  "handleBulkMove root req_root dest files =
     (if checkNames files \<noteq> None then Inl 400
      else if outsideRoot [req_root, dest] then Inl 400
      else Inr (fileCommand root ''move'' (jail root dest # child_paths (jail root req_root) files)))"

definition handleCopyFile :: "string \<Rightarrow> string \<Rightarrow> nat + string list" where
  "handleCopyFile root req_path =
     (if outsideRoot [req_path] then Inl 400
      else let rel = Clean (CHR ''/'' # req_path) in
        if rel = ''/'' then Inl 400
        else let src = jail root rel in
          Inr (fileCommand root ''copy'' (src # map (\<lambda>c. Join [path_Dir src, c]) (copyCandidates (Base rel)))))"

definition handleCompressFiles :: "string \<Rightarrow> string \<Rightarrow> string list \<Rightarrow> string \<Rightarrow> nat + string list" where
  \<comment> \<open>\<open>stamp\<close> is the time, formatted\<close>
  "handleCompressFiles root req_root files stamp =
     (if checkNames files \<noteq> None then Inl 400
      else if outsideRoot [req_root] then Inl 400
      else Inr (fileCommand root ''compress''
             ([jail root req_root, ''archive-'' @ stamp @ ''.tar.gz''] @ files)))"

definition handleDecompressFile :: "string \<Rightarrow> string \<Rightarrow> nat + string list" where
  "handleDecompressFile root req_path =
     (if outsideRoot [req_path] then Inl 400
      else case archiveFormat req_path of
          None \<Rightarrow> Inl 400
        | Some format \<Rightarrow> Inr (fileCommand root ''decompress'' [jail root req_path, format]))"

subsection \<open>A write, tried twice\<close>

text \<open>
  What becomes of an exec: it never starts the helper, or it runs it, on as much of the body as
  arrives, and hands back its exit code.
\<close>

datatype delivery = Not_started | Delivered helper input

datatype exec_error = Exit_code nat | Exec_failed

fun exec_file :: "string list \<Rightarrow> delivery \<Rightarrow> fsys \<Rightarrow> fsys \<times> exec_error option" where
  "exec_file cmd Not_started s = (s, Some Exec_failed)"
| "exec_file cmd (Delivered h inp) s =
     (case Run h (drop 2 cmd) inp s of (s', out, code) \<Rightarrow> (s', if code = 0 then None else Some (Exit_code code)))"

definition handleWriteFile :: "string \<Rightarrow> string \<Rightarrow> int \<Rightarrow> bool \<Rightarrow> delivery \<Rightarrow> delivery \<Rightarrow> fsys \<Rightarrow> fsys \<times> nat" where
  \<comment> \<open>a body of at most 8 MiB is read first, when it can be, and held for a second attempt\<close>
  "handleWriteFile root q_path content_length readable first again s =
     (let cmd = fileCommand root ''write'' [jail root q_path, write_expected content_length];
          retry = (0 \<le> content_length \<and> content_length \<le> 8 * 1024 * 1024) in
      if retry \<and> \<not> readable then (s, 400)
      else case exec_file cmd first s of (s1, err) \<Rightarrow>
        (case (if err \<noteq> None \<and> retry then exec_file cmd again s1 else (s1, err)) of
             (s2, None) \<Rightarrow> (s2, 204)
           | (s2, Some (Exit_code code)) \<Rightarrow> (s2, fileOpStatus (Some code))
           | (s2, Some Exec_failed) \<Rightarrow> (s2, fileOpStatus None)))"

definition written :: "fsys \<Rightarrow> place \<Rightarrow> string \<Rightarrow> fsys \<Rightarrow> bool \<Rightarrow> bool" where
  \<comment> \<open>the file is there, whole, and nothing else changed; or nothing did\<close>
  "written s p body s' ok \<longleftrightarrow>
     fs_next s \<le> fs_next s' \<and> (\<forall>i < fs_next s. fs_blob s' i = fs_blob s i)
     \<and> (if ok
        then \<exists>i \<ge> fs_next s. fs_blob s' i = body \<and> lookup (fs_tree s') p = Some (File i)
               \<and> fs_tree s' = alter p (\<lambda>_. Some (File i)) (fs_tree s)
        else fs_tree s' = fs_tree s)"

definition delivers :: "nat \<Rightarrow> place \<Rightarrow> string \<Rightarrow> delivery \<Rightarrow> bool" where
  \<comment> \<open>what arrives is the start of the body, and the name the helper draws is free\<close>
  "delivers L p body d \<longleftrightarrow>
     (case d of Not_started \<Rightarrow> True
      | Delivered h inp \<Rightarrow> hp_links h = L \<and> last p \<noteq> temp_name h \<and> prefix (fst inp) body)"

lemma written_refl: "written s p body s False"
  by (simp add: written_def)

lemma written_trans: "written s p body s1 False \<Longrightarrow> written s1 p body s2 ok \<Longrightarrow> written s p body s2 ok"
  by (auto simp: written_def split: if_splits intro: le_trans less_le_trans)

lemma write_expected_length:
  assumes "complete_input inp (write_expected (int (length body)))" "prefix (fst inp) body"
    and "int64 (int (length body))"
  shows "fst inp = body"
proof -
  have "parse_int64 (show_int (int (length body))) = Some (int (length body))"
    using assms(3) by (rule parse_show_int)
  then have "length (fst inp) = length body"
    using assms(1) by (simp add: complete_input_def write_expected_def show_int_def)
  then show ?thesis using assms(2) by (auto simp: prefix_def)
qed

lemma exec_write:
  assumes "IsAbs root" and wf: "wf_fs s"
    and res: "Resolve L (fs_tree s) root False (walk_elems [] (split_on (CHR ''/'') q_path)) = Inr p"
    and d: "delivers L p body d" and n: "int64 (int (length body))"
    and e: "exec_file (fileCommand root ''write'' [jail root q_path, write_expected (int (length body))]) d s = (s', err)"
  shows "wf_fs s' \<and> written s p body s' (err = None)"
proof (cases d)
  case Not_started
  with e wf show ?thesis by (auto simp: written_refl)
next
  case (Delivered h inp)
  obtain r where r: "relative root (jail root q_path) = Some r" "elems r = walk_elems [] (split_on (CHR ''/'') q_path)"
    using relative_iff [OF assms(1)] elems_jail [OF assms(1)] IsAbs_jail [OF assms(1)] elems_slash_walk by metis
  have h: "hp_links h = L" "last p \<noteq> temp_name h" "prefix (fst inp) body"
    using d Delivered by (simp_all add: delivers_def)
  obtain out code where run:
      "Run h [root, ''write'', jail root q_path, write_expected (int (length body))] inp s = (s', out, code)"
      and err: "err = None \<longleftrightarrow> code = 0"
    using e Delivered by (auto simp: fileCommand_def split: prod.splits if_splits)
  have wf': "wf_fs s'"
    using keeps_Run [OF wf run] .
  have "Resolve (hp_links h) (fs_tree s) root False (elems r) = Inr p" using res r h by simp
  note w = write_all_or_nothing [OF wf r(1) this h(2) run]
  show ?thesis
  proof (cases "code = 0")
    case True
    with w have "fst inp = body" using write_expected_length [OF _ h(3) n] by simp
    with w True err have "written s p body s' True"
      unfolding written_def by auto
    with wf' err True show ?thesis by simp
  next
    case False
    with w err have "written s p body s' False" unfolding written_def by simp
    with wf' err False show ?thesis by auto
  qed
qed



subsection \<open>A bulk request stays in its directory\<close>

lemma elems_child:
  assumes "IsAbs dir" "plain_elem f"
  shows "elems (dir @ ''/'' @ f) = elems dir @ [f]" "IsAbs (dir @ ''/'' @ f)"
proof -
  show abs: "IsAbs (dir @ ''/'' @ f)" using assms(1) by (cases dir) (auto simp: IsAbs_def)
  have "split_on (CHR ''/'') f = [f]" using assms(2) by (simp add: plain_elem_def split_on_single)
  then show "elems (dir @ ''/'' @ f) = elems dir @ [f]"
    using assms abs split_append_sep [of "CHR ''/''" dir f]
    by (simp add: elems_def clean_append_plain)
qed

lemma child_paths_name:
  assumes "IsAbs root" "checkNames files = None"
  shows "list_all2 (\<lambda>f a. \<exists>r. relative root a = Some r \<and> elems r = walk_elems [] (split_on (CHR ''/'') req_root) @ [f])
     files (child_paths (jail root req_root) files)"
proof -
  have "\<exists>r. relative root (jail root req_root @ ''/'' @ f) = Some r
      \<and> elems r = walk_elems [] (split_on (CHR ''/'') req_root) @ [f]" if "f \<in> set files" for f
  proof -
    have "plain_elem f" using assms(2) that by (simp add: checkNames_ok)
    then show ?thesis
      using elems_child [OF IsAbs_jail [OF assms(1)], of f req_root]
      by (simp only: relative_iff [OF assms(1)] elems_jail [OF assms(1)] elems_slash_walk append.assoc simp_thms)
  qed
  then show ?thesis by (simp add: child_paths_def list_all2_conv_all_nth)
qed

text \<open>C34: A bulk delete or move that is accepted runs on exactly the entries of the named directory that
  the request lists, in its order, and on no path that leaves the data directory on the way.\<close>

theorem bulk_names_children:
  assumes "IsAbs root"
    and "handleBulkDelete root req_root files = Inr cmd \<and> front = []
       \<or> handleBulkMove root req_root dest files = Inr cmd \<and> front = [jail root dest]"
  shows "\<not> climbs 0 (split_on (CHR ''/'') req_root) \<and> distinct files \<and> length files \<le> 1000
    \<and> list_all2 (\<lambda>f a. \<exists>r. relative root a = Some r \<and> elems r = walk_elems [] (split_on (CHR ''/'') req_root) @ [f])
        files (drop (4 + length front) cmd)
    \<and> take (length front) (drop 4 cmd) = front"
proof -
  have ok: "checkNames files = None" "\<not> outside req_root"
    "drop (4 + length front) cmd = child_paths (jail root req_root) files" "take (length front) (drop 4 cmd) = front"
    using assms(2) by (auto simp: handleBulkDelete_def handleBulkMove_def fileCommand_def outsideRoot_def split: if_splits)
  then show ?thesis
    using child_paths_name [OF assms(1) ok(1), of req_root] by (simp add: checkNames_ok outside_climbs)
qed

lemma bulk_names_children_witness:
  "(\<exists>r. relative ''/data'' ''/data/world/a'' = Some r \<and> elems r = [''world'', ''a''])"
proof -
  have "IsAbs ''/data''" "walk_elems [] (split_on (CHR ''/'') ''x/../world'') = [''world'']"
    "handleBulkDelete ''/data'' ''x/../world'' [''a''] = Inr (fileCommand ''/data'' ''delete'' [''/data/world/a''])"
    by code_simp+
  then show ?thesis
    using bulk_names_children [of "''/data''" "''x/../world''" "[''a'']"
        "fileCommand ''/data'' ''delete'' [''/data/world/a'']" "[]" "[]"]
    by (simp add: fileCommand_def)
qed

end
