(* ===== verification/Uploads.thy ===== *)
theory Uploads imports File_Api begin

text \<open>
  Uploads in pieces (\<open>internal/api/uploads.go\<close>, \<open>internal/store/upload.go\<close>): the rows
  that say who may add to which upload and who holds it, and the requests on them. Each request is one
  function here, of the database, the volume and what becomes of its exec; \<open>Upload_Machine\<close> takes
  them apart into the steps that interleave.
\<close>

definition UploadFile :: string where "UploadFile = ''file''"
definition UploadArchive :: string where "UploadArchive = ''archive''"

abbreviation maxUploadSize :: int where "maxUploadSize \<equiv> 64 * 2 ^ 30"
abbreviation maxUploadChunk :: int where "maxUploadChunk \<equiv> 32 * 2 ^ 20"
abbreviation uploadIdle :: duration where "uploadIdle \<equiv> 24 * hour"
abbreviation uploadChunkTimeout :: duration where "uploadChunkTimeout \<equiv> 15 * minute"
abbreviation fileOpTimeout :: duration where "fileOpTimeout \<equiv> minute"
abbreviation fileJobTimeout :: duration where "fileJobTimeout \<equiv> hour"
abbreviation uploadGiveUp :: duration where "uploadGiveUp \<equiv> 7 * 24 * hour"
definition maxOpenUploads :: nat where "maxOpenUploads = 20"
definition fileOpConflict :: nat where "fileOpConflict = 7"

definition zero_time :: time where
  \<comment> \<open>\<open>time.Time{}\<close>, the start of the year 1\<close>
  "zero_time = - 62135596800 * second"

subsection \<open>The rows\<close>

definition CreateUpload :: "FileUpload \<Rightarrow> db \<Rightarrow> db option" where
  \<comment> \<open>the id is the primary key\<close>
  "CreateUpload u d =
     (if \<exists>v \<in> set (uploads d). fu_id v = fu_id u then None else Some (d\<lparr>uploads := uploads d @ [u]\<rparr>))"

definition GetUpload :: "string \<Rightarrow> row_id \<Rightarrow> row_id \<Rightarrow> db \<Rightarrow> FileUpload option" where
  "GetUpload i server user d =
     find (\<lambda>u. fu_id u = i \<and> fu_server_id u = server \<and> fu_user_id u = user) (uploads d)"

definition ListUploads :: "time \<Rightarrow> row_id \<Rightarrow> row_id \<Rightarrow> db \<Rightarrow> FileUpload list" where
  "ListUploads now server user d =
     sort_key fu_created_at
       (filter (\<lambda>u. fu_server_id u = server \<and> fu_user_id u = user \<and> fu_expires_at u > now) (uploads d))"

definition CountUploadsByUser :: "time \<Rightarrow> row_id \<Rightarrow> db \<Rightarrow> nat" where
  "CountUploadsByUser now user d =
     length (filter (\<lambda>u. fu_user_id u = user \<and> fu_expires_at u > now) (uploads d))"

definition update_upload :: "string \<Rightarrow> (FileUpload \<Rightarrow> FileUpload) \<Rightarrow> db \<Rightarrow> db" where
  "update_upload i f d = d\<lparr>uploads := update_where (\<lambda>u. fu_id u = i) f (uploads d)\<rparr>"

definition LockUpload :: "string \<Rightarrow> time \<Rightarrow> time \<Rightarrow> db \<Rightarrow> db \<times> bool" where
  "LockUpload i now until d =
     (let P = (\<lambda>u. fu_id u = i \<and> fu_locked_until u < now) in
      (d\<lparr>uploads := update_where P (\<lambda>u. u\<lparr>fu_locked_until := until\<rparr>) (uploads d)\<rparr>,
       length (filter P (uploads d)) = 1))"

definition TouchUpload :: "string \<Rightarrow> time \<Rightarrow> db \<Rightarrow> db" where
  "TouchUpload i expires d =
     update_upload i (\<lambda>u. u\<lparr>fu_expires_at := expires, fu_locked_until := zero_time\<rparr>) d"

definition DeleteUpload :: "string \<Rightarrow> db \<Rightarrow> db" where
  "DeleteUpload i d = d\<lparr>uploads := delete_where (\<lambda>u. fu_id u = i) (uploads d)\<rparr>"

definition ExpiredUploads :: "time \<Rightarrow> db \<Rightarrow> FileUpload list" where
  "ExpiredUploads now d = filter (\<lambda>u. fu_expires_at u < now) (uploads d)"

subsection \<open>What the requests share\<close>

definition uploadTemp :: "string \<Rightarrow> FileUpload \<Rightarrow> string" where
  "uploadTemp root u =
     (let dst = jail root (fu_path u) in
      if fu_kind u = UploadArchive then Join [dst, ''.quetzal-upload-'' @ fu_id u]
      else dst @ ''.quetzal-part-'' @ fu_id u)"

definition newUploadID :: "nat list \<Rightarrow> string" where
  \<comment> \<open>of the sixteen bytes drawn\<close>
  "newUploadID random = hex_string random"

definition uploadContext :: "time \<Rightarrow> string \<Rightarrow> row_id \<Rightarrow> row_id \<Rightarrow> db \<Rightarrow> FileUpload option" where
  \<comment> \<open>after \<open>fileContext\<close>; \<open>None\<close> answers 404\<close>
  "uploadContext now i server user d =
     (case GetUpload i server user d of
        None \<Rightarrow> None
      | Some u \<Rightarrow> if \<not> fu_expires_at u > now then None else Some u)"

fun exec_out :: "string list \<Rightarrow> delivery \<Rightarrow> fsys \<Rightarrow> fsys \<times> string \<times> exec_error option" where
  "exec_out cmd Not_started s = (s, [], Some Exec_failed)"
| "exec_out cmd (Delivered h inp) s =
     (case Run h (drop 2 cmd) inp s of (s', out, code) \<Rightarrow> (s', out, if code = 0 then None else Some (Exit_code code)))"

definition exec_status :: "exec_error \<Rightarrow> nat" where
  "exec_status e = (case e of Exit_code code \<Rightarrow> fileOpStatus (Some code) | Exec_failed \<Rightarrow> fileOpStatus None)"

definition wrap64 :: "int \<Rightarrow> int" where
  "wrap64 i = sint (word_of_int i :: 64 word)"

fun limit :: "int \<Rightarrow> delivery \<Rightarrow> delivery" where
  \<comment> \<open>\<open>http.MaxBytesReader\<close>: what goes past the limit is an error\<close>
  "limit n Not_started = Not_started"
| "limit n (Delivered h (bs, ends)) = Delivered h (take (nat n) bs, ends \<and> int (length bs) \<le> n)"

subsection \<open>The requests\<close>

record upload_request =
  rq_path :: string
  rq_size :: int
  rq_kind :: string
  rq_format :: string

definition request_kind :: "upload_request \<Rightarrow> string" where
  "request_kind req = (if rq_kind req = [] then UploadFile else rq_kind req)"

definition new_upload :: "time \<Rightarrow> row_id \<Rightarrow> row_id \<Rightarrow> string \<Rightarrow> upload_request \<Rightarrow> FileUpload" where
  "new_upload now server user i req =
     \<lparr>fu_id = i, fu_created_at = now, fu_server_id = server, fu_user_id = user, fu_path = rq_path req,
      fu_kind = request_kind req,
      fu_format = (if request_kind req = UploadArchive
                   then if equal_fold_ascii (rq_format req) ''zip'' then ''zip'' else ''tar'' else []),
      fu_size = rq_size req, fu_expires_at = now + uploadIdle, fu_locked_until = zero_time\<rparr>"

definition handleCreateUpload ::
  "time \<Rightarrow> row_id \<Rightarrow> row_id \<Rightarrow> string \<Rightarrow> nat list \<Rightarrow> upload_request \<Rightarrow> delivery \<Rightarrow> db \<Rightarrow> fsys \<Rightarrow> db \<times> fsys \<times> nat" where
  "handleCreateUpload now server user root random req check d s =
     (if outsideRoot [rq_path req] then (d, s, 400)
      else if request_kind req = UploadFile \<and> trim_cut ''/'' (Clean (CHR ''/'' # rq_path req)) = [] then (d, s, 400)
      else if request_kind req \<noteq> UploadFile \<and> request_kind req \<noteq> UploadArchive then (d, s, 400)
      else if rq_size req \<le> 0 \<or> rq_size req > maxUploadSize then (d, s, 400)
      else if CountUploadsByUser now user d \<ge> maxOpenUploads then (d, s, 409)
      else case exec_out (fileCommand root ''upload-check'' [jail root (rq_path req), request_kind req]) check s of
          (s', out, Some e) \<Rightarrow> (d, s', exec_status e)
        | (s', out, None) \<Rightarrow>
            (case CreateUpload (new_upload now server user (newUploadID random) req) d of
               None \<Rightarrow> (d, s', 500) | Some d' \<Rightarrow> (d', s', 201)))"

datatype upload_answer = Received int | Elsewhere int | Answer nat
  \<comment> \<open>how much has arrived; 409 with how much really has; another status\<close>

definition uploadReceived :: "string \<Rightarrow> FileUpload \<Rightarrow> delivery \<Rightarrow> fsys \<Rightarrow> fsys \<times> (exec_error option + int)" where
  "uploadReceived root u exec s =
     (case exec_out (fileCommand root ''upload-size'' [uploadTemp root u]) exec s of
        (s', out, Some e) \<Rightarrow> (s', Inl (Some e))
      | (s', out, None) \<Rightarrow> (s', case parse_int64 (TrimSpace out) of None \<Rightarrow> Inl None | Some n \<Rightarrow> Inr n))"

definition handleGetUpload ::
  "time \<Rightarrow> string \<Rightarrow> row_id \<Rightarrow> row_id \<Rightarrow> string \<Rightarrow> delivery \<Rightarrow> db \<Rightarrow> fsys \<Rightarrow> fsys \<times> upload_answer" where
  "handleGetUpload now i server user root exec d s =
     (case uploadContext now i server user d of
        None \<Rightarrow> (s, Answer 404)
      | Some u \<Rightarrow>
          (case uploadReceived root u exec s of
             (s', Inr n) \<Rightarrow> (s', Received n)
           | (s', Inl (Some e)) \<Rightarrow> (s', Answer (exec_status e))
           | (s', Inl None) \<Rightarrow> (s', Answer (fileOpStatus None))))"

definition chunk_refused :: "FileUpload \<Rightarrow> int option \<Rightarrow> int \<Rightarrow> nat option" where
  \<comment> \<open>the offset as it parsed and the length announced; the sum is a 64-bit one\<close>
  "chunk_refused u offset n =
     (case offset of
        None \<Rightarrow> Some 400
      | Some off \<Rightarrow>
          if off < 0 then Some 400
          else if n < 0 then Some 411
          else if n > maxUploadChunk then Some 413
          else if wrap64 (off + n) > fu_size u then Some 400
          else None)"

definition chunk_answer :: "string \<Rightarrow> exec_error option \<Rightarrow> upload_answer" where
  "chunk_answer out err =
     (let got = parse_int64 (TrimSpace out) in
      case err of
        Some e \<Rightarrow>
          (case got of
             Some n \<Rightarrow> if e = Exit_code fileOpConflict then Elsewhere n else Answer (exec_status e)
           | None \<Rightarrow> Answer (exec_status e))
      | None \<Rightarrow> (case got of None \<Rightarrow> Answer 502 | Some n \<Rightarrow> Received n))"

definition handlePutUploadChunk ::
  "time \<Rightarrow> time \<Rightarrow> string \<Rightarrow> row_id \<Rightarrow> row_id \<Rightarrow> string \<Rightarrow> string \<Rightarrow> int \<Rightarrow> delivery \<Rightarrow> db \<Rightarrow> fsys
    \<Rightarrow> db \<times> fsys \<times> upload_answer" where
  \<comment> \<open>from \<open>now\<close> until \<open>ends\<close>\<close>
  "handlePutUploadChunk now ends i server user root q_offset n exec d s =
     (case uploadContext now i server user d of
        None \<Rightarrow> (d, s, Answer 404)
      | Some u \<Rightarrow>
          (case chunk_refused u (parse_int64 q_offset) n of
             Some status \<Rightarrow> (d, s, Answer status)
           | None \<Rightarrow>
               (case LockUpload i now (now + (uploadChunkTimeout + minute)) d of
                  (d', got) \<Rightarrow>
                    if \<not> got then (d', s, Answer 409)
                    else (case exec_out (fileCommand root ''upload-append''
                                  [uploadTemp root u, show_int (the (parse_int64 q_offset))]) (limit n exec) s of
                            (s', out, err) \<Rightarrow> (TouchUpload i (ends + uploadIdle) d', s', chunk_answer out err)))))"

definition finish_command :: "string \<Rightarrow> FileUpload \<Rightarrow> string list" where
  "finish_command root u =
     (let tmp = uploadTemp root u; dst = jail root (fu_path u); sz = show_int (fu_size u) in
      if fu_kind u = UploadArchive then fileCommand root ''upload-finish-archive'' [tmp, dst, sz, fu_format u]
      else fileCommand root ''upload-finish-file'' [tmp, dst, sz])"

definition finish_outcome :: "time \<Rightarrow> FileUpload \<Rightarrow> exec_error option \<Rightarrow> db \<Rightarrow> db \<times> nat" where
  "finish_outcome ends u err d =
     (if err = Some (Exit_code fileOpConflict) then (TouchUpload (fu_id u) (ends + uploadIdle) d, 409)
      else case err of
          Some e \<Rightarrow>
            if fu_kind u = UploadFile then (TouchUpload (fu_id u) (ends + uploadIdle) d, exec_status e)
            else (DeleteUpload (fu_id u) d, exec_status e)
        | None \<Rightarrow> (DeleteUpload (fu_id u) d, 204))"

definition handleCompleteUpload ::
  "time \<Rightarrow> time \<Rightarrow> string \<Rightarrow> row_id \<Rightarrow> row_id \<Rightarrow> string \<Rightarrow> delivery \<Rightarrow> db \<Rightarrow> fsys \<Rightarrow> db \<times> fsys \<times> nat" where
  "handleCompleteUpload now ends i server user root exec d s =
     (case uploadContext now i server user d of
        None \<Rightarrow> (d, s, 404)
      | Some u \<Rightarrow>
          (case LockUpload i now (now + (fileJobTimeout + minute)) d of
             (d', got) \<Rightarrow>
               if \<not> got then (d', s, 409)
               else (case exec_out (finish_command root u) exec s of
                       (s', out, err) \<Rightarrow> (case finish_outcome ends u err d' of (d'', status) \<Rightarrow> (d'', s', status)))))"

definition removeUploadTemp :: "string \<Rightarrow> FileUpload \<Rightarrow> delivery \<Rightarrow> fsys \<Rightarrow> fsys \<times> exec_error option" where
  "removeUploadTemp root u exec s =
     (case exec_out (fileCommand root ''upload-remove'' [uploadTemp root u]) exec s of (s', out, err) \<Rightarrow> (s', err))"

definition handleDeleteUpload ::
  "time \<Rightarrow> string \<Rightarrow> row_id \<Rightarrow> row_id \<Rightarrow> string \<Rightarrow> delivery \<Rightarrow> db \<Rightarrow> fsys \<Rightarrow> db \<times> fsys \<times> nat" where
  "handleDeleteUpload now i server user root exec d s =
     (case uploadContext now i server user d of
        None \<Rightarrow> (d, s, 404)
      | Some u \<Rightarrow>
          (case LockUpload i now (now + (fileOpTimeout + minute)) d of
             (d', got) \<Rightarrow>
               if \<not> got then (d', s, 409)
               else (case removeUploadTemp root u exec s of
                       (s', Some e) \<Rightarrow> (TouchUpload i (fu_expires_at u) d', s', exec_status e)
                     | (s', None) \<Rightarrow> (DeleteUpload i d', s', 204))))"

definition collect_verdict :: "time \<Rightarrow> FileUpload \<Rightarrow> bool \<Rightarrow> db \<Rightarrow> db" where
  "collect_verdict now u removed d =
     (if removed \<or> now - fu_expires_at u > uploadGiveUp then DeleteUpload (fu_id u) d else d)"

fun collect_all :: "time \<Rightarrow> (FileUpload \<Rightarrow> string) \<Rightarrow> (FileUpload \<Rightarrow> delivery option) \<Rightarrow> FileUpload list
    \<Rightarrow> db \<Rightarrow> (row_id \<Rightarrow> fsys) \<Rightarrow> db \<times> (row_id \<Rightarrow> fsys)" where
  \<comment> \<open>\<open>exec u\<close> is \<open>None\<close> when the upload's server has no clients or no pod that serves it\<close>
  "collect_all now root exec [] d v = (d, v)"
| "collect_all now root exec (u # us) d v =
     (case GetServer (fu_server_id u) d of
        Inl e \<Rightarrow> collect_all now root exec us (DeleteUpload (fu_id u) d) v
      | Inr srv \<Rightarrow>
          (case exec u of
             None \<Rightarrow> collect_all now root exec us (collect_verdict now u False d) v
           | Some x \<Rightarrow>
               (case removeUploadTemp (root u) u x (v (fu_server_id u)) of
                  (s', err) \<Rightarrow>
                    collect_all now root exec us (collect_verdict now u (err = None) d) (v(fu_server_id u := s')))))"

definition CollectUploads :: "time \<Rightarrow> (FileUpload \<Rightarrow> string) \<Rightarrow> (FileUpload \<Rightarrow> delivery option)
    \<Rightarrow> db \<Rightarrow> (row_id \<Rightarrow> fsys) \<Rightarrow> db \<times> (row_id \<Rightarrow> fsys)" where
  \<comment> \<open>over the servers' volumes\<close>
  "CollectUploads now root exec d v = collect_all now root exec (ExpiredUploads now d) d v"

subsection \<open>What an upload starts as\<close>

lemma new_upload_fields [simp]:
  "fu_id (new_upload now server user i req) = i"
  "fu_size (new_upload now server user i req) = rq_size req"
  "fu_user_id (new_upload now server user i req) = user"
  by (simp_all add: new_upload_def)

lemma handleCreateUpload_created:
  assumes "handleCreateUpload now server user root random req check d s = (d', s', 201)"
  shows "d' = d\<lparr>uploads := uploads d @ [new_upload now server user (newUploadID random) req]\<rparr>
    \<and> (\<forall>v \<in> set (uploads d). fu_id v \<noteq> newUploadID random)
    \<and> 0 < rq_size req \<and> rq_size req \<le> maxUploadSize \<and> \<not> outside (rq_path req)
    \<and> (request_kind req = UploadFile \<or> request_kind req = UploadArchive)"
  using assms
  by (auto simp: handleCreateUpload_def CreateUpload_def outsideRoot_def exec_status_def fileOpStatus_def
      split: if_splits prod.splits option.splits exec_error.splits)

lemma open_uploads_bounded:
  assumes "handleCreateUpload now server user root random req check d s = (d', s', status)"
    and "CountUploadsByUser now user d \<le> maxOpenUploads"
  shows "CountUploadsByUser now user d' \<le> maxOpenUploads"
  using assms
  by (auto simp: handleCreateUpload_def CreateUpload_def CountUploadsByUser_def new_upload_def
      split: if_splits prod.splits option.splits)

text \<open>C39: When the exec that should finish an archive does not start, the request forgets the upload
  while its temporary file stays on the volume, which no request and no collection reaches any more; a file's upload stays and can be finished again.\<close>

theorem failed_exec_forgets_archive:
  assumes "uploadContext now i server user d = Some u" and "snd (LockUpload i now (now + (fileJobTimeout + minute)) d)"
    and "handleCompleteUpload now ends i server user root Not_started d s = (d', s', status)"
  shows "s' = s \<and> status = 502
    \<and> (fu_kind u \<noteq> UploadFile \<longrightarrow> (\<forall>server user. GetUpload i server user d' = None) \<and> (\<forall>v \<in> set (ExpiredUploads later d'). fu_id v \<noteq> i))
    \<and> (fu_kind u = UploadFile \<longrightarrow> map fu_id (uploads d') = map fu_id (uploads d))"
proof -
  have i: "fu_id u = i"
    using assms(1) by (auto simp: uploadContext_def GetUpload_def split: option.splits if_splits dest: find_SomeD)
  obtain d1 where l: "LockUpload i now (now + (fileJobTimeout + minute)) d = (d1, True)"
    using assms(2) by (metis prod.collapse)
  then have "map fu_id (uploads d1) = map fu_id (uploads d)"
    by (auto simp: LockUpload_def Let_def map_key_update_where)
  with l show ?thesis
    using assms(1,3) i
    by (auto simp: handleCompleteUpload_def finish_outcome_def exec_status_def fileOpStatus_def DeleteUpload_def
        GetUpload_def ExpiredUploads_def TouchUpload_def update_upload_def map_key_update_where find_None_iff row_simps
        split: prod.splits if_splits)
qed

definition demo_upload :: "string \<Rightarrow> FileUpload" where
  "demo_upload kind = \<lparr>fu_id = ''ab'', fu_created_at = 0, fu_server_id = 1, fu_user_id = 2, fu_path = ''world'',
     fu_kind = kind, fu_format = ''tar'', fu_size = 3, fu_expires_at = 100, fu_locked_until = zero_time\<rparr>"

lemma failed_exec_forgets_archive_witness:
  "GetUpload ''ab'' 1 2 (fst (handleCompleteUpload 5 6 ''ab'' 1 2 ''/data'' Not_started
     (empty_db\<lparr>uploads := [demo_upload UploadArchive]\<rparr>) demo_fs)) = None"
proof -
  let ?d = "empty_db\<lparr>uploads := [demo_upload UploadArchive]\<rparr>"
  obtain d' s' status where r: "handleCompleteUpload 5 6 ''ab'' 1 2 ''/data'' Not_started ?d demo_fs = (d', s', status)"
    by (rule prod_cases3)
  have "uploadContext 5 ''ab'' 1 2 ?d = Some (demo_upload UploadArchive)"
    "snd (LockUpload ''ab'' 5 (5 + (fileJobTimeout + minute)) ?d)"
    by (simp_all add: uploadContext_def GetUpload_def LockUpload_def demo_upload_def zero_time_def)
  moreover have "fu_kind (demo_upload UploadArchive) \<noteq> UploadFile"
    by (simp add: demo_upload_def UploadArchive_def UploadFile_def)
  ultimately have "\<forall>server user. GetUpload ''ab'' server user d' = None"
    using failed_exec_forgets_archive [OF _ _ r] by blast
  then show ?thesis unfolding r fst_conv by blast
qed

end
