(* ===== verification/Upload_Machine.thy ===== *)
theory Upload_Machine imports Uploads begin

text \<open>
  An upload while requests on it overlap: a machine whose steps are what happens to one file's
  upload, between requests, collections and everything else that writes to the volume. A request that
  got the lock runs until its own deadline at most; the helper it runs appends what arrives bit by bit.
  The names of the temporary file and of the destination are resolved ones and lead where they do
  all along; what else happens on the volume may take the temporary file away but not fill it.
\<close>

record upload_job =
  uj_links :: nat
  uj_id :: string
  uj_server :: row_id
  uj_user :: row_id
  uj_temp :: "string list"
  uj_dest :: "string list"
  uj_size :: int
  uj_sent :: "int \<Rightarrow> string \<Rightarrow> bool"  \<comment> \<open>what the client may send for an offset\<close>

datatype stage =
    Piece int string | Appending nat string  \<comment> \<open>what is still to arrive, and onto which open file\<close>
  | Stopped
  | Finishing | Finish_ran "ferr option"
  | Removing | Remove_ran "ferr option"

record attempt =
  at_until :: time
  at_stage :: stage

record uploading =
  up_now :: time
  up_db :: db
  up_fs :: fsys
  up_busy :: "attempt list"

definition names_lead :: "upload_job \<Rightarrow> fsys \<Rightarrow> bool" where
  "names_lead j s = (is_dir (fs_tree s) \<and> settled (fs_tree s) True (uj_temp j) \<and> settled (fs_tree s) False (uj_dest j))"

definition append_to :: "fsys \<Rightarrow> nat \<Rightarrow> string \<Rightarrow> fsys" where
  \<comment> \<open>one \<open>write\<close> on a descriptor with \<open>O_APPEND\<close>\<close>
  "append_to s i c = fst (write_fd i (fs_blob s i @ c) s)"

definition opened :: "int \<Rightarrow> string \<Rightarrow> fsys \<Rightarrow> ferr + nat \<Rightarrow> stage" where
  "opened off bs s r =
     (case r of Inl e \<Rightarrow> Stopped | Inr i \<Rightarrow> if int (length (fs_blob s i)) = off then Appending i bs else Stopped)"

definition error_of :: "ferr + 'a \<Rightarrow> ferr option" where
  "error_of r = (case r of Inl e \<Rightarrow> Some e | Inr x \<Rightarrow> None)"

definition left_alone :: "upload_job \<Rightarrow> attempt list \<Rightarrow> fsys \<Rightarrow> fsys \<Rightarrow> bool" where
  \<comment> \<open>what everything else does to the volume\<close>
  "left_alone j busy s s' \<longleftrightarrow>
     fs_next s \<le> fs_next s'
     \<and> (lookup (fs_tree s') (uj_temp j) = None \<or> lookup (fs_tree s') (uj_temp j) = lookup (fs_tree s) (uj_temp j))
     \<and> (\<forall>i. lookup (fs_tree s) (uj_temp j) = Some (File i) \<or> (\<exists>r \<in> set busy. \<exists>bs. at_stage r = Appending i bs)
           \<longrightarrow> fs_blob s' i = fs_blob s i)"

inductive upload_step :: "upload_job \<Rightarrow> uploading \<Rightarrow> uploading \<Rightarrow> bool" for j where
  passes: "\<lbrakk>up_now w \<le> t; \<forall>r \<in> set (up_busy w). t \<le> at_until r\<rbrakk> \<Longrightarrow> upload_step j w (w\<lparr>up_now := t\<rparr>)"
| piece_starts:
    "\<lbrakk>uploadContext (up_now w) (uj_id j) (uj_server j) (uj_user j) (up_db w) = Some u;
      chunk_refused u (Some off) n = None; uj_sent j off bs; int (length bs) \<le> n;
      LockUpload (uj_id j) (up_now w) (up_now w + (uploadChunkTimeout + minute)) (up_db w) = (d', True)\<rbrakk>
     \<Longrightarrow> upload_step j w (w\<lparr>up_db := d',
           up_busy := up_busy w @ [\<lparr>at_until = up_now w + uploadChunkTimeout, at_stage = Piece off bs\<rparr>]\<rparr>)"
| piece_opens:
    "\<lbrakk>up_busy w = xs @ r # ys; at_stage r = Piece off bs; names_lead j (up_fs w);
      open_append (uj_links j) (uj_temp j) (up_fs w) = (s', i)\<rbrakk>
     \<Longrightarrow> upload_step j w (w\<lparr>up_fs := s', up_busy := xs @ r\<lparr>at_stage := opened off bs s' i\<rparr> # ys\<rparr>)"
| piece_writes:
    "\<lbrakk>up_busy w = xs @ r # ys; at_stage r = Appending i (c @ bs)\<rbrakk>
     \<Longrightarrow> upload_step j w (w\<lparr>up_fs := append_to (up_fs w) i c, up_busy := xs @ r\<lparr>at_stage := Appending i bs\<rparr> # ys\<rparr>)"
| piece_ends:
    "\<lbrakk>up_busy w = xs @ r # ys; at_stage r \<in> {Stopped, Piece off bs, Appending i bs}\<rbrakk>
     \<Longrightarrow> upload_step j w (w\<lparr>up_db := TouchUpload (uj_id j) (up_now w + uploadIdle) (up_db w), up_busy := xs @ ys\<rparr>)"
| finish_starts:
    "\<lbrakk>uploadContext (up_now w) (uj_id j) (uj_server j) (uj_user j) (up_db w) = Some u;
      LockUpload (uj_id j) (up_now w) (up_now w + (fileJobTimeout + minute)) (up_db w) = (d', True)\<rbrakk>
     \<Longrightarrow> upload_step j w (w\<lparr>up_db := d',
           up_busy := up_busy w @ [\<lparr>at_until = up_now w + fileOpTimeout, at_stage = Finishing\<rparr>]\<rparr>)"
| finish_runs:
    "\<lbrakk>up_busy w = xs @ r # ys; at_stage r = Finishing; names_lead j (up_fs w); hp_links h = uj_links j;
      op_upload_finish h root ''upload-finish-file'' (uj_temp j) (uj_dest j) (show_int (uj_size j)) [] (up_fs w) = (s', x)\<rbrakk>
     \<Longrightarrow> upload_step j w (w\<lparr>up_fs := s', up_busy := xs @ r\<lparr>at_stage := Finish_ran (error_of x)\<rparr> # ys\<rparr>)"
| finish_ends:
    "\<lbrakk>up_busy w = xs @ r # ys; at_stage r = Finishing \<and> err \<noteq> None \<or> at_stage r = Finish_ran x \<and> (err = None \<longrightarrow> x = None);
      fu_id u = uj_id j; fu_kind u = UploadFile\<rbrakk>
     \<Longrightarrow> upload_step j w (w\<lparr>up_db := fst (finish_outcome (up_now w) u err (up_db w)), up_busy := xs @ ys\<rparr>)"
| remove_starts:
    "\<lbrakk>uploadContext (up_now w) (uj_id j) (uj_server j) (uj_user j) (up_db w) = Some u;
      LockUpload (uj_id j) (up_now w) (up_now w + (fileOpTimeout + minute)) (up_db w) = (d', True)\<rbrakk>
     \<Longrightarrow> upload_step j w (w\<lparr>up_db := d',
           up_busy := up_busy w @ [\<lparr>at_until = up_now w + fileOpTimeout, at_stage = Removing\<rparr>]\<rparr>)"
| remove_runs:
    "\<lbrakk>up_busy w = xs @ r # ys; at_stage r = Removing; names_lead j (up_fs w);
      unless_missing (root_Remove (uj_links j) (uj_temp j)) (up_fs w) = (s', x)\<rbrakk>
     \<Longrightarrow> upload_step j w (w\<lparr>up_fs := s', up_busy := xs @ r\<lparr>at_stage := Remove_ran (error_of x)\<rparr> # ys\<rparr>)"
| remove_fails:
    "\<lbrakk>up_busy w = xs @ r # ys; at_stage r = Removing \<or> at_stage r = Remove_ran x\<rbrakk>
     \<Longrightarrow> upload_step j w (w\<lparr>up_db := TouchUpload (uj_id j) expires (up_db w), up_busy := xs @ ys\<rparr>)"
| remove_ends:
    "\<lbrakk>up_busy w = xs @ r # ys; at_stage r = Remove_ran None\<rbrakk>
     \<Longrightarrow> upload_step j w (w\<lparr>up_db := DeleteUpload (uj_id j) (up_db w), up_busy := xs @ ys\<rparr>)"
| collects:
    "\<lbrakk>u \<in> set (ExpiredUploads (up_now w) (up_db w)); fu_id u = uj_id j; names_lead j (up_fs w);
      unless_missing (root_Remove (uj_links j) (uj_temp j)) (up_fs w) = (s', x); s'' \<in> {up_fs w, s'}\<rbrakk>
     \<Longrightarrow> upload_step j w (w\<lparr>up_fs := s'', up_db := collect_verdict (up_now w) u (s'' = s' \<and> error_of x = None) (up_db w)\<rparr>)"
| elsewhere:
    "left_alone j (up_busy w) (up_fs w) s' \<Longrightarrow> upload_step j w (w\<lparr>up_fs := s'\<rparr>)"

inductive upload_run :: "upload_job \<Rightarrow> uploading \<Rightarrow> uploading \<Rightarrow> bool" for j w0 where
  run_start: "upload_run j w0 w0"
| run_step: "upload_run j w0 w \<Longrightarrow> upload_step j w w' \<Longrightarrow> upload_run j w0 w'"

definition upload_begins :: "upload_job \<Rightarrow> uploading \<Rightarrow> bool" where
  \<comment> \<open>just created: no request yet, and nothing under the temporary name\<close>
  "upload_begins j w \<longleftrightarrow>
     up_busy w = [] \<and> lookup (fs_tree (up_fs w)) (uj_temp j) = None
     \<and> (\<forall>u \<in> set (uploads (up_db w)). fu_id u = uj_id j \<longrightarrow> fu_size u = uj_size j)
     \<and> plain (uj_temp j) \<and> plain (uj_dest j) \<and> uj_temp j \<noteq> uj_dest j"

subsection \<open>What the helper does to the temporary file\<close>

lemma walk_at:
  assumes "settled (fs_tree s) deref p" "plain p" "is_dir (fs_tree s)" "walk L (fs_tree s) deref [] p = Inr q"
  shows "q = p" "\<exists>es. lookup (fs_tree s) (butlast p) = Some (Dir es)"
proof -
  show q: "q = p" using walk_settled [of "fs_tree s" deref "[]" p L] assms by (auto simp: plain_def)
  obtain es where "fs_tree s = Dir es" using assms(3) by (cases "fs_tree s") auto
  then show "\<exists>es. lookup (fs_tree s) (butlast p) = Some (Dir es)"
    using walk_place [OF assms(4)] plain_no_slash [OF assms(2)] q by auto
qed

lemma lookup_put:
  assumes "lookup (fs_tree s) (butlast p) = Some (Dir es)" "p \<noteq> []"
  shows "lookup (fs_tree (put_at p x s)) p = x"
  using lookup_alter_same [OF assms(1), of "last p" "\<lambda>_. x"] assms(2) by (simp add: put_at_def)

lemma open_append_effect:
  assumes "settled (fs_tree s) True p" "plain p" "is_dir (fs_tree s)" "open_append L p s = (s', r)"
  shows "(\<exists>e. r = Inl e) \<and> s' = s
     \<or> (\<exists>i. r = Inr i \<and> lookup (fs_tree s) p = Some (File i)) \<and> s' = s
     \<or> r = Inr (fs_next s) \<and> lookup (fs_tree s) p = None \<and> fs_next s' = Suc (fs_next s)
       \<and> fs_blob s' = (fs_blob s)(fs_next s := []) \<and> lookup (fs_tree s') p = Some (File (fs_next s))"
proof (cases "walk L (fs_tree s) True [] p")
  case (Inl e)
  with assms(4) show ?thesis by (auto simp: open_append_def andthen_def at_name_def)
next
  case (Inr q)
  note w = walk_at [OF assms(1-3) Inr]
  from w(2) obtain es where es: "lookup (fs_tree s) (butlast p) = Some (Dir es)" by blast
  show ?thesis
  proof (cases "lookup (fs_tree s) p")
    case None
    then have "p \<noteq> []" by auto
    with None Inr w(1) assms(4) lookup_put [OF es this, of "Some (File (fs_next s))"] show ?thesis
      by (auto simp: open_append_def andthen_def at_name_def get_at_def new_file_def put_at_def)
  next
    case (Some n)
    with Inr w(1) assms(4) show ?thesis
      by (cases n) (auto simp: open_append_def andthen_def at_name_def get_at_def)
  qed
qed

lemma remove_effect:
  assumes "settled (fs_tree s) True p" "plain p" "is_dir (fs_tree s)" "unless_missing (root_Remove L p) s = (s', x)"
  shows "fs_next s' = fs_next s \<and> fs_blob s' = fs_blob s \<and> (s' = s \<or> lookup (fs_tree s') p = None)"
proof -
  have st: "settled (fs_tree s) False p" using assms(1) by (simp add: settled_def)
  show ?thesis
  proof (cases "walk L (fs_tree s) False [] p")
    case (Inl e)
    with assms(4) show ?thesis
      by (auto simp: unless_missing_def root_Remove_def andthen_def at_name_def on_result_def ret_def fail_def
          split: if_splits)
  next
    case (Inr q)
    note w = walk_at [OF st assms(2,3) Inr]
    have u: "fs_next t = fs_next s \<and> fs_blob t = fs_blob s \<and> (t = s \<or> lookup (fs_tree t) p = None)"
      if "unlink_at p s = (t, y)" for t y
      using that w(2) lookup_put [of s p _ None]
      by (auto simp: unlink_at_def get_at_def put_at_def split: option.splits node.splits list.splits if_splits)
    obtain t y where t: "unlink_at p s = (t, y)" by force
    have "s' = t"
      using assms(4) Inr w(1) t
      by (auto simp: unless_missing_def root_Remove_def andthen_def at_name_def on_result_def ret_def fail_def
          split: sum.splits if_splits)
    with u [OF t] show ?thesis by simp
  qed
qed

lemma rename_effect:
  assumes "lookup (fs_tree s) p = Some (File i)" "p \<noteq> q" "lookup (fs_tree s) (butlast q) = Some (Dir es)"
    and "lookup (fs_tree s) (butlast p) = Some (Dir ds)" "rename_at p q s = (s', x)"
  shows "fs_next s' = fs_next s \<and> fs_blob s' = fs_blob s
    \<and> (case x of Inl e \<Rightarrow> s' = s
       | Inr _ \<Rightarrow> lookup (fs_tree s') q = Some (File i) \<and> (s' = s \<or> lookup (fs_tree s') p = None))"
proof (cases "x = Inr () \<and> s' = move_entry p q (File i) s \<and> p \<noteq> [] \<and> q \<noteq> [] \<and> \<not> strict_prefix p q")
  case False
  with assms show ?thesis
    by (cases x)
       (auto simp: rename_at_def get_at_def split: option.splits node.splits if_splits)
next
  case True
  then have ne: "p \<noteq> []" "q \<noteq> []" "\<not> strict_prefix p q" and s': "s' = move_entry p q (File i) s"
    by simp_all
  obtain p0 c q0 e where pq: "p = p0 @ [c]" "q = q0 @ [e]" using ne(1,2) by (metis append_butlast_last_id)
  have np: "\<not> prefix p q" using ne(3) assms(2) by (auto simp: strict_prefix_def)
  then have "\<not> prefix p q0" using pq by (metis prefix_order.trans prefixI)
  then obtain fs where fs: "lookup (fs_tree (put_at p None s)) q0 = Some (Dir fs)"
    using lookup_dir_alter [of "fs_tree s" q0 es p0 c "\<lambda>_. None"] assms(3) pq by (auto simp: put_at_def)
  have q: "lookup (fs_tree s') q = Some (File i)"
    using lookup_put [of "put_at p None s" q fs "Some (File i)"] fs pq s' by (simp add: move_entry_def)
  have p: "lookup (fs_tree (put_at p None s)) p = None"
    using lookup_put [OF assms(4) ne(1)] by simp
  have "lookup (fs_tree s') p = None"
  proof (cases "prefix q p")
    case True
    then obtain r where r: "p = q @ r" "r \<noteq> []" using assms(2) by (auto simp: prefix_def)
    then show ?thesis using q lookup_append [of "fs_tree s'" q r] by (cases r) simp_all
  next
    case False
    have "\<not> prefix p q0" by fact
    with False p lookup_alter_other [of q0 e p "\<lambda>_. Some (File i)" "fs_tree (put_at p None s)"] pq s'
    show ?thesis by (simp add: move_entry_def put_at_def)
  qed
  with q s' show ?thesis using True by (auto simp: move_entry_def put_at_def)
qed

lemma finish_effect:
  assumes "settled (fs_tree s) True p" "settled (fs_tree s) False q" "plain p" "plain q" "is_dir (fs_tree s)" "p \<noteq> q"
    and "op_upload_finish h root ''upload-finish-file'' p q (show_int n) [] s = (s', x)"
  shows "fs_next s' = fs_next s \<and> fs_blob s' = fs_blob s
    \<and> (s' = s \<or> lookup (fs_tree s') p = None)
    \<and> (\<forall>y. x = Inr y \<longrightarrow> (\<exists>i. lookup (fs_tree s) p = Some (File i) \<and> lookup (fs_tree s') q = Some (File i)
         \<and> (int64 n \<longrightarrow> int (length (fs_blob s i)) = n)))"
proof (cases "byte_count (show_int n)")
  case (Inl e)
  with assms(7) show ?thesis by (auto simp: op_upload_finish_def andthen_def ret_result_def)
next
  case (Inr want)
  then have want: "int64 n \<Longrightarrow> want = n" by (auto simp: byte_count_def split: option.splits if_splits)
  show ?thesis
  proof (cases "walk (hp_links h) (fs_tree s) True [] p")
    case (Inl e)
    with assms(7) Inr show ?thesis
      by (auto simp: op_upload_finish_def andthen_def ret_result_def on_result_def open_read_def at_name_def fail_def)
  next
    case w: (Inr p')
    note wp = walk_at [OF assms(1,3,5) w]
    show ?thesis
    proof (cases "\<exists>i. lookup (fs_tree s) p = Some (File i) \<and> int (length (fs_blob s i)) = want")
      case False
      with assms(7) Inr w wp(1) show ?thesis
        by (auto simp: op_upload_finish_def andthen_def ret_result_def on_result_def open_read_def at_name_def fail_def
            get_at_def read_fd_def split: option.splits node.splits if_splits)
    next
      case True
      then obtain i where i: "lookup (fs_tree s) p = Some (File i)" "int (length (fs_blob s i)) = want" by blast
      have run: "root_Rename (hp_links h) p q s = (s', x)"
        using assms(7) Inr w wp(1) i
        by (simp add: op_upload_finish_def andthen_def ret_result_def on_result_def open_read_def at_name_def get_at_def
            read_fd_def)
      have sp: "settled (fs_tree s) False p" using assms(1) by (simp add: settled_def)
      show ?thesis
      proof (cases "\<exists>p' q'. walk (hp_links h) (fs_tree s) False [] p = Inr p' \<and> walk (hp_links h) (fs_tree s) False [] q = Inr q'")
        case False
        with run show ?thesis by (auto simp: root_Rename_def andthen_def at_name_def split: sum.splits)
      next
        case True
        then obtain p' q' where w': "walk (hp_links h) (fs_tree s) False [] p = Inr p'"
          "walk (hp_links h) (fs_tree s) False [] q = Inr q'" by blast
        note a = walk_at [OF sp assms(3,5) w'(1)] and b = walk_at [OF assms(2,4,5) w'(2)]
        obtain es ds where d: "lookup (fs_tree s) (butlast q) = Some (Dir es)" "lookup (fs_tree s) (butlast p) = Some (Dir ds)"
          using a(2) b(2) by blast
        have "rename_at p q s = (s', x)"
          using run w' a(1) b(1) by (simp add: root_Rename_def andthen_def at_name_def)
        from rename_effect [OF i(1) assms(6) d this] i want show ?thesis
          by (auto split: sum.splits)
      qed
    qed
  qed
qed

text \<open>Run to its end without anything between, the steps of a piece are the helper's \<open>upload-append\<close>.\<close>

lemma append_to_twice: "append_to (append_to s i c) i d = append_to s i (c @ d)"
  by (simp add: append_to_def write_fd_def)

lemma upload_append_in_steps:
  assumes "byte_count offset = Inr off" "open_append L p s = (s', Inr i)" "opened off bs s' (Inr i) = Appending i bs"
  shows "op_upload_append L p offset (bs, True) s = (append_to s' i bs, Inr (show_int (off + int (length bs)), None))"
  using assms
  by (auto simp: op_upload_append_def on_result_def andthen_def read_fd_def said_def copy_input_def write_fd_def ret_def
      opened_def append_to_def split: if_splits)

subsection \<open>One request at a time\<close>

definition rows_of :: "upload_job \<Rightarrow> db \<Rightarrow> FileUpload set" where
  "rows_of j d = {u \<in> set (uploads d). fu_id u = uj_id j}"

definition rows_ok :: "upload_job \<Rightarrow> db \<Rightarrow> bool" where
  "rows_ok j d \<longleftrightarrow> distinct (map fu_id (uploads d)) \<and> (\<forall>u \<in> rows_of j d. fu_size u = uj_size j)"

definition lock_held :: "upload_job \<Rightarrow> time \<Rightarrow> db \<Rightarrow> attempt list \<Rightarrow> bool" where
  "lock_held j now d busy \<longleftrightarrow>
     length busy \<le> 1 \<and> (\<forall>r \<in> set busy. now \<le> at_until r \<and> (\<forall>u \<in> rows_of j d. at_until r < fu_locked_until u))"

lemma LockUpload_ok:
  assumes "LockUpload (uj_id j) now until d = (d', True)" "rows_ok j d"
  shows "rows_ok j d'" "\<forall>u \<in> rows_of j d'. fu_locked_until u = until" "\<exists>u \<in> rows_of j d. fu_locked_until u < now"
proof -
  let ?P = "\<lambda>u. fu_id u = uj_id j \<and> fu_locked_until u < now"
  have d': "uploads d' = update_where ?P (\<lambda>u. u\<lparr>fu_locked_until := until\<rparr>) (uploads d)"
    and one: "length (filter ?P (uploads d)) = 1"
    using assms(1) by (auto simp: LockUpload_def Let_def)
  from one obtain u where "filter ?P (uploads d) = [u]" by (auto simp: length_Suc_conv)
  then have "u \<in> set (filter ?P (uploads d))" by simp
  then have u: "u \<in> set (uploads d)" "?P u" by simp_all
  then show "\<exists>u \<in> rows_of j d. fu_locked_until u < now" by (auto simp: rows_of_def)
  have same: "v = u" if "v \<in> set (uploads d)" "fu_id v = uj_id j" for v
    using assms(2) that u by (simp add: rows_ok_def) (metis inj_on_def distinct_map)
  show "rows_ok j d'"
    using assms(2) by (auto simp: rows_ok_def rows_of_def d' map_key_update_where set_update_where split: if_splits)
  show "\<forall>v \<in> rows_of j d'. fu_locked_until v = until"
    using same u by (auto simp: rows_of_def d' set_update_where split: if_splits)
qed

lemma rows_ok_update:
  assumes "rows_ok j d" "\<And>u. fu_id (f u) = fu_id u" "\<And>u. fu_size (f u) = fu_size u"
  shows "rows_ok j (update_upload i f d)"
  using assms by (auto simp: rows_ok_def rows_of_def update_upload_def map_key_update_where set_update_where split: if_splits)

lemma rows_ok_touch: "rows_ok j d \<Longrightarrow> rows_ok j (TouchUpload i t d)"
  unfolding TouchUpload_def by (rule rows_ok_update) simp_all

lemma rows_ok_delete: "rows_ok j d \<Longrightarrow> rows_ok j (DeleteUpload i d)"
  by (auto simp: rows_ok_def rows_of_def DeleteUpload_def distinct_map_delete_where set_delete_where)

lemma rows_of_delete: "rows_of j (DeleteUpload i d) \<subseteq> rows_of j d"
  by (auto simp: rows_of_def DeleteUpload_def set_delete_where)

lemma rows_ok_finish: "rows_ok j d \<Longrightarrow> rows_ok j (fst (finish_outcome now u err d))"
  by (auto simp: finish_outcome_def rows_ok_touch rows_ok_delete split: option.splits)

lemma rows_ok_collect: "rows_ok j d \<Longrightarrow> rows_ok j (collect_verdict now u ok d)"
  by (simp add: collect_verdict_def rows_ok_delete)

lemma rows_of_collect: "rows_of j (collect_verdict now u ok d) \<subseteq> rows_of j d"
  using rows_of_delete by (auto simp: collect_verdict_def)

lemma lock_held_fewer: "lock_held j now d busy \<Longrightarrow> rows_of j d' \<subseteq> rows_of j d \<Longrightarrow> lock_held j now d' busy"
  by (auto simp: lock_held_def)

lemma lock_taken:
  assumes "lock_held j now d busy" "rows_ok j d" "LockUpload (uj_id j) now until d = (d', True)"
    and "t < until" "now \<le> t"
  shows "busy = [] \<and> rows_ok j d' \<and> lock_held j now d' [\<lparr>at_until = t, at_stage = x\<rparr>]"
proof -
  note l = LockUpload_ok [OF assms(3,2)]
  from l(3) obtain u where u: "u \<in> rows_of j d" "fu_locked_until u < now" by blast
  have "busy = []"
    using assms(1) u by (cases busy) (auto simp: lock_held_def)
  with l assms(4,5) show ?thesis by (simp add: lock_held_def)
qed

lemma lock_split: "lock_held j now d (xs @ r # ys) \<Longrightarrow> xs = [] \<and> ys = []"
  by (auto simp: lock_held_def)

lemma lock_stage: "lock_held j now d (xs @ r # ys) \<Longrightarrow> lock_held j now d (xs @ r\<lparr>at_stage := x\<rparr> # ys)"
  by (auto simp: lock_held_def)

lemma lock_end: "lock_held j now d (xs @ r # ys) \<Longrightarrow> lock_held j now d' (xs @ ys)"
  by (auto simp: lock_held_def)

lemma step_lock:
  assumes "upload_step j w w'" "rows_ok j (up_db w)" "lock_held j (up_now w) (up_db w) (up_busy w)"
  shows "rows_ok j (up_db w') \<and> lock_held j (up_now w') (up_db w') (up_busy w')"
  using assms
proof (cases rule: upload_step.cases)
  case (passes t)
  with assms(2,3) show ?thesis by (auto simp: lock_held_def)
next
  case (piece_starts u off n bs d')
  from lock_taken [OF assms(3,2) piece_starts(6), of "up_now w + uploadChunkTimeout" "Piece off bs"] piece_starts(1) show ?thesis by simp
next
  case (finish_starts u d')
  from lock_taken [OF assms(3,2) finish_starts(3), of "up_now w + fileOpTimeout" "Finishing"] finish_starts(1) show ?thesis by simp
next
  case (remove_starts u d')
  from lock_taken [OF assms(3,2) remove_starts(3), of "up_now w + fileOpTimeout" "Removing"] remove_starts(1) show ?thesis by simp
next
  case (collects u s' x s'')
  with assms(2,3) show ?thesis by (simp add: rows_ok_collect lock_held_fewer [OF _ rows_of_collect])
qed (use assms(2,3) in \<open>simp_all add: rows_ok_touch rows_ok_delete rows_ok_finish lock_stage lock_end\<close>)

subsection \<open>What the temporary file holds\<close>

text \<open>
  Whatever a client sends, there is something that every content it gathers to has: a content that
  has it still does with any part of a piece the panel takes at its end.
\<close>

locale upload_client =
  fixes sent :: "int \<Rightarrow> string \<Rightarrow> bool" and good :: "string \<Rightarrow> bool" and announced :: int
  assumes good_nil: "good []"
    and good_more:
      "\<lbrakk>good d; sent (int (length d)) bs; int (length bs) \<le> n; n \<le> maxUploadChunk;
        wrap64 (int (length d) + n) \<le> announced; prefix c bs\<rbrakk> \<Longrightarrow> good (d @ c)"

definition temp_ok :: "(string \<Rightarrow> bool) \<Rightarrow> upload_job \<Rightarrow> fsys \<Rightarrow> bool" where
  "temp_ok good j s \<longleftrightarrow>
     (\<forall>n. lookup (fs_tree s) (uj_temp j) = Some n \<longrightarrow> (\<exists>i. n = File i \<and> i < fs_next s \<and> good (fs_blob s i)))"

fun stage_ok :: "(string \<Rightarrow> bool) \<Rightarrow> fsys \<Rightarrow> stage \<Rightarrow> bool" where
  "stage_ok good s (Piece off bs) = (\<forall>d c. good d \<and> int (length d) = off \<and> prefix c bs \<longrightarrow> good (d @ c))"
| "stage_ok good s (Appending i bs) = (i < fs_next s \<and> (\<forall>c. prefix c bs \<longrightarrow> good (fs_blob s i @ c)))"
| "stage_ok good s x = True"

definition content_ok :: "(string \<Rightarrow> bool) \<Rightarrow> upload_job \<Rightarrow> fsys \<Rightarrow> attempt list \<Rightarrow> bool" where
  "content_ok good j s busy \<longleftrightarrow> temp_ok good j s \<and> (\<forall>r \<in> set busy. stage_ok good s (at_stage r))"

definition names_ok :: "upload_job \<Rightarrow> bool" where
  "names_ok j \<longleftrightarrow> plain (uj_temp j) \<and> plain (uj_dest j) \<and> uj_temp j \<noteq> uj_dest j"

lemma content_fewer: "content_ok good j s (xs @ r # ys) \<Longrightarrow> content_ok good j s (xs @ ys)"
  by (simp add: content_ok_def)

lemma content_plain_stage:
  "content_ok good j s (xs @ r # ys) \<Longrightarrow> stage_ok good s x \<Longrightarrow> content_ok good j s (xs @ r\<lparr>at_stage := x\<rparr> # ys)"
  by (simp add: content_ok_def)

lemma content_same_blobs:
  assumes "content_ok good j s busy" "fs_next s' = fs_next s" "fs_blob s' = fs_blob s"
    and "s' = s \<or> lookup (fs_tree s') (uj_temp j) = None"
  shows "content_ok good j s' busy"
proof -
  have "stage_ok good s' x = stage_ok good s x" for x using assms(2,3) by (cases x) simp_all
  with assms(1,4) show ?thesis by (auto simp: content_ok_def temp_ok_def)
qed

lemma content_left_alone:
  assumes "content_ok good j s busy" "left_alone j busy s s'"
  shows "content_ok good j s' busy"
proof -
  have n: "fs_next s \<le> fs_next s'" using assms(2) by (simp add: left_alone_def)
  have "temp_ok good j s'"
    unfolding temp_ok_def
  proof (intro allI impI)
    fix m assume m: "lookup (fs_tree s') (uj_temp j) = Some m"
    then have l: "lookup (fs_tree s) (uj_temp j) = Some m" using assms(2) by (auto simp: left_alone_def)
    with assms(1) obtain i where i: "m = File i" "i < fs_next s" "good (fs_blob s i)"
      by (auto simp: content_ok_def temp_ok_def)
    then have "fs_blob s' i = fs_blob s i" using l assms(2) by (simp add: left_alone_def)
    with i n show "\<exists>i. m = File i \<and> i < fs_next s' \<and> good (fs_blob s' i)" by auto
  qed
  moreover have "stage_ok good s' (at_stage r)" if r: "r \<in> set busy" for r
  proof (cases "at_stage r")
    case (Appending i bs)
    then have "fs_blob s' i = fs_blob s i" using r assms(2) unfolding left_alone_def by blast
    with Appending r assms(1) n show ?thesis by (auto simp: content_ok_def)
  qed (use r assms(1) in \<open>auto simp: content_ok_def\<close>)
  ultimately show ?thesis by (simp add: content_ok_def)
qed

lemma content_append:
  assumes "content_ok good j s [r]" "at_stage r = Appending i (c @ bs)"
  shows "content_ok good j (append_to s i c) [r\<lparr>at_stage := Appending i bs\<rparr>]"
proof -
  have g: "good (fs_blob s i @ c @ d)" if "prefix d bs" for d
    using assms that by (simp add: content_ok_def)
  from g [of "[]"] have "good (fs_blob s i @ c)" by simp
  with assms g show ?thesis
    by (auto simp: content_ok_def temp_ok_def append_to_def write_fd_def)
qed

context upload_client begin

lemma content_open:
  assumes "content_ok good j s [r]" "at_stage r = Piece off bs" "names_lead j s" "names_ok j"
    and "open_append (uj_links j) (uj_temp j) s = (s', i)"
  shows "content_ok good j s' [r\<lparr>at_stage := opened off bs s' i\<rparr>]"
proof -
  have p: "good d \<Longrightarrow> int (length d) = off \<Longrightarrow> prefix c bs \<Longrightarrow> good (d @ c)" for d c
    using assms(1,2) by (simp add: content_ok_def)
  have s: "settled (fs_tree s) True (uj_temp j)" "plain (uj_temp j)" "is_dir (fs_tree s)"
    using assms(3,4) by (simp_all add: names_lead_def names_ok_def)
  from open_append_effect [OF s assms(5)] show ?thesis
  proof (elim disjE)
    assume "(\<exists>e. i = Inl e) \<and> s' = s"
    then show ?thesis using assms(1) by (auto simp: content_ok_def opened_def)
  next
    assume "(\<exists>k. i = Inr k \<and> lookup (fs_tree s) (uj_temp j) = Some (File k)) \<and> s' = s"
    then obtain k where k: "i = Inr k" "lookup (fs_tree s) (uj_temp j) = Some (File k)" "s' = s" by blast
    then have "k < fs_next s" "good (fs_blob s k)" using assms(1) by (auto simp: content_ok_def temp_ok_def)
    with k p assms(1) show ?thesis by (auto simp: content_ok_def opened_def)
  next
    assume m: "i = Inr (fs_next s) \<and> lookup (fs_tree s) (uj_temp j) = None \<and> fs_next s' = Suc (fs_next s)
       \<and> fs_blob s' = (fs_blob s)(fs_next s := []) \<and> lookup (fs_tree s') (uj_temp j) = Some (File (fs_next s))"
    with p [of "[]"] good_nil show ?thesis by (auto simp: content_ok_def temp_ok_def opened_def)
  qed
qed

lemma content_start:
  assumes "rows_ok j d" "uj_size j = announced" "uj_sent j = sent"
    and "uploadContext now (uj_id j) server user d = Some u"
    and "chunk_refused u (Some off) n = None" "uj_sent j off bs" "int (length bs) \<le> n"
  shows "stage_ok good s (Piece off bs)"
proof -
  have "u \<in> rows_of j d"
    using assms(4) by (auto simp: uploadContext_def GetUpload_def rows_of_def split: option.splits if_splits dest: find_SomeD)
  then have "fu_size u = announced" using assms(1,2) by (simp add: rows_ok_def)
  then have "n \<le> maxUploadChunk" "wrap64 (off + n) \<le> announced"
    using assms(5) by (auto simp: chunk_refused_def split: if_splits)
  with good_more [of _ bs n] assms(3,6,7) show ?thesis by auto
qed

lemma step_content:
  assumes "upload_step j w w'" "rows_ok j (up_db w)" "lock_held j (up_now w) (up_db w) (up_busy w)"
    and "content_ok good j (up_fs w) (up_busy w)" "names_ok j" "uj_size j = announced" "uj_sent j = sent"
  shows "content_ok good j (up_fs w') (up_busy w')"
  using assms(1)
proof (cases rule: upload_step.cases)
  case (piece_starts u off n bs d')
  have "stage_ok good (up_fs w) (Piece off bs)"
    by (rule content_start [OF assms(2,6,7) piece_starts(2-5)])
  with piece_starts(1) assms(4) show ?thesis by (auto simp: content_ok_def)
next
  case (piece_opens xs r ys off bs s' i)
  then have "xs = [] \<and> ys = []" using lock_split assms(3) by metis
  with piece_opens content_open [OF _ piece_opens(3,4) assms(5) piece_opens(5)] assms(4) show ?thesis by simp
next
  case (piece_writes xs r ys i c bs)
  then have "xs = [] \<and> ys = []" using lock_split assms(3) by metis
  with piece_writes content_append [OF _ piece_writes(3)] assms(4) show ?thesis by simp
next
  case (finish_runs xs r ys h root s' x)
  have "fs_next s' = fs_next (up_fs w)" "fs_blob s' = fs_blob (up_fs w)"
    "s' = up_fs w \<or> lookup (fs_tree s') (uj_temp j) = None"
    using finish_effect [OF _ _ _ _ _ _ finish_runs(6)] finish_runs(4) assms(5)
    by (simp_all add: names_lead_def names_ok_def)
  then have "content_ok good j s' (xs @ r # ys)" by (rule content_same_blobs [OF assms(4) [unfolded finish_runs(2)]])
  with finish_runs(1) show ?thesis by (simp add: content_plain_stage)
next
  case (remove_runs xs r ys s' x)
  have "fs_next s' = fs_next (up_fs w) \<and> fs_blob s' = fs_blob (up_fs w) \<and> (s' = up_fs w \<or> lookup (fs_tree s') (uj_temp j) = None)"
    using remove_effect [OF _ _ _ remove_runs(5)] remove_runs(4) assms(5) by (simp add: names_lead_def names_ok_def)
  then have "content_ok good j s' (xs @ r # ys)"
    by (intro content_same_blobs [OF assms(4) [unfolded remove_runs(2)]]) simp_all
  with remove_runs(1) show ?thesis by (simp add: content_plain_stage)
next
  case (collects u s' x s'')
  have "fs_next s' = fs_next (up_fs w) \<and> fs_blob s' = fs_blob (up_fs w) \<and> (s' = up_fs w \<or> lookup (fs_tree s') (uj_temp j) = None)"
    using remove_effect [OF _ _ _ collects(5)] collects(4) assms(5) by (simp add: names_lead_def names_ok_def)
  with collects(6) have "content_ok good j s'' (up_busy w)"
    by (intro content_same_blobs [OF assms(4)]) auto
  with collects(1) show ?thesis by simp
next
  case (elsewhere s')
  with content_left_alone [OF assms(4)] show ?thesis by simp
qed (use assms(4) in \<open>auto simp: content_ok_def\<close>)

lemma run_ok:
  assumes "upload_run j w0 w" "upload_begins j w0" "distinct (map fu_id (uploads (up_db w0)))"
    and "uj_size j = announced" "uj_sent j = sent"
  shows "rows_ok j (up_db w) \<and> lock_held j (up_now w) (up_db w) (up_busy w) \<and> content_ok good j (up_fs w) (up_busy w)"
  using assms
proof (induction rule: upload_run.induct)
  case run_start
  then show ?case
    by (auto simp: upload_begins_def rows_ok_def rows_of_def lock_held_def content_ok_def temp_ok_def)
next
  case (run_step w w')
  have "names_ok j" using run_step.prems(1) by (simp add: upload_begins_def names_ok_def)
  with run_step step_lock [OF run_step.hyps(2)] step_content [OF run_step.hyps(2)] show ?case by blast
qed

end

subsection \<open>Honest clients, and any\<close>

definition pieces_of :: "string \<Rightarrow> int \<Rightarrow> string \<Rightarrow> bool" where
  \<comment> \<open>a client sends what its file holds at the offset\<close>
  "pieces_of body off bs = prefix bs (drop (nat off) body)"

definition within :: "int \<Rightarrow> string \<Rightarrow> bool" where
  "within n d = (0 \<le> n \<and> n \<le> maxUploadSize \<longrightarrow> int (length d) \<le> n)"

interpretation honest: upload_client "pieces_of body" "\<lambda>d. prefix d body" n for body n
proof
  fix d bs c :: string and k
  assume "prefix d body" "pieces_of body (int (length d)) bs" "prefix c bs"
  then obtain e where e: "body = d @ e" "prefix c e" by (auto simp: prefix_def pieces_of_def)
  then show "prefix (d @ c) body" by simp
qed simp

interpretation anyone: upload_client sent "within n" n for sent n
proof
  fix d bs c :: string and k
  assume a: "within n d" "int (length bs) \<le> k" "k \<le> maxUploadChunk" "wrap64 (int (length d) + k) \<le> n" "prefix c bs"
  show "within n (d @ c)"
    unfolding within_def
  proof
    assume n: "0 \<le> n \<and> n \<le> maxUploadSize"
    with a(1) have "int (length d) \<le> n" by (simp add: within_def)
    then have "0 \<le> int (length d) + k" "int (length d) + k < 2 ^ 63" using n a(2,3) by simp_all
    then have "wrap64 (int (length d) + k) = int (length d) + k"
      by (simp add: wrap64_def signed_of_int signed_take_bit_int_eq_self del: of_int_add)
    moreover have "length c \<le> length bs" using a(5) by (rule prefix_length_le)
    ultimately show "int (length (d @ c)) \<le> n" using a(2,4) by simp
  qed
qed (simp add: within_def)



subsection \<open>A run\<close>

definition demo_job :: upload_job where
  "demo_job = \<lparr>uj_links = 40, uj_id = ''ab'', uj_server = 1, uj_user = 2, uj_temp = [''world'', ''f.quetzal-part-ab''],
     uj_dest = [''world'', ''f''], uj_size = 3, uj_sent = pieces_of ''new''\<rparr>"

definition demo_start :: uploading where
  "demo_start = \<lparr>up_now = 5, up_db = empty_db\<lparr>uploads := [demo_upload UploadFile]\<rparr>, up_fs = demo_fs, up_busy = []\<rparr>"

definition demo_locked :: uploading where
  "demo_locked = demo_start
     \<lparr>up_db := fst (LockUpload ''ab'' 5 (5 + (uploadChunkTimeout + minute)) (up_db demo_start)),
      up_busy := [\<lparr>at_until = 5 + uploadChunkTimeout, at_stage = Piece 0 ''new''\<rparr>]\<rparr>"

definition demo_open :: uploading where
  "demo_open = demo_locked\<lparr>up_fs := fst (open_append 40 (uj_temp demo_job) demo_fs),
     up_busy := [\<lparr>at_until = 5 + uploadChunkTimeout, at_stage = Appending 2 ''new''\<rparr>]\<rparr>"

definition demo_written :: uploading where
  "demo_written = demo_open\<lparr>up_fs := append_to (up_fs demo_open) 2 ''ne'',
     up_busy := [\<lparr>at_until = 5 + uploadChunkTimeout, at_stage = Appending 2 ''w''\<rparr>]\<rparr>"

lemma demo_run: "upload_run demo_job demo_start demo_written"
proof -
  have 1: "upload_step demo_job demo_start demo_locked"
  proof -
    have "LockUpload ''ab'' 5 (5 + (uploadChunkTimeout + minute)) (up_db demo_start) = (up_db demo_locked, True)"
      by (simp add: demo_locked_def demo_start_def LockUpload_def demo_upload_def zero_time_def)
    moreover have "uploadContext 5 ''ab'' 1 2 (up_db demo_start) = Some (demo_upload UploadFile)"
      by (simp add: uploadContext_def GetUpload_def demo_start_def demo_upload_def)
    moreover have "chunk_refused (demo_upload UploadFile) (Some 0) 3 = None"
      by (simp add: chunk_refused_def demo_upload_def wrap64_def)
    ultimately show ?thesis
      using piece_starts [of demo_start demo_job "demo_upload UploadFile" 0 3 "''new''" "up_db demo_locked"]
      by (simp add: demo_job_def pieces_of_def demo_start_def demo_locked_def)
  qed
  have 2: "upload_step demo_job demo_locked demo_open"
  proof -
    have "names_lead demo_job demo_fs"
      by (auto simp: names_lead_def settled_def demo_job_def demo_fs_def less_Suc_eq)
    moreover have "snd (open_append 40 (uj_temp demo_job) demo_fs) = Inr 2" by code_simp
    moreover have "opened 0 ''new'' (fst (open_append 40 (uj_temp demo_job) demo_fs)) (Inr 2) = Appending 2 ''new''"
      by code_simp
    ultimately show ?thesis
      using piece_opens [of demo_locked "[]" _ "[]" 0 "''new''" demo_job "up_fs demo_open" "Inr 2"]
      by (simp add: demo_open_def demo_locked_def demo_start_def prod_eq_iff demo_job_def)
  qed
  have 3: "upload_step demo_job demo_open demo_written"
    using piece_writes [of demo_open "[]" _ "[]" 2 "''ne''" "''w''" demo_job]
    by (simp add: demo_written_def demo_open_def)
  from 1 2 3 show ?thesis by (intro run_step [OF run_step [OF run_step [OF run_start]]])
qed

lemma demo_begins:
  "upload_begins demo_job demo_start" "distinct (map fu_id (uploads (up_db demo_start)))"
  by (simp_all add: upload_begins_def demo_start_def demo_job_def demo_fs_def demo_upload_def plain_def plain_elem_def)

lemma demo_temp: "lookup (fs_tree (up_fs demo_written)) (uj_temp demo_job) = Some (File 2)"
  by code_simp



end
