(* ===== verification/Outbox.thy ===== *)
theory Outbox imports Store_Db File_Jail begin

text \<open>
  The outbox of events and the dispatcher that delivers them (\<open>internal/store/notification.go\<close>,
  \<open>internal/notify/notify.go\<close>). What a delivery comes to, and which reads of the database fail, are
  arguments; one drain is one function, which also returns what it recorded for which event and
  channel. A channel's settings, and the requests that deliver to it, are not part of it.
\<close>

record channel =
  ch_id :: row_id
  ch_enabled :: bool
  ch_server_id :: row_id
  ch_events :: "string list"
  ch_streak :: int
  ch_last_error :: string
  ch_last_error_at :: "time option"
  ch_last_delivery_at :: "time option"

record outbox =
  ob_events :: "Event list"
  ob_channels :: "channel list"
  ob_cursor :: string  \<comment> \<open>the setting, empty when there is none\<close>

definition quietByDefault :: "string \<Rightarrow> bool" where
  "quietByDefault t = (prefix ''notification.'' t \<or> t = EventScheduleRun)"

definition Matches :: "channel \<Rightarrow> string \<Rightarrow> row_id \<Rightarrow> bool" where
  "Matches c eventType serverID =
     (if \<not> ch_enabled c then False
      else if ch_server_id c \<noteq> 0 \<and> ch_server_id c \<noteq> serverID then False
      else if ch_events c = [] then \<not> quietByDefault eventType
      else eventType \<in> set (ch_events c))"

subsection \<open>The store\<close>

definition EnabledChannels :: "outbox \<Rightarrow> channel list" where
  "EnabledChannels ob = filter ch_enabled (ob_channels ob)"

definition shorten :: "string \<Rightarrow> string" where
  \<comment> \<open>to 500 runes and an ellipsis\<close>
  "shorten msg =
     (let r = map fst (runes msg) in
      if length r > 500 then concat (map encode_rune (take 500 r)) @ encode_rune 0x2026 else msg)"

definition RecordChannelResult :: "row_id \<Rightarrow> time \<Rightarrow> string \<Rightarrow> outbox \<Rightarrow> outbox" where
  "RecordChannelResult i at_time errMsg ob =
     ob\<lparr>ob_channels := update_where (\<lambda>c. ch_id c = i)
        (if errMsg = [] then (\<lambda>c. c\<lparr>ch_streak := 0, ch_last_delivery_at := Some at_time\<rparr>)
         else (\<lambda>c. c\<lparr>ch_streak := ch_streak c + 1, ch_last_error := shorten errMsg, ch_last_error_at := Some at_time\<rparr>))
        (ob_channels ob)\<rparr>"

definition EventsAfter :: "nat \<Rightarrow> nat \<Rightarrow> outbox \<Rightarrow> Event list" where
  "EventsAfter after limit ob = take limit (sort_key ev_id (filter (\<lambda>e. ev_id e > after) (ob_events ob)))"

definition LatestEventID :: "outbox \<Rightarrow> nat" where
  "LatestEventID ob = foldr (\<lambda>e m. max (ev_id e) m) (ob_events ob) 0"

definition SetCursor :: "nat \<Rightarrow> outbox \<Rightarrow> outbox" where
  "SetCursor n ob = ob\<lparr>ob_cursor := show_nat n\<rparr>"

datatype uint_result = Uint nat | Syntax_error | Range_error

definition parse_uint :: "string \<Rightarrow> uint_result" where
  \<comment> \<open>\<open>strconv.ParseUint(s, 10, 0)\<close>\<close>
  "parse_uint s =
     (if s = [] \<or> \<not> list_all is_digit s then Syntax_error
      else if digits_value s < 2 ^ 64 then Uint (digits_value s) else Range_error)"

definition NotifyCursor :: "string option \<Rightarrow> nat option" where
  \<comment> \<open>of what reading the setting gave, \<open>None\<close> being an error\<close>
  "NotifyCursor read =
     (case read of
        None \<Rightarrow> None
      | Some v \<Rightarrow>
          if TrimSpace v = [] then Some 0
          else case parse_uint (TrimSpace v) of Uint n \<Rightarrow> Some n | _ \<Rightarrow> None)"

definition DeleteEventsBefore :: "time \<Rightarrow> nat \<Rightarrow> outbox \<Rightarrow> outbox" where
  "DeleteEventsBefore cutoff deliveredThrough ob =
     (if deliveredThrough = 0 then ob
      else ob\<lparr>ob_events := delete_where (\<lambda>e. ev_created_at e < cutoff \<and> ev_id e \<le> deliveredThrough) (ob_events ob)\<rparr>)"

definition gcLogs :: "time \<Rightarrow> string option \<Rightarrow> outbox \<Rightarrow> outbox" where
  \<comment> \<open>the events' part of it\<close>
  "gcLogs cutoff read ob = (case NotifyCursor read of None \<Rightarrow> ob | Some n \<Rightarrow> DeleteEventsBefore cutoff n ob)"

subsection \<open>One delivery, tried again\<close>

datatype delivery_error =
    Cancelled | Permanent | Blocked | Http_answer nat duration  \<comment> \<open>with its \<open>Retry-After\<close>\<close>
  | Smtp_answer nat | Untrusted_certificate | Network_error

definition retryable :: "delivery_error \<Rightarrow> bool" where
  "retryable e =
     (case e of
        Cancelled \<Rightarrow> False | Permanent \<Rightarrow> False | Blocked \<Rightarrow> False
      | Http_answer code after \<Rightarrow> code \<ge> 500 \<or> code = 429 \<or> code = 408
      | Smtp_answer code \<Rightarrow> 400 \<le> code \<and> code < 500
      | Untrusted_certificate \<Rightarrow> False
      | Network_error \<Rightarrow> True)"

definition maxRetryAfter :: duration where "maxRetryAfter = 10 * second"

definition pause_for :: "delivery_error \<Rightarrow> duration \<Rightarrow> duration" where
  "pause_for e wait =
     (let p = (case e of Http_answer code after \<Rightarrow> if after > 0 then after else wait | _ \<Rightarrow> wait) in
      if p > maxRetryAfter then maxRetryAfter else p)"

datatype delivery_result = Sent | Gave_up delivery_error nat | Stopped_waiting

function deliver_from ::
  "nat \<Rightarrow> (nat \<Rightarrow> delivery_error option) \<Rightarrow> (nat \<Rightarrow> bool) \<Rightarrow> nat \<Rightarrow> duration \<Rightarrow> delivery_result \<times> duration list" where
  \<comment> \<open>from the \<open>i\<close>-th attempt on: how it ends, and the pauses\<close>
  "deliver_from attempts send stopped i wait =
     (case send i of
        None \<Rightarrow> (Sent, [])
      | Some e \<Rightarrow>
          if i \<ge> attempts \<or> \<not> retryable e then (Gave_up e i, [])
          else if stopped i then (Stopped_waiting, [])
          else (case deliver_from attempts send stopped (Suc i) (wait * 2) of
                  (r, pauses) \<Rightarrow> (r, pause_for e wait # pauses)))"
  by pat_completeness auto
termination by (relation "measure (\<lambda>(attempts, send, stopped, i, wait). attempts - i)") auto

declare deliver_from.simps [simp del]

definition deliverWithRetry ::
  "nat \<Rightarrow> duration \<Rightarrow> (nat \<Rightarrow> delivery_error option) \<Rightarrow> (nat \<Rightarrow> bool) \<Rightarrow> delivery_result \<times> duration list" where
  "deliverWithRetry attempts backoff send stopped =
     deliver_from (if attempts < 1 then 1 else attempts) send stopped 1 backoff"

lemma deliver_from_bounds:
  "i \<le> attempts \<Longrightarrow> deliver_from attempts send stopped i wait = (r, pauses) \<Longrightarrow>
     length pauses \<le> attempts - i \<and> (\<forall>p \<in> set pauses. p \<le> maxRetryAfter)
     \<and> (r = Sent \<longrightarrow> send (i + length pauses) = None)
     \<and> (\<forall>k < length pauses. \<exists>e. send (i + k) = Some e \<and> retryable e)"
proof (induction attempts send stopped i wait arbitrary: r pauses rule: deliver_from.induct)
  case (1 attempts send stopped i wait)
  show ?case
  proof (cases "\<exists>e. send i = Some e \<and> i < attempts \<and> retryable e \<and> \<not> stopped i")
    case True
    then obtain e where e: "send i = Some e" "i < attempts" "retryable e" "\<not> stopped i" by blast
    obtain r' ps where d: "deliver_from attempts send stopped (Suc i) (wait * 2) = (r', ps)" by force
    have eq: "r = r'" "pauses = pause_for e wait # ps"
      using 1(3) e d by (simp_all add: deliver_from.simps [of attempts send stopped i wait])
    have ih: "length ps \<le> attempts - Suc i \<and> (\<forall>p \<in> set ps. p \<le> maxRetryAfter)
       \<and> (r' = Sent \<longrightarrow> send (Suc i + length ps) = None)
       \<and> (\<forall>k < length ps. \<exists>e. send (Suc i + k) = Some e \<and> retryable e)"
      using 1(1) [OF e(1) _ e(4) _ d] e by simp
    have "\<forall>k < length pauses. \<exists>e. send (i + k) = Some e \<and> retryable e"
    proof (intro allI impI)
      fix k assume "k < length pauses"
      then show "\<exists>e. send (i + k) = Some e \<and> retryable e"
        using ih e eq by (cases k) auto
    qed
    moreover have "pause_for e wait \<le> maxRetryAfter" by (simp add: pause_for_def Let_def)
    ultimately show ?thesis using ih e eq by auto
  next
    case False
    then show ?thesis
      using 1(3) by (auto simp: deliver_from.simps [of attempts send stopped i wait] split: option.splits if_splits)
  qed
qed

subsection \<open>The dispatcher\<close>

datatype send_outcome = Delivered_it | Failed_with string | No_settings | Interrupted

text \<open>What is recorded: for an event and a channel, empty for a success or the reason.\<close>

type_synonym entry = "row_id \<times> row_id \<times> string"

fun dispatch :: "(channel \<Rightarrow> send_outcome) \<Rightarrow> Event \<Rightarrow> channel list \<Rightarrow> (row_id \<Rightarrow> string option)
    \<Rightarrow> entry list \<times> (row_id \<Rightarrow> string option) \<times> bool" where
  \<comment> \<open>with the channels that failed in this pass, and whether it was interrupted\<close>
  "dispatch send e [] tripped = ([], tripped, False)"
| "dispatch send e (c # cs) tripped =
     (let more = (\<lambda>msg t. case dispatch send e cs t of (es, t', stop) \<Rightarrow> ((ev_id e, ch_id c, msg) # es, t', stop)) in
      if \<not> Matches c (ev_type e) (ev_server_id e) then dispatch send e cs tripped
      else case tripped (ch_id c) of
          Some reason \<Rightarrow> more (''not attempted, the channel was failing: '' @ reason) tripped
        | None \<Rightarrow>
            (case send c of
               No_settings \<Rightarrow> more ''could not read the channel's settings'' tripped
             | Interrupted \<Rightarrow> ([], tripped, True)
             | Failed_with msg \<Rightarrow> more msg (tripped(ch_id c := Some msg))
             | Delivered_it \<Rightarrow> more [] tripped))"

definition record_all :: "time \<Rightarrow> entry list \<Rightarrow> outbox \<Rightarrow> outbox" where
  "record_all at_time es ob = foldl (\<lambda>ob (e, c, msg). RecordChannelResult c at_time msg ob) ob es"

record drain_env =
  de_now :: time
  de_send :: "Event \<Rightarrow> channel \<Rightarrow> send_outcome"
  de_cancelled :: "Event \<Rightarrow> bool"        \<comment> \<open>before the event\<close>
  de_cancelled_after :: "Event \<Rightarrow> bool"
  de_saved :: "Event \<Rightarrow> bool"            \<comment> \<open>whether the cursor is written\<close>

fun drain_events :: "drain_env \<Rightarrow> channel list \<Rightarrow> Event list \<Rightarrow> (row_id \<Rightarrow> string option) \<Rightarrow> outbox \<Rightarrow> outbox \<times> entry list" where
  "drain_events env chs [] tripped ob = (ob, [])"
| "drain_events env chs (e # es) tripped ob =
     (if de_cancelled env e then (ob, [])
      else case dispatch (de_send env e) e chs tripped of
        (rs, tripped', stop) \<Rightarrow>
          (let ob1 = record_all (de_now env) rs ob in
           if stop \<or> de_cancelled_after env e then (ob1, rs)
           else (case drain_events env chs es tripped' (if de_saved env e then SetCursor (ev_id e) ob1 else ob1) of
                   (ob2, rs') \<Rightarrow> (ob2, rs @ rs'))))"

definition cursor_of :: "string option \<Rightarrow> nat" where
  \<comment> \<open>\<open>cursor\<close>: errors are dropped, and out of range gives the largest value\<close>
  "cursor_of read =
     (case read of
        None \<Rightarrow> 0
      | Some v \<Rightarrow> (case parse_uint v of Uint n \<Rightarrow> n | Syntax_error \<Rightarrow> 0 | Range_error \<Rightarrow> 2 ^ 64 - 1))"

definition drain :: "drain_env \<Rightarrow> nat \<Rightarrow> string option \<Rightarrow> bool \<Rightarrow> outbox \<Rightarrow> outbox \<times> entry list" where
  \<comment> \<open>\<open>listed\<close> says whether the events and the channels can be read\<close>
  "drain env batch read listed ob =
     (if \<not> listed then (ob, [])
      else drain_events env (EnabledChannels ob) (EventsAfter (cursor_of read) batch ob) (\<lambda>_. None) ob)"

definition seed :: "string option \<Rightarrow> nat option \<Rightarrow> outbox \<Rightarrow> outbox" where
  \<comment> \<open>the start of \<open>Run\<close>, of what reading the setting and the latest event gave\<close>
  "seed read latest ob =
     (if read = None \<or> read = Some [] then (case latest of None \<Rightarrow> ob | Some n \<Rightarrow> SetCursor n ob) else ob)"

subsection \<open>What a drain accounts for\<close>

definition accounted :: "entry list \<Rightarrow> channel list \<Rightarrow> Event \<Rightarrow> bool" where
  \<comment> \<open>each of the channels that want the event has it, or its miss, on record\<close>
  "accounted log chs e \<longleftrightarrow>
     (\<forall>c \<in> set chs. Matches c (ev_type e) (ev_server_id e) \<longrightarrow> (\<exists>msg. (ev_id e, ch_id c, msg) \<in> set log))"

lemma accounted_more: "accounted log chs e \<Longrightarrow> set log \<subseteq> set log' \<Longrightarrow> accounted log' chs e"
  unfolding accounted_def by blast

lemma dispatch_accounts: "dispatch send e chs tripped = (rs, t, False) \<Longrightarrow> accounted rs chs e"
proof (induction chs arbitrary: tripped rs t)
  case (Cons c cs)
  have more: "accounted ((ev_id e, ch_id c, msg) # es) (c # cs) e" if "accounted es cs e" for es msg
    using that by (auto simp: accounted_def)
  have skip: "accounted es (c # cs) e" if "accounted es cs e" "\<not> Matches c (ev_type e) (ev_server_id e)" for es
    using that by (auto simp: accounted_def)
  show ?case
    using Cons.prems Cons.IH more skip
    by (auto simp: Let_def split: if_splits option.splits send_outcome.splits prod.splits)
qed (simp add: accounted_def)

lemma record_all_frame [simp]:
  "ob_events (record_all t es ob) = ob_events ob" "ob_cursor (record_all t es ob) = ob_cursor ob"
  by (induction es arbitrary: ob) (auto simp: record_all_def RecordChannelResult_def)

lemma drain_events_ok:
  assumes "drain_events env chs es tripped ob = (ob', log)" "sorted_wrt (\<lambda>a b. ev_id a < ev_id b) es"
  shows "ob_events ob' = ob_events ob
    \<and> (ob_cursor ob' = ob_cursor ob
       \<or> (\<exists>e \<in> set es. ob_cursor ob' = show_nat (ev_id e) \<and> (\<forall>f \<in> set es. ev_id f \<le> ev_id e \<longrightarrow> accounted log chs f)))"
  using assms
proof (induction es arbitrary: tripped ob ob' log)
  case (Cons e es)
  obtain rs t stop where d: "dispatch (de_send env e) e chs tripped = (rs, t, stop)" by (rule prod_cases3)
  show ?case
  proof (cases "de_cancelled env e \<or> stop \<or> de_cancelled_after env e")
    case True
    with Cons.prems d show ?thesis by (auto simp: Let_def split: if_splits)
  next
    case False
    let ?ob = "if de_saved env e then SetCursor (ev_id e) (record_all (de_now env) rs ob) else record_all (de_now env) rs ob"
    obtain log' where l: "drain_events env chs es t ?ob = (ob', log')" "log = rs @ log'"
      using False Cons.prems(1) d by (auto simp: Let_def split: prod.splits if_splits)
    have e: "accounted log chs e" using dispatch_accounts d False l(2) accounted_more by fastforce
    have ih: "ob_events ob' = ob_events ?ob
       \<and> (ob_cursor ob' = ob_cursor ?ob
          \<or> (\<exists>e \<in> set es. ob_cursor ob' = show_nat (ev_id e) \<and> (\<forall>f \<in> set es. ev_id f \<le> ev_id e \<longrightarrow> accounted log' chs f)))"
      using Cons.IH [OF l(1)] Cons.prems(2) by simp
    then have evs: "ob_events ob' = ob_events ob" by (simp add: SetCursor_def)
    from ih consider (same) "ob_cursor ob' = ob_cursor ?ob"
      | (later) g where "g \<in> set es" "ob_cursor ob' = show_nat (ev_id g)"
          "\<forall>f \<in> set es. ev_id f \<le> ev_id g \<longrightarrow> accounted log' chs f" by blast
    then show ?thesis
    proof cases
      case same
      have "\<forall>f \<in> set (e # es). ev_id f \<le> ev_id e \<longrightarrow> accounted log chs f" using e Cons.prems(2) by auto
      with same evs show ?thesis by (auto simp: SetCursor_def)
    next
      case later
      have "\<forall>f \<in> set (e # es). ev_id f \<le> ev_id g \<longrightarrow> accounted log chs f"
        using e later(3) l(2) accounted_more [of log' chs _ log] by auto
      with later(1,2) evs show ?thesis by auto
    qed
  qed
qed simp

lemma take_down_set:
  assumes "sorted_wrt (\<lambda>a b. k a < (k b :: nat)) xs" "x \<in> set (take n xs)" "y \<in> set xs" "k y \<le> k x"
  shows "y \<in> set (take n xs)"
proof -
  obtain i where i: "i < n" "i < length xs" "x = xs ! i" using assms(2) by (auto simp: in_set_conv_nth)
  obtain m where m: "m < length xs" "y = xs ! m" using assms(3) by (auto simp: in_set_conv_nth)
  have "m \<le> i"
  proof (rule ccontr)
    assume "\<not> m \<le> i"
    then have "k x < k y" using assms(1) i m by (simp add: sorted_wrt_iff_nth_less)
    with assms(4) show False by simp
  qed
  then show ?thesis using i m by (auto simp: in_set_conv_nth intro!: exI [of _ m])
qed

lemma sorted_events:
  assumes "distinct (map ev_id es)"
  shows "sorted_wrt (\<lambda>a b. ev_id a < ev_id b) (sort_key ev_id es)"
proof -
  have "sorted_wrt (<) (map ev_id (sort_key ev_id es))"
    using assms by (simp add: strict_sorted_iff distinct_map)
  then show ?thesis by (simp add: sorted_wrt_map)
qed

lemma EventsAfter_sorted:
  "distinct (map ev_id (ob_events ob)) \<Longrightarrow> sorted_wrt (\<lambda>a b. ev_id a < ev_id b) (EventsAfter n limit ob)"
  unfolding EventsAfter_def by (intro sorted_wrt_take sorted_events) (simp add: distinct_map_filter)

lemma EventsAfter_down:
  assumes "distinct (map ev_id (ob_events ob))" "e \<in> set (EventsAfter n limit ob)"
    and "f \<in> set (ob_events ob)" "n < ev_id f" "ev_id f \<le> ev_id e"
  shows "f \<in> set (EventsAfter n limit ob)"
  using take_down_set [OF sorted_events, of "filter (\<lambda>e. ev_id e > n) (ob_events ob)" e limit f] assms
  by (simp add: EventsAfter_def distinct_map_filter)

subsection \<open>The outbox over time\<close>

record outbox_run =
  or_ob :: outbox
  or_events :: "Event list"                          \<comment> \<open>all that were added since the dispatcher first ran\<close>
  or_passes :: "(channel list \<times> entry list) list"   \<comment> \<open>each drain's enabled channels and what it recorded\<close>

inductive outbox_step :: "outbox_run \<Rightarrow> outbox_run \<Rightarrow> bool" where
  adds:
    "\<lbrakk>\<forall>f \<in> set (ob_events (or_ob r)) \<union> set (or_events r). ev_id f < ev_id e;
      cursor_of (Some (ob_cursor (or_ob r))) < ev_id e; ev_id e < 2 ^ 64\<rbrakk>
     \<Longrightarrow> outbox_step r (r\<lparr>or_ob := (or_ob r)\<lparr>ob_events := ob_events (or_ob r) @ [e]\<rparr>, or_events := or_events r @ [e]\<rparr>)"
| drains:
    "drain env batch (Some (ob_cursor (or_ob r))) listed (or_ob r) = (ob', log)
     \<Longrightarrow> outbox_step r (r\<lparr>or_ob := ob', or_passes := or_passes r @ [(EnabledChannels (or_ob r), log)]\<rparr>)"
| prunes:
    "outbox_step r (r\<lparr>or_ob := gcLogs cutoff (Some (ob_cursor (or_ob r))) (or_ob r)\<rparr>)"
| restarts:
    "outbox_step r (r\<lparr>or_ob := seed (Some (ob_cursor (or_ob r))) latest (or_ob r)\<rparr>)"
| channels_change:
    "outbox_step r (r\<lparr>or_ob := (or_ob r)\<lparr>ob_channels := chs\<rparr>\<rparr>)"

inductive outbox_reach :: "outbox_run \<Rightarrow> outbox_run \<Rightarrow> bool" for r0 where
  outbox_start: "outbox_reach r0 r0"
| outbox_more: "outbox_reach r0 r \<Longrightarrow> outbox_step r r' \<Longrightarrow> outbox_reach r0 r'"

definition first_run :: "outbox \<Rightarrow> outbox_run" where
  \<comment> \<open>no cursor yet: it is seeded with the latest event\<close>
  "first_run ob = \<lparr>or_ob = seed (Some (ob_cursor ob)) (Some (LatestEventID ob)) ob, or_events = [], or_passes = []\<rparr>"

definition handled :: "outbox_run \<Rightarrow> Event \<Rightarrow> bool" where
  "handled r e \<longleftrightarrow> (\<exists>(chs, log) \<in> set (or_passes r). accounted log chs e)"

definition outbox_ok :: "outbox_run \<Rightarrow> bool" where
  "outbox_ok r \<longleftrightarrow>
     (\<exists>n < 2 ^ 64. ob_cursor (or_ob r) = show_nat n
        \<and> (\<forall>e \<in> set (or_events r). handled r e \<or> n < ev_id e \<and> e \<in> set (ob_events (or_ob r))))
     \<and> distinct (map ev_id (ob_events (or_ob r))) \<and> (\<forall>e \<in> set (ob_events (or_ob r)). ev_id e < 2 ^ 64)"

lemma parse_uint_show_nat: "n < 2 ^ 64 \<Longrightarrow> parse_uint (show_nat n) = Uint n"
  using show_nat_digits [of _ n] by (auto simp: parse_uint_def list_all_iff)

lemma cursor_of_show_nat [simp]: "n < 2 ^ 64 \<Longrightarrow> cursor_of (Some (show_nat n)) = n"
  by (simp add: cursor_of_def parse_uint_show_nat)

lemma NotifyCursor_show_nat: "n < 2 ^ 64 \<Longrightarrow> NotifyCursor (Some (show_nat n)) = Some n"
  using TrimSpace_show_int [of "int n"] by (simp add: NotifyCursor_def parse_uint_show_nat show_int_def)

lemma step_outbox_ok:
  assumes "outbox_step r r'" "outbox_ok r"
  shows "outbox_ok r'"
proof -
  let ?evs = "ob_events (or_ob r)"
  obtain n where n: "n < 2 ^ 64" "ob_cursor (or_ob r) = show_nat n"
      "\<And>e. e \<in> set (or_events r) \<Longrightarrow> handled r e \<or> n < ev_id e \<and> e \<in> set ?evs"
    and ids: "distinct (map ev_id ?evs)" "\<And>e. e \<in> set ?evs \<Longrightarrow> ev_id e < 2 ^ 64"
    using assms(2) unfolding outbox_ok_def by blast
  show ?thesis
    using assms(1)
  proof (cases rule: outbox_step.cases)
    case (adds e)
    then have "n < ev_id e" using n(1,2) by simp
    moreover have "ev_id e \<notin> ev_id ` set ?evs" using adds(2) by auto
    ultimately show ?thesis
      using adds(1,4) n ids unfolding outbox_ok_def handled_def by fastforce
  next
    case (drains env batch listed ob' log)
    have h: "handled r' e" if "handled r e" for e using that drains(1) by (auto simp: handled_def)
    show ?thesis
    proof (cases listed)
      case False
      with drains h n ids show ?thesis unfolding outbox_ok_def drain_def by fastforce
    next
      case True
      let ?es = "EventsAfter n batch (or_ob r)"
      have d: "drain_events env (EnabledChannels (or_ob r)) ?es (\<lambda>_. None) (or_ob r) = (ob', log)"
        using drains(2) True n(1,2) by (simp add: drain_def)
      note ok = drain_events_ok [OF d EventsAfter_sorted [OF ids(1)]]
      from ok consider (same) "ob_cursor ob' = show_nat n"
        | (moved) g where "g \<in> set ?es" "ob_cursor ob' = show_nat (ev_id g)"
            "\<And>f. f \<in> set ?es \<Longrightarrow> ev_id f \<le> ev_id g \<Longrightarrow> accounted log (EnabledChannels (or_ob r)) f"
        using n(2) by auto
      then show ?thesis
      proof cases
        case same
        with ok drains(1) h n ids show ?thesis unfolding outbox_ok_def by fastforce
      next
        case moved
        have g: "g \<in> set ?evs" "n < ev_id g"
          using moved(1) by (auto simp: EventsAfter_def dest: in_set_takeD)
        have "handled r' e \<or> ev_id g < ev_id e \<and> e \<in> set ?evs" if "e \<in> set (or_events r)" for e
        proof (cases "handled r e \<or> ev_id g < ev_id e")
          case True
          with h n(3) [OF that] g show ?thesis by (meson)
        next
          case False
          then have e: "n < ev_id e" "e \<in> set ?evs" "ev_id e \<le> ev_id g" using n(3) [OF that] by auto
          then have "e \<in> set ?es" using EventsAfter_down [OF ids(1) moved(1)] by blast
          with moved(3) e have "accounted log (EnabledChannels (or_ob r)) e" by blast
          with drains(1) show ?thesis by (auto simp: handled_def)
        qed
        with ok moved(2) drains(1) ids g show ?thesis unfolding outbox_ok_def by auto
      qed
    qed
  next
    case (prunes cutoff)
    have "gcLogs cutoff (Some (ob_cursor (or_ob r))) (or_ob r) = DeleteEventsBefore cutoff n (or_ob r)"
      using n(1,2) by (simp add: gcLogs_def NotifyCursor_show_nat)
    moreover have "handled r' e \<longleftrightarrow> handled r e" for e using prunes by (simp add: handled_def)
    ultimately have "\<forall>e \<in> set (or_events r'). handled r' e \<or> n < ev_id e \<and> e \<in> set (ob_events (or_ob r'))"
      using prunes n(3) by (fastforce simp: DeleteEventsBefore_def set_delete_where)
    with prunes n(1,2) ids show ?thesis
      unfolding outbox_ok_def
      by (auto simp: gcLogs_def DeleteEventsBefore_def set_delete_where distinct_map_delete_where split: option.splits)
  next
    case (restarts latest)
    with n(2) assms(2) show ?thesis by (simp add: seed_def)
  next
    case (channels_change chs)
    with n ids show ?thesis unfolding outbox_ok_def handled_def by auto
  qed
qed

lemma LatestEventID_bound: "(\<forall>e \<in> set (ob_events ob). ev_id e < n) \<Longrightarrow> 0 < n \<Longrightarrow> LatestEventID ob < n"
proof -
  have "\<forall>e \<in> set es. ev_id e < n \<Longrightarrow> 0 < n \<Longrightarrow> foldr (\<lambda>e m. max (ev_id e) m) es 0 < n" for es
    by (induction es) auto
  then show "\<forall>e \<in> set (ob_events ob). ev_id e < n \<Longrightarrow> 0 < n \<Longrightarrow> LatestEventID ob < n"
    by (simp add: LatestEventID_def)
qed

lemma first_run_ok:
  assumes "ob_cursor ob = []" "distinct (map ev_id (ob_events ob))" "\<forall>e \<in> set (ob_events ob). ev_id e < 2 ^ 64"
  shows "outbox_ok (first_run ob)"
  using assms LatestEventID_bound [of ob "2 ^ 64"]
  by (auto simp: outbox_ok_def first_run_def seed_def SetCursor_def)


text \<open>A delivery is tried as often as allowed at most, only again after failures that may pass, and
  never waits more than ten seconds between two tries.\<close>

theorem retries_bounded:
  assumes "deliverWithRetry attempts backoff send stopped = (r, pauses)"
  shows "length pauses < max 1 attempts \<and> (\<forall>p \<in> set pauses. p \<le> maxRetryAfter)
    \<and> (r = Sent \<longrightarrow> send (Suc (length pauses)) = None)
    \<and> (\<forall>k < length pauses. \<exists>e. send (Suc k) = Some e \<and> retryable e)"
  using deliver_from_bounds [of 1 "max 1 attempts" send stopped backoff r pauses] assms
  by (auto simp: deliverWithRetry_def max_def not_less_eq split: if_splits)

subsection \<open>A cursor that cannot be read\<close>

definition plain_event :: "nat \<Rightarrow> Event" where
  "plain_event i = \<lparr>ev_id = i, ev_created_at = 0, ev_type = ''server.crash'', ev_server_id = 1, ev_user_id = 0,
     ev_username = [], ev_message = [], ev_data = Map.empty\<rparr>"

definition plain_channel :: channel where
  "plain_channel = \<lparr>ch_id = 9, ch_enabled = True, ch_server_id = 0, ch_events = [], ch_streak = 0, ch_last_error = [],
     ch_last_error_at = None, ch_last_delivery_at = None\<rparr>"

definition calm_env :: drain_env where
  "calm_env = \<lparr>de_now = 0, de_send = (\<lambda>e c. Delivered_it), de_cancelled = (\<lambda>e. False), de_cancelled_after = (\<lambda>e. False),
     de_saved = (\<lambda>e. True)\<rparr>"

definition full_outbox :: "nat \<Rightarrow> outbox" where
  "full_outbox n = \<lparr>ob_events = map plain_event [1, 2, 3], ob_channels = [plain_channel], ob_cursor = show_nat n\<rparr>"


subsection \<open>Concrete runs\<close>

lemma retries_bounded_witness:
  "length (snd (deliverWithRetry 3 (2 * second) (\<lambda>i. if i < 3 then Some (Http_answer 503 0) else None) (\<lambda>_. False))) < 3
   \<and> fst (deliverWithRetry 3 (2 * second) (\<lambda>i. if i < 3 then Some (Http_answer 503 0) else None) (\<lambda>_. False)) = Sent"
proof
  show "fst (deliverWithRetry 3 (2 * second) (\<lambda>i. if i < 3 then Some (Http_answer 503 0) else None) (\<lambda>_. False)) = Sent"
    by code_simp
  show "length (snd (deliverWithRetry 3 (2 * second) (\<lambda>i. if i < 3 then Some (Http_answer 503 0) else None) (\<lambda>_. False))) < 3"
    using retries_bounded [of 3 "2 * second" "\<lambda>i. if i < 3 then Some (Http_answer 503 0) else None" "\<lambda>_. False"]
    by (metis (no_types, lifting) max_def one_le_numeral prod.collapse)
qed

definition old_outbox :: outbox where
  "old_outbox = \<lparr>ob_events = [plain_event 1], ob_channels = [plain_channel], ob_cursor = []\<rparr>"

definition added_run :: outbox_run where
  "added_run = (first_run old_outbox)
     \<lparr>or_ob := (or_ob (first_run old_outbox))\<lparr>ob_events := [plain_event 1, plain_event 2]\<rparr>, or_events := [plain_event 2]\<rparr>"

definition drained_run :: outbox_run where
  "drained_run = added_run\<lparr>or_ob := fst (drain calm_env 100 (Some ''1'') True (or_ob added_run)),
     or_passes := [(EnabledChannels (or_ob added_run), snd (drain calm_env 100 (Some ''1'') True (or_ob added_run)))]\<rparr>"

lemma drained_reached: "outbox_reach (first_run old_outbox) drained_run"
proof -
  have c: "ob_cursor (or_ob (first_run old_outbox)) = ''1''" "ob_events (or_ob (first_run old_outbox)) = [plain_event 1]"
    "or_events (first_run old_outbox) = []" "cursor_of (Some ''1'') = 1"
    by (simp_all add: first_run_def seed_def SetCursor_def LatestEventID_def old_outbox_def plain_event_def) code_simp+
  have "outbox_step (first_run old_outbox) added_run"
    using adds [of "first_run old_outbox" "plain_event 2"] c by (simp add: added_run_def plain_event_def)
  moreover have "ob_cursor (or_ob added_run) = ''1''" using c(1) by (simp add: added_run_def)
  then have "outbox_step added_run drained_run"
    using drains [of calm_env 100 added_run True "or_ob drained_run"
        "snd (drain calm_env 100 (Some ''1'') True (or_ob added_run))"]
    by (simp add: drained_run_def) (simp add: added_run_def first_run_def)
  ultimately show ?thesis by (intro outbox_more [OF outbox_more [OF outbox_start]])
qed


end
