(* ===== verification/Path_Lists.thy ===== *)
theory Path_Lists imports File_Jail begin

text \<open>
  Two lists of paths that users write: the files a clean reinstall keeps
  (\<open>internal/models/keep.go\<close>), which the install step reads one per line, and the files a backup
  leaves out (\<open>internal/backup/ignore.go\<close>), which become restic's exclude patterns. Both refuse what
  \<open>path.Match\<close> could not read, so its syntax is here; nothing is matched.
\<close>

subsection \<open>The syntax of \<open>path.Match\<close>\<close>

fun scan_to_star :: "bool \<Rightarrow> string \<Rightarrow> string \<times> string" where
  \<comment> \<open>\<open>scanChunk\<close>, after the stars it starts with; the flag is \<open>inrange\<close>\<close>
  "scan_to_star r [] = ([], [])"
| "scan_to_star r [c] = (if c = CHR ''*'' \<and> \<not> r then ([], [c]) else ([c], []))"
| "scan_to_star r (c # d # s) =
     (if c = CHR 0x5C then (case scan_to_star r s of (x, y) \<Rightarrow> (c # d # x, y))
      else if c = CHR ''*'' \<and> \<not> r then ([], c # d # s)
      else (case scan_to_star (if c = CHR ''['' then True else if c = CHR '']'' then False else r) (d # s) of
              (x, y) \<Rightarrow> (c # x, y)))"

lemma scan_to_star_append: "scan_to_star r s = (x, y) \<Longrightarrow> x @ y = s"
  by (induction r s arbitrary: x y rule: scan_to_star.induct) (auto split: prod.splits if_splits)

lemma scan_to_star_progress: "s \<noteq> [] \<Longrightarrow> hd s \<noteq> CHR ''*'' \<Longrightarrow> length (snd (scan_to_star False s)) < length s"
proof -
  assume s: "s \<noteq> []" "hd s \<noteq> CHR ''*''"
  obtain x y where xy: "scan_to_star False s = (x, y)" by force
  have "x \<noteq> []" using s xy by (cases "(False, s)" rule: scan_to_star.cases) (auto split: prod.splits if_splits)
  then show ?thesis using scan_to_star_append [OF xy] xy by auto
qed

function chunks :: "string \<Rightarrow> string list" where
  \<comment> \<open>what \<open>Match\<close> reads between the stars\<close>
  "chunks p =
     (let q = dropWhile (\<lambda>c. c = CHR ''*'') p in
      if q = [] then [] else (case scan_to_star False q of (x, y) \<Rightarrow> x # chunks y))"
  by pat_completeness auto
termination
proof (relation "measure length", simp, goal_cases)
  case (1 p q x y)
  have "hd q \<noteq> CHR ''*''" using 1(1,2) hd_dropWhile [of "\<lambda>c. c = CHR ''*''" p] by simp
  then have "length y < length q" using scan_to_star_progress [of q] 1(2,3) by (metis snd_conv)
  moreover have "length q \<le> length p" using 1(1) length_dropWhile_le by simp
  ultimately show ?case by simp
qed

declare chunks.simps [simp del]

definition get_esc :: "string \<Rightarrow> string option" where
  \<comment> \<open>\<open>getEsc\<close>: what follows the character, \<open>None\<close> for \<open>ErrBadPattern\<close>\<close>
  "get_esc s =
     (if s = [] \<or> hd s = CHR ''-'' \<or> hd s = CHR '']'' then None
      else let t = (if hd s = CHR 0x5C then tl s else s) in
        if t = [] then None
        else case decode_rune t of (r, n) \<Rightarrow>
          if r = rune_error \<and> n = 1 \<or> drop n t = [] then None else Some (drop n t))"

lemma get_esc_shorter: "get_esc s = Some t \<Longrightarrow> length t < length s"
  using decode_rune_width [of "if hd s = CHR 0x5C then tl s else s"]
  by (auto simp: get_esc_def Let_def split: if_splits prod.splits)

function ranges :: "bool \<Rightarrow> string \<Rightarrow> string option" where
  \<comment> \<open>the ranges up to the bracket that closes them, of which one must have been read\<close>
  "ranges some s =
     (if s \<noteq> [] \<and> hd s = CHR '']'' \<and> some then Some (tl s)
      else case get_esc s of
          None \<Rightarrow> None
        | Some t \<Rightarrow>
            if hd t = CHR ''-'' then (case get_esc (tl t) of None \<Rightarrow> None | Some u \<Rightarrow> ranges True u)
            else ranges True t)"
  by pat_completeness auto
termination
proof (relation "measure (\<lambda>(some, s). length s)", simp, goal_cases)
  case (1 some s t u)
  then show ?case using get_esc_shorter [of s t] get_esc_shorter [of "tl t" u] by simp
next
  case (2 some s t)
  then show ?case using get_esc_shorter [of s t] by simp
qed

declare ranges.simps [simp del]

lemma ranges_shorter: "ranges some s = Some t \<Longrightarrow> length t < length s"
proof (induction some s arbitrary: t rule: ranges.induct)
  case (1 some s)
  show ?case
  proof (cases "s \<noteq> [] \<and> hd s = CHR '']'' \<and> some")
    case True
    then have "t = tl s" using 1(3) by (simp add: ranges.simps [of True s])
    with True show ?thesis by simp
  next
    case False
    then obtain u where u: "get_esc s = Some u"
      using 1(3) by (auto simp: ranges.simps [of some s] split: option.splits)
    show ?thesis
    proof (cases "hd u = CHR ''-''")
      case True
      then obtain v where v: "get_esc (tl u) = Some v" "ranges True v = Some t"
        using 1(3) unfolding ranges.simps [of some s] if_not_P [OF False] u option.case if_P [OF True]
        by (auto split: option.splits)
      with 1(1) [OF False u True v(1) v(2)] get_esc_shorter [OF u] get_esc_shorter [OF v(1)] show ?thesis by simp
    next
      case minus: False
      then have "ranges True u = Some t" using 1(3)
        unfolding ranges.simps [of some s] if_not_P [OF False] u option.case if_not_P [OF minus] by simp
      with 1(2) [OF False u minus] get_esc_shorter [OF u] show ?thesis by simp
    qed
  qed
qed

function chunk_ok :: "string \<Rightarrow> bool" where
  \<comment> \<open>\<open>matchChunk\<close> against the empty name: whether it can be read\<close>
  "chunk_ok [] = True"
| "chunk_ok (c # s) =
     (if c = CHR ''['' then
        (case ranges False (if s \<noteq> [] \<and> hd s = CHR ''^'' then tl s else s) of None \<Rightarrow> False | Some t \<Rightarrow> chunk_ok t)
      else if c = CHR 0x5C then (if s = [] then False else chunk_ok (tl s))
      else chunk_ok s)"
  by pat_completeness auto
termination
proof (relation "measure length", simp, goal_cases)
  case (1 c s t)
  then show ?case using ranges_shorter [OF 1(2)] by (auto split: if_splits)
qed (auto simp: less_Suc_eq_le)

definition pattern_ok :: "string \<Rightarrow> bool" where
  \<comment> \<open>\<open>path.Match(p, "")\<close> gives no error\<close>
  "pattern_ok p = list_all chunk_ok (chunks p)"

subsection \<open>What a clean reinstall keeps\<close>

abbreviation MaxKeepPaths :: nat where "MaxKeepPaths \<equiv> 64"
abbreviation MaxKeepPathLen :: nat where "MaxKeepPathLen \<equiv> 255"

datatype keep_error = Spans_lines string | Too_long string | Absolute string | Climbs_out string | All_files string
  | Malformed string | Too_many_paths

definition keep_path :: "string \<Rightarrow> keep_error + string option" where
  \<comment> \<open>one entry; \<open>Inr None\<close> is a blank one\<close>
  "keep_path raw =
     (let p = TrimSpace raw in
      if p = [] then Inr None
      else if CHR 0x0A \<in> set p \<or> CHR 0x0D \<in> set p \<or> CHR 0x00 \<in> set p then Inl (Spans_lines raw)
      else if length p > MaxKeepPathLen then Inl (Too_long p)
      else if prefix ''/'' p then Inl (Absolute p)
      else if ''..'' \<in> set (split_on (CHR ''/'') p) then Inl (Climbs_out p)
      else let q = Clean p in
        if q = ''.'' then Inl (All_files raw)
        else if \<not> pattern_ok q then Inl (Malformed q)
        else Inr (Some q))"

fun keep_loop :: "string list \<Rightarrow> string list \<Rightarrow> keep_error + string list" where
  \<comment> \<open>with what was kept so far\<close>
  "keep_loop out [] = Inr out"
| "keep_loop out (raw # raws) =
     (case keep_path raw of
        Inl e \<Rightarrow> Inl e
      | Inr None \<Rightarrow> keep_loop out raws
      | Inr (Some q) \<Rightarrow> keep_loop (if q \<in> set out then out else out @ [q]) raws)"

definition CleanKeepPaths :: "string list \<Rightarrow> keep_error + string list" where
  "CleanKeepPaths ins =
     (case keep_loop [] ins of
        Inl e \<Rightarrow> Inl e
      | Inr out \<Rightarrow> if length out > MaxKeepPaths then Inl Too_many_paths else Inr out)"

definition kept_ok :: "string \<Rightarrow> bool" where
  \<comment> \<open>names something below the server's files, on one line\<close>
  "kept_ok q \<longleftrightarrow>
     \<not> IsAbs q \<and> list_all plain_elem (elems q) \<and> elems q \<noteq> [] \<and> Clean q = q \<and> pattern_ok q
     \<and> CHR 0x0A \<notin> set q \<and> CHR 0x0D \<notin> set q \<and> CHR 0x00 \<notin> set q"

lemma push_elems_subset: "set (foldl (push_elem rooted) acc cs) \<subseteq> set acc \<union> set cs"
proof (induction cs arbitrary: acc)
  case (Cons c cs)
  have "set (push_elem rooted acc c) \<subseteq> set acc \<union> {c}"
    by (auto simp: push_elem_def split: list.splits)
  with Cons [of "push_elem rooted acc c"] show ?case by auto
qed simp

lemma elems_subset: "set (elems p) \<subseteq> set (split_on (CHR ''/'') p)"
  using push_elems_subset [of "IsAbs p" "[]"] by (auto simp: elems_def clean_elems_def)

lemma split_on_chars: "c \<in> set (split_on sep s) \<Longrightarrow> set c \<subseteq> set s"
  by (induction s arbitrary: c) (fastforce split: if_splits list.splits)+

lemma join_chars: "set (join sep xs) \<subseteq> set sep \<union> \<Union> (set ` set xs)"
  by (induction sep xs rule: join.induct) auto

lemma Clean_chars:
  assumes "x \<in> set (Clean p)" "x \<noteq> CHR ''/''" "x \<noteq> CHR ''.''" shows "x \<in> set p"
proof -
  have "x \<in> \<Union> (set ` set (elems p))"
    using assms join_chars [of "''/''" "elems p"] by (auto simp: Clean_def show_path_def split: if_splits)
  then show ?thesis using elems_subset [of p] split_on_chars by blast
qed

lemma no_climb: "''..'' \<notin> set cs \<Longrightarrow> \<not> climbs d cs"
  by (induction d cs rule: climbs.induct) auto

lemma elems_no_dots: "''..'' \<notin> set (split_on (CHR ''/'') p) \<Longrightarrow> list_all plain_elem (elems p)"
  using inside_clean [of "split_on (CHR ''/'') p" "[]"] no_climb [of "split_on (CHR ''/'') p" 0]
  by (auto simp: elems_def clean_elems_def split_on_no_sep)

lemma keep_path_ok:
  assumes "keep_path raw = Inr (Some q)" shows "kept_ok q"
proof -
  let ?p = "TrimSpace raw"
  have p: "?p \<noteq> []" "CHR 0x0A \<notin> set ?p" "CHR 0x0D \<notin> set ?p" "CHR 0x00 \<notin> set ?p" "\<not> prefix ''/'' ?p"
      "''..'' \<notin> set (split_on (CHR ''/'') ?p)" "q = Clean ?p" "q \<noteq> ''.''" "pattern_ok q"
    using assms by (auto simp: keep_path_def Let_def split: if_splits)
  have abs: "\<not> IsAbs ?p" using p(1,5) by (cases ?p) (auto simp: IsAbs_def)
  have "elems ?p \<noteq> []" using p(7,8) abs by (auto simp: Clean_def show_path_def)
  then show ?thesis
    using p abs elems_no_dots [OF p(6)] Clean_chars [of _ ?p] unfolding kept_ok_def by auto
qed

lemma keep_loop_ok:
  assumes "keep_loop out raws = Inr out'" "distinct out" "list_all kept_ok out"
  shows "distinct out' \<and> list_all kept_ok out'
    \<and> set out' = set out \<union> {q. \<exists>raw \<in> set raws. keep_path raw = Inr (Some q)}"
  using assms
proof (induction out raws rule: keep_loop.induct)
  case (2 out raw raws)
  show ?case
  proof (cases "keep_path raw")
    case (Inr x)
    then show ?thesis
      using 2 keep_path_ok [of raw] by (cases x) (auto split: if_splits)
  qed (use 2 in simp)
qed simp

text \<open>C38: A list of paths to keep that is accepted has no repeats, at most 64 entries, one for every
  entry of the request that is not blank, and each is a clean path to something below the server's
  files, never all of them, that fits on one line and is a pattern that can be read.\<close>

theorem kept_paths_stay_inside:
  assumes "CleanKeepPaths ins = Inr out"
  shows "distinct out \<and> length out \<le> 64
    \<and> (\<forall>q \<in> set out. \<not> IsAbs q \<and> list_all plain_elem (elems q) \<and> elems q \<noteq> [] \<and> Clean q = q \<and> pattern_ok q
         \<and> CHR 0x0A \<notin> set q \<and> CHR 0x0D \<notin> set q \<and> CHR 0x00 \<notin> set q)
    \<and> set out = {q. \<exists>raw \<in> set ins. keep_path raw = Inr (Some q)}
    \<and> (\<forall>raw \<in> set ins. \<exists>x. keep_path raw = Inr x)"
proof -
  obtain out' where o: "keep_loop [] ins = Inr out'" "length out' \<le> 64" "out' = out"
    using assms by (auto simp: CleanKeepPaths_def split: sum.splits if_splits)
  have "keep_loop acc raws = Inr res \<Longrightarrow> \<forall>raw \<in> set raws. \<exists>x. keep_path raw = Inr x" for acc raws res
    by (induction acc raws rule: keep_loop.induct) (auto split: sum.splits option.splits)
  with o keep_loop_ok [OF o(1)] show ?thesis by (auto simp: list_all_iff kept_ok_def)
qed

lemma kept_paths_stay_inside_witness:
  "CleanKeepPaths ['' ./world*/ '', ''plugins'', [], ''plugins''] = Inr [''world*'', ''plugins'']
   \<and> list_all plain_elem (elems ''world*'')"
proof
  show r: "CleanKeepPaths ['' ./world*/ '', ''plugins'', [], ''plugins''] = Inr [''world*'', ''plugins'']"
    by code_simp
  show "list_all plain_elem (elems ''world*'')" using kept_paths_stay_inside [OF r] by simp
qed

subsection \<open>What a backup leaves out\<close>

abbreviation maxIgnoreBytes :: nat where "maxIgnoreBytes \<equiv> 32 * 1024"
abbreviation maxIgnorePatterns :: nat where "maxIgnorePatterns \<equiv> 256"
abbreviation maxIgnoreWildcards :: nat where "maxIgnoreWildcards \<equiv> 16"

datatype ignore_error = List_too_large | Too_many_patterns | Too_many_wildcards nat | Not_a_pattern nat string

fun wildcards :: "string \<Rightarrow> nat" where
  "wildcards [] = 0"
| "wildcards [c] = (if c = CHR ''*'' then 1 else 0)"
| "wildcards (c # d # s) =
     (if c = CHR 0x5C then wildcards s else (if c = CHR ''*'' then 1 else 0) + wildcards (d # s))"

function bracket_negation :: "bool \<Rightarrow> string \<Rightarrow> string" where
  \<comment> \<open>the flag says that a bracket is open\<close>
  "bracket_negation r [] = []"
| "bracket_negation r (c # s) =
     (if c = CHR 0x5C \<and> s \<noteq> [] then c # hd s # bracket_negation r (tl s)
      else if c = CHR ''['' \<and> \<not> r then
        (if s \<noteq> [] \<and> hd s = CHR ''!'' then c # CHR ''^'' # bracket_negation True (tl s)
         else c # bracket_negation True s)
      else c # bracket_negation (if c = CHR '']'' then False else r) s)"
  by pat_completeness auto
termination by (relation "measure (\<lambda>(r, s). length s)") (auto simp: less_Suc_eq_le)

definition bracketNegation :: "string \<Rightarrow> string" where
  "bracketNegation p = bracket_negation False p"

definition checkPattern :: "string \<Rightarrow> string option" where
  \<comment> \<open>the first part that is no pattern\<close>
  "checkPattern p =
     find (\<lambda>part. part \<noteq> [] \<and> part \<noteq> ''**'' \<and> \<not> pattern_ok part) (split_on (CHR ''/'') p)"

definition dollars :: "string \<Rightarrow> string" where
  "dollars p = concat (map (\<lambda>c. if c = CHR ''$'' then ''$$'' else [c]) p)"

definition exclude :: "string \<Rightarrow> nat \<Rightarrow> string \<Rightarrow> ignore_error + string option" where
  \<comment> \<open>of one pattern, the spaces around it dropped\<close>
  "exclude root line p =
     (let neg = prefix ''!'' p;
          p1 = (if neg then tl p else p);
          p2 = trim_right ''/'' p1;
          p3 = trim_left ''/'' p2 in
      if wildcards p1 > maxIgnoreWildcards then Inl (Too_many_wildcards line)
      else if p3 = [] then Inr None
      else let p4 = root @ ''/'' @ bracketNegation (if CHR ''/'' \<in> set p2 then p3 else ''**/'' @ p3) in
        (case checkPattern p4 of
           Some part \<Rightarrow> Inl (Not_a_pattern line part)
         | None \<Rightarrow> Inr (Some (dollars ((if neg then ''!'' else []) @ p4)))))"

fun ignore_loop :: "string \<Rightarrow> nat \<Rightarrow> nat \<Rightarrow> string list \<Rightarrow> ignore_error + string list" where
  \<comment> \<open>the lines read and the patterns counted so far\<close>
  "ignore_loop root i n [] = Inr []"
| "ignore_loop root i n (line # lines) =
     (let l = trim_right [CHR 0x0D] line; p = trim_cut '' '' l in
      if prefix ''#'' l \<or> p = [] then ignore_loop root (Suc i) n lines
      else if Suc n > maxIgnorePatterns then Inl Too_many_patterns
      else case exclude root (Suc i) p of
          Inl e \<Rightarrow> Inl e
        | Inr x \<Rightarrow>
            (case ignore_loop root (Suc i) (Suc n) lines of
               Inl e \<Rightarrow> Inl e
             | Inr xs \<Rightarrow> Inr ((case x of None \<Rightarrow> [] | Some l \<Rightarrow> [l]) @ xs)))"

definition ResticExcludes :: "string \<Rightarrow> string \<Rightarrow> ignore_error + string" where
  "ResticExcludes txt root =
     (if length txt > maxIgnoreBytes then Inl List_too_large
      else case ignore_loop root 0 0 (split_on (CHR 0x0A) txt) of
          Inl e \<Rightarrow> Inl e | Inr xs \<Rightarrow> Inr (join [CHR 0x0A] xs))"

definition below_root :: "string \<Rightarrow> string \<Rightarrow> bool" where
  \<comment> \<open>an exclude that is written below the root, and that restic can read\<close>
  "below_root root l \<longleftrightarrow>
     (\<exists>neg q. (neg = [] \<or> neg = ''!'') \<and> q \<noteq> [] \<and> \<not> prefix ''/'' q \<and> l = dollars (neg @ root @ ''/'' @ q)
        \<and> checkPattern (root @ ''/'' @ q) = None)"

lemma bracket_negation_chars: "set (bracket_negation r s) \<subseteq> set s \<union> {CHR ''^''}"
proof (induction r s rule: bracket_negation.induct)
  case (2 r c s)
  have tl: "set (tl s) \<subseteq> set s" by (cases s) auto
  show ?case
  proof (cases "c = CHR 0x5C \<and> s \<noteq> []")
    case True
    then have "hd s \<in> set s" by simp
    with 2(1) [OF True] tl show ?thesis unfolding bracket_negation.simps(2) if_P [OF True] by auto
  next
    case esc: False
    show ?thesis
    proof (cases "c = CHR ''['' \<and> \<not> r")
      case br: True
      show ?thesis
      proof (cases "s \<noteq> [] \<and> hd s = CHR ''!''")
        case True
        with 2(2) [OF esc br True] tl show ?thesis
          unfolding bracket_negation.simps(2) if_not_P [OF esc] if_P [OF br] if_P [OF True] by auto
      next
        case False
        with 2(3) [OF esc br False] show ?thesis
          unfolding bracket_negation.simps(2) if_not_P [OF esc] if_P [OF br] if_not_P [OF False] by auto
      qed
    next
      case False
      from 2(4) [OF esc False] show ?thesis
        unfolding bracket_negation.simps(2) if_not_P [OF esc] if_not_P [OF False] by auto
    qed
  qed
qed simp

lemma bracket_negation_hd: "s \<noteq> [] \<Longrightarrow> bracket_negation r s \<noteq> [] \<and> hd (bracket_negation r s) = hd s"
  by (cases s) auto

lemma dollars_chars: "set (dollars p) = set p"
  by (auto simp: dollars_def split: if_splits)

lemma trim_left_head: "trim_left ''/'' p \<noteq> [] \<Longrightarrow> hd (trim_left ''/'' p) \<noteq> CHR ''/''"
  using hd_dropWhile [of "\<lambda>c. c \<in> set ''/''" p] by (auto simp: trim_left_def)

lemma trim_chars: "set (trim_left k p) \<subseteq> set p" "set (trim_right k p) \<subseteq> set p" "set (trim_cut k p) \<subseteq> set p"
proof -
  show l: "set (trim_left k p) \<subseteq> set p" for p by (auto simp: trim_left_def dest: set_dropWhileD)
  show r: "set (trim_right k p) \<subseteq> set p" for p by (auto simp: trim_right_def drop_while_end_def dest: set_dropWhileD)
  show "set (trim_cut k p) \<subseteq> set p" using l r by (fastforce simp: trim_cut_def)
qed

lemma exclude_ok:
  assumes "exclude root line p = Inr (Some l)"
  shows "below_root root l \<and> (CHR 0x0A \<notin> set root \<longrightarrow> CHR 0x0A \<notin> set p \<longrightarrow> CHR 0x0A \<notin> set l)"
proof -
  let ?p1 = "if prefix ''!'' p then tl p else p"
  let ?p2 = "trim_right ''/'' ?p1"
  let ?p3 = "trim_left ''/'' ?p2"
  let ?b = "if CHR ''/'' \<in> set ?p2 then ?p3 else ''**/'' @ ?p3"
  let ?q = "bracketNegation ?b" and ?neg = "if prefix ''!'' p then ''!'' else []"
  have l: "?p3 \<noteq> []" "checkPattern (root @ ''/'' @ ?q) = None" "l = dollars (?neg @ root @ ''/'' @ ?q)"
    using assms by (auto simp: exclude_def Let_def split: if_splits option.splits)
  have b: "?b \<noteq> []" "hd ?b \<noteq> CHR ''/''" using l(1) trim_left_head [of ?p2] by auto
  from bracket_negation_hd [OF b(1), of False] b(2)
  have q: "?q \<noteq> []" "\<not> prefix ''/'' ?q" by (auto simp: bracketNegation_def prefix_def)
  have "below_root root l"
    unfolding below_root_def by (rule exI [of _ ?neg], rule exI [of _ ?q]) (use q l in simp)
  moreover have "set (tl p) \<subseteq> set p" by (cases p) auto
  then have "set ?q \<subseteq> set p \<union> {CHR ''^'', CHR ''*'', CHR ''/''}"
    using bracket_negation_chars [of False ?b] trim_chars(1) [of "''/''" ?p2] trim_chars(2) [of "''/''" ?p1]
    unfolding bracketNegation_def by (fastforce split: if_splits)
  ultimately show ?thesis using l(3) by (auto simp: dollars_chars split: if_splits)
qed

lemma ignore_cases:
  assumes "(if Suc n > k then Inl e else case r of Inl e \<Rightarrow> Inl e
        | Inr x \<Rightarrow> (case rest of Inl e \<Rightarrow> Inl e | Inr xs \<Rightarrow> Inr ((case x of None \<Rightarrow> [] | Some l \<Rightarrow> [l]) @ xs))) = Inr ys"
    and "\<And>x zs. r = Inr x \<Longrightarrow> rest = Inr zs \<Longrightarrow> ys = (case x of None \<Rightarrow> [] | Some l \<Rightarrow> [l]) @ zs \<Longrightarrow> Suc n \<le> k \<Longrightarrow> thesis"
  shows thesis
  using assms by (cases "Suc n > k"; cases r; cases rest) auto

lemma ignore_loop_ok:
  assumes "ignore_loop root i n lines = Inr xs" "n \<le> maxIgnorePatterns"
  shows "n + length xs \<le> maxIgnorePatterns \<and> (\<forall>l \<in> set xs. below_root root l)
    \<and> (CHR 0x0A \<notin> set root \<longrightarrow> (\<forall>l \<in> set lines. CHR 0x0A \<notin> set l) \<longrightarrow> (\<forall>l \<in> set xs. CHR 0x0A \<notin> set l))"
  using assms
proof (induction root i n lines arbitrary: xs rule: ignore_loop.induct)
  case (2 root i n line lines)
  let ?l = "trim_right [CHR 0x0D] line" let ?p = "trim_cut '' '' ?l"
  show ?case
  proof (cases "prefix ''#'' ?l \<or> ?p = []")
    case True
    have "ignore_loop root (Suc i) n lines = Inr xs"
      using 2(3) unfolding ignore_loop.simps(2) Let_def if_P [OF True] .
    from 2(1) [OF refl refl True this 2(4)] show ?thesis by auto
  next
    case False
    obtain x ys where x: "exclude root (Suc i) ?p = Inr x" "ignore_loop root (Suc i) (Suc n) lines = Inr ys"
        "xs = (case x of None \<Rightarrow> [] | Some l \<Rightarrow> [l]) @ ys" "Suc n \<le> maxIgnorePatterns"
      using 2(3) unfolding ignore_loop.simps(2) Let_def if_not_P [OF False] by (rule ignore_cases)
    have ih: "Suc n + length ys \<le> maxIgnorePatterns \<and> (\<forall>l \<in> set ys. below_root root l)
      \<and> (CHR 0x0A \<notin> set root \<longrightarrow> (\<forall>l \<in> set lines. CHR 0x0A \<notin> set l) \<longrightarrow> (\<forall>l \<in> set ys. CHR 0x0A \<notin> set l))"
      by (rule 2(2) [OF refl refl False _ x(1) x(2)]) (use x(4) in simp_all)
    let ?here = "case x of None \<Rightarrow> [] | Some l \<Rightarrow> [l]"
    have p: "set ?p \<subseteq> set line"
      by (rule order.trans [OF trim_chars(3) trim_chars(2)])
    have here: "below_root root l \<and> (CHR 0x0A \<notin> set root \<longrightarrow> CHR 0x0A \<notin> set line \<longrightarrow> CHR 0x0A \<notin> set l)"
      if "l \<in> set ?here" for l
    proof -
      have "exclude root (Suc i) ?p = Inr (Some l)" using that x(1) by (simp split: option.splits)
      from exclude_ok [OF this] p show ?thesis by blast
    qed
    have len: "length ?here \<le> 1" by (simp split: option.split)
    show ?thesis
      unfolding x(3) set_append length_append using ih here len by (intro conjI) (linarith, blast, (simp, blast)?)
  qed
qed simp



text \<open>
  A pattern that climbs is not refused: to a reader that cleans its patterns, as restic does, it
  names what is beside the root.
\<close>

lemma excludes_can_climb:
  "ResticExcludes ''../dumps'' ''/data'' = Inr ''/data/../dumps'' \<and> Clean ''/data/../dumps'' = ''/dumps''"
  by code_simp

end
