(* ===== verification/Spec2Isabelle.thy ===== *)
theory Spec2Isabelle imports Store_Props Server_Ports Scheduler Account_Props Udp_Flows Rate_Limit Reconcile_Props Manager_Props File_Props Upload_Machine Outbox Path_Lists begin

text \<open>
  Quetzal, a control plane for game servers on Kubernetes, and a model of its core.

  \<^bold>\<open>The program.\<close> One API server, one controller per cluster and one activator per sleeping server
  share a relational database. Users act through the API (\<open>internal/api\<close>), which checks them and
  calls the store (\<open>internal/store\<close>); the controller (\<open>internal/reconciler\<close>, \<open>internal/backup\<close>,
  \<open>internal/hibernate\<close>, \<open>internal/transfer\<close>) reads the store, drives the cluster and writes back
  what it sees; the scheduler (\<open>internal/scheduler\<close>) runs chains of actions against the store; the
  activator (\<open>cmd/activator\<close>) stands before a sleeping server and calls the API to wake it. The
  store is where they meet, and its transactions are what keeps them apart.

  \<^bold>\<open>Method.\<close> Every exported operation of the store is one transaction or one statement, so it is one
  function from the database (a record with one list of rows per table) to a result; the error
  values are the constructors of \<open>store_error\<close>. Steps that run elsewhere are functions of what they
  read, and of arguments for what they are answered (by the API server, a console, a clock, a
  random source, a hash). Interleavings are inductive step relations over the database. Integers
  are \<open>int\<close> or \<open>nat\<close> where the code checks or bounds them, and words where wrap-around is in reach
  (VarInts, the idle window).

  \<^bold>\<open>Theories.\<close>
  \<^item> \<open>Prelude\<close>: rows, statements on tables, the collection \<open>row_simps\<close>; \<open>Go_Strings\<close>: the functions of
    package strings, printing and parsing of numbers, UTF-8.
  \<^item> \<open>Models\<close>, \<open>Store_Db\<close>: the rows of \<open>internal/models\<close>; the database and its locks.
  \<^item> \<open>Server_Power\<close>, \<open>Backups\<close>, \<open>Transfers\<close> (\<open>internal/store/store.go\<close>, \<open>transfer.go\<close>): start, stop, restart,
    hibernation, wake, reinstall; the operations queue; moves between clusters. \<open>Power_Spec\<close> is
    their contract, an abstract machine of servers' power states, operations and transfers, with
    its invariant. \<open>Store_Machine\<close> shows that each transaction is a run of that machine
    (\<open>machine_of\<close> is the abstraction), and \<open>Store_Props\<close> draws the consequences for every reachable
    database.
  \<^item> \<open>Pool_Interface\<close>, \<open>Node_Ports\<close>, \<open>Server_Ports\<close> (\<open>internal/store/portalloc.go\<close>,
    \<open>internal/reconciler/nodeport.go\<close>, \<open>internal/api/handlers.go\<close>): the locale of a pool of node ports,
    its interpretation by the table of allocations, the apply loop that moves refused ports
    (\<open>maxNodePortMoves\<close> bounds it), and the API's checks on a server's ports and exposure.
  \<^item> \<open>Fence\<close>, \<open>Schedules\<close>, \<open>Scheduler\<close> (\<open>internal/store/schedule.go\<close>, \<open>internal/scheduler\<close>): the locale of a
    generation that fences a run off, schedules as its interpretation, the tick and the chains of
    tasks. A chain waits for a backup in 5041 polls at most, which is its deadline over its step.
  \<^item> \<open>Accounts\<close>, \<open>Access\<close>, \<open>Account_Machine\<close>, \<open>Account_Props\<close> (\<open>internal/store\<close>, \<open>internal/api\<close>): accounts,
    sessions, reset links, e-mail confirmations, second factors, API and SSH keys, grants,
    invitations; the API's checks; the step relation of the credentials and what it preserves. The
    loop that consumes a recovery code ends because each lost race removes a code.
  \<^item> \<open>Minecraft\<close>, \<open>Wake_Gate\<close>, \<open>Udp_Flows\<close> (\<open>cmd/activator\<close>): the protocol, who wakes a server and how
    often, the flows of the UDP proxy.
  \<^item> \<open>Rate_Window\<close>, \<open>Rate_Limit\<close> (\<open>internal/ratelimit\<close>, \<open>internal/store/ratecounter.go\<close>): the locale of a
    counter with a fixed window and its two interpretations, the shared counters and the local
    ones.
  \<^item> \<open>Hibernate\<close> (\<open>internal/hibernate\<close> and the wake and active callbacks): the tick, with any other
    transaction between its statements.
  \<^item> \<open>Startup\<close>, \<open>Pod_Status\<close> (\<open>internal/startup\<close>, \<open>internal/reconciler\<close>): the done lines and their watcher;
    the pods' health, the phase, the endpoints and the events of a status.
  \<^item> \<open>Reconcile\<close>, \<open>Reconcile_Props\<close> (\<open>internal/reconciler/reconciler.go\<close>): a pass over a server, what it puts
    in place in which order, and what it never does; over the databases \<open>Store_Props\<close> reaches.
  \<^item> \<open>Backup_Manager\<close>, \<open>Transfer_Manager\<close> (\<open>internal/backup/manager.go\<close>, \<open>internal/transfer\<close>): an operation of
    the queue from its Job's submission to its end, and the steps of a transfer, each item of a
    list one function of the world (the database, the Jobs, the namespaces deleted).
  \<^item> \<open>Controller\<close>, \<open>Controller_Items\<close>, \<open>Controller_Props\<close>, \<open>Manager_Props\<close> (\<open>cmd/controller\<close>): both managers in the
    leader's loop, with any transaction of the API and any move of the cluster between reading a
    server and acting on an item, and a restart at any moment. \<open>world_ok\<close> ties the Jobs to the rows of
    the queue; \<open>tame\<close> is what leaves it alone, \<open>item_ok\<close> what an item keeps of it and of the lists in
    hand. The locale \<open>clients\<close> says what the API must keep to, and the store's transactions the API
    makes are its interpretation. The items of a list are atomic but for the reading of their
    server, which may be any time before.
  \<^item> \<open>Go_Paths\<close>, \<open>File_Jail\<close> (\<open>internal/api/files.go\<close>, \<open>filesbulk.go\<close>, \<open>internal/fileops/fileops.go\<close>): the packages
    path and path/filepath on element lists; how the API confines a client's path and the helper
    takes it back, the names of a bulk request, the listing's format.
  \<^item> \<open>File_Tree\<close>, \<open>Root_Fs\<close>, \<open>Volume_Ops\<close>, \<open>Archives\<close>, \<open>File_Ops\<close>, \<open>File_Props\<close> (\<open>internal/fileops\<close>): a volume as a
    tree over inodes, the resolution of \<open>os.Root\<close> and \<open>Resolve\<close> before it, the kernel's operations,
    packing and unpacking, and one run of the helper as a function of the volume. \<open>keeps\<close> is that an
    operation leaves the volume well-formed; the locale \<open>volume_frame\<close> is a relation every operation
    respects, interpreted as \<open>same_files\<close> (renames, moves) and \<open>more_files\<close> (copies, archives). \<open>Resolve\<close>
    tries 40 rounds, as the code does; the rounds of hard links end because each makes one.
  \<^item> \<open>Path_Lists\<close> (\<open>internal/models/keep.go\<close>, \<open>internal/backup/ignore.go\<close>): the paths a reinstall keeps and
    the exclude patterns of a backup, with the syntax of path.Match.
  \<^item> \<open>Outbox\<close> (\<open>internal/store/notification.go\<close>, \<open>internal/notify/notify.go\<close>): the events as an outbox, the
    dispatcher's passes over it with their retries, the pruning; what a delivery comes to is an
    argument.
  \<^item> \<open>File_Api\<close>, \<open>Uploads\<close>, \<open>Upload_Machine\<close> (\<open>internal/api\<close>, \<open>internal/store/upload.go\<close>): the file manager's
    requests and their commands, a write and its second attempt, and uploads in pieces: every
    request as a function, then the machine in which requests on one upload overlap, bytes arrive
    one write at a time and the collection takes no lock. The locale \<open>upload_client\<close> is what a
    client may send against what its upload then holds, interpreted for a client that sends its
    file and for any client.

  \<^bold>\<open>What is not modelled.\<close> The contents of the Kubernetes objects (\<open>build.go\<close>), the scripts of
  Jobs, the console, SFTP and database hosts' own protocols, the web
  interface, mail and the notifications' sinks, the template catalogue and the command line: they are I/O or
  presentation around the parts above. Regular expressions, hashes, sealing and the case tables
  of Unicode are arguments (\<open>go_lib\<close>, \<open>case_lib\<close>, \<open>cron_lib\<close>). A statement that fails for a reason outside
  the database's contents leaves it as it was and is not a branch of its function, but for the
  rate limiter, whose behaviour under a failing database is modelled. A pass of the reconciler
  reads one state of the database. Of a volume, permission bits, owners, times and lack of space are
  left out, and of \<open>os.Root\<close> the bound on the steps of one name; the number of links it follows, and what
  archive formats and compressors make of bytes, are arguments (\<open>helper\<close>). Nothing else writes to the
  volume during one run of the helper, but for uploads, whose machine has everything else act between
  the writes of a piece; an exec that runs the helper hands back its exit code.
\<close>

end
